(* ===== verification/Prelude.thy ===== *)
theory Prelude
  imports Main "HOL-Library.Word" "HOL-Library.Multiset" "HOL-Library.Mapping" "HOL-Library.AList_Mapping"
    "HOL-Library.Char_ord" "HOL-Library.List_Lexorder"
begin

text \<open>
  Shared ground of the development: the names of the machine types, the finite maps that
  stand for \<open>std::unordered_map\<close> (\<open>HOL-Library.Mapping\<close>), sorted enumerations of a map
  (the code always sorts before it exposes an order), byte strings, decimal rendering and
  the lemma collections the components add to.

  A \<open>std::string\<close> is a \<open>string\<close>: a HOL \<open>char\<close> is exactly one byte, and the order of
  \<open>Char_ord\<close> and \<open>List_Lexorder\<close> is the unsigned byte-lexicographic order of
  \<open>std::string::compare\<close>.
\<close>

unbundle bit_operations_syntax

type_synonym u8 = "8 word"
type_synonym u16 = "16 word"
type_synonym u32 = "32 word"
type_synonym u64 = "64 word"
type_synonym bytes = "u8 list"

named_theorems lookup_simps "lookups after an operation on a finite map or bucket index"
named_theorems outcome_simps "outcome, code and fields of a constructed status"
named_theorems frame_simps "state components an operation leaves unchanged"

lemma unat_u64_less: "unat (w :: u64) < 18446744073709551616"
proof -
  have "unat w < 2 ^ LENGTH(64)" by (rule unsigned_less)
  then show ?thesis by simp
qed

lemma unat_u32_less: "unat (w :: u32) < 4294967296"
proof -
  have "unat w < 2 ^ LENGTH(32)" by (rule unsigned_less)
  then show ?thesis by simp
qed

lemma unat_u8_less: "unat (w :: u8) < 256"
proof -
  have "unat w < 2 ^ LENGTH(8)" by (rule unsigned_less)
  then show ?thesis by simp
qed

lemma ucast_u8_u32_inj: "(ucast c :: u32) = ucast d \<Longrightarrow> c = (d :: u8)"
proof -
  have id: "take_bit 32 (unat w) = unat w" for w :: u8
    using unat_u8_less [of w] by (intro take_bit_nat_eq_self) simp
  assume "(ucast c :: u32) = ucast d"
  then have "unat (ucast c :: u32) = unat (ucast d :: u32)" by simp
  then show ?thesis by (simp add: unsigned_ucast_eq id word_unat_eq_iff)
qed

subsection \<open>Finite maps\<close>

lemma lookup_update_if [lookup_simps]:
  "Mapping.lookup (Mapping.update k v m) k' = (if k = k' then Some v else Mapping.lookup m k')"
  by (simp add: lookup_update')

lemma lookup_delete_if [lookup_simps]:
  "Mapping.lookup (Mapping.delete k m) k' = (if k = k' then None else Mapping.lookup m k')"
  by transfer auto

lemma lookup_empty_None [lookup_simps]: "Mapping.lookup Mapping.empty k = None"
  by (simp add: Mapping.lookup_empty)

lemma mem_keys_iff: "k \<in> Mapping.keys m \<longleftrightarrow> Mapping.lookup m k \<noteq> None"
  by (auto simp: keys_dom_lookup)

lemma mem_keys_Some: "Mapping.lookup m k = Some v \<Longrightarrow> k \<in> Mapping.keys m"
  by (simp add: mem_keys_iff)

definition map_size :: "('k, 'v) mapping \<Rightarrow> nat" where
  "map_size m = Mapping.size m"

definition has_key :: "('k, 'v) mapping \<Rightarrow> 'k \<Rightarrow> bool" where
  "has_key m k = (Mapping.lookup m k \<noteq> None)"

lemma has_key_update [lookup_simps]: "has_key (Mapping.update k v m) k' = (k = k' \<or> has_key m k')"
  by (auto simp: has_key_def lookup_simps)

lemma has_key_empty [simp]: "\<not> has_key Mapping.empty k"
  by (simp add: has_key_def lookup_simps)

text \<open>The values of a map in the order of their keys, as the code's sorted listings.\<close>

definition sorted_values :: "('k::linorder, 'v) mapping \<Rightarrow> 'v list" where
  "sorted_values m = map (\<lambda>k. the (Mapping.lookup m k)) (Mapping.ordered_keys m)"

lemma set_ordered_keys [simp]:
  "finite (Mapping.keys m) \<Longrightarrow> set (Mapping.ordered_keys m) = Mapping.keys m"
  by (simp add: ordered_keys_def)

lemma sorted_ordered_keys [simp]: "sorted (Mapping.ordered_keys m)"
  by (simp add: ordered_keys_def)

lemma distinct_ordered_keys [simp]: "distinct (Mapping.ordered_keys m)"
  by (simp add: ordered_keys_def)

lemma ordered_keys_empty [simp]: "Mapping.ordered_keys Mapping.empty = []"
  by (simp add: ordered_keys_def)

lemma set_sorted_values:
  "finite (Mapping.keys m) \<Longrightarrow> v \<in> set (sorted_values m) \<longleftrightarrow> (\<exists>k. Mapping.lookup m k = Some v)"
  by (force simp: sorted_values_def mem_keys_iff image_iff)

subsection \<open>Sorting by a key\<close>

lemma sorted_filter_key: "sorted (map f xs) \<Longrightarrow> sorted (map f (filter P xs))"
  by (rule sorted_filter)

lemma sort_key_sorted_id: "sorted (map f xs) \<Longrightarrow> sort_key f xs = xs"
  by (rule sort_key_id_if_sorted)

subsection \<open>Bytes and decimal rendering\<close>

definition bytes_of :: "string \<Rightarrow> bytes" where
  "bytes_of s = map (\<lambda>c. of_nat (of_char c)) s"

definition string_of :: "bytes \<Rightarrow> string" where
  "string_of bs = map (\<lambda>b. char_of (unat b)) bs"

lemma length_bytes_of [simp]: "length (bytes_of s) = length s"
  by (simp add: bytes_of_def)

lemma of_char_lt_256: "(of_char c :: nat) < 256"
proof -
  have "(of_char c :: nat) mod 256 < 256" by simp
  then show ?thesis by simp
qed

lemma unat_byte_of_char: "unat (of_nat (of_char c) :: u8) = of_char c"
  using of_char_lt_256 [of c] by (simp add: unat_of_nat)

lemma byte_char_byte: "(of_nat (of_char (char_of (unat b) :: char)) :: u8) = b"
proof -
  have "unat b < 2 ^ LENGTH(8)" by (rule unsigned_less)
  then have "(of_char (char_of (unat b) :: char) :: nat) = unat b" by simp
  then show ?thesis by (simp only: word_of_nat_eq_iff [symmetric] of_nat_unat ucast_id)
qed

lemma string_of_bytes_of [simp]: "string_of (bytes_of s) = s"
  by (induction s) (simp_all add: string_of_def bytes_of_def unat_byte_of_char)

lemma bytes_of_string_of [simp]: "bytes_of (string_of bs) = bs"
  by (induction bs) (simp_all add: string_of_def bytes_of_def byte_char_byte del: of_char_of)

fun decimal :: "nat \<Rightarrow> string" where
  "decimal n = (if n < 10 then [char_of (48 + n)] else decimal (n div 10) @ [char_of (48 + n mod 10)])"

declare decimal.simps [simp del]

definition u64_string :: "u64 \<Rightarrow> string" where
  "u64_string w = decimal (unat w)"

end
