(* ===== verification/Types.thy ===== *)
theory Types
  imports Prelude
begin

text \<open>
  The finite vocabularies of the topology model (\<open>include/fabric_topology/types.hpp\<close>,
  \<open>src/types.cpp\<close>): entity, node and relation classes, layers, tiers, lifecycle states,
  publication modes, their text tables, and the rule table that fixes the meaning of each
  relation class. Constructors carry a prefix because the C++ scoped enumerations share
  names (\<open>NodeClass::Site\<close> is \<open>NC_Site\<close>, \<open>EntityClass::Site\<close> is \<open>EC_Site\<close>).
\<close>

subsection \<open>Enumerations\<close>

datatype entity_class = EC_Unknown | EC_Fabric | EC_Site | EC_Device | EC_Switch | EC_Router
  | EC_Nic | EC_SmartNic | EC_Dpu | EC_Port | EC_LogicalPort | EC_Link | EC_Endpoint
  | EC_ControlParticipant

datatype node_class = NC_Unknown | NC_Site | NC_Fabric | NC_RackNetworkDomain | NC_Switch
  | NC_Router | NC_Nic | NC_SmartNic | NC_DpuEndpoint | NC_PhysicalPort | NC_LogicalPort
  | NC_FabricEndpoint | NC_LogicalEndpoint

datatype relation_class = RC_Unknown | RC_ConnectedTo | RC_AttachedTo | RC_Contains | RC_MemberOf
  | RC_UplinkTo | RC_DownlinkTo | RC_PeersWith | RC_BackedBy | RC_TunneledOver
  | RC_LogicallyConnectedTo | RC_HostedBy | RC_PresentsEndpoint | RC_FabricMembership

datatype directionality = Directed | Undirected

datatype topology_layer = Physical | Logical

datatype topology_tier = TT_Unspecified | TT_Endpoint | TT_Access | TT_TopOfRack | TT_Leaf
  | TT_Spine | TT_SuperSpine | TT_Border | TT_Gateway | TT_SiteEdge | TT_InterSite
  | TT_OpticalInterconnect

datatype scope_kind = SK_Fabric | SK_Site | SK_AdministrativeDomain | SK_PhysicalDomain
  | SK_LogicalDomain | SK_ControlPlaneDomain

datatype lifecycle_state = LS_Unknown | LS_Current | LS_RevalidationRequired | LS_Superseded
  | LS_Retired | LS_Conflicted

datatype publication_mode = PM_Incremental | PM_AuthoritativeSnapshot | PM_PartialObservation

datatype publication_type = PT_Real | PT_Synthetic | PT_Unsupported

datatype discovery_source = DS_Unknown | DS_FabricRegistry | DS_HostDiscovery
  | DS_ControllerPublication | DS_OperatorDeclaration | DS_SyntheticGenerator
  | DS_PersistenceRecovery

datatype layer_policy = LP_PhysicalOnly | LP_LogicalOnly | LP_Either

datatype cycle_rule = CR_Acyclic | CR_CyclesAllowed

subsection \<open>Name tables\<close>

text \<open>The two lookups the source instantiates for every enumeration.\<close>

fun name_of :: "('a \<times> string) list \<Rightarrow> 'a \<Rightarrow> string option" where
  "name_of [] v = None"
| "name_of (entry # table) v = (if fst entry = v then Some (snd entry) else name_of table v)"

fun value_of :: "('a \<times> string) list \<Rightarrow> string \<Rightarrow> 'a option" where
  "value_of [] text = None"
| "value_of (entry # table) text = (if text = snd entry then Some (fst entry) else value_of table text)"

definition name_or :: "string \<Rightarrow> ('a \<times> string) list \<Rightarrow> 'a \<Rightarrow> string" where
  "name_or fallback table v = (case name_of table v of Some name \<Rightarrow> name | None \<Rightarrow> fallback)"

definition kEntityClassNames :: "(entity_class \<times> string) list" where
  "kEntityClassNames = [(EC_Unknown, ''UNKNOWN''), (EC_Fabric, ''FABRIC''), (EC_Site, ''SITE''),
     (EC_Device, ''DEVICE''), (EC_Switch, ''SWITCH''), (EC_Router, ''ROUTER''), (EC_Nic, ''NIC''),
     (EC_SmartNic, ''SMARTNIC''), (EC_Dpu, ''DPU''), (EC_Port, ''PORT''),
     (EC_LogicalPort, ''LOGICAL_PORT''), (EC_Link, ''LINK''), (EC_Endpoint, ''ENDPOINT''),
     (EC_ControlParticipant, ''CONTROL_PARTICIPANT'')]"

definition kNodeClassNames :: "(node_class \<times> string) list" where
  "kNodeClassNames = [(NC_Unknown, ''UNKNOWN''), (NC_Site, ''SITE''), (NC_Fabric, ''FABRIC''),
     (NC_RackNetworkDomain, ''RACK_NETWORK_DOMAIN''), (NC_Switch, ''SWITCH''),
     (NC_Router, ''ROUTER''), (NC_Nic, ''NIC''), (NC_SmartNic, ''SMARTNIC''),
     (NC_DpuEndpoint, ''DPU_ENDPOINT''), (NC_PhysicalPort, ''PHYSICAL_PORT''),
     (NC_LogicalPort, ''LOGICAL_PORT''), (NC_FabricEndpoint, ''FABRIC_ENDPOINT''),
     (NC_LogicalEndpoint, ''LOGICAL_ENDPOINT'')]"

definition kRelationNames :: "(relation_class \<times> string) list" where
  "kRelationNames = [(RC_Unknown, ''UNKNOWN''), (RC_ConnectedTo, ''CONNECTED_TO''),
     (RC_AttachedTo, ''ATTACHED_TO''), (RC_Contains, ''CONTAINS''), (RC_MemberOf, ''MEMBER_OF''),
     (RC_UplinkTo, ''UPLINK_TO''), (RC_DownlinkTo, ''DOWNLINK_TO''), (RC_PeersWith, ''PEERS_WITH''),
     (RC_BackedBy, ''BACKED_BY''), (RC_TunneledOver, ''TUNNELED_OVER''),
     (RC_LogicallyConnectedTo, ''LOGICALLY_CONNECTED_TO''), (RC_HostedBy, ''HOSTED_BY''),
     (RC_PresentsEndpoint, ''PRESENTS_ENDPOINT''), (RC_FabricMembership, ''FABRIC_MEMBERSHIP'')]"

definition kTierNames :: "(topology_tier \<times> string) list" where
  "kTierNames = [(TT_Unspecified, ''UNSPECIFIED''), (TT_Endpoint, ''ENDPOINT''),
     (TT_Access, ''ACCESS''), (TT_TopOfRack, ''TOP_OF_RACK''), (TT_Leaf, ''LEAF''),
     (TT_Spine, ''SPINE''), (TT_SuperSpine, ''SUPER_SPINE''), (TT_Border, ''BORDER''),
     (TT_Gateway, ''GATEWAY''), (TT_SiteEdge, ''SITE_EDGE''), (TT_InterSite, ''INTER_SITE''),
     (TT_OpticalInterconnect, ''OPTICAL_INTERCONNECT'')]"

definition kScopeKindNames :: "(scope_kind \<times> string) list" where
  "kScopeKindNames = [(SK_Fabric, ''FABRIC''), (SK_Site, ''SITE''),
     (SK_AdministrativeDomain, ''ADMINISTRATIVE_DOMAIN''), (SK_PhysicalDomain, ''PHYSICAL_DOMAIN''),
     (SK_LogicalDomain, ''LOGICAL_DOMAIN''), (SK_ControlPlaneDomain, ''CONTROL_PLANE_DOMAIN'')]"

definition kLifecycleNames :: "(lifecycle_state \<times> string) list" where
  "kLifecycleNames = [(LS_Unknown, ''UNKNOWN''), (LS_Current, ''CURRENT''),
     (LS_RevalidationRequired, ''REVALIDATION_REQUIRED''), (LS_Superseded, ''SUPERSEDED''),
     (LS_Retired, ''RETIRED''), (LS_Conflicted, ''CONFLICTED'')]"

definition kPublicationModeNames :: "(publication_mode \<times> string) list" where
  "kPublicationModeNames = [(PM_Incremental, ''INCREMENTAL''),
     (PM_AuthoritativeSnapshot, ''AUTHORITATIVE_SNAPSHOT''),
     (PM_PartialObservation, ''PARTIAL_OBSERVATION'')]"

definition kPublicationTypeNames :: "(publication_type \<times> string) list" where
  "kPublicationTypeNames = [(PT_Real, ''REAL''), (PT_Synthetic, ''SYNTHETIC''),
     (PT_Unsupported, ''UNSUPPORTED'')]"

definition kDiscoverySourceNames :: "(discovery_source \<times> string) list" where
  "kDiscoverySourceNames = [(DS_Unknown, ''UNKNOWN''), (DS_FabricRegistry, ''FABRIC_REGISTRY''),
     (DS_HostDiscovery, ''HOST_DISCOVERY''), (DS_ControllerPublication, ''CONTROLLER_PUBLICATION''),
     (DS_OperatorDeclaration, ''OPERATOR_DECLARATION''), (DS_SyntheticGenerator, ''SYNTHETIC_GENERATOR''),
     (DS_PersistenceRecovery, ''PERSISTENCE_RECOVERY'')]"

definition entity_class_string :: "entity_class \<Rightarrow> string" where
  "entity_class_string = name_or ''UNKNOWN'' kEntityClassNames"

definition entity_class_from_string :: "string \<Rightarrow> entity_class option" where
  "entity_class_from_string = value_of kEntityClassNames"

definition node_class_string :: "node_class \<Rightarrow> string" where
  "node_class_string = name_or ''UNKNOWN'' kNodeClassNames"

definition node_class_from_string :: "string \<Rightarrow> node_class option" where
  "node_class_from_string = value_of kNodeClassNames"

definition relation_string :: "relation_class \<Rightarrow> string" where
  "relation_string = name_or ''UNKNOWN'' kRelationNames"

definition relation_class_from_string :: "string \<Rightarrow> relation_class option" where
  "relation_class_from_string = value_of kRelationNames"

definition directionality_string :: "directionality \<Rightarrow> string" where
  "directionality_string v = (if v = Undirected then ''UNDIRECTED'' else ''DIRECTED'')"

definition layer_string :: "topology_layer \<Rightarrow> string" where
  "layer_string v = (if v = Logical then ''LOGICAL'' else ''PHYSICAL'')"

definition topology_layer_from_string :: "string \<Rightarrow> topology_layer option" where
  "topology_layer_from_string text =
     (if text = ''PHYSICAL'' then Some Physical
      else if text = ''LOGICAL'' then Some Logical else None)"

definition tier_string :: "topology_tier \<Rightarrow> string" where
  "tier_string = name_or ''UNSPECIFIED'' kTierNames"

definition topology_tier_from_string :: "string \<Rightarrow> topology_tier option" where
  "topology_tier_from_string = value_of kTierNames"

definition scope_kind_string :: "scope_kind \<Rightarrow> string" where
  "scope_kind_string = name_or ''ADMINISTRATIVE_DOMAIN'' kScopeKindNames"

definition scope_kind_from_string :: "string \<Rightarrow> scope_kind option" where
  "scope_kind_from_string = value_of kScopeKindNames"

definition lifecycle_string :: "lifecycle_state \<Rightarrow> string" where
  "lifecycle_string = name_or ''UNKNOWN'' kLifecycleNames"

definition lifecycle_state_from_string :: "string \<Rightarrow> lifecycle_state option" where
  "lifecycle_state_from_string = value_of kLifecycleNames"

definition lifecycle_is_queryable :: "lifecycle_state \<Rightarrow> bool" where
  "lifecycle_is_queryable v =
     (v = LS_Current \<or> v = LS_RevalidationRequired \<or> v = LS_Conflicted)"

definition publication_mode_string :: "publication_mode \<Rightarrow> string" where
  "publication_mode_string = name_or ''INCREMENTAL'' kPublicationModeNames"

definition publication_mode_from_string :: "string \<Rightarrow> publication_mode option" where
  "publication_mode_from_string = value_of kPublicationModeNames"

definition publication_type_string :: "publication_type \<Rightarrow> string" where
  "publication_type_string = name_or ''UNSUPPORTED'' kPublicationTypeNames"

definition publication_type_from_string :: "string \<Rightarrow> publication_type option" where
  "publication_type_from_string = value_of kPublicationTypeNames"

definition discovery_source_string :: "discovery_source \<Rightarrow> string" where
  "discovery_source_string = name_or ''UNKNOWN'' kDiscoverySourceNames"

definition discovery_source_from_string :: "string \<Rightarrow> discovery_source option" where
  "discovery_source_from_string = value_of kDiscoverySourceNames"

subsection \<open>A complete, unambiguous name table\<close>

text \<open>
  What makes a table usable in both directions: every value has exactly one entry and no
  name is used twice. The round trip is proved once, here, and instantiated for each table.
\<close>

locale name_table =
  fixes table :: "('a \<times> string) list"
  assumes distinct_values: "distinct (map fst table)"
    and distinct_names: "distinct (map snd table)"
    and complete: "v \<in> set (map fst table)"
begin

lemma name_of_entry: "(v, name) \<in> set table \<Longrightarrow> name_of table v = Some name"
  using distinct_values by (induction table) (auto simp: rev_image_eqI)

lemma value_of_entry: "(v, name) \<in> set table \<Longrightarrow> value_of table name = Some v"
  using distinct_names by (induction table) (auto simp: rev_image_eqI)

lemma value_of_in: "value_of table name = Some v \<Longrightarrow> (v, name) \<in> set table"
  by (induction table) (auto split: if_splits)

lemma name_entry: "(v, name_or fallback table v) \<in> set table"
proof -
  from complete [of v] obtain name where "(v, name) \<in> set table" by auto
  then show ?thesis by (simp add: name_or_def name_of_entry)
qed

lemma from_string_to_string: "value_of table (name_or fallback table v) = Some v"
  by (rule value_of_entry) (rule name_entry)

lemma to_string_from_string:
  "value_of table name = Some v \<Longrightarrow> name_or fallback table v = name"
  by (auto simp: name_or_def name_of_entry dest: value_of_in)

end

lemmas name_tables = kEntityClassNames_def kNodeClassNames_def kRelationNames_def kTierNames_def
  kScopeKindNames_def kLifecycleNames_def kPublicationModeNames_def kPublicationTypeNames_def
  kDiscoverySourceNames_def

interpretation entity_names: name_table kEntityClassNames
proof
  show "v \<in> set (map fst kEntityClassNames)" for v by (cases v) (simp_all add: name_tables)
qed (simp_all add: name_tables)

interpretation node_names: name_table kNodeClassNames
proof
  show "v \<in> set (map fst kNodeClassNames)" for v by (cases v) (simp_all add: name_tables)
qed (simp_all add: name_tables)

interpretation relation_names: name_table kRelationNames
proof
  show "v \<in> set (map fst kRelationNames)" for v by (cases v) (simp_all add: name_tables)
qed (simp_all add: name_tables)

interpretation tier_names: name_table kTierNames
proof
  show "v \<in> set (map fst kTierNames)" for v by (cases v) (simp_all add: name_tables)
qed (simp_all add: name_tables)

interpretation scope_kind_names: name_table kScopeKindNames
proof
  show "v \<in> set (map fst kScopeKindNames)" for v by (cases v) (simp_all add: name_tables)
qed (simp_all add: name_tables)

interpretation lifecycle_names: name_table kLifecycleNames
proof
  show "v \<in> set (map fst kLifecycleNames)" for v by (cases v) (simp_all add: name_tables)
qed (simp_all add: name_tables)

interpretation mode_names: name_table kPublicationModeNames
proof
  show "v \<in> set (map fst kPublicationModeNames)" for v by (cases v) (simp_all add: name_tables)
qed (simp_all add: name_tables)

interpretation type_names: name_table kPublicationTypeNames
proof
  show "v \<in> set (map fst kPublicationTypeNames)" for v by (cases v) (simp_all add: name_tables)
qed (simp_all add: name_tables)

interpretation source_names: name_table kDiscoverySourceNames
proof
  show "v \<in> set (map fst kDiscoverySourceNames)" for v by (cases v) (simp_all add: name_tables)
qed (simp_all add: name_tables)

subsection \<open>Numeric values\<close>

text \<open>The underlying \<open>std::uint8_t\<close> of each enumeration (\<open>static_cast\<close> in the source).\<close>

fun entity_class_code :: "entity_class \<Rightarrow> u8" where
  "entity_class_code EC_Unknown = 0"
| "entity_class_code EC_Fabric = 1"
| "entity_class_code EC_Site = 2"
| "entity_class_code EC_Device = 3"
| "entity_class_code EC_Switch = 4"
| "entity_class_code EC_Router = 5"
| "entity_class_code EC_Nic = 6"
| "entity_class_code EC_SmartNic = 7"
| "entity_class_code EC_Dpu = 8"
| "entity_class_code EC_Port = 9"
| "entity_class_code EC_LogicalPort = 10"
| "entity_class_code EC_Link = 11"
| "entity_class_code EC_Endpoint = 12"
| "entity_class_code EC_ControlParticipant = 13"

fun node_class_code :: "node_class \<Rightarrow> u8" where
  "node_class_code NC_Unknown = 0"
| "node_class_code NC_Site = 1"
| "node_class_code NC_Fabric = 2"
| "node_class_code NC_RackNetworkDomain = 3"
| "node_class_code NC_Switch = 4"
| "node_class_code NC_Router = 5"
| "node_class_code NC_Nic = 6"
| "node_class_code NC_SmartNic = 7"
| "node_class_code NC_DpuEndpoint = 8"
| "node_class_code NC_PhysicalPort = 9"
| "node_class_code NC_LogicalPort = 10"
| "node_class_code NC_FabricEndpoint = 11"
| "node_class_code NC_LogicalEndpoint = 12"

fun relation_code :: "relation_class \<Rightarrow> u8" where
  "relation_code RC_Unknown = 0"
| "relation_code RC_ConnectedTo = 1"
| "relation_code RC_AttachedTo = 2"
| "relation_code RC_Contains = 3"
| "relation_code RC_MemberOf = 4"
| "relation_code RC_UplinkTo = 5"
| "relation_code RC_DownlinkTo = 6"
| "relation_code RC_PeersWith = 7"
| "relation_code RC_BackedBy = 8"
| "relation_code RC_TunneledOver = 9"
| "relation_code RC_LogicallyConnectedTo = 10"
| "relation_code RC_HostedBy = 11"
| "relation_code RC_PresentsEndpoint = 12"
| "relation_code RC_FabricMembership = 13"

fun directionality_code :: "directionality \<Rightarrow> u8" where
  "directionality_code Directed = 0"
| "directionality_code Undirected = 1"

fun layer_code :: "topology_layer \<Rightarrow> u8" where
  "layer_code Physical = 0"
| "layer_code Logical = 1"

fun tier_code :: "topology_tier \<Rightarrow> u8" where
  "tier_code TT_Unspecified = 0"
| "tier_code TT_Endpoint = 1"
| "tier_code TT_Access = 2"
| "tier_code TT_TopOfRack = 3"
| "tier_code TT_Leaf = 4"
| "tier_code TT_Spine = 5"
| "tier_code TT_SuperSpine = 6"
| "tier_code TT_Border = 7"
| "tier_code TT_Gateway = 8"
| "tier_code TT_SiteEdge = 9"
| "tier_code TT_InterSite = 10"
| "tier_code TT_OpticalInterconnect = 11"

fun lifecycle_code :: "lifecycle_state \<Rightarrow> u8" where
  "lifecycle_code LS_Unknown = 0"
| "lifecycle_code LS_Current = 1"
| "lifecycle_code LS_RevalidationRequired = 2"
| "lifecycle_code LS_Superseded = 3"
| "lifecycle_code LS_Retired = 4"
| "lifecycle_code LS_Conflicted = 5"

fun publication_type_code :: "publication_type \<Rightarrow> u8" where
  "publication_type_code PT_Real = 0"
| "publication_type_code PT_Synthetic = 1"
| "publication_type_code PT_Unsupported = 2"

fun discovery_source_code :: "discovery_source \<Rightarrow> u8" where
  "discovery_source_code DS_Unknown = 0"
| "discovery_source_code DS_FabricRegistry = 1"
| "discovery_source_code DS_HostDiscovery = 2"
| "discovery_source_code DS_ControllerPublication = 3"
| "discovery_source_code DS_OperatorDeclaration = 4"
| "discovery_source_code DS_SyntheticGenerator = 5"
| "discovery_source_code DS_PersistenceRecovery = 6"

fun scope_kind_code :: "scope_kind \<Rightarrow> u8" where
  "scope_kind_code SK_Fabric = 0"
| "scope_kind_code SK_Site = 1"
| "scope_kind_code SK_AdministrativeDomain = 2"
| "scope_kind_code SK_PhysicalDomain = 3"
| "scope_kind_code SK_LogicalDomain = 4"
| "scope_kind_code SK_ControlPlaneDomain = 5"

fun publication_mode_code :: "publication_mode \<Rightarrow> u8" where
  "publication_mode_code PM_Incremental = 0"
| "publication_mode_code PM_AuthoritativeSnapshot = 1"
| "publication_mode_code PM_PartialObservation = 2"

subsection \<open>Node class masks and relation rules\<close>

fun node_class_entity_class :: "node_class \<Rightarrow> entity_class" where
  "node_class_entity_class NC_Site = EC_Site"
| "node_class_entity_class NC_Fabric = EC_Fabric"
| "node_class_entity_class NC_RackNetworkDomain = EC_Site"
| "node_class_entity_class NC_Switch = EC_Switch"
| "node_class_entity_class NC_Router = EC_Router"
| "node_class_entity_class NC_Nic = EC_Nic"
| "node_class_entity_class NC_SmartNic = EC_SmartNic"
| "node_class_entity_class NC_DpuEndpoint = EC_Dpu"
| "node_class_entity_class NC_PhysicalPort = EC_Port"
| "node_class_entity_class NC_LogicalPort = EC_LogicalPort"
| "node_class_entity_class NC_FabricEndpoint = EC_Endpoint"
| "node_class_entity_class NC_LogicalEndpoint = EC_Endpoint"
| "node_class_entity_class NC_Unknown = EC_Unknown"

definition node_class_bit :: "node_class \<Rightarrow> u32" where
  "node_class_bit v = push_bit (unat (node_class_code v)) 1"

definition node_class_in_mask :: "u32 \<Rightarrow> node_class \<Rightarrow> bool" where
  "node_class_in_mask m v = (v \<noteq> NC_Unknown \<and> m AND node_class_bit v \<noteq> 0)"

definition node_class_is_endpoint :: "node_class \<Rightarrow> bool" where
  "node_class_is_endpoint v = (v \<noteq> NC_Unknown)"

definition mask_of :: "node_class list \<Rightarrow> u32" where
  "mask_of classes = foldl (\<lambda>result v. result OR node_class_bit v) 0 classes"

definition kPortish :: u32 where
  "kPortish = mask_of [NC_PhysicalPort, NC_LogicalPort, NC_FabricEndpoint, NC_LogicalEndpoint]"

definition kSwitchish :: u32 where
  "kSwitchish = mask_of [NC_Switch, NC_Router]"

definition kEndpointish :: u32 where
  "kEndpointish = mask_of [NC_Nic, NC_SmartNic, NC_DpuEndpoint, NC_PhysicalPort, NC_LogicalPort]"

definition kContainerish :: u32 where
  "kContainerish = mask_of [NC_Site, NC_Fabric, NC_RackNetworkDomain, NC_Switch, NC_Router]"

definition kAllNodeClasses :: u32 where
  "kAllNodeClasses = 0x1FFF"

definition kMemberFrom :: u32 where
  "kMemberFrom = mask_of [NC_Site, NC_RackNetworkDomain, NC_Switch, NC_Router, NC_Nic, NC_SmartNic,
     NC_DpuEndpoint, NC_PhysicalPort, NC_LogicalPort, NC_FabricEndpoint, NC_LogicalEndpoint]"

definition kMemberTo :: u32 where
  "kMemberTo = mask_of [NC_Fabric, NC_Site, NC_RackNetworkDomain]"

definition kBackedFrom :: u32 where
  "kBackedFrom = mask_of [NC_LogicalPort, NC_LogicalEndpoint, NC_FabricEndpoint]"

definition kBackedTo :: u32 where
  "kBackedTo = mask_of [NC_LogicalPort, NC_PhysicalPort, NC_Nic, NC_SmartNic, NC_DpuEndpoint,
     NC_Switch, NC_Router, NC_FabricEndpoint]"

definition kPresentFrom :: u32 where
  "kPresentFrom = mask_of [NC_Nic, NC_SmartNic, NC_DpuEndpoint, NC_Switch, NC_Router,
     NC_PhysicalPort, NC_LogicalPort]"

definition kPresentTo :: u32 where
  "kPresentTo = mask_of [NC_PhysicalPort, NC_LogicalPort, NC_FabricEndpoint, NC_LogicalEndpoint]"

definition kHostedFrom :: u32 where
  "kHostedFrom = mask_of [NC_Nic, NC_SmartNic, NC_DpuEndpoint, NC_PhysicalPort, NC_Switch]"

definition kHostedTo :: u32 where
  "kHostedTo = mask_of [NC_Switch, NC_Router, NC_Nic, NC_SmartNic, NC_DpuEndpoint]"

definition kAttachedTo :: u32 where
  "kAttachedTo = mask_of [NC_Switch, NC_Router, NC_PhysicalPort, NC_LogicalPort]"

definition kFabricMembershipFrom :: u32 where
  "kFabricMembershipFrom = mask_of [NC_Site, NC_RackNetworkDomain, NC_Switch, NC_Router]"

record relation_rule =
  rule_relation :: relation_class
  rule_direction :: directionality
  rule_layer_policy :: layer_policy
  rule_cycle_rule :: cycle_rule
  rule_self_edge_allowed :: bool
  rule_from_mask :: u32
  rule_to_mask :: u32

definition rules_of ::
  "relation_class \<Rightarrow> directionality \<Rightarrow> layer_policy \<Rightarrow> cycle_rule \<Rightarrow> u32 \<Rightarrow> u32 \<Rightarrow> relation_rule" where
  "rules_of r d l c from_mask to_mask =
     \<lparr>rule_relation = r, rule_direction = d, rule_layer_policy = l, rule_cycle_rule = c,
      rule_self_edge_allowed = False, rule_from_mask = from_mask, rule_to_mask = to_mask\<rparr>"

text \<open>
  The table \<open>kRelationRules\<close>, one equation per row. The index of a row is the numeric value
  of its class, so the lookup of \<open>relation_rules\<close> never takes its out-of-range branch.
\<close>

fun relation_rules :: "relation_class \<Rightarrow> relation_rule" where
  "relation_rules RC_Unknown = rules_of RC_Unknown Directed LP_Either CR_Acyclic 0 0"
| "relation_rules RC_ConnectedTo =
     rules_of RC_ConnectedTo Undirected LP_PhysicalOnly CR_CyclesAllowed kPortish kPortish"
| "relation_rules RC_AttachedTo =
     rules_of RC_AttachedTo Directed LP_PhysicalOnly CR_CyclesAllowed kEndpointish kAttachedTo"
| "relation_rules RC_Contains =
     rules_of RC_Contains Directed LP_Either CR_Acyclic kContainerish kAllNodeClasses"
| "relation_rules RC_MemberOf =
     rules_of RC_MemberOf Directed LP_Either CR_Acyclic kMemberFrom kMemberTo"
| "relation_rules RC_UplinkTo =
     rules_of RC_UplinkTo Directed LP_PhysicalOnly CR_CyclesAllowed
       (kSwitchish OR node_class_bit NC_PhysicalPort) (kSwitchish OR node_class_bit NC_PhysicalPort)"
| "relation_rules RC_DownlinkTo =
     rules_of RC_DownlinkTo Directed LP_PhysicalOnly CR_CyclesAllowed
       (kSwitchish OR node_class_bit NC_PhysicalPort) (kSwitchish OR node_class_bit NC_PhysicalPort)"
| "relation_rules RC_PeersWith =
     rules_of RC_PeersWith Undirected LP_LogicalOnly CR_CyclesAllowed kSwitchish kSwitchish"
| "relation_rules RC_BackedBy =
     rules_of RC_BackedBy Directed LP_LogicalOnly CR_Acyclic kBackedFrom kBackedTo"
| "relation_rules RC_TunneledOver =
     rules_of RC_TunneledOver Directed LP_LogicalOnly CR_CyclesAllowed kPortish (kPortish OR kSwitchish)"
| "relation_rules RC_LogicallyConnectedTo =
     rules_of RC_LogicallyConnectedTo Undirected LP_LogicalOnly CR_CyclesAllowed kPortish kPortish"
| "relation_rules RC_HostedBy =
     rules_of RC_HostedBy Directed LP_PhysicalOnly CR_Acyclic kHostedFrom kHostedTo"
| "relation_rules RC_PresentsEndpoint =
     rules_of RC_PresentsEndpoint Directed LP_PhysicalOnly CR_Acyclic kPresentFrom kPresentTo"
| "relation_rules RC_FabricMembership =
     rules_of RC_FabricMembership Directed LP_LogicalOnly CR_Acyclic kFabricMembershipFrom
       (node_class_bit NC_Fabric)"

definition relation_endpoints_permitted :: "relation_class \<Rightarrow> node_class \<Rightarrow> node_class \<Rightarrow> bool" where
  "relation_endpoints_permitted relation from_class to_class =
     (node_class_in_mask (rule_from_mask (relation_rules relation)) from_class \<and>
      node_class_in_mask (rule_to_mask (relation_rules relation)) to_class)"

definition relation_layer_permitted :: "relation_class \<Rightarrow> topology_layer \<Rightarrow> bool" where
  "relation_layer_permitted relation layer =
     (case rule_layer_policy (relation_rules relation) of
        LP_PhysicalOnly \<Rightarrow> layer = Physical
      | LP_LogicalOnly \<Rightarrow> layer = Logical
      | LP_Either \<Rightarrow> True)"

definition render_relation :: "relation_class \<Rightarrow> node_class \<Rightarrow> node_class \<Rightarrow> string" where
  "render_relation relation from_class to_class =
     node_class_string from_class @ '' -['' @ relation_string relation @ '']-> '' @
     node_class_string to_class"

subsection \<open>Text round trip\<close>

lemma layer_round_trip: "topology_layer_from_string (layer_string v) = Some v"
  by (cases v) (simp_all add: topology_layer_from_string_def layer_string_def)

text \<open>Parsing the text of an enumerator gives it back, for each of the ten vocabularies that have
  a parser.\<close>

theorem enum_text_round_trip:
  "(\<forall>v. entity_class_from_string (entity_class_string v) = Some v) \<and>
   (\<forall>v. node_class_from_string (node_class_string v) = Some v) \<and>
   (\<forall>v. relation_class_from_string (relation_string v) = Some v) \<and>
   (\<forall>v. topology_layer_from_string (layer_string v) = Some v) \<and>
   (\<forall>v. topology_tier_from_string (tier_string v) = Some v) \<and>
   (\<forall>v. scope_kind_from_string (scope_kind_string v) = Some v) \<and>
   (\<forall>v. lifecycle_state_from_string (lifecycle_string v) = Some v) \<and>
   (\<forall>v. publication_mode_from_string (publication_mode_string v) = Some v) \<and>
   (\<forall>v. publication_type_from_string (publication_type_string v) = Some v) \<and>
   (\<forall>v. discovery_source_from_string (discovery_source_string v) = Some v)"
  by (simp add: entity_class_from_string_def entity_class_string_def node_class_from_string_def
      node_class_string_def relation_class_from_string_def relation_string_def
      layer_round_trip topology_tier_from_string_def tier_string_def
      scope_kind_from_string_def scope_kind_string_def lifecycle_state_from_string_def
      lifecycle_string_def publication_mode_from_string_def publication_mode_string_def
      publication_type_from_string_def publication_type_string_def discovery_source_from_string_def
      discovery_source_string_def entity_names.from_string_to_string node_names.from_string_to_string
      relation_names.from_string_to_string tier_names.from_string_to_string
      scope_kind_names.from_string_to_string lifecycle_names.from_string_to_string
      mode_names.from_string_to_string type_names.from_string_to_string
      source_names.from_string_to_string)

subsection \<open>The rule table against its specification\<close>

text \<open>The endpoint classes of each relation as the README's relation table lists them.\<close>

definition port_classes :: "node_class set" where
  "port_classes = {NC_PhysicalPort, NC_LogicalPort, NC_FabricEndpoint, NC_LogicalEndpoint}"

definition adapter_classes :: "node_class set" where
  "adapter_classes = {NC_Nic, NC_SmartNic, NC_DpuEndpoint}"

definition forwarding_classes :: "node_class set" where
  "forwarding_classes = {NC_Switch, NC_Router}"

definition scope_classes :: "node_class set" where
  "scope_classes = {NC_Site, NC_Fabric, NC_RackNetworkDomain}"

fun spec_from_classes :: "relation_class \<Rightarrow> node_class set" where
  "spec_from_classes RC_Unknown = {}"
| "spec_from_classes RC_ConnectedTo = port_classes"
| "spec_from_classes RC_AttachedTo = adapter_classes \<union> {NC_PhysicalPort, NC_LogicalPort}"
| "spec_from_classes RC_Contains = scope_classes \<union> forwarding_classes"
| "spec_from_classes RC_MemberOf = - {NC_Unknown, NC_Fabric}"
| "spec_from_classes RC_UplinkTo = forwarding_classes \<union> {NC_PhysicalPort}"
| "spec_from_classes RC_DownlinkTo = forwarding_classes \<union> {NC_PhysicalPort}"
| "spec_from_classes RC_PeersWith = forwarding_classes"
| "spec_from_classes RC_BackedBy = port_classes - {NC_PhysicalPort}"
| "spec_from_classes RC_TunneledOver = port_classes"
| "spec_from_classes RC_LogicallyConnectedTo = port_classes"
| "spec_from_classes RC_HostedBy = adapter_classes \<union> {NC_PhysicalPort, NC_Switch}"
| "spec_from_classes RC_PresentsEndpoint =
     adapter_classes \<union> forwarding_classes \<union> {NC_PhysicalPort, NC_LogicalPort}"
| "spec_from_classes RC_FabricMembership = {NC_Site, NC_RackNetworkDomain} \<union> forwarding_classes"

fun spec_to_classes :: "relation_class \<Rightarrow> node_class set" where
  "spec_to_classes RC_Unknown = {}"
| "spec_to_classes RC_ConnectedTo = port_classes"
| "spec_to_classes RC_AttachedTo = forwarding_classes \<union> {NC_PhysicalPort, NC_LogicalPort}"
| "spec_to_classes RC_Contains = - {NC_Unknown}"
| "spec_to_classes RC_MemberOf = scope_classes"
| "spec_to_classes RC_UplinkTo = forwarding_classes \<union> {NC_PhysicalPort}"
| "spec_to_classes RC_DownlinkTo = forwarding_classes \<union> {NC_PhysicalPort}"
| "spec_to_classes RC_PeersWith = forwarding_classes"
| "spec_to_classes RC_BackedBy =
     adapter_classes \<union> forwarding_classes \<union> (port_classes - {NC_LogicalEndpoint})"
| "spec_to_classes RC_TunneledOver = port_classes \<union> forwarding_classes"
| "spec_to_classes RC_LogicallyConnectedTo = port_classes"
| "spec_to_classes RC_HostedBy = adapter_classes \<union> forwarding_classes"
| "spec_to_classes RC_PresentsEndpoint = port_classes"
| "spec_to_classes RC_FabricMembership = {NC_Fabric}"

lemmas class_groups = port_classes_def adapter_classes_def forwarding_classes_def scope_classes_def

lemmas class_masks = kPortish_def kSwitchish_def kEndpointish_def kContainerish_def
  kAllNodeClasses_def kMemberFrom_def kMemberTo_def kBackedFrom_def kBackedTo_def kPresentFrom_def
  kPresentTo_def kHostedFrom_def kHostedTo_def kAttachedTo_def kFabricMembershipFrom_def

lemma node_class_bit_simps:
  "node_class_bit NC_Unknown = 1" "node_class_bit NC_Site = 2" "node_class_bit NC_Fabric = 4"
  "node_class_bit NC_RackNetworkDomain = 8" "node_class_bit NC_Switch = 16"
  "node_class_bit NC_Router = 32" "node_class_bit NC_Nic = 64" "node_class_bit NC_SmartNic = 128"
  "node_class_bit NC_DpuEndpoint = 256" "node_class_bit NC_PhysicalPort = 512"
  "node_class_bit NC_LogicalPort = 1024" "node_class_bit NC_FabricEndpoint = 2048"
  "node_class_bit NC_LogicalEndpoint = 4096"
  by (simp_all add: node_class_bit_def)

lemma in_from_mask:
  "node_class_in_mask (rule_from_mask (relation_rules r)) c \<longleftrightarrow> c \<in> spec_from_classes r"
  by (cases r; cases c)
    (simp_all add: node_class_in_mask_def rules_of_def class_masks mask_of_def node_class_bit_simps class_groups)

lemma in_to_mask:
  "node_class_in_mask (rule_to_mask (relation_rules r)) c \<longleftrightarrow> c \<in> spec_to_classes r"
  by (cases r; cases c)
    (simp_all add: node_class_in_mask_def rules_of_def class_masks mask_of_def node_class_bit_simps class_groups)

text \<open>The endpoint check on bit masks permits exactly the pairs of node classes of the documented
  relation table, given as sets of classes, for every relation and every pair of classes.\<close>

theorem relation_rules_implement_table:
  "relation_endpoints_permitted r f t \<longleftrightarrow> f \<in> spec_from_classes r \<and> t \<in> spec_to_classes r"
  by (simp add: relation_endpoints_permitted_def in_from_mask in_to_mask)

text \<open>
  Which relations are acyclic, which are undirected, and that no relation ever permits an
  \<open>UNKNOWN\<close> endpoint or a self edge.
\<close>

lemma acyclic_relations:
  "rule_cycle_rule (relation_rules r) = CR_Acyclic \<longleftrightarrow>
   r \<in> {RC_Unknown, RC_Contains, RC_MemberOf, RC_BackedBy, RC_HostedBy, RC_PresentsEndpoint,
        RC_FabricMembership}"
  by (cases r) (simp_all add: rules_of_def)

lemma undirected_relations:
  "rule_direction (relation_rules r) = Undirected \<longleftrightarrow>
   r \<in> {RC_ConnectedTo, RC_PeersWith, RC_LogicallyConnectedTo}"
  by (cases r) (simp_all add: rules_of_def)

lemma acyclic_is_directed:
  "rule_cycle_rule (relation_rules r) = CR_Acyclic \<Longrightarrow> rule_direction (relation_rules r) = Directed"
  by (cases r) (simp_all add: rules_of_def)

lemma no_self_edges [simp]: "\<not> rule_self_edge_allowed (relation_rules r)"
  by (cases r) (simp_all add: rules_of_def)

lemma relation_code_inj: "relation_code r = relation_code r' \<longleftrightarrow> r = r'"
  by (cases r; cases r') simp_all

end
