(* ===== verification/Identifiers.thy ===== *)
theory Identifiers
  imports Types
begin

text \<open>
  Identifiers and counters (\<open>include/fabric_topology/ids.hpp\<close>, \<open>src/ids.cpp\<close>), resource
  limits and checked arithmetic (\<open>include/fabric_topology/limits.hpp\<close>, \<open>src/limits.cpp\<close>).

  A \<open>StrongId\<close> is its text; the distinct C++ tag types only keep identifiers of different
  classes apart at compile time, so each is a synonym of \<open>string\<close> here. A \<open>Counter\<close> is its
  64-bit value; \<open>Counter::next\<close> wraps, which is why the engine asks \<open>can_advance\<close> first.
\<close>

subsection \<open>Identifiers\<close>

definition is_alphanumeric :: "char \<Rightarrow> bool" where
  "is_alphanumeric c =
     ((CHR ''0'' \<le> c \<and> c \<le> CHR ''9'') \<or> (CHR ''a'' \<le> c \<and> c \<le> CHR ''z'') \<or>
      (CHR ''A'' \<le> c \<and> c \<le> CHR ''Z''))"

definition is_body_char :: "char \<Rightarrow> bool" where
  "is_body_char c =
     (is_alphanumeric c \<or> c = CHR ''.'' \<or> c = CHR ''_'' \<or> c = CHR ''-'' \<or> c = CHR ''~'' \<or>
      c = CHR '':'')"

definition kMaxIdentifierBytes :: nat where "kMaxIdentifierBytes = 255"
definition kMinIdentifierBytes :: nat where "kMinIdentifierBytes = 1"

definition is_valid_identifier :: "string \<Rightarrow> nat \<Rightarrow> bool" where
  "is_valid_identifier token max_bytes =
     (if length token < kMinIdentifierBytes \<or> length token > max_bytes then False
      else case token of
        [] \<Rightarrow> False
      | first # _ \<Rightarrow> is_alphanumeric first \<and> list_all is_body_char token)"

definition parse_id :: "string \<Rightarrow> nat \<Rightarrow> string option" where
  "parse_id token max_bytes = (if is_valid_identifier token max_bytes then Some token else None)"

lemma valid_identifier_iff:
  "is_valid_identifier token n \<longleftrightarrow>
   token \<noteq> [] \<and> length token \<le> n \<and> is_alphanumeric (hd token) \<and> (\<forall>c \<in> set token. is_body_char c)"
  by (cases token) (auto simp: is_valid_identifier_def kMinIdentifierBytes_def list_all_iff)

lemma alphanumeric_code:
  "is_alphanumeric c \<longleftrightarrow>
   (48 \<le> (of_char c :: nat) \<and> of_char c \<le> (57 :: nat)) \<or>
   (97 \<le> (of_char c :: nat) \<and> of_char c \<le> (122 :: nat)) \<or>
   (65 \<le> (of_char c :: nat) \<and> of_char c \<le> (90 :: nat))"
  by (simp add: is_alphanumeric_def less_eq_char_def)

text \<open>
  Identifier text is printable: the separator \<open>|\<close>, the separator of rendered fields, quotes,
  control bytes and every byte above 127 are outside the alphabet.
\<close>

lemma body_char_printable:
  assumes "is_body_char c"
  shows "32 < (of_char c :: nat) \<and> of_char c < (127 :: nat) \<and> c \<noteq> CHR ''|''"
proof -
  have special: "is_alphanumeric c \<or> c \<in> {CHR ''.'', CHR ''_'', CHR ''-'', CHR ''~'', CHR '':''}"
    using assms by (auto simp: is_body_char_def)
  have bar: "\<not> is_alphanumeric (CHR ''|'')" by (simp add: alphanumeric_code)
  from special bar show ?thesis
    by (elim disjE) (auto simp: alphanumeric_code)
qed

lemma parse_id_sound:
  "parse_id token n = Some s \<Longrightarrow>
   s = token \<and> 0 < length s \<and> length s \<le> n \<and>
   (\<forall>c \<in> set s. 32 < (of_char c :: nat) \<and> of_char c < (127 :: nat) \<and> c \<noteq> CHR ''|'')"
  by (auto simp: parse_id_def valid_identifier_iff dest!: body_char_printable split: if_splits)

subsection \<open>Counters\<close>

definition can_advance :: "u64 \<Rightarrow> bool" where
  "can_advance c = (c \<noteq> 0xFFFFFFFFFFFFFFFF)"

definition next_counter :: "u64 \<Rightarrow> u64" where
  "next_counter c = c + 1"

text \<open>The idiom \<open>if (g.can_advance()) g = g.next();\<close> of per-entity generations.\<close>

definition advance_if_possible :: "u64 \<Rightarrow> u64" where
  "advance_if_possible c = (if can_advance c then next_counter c else c)"

lemma can_advance_iff: "can_advance c \<longleftrightarrow> unat c < 2 ^ 64 - 1"
proof -
  have "unat c = 2 ^ 64 - 1 \<longleftrightarrow> c = 0xFFFFFFFFFFFFFFFF"
    by (auto simp: word_unat_eq_iff)
  moreover have "unat c < 2 ^ 64" using unat_u64_less [of c] by simp
  ultimately show ?thesis by (auto simp: can_advance_def)
qed

lemma unat_next_counter: "can_advance c \<Longrightarrow> unat (next_counter c) = unat c + 1"
  by (simp add: next_counter_def can_advance_iff unat_word_ariths)

lemma next_counter_gt: "can_advance c \<Longrightarrow> c < next_counter c"
  by (simp add: word_less_nat_alt unat_next_counter)

lemma next_counter_neq: "can_advance c \<Longrightarrow> next_counter c \<noteq> c"
  using next_counter_gt by fastforce

lemma next_counter_wraps: "\<not> can_advance c \<Longrightarrow> next_counter c = 0"
  by (simp add: can_advance_def next_counter_def)

lemma advance_if_possible_ge: "c \<le> advance_if_possible c"
  using next_counter_gt [of c] by (auto simp: advance_if_possible_def)

subsection \<open>Checked arithmetic\<close>

definition checked_add_u64 :: "u64 \<Rightarrow> u64 \<Rightarrow> u64 option" where
  "checked_add_u64 a b = (if a > 0xFFFFFFFFFFFFFFFF - b then None else Some (a + b))"

definition checked_mul_u64 :: "u64 \<Rightarrow> u64 \<Rightarrow> u64 option" where
  "checked_mul_u64 a b = (if a \<noteq> 0 \<and> b > 0xFFFFFFFFFFFFFFFF div a then None else Some (a * b))"

lemma unat_max_minus: "unat (0xFFFFFFFFFFFFFFFF - b :: u64) = 2 ^ 64 - 1 - unat b"
proof -
  have "b \<le> (0xFFFFFFFFFFFFFFFF :: u64)"
    using unat_u64_less [of b] by (simp add: word_le_nat_alt)
  then show ?thesis by (simp add: unat_sub)
qed

lemma checked_add_exact:
  "checked_add_u64 a b = (if unat a + unat b < 2 ^ 64 then Some (a + b) else None)"
proof -
  have b: "unat b < 2 ^ 64" using unat_u64_less [of b] by simp
  have "a > 0xFFFFFFFFFFFFFFFF - b \<longleftrightarrow> \<not> unat a + unat b < 2 ^ 64"
    using b by (simp add: word_less_nat_alt unat_max_minus) arith
  then show ?thesis by (simp add: checked_add_u64_def)
qed

lemma checked_mul_exact:
  "checked_mul_u64 a b = (if unat a * unat b < 2 ^ 64 then Some (a * b) else None)"
proof (cases "a = 0")
  case True
  then show ?thesis by (simp add: checked_mul_u64_def)
next
  case False
  then have a: "0 < unat a" by (simp add: unat_gt_0)
  have "b > 0xFFFFFFFFFFFFFFFF div a \<longleftrightarrow> (2 ^ 64 - 1) div unat a < unat b"
    by (simp add: word_less_nat_alt unat_div)
  also have "\<dots> \<longleftrightarrow> \<not> unat a * unat b < 2 ^ 64"
    using a by (simp add: div_less_iff_less_mult mult.commute) arith
  finally show ?thesis using False by (simp add: checked_mul_u64_def)
qed

text \<open>Checked addition and multiplication on 64-bit counters give the exact result when it fits
  and refuse exactly when it would not.\<close>

theorem checked_arithmetic_exact:
  "(case checked_add_u64 a b of Some c \<Rightarrow> unat c = unat a + unat b | None \<Rightarrow> 2 ^ 64 \<le> unat a + unat b) \<and>
   (case checked_mul_u64 a b of Some c \<Rightarrow> unat c = unat a * unat b | None \<Rightarrow> 2 ^ 64 \<le> unat a * unat b)"
  by (simp add: checked_add_exact checked_mul_exact unat_word_ariths)

subsection \<open>Resource limits\<close>

record limits =
  max_identifier_bytes :: nat
  max_string_bytes :: nat
  max_metadata_entries :: nat
  max_metadata_key_bytes :: nat
  max_metadata_value_bytes :: nat
  max_metadata_total_bytes :: nat
  max_nodes_per_publication :: nat
  max_edges_per_publication :: nat
  max_publication_diff_entries :: nat
  max_queued_publications :: nat
  max_nodes :: nat
  max_edges :: nat
  max_degree :: nat
  max_snapshot_edges :: nat
  max_traversal_depth :: nat
  max_traversal_visited :: nat
  max_persistence_bytes :: nat
  max_persistence_records :: nat
  max_frame_bytes :: nat
  max_frame_payload_bytes :: nat
  max_sessions :: nat

definition default_limits :: limits where
  "default_limits = \<lparr>max_identifier_bytes = 255, max_string_bytes = 1024, max_metadata_entries = 32,
     max_metadata_key_bytes = 64, max_metadata_value_bytes = 256, max_metadata_total_bytes = 8192,
     max_nodes_per_publication = 262144, max_edges_per_publication = 1048576,
     max_publication_diff_entries = 1048576, max_queued_publications = 256,
     max_nodes = 4194304, max_edges = 16777216, max_degree = 1048576, max_snapshot_edges = 8388608,
     max_traversal_depth = 64, max_traversal_visited = 1000000,
     max_persistence_bytes = 2147483648, max_persistence_records = 16777216,
     max_frame_bytes = 4194304, max_frame_payload_bytes = 4194240, max_sessions = 1024\<rparr>"

end
