(* ===== verification/Outcomes.thy ===== *)
theory Outcomes
  imports Identifiers
begin

text \<open>
  Structured operation outcomes and explanations (\<open>include/fabric_topology/result.hpp\<close>,
  \<open>src/result.cpp\<close>). A \<open>Status\<close> is an \<open>Explanation\<close>: an outcome, a stable machine code
  and fields kept sorted by key, deduplicated, truncated and capped.
\<close>

subsection \<open>Outcomes\<close>

datatype outcome = O_Ok | O_Committed | O_Idempotent | O_StaleGeneration | O_StaleEntityGeneration |
  O_StaleAuthority | O_StaleWorkerBoot | O_StaleCoordinatorEpoch | O_UnauthorizedScope |
  O_UnknownEntity | O_IncompatibleEntityClass | O_DuplicateEdge | O_RelationshipConflict |
  O_CycleRejected | O_DomainViolation | O_InvalidEndpoint | O_RevalidationRequired | O_Retired
  | O_Superseded | O_MalformedRequest | O_ResourceLimit | O_StructuralInvariantViolation |
  O_NotFound | O_DuplicateIdentity | O_PersistenceCorruption | O_PersistenceIoFailure |
  O_ProtocolViolation | O_UnsupportedOperation | O_Conflict | O_InternalError

definition kOutcomeCount :: u16 where "kOutcomeCount = 30"

definition kOutcomeNames :: "(outcome \<times> string) list" where
  "kOutcomeNames = [(O_Ok, ''OK''), (O_Committed, ''COMMITTED''), (O_Idempotent, ''IDEMPOTENT''),
     (O_StaleGeneration, ''STALE_GENERATION''), (O_StaleEntityGeneration,
     ''STALE_ENTITY_GENERATION''), (O_StaleAuthority, ''STALE_AUTHORITY''), (O_StaleWorkerBoot,
     ''STALE_WORKER_BOOT''), (O_StaleCoordinatorEpoch, ''STALE_COORDINATOR_EPOCH''),
     (O_UnauthorizedScope, ''UNAUTHORIZED_SCOPE''), (O_UnknownEntity, ''UNKNOWN_ENTITY''),
     (O_IncompatibleEntityClass, ''INCOMPATIBLE_ENTITY_CLASS''), (O_DuplicateEdge,
     ''DUPLICATE_EDGE''), (O_RelationshipConflict, ''RELATIONSHIP_CONFLICT''),
     (O_CycleRejected, ''CYCLE_REJECTED''), (O_DomainViolation, ''DOMAIN_VIOLATION''),
     (O_InvalidEndpoint, ''INVALID_ENDPOINT''), (O_RevalidationRequired,
     ''REVALIDATION_REQUIRED''), (O_Retired, ''RETIRED''), (O_Superseded, ''SUPERSEDED''),
     (O_MalformedRequest, ''MALFORMED_REQUEST''), (O_ResourceLimit, ''RESOURCE_LIMIT''),
     (O_StructuralInvariantViolation, ''STRUCTURAL_INVARIANT_VIOLATION''), (O_NotFound,
     ''NOT_FOUND''), (O_DuplicateIdentity, ''DUPLICATE_IDENTITY''), (O_PersistenceCorruption,
     ''PERSISTENCE_CORRUPTION''), (O_PersistenceIoFailure, ''PERSISTENCE_IO_FAILURE''),
     (O_ProtocolViolation, ''PROTOCOL_VIOLATION''), (O_UnsupportedOperation,
     ''UNSUPPORTED_OPERATION''), (O_Conflict, ''CONFLICT''), (O_InternalError,
     ''INTERNAL_ERROR'')]"

fun outcome_code :: "outcome \<Rightarrow> u16" where
  "outcome_code O_Ok = 0"
| "outcome_code O_Committed = 1"
| "outcome_code O_Idempotent = 2"
| "outcome_code O_StaleGeneration = 3"
| "outcome_code O_StaleEntityGeneration = 4"
| "outcome_code O_StaleAuthority = 5"
| "outcome_code O_StaleWorkerBoot = 6"
| "outcome_code O_StaleCoordinatorEpoch = 7"
| "outcome_code O_UnauthorizedScope = 8"
| "outcome_code O_UnknownEntity = 9"
| "outcome_code O_IncompatibleEntityClass = 10"
| "outcome_code O_DuplicateEdge = 11"
| "outcome_code O_RelationshipConflict = 12"
| "outcome_code O_CycleRejected = 13"
| "outcome_code O_DomainViolation = 14"
| "outcome_code O_InvalidEndpoint = 15"
| "outcome_code O_RevalidationRequired = 16"
| "outcome_code O_Retired = 17"
| "outcome_code O_Superseded = 18"
| "outcome_code O_MalformedRequest = 19"
| "outcome_code O_ResourceLimit = 20"
| "outcome_code O_StructuralInvariantViolation = 21"
| "outcome_code O_NotFound = 22"
| "outcome_code O_DuplicateIdentity = 23"
| "outcome_code O_PersistenceCorruption = 24"
| "outcome_code O_PersistenceIoFailure = 25"
| "outcome_code O_ProtocolViolation = 26"
| "outcome_code O_UnsupportedOperation = 27"
| "outcome_code O_Conflict = 28"
| "outcome_code O_InternalError = 29"

definition outcome_values :: "outcome list" where
  "outcome_values = [O_Ok, O_Committed, O_Idempotent, O_StaleGeneration, O_StaleEntityGeneration,
     O_StaleAuthority, O_StaleWorkerBoot, O_StaleCoordinatorEpoch, O_UnauthorizedScope,
     O_UnknownEntity, O_IncompatibleEntityClass, O_DuplicateEdge, O_RelationshipConflict,
     O_CycleRejected, O_DomainViolation, O_InvalidEndpoint, O_RevalidationRequired, O_Retired,
     O_Superseded, O_MalformedRequest, O_ResourceLimit, O_StructuralInvariantViolation,
     O_NotFound, O_DuplicateIdentity, O_PersistenceCorruption, O_PersistenceIoFailure,
     O_ProtocolViolation, O_UnsupportedOperation, O_Conflict, O_InternalError]"

definition outcome_string :: "outcome \<Rightarrow> string" where
  "outcome_string = name_or ''UNKNOWN_OUTCOME'' kOutcomeNames"

text \<open>The cast of a code below \<open>kOutcomeCount\<close> is the enumerator with that value.\<close>

definition outcome_from_code :: "u16 \<Rightarrow> outcome option" where
  "outcome_from_code code =
     (if code \<ge> kOutcomeCount then None else Some (outcome_values ! unat code))"

definition outcome_from_string :: "string \<Rightarrow> outcome option" where
  "outcome_from_string = value_of kOutcomeNames"

definition outcome_is_success :: "outcome \<Rightarrow> bool" where
  "outcome_is_success v = (v = O_Ok \<or> v = O_Committed \<or> v = O_Idempotent)"

interpretation outcome_names: name_table kOutcomeNames
proof
  show "v \<in> set (map fst kOutcomeNames)" for v by (cases v) (simp_all add: kOutcomeNames_def)
qed (simp_all add: kOutcomeNames_def)

lemma outcome_code_round_trip: "outcome_from_code (outcome_code v) = Some v"
  by (cases v) (simp_all add: outcome_from_code_def kOutcomeCount_def outcome_values_def word_le_nat_alt)

lemma outcome_from_code_sound: "outcome_from_code c = Some v \<Longrightarrow> outcome_code v = c"
proof -
  assume some: "outcome_from_code c = Some v"
  then have lt: "unat c < 30"
    by (auto simp: outcome_from_code_def kOutcomeCount_def word_le_nat_alt split: if_splits)
  have all: "\<forall>i \<in> set [0..<30]. unat (outcome_code (outcome_values ! i)) = i"
    by code_simp
  from some have "v = outcome_values ! unat c" by (auto simp: outcome_from_code_def split: if_splits)
  with all lt have "unat (outcome_code v) = unat c" by simp
  then show "outcome_code v = c" by (simp add: word_unat_eq_iff)
qed

text \<open>Numeric codes and names of outcomes round trip, and a code from the wire is refused exactly
  when it is not below the number of outcomes.\<close>

theorem outcome_codes_and_names_round_trip:
  "outcome_from_code (outcome_code v) = Some v \<and> outcome_from_string (outcome_string v) = Some v \<and>
   (outcome_from_code c = None \<longleftrightarrow> kOutcomeCount \<le> c)"
  by (simp add: outcome_code_round_trip outcome_from_string_def outcome_string_def
      outcome_names.from_string_to_string) (simp add: outcome_from_code_def)

subsection \<open>Explanations\<close>

type_synonym field = "string \<times> string"

record status =
  outcome_of :: outcome
  code_of :: string
  fields_of :: "field list"

definition kMaxFields :: nat where "kMaxFields = 32"
definition kMaxFieldValueBytes :: nat where "kMaxFieldValueBytes = 1024"

definition make_status :: "outcome \<Rightarrow> string \<Rightarrow> status" where
  "make_status v code = \<lparr>outcome_of = v, code_of = code, fields_of = []\<rparr>"

text \<open>A default-constructed \<open>Explanation\<close>.\<close>

definition empty_status :: status where
  "empty_status = make_status O_Ok []"

fun replace_first :: "string \<Rightarrow> string \<Rightarrow> field list \<Rightarrow> field list" where
  "replace_first k v [] = []"
| "replace_first k v (f # fs) = (if fst f = k then (k, v) # fs else f # replace_first k v fs)"

fun find_field :: "field list \<Rightarrow> string \<Rightarrow> string option" where
  "find_field [] k = None"
| "find_field (f # fs) k = (if fst f = k then Some (snd f) else find_field fs k)"

text \<open>
  \<open>Explanation::with\<close>: truncate the value, replace the first field of that key, or append,
  sort by key and drop fields from the back until at most \<open>kMaxFields\<close> are left.
\<close>

definition with_field :: "status \<Rightarrow> string \<Rightarrow> string \<Rightarrow> status" where
  "with_field s k v =
     (let value = take kMaxFieldValueBytes v in
      if find_field (fields_of s) k \<noteq> None
      then s\<lparr>fields_of := replace_first k value (fields_of s)\<rparr>
      else s\<lparr>fields_of := take kMaxFields (sort_key fst (fields_of s @ [(k, value)]))\<rparr>)"

definition status_find :: "status \<Rightarrow> string \<Rightarrow> string option" where
  "status_find s k = find_field (fields_of s) k"

definition status_has :: "status \<Rightarrow> string \<Rightarrow> bool" where
  "status_has s k = (status_find s k \<noteq> None)"

definition render_status :: "status \<Rightarrow> string" where
  "render_status s =
     outcome_string (outcome_of s) @ (if code_of s \<noteq> [] then '' '' @ code_of s else []) @
     concat (map (\<lambda>f. [CHR 0x0A] @ ''  '' @ fst f @ ''='' @ snd f) (fields_of s))"

definition one_line :: "status \<Rightarrow> string" where
  "one_line s =
     outcome_string (outcome_of s) @ (if code_of s \<noteq> [] then '' ['' @ code_of s @ '']'' else []) @
     concat (map (\<lambda>f. '' '' @ fst f @ ''='' @ snd f) (fields_of s))"

lemma outcome_make_status [outcome_simps, simp]:
  "outcome_of (make_status v c) = v" "code_of (make_status v c) = c" "fields_of (make_status v c) = []"
  by (simp_all add: make_status_def)

lemma outcome_with_field [outcome_simps, simp]:
  "outcome_of (with_field s k v) = outcome_of s" "code_of (with_field s k v) = code_of s"
  by (simp_all add: with_field_def Let_def)

subsubsection \<open>Sorted, deduplicated, bounded fields\<close>

definition fields_wf :: "field list \<Rightarrow> bool" where
  "fields_wf fs = (sorted (map fst fs) \<and> distinct (map fst fs))"

definition status_wf :: "status \<Rightarrow> bool" where
  "status_wf s = (fields_wf (fields_of s) \<and> length (fields_of s) \<le> kMaxFields \<and>
     (\<forall>f \<in> set (fields_of s). length (snd f) \<le> kMaxFieldValueBytes))"

text \<open>The reference: insertion into an ordered association list, without a cap.\<close>

fun upd_field :: "string \<Rightarrow> string \<Rightarrow> field list \<Rightarrow> field list" where
  "upd_field k v [] = [(k, v)]"
| "upd_field k v (f # fs) =
     (if k < fst f then (k, v) # f # fs
      else if k = fst f then (k, v) # fs else f # upd_field k v fs)"

lemma fields_wf_Nil [simp]: "fields_wf []" by (simp add: fields_wf_def)

lemma fields_wf_Cons:
  "fields_wf (f # fs) \<longleftrightarrow> fields_wf fs \<and> (\<forall>g \<in> set fs. fst f < fst g)"
  by (auto simp: fields_wf_def order.strict_iff_order rev_image_eqI)

lemma find_field_None: "find_field fs k = None \<longleftrightarrow> k \<notin> fst ` set fs"
  by (induction fs) auto

lemma set_upd_field:
  "fields_wf fs \<Longrightarrow> set (upd_field k v fs) = insert (k, v) {f \<in> set fs. fst f \<noteq> k}"
  by (induction fs) (auto simp: fields_wf_Cons)

lemma fields_wf_upd: "fields_wf fs \<Longrightarrow> fields_wf (upd_field k v fs)"
  by (induction fs) (auto simp: fields_wf_Cons set_upd_field)

lemma fields_wf_take: "fields_wf fs \<Longrightarrow> fields_wf (take n fs)"
  by (simp add: fields_wf_def take_map [symmetric] sorted_wrt_take)

lemma replace_first_upd:
  "fields_wf fs \<Longrightarrow> k \<in> fst ` set fs \<Longrightarrow> replace_first k v fs = upd_field k v fs"
  by (induction fs) (auto simp: fields_wf_Cons)

lemma length_replace_first [simp]: "length (replace_first k v fs) = length fs"
  by (induction fs) auto

lemma sort_append_upd:
  assumes "fields_wf fs" "k \<notin> fst ` set fs"
  shows "sort_key fst (fs @ [(k, v)]) = upd_field k v fs"
proof (rule map_sorted_distinct_set_unique)
  have new: "{f \<in> set fs. fst f \<noteq> k} = set fs" using assms(2) by force
  show "set (sort_key fst (fs @ [(k, v)])) = set (upd_field k v fs)"
    using assms(1) by (simp add: set_upd_field new)
  have d: "distinct (map fst (fs @ [(k, v)]))"
    using assms by (auto simp: fields_wf_def)
  then show "distinct (map fst (sort_key fst (fs @ [(k, v)])))"
    by (simp only: distinct_map set_sort distinct_sort)
  show "sorted (map fst (sort_key fst (fs @ [(k, v)])))" by simp
  have wf: "fields_wf (upd_field k v fs)" using assms(1) by (rule fields_wf_upd)
  then show "sorted (map fst (upd_field k v fs))" "distinct (map fst (upd_field k v fs))"
    by (simp_all add: fields_wf_def)
  show "inj_on fst (set (sort_key fst (fs @ [(k, v)])) \<union> set (upd_field k v fs))"
    using d assms(1) by (auto simp: set_upd_field new distinct_map)
qed

lemma with_field_reference:
  assumes "status_wf s"
  shows "with_field s k v = s\<lparr>fields_of := take kMaxFields (upd_field k (take kMaxFieldValueBytes v) (fields_of s))\<rparr>"
proof (cases "k \<in> fst ` set (fields_of s)")
  case True
  have "length (replace_first k (take kMaxFieldValueBytes v) (fields_of s)) \<le> kMaxFields"
    using assms by (simp add: status_wf_def)
  with True assms show ?thesis
    by (simp add: with_field_def Let_def find_field_None status_wf_def replace_first_upd)
next
  case False
  with assms show ?thesis
    by (simp add: with_field_def Let_def find_field_None status_wf_def sort_append_upd)
qed

lemma take_upd_take: "take n (upd_field k v (take n fs)) = take n (upd_field k v fs)"
proof (induction fs arbitrary: n)
  case (Cons f fs)
  show ?case
  proof (cases n)
    case (Suc m)
    have "take m (f # take m fs) = take m (f # fs)" by (cases m) (simp_all add: min_def)
    with Suc Cons.IH [of m] show ?thesis by simp
  qed simp
qed simp

lemma upd_field_commute:
  "fields_wf fs \<Longrightarrow> k \<noteq> k' \<Longrightarrow>
   upd_field k v (upd_field k' v' fs) = upd_field k' v' (upd_field k v fs)"
  by (induction fs) (auto simp: fields_wf_Cons)

lemma upd_field_overwrite: "upd_field k v (upd_field k v' fs) = upd_field k v fs"
  by (induction fs) auto

lemma find_upd_field: "fields_wf fs \<Longrightarrow> find_field (upd_field k v fs) k' =
   (if k = k' then Some v else find_field fs k')"
  by (induction fs) (auto simp: fields_wf_Cons)

lemma status_wf_make [simp]: "status_wf (make_status v c)"
  by (simp add: status_wf_def)

lemma status_wf_with_field [simp]:
  assumes "status_wf s"
  shows "status_wf (with_field s k v)"
proof -
  have wf: "fields_wf (take n (upd_field k w (fields_of s)))" for n w
    using assms by (intro fields_wf_take fields_wf_upd) (simp add: status_wf_def)
  have "length (snd f) \<le> kMaxFieldValueBytes"
    if "f \<in> set (upd_field k (take kMaxFieldValueBytes v) (fields_of s))" for f
    using assms that by (auto simp: status_wf_def set_upd_field)
  then show ?thesis
    using assms wf by (auto simp: with_field_reference status_wf_def dest: in_set_takeD)
qed

lemma length_upd_field: "length (upd_field k v fs) \<le> Suc (length fs)"
  by (induction fs) auto

lemma find_with_field:
  assumes "status_wf s" "length (fields_of s) < kMaxFields"
  shows "status_find (with_field s k v) k' =
     (if k = k' then Some (take kMaxFieldValueBytes v) else status_find s k')"
proof -
  have "length (upd_field k (take kMaxFieldValueBytes v) (fields_of s)) \<le> kMaxFields"
    using assms(2) length_upd_field [of k _ "fields_of s"] by (meson Suc_leI le_trans)
  then show ?thesis
    using assms(1) by (simp add: status_find_def with_field_reference find_upd_field status_wf_def)
qed

text \<open>An explanation keeps at most its maximal number of fields, each value truncated to the
  maximal length; adding a field changes neither outcome nor code, and while there is room the
  field is found afterwards and the others are as before.\<close>

theorem explanation_fields_stay_bounded:
  assumes "status_wf s"
  shows "status_wf (with_field s k v) \<and> outcome_of (with_field s k v) = outcome_of s \<and>
    code_of (with_field s k v) = code_of s \<and>
    (length (fields_of s) < kMaxFields \<longrightarrow>
       status_find (with_field s k v) k' =
         (if k = k' then Some (take kMaxFieldValueBytes v) else status_find s k'))"
  using assms by (simp add: find_with_field)

theorem explanation_fields_stay_bounded_witness:
  "status_wf (with_field (make_status O_Retired ''x'') ''edge_id'' ''e1'') \<and>
   status_find (with_field (make_status O_Retired ''x'') ''edge_id'' ''e1'') ''edge_id'' = Some ''e1''"
  using explanation_fields_stay_bounded [of "make_status O_Retired ''x''" "''edge_id''" "''e1''" "''edge_id''"]
  by (simp add: kMaxFields_def kMaxFieldValueBytes_def)

text \<open>The order in which two differently named fields are added to an explanation does not
  matter.\<close>

theorem explanation_field_order_irrelevant:
  assumes "status_wf s" and "k \<noteq> k'"
  shows "with_field (with_field s k v) k' v' = with_field (with_field s k' v') k v"
proof -
  have "status_wf (with_field s k v)" "status_wf (with_field s k' v')" "fields_wf (fields_of s)"
    using assms(1) by (simp_all, simp add: status_wf_def)
  then show ?thesis
    using assms by (simp add: with_field_reference take_upd_take upd_field_commute)
qed

theorem explanation_field_order_irrelevant_witness:
  "render_status (with_field (with_field (make_status O_Ok ''c'') ''a'' ''1'') ''b'' ''2'') =
   render_status (with_field (with_field (make_status O_Ok ''c'') ''b'' ''2'') ''a'' ''1'')"
  using explanation_field_order_irrelevant [of "make_status O_Ok ''c''" "''a''" "''b''" "''1''" "''2''"]
  by simp

end
