(* ===== verification/Codec.thy ===== *)
theory Codec
  imports Outcomes
begin

text \<open>
  The little-endian record codec (\<open>include/fabric_topology/codec.hpp\<close>, \<open>src/codec.cpp\<close>):
  the writer as functions to bytes, the bounded reader as explicit state with its sticky
  failure flag. Two interfaces carry the component's contract: \<open>field_reader\<close> (a decoder
  stays in bounds and does nothing after a failure) and \<open>field_codec\<close> (decoding what was
  encoded gives the value back); both are closed under sequences of fields.
\<close>

subsection \<open>Writer\<close>

text \<open>The loop over \<open>shift\<close>: \<open>n\<close> bytes of \<open>w\<close>, starting at bit \<open>shift\<close>.\<close>

fun write_le :: "nat \<Rightarrow> nat \<Rightarrow> 'w::len word \<Rightarrow> bytes" where
  "write_le 0 shift w = []"
| "write_le (Suc n) shift w = ucast (drop_bit shift w AND 0xFF) # write_le n (shift + 8) w"

definition put_u8 :: "u8 \<Rightarrow> bytes" where "put_u8 v = [v]"
definition put_u16 :: "u16 \<Rightarrow> bytes" where
  "put_u16 v = put_u8 (ucast (v AND 0xFF)) @ put_u8 (ucast (drop_bit 8 v AND 0xFF))"
definition put_u32 :: "u32 \<Rightarrow> bytes" where "put_u32 v = write_le 4 0 v"
definition put_u64 :: "u64 \<Rightarrow> bytes" where "put_u64 v = write_le 8 0 v"
definition put_boolean :: "bool \<Rightarrow> bytes" where "put_boolean v = put_u8 (if v then 1 else 0)"
definition put_blob :: "bytes \<Rightarrow> bytes" where
  "put_blob bs = put_u32 (of_nat (length bs)) @ bs"
definition put_text :: "string \<Rightarrow> bytes" where "put_text s = put_blob (bytes_of s)"
definition put_optional_text :: "bool \<Rightarrow> string \<Rightarrow> bytes" where
  "put_optional_text present s = put_boolean present @ put_text (if present then s else [])"

subsection \<open>Reader\<close>

record reader =
  rd_data :: bytes
  rd_offset :: nat
  rd_ok :: bool
  rd_error :: string

definition open_reader :: "bytes \<Rightarrow> reader" where
  "open_reader data = \<lparr>rd_data = data, rd_offset = 0, rd_ok = True, rd_error = []\<rparr>"

definition rd_remaining :: "reader \<Rightarrow> nat" where
  "rd_remaining r = length (rd_data r) - rd_offset r"

definition rd_at_end :: "reader \<Rightarrow> bool" where
  "rd_at_end r = (rd_offset r = length (rd_data r))"

definition rd_fail :: "string \<Rightarrow> reader \<Rightarrow> reader" where
  "rd_fail message r = (if rd_ok r then r\<lparr>rd_ok := False, rd_error := message\<rparr> else r)"

definition need :: "nat \<Rightarrow> reader \<Rightarrow> bool \<times> reader" where
  "need n r =
     (if \<not> rd_ok r then (False, r)
      else if n > length (rd_data r) - rd_offset r then (False, rd_fail ''codec.truncated'' r)
      else (True, r))"

definition get_u8 :: "reader \<Rightarrow> u8 \<times> reader" where
  "get_u8 r =
     (case need 1 r of
        (False, r') \<Rightarrow> (0, r')
      | (True, r') \<Rightarrow> (rd_data r' ! rd_offset r', r'\<lparr>rd_offset := rd_offset r' + 1\<rparr>))"

fun read_le :: "nat \<Rightarrow> nat \<Rightarrow> 'w::len word \<Rightarrow> reader \<Rightarrow> 'w word \<times> reader" where
  "read_le 0 shift value r = (value, r)"
| "read_le (Suc n) shift value r =
     (case get_u8 r of (b, r') \<Rightarrow> read_le n (shift + 8) (value OR push_bit shift (ucast b)) r')"

definition get_u16 :: "reader \<Rightarrow> u16 \<times> reader" where
  "get_u16 r =
     (case get_u8 r of (low, r1) \<Rightarrow>
        case get_u8 r1 of (high, r2) \<Rightarrow> (ucast low OR push_bit 8 (ucast high), r2))"

definition get_u32 :: "reader \<Rightarrow> u32 \<times> reader" where "get_u32 r = read_le 4 0 0 r"
definition get_u64 :: "reader \<Rightarrow> u64 \<times> reader" where "get_u64 r = read_le 8 0 0 r"

definition get_boolean :: "reader \<Rightarrow> bool \<times> reader" where
  "get_boolean r = (case get_u8 r of (b, r') \<Rightarrow> (b \<noteq> 0, r'))"

definition get_blob :: "nat \<Rightarrow> reader \<Rightarrow> bytes \<times> reader" where
  "get_blob max_bytes r =
     (case get_u32 r of (len, r1) \<Rightarrow>
        if \<not> rd_ok r1 then ([], r1)
        else if unat len > max_bytes then ([], rd_fail ''codec.length_over_limit'' r1)
        else (case need (unat len) r1 of
                (False, r2) \<Rightarrow> ([], r2)
              | (True, r2) \<Rightarrow> (take (unat len) (drop (rd_offset r2) (rd_data r2)),
                               r2\<lparr>rd_offset := rd_offset r2 + unat len\<rparr>)))"

definition get_text :: "nat \<Rightarrow> reader \<Rightarrow> string \<times> reader" where
  "get_text max_bytes r = (case get_blob max_bytes r of (bs, r') \<Rightarrow> (string_of bs, r'))"

definition remaining_bytes :: "reader \<Rightarrow> bytes \<times> reader" where
  "remaining_bytes r = (drop (rd_offset r) (rd_data r), r\<lparr>rd_offset := length (rd_data r)\<rparr>)"

text \<open>A decode loop over a declared count.\<close>

fun get_many :: "(reader \<Rightarrow> 'a \<times> reader) \<Rightarrow> nat \<Rightarrow> reader \<Rightarrow> 'a list \<times> reader" where
  "get_many get 0 r = ([], r)"
| "get_many get (Suc n) r =
     (case get r of (x, r') \<Rightarrow> case get_many get n r' of (xs, r'') \<Rightarrow> (x # xs, r''))"

subsection \<open>Decoders stay in bounds\<close>

definition reader_wf :: "reader \<Rightarrow> bool" where
  "reader_wf r = (rd_offset r \<le> length (rd_data r))"

text \<open>\<open>reads_within r r'\<close>: what any decoding step may do to a reader.\<close>

definition reads_within :: "reader \<Rightarrow> reader \<Rightarrow> bool" where
  "reads_within r r' = (rd_data r' = rd_data r \<and> rd_offset r \<le> rd_offset r' \<and>
     (reader_wf r \<longrightarrow> reader_wf r') \<and> (\<not> rd_ok r \<longrightarrow> r' = r))"

lemma reads_within_refl [simp]: "reads_within r r" by (simp add: reads_within_def)

lemma reads_within_trans: "reads_within r r' \<Longrightarrow> reads_within r' r'' \<Longrightarrow> reads_within r r''"
  by (auto simp: reads_within_def)

locale field_reader =
  fixes get :: "reader \<Rightarrow> 'a \<times> reader"
  assumes within: "reads_within r (snd (get r))"
begin

lemma many_within: "reads_within r (snd (get_many get n r))"
proof (induction n arbitrary: r)
  case (Suc n)
  obtain x r' where x: "get r = (x, r')" by (cases "get r")
  obtain xs r'' where xs: "get_many get n r' = (xs, r'')" by (cases "get_many get n r'")
  have "reads_within r r'" using within [of r] x by simp
  moreover have "reads_within r' r''" using Suc.IH [of r'] xs by simp
  ultimately show ?case using x xs by (auto intro: reads_within_trans)
qed simp

lemma failure_is_sticky: "\<not> rd_ok r \<Longrightarrow> snd (get_many get n r) = r"
  using many_within [of r n] by (simp add: reads_within_def)

end

lemma rd_fail_within: "reads_within r (rd_fail m r)"
  by (simp add: reads_within_def rd_fail_def reader_wf_def)

interpretation u8_reader: field_reader get_u8
  by unfold_locales
    (auto simp: get_u8_def need_def rd_fail_def reads_within_def reader_wf_def split: bool.splits)

lemma read_le_within: "reads_within r (snd (read_le n s v r))"
proof (induction n arbitrary: s v r)
  case (Suc n)
  obtain b r' where b: "get_u8 r = (b, r')" by (cases "get_u8 r")
  have "reads_within r r'" using u8_reader.within [of r] b by simp
  with Suc.IH [where r = r'] b show ?case by (auto intro: reads_within_trans)
qed simp

interpretation u16_reader: field_reader get_u16
proof
  fix r
  obtain a r1 where a: "get_u8 r = (a, r1)" by (cases "get_u8 r")
  obtain b r2 where b: "get_u8 r1 = (b, r2)" by (cases "get_u8 r1")
  show "reads_within r (snd (get_u16 r))"
    using u8_reader.within [of r] u8_reader.within [of r1] a b
    by (auto simp: get_u16_def intro: reads_within_trans)
qed

interpretation u32_reader: field_reader get_u32
  by unfold_locales (simp add: get_u32_def read_le_within)

interpretation u64_reader: field_reader get_u64
  by unfold_locales (simp add: get_u64_def read_le_within)

interpretation boolean_reader: field_reader get_boolean
proof
  show "reads_within r (snd (get_boolean r))" for r
    using u8_reader.within [of r] by (auto simp: get_boolean_def split: prod.splits)
qed

lemma get_blob_within: "reads_within r (snd (get_blob max_bytes r))"
proof -
  obtain len r1 where len: "get_u32 r = (len, r1)" by (cases "get_u32 r")
  have r1: "reads_within r r1" using u32_reader.within [of r] len by simp
  have "reads_within r1 (snd (get_blob max_bytes r))"
    using len by (auto simp: get_blob_def need_def rd_fail_def reads_within_def reader_wf_def
        split: bool.splits)
  with r1 show ?thesis by (rule reads_within_trans)
qed

interpretation blob_reader: field_reader "get_blob max_bytes" for max_bytes
  by unfold_locales (rule get_blob_within)

interpretation text_reader: field_reader "get_text max_bytes" for max_bytes
proof
  show "reads_within r (snd (get_text max_bytes r))" for r
    using get_blob_within [of r max_bytes] by (auto simp: get_text_def split: prod.splits)
qed

lemma get_blob_bound:
  "length (fst (get_blob max_bytes r)) \<le> max_bytes \<and> length (fst (get_blob max_bytes r)) \<le> rd_remaining r"
proof -
  obtain len r1 where len: "get_u32 r = (len, r1)" by (cases "get_u32 r")
  have "reads_within r r1" using u32_reader.within [of r] len by simp
  then have "length (rd_data r1) - rd_offset r1 \<le> rd_remaining r"
    by (auto simp: reads_within_def rd_remaining_def)
  with len show ?thesis by (auto simp: get_blob_def need_def split: bool.splits)
qed

text \<open>C40: Whatever bytes it is given, no read of the record reader moves past the end of its buffer,
  and a blob or a text is never longer than the caller's limit or than what is left. After the
  first failure every read of a number, a flag, a blob or a text, and every sequence of them,
  leaves the reader unchanged. The one exception is \<open>remaining_bytes\<close>, which does not
  look at the failure: it hands out the rest of the buffer and moves the reader to its end all the
  same.\<close>

theorem record_reader_stays_in_bounds:
  assumes "reader_wf r"
  shows "reader_wf (snd (get_u8 r)) \<and> reader_wf (snd (get_u16 r)) \<and> reader_wf (snd (get_u32 r)) \<and> reader_wf (snd (get_u64 r)) \<and>
    reader_wf (snd (get_boolean r)) \<and> reader_wf (snd (get_blob max_bytes r)) \<and> reader_wf (snd (get_text max_bytes r)) \<and>
    reader_wf (snd (get_many (get_text max_bytes) n r)) \<and> reader_wf (snd (remaining_bytes r)) \<and>
    length (fst (get_blob max_bytes r)) \<le> max_bytes \<and> length (fst (get_blob max_bytes r)) \<le> rd_remaining r \<and>
    length (fst (get_text max_bytes r)) \<le> max_bytes \<and> length (fst (get_text max_bytes r)) \<le> rd_remaining r \<and>
    (\<not> rd_ok r \<longrightarrow> snd (get_u8 r) = r \<and> snd (get_u16 r) = r \<and> snd (get_u32 r) = r \<and> snd (get_u64 r) = r \<and>
       snd (get_boolean r) = r \<and> snd (get_blob max_bytes r) = r \<and> snd (get_text max_bytes r) = r \<and>
       snd (get_many (get_text max_bytes) n r) = r \<and> snd (remaining_bytes r) = r\<lparr>rd_offset := length (rd_data r)\<rparr>)"
proof -
  have bound: "length (fst (get_text max_bytes r)) = length (fst (get_blob max_bytes r))"
    by (simp add: get_text_def string_of_def split: prod.split)
  have rest: "reader_wf (snd (remaining_bytes r))" "snd (remaining_bytes r) = r\<lparr>rd_offset := length (rd_data r)\<rparr>"
    by (simp_all add: remaining_bytes_def reader_wf_def)
  show ?thesis
    using assms bound rest get_blob_bound [of max_bytes r]
      u8_reader.within [of r] u16_reader.within [of r] u32_reader.within [of r] u64_reader.within [of r] boolean_reader.within [of r]
      blob_reader.within [of r max_bytes] text_reader.within [of r max_bytes] text_reader.many_within [of r max_bytes n]
    by (simp add: reads_within_def)
qed

theorem record_reader_stays_in_bounds_witness:
  "reader_wf (snd (get_many (get_text 4) 3 (open_reader [255, 255, 255, 255, 1])))"
  using record_reader_stays_in_bounds [of "open_reader [255, 255, 255, 255, 1]" 4 3]
  by (simp add: open_reader_def reader_wf_def)

subsection \<open>Decoding inverts encoding\<close>

definition pending :: "reader \<Rightarrow> bytes" where
  "pending r = drop (rd_offset r) (rd_data r)"

definition advance :: "nat \<Rightarrow> reader \<Rightarrow> reader" where
  "advance n r = r\<lparr>rd_offset := rd_offset r + n\<rparr>"

lemma pending_open_reader [simp]: "pending (open_reader bs) = bs" "rd_ok (open_reader bs)"
  by (simp_all add: pending_def open_reader_def)

lemma advance_simps [simp]:
  "rd_ok (advance n r) = rd_ok r" "advance 0 r = r" "advance m (advance n r) = advance (n + m) r"
  by (simp_all add: advance_def)

lemma pending_advance: "pending r = bs @ rest \<Longrightarrow> pending (advance (length bs) r) = rest"
  by (simp add: pending_def advance_def) (metis add.commute append_eq_conv_conj drop_drop)

locale field_codec =
  fixes put :: "'a \<Rightarrow> bytes" and get :: "reader \<Rightarrow> 'a \<times> reader" and valid :: "'a \<Rightarrow> bool"
  assumes get_put: "valid x \<Longrightarrow> rd_ok r \<Longrightarrow> pending r = put x @ rest \<Longrightarrow>
    get r = (x, advance (length (put x)) r)"
begin

lemma get_many_put:
  "\<forall>x \<in> set xs. valid x \<Longrightarrow> rd_ok r \<Longrightarrow> pending r = concat (map put xs) @ rest \<Longrightarrow>
   get_many get (length xs) r = (xs, advance (length (concat (map put xs))) r)"
proof (induction xs arbitrary: r)
  case (Cons x xs)
  let ?r = "advance (length (put x)) r"
  have "get r = (x, ?r)" using Cons.prems by (intro get_put) auto
  moreover have "pending ?r = concat (map put xs) @ rest"
    using Cons.prems by (intro pending_advance) simp
  ultimately show ?case using Cons.IH [of ?r] Cons.prems by simp
qed simp

text \<open>What can be decoded is encoded injectively, also in front of further bytes.\<close>

lemma put_append_inject:
  assumes "valid x" "valid y" shows "put x @ xs = put y @ ys \<longleftrightarrow> x = y \<and> xs = ys"
proof
  assume eq: "put x @ xs = put y @ ys"
  let ?r = "open_reader (put x @ xs)"
  have "get ?r = (x, advance (length (put x)) ?r)" using assms by (intro get_put) simp_all
  moreover have "get ?r = (y, advance (length (put y)) ?r)" using assms eq by (intro get_put) simp_all
  ultimately show "x = y \<and> xs = ys" using eq by simp
qed simp

lemma put_list_inject:
  "\<forall>x \<in> set ps. valid x \<Longrightarrow> \<forall>x \<in> set qs. valid x \<Longrightarrow> length ps = length qs \<Longrightarrow>
   concat (map put ps) @ xs = concat (map put qs) @ ys \<longleftrightarrow> ps = qs \<and> xs = ys"
proof (induction ps arbitrary: qs)
  case (Cons p ps)
  then obtain q qs' where qs: "qs = q # qs'" by (cases qs) auto
  with Cons.prems have "put p @ (concat (map put ps) @ xs) = put q @ (concat (map put qs') @ ys) \<longleftrightarrow>
      p = q \<and> concat (map put ps) @ xs = concat (map put qs') @ ys"
    by (intro put_append_inject) auto
  with qs Cons.IH [of qs'] Cons.prems show ?case by auto
qed simp

end

lemma get_u8_pending: "rd_ok r \<Longrightarrow> pending r = b # rest \<Longrightarrow> get_u8 r = (b, advance (Suc 0) r)"
proof -
  assume ok: "rd_ok r" and p: "pending r = b # rest"
  then have lt: "rd_offset r < length (rd_data r)"
    by (metis pending_def drop_all list.distinct(1) not_le)
  with p have "rd_data r ! rd_offset r = b"
    by (metis pending_def Cons_nth_drop_Suc list.inject)
  with ok lt show ?thesis by (simp add: get_u8_def need_def advance_def)
qed

lemma pending_advance_1: "pending r = b # rest \<Longrightarrow> pending (advance (Suc 0) r) = rest"
  using pending_advance [of r "[b]" rest] by simp

lemma length_write_le [simp]: "length (write_le n s w) = n"
  by (induction n arbitrary: s) simp_all

lemma mask_8: "(0xFF :: 'w::len word) = mask 8"
  by (simp add: mask_eq_exp_minus_1)

lemma byte_of_word:
  "bit (push_bit s (ucast (ucast (drop_bit s (w :: 'w::len word) AND 0xFF) :: u8)) :: 'w word) i \<longleftrightarrow>
   s \<le> i \<and> i < s + 8 \<and> bit w i"
proof -
  have "bit w i \<Longrightarrow> i < LENGTH('w)" by (rule bit_imp_le_length)
  then show ?thesis
    unfolding mask_8 by (auto simp: bit_simps)
qed

lemma read_write_le:
  "rd_ok r \<Longrightarrow> pending r = write_le n s w @ rest \<Longrightarrow>
   read_le n s (take_bit s w) r = (take_bit (s + 8 * n) w, advance n r)"
proof (induction n arbitrary: s r)
  case (Suc n)
  let ?b = "ucast (drop_bit s w AND 0xFF) :: u8"
  have p: "pending r = ?b # (write_le n (s + 8) w @ rest)" using Suc.prems by simp
  have step: "take_bit s w OR push_bit s (ucast ?b) = take_bit (s + 8) w"
    by (rule bit_eqI) (auto simp only: bit_or_iff byte_of_word bit_take_bit_iff)
  have "read_le (Suc n) s (take_bit s w) r = read_le n (s + 8) (take_bit (s + 8) w) (advance (Suc 0) r)"
    using get_u8_pending [OF Suc.prems(1) p] by (simp add: step)
  also have "\<dots> = (take_bit (s + 8 + 8 * n) w, advance n (advance (Suc 0) r))"
    using Suc.prems p by (intro Suc.IH) (simp_all add: pending_advance_1)
  finally show ?case by (simp add: algebra_simps)
qed simp

lemma get_u32_put: "rd_ok r \<Longrightarrow> pending r = put_u32 v @ rest \<Longrightarrow> get_u32 r = (v, advance 4 r)"
  using read_write_le [of r 4 0 v rest] by (simp add: get_u32_def put_u32_def take_bit_word_eq_self)

lemma get_u64_put: "rd_ok r \<Longrightarrow> pending r = put_u64 v @ rest \<Longrightarrow> get_u64 r = (v, advance 8 r)"
  using read_write_le [of r 8 0 v rest] by (simp add: get_u64_def put_u64_def take_bit_word_eq_self)

lemma length_put [simp]:
  "length (put_u8 b) = 1" "length (put_u16 h) = 2" "length (put_u32 w) = 4" "length (put_u64 d) = 8"
  "length (put_boolean x) = 1" "length (put_blob bs) = 4 + length bs"
  "length (put_text s) = 4 + length s"
  by (simp_all add: put_u8_def put_u16_def put_u32_def put_u64_def put_boolean_def put_blob_def put_text_def)

interpretation u8_codec: field_codec put_u8 get_u8 "\<lambda>_. True"
  by unfold_locales (simp add: put_u8_def get_u8_pending)

interpretation u32_codec: field_codec put_u32 get_u32 "\<lambda>_. True"
  by unfold_locales (simp add: get_u32_put)

interpretation u64_codec: field_codec put_u64 get_u64 "\<lambda>_. True"
  by unfold_locales (simp add: get_u64_put)

interpretation u16_codec: field_codec put_u16 get_u16 "\<lambda>_. True"
proof
  fix x r rest
  assume ok: "rd_ok r" and p: "pending r = put_u16 x @ rest"
  let ?lo = "ucast (x AND 0xFF) :: u8" and ?hi = "ucast (drop_bit 8 x AND 0xFF) :: u8"
  from p have "pending r = ?lo # ?hi # rest" by (simp add: put_u16_def put_u8_def)
  then have "get_u8 r = (?lo, advance 1 r)" "get_u8 (advance 1 r) = (?hi, advance 1 (advance 1 r))"
    using ok by (simp_all add: get_u8_pending pending_advance_1)
  moreover have "(ucast ?lo OR push_bit 8 (ucast ?hi) :: u16) = x"
  proof (rule bit_word_eqI)
    fix n assume "n < LENGTH(16)"
    then show "bit (ucast ?lo OR push_bit 8 (ucast ?hi) :: u16) n = bit x n"
      using byte_of_word [of 0 x n] byte_of_word [of 8 x n] by (auto simp: bit_or_iff)
  qed
  ultimately show "get_u16 r = (x, advance (length (put_u16 x)) r)"
    by (simp add: get_u16_def numeral_2_eq_2)
qed

interpretation boolean_codec: field_codec put_boolean get_boolean "\<lambda>_. True"
  by unfold_locales (auto simp: put_boolean_def put_u8_def get_boolean_def get_u8_pending)

definition blob_fits :: "nat \<Rightarrow> bytes \<Rightarrow> bool" where
  "blob_fits max_bytes bs = (length bs \<le> max_bytes \<and> length bs < 4294967296)"

lemma unat_of_length: "length bs < 4294967296 \<Longrightarrow> unat (of_nat (length bs) :: u32) = length bs"
  by (simp add: unat_of_nat)

lemma get_blob_put:
  assumes "blob_fits m bs" "rd_ok r" "pending r = put_blob bs @ rest"
  shows "get_blob m r = (bs, advance (4 + length bs) r)"
proof -
  let ?n = "of_nat (length bs) :: u32" and ?r = "advance 4 r"
  have p: "pending r = put_u32 ?n @ bs @ rest" using assms(3) by (simp add: put_blob_def)
  then have n: "get_u32 r = (?n, ?r)" using assms(2) by (intro get_u32_put)
  have p': "drop (rd_offset ?r) (rd_data ?r) = bs @ rest"
    using pending_advance [OF p] by (simp add: pending_def)
  then have "length bs \<le> length (rd_data ?r) - rd_offset ?r"
    by (metis length_append length_drop le_add1)
  with n p' assms(1,2) show ?thesis
    by (simp add: get_blob_def need_def blob_fits_def unat_of_length advance_def)
qed

interpretation blob_codec: field_codec put_blob "get_blob m" "blob_fits m" for m
  by unfold_locales (simp add: get_blob_put)

interpretation text_codec: field_codec put_text "get_text m" "\<lambda>s. blob_fits m (bytes_of s)" for m
  by unfold_locales (simp add: get_text_def put_text_def get_blob_put)

text \<open>What the record writer appends the record reader reads back: any number of texts within the
  length limit, a 16-bit and a 64-bit field are recovered in order, the reader stays valid,
  consumes exactly the bytes written and leaves what follows untouched.\<close>

theorem record_codec_round_trip:
  assumes "rd_ok r" and "pending r = concat (map put_text texts) @ put_u16 h @ put_u64 d @ rest"
    and "\<forall>s \<in> set texts. length s \<le> m" and "m < 4294967296"
  shows "\<exists>r1 r2 r3. get_many (get_text m) (length texts) r = (texts, r1) \<and>
    get_u16 r1 = (h, r2) \<and> get_u64 r2 = (d, r3) \<and> rd_ok r3 \<and> pending r3 = rest \<and>
    rd_offset r3 = rd_offset r + (\<Sum>s\<leftarrow>texts. 4 + length s) + 10"
proof -
  let ?T = "concat (map put_text texts)"
  have "get_many (get_text m) (length texts) r = (texts, advance (length ?T) r)"
    using assms by (intro text_codec.get_many_put) (auto simp: blob_fits_def)
  moreover note p1 = pending_advance [OF assms(2)]
  then have "get_u16 (advance (length ?T) r) = (h, advance (length (put_u16 h)) (advance (length ?T) r))"
    using assms(1) by (intro u16_codec.get_put) simp_all
  moreover note p2 = pending_advance [OF p1]
  then have "get_u64 (advance (length (put_u16 h)) (advance (length ?T) r)) =
      (d, advance (length (put_u64 d)) (advance (length (put_u16 h)) (advance (length ?T) r)))"
    using assms(1) by (intro u64_codec.get_put) simp_all
  moreover have "length ?T = (\<Sum>s\<leftarrow>texts. 4 + length s)" by (induction texts) simp_all
  ultimately show ?thesis
    using assms(1) pending_advance [OF p2] by (intro exI conjI) (auto simp: advance_def)
qed

theorem record_codec_round_trip_witness:
  "\<exists>r1 r2 r3.
     get_many (get_text 8) 2 (open_reader (put_text ''ab'' @ put_text ''c'' @ put_u16 7 @ put_u64 9 @ [1])) =
       ([''ab'', ''c''], r1) \<and> get_u16 r1 = (7, r2) \<and> get_u64 r2 = (9, r3) \<and> pending r3 = [1]"
  using record_codec_round_trip
    [of "open_reader (put_text ''ab'' @ put_text ''c'' @ put_u16 7 @ put_u64 9 @ [1])"
        "[''ab'', ''c'']" 7 9 "[1]" 8]
  by (auto simp: numeral_2_eq_2)

end
