(* ===== verification/Digest.thy ===== *)
theory Digest
  imports Codec
begin

text \<open>
  Digests (\<open>src/digest.cpp\<close>): SHA-256 over 32-bit words, its hexadecimal rendering, the
  table-driven CRC-32 of the persistence and frame headers, and FNV-1a. The hash is compared
  with the padded-message definition of FIPS 180-4, the CRC with its bitwise definition.
\<close>

subsection \<open>SHA-256\<close>

definition kSha256K :: "u32 list" where
  "kSha256K = [
    0x428A2F98, 0x71374491, 0xB5C0FBCF, 0xE9B5DBA5, 0x3956C25B, 0x59F111F1, 0x923F82A4,
    0xAB1C5ED5, 0xD807AA98, 0x12835B01, 0x243185BE, 0x550C7DC3, 0x72BE5D74, 0x80DEB1FE,
    0x9BDC06A7, 0xC19BF174, 0xE49B69C1, 0xEFBE4786, 0x0FC19DC6, 0x240CA1CC, 0x2DE92C6F,
    0x4A7484AA, 0x5CB0A9DC, 0x76F988DA, 0x983E5152, 0xA831C66D, 0xB00327C8, 0xBF597FC7,
    0xC6E00BF3, 0xD5A79147, 0x06CA6351, 0x14292967, 0x27B70A85, 0x2E1B2138, 0x4D2C6DFC,
    0x53380D13, 0x650A7354, 0x766A0ABB, 0x81C2C92E, 0x92722C85, 0xA2BFE8A1, 0xA81A664B,
    0xC24B8B70, 0xC76C51A3, 0xD192E819, 0xD6990624, 0xF40E3585, 0x106AA070, 0x19A4C116,
    0x1E376C08, 0x2748774C, 0x34B0BCB5, 0x391C0CB3, 0x4ED8AA4A, 0x5B9CCA4F, 0x682E6FF3,
    0x748F82EE, 0x78A5636F, 0x84C87814, 0x8CC70208, 0x90BEFFFA, 0xA4506CEB, 0xBEF9A3F7,
    0xC67178F2]"

definition rotr :: "u32 \<Rightarrow> nat \<Rightarrow> u32" where
  "rotr value n = drop_bit n value OR push_bit (32 - n) value"

definition big_sigma0 :: "u32 \<Rightarrow> u32" where
  "big_sigma0 x = rotr x 2 XOR rotr x 13 XOR rotr x 22"

definition big_sigma1 :: "u32 \<Rightarrow> u32" where
  "big_sigma1 x = rotr x 6 XOR rotr x 11 XOR rotr x 25"

definition small_sigma0 :: "u32 \<Rightarrow> u32" where
  "small_sigma0 x = rotr x 7 XOR rotr x 18 XOR drop_bit 3 x"

definition small_sigma1 :: "u32 \<Rightarrow> u32" where
  "small_sigma1 x = rotr x 17 XOR rotr x 19 XOR drop_bit 10 x"

type_synonym hash_state = "u32 list"

text \<open>The big-endian word at index \<open>i\<close> of a block.\<close>

definition block_word :: "bytes \<Rightarrow> nat \<Rightarrow> u32" where
  "block_word block i =
     push_bit 24 (ucast (block ! (i * 4))) OR push_bit 16 (ucast (block ! (i * 4 + 1))) OR
     push_bit 8 (ucast (block ! (i * 4 + 2))) OR ucast (block ! (i * 4 + 3))"

text \<open>The schedule loop from \<open>i\<close>, \<open>n\<close> more words; \<open>w\<close> holds the words below \<open>i\<close>.\<close>

fun expand_schedule :: "nat \<Rightarrow> nat \<Rightarrow> u32 list \<Rightarrow> u32 list" where
  "expand_schedule 0 i w = w"
| "expand_schedule (Suc n) i w =
     expand_schedule n (i + 1)
       (w @ [small_sigma1 (w ! (i - 2)) + w ! (i - 7) + small_sigma0 (w ! (i - 15)) + w ! (i - 16)])"

definition schedule :: "bytes \<Rightarrow> u32 list" where
  "schedule block = expand_schedule 48 16 (map (block_word block) [0..<16])"

fun sha256_round :: "u32 \<Rightarrow> u32 \<Rightarrow> hash_state \<Rightarrow> hash_state" where
  "sha256_round k w [a, b, c, d, e, f, g, h] =
     (let t1 = h + big_sigma1 e + ((e AND f) XOR (NOT e AND g)) + k + w;
          t2 = big_sigma0 a + ((a AND b) XOR (a AND c) XOR (b AND c))
      in [t1 + t2, a, b, c, d + t1, e, f, g])"
| "sha256_round k w st = st"

fun sha256_rounds :: "u32 list \<Rightarrow> u32 list \<Rightarrow> hash_state \<Rightarrow> hash_state" where
  "sha256_rounds (k # ks) (w # ws) st = sha256_rounds ks ws (sha256_round k w st)"
| "sha256_rounds _ _ st = st"

definition sha256_compress :: "hash_state \<Rightarrow> bytes \<Rightarrow> hash_state" where
  "sha256_compress st block =
     map2 (+) st (sha256_rounds kSha256K (schedule block) st)"

definition sha256_initial :: hash_state where
  "sha256_initial = [0x6A09E667, 0xBB67AE85, 0x3C6EF372, 0xA54FF53A,
                     0x510E527F, 0x9B05688C, 0x1F83D9AB, 0x5BE0CD19]"

text \<open>The loop over whole blocks, by offset as in the source.\<close>

function sha256_blocks :: "bytes \<Rightarrow> nat \<Rightarrow> hash_state \<Rightarrow> nat \<times> hash_state" where
  "sha256_blocks data offset st =
     (if length data - offset \<ge> 64
      then sha256_blocks data (offset + 64) (sha256_compress st (take 64 (drop offset data)))
      else (offset, st))"
  by pat_completeness auto
termination
  by (relation "measure (\<lambda>(data, offset, st). length data - offset)") auto

declare sha256_blocks.simps [simp del]

definition store_length :: "u64 \<Rightarrow> bytes \<Rightarrow> bytes" where
  "store_length bit_length block =
     foldl (\<lambda>b i. b[63 - i := ucast (drop_bit (8 * i) bit_length AND 0xFF)]) block [0..<8]"

definition word_bytes_be :: "u32 \<Rightarrow> bytes" where
  "word_bytes_be w = [ucast (drop_bit 24 w AND 0xFF), ucast (drop_bit 16 w AND 0xFF),
     ucast (drop_bit 8 w AND 0xFF), ucast (w AND 0xFF)]"

definition sha256_raw :: "bytes \<Rightarrow> bytes" where
  "sha256_raw data =
     (case sha256_blocks data 0 sha256_initial of
        (offset, st) \<Rightarrow>
          let tail = length data - offset;
              block = drop offset data @ [0x80] @ replicate (63 - tail) 0;
              (st, block) = (if tail \<ge> 56 then (sha256_compress st block, replicate 64 0) else (st, block));
              block = store_length (of_nat (length data) * 8) block;
              st = sha256_compress st block
          in concat (map word_bytes_be st))"

definition hex_digit :: "nat \<Rightarrow> char" where
  "hex_digit v = (if v < 10 then char_of (48 + v) else char_of (97 + (v - 10)))"

definition sha256_hex :: "bytes \<Rightarrow> string" where
  "sha256_hex data =
     concat (map (\<lambda>b. [hex_digit (unat (drop_bit 4 b)), hex_digit (unat (b AND 0x0F))]) (sha256_raw data))"

subsubsection \<open>Refinement of the padded-message definition\<close>

text \<open>FIPS 180-4: pad to a multiple of 64 bytes, then fold the compression over the blocks.\<close>

definition pad_zeros :: "nat \<Rightarrow> nat" where
  "pad_zeros n = (if n mod 64 < 56 then 55 - n mod 64 else 119 - n mod 64)"

definition sha256_pad :: "bytes \<Rightarrow> bytes" where
  "sha256_pad data = data @ [0x80] @ replicate (pad_zeros (length data)) 0 @
     rev (write_le 8 0 (of_nat (length data) * 8 :: u64))"

function fold_blocks :: "hash_state \<Rightarrow> bytes \<Rightarrow> hash_state" where
  "fold_blocks st data =
     (if data = [] then st else fold_blocks (sha256_compress st (take 64 data)) (drop 64 data))"
  by pat_completeness auto
termination
  by (relation "measure (\<lambda>(st, data). length data)") auto

declare fold_blocks.simps [simp del]

definition sha256_spec :: "bytes \<Rightarrow> bytes" where
  "sha256_spec data = concat (map word_bytes_be (fold_blocks sha256_initial (sha256_pad data)))"

lemma fold_blocks_block:
  "length b = 64 \<Longrightarrow> fold_blocks st (b @ data) = fold_blocks (sha256_compress st b) data"
  by (subst fold_blocks.simps) auto

lemma fold_blocks_Nil [simp]: "fold_blocks st [] = st"
  by (simp add: fold_blocks.simps)

lemma sha256_blocks_correct:
  "offset \<le> length data \<Longrightarrow> sha256_blocks data offset st = (off', st') \<Longrightarrow>
   off' \<le> length data \<and> length data - off' = (length data - offset) mod 64 \<and>
   fold_blocks st (drop offset data @ rest) = fold_blocks st' (drop off' data @ rest)"
proof (induction data offset st rule: sha256_blocks.induct)
  case (1 data offset st)
  show ?case
  proof (cases "length data - offset \<ge> 64")
    case True
    let ?b = "take 64 (drop offset data)"
    have split: "drop offset data @ rest = ?b @ drop (offset + 64) data @ rest"
      by (metis append_assoc append_take_drop_id add.commute drop_drop)
    have "length ?b = 64" using True by simp
    then have step: "fold_blocks st (drop offset data @ rest) =
        fold_blocks (sha256_compress st ?b) (drop (offset + 64) data @ rest)"
      unfolding split by (rule fold_blocks_block)
    have "(length data - (offset + 64)) mod 64 = (length data - offset) mod 64"
      using True by (metis diff_diff_left le_mod_geq)
    with True 1 step show ?thesis
      by (simp add: sha256_blocks.simps [of data offset st])
  next
    case False
    with 1 show ?thesis by (simp add: sha256_blocks.simps [of data offset st])
  qed
qed

lemma store_length_tail:
  assumes "length block = 56"
  shows "store_length n (block @ replicate 8 x) = block @ rev (write_le 8 0 n)"
proof -
  have "[0..<8] = [0, 1, 2, 3, 4, 5, 6, 7 :: nat]" by (simp add: upt_conv_Cons)
  then show ?thesis
    using assms by (simp add: store_length_def list_update_append eval_nat_numeral)
qed

lemma length_sha256_round: "length st = 8 \<Longrightarrow> length (sha256_round k w st) = 8"
  by (cases "(k, w, st)" rule: sha256_round.cases) (auto simp: Let_def)

lemma length_sha256_rounds: "length st = 8 \<Longrightarrow> length (sha256_rounds ks ws st) = 8"
  by (induction ks ws st rule: sha256_rounds.induct) (simp_all add: length_sha256_round)

lemma length_sha256_compress: "length st = 8 \<Longrightarrow> length (sha256_compress st b) = 8"
  by (simp add: sha256_compress_def length_sha256_rounds)

lemma length_sha256_blocks:
  "length st = 8 \<Longrightarrow> length (snd (sha256_blocks data off st)) = 8"
proof (induction data off st rule: sha256_blocks.induct)
  case (1 data offset st)
  then show ?case
    by (cases "length data - offset \<ge> 64")
      (simp_all add: sha256_blocks.simps [of data offset st] length_sha256_compress)
qed

lemma sha256_raw_refines: "sha256_raw data = sha256_spec data"
proof -
  let ?len = "rev (write_le 8 0 (of_nat (length data) * 8 :: u64))"
  obtain off st where blocks: "sha256_blocks data 0 sha256_initial = (off, st)"
    by (cases "sha256_blocks data 0 sha256_initial")
  let ?tail = "length data - off"
  from sha256_blocks_correct [OF _ blocks] have off: "off \<le> length data"
    and tail: "?tail = length data mod 64"
    and fold: "\<And>rest. fold_blocks sha256_initial (data @ rest) = fold_blocks st (drop off data @ rest)"
    by auto
  from tail have lt: "?tail < 64" by simp
  show ?thesis
  proof (cases "?tail < 56")
    case True
    let ?head = "drop off data @ [0x80] @ replicate (55 - ?tail) 0"
    have "replicate (63 - ?tail) (0 :: u8) = replicate (55 - ?tail) 0 @ replicate 8 0"
      using True by (simp flip: replicate_add)
    then have block: "drop off data @ [0x80] @ replicate (63 - ?tail) 0 = ?head @ replicate 8 0"
      by simp
    have head: "length ?head = 56" using off True by simp
    have "sha256_pad data = data @ [0x80] @ replicate (55 - ?tail) 0 @ ?len"
      using True tail by (simp add: sha256_pad_def pad_zeros_def)
    then have "fold_blocks sha256_initial (sha256_pad data) = fold_blocks st ((?head @ ?len) @ [])"
      using fold by simp
    also have "\<dots> = sha256_compress st (?head @ ?len)"
      using head by (subst fold_blocks_block) simp_all
    finally show ?thesis
      using True blocks block head store_length_tail [OF head]
      by (simp add: sha256_raw_def sha256_spec_def Let_def)
  next
    case False
    let ?b1 = "drop off data @ [0x80] @ replicate (63 - ?tail) 0"
    have b1: "length ?b1 = 64" using off lt by simp
    have zeros: "replicate (119 - ?tail) (0 :: u8) = replicate (63 - ?tail) 0 @ replicate 56 0"
      using lt by (simp flip: replicate_add)
    have "sha256_pad data = data @ [0x80] @ replicate (63 - ?tail) 0 @ replicate 56 0 @ ?len"
      using False tail zeros by (simp add: sha256_pad_def pad_zeros_def)
    then have "fold_blocks sha256_initial (sha256_pad data) =
        fold_blocks st (?b1 @ (replicate 56 0 @ ?len) @ [])"
      using fold by simp
    also have "\<dots> = sha256_compress (sha256_compress st ?b1) (replicate 56 0 @ ?len)"
      using b1 by (subst fold_blocks_block, simp, subst fold_blocks_block, simp_all)
    moreover have "store_length (of_nat (length data) * 8) (replicate 64 0) = replicate 56 0 @ ?len"
      using store_length_tail [of "replicate 56 0" _ 0] by (simp flip: replicate_add)
    ultimately show ?thesis
      using False blocks by (simp add: sha256_raw_def sha256_spec_def Let_def)
  qed
qed

lemma length_fold_blocks: "length st = 8 \<Longrightarrow> length (fold_blocks st data) = 8"
proof (induction st data rule: fold_blocks.induct)
  case (1 st data)
  then show ?case
    by (cases "data = []") (simp_all add: fold_blocks.simps [of st data] length_sha256_compress)
qed

lemma length_sha256_raw: "length (sha256_raw data) = 32"
proof -
  have "length (fold_blocks sha256_initial (sha256_pad data)) = 8"
    by (rule length_fold_blocks) (simp add: sha256_initial_def)
  moreover have "length (concat (map word_bytes_be ws)) = 4 * length ws" for ws
    by (induction ws) (simp_all add: word_bytes_be_def)
  ultimately show ?thesis by (simp add: sha256_raw_refines sha256_spec_def)
qed

lemma length_sha256_hex: "length (sha256_hex data) = 64"
proof -
  have "length (concat (map (\<lambda>b. [f b, g b]) bs)) = 2 * length bs" for f g :: "u8 \<Rightarrow> char" and bs
    by (induction bs) simp_all
  then show ?thesis by (simp add: sha256_hex_def length_sha256_raw)
qed

lemma hex_digit_alphanumeric: "v < 16 \<Longrightarrow> is_alphanumeric (hex_digit v)"
  by (auto simp: alphanumeric_code hex_digit_def)

lemma nibble_bound: "unat (drop_bit 4 (b :: u8)) < 16" "unat (b AND 0x0F) < 16"
proof -
  show "unat (drop_bit 4 b) < 16" 
    using unat_u8_less [of b] by (simp add: unat_drop_bit_eq drop_bit_eq_div unat_div)
  have "unat (b AND 0x0F) \<le> unat (0x0F :: u8)"
    by (rule word_and_le1 [THEN word_le_nat_alt [THEN iffD1]])
  then show "unat (b AND 0x0F) < 16" by simp
qed

lemma sha256_hex_alphanumeric: "c \<in> set (sha256_hex data) \<Longrightarrow> is_alphanumeric c"
  by (auto simp: sha256_hex_def intro!: hex_digit_alphanumeric nibble_bound)

text \<open>C39: The streaming SHA-256 of the code (whole blocks, then a one or two block tail built in a
  fixed buffer) computes the block-by-block fold of FIPS 180-4 over the padded message, for every
  input length; the padded message is a whole number of 64-byte blocks and the digest is 32 bytes.\<close>

theorem sha256_implements_fips_padding:
  "sha256_raw data = concat (map word_bytes_be (fold_blocks sha256_initial (sha256_pad data))) \<and>
   length (sha256_pad data) mod 64 = 0 \<and> length (sha256_raw data) = 32"
proof -
  obtain q r where n: "length data = 64 * q + r" and r: "r < 64"
    by (metis mult_div_mod_eq mod_less_divisor zero_less_numeral)
  have "pad_zeros (length data) = (if r < 56 then 55 - r else 119 - r)"
    using r by (simp add: pad_zeros_def n)
  then have "length (sha256_pad data) = 64 * q + r + 9 + (if r < 56 then 55 - r else 119 - r)"
    by (simp add: sha256_pad_def n)
  also have "\<dots> = 64 * (q + (if r < 56 then 1 else 2))" using r by simp
  finally have "length (sha256_pad data) mod 64 = 0" by simp
  then show ?thesis
    using length_sha256_raw [of data] by (simp add: sha256_raw_refines sha256_spec_def)
qed

subsection \<open>CRC-32\<close>

definition crc_bit :: "u32 \<Rightarrow> u32" where
  "crc_bit value = (if value AND 1 \<noteq> 0 then 0xEDB88320 XOR drop_bit 1 value else drop_bit 1 value)"

text \<open>Entry \<open>i\<close> of the static table: eight bit steps.\<close>

definition crc_entry :: "u32 \<Rightarrow> u32" where
  "crc_entry i = (crc_bit ^^ 8) i"

definition crc_table :: "u32 list" where
  "crc_table = map (\<lambda>i. crc_entry (of_nat i)) [0..<256]"

definition crc_update :: "u32 \<Rightarrow> u8 \<Rightarrow> u32" where
  "crc_update crc c =
     (let index = unat ((crc XOR ucast c) AND 0xFF) in (crc_table ! index) XOR drop_bit 8 crc)"

definition crc32 :: "bytes \<Rightarrow> u32" where
  "crc32 data = foldl crc_update 0xFFFFFFFF data XOR 0xFFFFFFFF"

text \<open>The bitwise definition: shift the register eight times per byte.\<close>

definition crc32_bitwise :: "bytes \<Rightarrow> u32" where
  "crc32_bitwise data = foldl (\<lambda>crc c. (crc_bit ^^ 8) (crc XOR ucast c)) 0xFFFFFFFF data XOR 0xFFFFFFFF"

definition fnv1a64 :: "bytes \<Rightarrow> u64" where
  "fnv1a64 data = foldl (\<lambda>h c. (h XOR ucast c) * 1099511628211) 1469598103934665603 data"

lemma and_one_iff_bit0: "(x :: u32) AND 1 \<noteq> 0 \<longleftrightarrow> bit x 0"
  by (simp add: and_one_eq bit_0 odd_iff_mod_2_eq_one)

lemma xor_common: "((p :: 'a::len word) XOR a) XOR (p XOR b) = a XOR b"
  by (rule bit_word_eqI) (auto simp: bit_simps)

lemma crc_bit_xor: "crc_bit (x XOR y) = crc_bit x XOR crc_bit y"
proof -
  have bit: "bit (x XOR y) 0 \<longleftrightarrow> bit x 0 \<noteq> bit y 0" by (simp only: bit_xor_iff)
  have shift: "drop_bit 1 (x XOR y) = drop_bit 1 x XOR drop_bit 1 y" by (rule drop_bit_xor)
  show ?thesis
    unfolding crc_bit_def and_one_iff_bit0 bit shift
    by (cases "bit x 0"; cases "bit y 0"; simp only: simp_thms if_True if_False)
      (simp_all only: xor_common, simp_all only: xor.assoc xor.left_commute)
qed

lemma crc_bits_xor: "(crc_bit ^^ n) (x XOR y) = (crc_bit ^^ n) x XOR (crc_bit ^^ n) y"
  by (induction n) (simp_all add: crc_bit_xor)

lemma crc_bits_high: "take_bit n x = 0 \<Longrightarrow> (crc_bit ^^ n) x = drop_bit n x"
proof (induction n arbitrary: x)
  case (Suc n)
  have low: "\<not> bit x i" if "i < Suc n" for i
    using Suc.prems that by (metis bit_take_bit_iff bit_0_eq bot_apply bot_bool_def)
  then have "crc_bit x = drop_bit 1 x" by (simp add: crc_bit_def and_one_iff_bit0)
  moreover have "take_bit n (drop_bit 1 x) = 0"
    using low by (intro bit_word_eqI) (simp add: bit_take_bit_iff bit_drop_bit_eq)
  moreover have "(crc_bit ^^ Suc n) x = (crc_bit ^^ n) (crc_bit x)"
    by (simp only: funpow_Suc_right o_apply)
  ultimately show ?case
    using Suc.IH [of "drop_bit 1 x"] by (simp only: drop_bit_drop_bit) simp
qed simp

lemma crc_table_entry: "crc_table ! unat (x AND 0xFF) = crc_entry (x AND 0xFF)"
proof -
  have "unat (x AND 0xFF) \<le> unat (0xFF :: u32)"
    by (rule word_and_le1 [THEN word_le_nat_alt [THEN iffD1]])
  then have "unat (x AND 0xFF) < 256" by simp
  then show ?thesis by (simp add: crc_table_def)
qed

lemma crc_update_bitwise: "crc_update crc c = (crc_bit ^^ 8) (crc XOR ucast c)"
proof -
  let ?x = "crc XOR ucast c :: u32"
  have split: "?x = (?x AND 0xFF) XOR (?x AND NOT (mask 8))"
    by (rule bit_word_eqI) (auto simp: bit_simps mask_8 [where 'w = 32])
  have high: "take_bit 8 (?x AND NOT (mask 8)) = 0"
    by (rule bit_word_eqI) (auto simp: bit_simps)
  have drop: "drop_bit 8 (?x AND NOT (mask 8)) = drop_bit 8 crc"
    by (rule bit_word_eqI) (auto simp: bit_simps dest: bit_imp_le_length)
  have "(crc_bit ^^ 8) ?x = (crc_bit ^^ 8) (?x AND 0xFF) XOR drop_bit 8 crc"
    by (subst split) (simp only: crc_bits_xor crc_bits_high [OF high] drop)
  then show ?thesis
    by (simp add: crc_update_def Let_def crc_table_entry crc_entry_def)
qed

lemma crc32_eq_bitwise: "crc32 data = crc32_bitwise data"
proof -
  have "crc_update = (\<lambda>crc c. (crc_bit ^^ 8) (crc XOR ucast c))"
    by (intro ext) (rule crc_update_bitwise)
  then show ?thesis by (simp add: crc32_def crc32_bitwise_def)
qed

lemma crc_bit_inj: "crc_bit x = crc_bit y \<Longrightarrow> x = y"
proof -
  assume "crc_bit x = crc_bit y"
  then have "crc_bit (x XOR y) = 0" by (simp add: crc_bit_xor)
  moreover have "z = 0" if z: "crc_bit z = 0" for z
  proof -
    have "bit (crc_bit z) 31 \<longleftrightarrow> bit z 0"
      using bit_imp_le_length [of z 32] by (auto simp: crc_bit_def and_one_iff_bit0 bit_simps)
    with z have "\<not> bit z 0" by simp
    with z have d: "drop_bit 1 z = 0" by (simp add: crc_bit_def and_one_iff_bit0)
    show "z = 0"
    proof (rule bit_word_eqI)
      fix n assume "n < LENGTH(32)"
      show "bit z n = bit (0 :: u32) n"
      proof (cases n)
        case (Suc m)
        have "bit (drop_bit 1 z) m = bit z (Suc m)" by (simp add: bit_drop_bit_eq)
        with d Suc show ?thesis by simp
      qed (use \<open>\<not> bit z 0\<close> in simp)
    qed
  qed
  ultimately have "x XOR y = 0" by simp
  then show "x = y" by (metis xor.assoc xor.right_neutral xor_self_eq)
qed

lemma crc_bits_inj: "(crc_bit ^^ n) x = (crc_bit ^^ n) y \<Longrightarrow> x = y"
  by (induction n) (auto dest: crc_bit_inj)

lemma xor_left_cancel: "(a :: 'a::len word) XOR b = a XOR c \<Longrightarrow> b = c"
  by (metis xor.assoc xor.left_neutral xor_self_eq)

lemma crc_update_inj_byte: "crc_update crc c = crc_update crc d \<Longrightarrow> c = d"
proof -
  assume "crc_update crc c = crc_update crc d"
  then have "(ucast c :: u32) = ucast d"
    by (auto simp: crc_update_bitwise dest!: crc_bits_inj xor_left_cancel)
  then show ?thesis by (rule ucast_u8_u32_inj)
qed

lemma crc_update_inj_state: "crc_update a c = crc_update b c \<Longrightarrow> a = b"
  by (auto simp: crc_update_bitwise xor.commute dest!: crc_bits_inj intro: xor_left_cancel)

lemma crc_fold_inj: "foldl crc_update a data = foldl crc_update b data \<Longrightarrow> a = b"
  by (induction data arbitrary: a b) (auto dest: crc_update_inj_state)

text \<open>The table driven CRC-32 agrees with the bit-by-bit reference on every input, and replacing
  any one byte of a payload always changes the checksum.\<close>

theorem crc32_table_driven_and_detects_byte_change:
  "crc32 data = crc32_bitwise data \<and>
   (crc32 (pre @ [c] @ post) = crc32 (pre @ [d] @ post) \<longleftrightarrow> c = d)"
proof -
  have "crc32 (pre @ [c] @ post) = crc32 (pre @ [d] @ post) \<Longrightarrow> c = d"
    by (auto simp: crc32_def xor.commute dest!: xor_left_cancel crc_fold_inj crc_update_inj_byte)
  then show ?thesis by (auto simp: crc32_eq_bitwise)
qed

end
