(* ===== verification/Metadata.thy ===== *)
theory Metadata
  imports Digest
begin

text \<open>
  Bounded, sorted key/value metadata (\<open>include/fabric_topology/metadata.hpp\<close>,
  \<open>src/metadata.cpp\<close>). \<open>Metadata::set\<close> keeps an iterator across an insertion; the branch in
  which it then uses that iterator has no defined behaviour in C++ and is the value \<open>None\<close>
  of the model. \<open>std::sort\<close> may order equal keys either way; that only decides which of two
  defects of a list with duplicate keys is reported first.
\<close>

type_synonym metadata = "field list"

definition has_control_bytes :: "string \<Rightarrow> bool" where
  "has_control_bytes text = list_ex (\<lambda>c. (of_char c :: nat) < 0x20 \<or> (of_char c :: nat) = 0x7F) text"

definition total_bytes :: "metadata \<Rightarrow> nat" where
  "total_bytes items = foldl (\<lambda>acc item. acc + length (fst item) + length (snd item)) 0 items"

text \<open>The loop of \<open>Metadata::validate\<close>: index, previous key and running acc.\<close>

fun validate_from :: "limits \<Rightarrow> nat \<Rightarrow> string option \<Rightarrow> nat \<Rightarrow> metadata \<Rightarrow> status + nat" where
  "validate_from lim i prev acc [] = Inr acc"
| "validate_from lim i prev acc (item # rest) =
     (if fst item = [] \<or> length (fst item) > max_metadata_key_bytes lim
      then Inl (with_field (make_status O_MalformedRequest ''metadata.invalid_key'') ''index'' (decimal i))
      else if length (snd item) > max_metadata_value_bytes lim
      then Inl (with_field (with_field (with_field
             (make_status O_ResourceLimit ''metadata.value_too_large'') ''index'' (decimal i))
             ''bytes'' (decimal (length (snd item))))
             ''limit'' (decimal (max_metadata_value_bytes lim)))
      else if has_control_bytes (fst item) \<or> has_control_bytes (snd item)
      then Inl (with_field (make_status O_MalformedRequest ''metadata.control_byte'') ''index'' (decimal i))
      else if prev = Some (fst item)
      then Inl (with_field (make_status O_DuplicateIdentity ''metadata.duplicate_key'') ''key'' (fst item))
      else validate_from lim (i + 1) (Some (fst item))
             (acc + length (fst item) + length (snd item)) rest)"

definition metadata_validate :: "metadata \<Rightarrow> limits \<Rightarrow> status" where
  "metadata_validate items lim =
     (if length items > max_metadata_entries lim
      then with_field (with_field (make_status O_ResourceLimit ''metadata.too_many_entries'')
             ''entries'' (decimal (length items))) ''limit'' (decimal (max_metadata_entries lim))
      else case validate_from lim 0 None 0 (sort_key fst items) of
        Inl status \<Rightarrow> status
      | Inr acc \<Rightarrow>
          if acc > max_metadata_total_bytes lim
          then with_field (with_field (make_status O_ResourceLimit ''metadata.total_too_large'')
                 ''bytes'' (decimal acc)) ''limit'' (decimal (max_metadata_total_bytes lim))
          else make_status O_Ok ''metadata.ok'')"

fun erase_key :: "string \<Rightarrow> metadata \<Rightarrow> metadata" where
  "erase_key k [] = []"
| "erase_key k (f # fs) = (if fst f = k then fs else f # erase_key k fs)"

definition metadata_find :: "metadata \<Rightarrow> string \<Rightarrow> string option" where
  "metadata_find items key = find_field items key"

text \<open>\<open>None\<close>: the call uses an invalidated iterator.\<close>

definition metadata_set :: "metadata \<Rightarrow> string \<Rightarrow> string \<Rightarrow> limits \<Rightarrow> (status \<times> metadata) option" where
  "metadata_set items key v lim =
     (if key = [] \<or> length key > max_metadata_key_bytes lim
      then Some (with_field (with_field (make_status O_MalformedRequest ''metadata.invalid_key'')
             ''key_bytes'' (decimal (length key))) ''limit'' (decimal (max_metadata_key_bytes lim)), items)
      else if length v > max_metadata_value_bytes lim
      then Some (with_field (with_field (with_field (make_status O_ResourceLimit ''metadata.value_too_large'')
             ''key'' key) ''bytes'' (decimal (length v))) ''limit'' (decimal (max_metadata_value_bytes lim)),
             items)
      else if has_control_bytes key \<or> has_control_bytes v
      then Some (with_field (make_status O_MalformedRequest ''metadata.control_byte'') ''key'' key, items)
      else if metadata_find items key \<noteq> None
      then (let items' = replace_first key v items in
            if total_bytes items' > max_metadata_total_bytes lim
            then Some (with_field (make_status O_ResourceLimit ''metadata.total_too_large'')
                   ''limit'' (decimal (max_metadata_total_bytes lim)), erase_key key items')
            else Some (make_status O_Ok ''metadata.ok'', items'))
      else if length items \<ge> max_metadata_entries lim
      then Some (with_field (make_status O_ResourceLimit ''metadata.too_many_entries'')
             ''limit'' (decimal (max_metadata_entries lim)), items)
      else (let items' = sort_key fst (items @ [(key, v)]) in
            if total_bytes items' > max_metadata_total_bytes lim then None
            else Some (make_status O_Ok ''metadata.ok'', items')))"

definition metadata_erase :: "metadata \<Rightarrow> string \<Rightarrow> status \<times> metadata" where
  "metadata_erase items key =
     (if metadata_find items key = None
      then (with_field (make_status O_NotFound ''metadata.key_absent'') ''key'' key, items)
      else (make_status O_Committed ''metadata.key_erased'', erase_key key items))"

fun metadata_render :: "metadata \<Rightarrow> string" where
  "metadata_render [] = []"
| "metadata_render [item] = fst item @ ''='' @ snd item"
| "metadata_render (item # rest) = fst item @ ''='' @ snd item @ '','' @ metadata_render rest"

subsection \<open>What validation accepts\<close>

definition item_ok :: "limits \<Rightarrow> field \<Rightarrow> bool" where
  "item_ok lim item = (fst item \<noteq> [] \<and> length (fst item) \<le> max_metadata_key_bytes lim \<and>
     length (snd item) \<le> max_metadata_value_bytes lim \<and>
     \<not> has_control_bytes (fst item) \<and> \<not> has_control_bytes (snd item))"

definition metadata_ok :: "limits \<Rightarrow> metadata \<Rightarrow> bool" where
  "metadata_ok lim items = (length items \<le> max_metadata_entries lim \<and> distinct (map fst items) \<and>
     (\<forall>item \<in> set items. item_ok lim item) \<and> total_bytes items \<le> max_metadata_total_bytes lim)"

lemma total_bytes_sum:
  "total_bytes items = (\<Sum>item\<leftarrow>items. length (fst item) + length (snd item))"
proof -
  have "foldl (\<lambda>acc item. acc + length (fst item) + length (snd item)) n items =
      n + (\<Sum>item\<leftarrow>items. length (fst item) + length (snd item))" for n
    by (induction items arbitrary: n) simp_all
  then show ?thesis by (simp add: total_bytes_def)
qed

lemma total_bytes_sort [simp]: "total_bytes (sort_key f items) = total_bytes items"
proof -
  have "sum_mset (mset (map g (sort_key f items))) = sum_mset (mset (map g items))"
    for g :: "field \<Rightarrow> nat"
    by (simp only: mset_map mset_sort)
  then show ?thesis unfolding total_bytes_sum by (simp only: sum_mset_sum_list)
qed

lemma total_bytes_Cons [simp]:
  "total_bytes [] = 0"
  "total_bytes (f # fs) = length (fst f) + length (snd f) + total_bytes fs"
  by (simp_all add: total_bytes_sum)

lemma total_bytes_append [simp]: "total_bytes (xs @ ys) = total_bytes xs + total_bytes ys"
  by (simp add: total_bytes_sum)

lemma validate_from_iff:
  "sorted (map fst items) \<Longrightarrow> (\<forall>k. prev = Some k \<longrightarrow> (\<forall>x \<in> set items. k \<le> fst x)) \<Longrightarrow>
   validate_from lim i prev acc items = Inr t \<longleftrightarrow>
     (\<forall>item \<in> set items. item_ok lim item) \<and> distinct (map fst items) \<and>
     (\<forall>k. prev = Some k \<longrightarrow> k \<notin> fst ` set items) \<and> t = acc + total_bytes items"
proof (induction items arbitrary: i prev acc)
  case (Cons item rest)
  have ih: "validate_from lim (i + 1) (Some (fst item)) n rest = Inr t \<longleftrightarrow>
      (\<forall>item \<in> set rest. item_ok lim item) \<and> distinct (map fst rest) \<and>
      fst item \<notin> fst ` set rest \<and> t = n + total_bytes rest" for n
    using Cons.IH [of "Some (fst item)" "i + 1" n] Cons.prems(1) by simp
  have "\<forall>x \<in> set rest. \<forall>k. prev = Some k \<longrightarrow> k \<noteq> fst item \<longrightarrow> k \<noteq> fst x"
    using Cons.prems by (auto intro: order.antisym)
  with ih show ?case by (auto simp: item_ok_def)
qed auto

lemma validate_from_error: "validate_from lim i prev acc items = Inl s \<Longrightarrow> outcome_of s \<noteq> O_Ok"
  by (induction items arbitrary: i prev acc) (auto split: if_splits)

lemma validate_from_not_committed: "validate_from lim i prev acc items = Inl s \<Longrightarrow> outcome_of s \<noteq> O_Committed"
  by (induction items arbitrary: i prev acc) (auto split: if_splits)

lemma metadata_validate_outcome: "outcome_of (metadata_validate items lim) \<noteq> O_Committed"
  by (auto simp: metadata_validate_def dest: validate_from_not_committed split: sum.split)

text \<open>Metadata validation accepts exactly the metadata whose keys are non-empty, distinct, free
  of control bytes and within the limits, and whose number of entries and total size are within
  the limits.\<close>

theorem metadata_validate_ok_iff:
  "outcome_of (metadata_validate items lim) = O_Ok \<longleftrightarrow> metadata_ok lim items"
proof -
  have iff: "validate_from lim 0 None 0 (sort_key fst items) = Inr t \<longleftrightarrow>
      (\<forall>item \<in> set items. item_ok lim item) \<and> distinct (map fst items) \<and> t = total_bytes items" for t
    by (subst validate_from_iff) (auto simp: distinct_map)
  show ?thesis
  proof (cases "validate_from lim 0 None 0 (sort_key fst items)")
    case (Inl s)
    then have "\<not> ((\<forall>item \<in> set items. item_ok lim item) \<and> distinct (map fst items))"
      using iff [of "total_bytes items"] by auto
    with Inl validate_from_error [OF Inl] show ?thesis
      by (auto simp: metadata_validate_def metadata_ok_def)
  next
    case (Inr t)
    with iff [of t] show ?thesis by (auto simp: metadata_validate_def metadata_ok_def)
  qed
qed

subsection \<open>Setting and erasing keys\<close>

definition metadata_wf :: "limits \<Rightarrow> metadata \<Rightarrow> bool" where
  "metadata_wf lim items = (metadata_ok lim items \<and> sorted (map fst items))"

lemma metadata_wf_fields: "metadata_wf lim items \<Longrightarrow> fields_wf items"
  by (simp add: metadata_wf_def metadata_ok_def fields_wf_def)

lemma erase_key_filter: "fields_wf items \<Longrightarrow> erase_key k items = filter (\<lambda>f. fst f \<noteq> k) items"
  by (induction items) (auto simp: fields_wf_Cons intro!: filter_True [symmetric])

lemma erase_replace: "erase_key k (replace_first k v items) = erase_key k items"
  by (induction items) auto

lemma erase_absent: "k \<notin> fst ` set items \<Longrightarrow> erase_key k items = items"
  by (induction items) auto

lemma erase_upd: "fields_wf items \<Longrightarrow> erase_key k (upd_field k v items) = erase_key k items"
  by (induction items) (auto simp: fields_wf_Cons intro!: erase_absent [symmetric])

lemma total_bytes_filter: "total_bytes (filter P items) \<le> total_bytes items"
  by (induction items) auto

lemma metadata_wf_erase:
  assumes "metadata_wf lim items"
  shows "metadata_wf lim (erase_key k items)"
proof -
  have "erase_key k items = filter (\<lambda>f. fst f \<noteq> k) items"
    using assms by (intro erase_key_filter metadata_wf_fields)
  moreover have "length (filter P items) \<le> length items" for P by (rule length_filter_le)
  ultimately show ?thesis
    using assms total_bytes_filter [of "\<lambda>f. fst f \<noteq> k" items]
    by (auto simp: metadata_wf_def metadata_ok_def sorted_filter_key distinct_map_filter
        intro: le_trans order_trans [OF length_filter_le])
qed

lemma length_upd_present: "k \<in> fst ` set fs \<Longrightarrow> fields_wf fs \<Longrightarrow> length (upd_field k v fs) = length fs"
  by (induction fs) (auto simp: fields_wf_Cons)

lemma metadata_wf_upd:
  assumes wf: "metadata_wf lim items" and ok: "item_ok lim (k, v)"
    and size: "length (upd_field k v items) \<le> max_metadata_entries lim"
    and acc: "total_bytes (upd_field k v items) \<le> max_metadata_total_bytes lim"
  shows "metadata_wf lim (upd_field k v items)"
proof -
  have "fields_wf items" using wf by (rule metadata_wf_fields)
  then have "fields_wf (upd_field k v items)"
    "set (upd_field k v items) = insert (k, v) {f \<in> set items. fst f \<noteq> k}"
    by (simp_all add: fields_wf_upd set_upd_field)
  with assms show ?thesis by (auto simp: metadata_wf_def metadata_ok_def fields_wf_def)
qed

text \<open>The reference value of a map after one key is set.\<close>

definition fits_after :: "limits \<Rightarrow> metadata \<Rightarrow> string \<Rightarrow> string \<Rightarrow> bool" where
  "fits_after lim items k v = (item_ok lim (k, v) \<and>
     (metadata_find items k = None \<longrightarrow> length items < max_metadata_entries lim) \<and>
     total_bytes (upd_field k v items) \<le> max_metadata_total_bytes lim)"

lemma metadata_set_present:
  assumes "fields_wf items" "metadata_find items k \<noteq> None"
  shows "replace_first k v items = upd_field k v items"
  using assms by (intro replace_first_upd) (auto simp: metadata_find_def find_field_None)

lemma metadata_set_absent:
  assumes "fields_wf items" "metadata_find items k = None"
  shows "sort_key fst (items @ [(k, v)]) = upd_field k v items"
  using assms by (intro sort_append_upd) (auto simp: metadata_find_def find_field_None)

lemma metadata_set_ok:
  assumes wf: "metadata_wf lim items" and fits: "fits_after lim items k v"
  shows "metadata_set items k v lim = Some (make_status O_Ok ''metadata.ok'', upd_field k v items) \<and>
    metadata_wf lim (upd_field k v items)"
proof -
  note f = metadata_wf_fields [OF wf]
  have "length (upd_field k v items) \<le> max_metadata_entries lim"
  proof (cases "metadata_find items k")
    case None
    then show ?thesis using fits length_upd_field [of k v items] by (simp add: fits_after_def)
  next
    case (Some w)
    then have "k \<in> fst ` set items" using find_field_None [of items k] by (simp add: metadata_find_def)
    then show ?thesis using wf f by (simp add: length_upd_present metadata_wf_def metadata_ok_def)
  qed
  then have "metadata_wf lim (upd_field k v items)"
    using wf fits by (intro metadata_wf_upd) (simp_all add: fits_after_def)
  with fits show ?thesis
    by (cases "metadata_find items k")
      (auto simp: metadata_set_def fits_after_def item_ok_def Let_def
        metadata_set_present [OF f] metadata_set_absent [OF f])
qed

lemma metadata_set_rejected:
  assumes wf: "metadata_wf lim items" and no: "\<not> fits_after lim items k v"
    and set: "metadata_set items k v lim = Some (s, items')"
  shows "outcome_of s \<noteq> O_Ok \<and> (items' = items \<or> items' = erase_key k items)"
  using set no
  by (auto simp: metadata_set_def fits_after_def item_ok_def Let_def erase_upd [OF metadata_wf_fields [OF wf]]
      metadata_set_present [OF metadata_wf_fields [OF wf]]
      metadata_set_absent [OF metadata_wf_fields [OF wf]] split: if_splits)

text \<open>Where setting a metadata entry is defined, it keeps the metadata well formed, is accepted
  exactly when the entry fits, then stores it and leaves the other entries alone; a refusal leaves
  the entries as they were or without the key.\<close>

theorem metadata_set_functional:
  assumes "metadata_wf lim items" and "metadata_set items k v lim = Some (s, items')"
  shows "metadata_wf lim items' \<and>
    (outcome_of s = O_Ok \<longleftrightarrow> fits_after lim items k v) \<and>
    (outcome_of s = O_Ok \<longrightarrow>
       metadata_find items' k = Some v \<and> (\<forall>k'. k' \<noteq> k \<longrightarrow> metadata_find items' k' = metadata_find items k')) \<and>
    (outcome_of s \<noteq> O_Ok \<longrightarrow> items' = items \<or> items' = erase_key k items)"
proof (cases "fits_after lim items k v")
  case True
  then show ?thesis
    using metadata_set_ok [OF assms(1) True] assms find_upd_field [OF metadata_wf_fields [OF assms(1)]]
    by (auto simp: metadata_find_def)
next
  case False
  with metadata_set_rejected [OF assms(1) False assms(2)] assms(1) show ?thesis
    by (auto intro: metadata_wf_erase)
qed

text \<open>A small limit record on which the overflow branches are reached quickly.\<close>

definition tiny_limits :: limits where
  "tiny_limits = default_limits\<lparr>max_metadata_total_bytes := 4\<rparr>"

theorem metadata_set_functional_witness:
  "metadata_find [(''a'', ''xy''), (''b'', [])] ''a'' = Some ''xy'' \<and>
   metadata_wf tiny_limits [(''a'', ''xy''), (''b'', [])]"
  using metadata_set_functional [of tiny_limits "[(''a'', ''xy'')]" "''b''" "[]"
      "make_status O_Ok ''metadata.ok''" "[(''a'', ''xy''), (''b'', [])]"]
  by (simp add: metadata_wf_def metadata_ok_def item_ok_def tiny_limits_def default_limits_def
      has_control_bytes_def metadata_set_def metadata_find_def)

text \<open>Setting a metadata entry is undefined behaviour in the code (a stale iterator is compared
  after the vector has grown) exactly when a new key of an acceptable entry pushes the total size
  over the limit.\<close>

theorem metadata_set_undefined_iff:
  assumes "metadata_wf lim items"
  shows "metadata_set items k v lim = None \<longleftrightarrow>
    item_ok lim (k, v) \<and> metadata_find items k = None \<and> length items < max_metadata_entries lim \<and>
    total_bytes items + length k + length v > max_metadata_total_bytes lim"
  using assms
  by (auto simp: metadata_set_def item_ok_def Let_def split: if_splits)

theorem metadata_set_undefined_iff_witness:
  "metadata_set [(''a'', ''xy'')] ''b'' ''z'' tiny_limits = None"
  using metadata_set_undefined_iff [of tiny_limits "[(''a'', ''xy'')]" "''b''" "''z''"]
  by (simp add: metadata_wf_def metadata_ok_def item_ok_def tiny_limits_def default_limits_def
      has_control_bytes_def metadata_find_def)

text \<open>Overwriting an existing metadata entry by a value that pushes the total size over the limit
  is rejected and yet removes the old entry.\<close>

theorem metadata_set_rejected_loses_entry:
  assumes "metadata_wf lim items" and "metadata_find items k = Some old" and "item_ok lim (k, v)"
    and "total_bytes (upd_field k v items) > max_metadata_total_bytes lim"
  shows "\<exists>s items'. metadata_set items k v lim = Some (s, items') \<and> outcome_of s = O_ResourceLimit \<and>
    metadata_find items' k = None"
proof -
  note f = metadata_wf_fields [OF assms(1)]
  have "metadata_find (erase_key k items) k = None"
    using f by (auto simp: metadata_find_def find_field_None erase_key_filter)
  then show ?thesis
    using assms by (simp add: metadata_set_def item_ok_def Let_def metadata_set_present [OF f, symmetric]
        erase_replace)
qed

theorem metadata_set_rejected_loses_entry_witness:
  "\<exists>s items'. metadata_set [(''a'', ''xy'')] ''a'' ''wxyz'' tiny_limits = Some (s, items') \<and>
     outcome_of s = O_ResourceLimit \<and> metadata_find items' ''a'' = None"
  by (rule metadata_set_rejected_loses_entry [where old = "''xy''"])
    (simp_all add: metadata_wf_def metadata_ok_def item_ok_def tiny_limits_def default_limits_def
      has_control_bytes_def metadata_find_def)

end
