(* ===== verification/Registry.thy ===== *)
theory Registry
  imports Metadata
begin

text \<open>
  The seam to Fabric Registry (\<open>include/fabric_topology/registry.hpp\<close>, \<open>src/registry.cpp\<close>):
  entity records and the in-memory directory. The locale \<open>entity_directory\<close> states what the
  engine may rely on when it compares a stored binding with the directory: identities never
  vanish or change class, generations never go back, and a retired or superseded identity
  stays so. The in-memory adapter is shown to provide it for every sequence of its operations.
\<close>

record entity_record =
  er_entity_id :: string
  er_entity_class :: entity_class
  er_generation :: u64
  er_retired :: bool
  er_superseded :: bool
  er_superseded_by :: string

type_synonym directory = "(string, entity_record) mapping"

definition directory_add :: "directory \<Rightarrow> entity_record \<Rightarrow> status \<times> directory" where
  "directory_add records rec =
     (if er_entity_id rec = [] \<or> \<not> is_valid_identifier (er_entity_id rec) kMaxIdentifierBytes
      then (with_field (make_status O_MalformedRequest ''directory.invalid_identifier'')
              ''entity_id'' (er_entity_id rec), records)
      else if er_entity_class rec = EC_Unknown
      then (with_field (make_status O_MalformedRequest ''directory.unknown_class'')
              ''entity_id'' (er_entity_id rec), records)
      else if er_generation rec = 0
      then (with_field (make_status O_MalformedRequest ''directory.zero_generation'')
              ''entity_id'' (er_entity_id rec), records)
      else if has_key records (er_entity_id rec)
      then (with_field (make_status O_DuplicateIdentity ''directory.duplicate_identity'')
              ''entity_id'' (er_entity_id rec), records)
      else (with_field (make_status O_Committed ''directory.added'') ''entity_id'' (er_entity_id rec),
            Mapping.update (er_entity_id rec) rec records))"

definition directory_supersede :: "directory \<Rightarrow> string \<Rightarrow> entity_record \<Rightarrow> status \<times> directory" where
  "directory_supersede records old_id successor =
     (case Mapping.lookup records old_id of
        None \<Rightarrow> (with_field (make_status O_UnknownEntity ''directory.predecessor_unknown'')
                  ''entity_id'' old_id, records)
      | Some old \<Rightarrow>
          if er_entity_id successor = [] \<or>
             \<not> is_valid_identifier (er_entity_id successor) kMaxIdentifierBytes
          then (make_status O_MalformedRequest ''directory.invalid_successor'', records)
          else if er_entity_class successor = EC_Unknown \<or> er_generation successor = 0
          then (make_status O_MalformedRequest ''directory.invalid_successor'', records)
          else if has_key records (er_entity_id successor)
          then (with_field (make_status O_DuplicateIdentity ''directory.successor_exists'')
                  ''entity_id'' (er_entity_id successor), records)
          else (with_field (with_field (make_status O_Committed ''directory.superseded'')
                  ''superseded'' old_id) ''successor'' (er_entity_id successor),
                Mapping.update (er_entity_id successor) successor
                  (Mapping.update old_id
                     (old\<lparr>er_superseded := True, er_superseded_by := er_entity_id successor\<rparr>) records)))"

definition directory_retire :: "directory \<Rightarrow> string \<Rightarrow> status \<times> directory" where
  "directory_retire records key =
     (case Mapping.lookup records key of
        None \<Rightarrow> (with_field (make_status O_UnknownEntity ''directory.unknown'') ''entity_id'' key, records)
      | Some rec \<Rightarrow>
          if er_retired rec then (make_status O_Idempotent ''directory.already_retired'', records)
          else (with_field (make_status O_Committed ''directory.retired'') ''entity_id'' key,
                Mapping.update key (rec\<lparr>er_retired := True\<rparr>) records))"

definition directory_bump_generation :: "directory \<Rightarrow> string \<Rightarrow> u64 \<Rightarrow> status \<times> directory" where
  "directory_bump_generation records key g =
     (case Mapping.lookup records key of
        None \<Rightarrow> (with_field (make_status O_UnknownEntity ''directory.unknown'') ''entity_id'' key, records)
      | Some rec \<Rightarrow>
          if g = er_generation rec
          then (make_status O_Idempotent ''directory.generation_unchanged'', records)
          else if g < er_generation rec
          then (with_field (with_field (with_field
                  (make_status O_StaleEntityGeneration ''directory.generation_rollback'')
                  ''entity_id'' key) ''current'' (u64_string (er_generation rec)))
                  ''requested'' (u64_string g), records)
          else (with_field (with_field (make_status O_Committed ''directory.generation_advanced'')
                  ''entity_id'' key) ''generation'' (u64_string g),
                Mapping.update key (rec\<lparr>er_generation := g\<rparr>) records))"

definition directory_lookup :: "directory \<Rightarrow> string \<Rightarrow> entity_record option" where
  "directory_lookup records key = Mapping.lookup records key"

text \<open>The listing is sorted by \<open>entity_id\<close>, which is the key of the record (\<open>directory_wf\<close>).\<close>

definition directory_list :: "directory \<Rightarrow> entity_class \<Rightarrow> entity_record list" where
  "directory_list records c =
     sort_key er_entity_id (filter (\<lambda>rec. er_entity_class rec = c) (sorted_values records))"

definition directory_size :: "directory \<Rightarrow> nat" where
  "directory_size records = map_size records"

subsection \<open>The contract of a directory\<close>

definition identity_live :: "entity_record \<Rightarrow> bool" where
  "identity_live rec = (\<not> er_retired rec \<and> \<not> er_superseded rec)"

text \<open>\<open>record_progress a b\<close>: what may become of the record of one identity.\<close>

definition record_progress :: "entity_record \<Rightarrow> entity_record \<Rightarrow> bool" where
  "record_progress a b = (er_entity_id b = er_entity_id a \<and> er_entity_class b = er_entity_class a \<and>
     er_generation a \<le> er_generation b \<and> (er_retired a \<longrightarrow> er_retired b) \<and>
     (er_superseded a \<longrightarrow> er_superseded b))"

lemma record_progress_refl [simp]: "record_progress a a"
  by (simp add: record_progress_def)

lemma record_progress_trans: "record_progress a b \<Longrightarrow> record_progress b c \<Longrightarrow> record_progress a c"
  by (auto simp: record_progress_def)

locale entity_directory =
  fixes lookup :: "'d \<Rightarrow> string \<Rightarrow> entity_record option"
    and step :: "'d \<Rightarrow> 'd \<Rightarrow> bool"
  assumes progress: "step d d' \<Longrightarrow> lookup d k = Some rec \<Longrightarrow>
    \<exists>rec'. lookup d' k = Some rec' \<and> record_progress rec rec'"
begin

lemma run_progress:
  "step\<^sup>*\<^sup>* d d' \<Longrightarrow> lookup d k = Some rec \<Longrightarrow>
   \<exists>rec'. lookup d' k = Some rec' \<and> record_progress rec rec'"
proof (induction rule: rtranclp_induct)
  case (step y z)
  then obtain r where r: "lookup y k = Some r" "record_progress rec r" by blast
  with progress [OF step.hyps(2) r(1)] show ?case by (blast intro: record_progress_trans)
qed simp

text \<open>An identity that is not live, or a binding older than the directory, stays that way.\<close>

lemma dead_stays_dead:
  "step\<^sup>*\<^sup>* d d' \<Longrightarrow> lookup d k = Some rec \<Longrightarrow> \<not> identity_live rec \<Longrightarrow>
   \<exists>rec'. lookup d' k = Some rec' \<and> \<not> identity_live rec'"
  using run_progress by (fastforce simp: identity_live_def record_progress_def)

lemma stale_stays_stale:
  "step\<^sup>*\<^sup>* d d' \<Longrightarrow> lookup d k = Some rec \<Longrightarrow> g < er_generation rec \<Longrightarrow>
   \<exists>rec'. lookup d' k = Some rec' \<and> er_generation rec' \<noteq> g"
  using run_progress [of d d' k rec] by (auto simp: record_progress_def)

end

subsection \<open>The in-memory adapter provides it\<close>

inductive directory_step :: "directory \<Rightarrow> directory \<Rightarrow> bool" where
  add: "directory_step d (snd (directory_add d rec))"
| supersede: "directory_step d (snd (directory_supersede d old_id successor))"
| retire: "directory_step d (snd (directory_retire d key))"
| bump: "directory_step d (snd (directory_bump_generation d key g))"

inductive_cases directory_stepE: "directory_step d d'"

definition record_wf :: "string \<Rightarrow> entity_record \<Rightarrow> bool" where
  "record_wf k rec = (er_entity_id rec = k \<and> is_valid_identifier k kMaxIdentifierBytes \<and>
     er_entity_class rec \<noteq> EC_Unknown \<and> er_generation rec \<noteq> 0)"

definition directory_wf :: "directory \<Rightarrow> bool" where
  "directory_wf d = (finite (Mapping.keys d) \<and> (\<forall>k rec. Mapping.lookup d k = Some rec \<longrightarrow> record_wf k rec))"

lemmas directory_ops = directory_add_def directory_supersede_def directory_retire_def
  directory_bump_generation_def

lemma has_key_iff: "has_key m k \<longleftrightarrow> (\<exists>v. Mapping.lookup m k = Some v)"
  by (auto simp: has_key_def)

lemma directory_step_progress:
  assumes "directory_step d d'" and "Mapping.lookup d k = Some rec"
  shows "\<exists>rec'. Mapping.lookup d' k = Some rec' \<and> record_progress rec rec'"
  using assms
  by (cases rule: directory_stepE)
    (auto simp: directory_ops lookup_simps has_key_iff record_progress_def split: option.splits)

interpretation memory: entity_directory directory_lookup directory_step
  by unfold_locales (auto simp: directory_lookup_def dest: directory_step_progress)

lemma directory_step_wf: "directory_step d d' \<Longrightarrow> directory_wf d \<Longrightarrow> directory_wf d'"
proof (induction rule: directory_step.induct)
  case (add d rec)
  then show ?case by (auto simp: directory_wf_def directory_add_def lookup_simps record_wf_def)
next
  case (supersede d old_id successor)
  then show ?case
    by (fastforce simp: directory_wf_def directory_supersede_def lookup_simps record_wf_def
        split: option.splits)
next
  case (retire d key)
  then show ?case
    by (fastforce simp: directory_wf_def directory_retire_def lookup_simps record_wf_def
        split: option.splits)
next
  case (bump d key g)
  then show ?case
    by (fastforce simp: directory_wf_def directory_bump_generation_def lookup_simps record_wf_def word_gt_0
        split: option.splits)
qed

lemma directory_run_wf: "directory_step\<^sup>*\<^sup>* d d' \<Longrightarrow> directory_wf d \<Longrightarrow> directory_wf d'"
  by (induction rule: rtranclp_induct) (auto intro: directory_step_wf)

lemma directory_wf_empty: "directory_wf Mapping.empty"
  by (simp add: directory_wf_def lookup_simps)

text \<open>Once the entity directory holds an identity, no sequence of its operations loses the
  record, changes its class, lowers its generation or brings a retired or superseded identity back
  to life.\<close>

theorem directory_never_revives_identity:
  assumes "directory_step\<^sup>*\<^sup>* Mapping.empty d" and "directory_step\<^sup>*\<^sup>* d d'"
    and "directory_lookup d k = Some rec"
  shows "\<exists>rec'. directory_lookup d' k = Some rec' \<and> record_wf k rec' \<and>
    er_entity_class rec' = er_entity_class rec \<and> er_generation rec \<le> er_generation rec' \<and>
    (\<not> identity_live rec \<longrightarrow> \<not> identity_live rec') \<and>
    (\<forall>g < er_generation rec. er_generation rec' \<noteq> g)"
proof -
  obtain rec' where rec': "directory_lookup d' k = Some rec'" "record_progress rec rec'"
    using memory.run_progress [OF assms(2,3)] by blast
  have "directory_wf d'"
    using assms(1,2) directory_wf_empty by (blast intro: directory_run_wf)
  with rec' have "record_wf k rec'" by (simp add: directory_wf_def directory_lookup_def)
  with rec' show ?thesis by (auto simp: record_progress_def identity_live_def)
qed

definition sample_record :: entity_record where
  "sample_record = \<lparr>er_entity_id = ''sw1'', er_entity_class = EC_Switch, er_generation = 3,
     er_retired = False, er_superseded = False, er_superseded_by = []\<rparr>"

definition sample_successor :: entity_record where
  "sample_successor = sample_record\<lparr>er_entity_id := ''sw2'', er_generation := 1\<rparr>"

lemmas sample_record_simps = sample_record_def sample_successor_def

theorem directory_never_revives_identity_witness:
  "\<exists>rec'. directory_lookup (snd (directory_bump_generation
       (snd (directory_supersede (snd (directory_add Mapping.empty sample_record)) ''sw1'' sample_successor))
       ''sw1'' 9)) ''sw1'' = Some rec' \<and> \<not> identity_live rec'"
proof -
  let ?d1 = "snd (directory_add Mapping.empty sample_record)"
  let ?d2 = "snd (directory_supersede ?d1 ''sw1'' sample_successor)"
  have "\<exists>rec. directory_lookup ?d2 ''sw1'' = Some rec \<and> \<not> identity_live rec"
    by (simp add: directory_ops sample_record_simps lookup_simps directory_lookup_def identity_live_def
        valid_identifier_iff is_body_char_def is_alphanumeric_def less_eq_char_def kMaxIdentifierBytes_def)
  moreover have "directory_step\<^sup>*\<^sup>* Mapping.empty ?d2"
    by (meson converse_rtranclp_into_rtranclp directory_step.add directory_step.supersede rtranclp.rtrancl_refl)
  moreover have "directory_step\<^sup>*\<^sup>* ?d2 (snd (directory_bump_generation ?d2 ''sw1'' 9))"
    by (meson converse_rtranclp_into_rtranclp directory_step.bump rtranclp.rtrancl_refl)
  ultimately show ?thesis
    using directory_never_revives_identity [of ?d2 "snd (directory_bump_generation ?d2 ''sw1'' 9)" "''sw1''"]
    by blast
qed

text \<open>The directory operations do what they report: an addition is committed exactly for a valid,
  classified, non-zero generation identity that is absent, and is then found; a committed
  supersession ends the old identity and stores its successor; a bump is committed exactly when it
  raises the generation; a listing holds exactly the records of the class.\<close>

theorem directory_operations_functional:
  assumes "directory_wf d"
  shows "(outcome_of (fst (directory_add d rec)) = O_Committed \<longleftrightarrow>
      is_valid_identifier (er_entity_id rec) kMaxIdentifierBytes \<and> er_entity_class rec \<noteq> EC_Unknown \<and>
      er_generation rec \<noteq> 0 \<and> directory_lookup d (er_entity_id rec) = None) \<and>
    (outcome_of (fst (directory_add d rec)) = O_Committed \<longrightarrow>
      directory_lookup (snd (directory_add d rec)) (er_entity_id rec) = Some rec) \<and>
    (outcome_of (fst (directory_supersede d old_id rec)) = O_Committed \<longrightarrow>
      (\<exists>old. directory_lookup (snd (directory_supersede d old_id rec)) old_id = Some old \<and>
         \<not> identity_live old \<and> er_superseded_by old = er_entity_id rec) \<and>
      directory_lookup (snd (directory_supersede d old_id rec)) (er_entity_id rec) = Some rec) \<and>
    (outcome_of (fst (directory_bump_generation d k g)) = O_Committed \<longleftrightarrow>
      (\<exists>old. directory_lookup d k = Some old \<and> er_generation old < g)) \<and>
    set (directory_list d c) =
      {rec. (\<exists>k. directory_lookup d k = Some rec) \<and> er_entity_class rec = c}"
  using assms
  by (auto simp: directory_ops lookup_simps has_key_iff directory_lookup_def identity_live_def
      valid_identifier_iff directory_list_def set_sorted_values directory_wf_def
      split: option.splits if_splits)

theorem directory_operations_functional_witness:
  "directory_lookup (snd (directory_add Mapping.empty sample_record)) ''sw1'' = Some sample_record"
  using directory_operations_functional [OF directory_wf_empty, of sample_record]
  by (simp add: sample_record_simps directory_lookup_def lookup_simps valid_identifier_iff
      is_body_char_def is_alphanumeric_def less_eq_char_def kMaxIdentifierBytes_def)

end
