(* ===== verification/Index.thy ===== *)
theory Index
  imports Registry
begin

text \<open>
  The two kinds of derived index the graph keeps, as interfaces: a keyed index maps each key
  to the one record that has it, a bucket index files the identifier of a record under a set of
  keys and never keeps an empty bucket. \<open>Graph_State\<close> interprets both on every index of the
  code. The stored records are a finite map \<open>E\<close> from identifier to record.
\<close>

type_synonym 'k buckets = "('k, string set) mapping"

subsection \<open>Bucket operations\<close>

text \<open>\<open>GraphState::index_into\<close>, \<open>add_to(index[key], id)\<close> and \<open>GraphState::unindex_from\<close>.\<close>

definition bucket :: "'k buckets \<Rightarrow> 'k \<Rightarrow> string set" where
  "bucket m k = (case Mapping.lookup m k of None \<Rightarrow> {} | Some ids \<Rightarrow> ids)"

definition index_into :: "'k \<Rightarrow> string \<Rightarrow> 'k buckets \<Rightarrow> 'k buckets" where
  "index_into k i m = Mapping.update k (insert i (bucket m k)) m"

definition unindex_from :: "'k \<Rightarrow> string \<Rightarrow> 'k buckets \<Rightarrow> 'k buckets" where
  "unindex_from k i m =
     (case Mapping.lookup m k of
        None \<Rightarrow> m
      | Some ids \<Rightarrow> if ids - {i} = {} then Mapping.delete k m else Mapping.update k (ids - {i}) m)"

definition tight :: "'k buckets \<Rightarrow> bool" where
  "tight m = (\<forall>k. Mapping.lookup m k \<noteq> Some {})"

lemma tight_empty [simp]: "tight Mapping.empty"
  by (simp add: tight_def lookup_simps)

lemma bucket_empty [simp]: "bucket Mapping.empty k = {}"
  by (simp add: bucket_def lookup_simps)

lemma bucket_index_into [lookup_simps]:
  "bucket (index_into k i m) k' = (if k = k' then insert i (bucket m k) else bucket m k')"
  by (simp add: bucket_def index_into_def lookup_simps)

lemma bucket_unindex_from [lookup_simps]:
  "bucket (unindex_from k i m) k' = (if k = k' then bucket m k - {i} else bucket m k')"
  by (auto simp: bucket_def unindex_from_def lookup_simps split: option.splits)

lemma tight_index_into [simp]: "tight m \<Longrightarrow> tight (index_into k i m)"
  by (auto simp: tight_def index_into_def lookup_simps)

lemma tight_unindex_from [simp]: "tight m \<Longrightarrow> tight (unindex_from k i m)"
  by (auto simp: tight_def unindex_from_def lookup_simps split: option.splits)

lemma tight_lookup: "tight m \<Longrightarrow> Mapping.lookup m k = (if bucket m k = {} then None else Some (bucket m k))"
  by (auto simp: tight_def bucket_def split: option.splits)

lemma tight_ext: "tight m \<Longrightarrow> tight m' \<Longrightarrow> (\<And>k. bucket m k = bucket m' k) \<Longrightarrow> m = m'"
  by (rule mapping_eqI) (simp add: tight_lookup)

text \<open>\<open>ids_match\<close>: every record is stored under its own identifier.\<close>

definition ids_match :: "('e \<Rightarrow> string) \<Rightarrow> (string, 'e) mapping \<Rightarrow> bool" where
  "ids_match ident E = (\<forall>i e. Mapping.lookup E i = Some e \<longrightarrow> ident e = i)"

lemma ids_matchD: "ids_match ident E \<Longrightarrow> Mapping.lookup E i = Some e \<Longrightarrow> ident e = i"
  by (auto simp: ids_match_def)

lemma ids_match_update [simp]: "ids_match ident E \<Longrightarrow> ident e = i \<Longrightarrow> ids_match ident (Mapping.update i e E)"
  by (auto simp: ids_match_def lookup_simps)

lemma ids_match_delete [simp]: "ids_match ident E \<Longrightarrow> ids_match ident (Mapping.delete i E)"
  by (auto simp: ids_match_def lookup_simps)

lemma ids_match_empty [simp]: "ids_match ident Mapping.empty"
  by (simp add: ids_match_def lookup_simps)

subsection \<open>Bucket indexes\<close>

definition filed :: "('e \<Rightarrow> 'k set) \<Rightarrow> (string, 'e) mapping \<Rightarrow> 'k \<Rightarrow> string set" where
  "filed keys E k = {i. \<exists>e. Mapping.lookup E i = Some e \<and> k \<in> keys e}"

definition files :: "('e \<Rightarrow> 'k set) \<Rightarrow> 'k buckets \<Rightarrow> (string, 'e) mapping \<Rightarrow> bool" where
  "files keys m E = (tight m \<and> (\<forall>k. bucket m k = filed keys E k))"

lemma files_unique: "files keys m E \<Longrightarrow> files keys m' E \<Longrightarrow> m = m'"
  by (rule tight_ext) (simp_all add: files_def)

lemma files_empty [simp]: "files keys Mapping.empty Mapping.empty"
  by (simp add: files_def filed_def lookup_simps)

lemma filesD: "files keys m E \<Longrightarrow> i \<in> bucket m k \<Longrightarrow> \<exists>e. Mapping.lookup E i = Some e \<and> k \<in> keys e"
  by (auto simp: files_def filed_def)

locale bucket_index =
  fixes ident :: "'e \<Rightarrow> string" and keys :: "'e \<Rightarrow> 'k set"
    and index :: "'e \<Rightarrow> 'k buckets \<Rightarrow> 'k buckets" and unindex :: "'e \<Rightarrow> 'k buckets \<Rightarrow> 'k buckets"
  assumes bucket_index: "bucket (index e m) k = (if k \<in> keys e then insert (ident e) (bucket m k) else bucket m k)"
    and bucket_unindex: "bucket (unindex e m) k = (if k \<in> keys e then bucket m k - {ident e} else bucket m k)"
    and tight_index: "tight m \<Longrightarrow> tight (index e m)"
    and tight_unindex: "tight m \<Longrightarrow> tight (unindex e m)"
begin

lemma files_insert:
  "files keys m E \<Longrightarrow> Mapping.lookup E (ident e) = None \<Longrightarrow>
   files keys (index e m) (Mapping.update (ident e) e E)"
  by (auto simp: files_def filed_def bucket_index tight_index lookup_simps)

lemma files_erase:
  "files keys m E \<Longrightarrow> Mapping.lookup E (ident e) = Some e \<Longrightarrow>
   files keys (unindex e m) (Mapping.delete (ident e) E)"
  by (auto simp: files_def filed_def bucket_unindex tight_unindex lookup_simps)

end

text \<open>The index every record of which is filed under exactly one key.\<close>

lemma bucket_index_single:
  "bucket_index ident (\<lambda>e. {f e}) (\<lambda>e. index_into (f e) (ident e)) (\<lambda>e. unindex_from (f e) (ident e))"
  by unfold_locales (auto simp: lookup_simps)

subsection \<open>Keyed indexes\<close>

text \<open>\<open>map[key] = id\<close>, and the guarded erase of \<open>unindex_node\<close> and \<open>unindex_edge\<close>.\<close>

definition put_key :: "'k \<Rightarrow> string \<Rightarrow> ('k, string) mapping \<Rightarrow> ('k, string) mapping" where
  "put_key k i m = Mapping.update k i m"

definition drop_key :: "'k \<Rightarrow> string \<Rightarrow> ('k, string) mapping \<Rightarrow> ('k, string) mapping" where
  "drop_key k i m = (if Mapping.lookup m k = Some i then Mapping.delete k m else m)"

definition keyed :: "('e \<Rightarrow> 'k) \<Rightarrow> ('k, string) mapping \<Rightarrow> (string, 'e) mapping \<Rightarrow> bool" where
  "keyed key m E = (\<forall>k i. Mapping.lookup m k = Some i \<longleftrightarrow> (\<exists>e. Mapping.lookup E i = Some e \<and> key e = k))"

lemma keyedI:
  "(\<And>k i. Mapping.lookup m k = Some i \<Longrightarrow> \<exists>e. Mapping.lookup E i = Some e \<and> key e = k) \<Longrightarrow>
   (\<And>i e. Mapping.lookup E i = Some e \<Longrightarrow> Mapping.lookup m (key e) = Some i) \<Longrightarrow> keyed key m E"
  by (auto simp: keyed_def)

lemma keyedD: "keyed key m E \<Longrightarrow> Mapping.lookup m k = Some i \<Longrightarrow> \<exists>e. Mapping.lookup E i = Some e \<and> key e = k"
  by (simp add: keyed_def)

lemma keyed_lookup: "keyed key m E \<Longrightarrow> Mapping.lookup E i = Some e \<Longrightarrow> Mapping.lookup m (key e) = Some i"
  by (auto simp: keyed_def)

lemma keyed_unique: "keyed key m E \<Longrightarrow> keyed key m' E \<Longrightarrow> m = m'"
proof (rule mapping_eqI)
  fix k
  assume "keyed key m E" "keyed key m' E"
  then have eq: "\<And>i. Mapping.lookup m k = Some i \<longleftrightarrow> Mapping.lookup m' k = Some i"
    by (simp add: keyed_def)
  show "Mapping.lookup m k = Mapping.lookup m' k"
  proof (cases "Mapping.lookup m' k")
    case None
    then show ?thesis using eq [THEN iffD1] by (cases "Mapping.lookup m k") auto
  next
    case (Some i)
    then show ?thesis by (simp only: eq [THEN iffD2])
  qed
qed

lemma keyed_empty [simp]: "keyed key Mapping.empty Mapping.empty"
  by (simp add: keyed_def lookup_simps)

lemma keyed_inj:
  assumes "keyed key m E" "Mapping.lookup E i = Some e" "Mapping.lookup E j = Some f" "key e = key f"
  shows "i = j"
  using keyed_lookup [OF assms(1,2)] keyed_lookup [OF assms(1,3)] assms(4) by simp

lemma keyed_None: "keyed key m E \<Longrightarrow> Mapping.lookup m k = None \<Longrightarrow> Mapping.lookup E i = Some e \<Longrightarrow> key e \<noteq> k"
  by (auto dest: keyed_lookup)

lemma lookup_put_key [lookup_simps]:
  "Mapping.lookup (put_key k i m) k' = (if k' = k then Some i else Mapping.lookup m k')"
  by (simp add: put_key_def lookup_simps)

lemma lookup_drop_key [lookup_simps]:
  "Mapping.lookup (drop_key k i m) k' = (if k' = k \<and> Mapping.lookup m k' = Some i then None else Mapping.lookup m k')"
  by (auto simp: drop_key_def lookup_simps)

locale keyed_index =
  fixes ident :: "'e \<Rightarrow> string" and key :: "'e \<Rightarrow> 'k"
    and enter :: "'e \<Rightarrow> ('k, string) mapping \<Rightarrow> ('k, string) mapping"
    and leave :: "'e \<Rightarrow> ('k, string) mapping \<Rightarrow> ('k, string) mapping"
  assumes lookup_enter:
      "Mapping.lookup (enter e m) k = (if k = key e then Some (ident e) else Mapping.lookup m k)"
    and lookup_leave: "Mapping.lookup (leave e m) k =
      (if k = key e \<and> Mapping.lookup m k = Some (ident e) then None else Mapping.lookup m k)"
begin

lemma keyed_insert:
  assumes k: "keyed key m E" and fresh: "Mapping.lookup E (ident e) = None" "Mapping.lookup m (key e) = None"
  shows "keyed key (enter e m) (Mapping.update (ident e) e E)"
proof (rule keyedI)
  fix k' i
  assume "Mapping.lookup (enter e m) k' = Some i"
  then show "\<exists>f. Mapping.lookup (Mapping.update (ident e) e E) i = Some f \<and> key f = k'"
    using keyedD [OF k, of k' i] fresh(1) by (auto simp: lookup_enter lookup_simps split: if_splits)
next
  fix i f
  assume "Mapping.lookup (Mapping.update (ident e) e E) i = Some f"
  then show "Mapping.lookup (enter e m) (key f) = Some i"
    using keyed_lookup [OF k, of i f] fresh(2) by (auto simp: lookup_enter lookup_simps split: if_splits)
qed

lemma keyed_erase:
  assumes k: "keyed key m E" and ids: "ids_match ident E" and e: "Mapping.lookup E (ident e) = Some e"
  shows "keyed key (leave e m) (Mapping.delete (ident e) E)"
proof (rule keyedI)
  fix k' i
  assume i: "Mapping.lookup (leave e m) k' = Some i"
  then have "Mapping.lookup m k' = Some i" by (auto simp: lookup_leave split: if_splits)
  from keyedD [OF k this] obtain f where f: "Mapping.lookup E i = Some f" "key f = k'" by blast
  with i e have "i \<noteq> ident e" by (auto simp: lookup_leave split: if_splits)
  with f show "\<exists>f. Mapping.lookup (Mapping.delete (ident e) E) i = Some f \<and> key f = k'"
    by (simp add: lookup_simps)
next
  fix i f
  assume "Mapping.lookup (Mapping.delete (ident e) E) i = Some f"
  then have f: "i \<noteq> ident e" "Mapping.lookup E i = Some f" by (auto simp: lookup_simps split: if_splits)
  with keyed_lookup [OF k, of i f] show "Mapping.lookup (leave e m) (key f) = Some i"
    by (simp add: lookup_leave)
qed

end

lemma keyed_index_single: "keyed_index ident key (\<lambda>e. put_key (key e) (ident e)) (\<lambda>e. drop_key (key e) (ident e))"
  by unfold_locales (auto simp: lookup_simps)

end
