(* ===== verification/Graph_State.thy ===== *)
theory Graph_State
  imports Index
begin

text \<open>
  The authoritative graph and its derived indexes (\<open>src/graph_state.hpp\<close>,
  \<open>src/graph_state.cpp\<close>, \<open>node.hpp\<close>, \<open>edge.hpp\<close>, \<open>provenance.hpp\<close>, the domain records of
  \<open>authority.hpp\<close>). Every \<open>std::unordered_map\<close> is a finite map and every
  \<open>std::unordered_set\<close> a set, so nothing here depends on an iteration order; the one loop
  that visits them in hash order, \<open>rebuild_indexes\<close>, takes the visiting order as arguments and
  is proved independent of it.
\<close>

subsection \<open>Nodes, edges and domains\<close>

record provenance =
  pv_publisher :: string
  pv_worker_boot :: string
  pv_coordinator_epoch :: u64
  pv_source :: discovery_source
  pv_evidence_type :: publication_type
  pv_evidence_generation :: u64
  pv_source_relationship_id :: string
  pv_publication :: string
  pv_created_generation :: u64
  pv_last_validated_generation :: u64

record node =
  nd_id :: string
  nd_entity_id :: string
  nd_entity_class :: entity_class
  nd_entity_generation :: u64
  nd_class :: node_class
  nd_tier :: topology_tier
  nd_domain :: string
  nd_generation :: u64
  nd_created_generation :: u64
  nd_last_validated_generation :: u64
  nd_lifecycle :: lifecycle_state
  nd_provenance :: provenance
  nd_metadata :: metadata

record edge =
  ed_id :: string
  ed_relationship_id :: string
  ed_relation :: relation_class
  ed_from :: string
  ed_to :: string
  ed_layer :: topology_layer
  ed_domain :: string
  ed_cross_domain :: bool
  ed_secondary_domain :: string
  ed_generation :: u64
  ed_created_generation :: u64
  ed_last_validated_generation :: u64
  ed_evidence_generation :: u64
  ed_from_entity_generation :: u64
  ed_to_entity_generation :: u64
  ed_lifecycle :: lifecycle_state
  ed_supported_by :: "string option"
  ed_superseded_by :: "string option"
  ed_attachment :: "string option"
  ed_provenance :: provenance
  ed_metadata :: metadata

record edge_key =
  ek_relation :: relation_class
  ek_first :: string
  ek_second :: string
  ek_domain :: string

record domain_definition =
  dd_id :: string
  dd_kind :: scope_kind
  dd_anchor_entity_id :: string
  dd_anchor_entity_class :: entity_class
  dd_parent :: string

record cross_domain_rule =
  cr_from_domain :: string
  cr_to_domain :: string
  cr_relation :: relation_class
  cr_symmetric :: bool

definition make_edge_key :: "relation_class \<Rightarrow> string \<Rightarrow> string \<Rightarrow> string \<Rightarrow> edge_key" where
  "make_edge_key relation from_id to_id domain_id =
     (if rule_direction (relation_rules relation) = Undirected \<and> to_id < from_id
      then \<lparr>ek_relation = relation, ek_first = to_id, ek_second = from_id, ek_domain = domain_id\<rparr>
      else \<lparr>ek_relation = relation, ek_first = from_id, ek_second = to_id, ek_domain = domain_id\<rparr>)"

definition edge_key_of :: "edge \<Rightarrow> edge_key" where
  "edge_key_of e = make_edge_key (ed_relation e) (ed_from e) (ed_to e) (ed_domain e)"

text \<open>\<open>normalize_undirected_endpoints\<close>: the stored orientation of a relationship.\<close>

definition normalize_endpoints :: "relation_class \<Rightarrow> string \<Rightarrow> string \<Rightarrow> string \<times> string" where
  "normalize_endpoints relation from_id to_id =
     (if rule_direction (relation_rules relation) = Undirected \<and> to_id < from_id
      then (to_id, from_id) else (from_id, to_id))"

definition resolve_layer :: "relation_class \<Rightarrow> topology_layer option \<Rightarrow> topology_layer option" where
  "resolve_layer relation requested =
     (case rule_layer_policy (relation_rules relation) of
        LP_PhysicalOnly \<Rightarrow>
          (if requested \<noteq> None \<and> requested \<noteq> Some Physical then None else Some Physical)
      | LP_LogicalOnly \<Rightarrow>
          (if requested \<noteq> None \<and> requested \<noteq> Some Logical then None else Some Logical)
      | LP_Either \<Rightarrow> requested)"

subsection \<open>The graph\<close>

record domain_index =
  di_nodes :: "string set"
  di_edges :: "string set"

definition empty_domain_index :: domain_index where
  "empty_domain_index = \<lparr>di_nodes = {}, di_edges = {}\<rparr>"

type_synonym domain_map = "(string, domain_index) mapping"
type_synonym definition_map = "(string, domain_definition) mapping"

record graph =
  g_limits :: limits
  g_generation :: u64
  g_snapshot_counter :: u64
  g_nodes :: "(string, node) mapping"
  g_edges :: "(string, edge) mapping"
  g_node_by_entity :: "(string, string) mapping"
  g_edge_by_key :: "(edge_key, string) mapping"
  g_edge_by_relationship :: "(string, string) mapping"
  g_incident :: "string buckets"
  g_outgoing :: "string buckets"
  g_incoming :: "string buckets"
  g_domains :: domain_map
  g_domain_definitions :: definition_map
  g_cross_domain_rules :: "cross_domain_rule list"
  g_edge_by_relation :: "u8 buckets"
  g_edge_by_layer :: "u8 buckets"
  g_edge_by_lifecycle :: "u8 buckets"
  g_edge_by_publisher :: "string buckets"
  g_edge_by_attachment :: "string buckets"

definition new_graph :: "limits \<Rightarrow> graph" where
  "new_graph lim = \<lparr>g_limits = lim, g_generation = 0, g_snapshot_counter = 0,
     g_nodes = Mapping.empty, g_edges = Mapping.empty, g_node_by_entity = Mapping.empty,
     g_edge_by_key = Mapping.empty, g_edge_by_relationship = Mapping.empty,
     g_incident = Mapping.empty, g_outgoing = Mapping.empty, g_incoming = Mapping.empty,
     g_domains = Mapping.empty, g_domain_definitions = Mapping.empty, g_cross_domain_rules = [],
     g_edge_by_relation = Mapping.empty, g_edge_by_layer = Mapping.empty,
     g_edge_by_lifecycle = Mapping.empty, g_edge_by_publisher = Mapping.empty,
     g_edge_by_attachment = Mapping.empty\<rparr>"

definition find_node :: "graph \<Rightarrow> string \<Rightarrow> node option" where
  "find_node g i = Mapping.lookup (g_nodes g) i"

definition find_edge :: "graph \<Rightarrow> string \<Rightarrow> edge option" where
  "find_edge g i = Mapping.lookup (g_edges g) i"

definition find_node_by_entity :: "graph \<Rightarrow> string \<Rightarrow> string option" where
  "find_node_by_entity g entity = Mapping.lookup (g_node_by_entity g) entity"

definition find_edge_by_key :: "graph \<Rightarrow> edge_key \<Rightarrow> string option" where
  "find_edge_by_key g key = Mapping.lookup (g_edge_by_key g) key"

definition find_edge_by_relationship :: "graph \<Rightarrow> string \<Rightarrow> string option" where
  "find_edge_by_relationship g rel = Mapping.lookup (g_edge_by_relationship g) rel"

lemmas find_defs = find_node_def find_edge_def find_node_by_entity_def find_edge_by_key_def
  find_edge_by_relationship_def

subsubsection \<open>Maintaining one index\<close>

definition index_incident :: "edge \<Rightarrow> string buckets \<Rightarrow> string buckets" where
  "index_incident e m = index_into (ed_to e) (ed_id e) (index_into (ed_from e) (ed_id e) m)"

definition unindex_incident :: "edge \<Rightarrow> string buckets \<Rightarrow> string buckets" where
  "unindex_incident e m =
     (let m' = unindex_from (ed_from e) (ed_id e) m in
      if ed_to e \<noteq> ed_from e then unindex_from (ed_to e) (ed_id e) m' else m')"

definition index_publisher :: "edge \<Rightarrow> string buckets \<Rightarrow> string buckets" where
  "index_publisher e m =
     (if pv_publisher (ed_provenance e) \<noteq> [] then index_into (pv_publisher (ed_provenance e)) (ed_id e) m else m)"

definition unindex_publisher :: "edge \<Rightarrow> string buckets \<Rightarrow> string buckets" where
  "unindex_publisher e m =
     (if pv_publisher (ed_provenance e) \<noteq> [] then unindex_from (pv_publisher (ed_provenance e)) (ed_id e) m else m)"

definition index_attachment :: "edge \<Rightarrow> string buckets \<Rightarrow> string buckets" where
  "index_attachment e m =
     (case ed_attachment e of Some a \<Rightarrow> index_into a (ed_id e) m | None \<Rightarrow> m)"

definition unindex_attachment :: "edge \<Rightarrow> string buckets \<Rightarrow> string buckets" where
  "unindex_attachment e m =
     (case ed_attachment e of Some a \<Rightarrow> unindex_from a (ed_id e) m | None \<Rightarrow> m)"

definition domain_at :: "domain_map \<Rightarrow> string \<Rightarrow> domain_index" where
  "domain_at doms d = (case Mapping.lookup doms d of None \<Rightarrow> empty_domain_index | Some x \<Rightarrow> x)"

definition domain_add_node :: "string \<Rightarrow> string \<Rightarrow> domain_map \<Rightarrow> domain_map" where
  "domain_add_node d i doms =
     (let x = domain_at doms d in Mapping.update d (x\<lparr>di_nodes := insert i (di_nodes x)\<rparr>) doms)"

definition domain_add_edge :: "string \<Rightarrow> string \<Rightarrow> domain_map \<Rightarrow> domain_map" where
  "domain_add_edge d i doms =
     (let x = domain_at doms d in Mapping.update d (x\<lparr>di_edges := insert i (di_edges x)\<rparr>) doms)"

text \<open>An entry that holds nothing goes away unless its domain is declared.\<close>

definition domain_store :: "definition_map \<Rightarrow> string \<Rightarrow> domain_index \<Rightarrow> domain_map \<Rightarrow> domain_map" where
  "domain_store defs d x doms =
     (if di_nodes x = {} \<and> di_edges x = {} \<and> \<not> has_key defs d
      then Mapping.delete d doms else Mapping.update d x doms)"

definition domain_drop_node :: "definition_map \<Rightarrow> string \<Rightarrow> string \<Rightarrow> domain_map \<Rightarrow> domain_map" where
  "domain_drop_node defs d i doms =
     (case Mapping.lookup doms d of
        None \<Rightarrow> doms
      | Some x \<Rightarrow> domain_store defs d (x\<lparr>di_nodes := di_nodes x - {i}\<rparr>) doms)"

definition domain_drop_edge :: "definition_map \<Rightarrow> string \<Rightarrow> string \<Rightarrow> domain_map \<Rightarrow> domain_map" where
  "domain_drop_edge defs d i doms =
     (case Mapping.lookup doms d of
        None \<Rightarrow> doms
      | Some x \<Rightarrow> domain_store defs d (x\<lparr>di_edges := di_edges x - {i}\<rparr>) doms)"

text \<open>The secondary scope of a cross-domain edge: its entry is never removed.\<close>

definition domain_drop_secondary :: "string \<Rightarrow> string \<Rightarrow> domain_map \<Rightarrow> domain_map" where
  "domain_drop_secondary d i doms =
     (case Mapping.lookup doms d of
        None \<Rightarrow> doms
      | Some x \<Rightarrow> Mapping.update d (x\<lparr>di_edges := di_edges x - {i}\<rparr>) doms)"

definition has_secondary :: "edge \<Rightarrow> bool" where
  "has_secondary e = (ed_cross_domain e \<and> ed_secondary_domain e \<noteq> [])"

definition domains_index_edge :: "edge \<Rightarrow> domain_map \<Rightarrow> domain_map" where
  "domains_index_edge e doms =
     (let doms' = domain_add_edge (ed_domain e) (ed_id e) doms in
      if has_secondary e then domain_add_edge (ed_secondary_domain e) (ed_id e) doms' else doms')"

definition domains_unindex_edge :: "definition_map \<Rightarrow> edge \<Rightarrow> domain_map \<Rightarrow> domain_map" where
  "domains_unindex_edge defs e doms =
     (let doms' = domain_drop_edge defs (ed_domain e) (ed_id e) doms in
      if has_secondary e then domain_drop_secondary (ed_secondary_domain e) (ed_id e) doms' else doms')"

subsubsection \<open>Indexing a node or an edge\<close>

definition index_node :: "node \<Rightarrow> graph \<Rightarrow> graph" where
  "index_node n g = g\<lparr>
     g_node_by_entity := put_key (nd_entity_id n) (nd_id n) (g_node_by_entity g),
     g_domains := domain_add_node (nd_domain n) (nd_id n) (g_domains g)\<rparr>"

definition unindex_node :: "node \<Rightarrow> graph \<Rightarrow> graph" where
  "unindex_node n g = g\<lparr>
     g_node_by_entity := drop_key (nd_entity_id n) (nd_id n) (g_node_by_entity g),
     g_domains := domain_drop_node (g_domain_definitions g) (nd_domain n) (nd_id n) (g_domains g)\<rparr>"

definition index_edge :: "edge \<Rightarrow> graph \<Rightarrow> graph" where
  "index_edge e g = g\<lparr>
     g_edge_by_key := put_key (edge_key_of e) (ed_id e) (g_edge_by_key g),
     g_edge_by_relationship := put_key (ed_relationship_id e) (ed_id e) (g_edge_by_relationship g),
     g_incident := index_incident e (g_incident g),
     g_outgoing := index_into (ed_from e) (ed_id e) (g_outgoing g),
     g_incoming := index_into (ed_to e) (ed_id e) (g_incoming g),
     g_domains := domains_index_edge e (g_domains g),
     g_edge_by_relation := index_into (relation_code (ed_relation e)) (ed_id e) (g_edge_by_relation g),
     g_edge_by_layer := index_into (layer_code (ed_layer e)) (ed_id e) (g_edge_by_layer g),
     g_edge_by_lifecycle := index_into (lifecycle_code (ed_lifecycle e)) (ed_id e) (g_edge_by_lifecycle g),
     g_edge_by_publisher := index_publisher e (g_edge_by_publisher g),
     g_edge_by_attachment := index_attachment e (g_edge_by_attachment g)\<rparr>"

definition unindex_edge :: "edge \<Rightarrow> graph \<Rightarrow> graph" where
  "unindex_edge e g = g\<lparr>
     g_edge_by_key := drop_key (edge_key_of e) (ed_id e) (g_edge_by_key g),
     g_edge_by_relationship := drop_key (ed_relationship_id e) (ed_id e) (g_edge_by_relationship g),
     g_incident := unindex_incident e (g_incident g),
     g_outgoing := unindex_from (ed_from e) (ed_id e) (g_outgoing g),
     g_incoming := unindex_from (ed_to e) (ed_id e) (g_incoming g),
     g_domains := domains_unindex_edge (g_domain_definitions g) e (g_domains g),
     g_edge_by_relation := unindex_from (relation_code (ed_relation e)) (ed_id e) (g_edge_by_relation g),
     g_edge_by_layer := unindex_from (layer_code (ed_layer e)) (ed_id e) (g_edge_by_layer g),
     g_edge_by_lifecycle := unindex_from (lifecycle_code (ed_lifecycle e)) (ed_id e) (g_edge_by_lifecycle g),
     g_edge_by_publisher := unindex_publisher e (g_edge_by_publisher g),
     g_edge_by_attachment := unindex_attachment e (g_edge_by_attachment g)\<rparr>"

subsubsection \<open>Graph operations\<close>

definition insert_node :: "node \<Rightarrow> graph \<Rightarrow> bool \<times> graph" where
  "insert_node n g =
     (if has_key (g_nodes g) (nd_id n) then (False, g)
      else (True, (index_node n g)\<lparr>g_nodes := Mapping.update (nd_id n) n (g_nodes g)\<rparr>))"

definition erase_node :: "string \<Rightarrow> graph \<Rightarrow> bool \<times> graph" where
  "erase_node i g =
     (case find_node g i of
        None \<Rightarrow> (False, g)
      | Some n \<Rightarrow> (True, unindex_node n (g\<lparr>g_nodes := Mapping.delete i (g_nodes g)\<rparr>)))"

definition update_node :: "node \<Rightarrow> graph \<Rightarrow> bool \<times> graph" where
  "update_node n g =
     (case find_node g (nd_id n) of
        None \<Rightarrow> (False, g)
      | Some old \<Rightarrow>
          (True, index_node n ((unindex_node old g)\<lparr>g_nodes := Mapping.update (nd_id n) n (g_nodes g)\<rparr>)))"

definition mutate_node :: "string \<Rightarrow> (node \<Rightarrow> node) \<Rightarrow> graph \<Rightarrow> bool \<times> graph" where
  "mutate_node i edit g =
     (case find_node g i of
        None \<Rightarrow> (False, g)
      | Some old \<Rightarrow> let updated = edit old in
          (True, index_node updated ((unindex_node old g)\<lparr>g_nodes := Mapping.update i updated (g_nodes g)\<rparr>)))"

definition insert_edge :: "edge \<Rightarrow> graph \<Rightarrow> bool \<times> graph" where
  "insert_edge e g =
     (if has_key (g_edges g) (ed_id e) then (False, g)
      else (True, (index_edge e g)\<lparr>g_edges := Mapping.update (ed_id e) e (g_edges g)\<rparr>))"

definition erase_edge :: "string \<Rightarrow> graph \<Rightarrow> bool \<times> graph" where
  "erase_edge i g =
     (case find_edge g i of
        None \<Rightarrow> (False, g)
      | Some e \<Rightarrow> (True, unindex_edge e (g\<lparr>g_edges := Mapping.delete i (g_edges g)\<rparr>)))"

definition update_edge :: "edge \<Rightarrow> graph \<Rightarrow> bool \<times> graph" where
  "update_edge e g =
     (case find_edge g (ed_id e) of
        None \<Rightarrow> (False, g)
      | Some old \<Rightarrow>
          (True, index_edge e ((unindex_edge old g)\<lparr>g_edges := Mapping.update (ed_id e) e (g_edges g)\<rparr>)))"

definition mutate_edge :: "string \<Rightarrow> (edge \<Rightarrow> edge) \<Rightarrow> graph \<Rightarrow> bool \<times> graph" where
  "mutate_edge i edit g =
     (case find_edge g i of
        None \<Rightarrow> (False, g)
      | Some old \<Rightarrow> let updated = edit old in
          (True, index_edge updated ((unindex_edge old g)\<lparr>g_edges := Mapping.update i updated (g_edges g)\<rparr>)))"

subsection \<open>The indexes agree with the records\<close>

text \<open>Every index of the code is one of the two kinds of \<open>Index\<close>.\<close>

definition edge_ends :: "edge \<Rightarrow> string set" where
  "edge_ends e = {ed_from e, ed_to e}"

definition publisher_keys :: "edge \<Rightarrow> string set" where
  "publisher_keys e = {pv_publisher (ed_provenance e)} - {[]}"

definition attachment_keys :: "edge \<Rightarrow> string set" where
  "attachment_keys e = set_option (ed_attachment e)"

interpretation incident: bucket_index ed_id edge_ends index_incident unindex_incident
  by unfold_locales (auto simp: edge_ends_def index_incident_def unindex_incident_def Let_def lookup_simps)

interpretation outgoing: bucket_index ed_id "\<lambda>e. {ed_from e}"
  "\<lambda>e. index_into (ed_from e) (ed_id e)" "\<lambda>e. unindex_from (ed_from e) (ed_id e)"
  by (rule bucket_index_single)

interpretation incoming: bucket_index ed_id "\<lambda>e. {ed_to e}"
  "\<lambda>e. index_into (ed_to e) (ed_id e)" "\<lambda>e. unindex_from (ed_to e) (ed_id e)"
  by (rule bucket_index_single)

interpretation by_relation: bucket_index ed_id "\<lambda>e. {relation_code (ed_relation e)}"
  "\<lambda>e. index_into (relation_code (ed_relation e)) (ed_id e)"
  "\<lambda>e. unindex_from (relation_code (ed_relation e)) (ed_id e)"
  by (rule bucket_index_single)

interpretation by_layer: bucket_index ed_id "\<lambda>e. {layer_code (ed_layer e)}"
  "\<lambda>e. index_into (layer_code (ed_layer e)) (ed_id e)"
  "\<lambda>e. unindex_from (layer_code (ed_layer e)) (ed_id e)"
  by (rule bucket_index_single)

interpretation by_lifecycle: bucket_index ed_id "\<lambda>e. {lifecycle_code (ed_lifecycle e)}"
  "\<lambda>e. index_into (lifecycle_code (ed_lifecycle e)) (ed_id e)"
  "\<lambda>e. unindex_from (lifecycle_code (ed_lifecycle e)) (ed_id e)"
  by (rule bucket_index_single)

interpretation by_publisher: bucket_index ed_id publisher_keys index_publisher unindex_publisher
  by unfold_locales (auto simp: publisher_keys_def index_publisher_def unindex_publisher_def lookup_simps)

interpretation by_attachment: bucket_index ed_id attachment_keys index_attachment unindex_attachment
  by unfold_locales
    (auto simp: attachment_keys_def index_attachment_def unindex_attachment_def lookup_simps split: option.splits)

interpretation by_entity: keyed_index nd_id nd_entity_id
  "\<lambda>n. put_key (nd_entity_id n) (nd_id n)" "\<lambda>n. drop_key (nd_entity_id n) (nd_id n)"
  by (rule keyed_index_single)

interpretation by_key: keyed_index ed_id edge_key_of
  "\<lambda>e. put_key (edge_key_of e) (ed_id e)" "\<lambda>e. drop_key (edge_key_of e) (ed_id e)"
  by (rule keyed_index_single)

interpretation by_relationship: keyed_index ed_id ed_relationship_id
  "\<lambda>e. put_key (ed_relationship_id e) (ed_id e)" "\<lambda>e. drop_key (ed_relationship_id e) (ed_id e)"
  by (rule keyed_index_single)

subsubsection \<open>Domain membership\<close>

definition edge_domains :: "edge \<Rightarrow> string set" where
  "edge_domains e = insert (ed_domain e) (if has_secondary e then {ed_secondary_domain e} else {})"

definition present :: "definition_map \<Rightarrow> domain_map \<Rightarrow> bool" where
  "present defs doms = (\<forall>d. has_key doms d \<longleftrightarrow> has_key defs d \<or> domain_at doms d \<noteq> empty_domain_index)"

definition secondary_declared :: "definition_map \<Rightarrow> edge \<Rightarrow> bool" where
  "secondary_declared defs e = (has_secondary e \<longrightarrow> has_key defs (ed_secondary_domain e))"

definition domains_ok :: "definition_map \<Rightarrow> domain_map \<Rightarrow> (string, node) mapping \<Rightarrow> (string, edge) mapping \<Rightarrow> bool" where
  "domains_ok defs doms N E = ((\<forall>d. di_nodes (domain_at doms d) = filed (\<lambda>n. {nd_domain n}) N d) \<and>
     (\<forall>d. di_edges (domain_at doms d) = filed edge_domains E d) \<and> present defs doms)"

lemma domain_at_update [lookup_simps]:
  "domain_at (Mapping.update d x doms) d' = (if d = d' then x else domain_at doms d')"
  by (simp add: domain_at_def lookup_simps)

lemma domain_at_empty [simp]: "domain_at Mapping.empty d = empty_domain_index"
  by (simp add: domain_at_def lookup_simps)

lemma domain_index_cases: "x = empty_domain_index \<longleftrightarrow> di_nodes x = {} \<and> di_edges x = {}"
  by (cases x) (simp add: empty_domain_index_def)

lemma domain_at_store [lookup_simps]:
  "domain_at (domain_store defs d x doms) d' = (if d = d' then x else domain_at doms d')"
  by (auto simp: domain_at_def domain_store_def empty_domain_index_def lookup_simps)

lemma has_key_domain_store [lookup_simps]:
  "has_key (domain_store defs d x doms) d' =
   (if d = d' then x \<noteq> empty_domain_index \<or> has_key defs d else has_key doms d')"
  by (auto simp: has_key_def domain_store_def domain_index_cases lookup_simps)

lemma domain_at_None: "Mapping.lookup doms d = None \<Longrightarrow> domain_at doms d = empty_domain_index"
  by (simp add: domain_at_def)

lemma domain_at_Some: "Mapping.lookup doms d = Some x \<Longrightarrow> domain_at doms d = x"
  by (simp add: domain_at_def)

lemmas domain_op_defs = domain_add_node_def domain_add_edge_def domain_drop_node_def domain_drop_edge_def
  domain_drop_secondary_def

lemma domain_nodes_ops [lookup_simps]:
  "di_nodes (domain_at (domain_add_node d i doms) d') = di_nodes (domain_at doms d') \<union> (if d = d' then {i} else {})"
  "di_nodes (domain_at (domain_add_edge d i doms) d') = di_nodes (domain_at doms d')"
  "di_nodes (domain_at (domain_drop_node defs d i doms) d') = di_nodes (domain_at doms d') - (if d = d' then {i} else {})"
  "di_nodes (domain_at (domain_drop_edge defs d i doms) d') = di_nodes (domain_at doms d')"
  "di_nodes (domain_at (domain_drop_secondary d i doms) d') = di_nodes (domain_at doms d')"
  by (auto simp: domain_op_defs Let_def lookup_simps empty_domain_index_def domain_at_None domain_at_Some
      split: option.splits)

lemma domain_edges_ops [lookup_simps]:
  "di_edges (domain_at (domain_add_node d i doms) d') = di_edges (domain_at doms d')"
  "di_edges (domain_at (domain_add_edge d i doms) d') = di_edges (domain_at doms d') \<union> (if d = d' then {i} else {})"
  "di_edges (domain_at (domain_drop_node defs d i doms) d') = di_edges (domain_at doms d')"
  "di_edges (domain_at (domain_drop_edge defs d i doms) d') = di_edges (domain_at doms d') - (if d = d' then {i} else {})"
  "di_edges (domain_at (domain_drop_secondary d i doms) d') = di_edges (domain_at doms d') - (if d = d' then {i} else {})"
  by (auto simp: domain_op_defs Let_def lookup_simps empty_domain_index_def domain_at_None domain_at_Some
      split: option.splits)

lemma present_add_node: "present defs doms \<Longrightarrow> present defs (domain_add_node d i doms)"
  by (simp add: present_def domain_add_node_def Let_def lookup_simps domain_index_cases)

lemma present_add_edge: "present defs doms \<Longrightarrow> present defs (domain_add_edge d i doms)"
  by (simp add: present_def domain_add_edge_def Let_def lookup_simps domain_index_cases)

lemma present_drop_node: "present defs doms \<Longrightarrow> present defs (domain_drop_node defs d i doms)"
  by (auto simp: present_def domain_drop_node_def lookup_simps split: option.splits)

lemma present_drop_edge: "present defs doms \<Longrightarrow> present defs (domain_drop_edge defs d i doms)"
  by (auto simp: present_def domain_drop_edge_def lookup_simps split: option.splits)

lemma present_drop_secondary:
  "present defs doms \<Longrightarrow> has_key defs d \<Longrightarrow> present defs (domain_drop_secondary d i doms)"
  by (auto simp: present_def domain_drop_secondary_def lookup_simps split: option.splits)

lemma domains_ok_insert_node:
  "domains_ok defs doms N E \<Longrightarrow> Mapping.lookup N (nd_id n) = None \<Longrightarrow>
   domains_ok defs (domain_add_node (nd_domain n) (nd_id n) doms) (Mapping.update (nd_id n) n N) E"
  by (auto simp: domains_ok_def lookup_simps present_add_node filed_def)

lemma domains_ok_erase_node:
  "domains_ok defs doms N E \<Longrightarrow> Mapping.lookup N (nd_id n) = Some n \<Longrightarrow>
   domains_ok defs (domain_drop_node defs (nd_domain n) (nd_id n) doms) (Mapping.delete (nd_id n) N) E"
  by (auto simp: domains_ok_def lookup_simps present_drop_node filed_def)

lemma domains_ok_insert_edge:
  "domains_ok defs doms N E \<Longrightarrow> Mapping.lookup E (ed_id e) = None \<Longrightarrow>
   domains_ok defs (domains_index_edge e doms) N (Mapping.update (ed_id e) e E)"
  by (auto simp: domains_ok_def domains_index_edge_def Let_def edge_domains_def lookup_simps present_add_edge
      filed_def split: if_splits)

lemma domains_ok_erase_edge:
  "domains_ok defs doms N E \<Longrightarrow> Mapping.lookup E (ed_id e) = Some e \<Longrightarrow> secondary_declared defs e \<Longrightarrow>
   domains_ok defs (domains_unindex_edge defs e doms) N (Mapping.delete (ed_id e) E)"
  by (auto simp: domains_ok_def domains_unindex_edge_def Let_def edge_domains_def lookup_simps present_drop_edge
      present_drop_secondary secondary_declared_def filed_def split: if_splits)

lemma domains_ok_unique:
  assumes "domains_ok defs doms N E" "domains_ok defs doms' N E"
  shows "doms = doms'"
proof (rule mapping_eqI)
  fix d
  have eq: "domain_at doms d = domain_at doms' d"
    using assms by (intro domain_index.equality) (simp_all add: domains_ok_def)
  have "present defs doms" "present defs doms'" using assms by (simp_all add: domains_ok_def)
  then have "has_key doms d \<longleftrightarrow> has_key doms' d" unfolding present_def eq [symmetric] using eq by metis
  with eq show "Mapping.lookup doms d = Mapping.lookup doms' d"
    by (auto simp: domain_at_def has_key_def split: option.splits)
qed

subsubsection \<open>The graph invariant\<close>

definition indexes_ok :: "graph \<Rightarrow> bool" where
  "indexes_ok g = (keyed nd_entity_id (g_node_by_entity g) (g_nodes g) \<and>
     keyed edge_key_of (g_edge_by_key g) (g_edges g) \<and>
     keyed ed_relationship_id (g_edge_by_relationship g) (g_edges g) \<and>
     files edge_ends (g_incident g) (g_edges g) \<and>
     files (\<lambda>e. {ed_from e}) (g_outgoing g) (g_edges g) \<and>
     files (\<lambda>e. {ed_to e}) (g_incoming g) (g_edges g) \<and>
     files (\<lambda>e. {relation_code (ed_relation e)}) (g_edge_by_relation g) (g_edges g) \<and>
     files (\<lambda>e. {layer_code (ed_layer e)}) (g_edge_by_layer g) (g_edges g) \<and>
     files (\<lambda>e. {lifecycle_code (ed_lifecycle e)}) (g_edge_by_lifecycle g) (g_edges g) \<and>
     files publisher_keys (g_edge_by_publisher g) (g_edges g) \<and>
     files attachment_keys (g_edge_by_attachment g) (g_edges g) \<and>
     domains_ok (g_domain_definitions g) (g_domains g) (g_nodes g) (g_edges g))"

definition graph_inv :: "graph \<Rightarrow> bool" where
  "graph_inv g = (finite (Mapping.keys (g_nodes g)) \<and> finite (Mapping.keys (g_edges g)) \<and>
     finite (Mapping.keys (g_domain_definitions g)) \<and>
     ids_match nd_id (g_nodes g) \<and> ids_match ed_id (g_edges g) \<and> indexes_ok g \<and>
     (\<forall>i e. Mapping.lookup (g_edges g) i = Some e \<longrightarrow> secondary_declared (g_domain_definitions g) e))"

lemma graph_inv_new [simp]: "graph_inv (new_graph lim)"
  by (simp add: graph_inv_def indexes_ok_def new_graph_def domains_ok_def present_def filed_def
      empty_domain_index_def lookup_simps has_key_def)

lemma keys_update_finite [simp]: "finite (Mapping.keys m) \<Longrightarrow> finite (Mapping.keys (Mapping.update k v m))"
  by simp

lemma keys_delete_finite [simp]: "finite (Mapping.keys m) \<Longrightarrow> finite (Mapping.keys (Mapping.delete k m))"
  by (simp add: keys_delete)

text \<open>Two consistent graphs with the same records are the same graph.\<close>

lemma graph_inv_determines_indexes:
  assumes "indexes_ok g" "indexes_ok h" "g_limits g = g_limits h" "g_generation g = g_generation h"
    "g_snapshot_counter g = g_snapshot_counter h" "g_nodes g = g_nodes h" "g_edges g = g_edges h"
    "g_domain_definitions g = g_domain_definitions h" "g_cross_domain_rules g = g_cross_domain_rules h"
  shows "g = h"
  using assms unfolding indexes_ok_def
  by (intro graph.equality) (auto intro: keyed_unique files_unique domains_ok_unique)

lemma insert_node_inv:
  assumes inv: "graph_inv g" and fresh: "find_node g (nd_id n) = None" "find_node_by_entity g (nd_entity_id n) = None"
  shows "graph_inv (snd (insert_node n g))"
  using assms
  by (simp add: graph_inv_def indexes_ok_def insert_node_def index_node_def has_key_def find_defs
      by_entity.keyed_insert domains_ok_insert_node)

lemma erase_node_inv:
  assumes inv: "graph_inv g"
  shows "graph_inv (snd (erase_node i g))"
proof (cases "find_node g i")
  case None
  then show ?thesis using inv by (simp add: erase_node_def)
next
  case (Some n)
  with inv have i: "i = nd_id n" by (auto simp: graph_inv_def find_defs dest: ids_matchD)
  show ?thesis using inv Some unfolding i
    by (simp add: graph_inv_def indexes_ok_def erase_node_def unindex_node_def find_defs
        by_entity.keyed_erase domains_ok_erase_node)
qed

text \<open>An update is an erase followed by an insert.\<close>

lemma unindex_edge_frame [frame_simps]:
  "g_edges (unindex_edge e g) = g_edges g" "g_nodes (unindex_edge e g) = g_nodes g"
  "g_domain_definitions (unindex_edge e g) = g_domain_definitions g"
  by (simp_all add: unindex_edge_def)

lemma unindex_node_frame [frame_simps]:
  "g_edges (unindex_node n g) = g_edges g" "g_nodes (unindex_node n g) = g_nodes g"
  "g_domain_definitions (unindex_node n g) = g_domain_definitions g"
  by (simp_all add: unindex_node_def)

lemma mapping_update_delete [simp]: "Mapping.update k v (Mapping.delete k m) = Mapping.update k v m"
  by (rule mapping_eqI) (simp add: lookup_simps)

lemma update_edge_as_erase_insert:
  "find_edge g (ed_id e) \<noteq> None \<Longrightarrow> update_edge e g = insert_edge e (snd (erase_edge (ed_id e) g))"
  by (auto simp: update_edge_def erase_edge_def insert_edge_def has_key_def lookup_simps frame_simps
      unindex_edge_def index_edge_def split: option.splits)

lemma update_node_as_erase_insert:
  "find_node g (nd_id n) \<noteq> None \<Longrightarrow> update_node n g = insert_node n (snd (erase_node (nd_id n) g))"
  by (auto simp: update_node_def erase_node_def insert_node_def has_key_def lookup_simps frame_simps
      unindex_node_def index_node_def split: option.splits)

text \<open>\<open>mutate_edge\<close> and \<open>mutate_node\<close> with an edit that keeps the identifier are updates.\<close>

lemma mutate_edge_as_update:
  "find_edge g i = Some e \<Longrightarrow> ed_id (edit e) = i \<Longrightarrow> mutate_edge i edit g = update_edge (edit e) g"
  by (auto simp: mutate_edge_def update_edge_def Let_def)

lemma mutate_node_as_update:
  "find_node g i = Some n \<Longrightarrow> nd_id (edit n) = i \<Longrightarrow> mutate_node i edit g = update_node (edit n) g"
  by (auto simp: mutate_node_def update_node_def Let_def)

lemma insert_edge_inv:
  assumes inv: "graph_inv g" and fresh: "find_edge g (ed_id e) = None"
    "find_edge_by_key g (edge_key_of e) = None" "find_edge_by_relationship g (ed_relationship_id e) = None"
    and sec: "secondary_declared (g_domain_definitions g) e"
  shows "graph_inv (snd (insert_edge e g))"
  using assms
  by (auto simp: graph_inv_def indexes_ok_def insert_edge_def index_edge_def has_key_def find_defs lookup_simps
      by_key.keyed_insert by_relationship.keyed_insert incident.files_insert outgoing.files_insert
      incoming.files_insert by_relation.files_insert by_layer.files_insert by_lifecycle.files_insert
      by_publisher.files_insert by_attachment.files_insert domains_ok_insert_edge)

lemma erase_edge_inv:
  assumes inv: "graph_inv g"
  shows "graph_inv (snd (erase_edge i g))"
proof (cases "find_edge g i")
  case None
  then show ?thesis using inv by (simp add: erase_edge_def)
next
  case (Some e)
  with inv have i: "i = ed_id e" by (auto simp: graph_inv_def find_defs dest: ids_matchD)
  show ?thesis using inv Some unfolding i
    by (auto simp: graph_inv_def indexes_ok_def erase_edge_def unindex_edge_def find_defs lookup_simps
        by_key.keyed_erase by_relationship.keyed_erase incident.files_erase outgoing.files_erase
        incoming.files_erase by_relation.files_erase by_layer.files_erase by_lifecycle.files_erase
        by_publisher.files_erase by_attachment.files_erase domains_ok_erase_edge)
qed

lemma graph_inv_ids: "graph_inv g \<Longrightarrow> find_edge g i = Some e \<Longrightarrow> ed_id e = i"
  by (auto simp: graph_inv_def find_defs dest: ids_matchD)

lemma graph_inv_node_ids: "graph_inv g \<Longrightarrow> find_node g i = Some n \<Longrightarrow> nd_id n = i"
  by (auto simp: graph_inv_def find_defs dest: ids_matchD)

lemma edge_by_key_stored:
  "graph_inv g \<Longrightarrow> find_edge_by_key g k = Some i \<Longrightarrow> \<exists>e. find_edge g i = Some e \<and> edge_key_of e = k"
  by (auto simp: graph_inv_def indexes_ok_def find_defs dest: keyedD)

lemma edge_by_relationship_stored:
  "graph_inv g \<Longrightarrow> find_edge_by_relationship g r = Some i \<Longrightarrow> \<exists>e. find_edge g i = Some e \<and> ed_relationship_id e = r"
  by (auto simp: graph_inv_def indexes_ok_def find_defs dest: keyedD)

lemma node_by_entity_stored:
  "graph_inv g \<Longrightarrow> find_node_by_entity g r = Some i \<Longrightarrow> \<exists>n. find_node g i = Some n \<and> nd_entity_id n = r"
  by (auto simp: graph_inv_def indexes_ok_def find_defs dest: keyedD)

lemma edge_key_indexed: "graph_inv g \<Longrightarrow> find_edge g i = Some e \<Longrightarrow> find_edge_by_key g (edge_key_of e) = Some i"
  by (auto simp: graph_inv_def indexes_ok_def find_defs dest: keyed_lookup)

lemma edge_relationship_indexed:
  "graph_inv g \<Longrightarrow> find_edge g i = Some e \<Longrightarrow> find_edge_by_relationship g (ed_relationship_id e) = Some i"
  by (auto simp: graph_inv_def indexes_ok_def find_defs dest: keyed_lookup)

lemma node_entity_indexed:
  "graph_inv g \<Longrightarrow> find_node g i = Some n \<Longrightarrow> find_node_by_entity g (nd_entity_id n) = Some i"
  by (auto simp: graph_inv_def indexes_ok_def find_defs dest: keyed_lookup)

lemma find_after_erase_edge:
  assumes "find_edge g i = Some e" "ed_id e = i"
  shows "find_edge (snd (erase_edge i g)) j = (if i = j then None else find_edge g j)"
    and "find_edge_by_key (snd (erase_edge i g)) k =
      (if k = edge_key_of e \<and> find_edge_by_key g k = Some i then None else find_edge_by_key g k)"
    and "find_edge_by_relationship (snd (erase_edge i g)) r =
      (if r = ed_relationship_id e \<and> find_edge_by_relationship g r = Some i then None
       else find_edge_by_relationship g r)"
    and "g_domain_definitions (snd (erase_edge i g)) = g_domain_definitions g"
  using assms by (auto simp: erase_edge_def unindex_edge_def find_defs lookup_simps)

lemma find_after_erase_node:
  assumes "find_node g i = Some n" "nd_id n = i"
  shows "find_node (snd (erase_node i g)) j = (if i = j then None else find_node g j)"
    and "find_node_by_entity (snd (erase_node i g)) k =
      (if k = nd_entity_id n \<and> find_node_by_entity g k = Some i then None else find_node_by_entity g k)"
  using assms by (auto simp: erase_node_def unindex_node_def find_defs lookup_simps)

lemma update_edge_inv:
  assumes inv: "graph_inv g" and old: "find_edge g (ed_id e) = Some e0"
    and key: "find_edge_by_key g (edge_key_of e) \<in> {None, Some (ed_id e)}"
    and rel: "find_edge_by_relationship g (ed_relationship_id e) \<in> {None, Some (ed_id e)}"
    and sec: "secondary_declared (g_domain_definitions g) e"
  shows "graph_inv (snd (update_edge e g))"
proof -
  note fe = find_after_erase_edge [OF old graph_inv_ids [OF inv old]]
  have "find_edge_by_key g (edge_key_of e) = Some (ed_id e) \<Longrightarrow> edge_key_of e0 = edge_key_of e"
    using edge_by_key_stored [OF inv] old by fastforce
  moreover have "find_edge_by_relationship g (ed_relationship_id e) = Some (ed_id e) \<Longrightarrow>
      ed_relationship_id e0 = ed_relationship_id e"
    using edge_by_relationship_stored [OF inv] old by fastforce
  ultimately have "graph_inv (snd (insert_edge e (snd (erase_edge (ed_id e) g))))"
    using key rel sec by (intro insert_edge_inv erase_edge_inv inv) (auto simp: fe)
  then show ?thesis using old by (simp add: update_edge_as_erase_insert)
qed

lemma update_node_inv:
  assumes inv: "graph_inv g" and old: "find_node g (nd_id n) = Some n0"
    and key: "find_node_by_entity g (nd_entity_id n) \<in> {None, Some (nd_id n)}"
  shows "graph_inv (snd (update_node n g))"
proof -
  note fe = find_after_erase_node [OF old graph_inv_node_ids [OF inv old]]
  have "find_node_by_entity g (nd_entity_id n) = Some (nd_id n) \<Longrightarrow> nd_entity_id n0 = nd_entity_id n"
    using node_by_entity_stored [OF inv] old by fastforce
  then have "graph_inv (snd (insert_node n (snd (erase_node (nd_id n) g))))"
    using key by (intro insert_node_inv erase_node_inv inv) (auto simp: fe)
  then show ?thesis using old by (simp add: update_node_as_erase_insert)
qed

text \<open>An update that keeps what identifies the record needs no side condition.\<close>

definition same_edge_identity :: "edge \<Rightarrow> edge \<Rightarrow> bool" where
  "same_edge_identity e f = (ed_id f = ed_id e \<and> edge_key_of f = edge_key_of e \<and>
     ed_relationship_id f = ed_relationship_id e \<and> ed_cross_domain f = ed_cross_domain e \<and>
     ed_secondary_domain f = ed_secondary_domain e)"

lemma update_edge_same_identity_inv:
  assumes inv: "graph_inv g" and old: "find_edge g (ed_id e) = Some e0" and same: "same_edge_identity e0 e"
  shows "graph_inv (snd (update_edge e g))"
proof (rule update_edge_inv [OF inv old])
  show "find_edge_by_key g (edge_key_of e) \<in> {None, Some (ed_id e)}"
    using edge_key_indexed [OF inv old] same by (simp add: same_edge_identity_def)
  show "find_edge_by_relationship g (ed_relationship_id e) \<in> {None, Some (ed_id e)}"
    using edge_relationship_indexed [OF inv old] same by (simp add: same_edge_identity_def)
  show "secondary_declared (g_domain_definitions g) e"
    using inv old same
    by (auto simp: graph_inv_def find_defs same_edge_identity_def secondary_declared_def has_secondary_def)
qed

text \<open>Lookups after an operation.\<close>

lemma find_after_insert_edge:
  "fst (insert_edge e g) \<Longrightarrow> find_edge (snd (insert_edge e g)) j = (if j = ed_id e then Some e else find_edge g j)"
  by (auto simp: insert_edge_def find_defs lookup_simps split: if_splits)

lemma find_after_update_edge:
  "find_edge (snd (update_edge e g)) j =
   (if j = ed_id e \<and> find_edge g j \<noteq> None then Some e else find_edge g j)"
  by (auto simp: update_edge_def find_defs lookup_simps unindex_edge_def index_edge_def split: option.splits)

lemma find_after_update_node:
  "find_node (snd (update_node n g)) j =
   (if j = nd_id n \<and> find_node g j \<noteq> None then Some n else find_node g j)"
  by (auto simp: update_node_def find_defs lookup_simps unindex_node_def index_node_def split: option.splits)

definition base_frame :: "graph \<Rightarrow> limits \<times> u64 \<times> u64 \<times> definition_map \<times> cross_domain_rule list" where
  "base_frame g = (g_limits g, g_generation g, g_snapshot_counter g, g_domain_definitions g, g_cross_domain_rules g)"

lemma edge_ops_frame [frame_simps]:
  "g_nodes (snd (insert_edge e g)) = g_nodes g" "base_frame (snd (insert_edge e g)) = base_frame g"
  "g_nodes (snd (erase_edge i g)) = g_nodes g" "base_frame (snd (erase_edge i g)) = base_frame g"
  "g_nodes (snd (update_edge e g)) = g_nodes g" "base_frame (snd (update_edge e g)) = base_frame g"
  by (auto simp: insert_edge_def erase_edge_def update_edge_def index_edge_def unindex_edge_def base_frame_def
      split: option.splits)

lemma node_ops_frame [frame_simps]:
  "g_edges (snd (insert_node n g)) = g_edges g" "base_frame (snd (insert_node n g)) = base_frame g"
  "g_edges (snd (erase_node i g)) = g_edges g" "base_frame (snd (erase_node i g)) = base_frame g"
  "g_edges (snd (update_node n g)) = g_edges g" "base_frame (snd (update_node n g)) = base_frame g"
  by (auto simp: insert_node_def erase_node_def update_node_def index_node_def unindex_node_def base_frame_def
      split: option.splits)

lemma edge_ops_edges [lookup_simps]:
  "g_edges (snd (insert_edge e g)) = (if has_key (g_edges g) (ed_id e) then g_edges g else Mapping.update (ed_id e) e (g_edges g))"
  "g_edges (snd (update_edge e g)) = (if has_key (g_edges g) (ed_id e) then Mapping.update (ed_id e) e (g_edges g) else g_edges g)"
  "g_edges (snd (erase_edge i g)) = Mapping.delete i (g_edges g)"
  by (auto simp: insert_edge_def update_edge_def erase_edge_def index_edge_def unindex_edge_def has_key_def
      find_defs lookup_simps intro: mapping_eqI split: option.splits)

lemma node_ops_nodes [lookup_simps]:
  "g_nodes (snd (insert_node n g)) = (if has_key (g_nodes g) (nd_id n) then g_nodes g else Mapping.update (nd_id n) n (g_nodes g))"
  "g_nodes (snd (update_node n g)) = (if has_key (g_nodes g) (nd_id n) then Mapping.update (nd_id n) n (g_nodes g) else g_nodes g)"
  "g_nodes (snd (erase_node i g)) = Mapping.delete i (g_nodes g)"
  by (auto simp: insert_node_def update_node_def erase_node_def index_node_def unindex_node_def has_key_def
      find_defs lookup_simps intro: mapping_eqI split: option.splits)

lemma base_frame_iff: "base_frame g = base_frame h \<longleftrightarrow> g_limits g = g_limits h \<and> g_generation g = g_generation h \<and>
  g_snapshot_counter g = g_snapshot_counter h \<and> g_domain_definitions g = g_domain_definitions h \<and>
  g_cross_domain_rules g = g_cross_domain_rules h"
  by (simp add: base_frame_def)

lemma graph_inv_ext:
  "graph_inv g \<Longrightarrow> graph_inv h \<Longrightarrow> base_frame g = base_frame h \<Longrightarrow> g_nodes g = g_nodes h \<Longrightarrow>
   g_edges g = g_edges h \<Longrightarrow> g = h"
  by (rule graph_inv_determines_indexes) (auto simp: graph_inv_def base_frame_iff)

subsection \<open>A small consistent graph\<close>

text \<open>Concrete records, for instances of the properties.\<close>

definition sample_provenance :: provenance where
  "sample_provenance = \<lparr>pv_publisher = ''p'', pv_worker_boot = ''b'', pv_coordinator_epoch = 1,
     pv_source = DS_Unknown, pv_evidence_type = PT_Real, pv_evidence_generation = 1,
     pv_source_relationship_id = [], pv_publication = ''x'', pv_created_generation = 1,
     pv_last_validated_generation = 1\<rparr>"

definition sample_node :: "string \<Rightarrow> string \<Rightarrow> node" where
  "sample_node i entity = \<lparr>nd_id = i, nd_entity_id = entity, nd_entity_class = EC_Unknown,
     nd_entity_generation = 1, nd_class = NC_Unknown, nd_tier = TT_Leaf, nd_domain = ''d'',
     nd_generation = 1, nd_created_generation = 1, nd_last_validated_generation = 1,
     nd_lifecycle = LS_Current, nd_provenance = sample_provenance, nd_metadata = []\<rparr>"

definition sample_edge :: "string \<Rightarrow> string \<Rightarrow> string \<Rightarrow> edge" where
  "sample_edge i a b = \<lparr>ed_id = i, ed_relationship_id = ''r'' @ i, ed_relation = RC_Contains, ed_from = a, ed_to = b,
     ed_layer = Physical, ed_domain = ''d'', ed_cross_domain = False, ed_secondary_domain = [], ed_generation = 1,
     ed_created_generation = 1, ed_last_validated_generation = 1, ed_evidence_generation = 1,
     ed_from_entity_generation = 1, ed_to_entity_generation = 1, ed_lifecycle = LS_Current,
     ed_supported_by = None, ed_superseded_by = None, ed_attachment = None,
     ed_provenance = sample_provenance, ed_metadata = []\<rparr>"

definition sample_graph :: graph where
  "sample_graph = snd (insert_edge (sample_edge ''e'' ''m'' ''n'')
     (snd (insert_node (sample_node ''n'' ''y'')
       (snd (insert_node (sample_node ''m'' ''x'') (new_graph default_limits))))))"

lemma sample_node_fields [simp]:
  "nd_id (sample_node i e) = i" "nd_entity_id (sample_node i e) = e" "nd_domain (sample_node i e) = ''d''"
  by (simp_all add: sample_node_def)

lemma sample_edge_fields [simp]: "ed_id (sample_edge i a b) = i" "\<not> has_secondary (sample_edge i a b)"
  by (simp_all add: sample_edge_def has_secondary_def)

lemma sample_graph_records:
  "g_nodes sample_graph = Mapping.update ''n'' (sample_node ''n'' ''y'') (Mapping.update ''m'' (sample_node ''m'' ''x'') Mapping.empty)"
  "g_edges sample_graph = Mapping.update ''e'' (sample_edge ''e'' ''m'' ''n'') Mapping.empty"
  "g_domain_definitions sample_graph = Mapping.empty"
  by (simp_all add: sample_graph_def insert_node_def insert_edge_def index_node_def index_edge_def new_graph_def
      has_key_def lookup_simps)

lemma sample_graph_inv: "graph_inv sample_graph"
  unfolding sample_graph_def
  by (intro insert_edge_inv insert_node_inv graph_inv_new)
    (simp_all add: find_defs lookup_simps frame_simps new_graph_def secondary_declared_def
      insert_node_def index_node_def has_key_def)

end
