(* ===== verification/Txn.thy ===== *)
theory Txn
  imports Graph_State
begin

text \<open>
  The undo log of a mutation (\<open>StateTxn\<close> in \<open>src/graph_state.cpp\<close>). The relation \<open>logged\<close> says
  how the engine uses it: note the record, then change it. Rolling back such a log restores
  the exact graph, derived indexes included.
\<close>

datatype txn_entry =
    NodeInserted string
  | NodeErased node
  | NodeUpdated node
  | EdgeInserted string
  | EdgeErased edge
  | EdgeUpdated edge
  | GenerationChanged u64
  | DomainCreated string

record txn =
  tx_entries :: "txn_entry list"
  tx_active :: bool

definition begin_txn :: txn where
  "begin_txn = \<lparr>tx_entries = [], tx_active = True\<rparr>"

definition push_entry :: "txn_entry \<Rightarrow> txn \<Rightarrow> txn" where
  "push_entry x t = t\<lparr>tx_entries := tx_entries t @ [x]\<rparr>"

definition note_node_inserted :: "string \<Rightarrow> txn \<Rightarrow> txn" where "note_node_inserted i = push_entry (NodeInserted i)"
definition note_node_erased :: "node \<Rightarrow> txn \<Rightarrow> txn" where "note_node_erased n = push_entry (NodeErased n)"
definition note_node_updated :: "node \<Rightarrow> txn \<Rightarrow> txn" where "note_node_updated n = push_entry (NodeUpdated n)"
definition note_edge_inserted :: "string \<Rightarrow> txn \<Rightarrow> txn" where "note_edge_inserted i = push_entry (EdgeInserted i)"
definition note_edge_erased :: "edge \<Rightarrow> txn \<Rightarrow> txn" where "note_edge_erased e = push_entry (EdgeErased e)"
definition note_edge_updated :: "edge \<Rightarrow> txn \<Rightarrow> txn" where "note_edge_updated e = push_entry (EdgeUpdated e)"
definition note_generation :: "u64 \<Rightarrow> txn \<Rightarrow> txn" where "note_generation v = push_entry (GenerationChanged v)"
definition note_domain :: "string \<Rightarrow> bool \<Rightarrow> txn \<Rightarrow> txn" where
  "note_domain d existed t = (if existed then t else push_entry (DomainCreated d) t)"

lemmas note_defs = note_node_inserted_def note_node_erased_def note_node_updated_def note_edge_inserted_def
  note_edge_erased_def note_edge_updated_def note_generation_def push_entry_def

fun undo :: "txn_entry \<Rightarrow> graph \<Rightarrow> graph" where
  "undo (NodeInserted i) g = snd (erase_node i g)"
| "undo (NodeErased n) g = snd (insert_node n g)"
| "undo (NodeUpdated n) g = snd (update_node n g)"
| "undo (EdgeInserted i) g = snd (erase_edge i g)"
| "undo (EdgeErased e) g = snd (insert_edge e g)"
| "undo (EdgeUpdated e) g = snd (update_edge e g)"
| "undo (GenerationChanged v) g = g\<lparr>g_generation := v\<rparr>"
| "undo (DomainCreated d) g = g\<lparr>g_domains := Mapping.delete d (g_domains g)\<rparr>"

definition rollback :: "txn \<Rightarrow> graph \<Rightarrow> txn \<times> graph" where
  "rollback t g =
     (if \<not> tx_active t then (t, g)
      else (\<lparr>tx_entries = [], tx_active = False\<rparr>, fold undo (rev (tx_entries t)) g))"

definition commit :: "txn \<Rightarrow> txn" where "commit t = t\<lparr>tx_active := False\<rparr>"

subsection \<open>Logged changes\<close>

definition edge_identity_free :: "graph \<Rightarrow> edge \<Rightarrow> bool" where
  "edge_identity_free g e = (find_edge_by_key g (edge_key_of e) \<in> {None, Some (ed_id e)} \<and>
     find_edge_by_relationship g (ed_relationship_id e) \<in> {None, Some (ed_id e)} \<and>
     secondary_declared (g_domain_definitions g) e)"

inductive logged :: "graph \<Rightarrow> txn_entry list \<Rightarrow> graph \<Rightarrow> bool" for g0 where
  nothing: "logged g0 [] g0"
| node_inserted: "logged g0 es g \<Longrightarrow> find_node g (nd_id n) = None \<Longrightarrow> find_node_by_entity g (nd_entity_id n) = None \<Longrightarrow>
    logged g0 (es @ [NodeInserted (nd_id n)]) (snd (insert_node n g))"
| node_erased: "logged g0 es g \<Longrightarrow> find_node g i = Some n \<Longrightarrow>
    logged g0 (es @ [NodeErased n]) (snd (erase_node i g))"
| node_updated: "logged g0 es g \<Longrightarrow> find_node g (nd_id n) = Some old \<Longrightarrow>
    find_node_by_entity g (nd_entity_id n) \<in> {None, Some (nd_id n)} \<Longrightarrow>
    logged g0 (es @ [NodeUpdated old]) (snd (update_node n g))"
| edge_inserted: "logged g0 es g \<Longrightarrow> find_edge g (ed_id e) = None \<Longrightarrow> find_edge_by_key g (edge_key_of e) = None \<Longrightarrow>
    find_edge_by_relationship g (ed_relationship_id e) = None \<Longrightarrow> secondary_declared (g_domain_definitions g) e \<Longrightarrow>
    logged g0 (es @ [EdgeInserted (ed_id e)]) (snd (insert_edge e g))"
| edge_erased: "logged g0 es g \<Longrightarrow> find_edge g i = Some e \<Longrightarrow>
    logged g0 (es @ [EdgeErased e]) (snd (erase_edge i g))"
| edge_updated: "logged g0 es g \<Longrightarrow> find_edge g (ed_id e) = Some old \<Longrightarrow> edge_identity_free g e \<Longrightarrow>
    logged g0 (es @ [EdgeUpdated old]) (snd (update_edge e g))"
| generation_changed: "logged g0 es g \<Longrightarrow>
    logged g0 (es @ [GenerationChanged (g_generation g)]) (g\<lparr>g_generation := v\<rparr>)"

subsubsection \<open>Undoing one change\<close>

lemma mapping_delete_update: "Mapping.lookup m k = None \<Longrightarrow> Mapping.delete k (Mapping.update k v m) = m"
  by (rule mapping_eqI) (auto simp: lookup_simps)

lemma mapping_update_same: "Mapping.lookup m k = Some v \<Longrightarrow> Mapping.update k v m = m"
  by (rule mapping_eqI) (auto simp: lookup_simps)

lemma mapping_update_back: "Mapping.lookup m k = Some v \<Longrightarrow> Mapping.update k v (Mapping.update k w m) = m"
  by (rule mapping_eqI) (auto simp: lookup_simps)

lemma graph_inv_generation [simp]: "graph_inv (g\<lparr>g_generation := v\<rparr>) = graph_inv g"
  by (simp add: graph_inv_def indexes_ok_def)

lemma undo_node_inserted:
  assumes "graph_inv g" "find_node g (nd_id n) = None" "find_node_by_entity g (nd_entity_id n) = None"
  shows "snd (erase_node (nd_id n) (snd (insert_node n g))) = g"
  using assms
  by (intro graph_inv_ext erase_node_inv insert_node_inv)
    (simp_all add: frame_simps lookup_simps has_key_def find_defs mapping_delete_update)

lemma undo_node_erased:
  assumes inv: "graph_inv g" and n: "find_node g i = Some n"
  shows "snd (insert_node n (snd (erase_node i g))) = g"
proof -
  have id: "nd_id n = i" by (rule graph_inv_node_ids [OF inv n])
  have "find_node_by_entity (snd (erase_node i g)) (nd_entity_id n) = None"
    using node_entity_indexed [OF inv n] by (simp add: find_after_erase_node [OF n id])
  with n id inv show ?thesis
    by (intro graph_inv_ext insert_node_inv erase_node_inv)
      (simp_all add: frame_simps lookup_simps has_key_def find_defs mapping_update_same)
qed

lemma undo_node_updated:
  assumes inv: "graph_inv g" and old: "find_node g (nd_id n) = Some old"
    and free: "find_node_by_entity g (nd_entity_id n) \<in> {None, Some (nd_id n)}"
  shows "snd (update_node old (snd (update_node n g))) = g"
proof -
  let ?h = "snd (update_node n g)"
  have id: "nd_id old = nd_id n" by (rule graph_inv_node_ids [OF inv old])
  have h: "graph_inv ?h" by (rule update_node_inv [OF inv old free])
  have find: "find_node ?h j = (if j = nd_id n then Some n else find_node g j)" for j
    using old by (auto simp: find_after_update_node)
  have "find_node_by_entity ?h (nd_entity_id old) \<in> {None, Some (nd_id old)}"
  proof (cases "find_node_by_entity ?h (nd_entity_id old)")
    case (Some j)
    from node_by_entity_stored [OF h this] obtain m where m: "find_node ?h j = Some m" "nd_entity_id m = nd_entity_id old"
      by blast
    then have "j = nd_id n"
      using node_entity_indexed [OF inv old] node_entity_indexed [OF inv, of j m] by (auto simp: find split: if_splits)
    with Some id show ?thesis by simp
  qed simp
  then have "graph_inv (snd (update_node old ?h))"
    by (rule update_node_inv [OF h, rotated]) (simp add: find id)
  then show ?thesis
    using inv old
    by (rule_tac graph_inv_ext)
      (simp_all add: frame_simps lookup_simps has_key_def find_defs id mapping_update_back)
qed

lemma undo_edge_inserted:
  assumes "graph_inv g" "find_edge g (ed_id e) = None" "find_edge_by_key g (edge_key_of e) = None"
    "find_edge_by_relationship g (ed_relationship_id e) = None" "secondary_declared (g_domain_definitions g) e"
  shows "snd (erase_edge (ed_id e) (snd (insert_edge e g))) = g"
  using assms
  by (intro graph_inv_ext erase_edge_inv insert_edge_inv)
    (simp_all add: frame_simps lookup_simps has_key_def find_defs mapping_delete_update)

lemma stored_secondary_declared:
  "graph_inv g \<Longrightarrow> find_edge g i = Some e \<Longrightarrow> secondary_declared (g_domain_definitions g) e"
  by (auto simp: graph_inv_def find_defs)

lemma undo_edge_erased:
  assumes inv: "graph_inv g" and e: "find_edge g i = Some e"
  shows "snd (insert_edge e (snd (erase_edge i g))) = g"
proof -
  have id: "ed_id e = i" by (rule graph_inv_ids [OF inv e])
  note after = find_after_erase_edge [OF e id]
  have "find_edge_by_key (snd (erase_edge i g)) (edge_key_of e) = None"
    "find_edge_by_relationship (snd (erase_edge i g)) (ed_relationship_id e) = None"
    using edge_key_indexed [OF inv e] edge_relationship_indexed [OF inv e] by (simp_all add: after)
  with e id inv stored_secondary_declared [OF inv e] show ?thesis
    by (intro graph_inv_ext insert_edge_inv erase_edge_inv)
      (simp_all add: after(4) frame_simps lookup_simps has_key_def find_defs mapping_update_same)
qed

lemma update_edge_free_inv:
  "graph_inv g \<Longrightarrow> find_edge g (ed_id e) = Some old \<Longrightarrow> edge_identity_free g e \<Longrightarrow> graph_inv (snd (update_edge e g))"
  by (rule update_edge_inv) (auto simp: edge_identity_free_def)

lemma undo_edge_updated:
  assumes inv: "graph_inv g" and old: "find_edge g (ed_id e) = Some old" and free: "edge_identity_free g e"
  shows "snd (update_edge old (snd (update_edge e g))) = g"
proof -
  let ?h = "snd (update_edge e g)"
  have id: "ed_id old = ed_id e" by (rule graph_inv_ids [OF inv old])
  have h: "graph_inv ?h" by (rule update_edge_free_inv [OF inv old free])
  have find: "find_edge ?h j = (if j = ed_id e then Some e else find_edge g j)" for j
    using old by (auto simp: find_after_update_edge)
  have "find_edge_by_key ?h (edge_key_of old) \<noteq> Some j" if "j \<noteq> ed_id e" for j
    using edge_by_key_stored [OF h, of _ j] edge_key_indexed [OF inv old] edge_key_indexed [OF inv, of j] that
    by (fastforce simp: find)
  moreover have "find_edge_by_relationship ?h (ed_relationship_id old) \<noteq> Some j" if "j \<noteq> ed_id e" for j
    using edge_by_relationship_stored [OF h, of _ j] edge_relationship_indexed [OF inv old]
      edge_relationship_indexed [OF inv, of j] that by (fastforce simp: find)
  moreover have "secondary_declared (g_domain_definitions ?h) old"
    using stored_secondary_declared [OF inv old] edge_ops_frame(6) [of e g] by (simp add: base_frame_iff)
  ultimately have "edge_identity_free ?h old"
    unfolding edge_identity_free_def id by (metis insertCI option.exhaust)
  then have "graph_inv (snd (update_edge old ?h))"
    by (rule update_edge_free_inv [OF h, rotated]) (simp add: find id)
  then show ?thesis
    using inv old
    by (rule_tac graph_inv_ext)
      (simp_all add: frame_simps lookup_simps has_key_def find_defs id mapping_update_back)
qed

subsection \<open>Rollback\<close>

lemma logged_undone: "logged g0 es g \<Longrightarrow> graph_inv g0 \<Longrightarrow> graph_inv g \<and> fold undo (rev es) g = g0"
proof (induction rule: logged.induct)
  case (edge_updated es g e old)
  then show ?case by (simp add: undo_edge_updated update_edge_free_inv)
next
  case (node_updated es g n old)
  then show ?case by (simp add: undo_node_updated update_node_inv)
qed (simp_all add: undo_node_inserted insert_node_inv undo_node_erased erase_node_inv
    undo_edge_inserted insert_edge_inv undo_edge_erased erase_edge_inv)

lemma logged_inv: "logged g0 es g \<Longrightarrow> graph_inv g0 \<Longrightarrow> graph_inv g"
  by (simp add: logged_undone)

lemma rollback_logged:
  "graph_inv g0 \<Longrightarrow> logged g0 (tx_entries t) g \<Longrightarrow> tx_active t \<Longrightarrow> snd (rollback t g) = g0"
  by (simp add: rollback_def logged_undone)

text \<open>C31: rolling back a transaction that noted every change it made, and inserted only records whose
  identities were free, restores exactly the graph it started from: nodes, edges, generation and
  all twelve derived indexes.\<close>

theorem rollback_restores_graph:
  assumes "graph_inv g0" and "logged g0 (tx_entries t) g" and "tx_active t"
  shows "rollback t g = (\<lparr>tx_entries = [], tx_active = False\<rparr>, g0)"
  using assms by (simp add: rollback_def logged_undone)

theorem rollback_restores_graph_witness:
  "rollback \<lparr>tx_entries = [EdgeErased (sample_edge ''e'' ''m'' ''n''), GenerationChanged 0], tx_active = True\<rparr>
     ((snd (erase_edge ''e'' sample_graph))\<lparr>g_generation := 1\<rparr>) =
   (\<lparr>tx_entries = [], tx_active = False\<rparr>, sample_graph)"
proof (rule rollback_restores_graph [OF sample_graph_inv])
  have gen: "g_generation (snd (erase_edge ''e'' sample_graph)) = 0"
    using edge_ops_frame(4) [of "''e''" sample_graph]
    by (simp add: base_frame_iff)
      (simp add: sample_graph_def insert_edge_def insert_node_def index_edge_def index_node_def new_graph_def)
  have "logged sample_graph [EdgeErased (sample_edge ''e'' ''m'' ''n'')] (snd (erase_edge ''e'' sample_graph))"
    using logged.edge_erased [OF logged.nothing, of sample_graph "''e''" "sample_edge ''e'' ''m'' ''n''"]
    by (simp add: find_defs sample_graph_records lookup_simps)
  from logged.generation_changed [OF this, of 1] gen
  show "logged sample_graph (tx_entries \<lparr>tx_entries = [EdgeErased (sample_edge ''e'' ''m'' ''n''), GenerationChanged 0], tx_active = True\<rparr>)
     ((snd (erase_edge ''e'' sample_graph))\<lparr>g_generation := 1\<rparr>)" by simp
qed simp

end
