(* ===== verification/Cycle.thy ===== *)
theory Cycle
  imports Graph_State
begin

text \<open>
  Acyclic relations (\<open>GraphState::would_create_cycle\<close> in \<open>src/graph_state.cpp\<close>). The search is
  the source's explicit-stack traversal; it is a partial function, and the first lemmas show
  that it returns on every consistent graph, with the answer of the reachability relation.
\<close>

definition cycle_edge_active :: "relation_class \<Rightarrow> edge \<Rightarrow> bool" where
  "cycle_edge_active relation e =
     (ed_relation e = relation \<and> ed_lifecycle e \<noteq> LS_Retired \<and> ed_lifecycle e \<noteq> LS_Superseded)"

text \<open>The nodes the inner loop pushes, in the order it visits the bucket (here by identifier).\<close>

definition cycle_successors :: "graph \<Rightarrow> relation_class \<Rightarrow> string \<Rightarrow> string list" where
  "cycle_successors g relation current =
     (case Mapping.lookup (g_outgoing g) current of
        None \<Rightarrow> []
      | Some ids \<Rightarrow> List.map_filter (\<lambda>i. case find_edge g i of
            None \<Rightarrow> None
          | Some e \<Rightarrow> if cycle_edge_active relation e then Some (ed_to e) else None) (sorted_list_of_set ids))"

partial_function (option) cycle_search ::
  "graph \<Rightarrow> relation_class \<Rightarrow> string \<Rightarrow> string list \<Rightarrow> string set \<Rightarrow> bool option" where
  "cycle_search g relation from_id stack visited =
     (case stack of
        [] \<Rightarrow> Some False
      | current # rest \<Rightarrow>
          if current = from_id then Some True
          else if current \<in> visited then cycle_search g relation from_id rest visited
          else cycle_search g relation from_id (rev (cycle_successors g relation current) @ rest)
                 (insert current visited))"

definition would_create_cycle :: "graph \<Rightarrow> relation_class \<Rightarrow> string \<Rightarrow> string \<Rightarrow> bool option" where
  "would_create_cycle g relation from_id to_id =
     (if rule_cycle_rule (relation_rules relation) \<noteq> CR_Acyclic then Some False
      else if from_id = to_id then Some True
      else cycle_search g relation from_id [to_id] {})"

subsection \<open>The relation the search explores\<close>

definition depends :: "graph \<Rightarrow> relation_class \<Rightarrow> (string \<times> string) set" where
  "depends g relation = {(a, b). \<exists>i e. find_edge g i = Some e \<and> cycle_edge_active relation e \<and> ed_from e = a \<and> ed_to e = b}"

lemma set_map_filter: "set (List.map_filter f xs) = {y. \<exists>x \<in> set xs. f x = Some y}"
  by (induction xs) (auto simp: List.map_filter_simps split: option.splits)

lemma set_cycle_successors:
  assumes "graph_inv g"
  shows "set (cycle_successors g relation a) = {b. (a, b) \<in> depends g relation}"
proof -
  have f: "files (\<lambda>e. {ed_from e}) (g_outgoing g) (g_edges g)" and fin: "finite (Mapping.keys (g_edges g))"
    using assms by (simp_all add: graph_inv_def indexes_ok_def)
  have b: "bucket (g_outgoing g) a = {i. \<exists>e. find_edge g i = Some e \<and> ed_from e = a}"
    using f by (auto simp: files_def filed_def find_defs)
  then have "finite (bucket (g_outgoing g) a)"
    by (auto intro: finite_subset [OF _ fin] mem_keys_Some simp: find_defs)
  moreover have "cycle_successors g relation a = List.map_filter (\<lambda>i. case find_edge g i of
      None \<Rightarrow> None | Some e \<Rightarrow> if cycle_edge_active relation e then Some (ed_to e) else None)
      (sorted_list_of_set (bucket (g_outgoing g) a))"
    by (simp add: cycle_successors_def bucket_def List.map_filter_simps split: option.splits)
  ultimately show ?thesis
    by (auto simp: set_map_filter b depends_def split: option.splits if_splits)
qed

lemma finite_depends: "graph_inv g \<Longrightarrow> finite (Range (depends g relation))"
proof -
  assume "graph_inv g"
  then have "finite (Mapping.keys (g_edges g))" by (simp add: graph_inv_def)
  moreover have "Range (depends g relation) \<subseteq> (\<lambda>i. ed_to (the (find_edge g i))) ` Mapping.keys (g_edges g)"
    by (force simp: depends_def find_defs image_iff intro: mem_keys_Some)
  ultimately show ?thesis by (meson finite_imageI finite_subset)
qed

text \<open>A path out of a set whose successors are all in the set or on the stack passes the stack.\<close>

lemma path_leaves:
  assumes "(v, a) \<in> R\<^sup>*" "v \<in> V" "a \<notin> V" and closed: "\<And>x y. x \<in> V \<Longrightarrow> (x, y) \<in> R \<Longrightarrow> y \<in> V \<union> S"
  shows "\<exists>s \<in> S. (s, a) \<in> R\<^sup>*"
  using assms(1-3)
proof (induction rule: converse_rtrancl_induct)
  case (step v w)
  then show ?case using closed [of v w] by blast
qed simp

lemma cycle_search_returns:
  assumes inv: "graph_inv g"
  shows "from_id \<notin> visited \<Longrightarrow> (\<And>x y. x \<in> visited \<Longrightarrow> (x, y) \<in> depends g relation \<Longrightarrow> y \<in> visited \<union> set stack) \<Longrightarrow>
    set stack \<subseteq> N \<Longrightarrow> finite N \<Longrightarrow> Range (depends g relation) \<subseteq> N \<Longrightarrow>
    cycle_search g relation from_id stack visited =
      Some (\<exists>s \<in> set stack. (s, from_id) \<in> (depends g relation)\<^sup>*)"
proof (induction "(card (N - visited), length stack)" arbitrary: stack visited
    rule: wf_induct_rule [OF wf_lex_prod [OF wf_less wf_less]])
  case (1 stack visited)
  note prems = 1(2-6)
  let ?R = "depends g relation"
  show ?case
  proof (cases stack)
    case Nil
    then show ?thesis by (simp add: cycle_search.simps)
  next
    case (Cons current rest)
    consider "current = from_id" | "current \<noteq> from_id" "current \<in> visited" | "current \<noteq> from_id" "current \<notin> visited"
      by blast
    then show ?thesis
    proof cases
      case 1
      then show ?thesis by (auto simp: Cons cycle_search.simps)
    next
      case 2
      have "cycle_search g relation from_id rest visited = Some (\<exists>s \<in> set rest. (s, from_id) \<in> ?R\<^sup>*)"
        using prems 2 by (intro 1(1)) (auto simp: Cons)
      moreover have "(current, from_id) \<in> ?R\<^sup>* \<Longrightarrow> \<exists>s \<in> set rest. (s, from_id) \<in> ?R\<^sup>*"
        using prems 2 by (elim path_leaves [where V = visited]) (auto simp: Cons)
      ultimately show ?thesis using 2 by (auto simp: Cons cycle_search.simps [of g relation from_id "current # rest"])
    next
      case 3
      let ?stack = "rev (cycle_successors g relation current) @ rest"
      have succ: "set ?stack = {b. (current, b) \<in> ?R} \<union> set rest" by (simp add: set_cycle_successors [OF inv])
      have "card (N - insert current visited) < card (N - visited)"
        using prems(3,4) 3 by (intro psubset_card_mono) (auto simp: Cons)
      then have "cycle_search g relation from_id ?stack (insert current visited) =
          Some (\<exists>s \<in> set ?stack. (s, from_id) \<in> ?R\<^sup>*)"
        using prems 3 by (intro 1(1)) (auto simp: Cons set_cycle_successors [OF inv])
      moreover have "(current, from_id) \<in> ?R\<^sup>* \<longleftrightarrow> (\<exists>b. (current, b) \<in> ?R \<and> (b, from_id) \<in> ?R\<^sup>*)"
        using 3(1) by (meson converse_rtranclE converse_rtrancl_into_rtrancl)
      ultimately show ?thesis
        using 3 by (auto simp: Cons set_cycle_successors [OF inv] cycle_search.simps [of g relation from_id "current # rest"])
    qed
  qed
qed

lemma would_create_cycle_iff:
  assumes inv: "graph_inv g"
  shows "would_create_cycle g relation a b =
    Some (rule_cycle_rule (relation_rules relation) = CR_Acyclic \<and> (b, a) \<in> (depends g relation)\<^sup>*)"
  using cycle_search_returns [OF inv, of a "{}" relation "[b]" "insert b (Range (depends g relation))"]
    finite_depends [OF inv] by (auto simp: would_create_cycle_def)

text \<open>C30: the cycle check always returns on a consistent graph, and it answers yes exactly when the
  relation is an acyclic one and the new edge would close a directed cycle through live edges of
  that relation (a self loop included).\<close>

theorem would_create_cycle_exact:
  assumes "graph_inv g"
  shows "would_create_cycle g relation a b =
    Some (rule_cycle_rule (relation_rules relation) = CR_Acyclic \<and>
      (a, a) \<in> (insert (a, b) (depends g relation))\<^sup>+ \<and> (b, a) \<in> (depends g relation)\<^sup>*)"
  using would_create_cycle_iff [OF assms, of relation a b]
  by (auto simp: trancl_insert)

theorem would_create_cycle_exact_witness:
  "would_create_cycle sample_graph RC_Contains ''n'' ''m'' = Some True"
proof -
  have "(''m'', ''n'') \<in> depends sample_graph RC_Contains"
    by (simp add: depends_def find_defs sample_graph_records lookup_simps)
      (auto simp: cycle_edge_active_def sample_edge_def)
  then show ?thesis
    using would_create_cycle_exact [OF sample_graph_inv, of RC_Contains "''n''" "''m''"]
    by (auto simp: rules_of_def trancl_insert)
qed

subsection \<open>Acyclicity is kept\<close>

definition acyclic_relations_hold :: "graph \<Rightarrow> bool" where
  "acyclic_relations_hold g =
     (\<forall>r. rule_cycle_rule (relation_rules r) = CR_Acyclic \<longrightarrow> acyclic (depends g r))"

lemma depends_insert_edge:
  "find_edge g (ed_id e) = None \<Longrightarrow> depends (snd (insert_edge e g)) r =
   (if cycle_edge_active r e then insert (ed_from e, ed_to e) (depends g r) else depends g r)"
proof -
  assume fresh: "find_edge g (ed_id e) = None"
  have "find_edge (snd (insert_edge e g)) i = Some f \<longleftrightarrow> i = ed_id e \<and> f = e \<or> find_edge g i = Some f" for i f
    using fresh by (auto simp: find_defs lookup_simps has_key_def)
  then show ?thesis by (simp add: depends_def) blast
qed

lemma acyclic_insert_edge:
  assumes inv: "graph_inv g" and acyc: "acyclic_relations_hold g" and fresh: "find_edge g (ed_id e) = None"
    and ok: "would_create_cycle g (ed_relation e) (ed_from e) (ed_to e) = Some False"
  shows "acyclic_relations_hold (snd (insert_edge e g))"
  using acyc ok unfolding acyclic_relations_hold_def depends_insert_edge [OF fresh] would_create_cycle_iff [OF inv]
  by (auto simp: acyclic_insert cycle_edge_active_def)

text \<open>An update that keeps relation and endpoints and does not revive an ended edge.\<close>

definition ended :: "edge \<Rightarrow> bool" where
  "ended e = (ed_lifecycle e = LS_Retired \<or> ed_lifecycle e = LS_Superseded)"

lemma acyclic_update_edge:
  assumes acyc: "acyclic_relations_hold g" and old: "find_edge g (ed_id e) = Some e0"
    and same: "ed_relation e = ed_relation e0" "ed_from e = ed_from e0" "ed_to e = ed_to e0"
    and live: "ended e0 \<longrightarrow> ended e"
  shows "acyclic_relations_hold (snd (update_edge e g))"
proof -
  have "\<exists>f0. find_edge g i = Some f0 \<and> cycle_edge_active r f0 \<and> ed_from f0 = ed_from f \<and> ed_to f0 = ed_to f"
    if "find_edge (snd (update_edge e g)) i = Some f" "cycle_edge_active r f" for i f r
    using that old same live by (auto simp: find_after_update_edge cycle_edge_active_def ended_def split: if_splits)
  then have "depends (snd (update_edge e g)) r \<subseteq> depends g r" for r
    unfolding depends_def by blast
  with acyc show ?thesis by (auto simp: acyclic_relations_hold_def intro: acyclic_subset)
qed

lemma depends_cong: "g_edges h = g_edges g \<Longrightarrow> depends h r = depends g r"
  by (simp add: depends_def find_defs)

lemma acyclic_cong: "g_edges h = g_edges g \<Longrightarrow> acyclic_relations_hold h = acyclic_relations_hold g"
  unfolding acyclic_relations_hold_def depends_def find_edge_def by (simp only:)

lemma acyclic_erase_edge: "acyclic_relations_hold g \<Longrightarrow> acyclic_relations_hold (snd (erase_edge i g))"
proof -
  have "find_edge (snd (erase_edge i g)) j = Some e \<Longrightarrow> find_edge g j = Some e" for j e
    by (simp add: find_defs lookup_simps split: if_splits)
  then have "depends (snd (erase_edge i g)) r \<subseteq> depends g r" for r
    unfolding depends_def by blast
  moreover assume "acyclic_relations_hold g"
  ultimately show ?thesis by (auto simp: acyclic_relations_hold_def intro: acyclic_subset)
qed

text \<open>admitting an edge only after the cycle check keeps every acyclic relation a directed
  acyclic graph.\<close>

theorem guarded_insert_keeps_acyclic:
  assumes "graph_inv g" and "acyclic_relations_hold g" and "find_edge g (ed_id e) = None"
    and "would_create_cycle g (ed_relation e) (ed_from e) (ed_to e) = Some False"
  shows "acyclic_relations_hold (snd (insert_edge e g))"
  using assms by (rule acyclic_insert_edge)

theorem guarded_insert_keeps_acyclic_witness:
  "acyclic_relations_hold (snd (insert_edge (sample_edge ''f'' ''n'' ''o'') sample_graph))"
proof (rule guarded_insert_keeps_acyclic [OF sample_graph_inv])
  have dep: "depends sample_graph r = (if r = RC_Contains then {(''m'', ''n'')} else {})" for r
    by (auto simp: depends_def find_defs sample_graph_records lookup_simps cycle_edge_active_def sample_edge_def
        split: if_splits)
  show "acyclic_relations_hold sample_graph"
    by (simp add: acyclic_relations_hold_def dep acyclic_insert) (simp add: acyclic_def)
  show "find_edge sample_graph (ed_id (sample_edge ''f'' ''n'' ''o'')) = None"
    by (simp add: find_defs sample_graph_records lookup_simps)
  have "(''o'', ''n'') \<notin> (depends sample_graph RC_Contains)\<^sup>*"
    by (auto simp: dep elim: converse_rtranclE)
  then show "would_create_cycle sample_graph (ed_relation (sample_edge ''f'' ''n'' ''o''))
      (ed_from (sample_edge ''f'' ''n'' ''o'')) (ed_to (sample_edge ''f'' ''n'' ''o'')) = Some False"
    by (simp add: would_create_cycle_iff [OF sample_graph_inv] sample_edge_def)
qed

end
