(* ===== verification/Canonical.thy ===== *)
theory Canonical
  imports Graph_State Codec Digest
begin

text \<open>
  Scopes, sorted listings, the canonical byte encoding, the topology digest, the derived
  identifiers and the renderings of \<open>src/graph_state.cpp\<close>, with \<open>SnapshotScope\<close> of
  \<open>snapshot.hpp\<close>. The lemmas show that a listing is the in-scope records in strict identifier
  order, that the digest preimage determines the semantic content and depends on nothing else,
  and that derived identifiers are valid identifiers.
\<close>

subsection \<open>Scopes and listings\<close>

record snapshot_scope =
  whole_topology :: bool
  sc_domain :: string
  filter_relation :: bool
  sc_relation :: relation_class
  filter_layer :: bool
  sc_layer :: topology_layer

definition scope_all :: snapshot_scope where
  "scope_all = \<lparr>whole_topology = True, sc_domain = [], filter_relation = False, sc_relation = RC_Unknown,
     filter_layer = False, sc_layer = Physical\<rparr>"

definition scope_of_domain :: "string \<Rightarrow> snapshot_scope" where
  "scope_of_domain d = scope_all\<lparr>whole_topology := False, sc_domain := d\<rparr>"

definition scope_of_relation :: "relation_class \<Rightarrow> snapshot_scope" where
  "scope_of_relation r = scope_all\<lparr>filter_relation := True, sc_relation := r\<rparr>"

definition scope_of_layer :: "topology_layer \<Rightarrow> snapshot_scope" where
  "scope_of_layer l = scope_all\<lparr>filter_layer := True, sc_layer := l\<rparr>"

definition node_in_scope :: "node \<Rightarrow> snapshot_scope \<Rightarrow> bool" where
  "node_in_scope n s = (if \<not> whole_topology s \<and> nd_domain n \<noteq> sc_domain s then False else True)"

definition edge_in_scope :: "edge \<Rightarrow> snapshot_scope \<Rightarrow> bool" where
  "edge_in_scope e s =
     (if \<not> whole_topology s \<and> ed_domain e \<noteq> sc_domain s \<and>
         \<not> (ed_cross_domain e \<and> ed_secondary_domain e = sc_domain s) then False
      else if filter_relation s \<and> ed_relation e \<noteq> sc_relation s then False
      else if filter_layer s \<and> ed_layer e \<noteq> sc_layer s then False
      else True)"

text \<open>The records are copied out of the hash map and then sorted by identifier.\<close>

definition sorted_nodes :: "graph \<Rightarrow> snapshot_scope \<Rightarrow> node list" where
  "sorted_nodes g s = sort_key nd_id (filter (\<lambda>n. node_in_scope n s) (sorted_values (g_nodes g)))"

definition sorted_edges :: "graph \<Rightarrow> snapshot_scope \<Rightarrow> edge list" where
  "sorted_edges g s = sort_key ed_id (filter (\<lambda>e. edge_in_scope e s) (sorted_values (g_edges g)))"

definition sorted_incident :: "graph \<Rightarrow> string \<Rightarrow> string list" where
  "sorted_incident g i =
     (case Mapping.lookup (g_incident g) i of None \<Rightarrow> [] | Some ids \<Rightarrow> sorted_list_of_set ids)"

lemma map_ident_sorted_values:
  "finite (Mapping.keys m) \<Longrightarrow> ids_match ident m \<Longrightarrow> map ident (sorted_values m) = Mapping.ordered_keys m"
  by (simp add: sorted_values_def ids_match_def mem_keys_iff) (rule map_idI, auto simp: mem_keys_iff)

lemma sorted_values_listing:
  assumes "finite (Mapping.keys m)" "ids_match ident m"
  shows "sort_key ident (filter P (sorted_values m)) = filter P (sorted_values m)"
    and "sorted_wrt (<) (map ident (filter P (sorted_values m)))"
    and "set (filter P (sorted_values m)) = {v. P v \<and> (\<exists>k. Mapping.lookup m k = Some v)}"
proof -
  have ids: "map ident (sorted_values m) = Mapping.ordered_keys m" by (rule map_ident_sorted_values [OF assms])
  then have sorted: "sorted (map ident (filter P (sorted_values m)))" by (intro sorted_filter) simp
  then show "sort_key ident (filter P (sorted_values m)) = filter P (sorted_values m)"
    by (rule sort_key_id_if_sorted)
  have "distinct (map ident (filter P (sorted_values m)))"
    by (rule distinct_map_filter) (simp add: ids)
  with sorted show "sorted_wrt (<) (map ident (filter P (sorted_values m)))"
    by (simp add: strict_sorted_iff)
  show "set (filter P (sorted_values m)) = {v. P v \<and> (\<exists>k. Mapping.lookup m k = Some v)}"
    using assms(1) by (auto simp: set_sorted_values)
qed

lemma sorted_edges_eq: "graph_inv g \<Longrightarrow> sorted_edges g s = filter (\<lambda>e. edge_in_scope e s) (sorted_values (g_edges g))"
  by (simp add: sorted_edges_def graph_inv_def sorted_values_listing)

lemma sorted_nodes_eq: "graph_inv g \<Longrightarrow> sorted_nodes g s = filter (\<lambda>n. node_in_scope n s) (sorted_values (g_nodes g))"
  by (simp add: sorted_nodes_def graph_inv_def sorted_values_listing)

lemma set_sorted_edges:
  "graph_inv g \<Longrightarrow> e \<in> set (sorted_edges g s) \<longleftrightarrow> edge_in_scope e s \<and> find_edge g (ed_id e) = Some e"
  unfolding sorted_edges_eq
  by (subst sorted_values_listing(3) [where ident = ed_id]) (auto simp: graph_inv_def find_defs dest: ids_matchD)

lemma set_sorted_nodes:
  "graph_inv g \<Longrightarrow> n \<in> set (sorted_nodes g s) \<longleftrightarrow> node_in_scope n s \<and> find_node g (nd_id n) = Some n"
  unfolding sorted_nodes_eq
  by (subst sorted_values_listing(3) [where ident = nd_id]) (auto simp: graph_inv_def find_defs dest: ids_matchD)

lemma sorted_listing_ids:
  "graph_inv g \<Longrightarrow> sorted_wrt (<) (map ed_id (sorted_edges g s))"
  "graph_inv g \<Longrightarrow> sorted_wrt (<) (map nd_id (sorted_nodes g s))"
  by (simp_all add: sorted_edges_eq sorted_nodes_eq sorted_values_listing graph_inv_def)

text \<open>The incident edges of a node, from the adjacency index.\<close>

lemma sorted_incident_index: "sorted_incident g i = sorted_list_of_set (bucket (g_incident g) i)"
  by (simp add: sorted_incident_def bucket_def split: option.splits)

lemma set_sorted_incident:
  assumes "graph_inv g"
  shows "j \<in> set (sorted_incident g i) \<longleftrightarrow> (\<exists>e. find_edge g j = Some e \<and> (ed_from e = i \<or> ed_to e = i))"
proof -
  have "files edge_ends (g_incident g) (g_edges g)" and fin: "finite (Mapping.keys (g_edges g))"
    using assms by (simp_all add: graph_inv_def indexes_ok_def)
  then have b: "bucket (g_incident g) i = filed edge_ends (g_edges g) i" by (simp add: files_def)
  have "finite (filed edge_ends (g_edges g) i)"
    by (rule finite_subset [OF _ fin]) (auto simp: filed_def intro: mem_keys_Some)
  then show ?thesis by (auto simp: sorted_incident_index b filed_def edge_ends_def find_defs)
qed

text \<open>what a snapshot or a query lists is exactly the stored edges in scope, each once, in
  strictly increasing identifier order, and the incident listing of a node is exactly the
  identifiers of the edges that touch it.\<close>

theorem sorted_listings_exact:
  assumes "graph_inv g"
  shows "set (sorted_edges g s) = {e. find_edge g (ed_id e) = Some e \<and> edge_in_scope e s} \<and>
    sorted_wrt (<) (map ed_id (sorted_edges g s)) \<and>
    sorted_wrt (<) (map nd_id (sorted_nodes g s)) \<and>
    set (sorted_nodes g s) = {n. find_node g (nd_id n) = Some n \<and> node_in_scope n s} \<and>
    set (sorted_incident g i) = {j. \<exists>e. find_edge g j = Some e \<and> (ed_from e = i \<or> ed_to e = i)} \<and>
    sorted_wrt (<) (sorted_incident g i)"
proof (intro conjI)
  show "set (sorted_edges g s) = {e. find_edge g (ed_id e) = Some e \<and> edge_in_scope e s}"
    using set_sorted_edges [OF assms] by auto
  show "sorted_wrt (<) (map ed_id (sorted_edges g s))" "sorted_wrt (<) (map nd_id (sorted_nodes g s))"
    using sorted_listing_ids [OF assms] by simp_all
  show "set (sorted_nodes g s) = {n. find_node g (nd_id n) = Some n \<and> node_in_scope n s}"
    using set_sorted_nodes [OF assms] by auto
  show "set (sorted_incident g i) = {j. \<exists>e. find_edge g j = Some e \<and> (ed_from e = i \<or> ed_to e = i)}"
    using set_sorted_incident [OF assms] by auto
  show "sorted_wrt (<) (sorted_incident g i)" by (simp add: sorted_incident_index)
qed

theorem sorted_listings_exact_witness:
  "set (sorted_edges sample_graph scope_all) = {sample_edge ''e'' ''m'' ''n''}"
proof -
  have "set (sorted_edges sample_graph scope_all) =
      {e. find_edge sample_graph (ed_id e) = Some e \<and> edge_in_scope e scope_all}"
    using sorted_listings_exact [OF sample_graph_inv, of scope_all] by blast
  also have "\<dots> = {sample_edge ''e'' ''m'' ''n''}" (is "?L = {?e}")
  proof (intro equalityI subsetI)
    fix e
    assume "e \<in> ?L"
    then have "Mapping.lookup (g_edges sample_graph) (ed_id e) = Some e" by (simp add: find_defs)
    then show "e \<in> {?e}" by (simp add: sample_graph_records lookup_simps split: if_splits)
  next
    fix e
    assume "e \<in> {?e}"
    then show "e \<in> ?L" by (simp add: find_defs sample_graph_records lookup_simps edge_in_scope_def scope_all_def)
  qed
  finally show ?thesis .
qed

subsection \<open>Canonical encoding\<close>

definition encode_metadata_canonical :: "metadata \<Rightarrow> bytes" where
  "encode_metadata_canonical items =
     put_u32 (of_nat (length items)) @ concat (map (\<lambda>item. put_text (fst item) @ put_text (snd item)) items)"

definition canonical_encode_node :: "node \<Rightarrow> bytes" where
  "canonical_encode_node n =
     put_u8 1 @ put_text (nd_id n) @ put_text (nd_entity_id n) @ put_u8 (entity_class_code (nd_entity_class n)) @
     put_u64 (nd_entity_generation n) @ put_u8 (node_class_code (nd_class n)) @ put_u8 (tier_code (nd_tier n)) @
     put_text (nd_domain n) @ put_u64 (nd_generation n) @ put_u8 (lifecycle_code (nd_lifecycle n)) @
     put_u8 (discovery_source_code (pv_source (nd_provenance n))) @
     put_u8 (publication_type_code (pv_evidence_type (nd_provenance n))) @
     encode_metadata_canonical (nd_metadata n)"

definition put_optional_id :: "string option \<Rightarrow> bytes" where
  "put_optional_id v = put_boolean (v \<noteq> None) @ (case v of Some i \<Rightarrow> put_text i | None \<Rightarrow> [])"

definition canonical_encode_edge :: "edge \<Rightarrow> bytes" where
  "canonical_encode_edge e =
     put_u8 2 @ put_text (ed_id e) @ put_text (ed_relationship_id e) @ put_u8 (relation_code (ed_relation e)) @
     put_u8 (directionality_code (rule_direction (relation_rules (ed_relation e)))) @
     put_text (ed_from e) @ put_text (ed_to e) @ put_u8 (layer_code (ed_layer e)) @ put_text (ed_domain e) @
     put_boolean (ed_cross_domain e) @ put_text (ed_secondary_domain e) @ put_u64 (ed_generation e) @
     put_u64 (ed_from_entity_generation e) @ put_u64 (ed_to_entity_generation e) @
     put_u8 (lifecycle_code (ed_lifecycle e)) @ put_optional_id (ed_supported_by e) @
     put_optional_id (ed_superseded_by e) @ put_optional_id (ed_attachment e) @
     put_u8 (discovery_source_code (pv_source (ed_provenance e))) @
     put_u8 (publication_type_code (pv_evidence_type (ed_provenance e))) @
     encode_metadata_canonical (ed_metadata e)"

definition digest_preimage :: "graph \<Rightarrow> snapshot_scope \<Rightarrow> bytes" where
  "digest_preimage g s =
     put_text ''FABRIC-TOPOLOGY-DIGEST'' @ put_u32 1 @ put_boolean (whole_topology s) @ put_text (sc_domain s) @
     put_boolean (filter_relation s) @ put_u8 (relation_code (sc_relation s)) @
     put_boolean (filter_layer s) @ put_u8 (layer_code (sc_layer s)) @
     put_u64 (of_nat (length (sorted_nodes g s))) @ put_u64 (of_nat (length (sorted_edges g s))) @
     concat (map canonical_encode_node (sorted_nodes g s)) @ concat (map canonical_encode_edge (sorted_edges g s))"

definition topology_digest :: "graph \<Rightarrow> snapshot_scope \<Rightarrow> string" where
  "topology_digest g s = sha256_hex (digest_preimage g s)"

subsubsection \<open>Semantic content\<close>

text \<open>What the canonical bytes leave out, blanked out: the incarnation data that the header comment of
  \<open>canonical_encode_node\<close> lists, and the source relationship identifier, which it does not list.\<close>

definition semantic_provenance :: "provenance \<Rightarrow> provenance" where
  "semantic_provenance p = \<lparr>pv_publisher = [], pv_worker_boot = [], pv_coordinator_epoch = 0,
     pv_source = pv_source p, pv_evidence_type = pv_evidence_type p, pv_evidence_generation = 0,
     pv_source_relationship_id = [], pv_publication = [], pv_created_generation = 0,
     pv_last_validated_generation = 0\<rparr>"

definition semantic_node :: "node \<Rightarrow> node" where
  "semantic_node n = n\<lparr>nd_created_generation := 0, nd_last_validated_generation := 0,
     nd_provenance := semantic_provenance (nd_provenance n)\<rparr>"

definition semantic_edge :: "edge \<Rightarrow> edge" where
  "semantic_edge e = e\<lparr>ed_created_generation := 0, ed_last_validated_generation := 0,
     ed_evidence_generation := 0, ed_provenance := semantic_provenance (ed_provenance e)\<rparr>"

text \<open>Lengths the 32-bit length prefixes of the encoding can represent.\<close>

definition text_fits :: "string \<Rightarrow> bool" where
  "text_fits s = (length s < 4294967296)"

definition metadata_fits :: "metadata \<Rightarrow> bool" where
  "metadata_fits items = (length items < 4294967296 \<and> (\<forall>item \<in> set items. text_fits (fst item) \<and> text_fits (snd item)))"

definition node_fits :: "node \<Rightarrow> bool" where
  "node_fits n = (text_fits (nd_id n) \<and> text_fits (nd_entity_id n) \<and> text_fits (nd_domain n) \<and> metadata_fits (nd_metadata n))"

definition edge_fits :: "edge \<Rightarrow> bool" where
  "edge_fits e = (text_fits (ed_id e) \<and> text_fits (ed_relationship_id e) \<and> text_fits (ed_from e) \<and> text_fits (ed_to e) \<and>
     text_fits (ed_domain e) \<and> text_fits (ed_secondary_domain e) \<and> pred_option text_fits (ed_supported_by e) \<and>
     pred_option text_fits (ed_superseded_by e) \<and> pred_option text_fits (ed_attachment e) \<and> metadata_fits (ed_metadata e))"

lemma put_text_inject:
  "text_fits s \<Longrightarrow> text_fits t \<Longrightarrow> put_text s @ xs = put_text t @ ys \<longleftrightarrow> s = t \<and> xs = ys"
  by (rule text_codec.put_append_inject [of "max (length s) (length t)"]) (simp_all add: text_fits_def blob_fits_def)

lemmas put_word_inject = u8_codec.put_append_inject [OF TrueI TrueI] u32_codec.put_append_inject [OF TrueI TrueI]
  u64_codec.put_append_inject [OF TrueI TrueI] boolean_codec.put_append_inject [OF TrueI TrueI]

lemma metadata_inject:
  assumes "metadata_fits a" "metadata_fits b"
  shows "encode_metadata_canonical a @ xs = encode_metadata_canonical b @ ys \<longleftrightarrow> a = b \<and> xs = ys"
proof -
  have items: "concat (map (\<lambda>i. put_text (fst i) @ put_text (snd i)) p) @ xs = concat (map (\<lambda>i. put_text (fst i) @ put_text (snd i)) q) @ ys \<longleftrightarrow>
      p = q \<and> xs = ys"
    if "\<forall>i \<in> set p. text_fits (fst i) \<and> text_fits (snd i)" "\<forall>i \<in> set q. text_fits (fst i) \<and> text_fits (snd i)"
      "length p = length q" for p q :: metadata
    using that(3,1,2) by (induction p q rule: list_induct2) (auto simp: put_text_inject prod_eq_iff)
  have "(of_nat (length a) :: u32) = of_nat (length b) \<longleftrightarrow> length a = length b"
    using assms by (auto simp: metadata_fits_def word_of_nat_eq_iff take_bit_nat_eq_self)
  then show ?thesis
    using assms by (auto simp: encode_metadata_canonical_def put_word_inject items metadata_fits_def)
qed

lemma optional_id_inject:
  "pred_option text_fits a \<Longrightarrow> pred_option text_fits b \<Longrightarrow>
   put_optional_id a @ xs = put_optional_id b @ ys \<longleftrightarrow> a = b \<and> xs = ys"
  by (cases a; cases b) (auto simp: put_optional_id_def put_word_inject put_text_inject)

lemma entity_class_code_inject: "entity_class_code a = entity_class_code b \<longleftrightarrow> a = b"
  by (cases a; cases b; simp)

lemma node_class_code_inject: "node_class_code a = node_class_code b \<longleftrightarrow> a = b"
  by (cases a; cases b; simp)

lemma tier_code_inject: "tier_code a = tier_code b \<longleftrightarrow> a = b"
  by (cases a; cases b; simp)

lemma lifecycle_code_inject: "lifecycle_code a = lifecycle_code b \<longleftrightarrow> a = b"
  by (cases a; cases b; simp)

lemma discovery_source_code_inject: "discovery_source_code a = discovery_source_code b \<longleftrightarrow> a = b"
  by (cases a; cases b; simp)

lemma publication_type_code_inject: "publication_type_code a = publication_type_code b \<longleftrightarrow> a = b"
  by (cases a; cases b; simp)

lemma layer_code_inject: "layer_code a = layer_code b \<longleftrightarrow> a = b"
  by (cases a; cases b; simp)

lemmas codes_inject = entity_class_code_inject node_class_code_inject tier_code_inject
  lifecycle_code_inject discovery_source_code_inject publication_type_code_inject layer_code_inject relation_code_inj

lemma canonical_node_inject:
  assumes "node_fits n" "node_fits m"
  shows "canonical_encode_node n @ xs = canonical_encode_node m @ ys \<longleftrightarrow> semantic_node n = semantic_node m \<and> xs = ys"
  using assms unfolding canonical_encode_node_def node_fits_def append_assoc
  by (cases n; cases m)
    (auto simp: put_word_inject put_text_inject metadata_inject codes_inject semantic_node_def semantic_provenance_def)

lemma canonical_edge_inject:
  assumes "edge_fits e" "edge_fits f"
  shows "canonical_encode_edge e @ xs = canonical_encode_edge f @ ys \<longleftrightarrow> semantic_edge e = semantic_edge f \<and> xs = ys"
  using assms unfolding canonical_encode_edge_def edge_fits_def append_assoc
  by (cases e; cases f)
    (auto simp: put_word_inject put_text_inject metadata_inject codes_inject optional_id_inject
      semantic_edge_def semantic_provenance_def)

lemma length_put_text: "length (put_text s) = 4 + length s"
  by (simp add: put_text_def put_blob_def)

text \<open>Node and edge records are self-delimiting, so sequences of them are too.\<close>

lemma node_list_inject:
  "length ns = length ms \<Longrightarrow> \<forall>n \<in> set ns. node_fits n \<Longrightarrow> \<forall>n \<in> set ms. node_fits n \<Longrightarrow>
   concat (map canonical_encode_node ns) @ xs = concat (map canonical_encode_node ms) @ ys \<longleftrightarrow>
   map semantic_node ns = map semantic_node ms \<and> xs = ys"
  by (induction ns ms rule: list_induct2) (auto simp: canonical_node_inject)

lemma edge_list_inject:
  "length es = length fs \<Longrightarrow> \<forall>e \<in> set es. edge_fits e \<Longrightarrow> \<forall>e \<in> set fs. edge_fits e \<Longrightarrow>
   concat (map canonical_encode_edge es) = concat (map canonical_encode_edge fs) \<longleftrightarrow>
   map semantic_edge es = map semantic_edge fs"
proof (induction es fs rule: list_induct2)
  case (Cons e es f fs)
  then show ?case
    using canonical_edge_inject [of e f "concat (map canonical_encode_edge es)" "concat (map canonical_encode_edge fs)"] by auto
qed simp

definition listing_fits :: "graph \<Rightarrow> snapshot_scope \<Rightarrow> bool" where
  "listing_fits g s = (length (sorted_nodes g s) < 2 ^ 64 \<and> length (sorted_edges g s) < 2 ^ 64 \<and>
     (\<forall>n \<in> set (sorted_nodes g s). node_fits n) \<and> (\<forall>e \<in> set (sorted_edges g s). edge_fits e) \<and> text_fits (sc_domain s))"

lemma count_inject: "m < 2 ^ 64 \<Longrightarrow> n < 2 ^ 64 \<Longrightarrow> (of_nat m :: u64) = of_nat n \<longleftrightarrow> m = n"
  by (simp add: word_of_nat_eq_iff take_bit_nat_eq_self)

lemma length_iff_maps: "map f xs = map f ys \<Longrightarrow> length xs = length ys"
  by (metis length_map)

text \<open>C37: the bytes the topology digest hashes are an injective encoding of the scope and of the
  semantic content: two digest computations hash the same bytes exactly when the scopes are equal
  and the listed nodes and edges agree in everything but incarnation data (publisher, worker boot,
  coordinator epoch, publication, evidence stream position, bookkeeping generations) and the
  source relationship identifier of their provenance. The last is not among the data the code
  documents as excluded: two relationships that differ only in it have the same digest. Otherwise
  equal content gives equal digests, and different content can only collide through SHA-256
  itself.\<close>

theorem digest_preimage_determines_content:
  assumes "listing_fits g s" and "listing_fits h t"
  shows "digest_preimage g s = digest_preimage h t \<longleftrightarrow>
    s = t \<and> map semantic_node (sorted_nodes g s) = map semantic_node (sorted_nodes h t) \<and>
    map semantic_edge (sorted_edges g s) = map semantic_edge (sorted_edges h t)"
proof -
  let ?same = "\<lambda>a b. length a = length b"
  have "digest_preimage g s = digest_preimage h t \<longleftrightarrow> s = t \<and>
      ?same (sorted_nodes g s) (sorted_nodes h t) \<and> ?same (sorted_edges g s) (sorted_edges h t) \<and>
      concat (map canonical_encode_node (sorted_nodes g s)) @ concat (map canonical_encode_edge (sorted_edges g s)) =
      concat (map canonical_encode_node (sorted_nodes h t)) @ concat (map canonical_encode_edge (sorted_edges h t))"
    using assms unfolding digest_preimage_def listing_fits_def
    by (cases s; cases t) (auto simp: put_word_inject put_text_inject codes_inject count_inject)
  moreover have "map semantic_node (sorted_nodes g s) = map semantic_node (sorted_nodes h t) \<Longrightarrow>
      ?same (sorted_nodes g s) (sorted_nodes h t)"
    "map semantic_edge (sorted_edges g s) = map semantic_edge (sorted_edges h t) \<Longrightarrow>
      ?same (sorted_edges g s) (sorted_edges h t)"
    by (drule length_iff_maps, assumption)+
  moreover have "concat (map canonical_encode_node (sorted_nodes g s)) @ concat (map canonical_encode_edge (sorted_edges g s)) =
      concat (map canonical_encode_node (sorted_nodes h t)) @ concat (map canonical_encode_edge (sorted_edges h t)) \<longleftrightarrow>
      map semantic_node (sorted_nodes g s) = map semantic_node (sorted_nodes h t) \<and>
      map semantic_edge (sorted_edges g s) = map semantic_edge (sorted_edges h t)"
    if "?same (sorted_nodes g s) (sorted_nodes h t)" "?same (sorted_edges g s) (sorted_edges h t)"
    using assms that by (simp add: listing_fits_def node_list_inject edge_list_inject)
  ultimately show ?thesis by blast
qed

theorem digest_preimage_determines_content_witness:
  "digest_preimage (new_graph default_limits) (scope_of_domain ''a'') \<noteq> digest_preimage (new_graph default_limits) (scope_of_domain ''b'')"
proof -
  have fits: "listing_fits (new_graph default_limits) (scope_of_domain [c])" for c
    by (simp add: listing_fits_def sorted_nodes_def sorted_edges_def new_graph_def sorted_values_def
        text_fits_def scope_of_domain_def)
  show ?thesis
    using digest_preimage_determines_content [OF fits [of "CHR ''a''"] fits [of "CHR ''b''"]]
    by (simp add: scope_of_domain_def scope_all_def)
qed

subsection \<open>Derived identifiers\<close>

definition render_edge_key :: "edge_key \<Rightarrow> string" where
  "render_edge_key k =
     relation_string (ek_relation k) @ ''|'' @ ek_first k @ ''|'' @ ek_second k @ ''|'' @ ek_domain k"

definition hex_prefix_of_digest :: "string \<Rightarrow> string" where
  "hex_prefix_of_digest seed = take 32 (sha256_hex (bytes_of seed))"

definition derive_node_id :: "string \<Rightarrow> string \<Rightarrow> string" where
  "derive_node_id domain_id entity_id = ''n_'' @ hex_prefix_of_digest (''node|'' @ entity_id)"

definition derive_edge_id :: "edge_key \<Rightarrow> string" where
  "derive_edge_id k = ''e_'' @ hex_prefix_of_digest (''edge|'' @ render_edge_key k)"

definition derive_relationship_id :: "edge_key \<Rightarrow> string" where
  "derive_relationship_id k = ''r_'' @ hex_prefix_of_digest (''rel|'' @ render_edge_key k)"

lemma hex_prefix_facts:
  "length (hex_prefix_of_digest seed) = 32" "c \<in> set (hex_prefix_of_digest seed) \<Longrightarrow> is_alphanumeric c"
  by (auto simp: hex_prefix_of_digest_def length_sha256_hex dest: in_set_takeD intro: sha256_hex_alphanumeric)

lemma prefixed_hex_valid:
  "is_alphanumeric p \<Longrightarrow> is_valid_identifier (p # ''_'' @ hex_prefix_of_digest seed) kMaxIdentifierBytes"
  by (auto simp: valid_identifier_iff is_body_char_def hex_prefix_facts kMaxIdentifierBytes_def)

text \<open>every identifier the runtime derives passes the validation it applies to identifiers from
  outside, and is 34 bytes long whatever the inputs.\<close>

theorem derived_identifiers_valid:
  "\<forall>i \<in> {derive_node_id d entity, derive_edge_id k, derive_relationship_id k}.
     is_valid_identifier i kMaxIdentifierBytes \<and> length i = 34"
  using prefixed_hex_valid [of "CHR ''n''"] prefixed_hex_valid [of "CHR ''e''"] prefixed_hex_valid [of "CHR ''r''"]
  by (simp add: derive_node_id_def derive_edge_id_def derive_relationship_id_def hex_prefix_facts alphanumeric_code)

theorem derived_identifiers_valid_witness:
  "is_valid_identifier (derive_node_id ''d'' ''host-1'') kMaxIdentifierBytes"
  using derived_identifiers_valid [of "''d''" "''host-1''"] by blast

lemma bar_inject:
  "c \<notin> set a \<Longrightarrow> c \<notin> set b \<Longrightarrow> a @ c # xs = b @ c # ys \<longleftrightarrow> a = b \<and> xs = ys"
proof (induction a arbitrary: b)
  case Nil
  then show ?case by (cases b) auto
next
  case (Cons x a)
  then show ?case by (cases b) auto
qed

lemma relation_string_no_bar: "CHR ''|'' \<notin> set (relation_string r)"
  by (cases r) (simp_all add: relation_string_def name_or_def kRelationNames_def)

lemma relation_string_inject: "relation_string r = relation_string r' \<longleftrightarrow> r = r'"
  by (cases r; cases r'; simp add: relation_string_def name_or_def kRelationNames_def)

lemma valid_no_bar: "is_valid_identifier i n \<Longrightarrow> CHR ''|'' \<notin> set i"
  using body_char_printable by (auto simp: valid_identifier_iff)

text \<open>the seed an edge identifier is derived from separates edge keys: two keys with valid
  endpoint identifiers render alike only if they are the same key.\<close>

theorem edge_key_rendering_injective:
  assumes "is_valid_identifier (ek_first k) n" "is_valid_identifier (ek_second k) n"
    and "is_valid_identifier (ek_first k') n" "is_valid_identifier (ek_second k') n"
  shows "render_edge_key k = render_edge_key k' \<longleftrightarrow> k = k'"
  using assms [THEN valid_no_bar]
  by (cases k; cases k') (auto simp: render_edge_key_def bar_inject relation_string_no_bar relation_string_inject)

theorem edge_key_rendering_injective_witness:
  "render_edge_key (make_edge_key RC_Contains ''a'' ''b'' ''d'') \<noteq> render_edge_key (make_edge_key RC_Contains ''b'' ''a'' ''d'')"
proof -
  have v: "is_valid_identifier ''a'' 255" "is_valid_identifier ''b'' 255"
    by (simp_all add: valid_identifier_iff is_body_char_def alphanumeric_code)
  have k: "make_edge_key RC_Contains x y d = \<lparr>ek_relation = RC_Contains, ek_first = x, ek_second = y, ek_domain = d\<rparr>" for x y d
    by (simp add: make_edge_key_def rules_of_def)
  show ?thesis
    using edge_key_rendering_injective [of "make_edge_key RC_Contains ''a'' ''b'' ''d''" 255 "make_edge_key RC_Contains ''b'' ''a'' ''d''"] v
    by (simp add: k)
qed

subsection \<open>Rendering\<close>

definition newline :: string where "newline = [CHR 0x0A]"

definition render_edge :: "edge \<Rightarrow> string" where
  "render_edge e =
     ''edge '' @ ed_id e @ '' '' @ relation_string (ed_relation e) @ '' '' @ ed_from e @ '' -> '' @ ed_to e @
     '' layer='' @ layer_string (ed_layer e) @ '' domain='' @ ed_domain e @
     '' gen='' @ u64_string (ed_generation e) @ '' lifecycle='' @ lifecycle_string (ed_lifecycle e)"

definition render_node :: "node \<Rightarrow> string" where
  "render_node n =
     ''node '' @ nd_id n @ '' entity='' @ nd_entity_id n @ '' class='' @ node_class_string (nd_class n) @
     '' tier='' @ tier_string (nd_tier n) @ '' domain='' @ nd_domain n @
     '' gen='' @ u64_string (nd_generation n) @ '' lifecycle='' @ lifecycle_string (nd_lifecycle n)"

definition render_provenance :: "provenance \<Rightarrow> string" where
  "render_provenance p =
     ''publisher='' @ pv_publisher p @ '' boot='' @ pv_worker_boot p @
     '' epoch='' @ u64_string (pv_coordinator_epoch p) @ '' source='' @ discovery_source_string (pv_source p) @
     '' evidence='' @ publication_type_string (pv_evidence_type p) @
     '' evidence_gen='' @ u64_string (pv_evidence_generation p) @
     '' created_gen='' @ u64_string (pv_created_generation p) @
     '' validated_gen='' @ u64_string (pv_last_validated_generation p) @
     (if pv_source_relationship_id p \<noteq> [] then '' source_relationship_id='' @ pv_source_relationship_id p else []) @
     (if pv_publication p \<noteq> [] then '' publication='' @ pv_publication p else [])"

definition render_canonical :: "graph \<Rightarrow> snapshot_scope \<Rightarrow> string" where
  "render_canonical g s =
     ''generation='' @ u64_string (g_generation g) @ newline @
     ''nodes='' @ decimal (length (sorted_nodes g s)) @ newline @
     concat (map (\<lambda>n. render_node n @ newline) (sorted_nodes g s)) @
     ''edges='' @ decimal (length (sorted_edges g s)) @ newline @
     concat (map (\<lambda>e. render_edge e @ newline) (sorted_edges g s))"

end
