(* ===== verification/Diff.thy ===== *)
theory Diff
  imports Canonical "HOL-Library.Product_Lexorder"
begin

text \<open>
  Snapshots as values and the deterministic diff between two of them (\<open>snapshot.hpp\<close>,
  \<open>diff.hpp\<close>, \<open>src/snapshot.cpp\<close> renderings, \<open>src/diff.cpp\<close>). The main result says exactly
  which differences a diff reports: it is empty if and only if the two snapshots have the same
  identifiers and agree on the fields \<open>node_tracked\<close> and \<open>edge_tracked\<close> list.
\<close>

subsection \<open>Snapshots\<close>

record topology_snapshot =
  sn_id :: string
  sn_snapshot_generation :: u64
  sn_topology_generation :: u64
  sn_coordinator_epoch :: u64
  sn_scope :: snapshot_scope
  sn_digest :: string
  sn_nodes :: "node list"
  sn_edges :: "edge list"

definition render_snapshot :: "topology_snapshot \<Rightarrow> string" where
  "render_snapshot s =
     ''snapshot='' @ sn_id s @ newline @ ''snapshot_generation='' @ u64_string (sn_snapshot_generation s) @ newline @
     ''topology_generation='' @ u64_string (sn_topology_generation s) @ newline @
     ''coordinator_epoch='' @ u64_string (sn_coordinator_epoch s) @ newline @
     ''scope='' @ (if whole_topology (sn_scope s) then ''ALL'' else sc_domain (sn_scope s)) @ newline @
     ''digest='' @ sn_digest s @ newline @ ''nodes='' @ decimal (length (sn_nodes s)) @ newline @
     concat (map (\<lambda>n. render_node n @ newline) (sn_nodes s)) @
     ''edges='' @ decimal (length (sn_edges s)) @ newline @
     concat (map (\<lambda>e. render_edge e @ newline) (sn_edges s))"

subsection \<open>Diff entries\<close>

datatype diff_kind = DK_NodeAdded | DK_NodeRemoved | DK_NodeGenerationChanged | DK_EdgeAdded | DK_EdgeRemoved
  | DK_EdgeSuperseded | DK_AttachmentMoved | DK_RelationshipChanged | DK_ScopeChanged | DK_CurrentnessChanged

fun diff_kind_code :: "diff_kind \<Rightarrow> nat" where
  "diff_kind_code DK_NodeAdded = 0" | "diff_kind_code DK_NodeRemoved = 1"
| "diff_kind_code DK_NodeGenerationChanged = 2" | "diff_kind_code DK_EdgeAdded = 3"
| "diff_kind_code DK_EdgeRemoved = 4" | "diff_kind_code DK_EdgeSuperseded = 5"
| "diff_kind_code DK_AttachmentMoved = 6" | "diff_kind_code DK_RelationshipChanged = 7"
| "diff_kind_code DK_ScopeChanged = 8" | "diff_kind_code DK_CurrentnessChanged = 9"

fun diff_kind_string :: "diff_kind \<Rightarrow> string" where
  "diff_kind_string DK_NodeAdded = ''NODE_ADDED''"
| "diff_kind_string DK_NodeRemoved = ''NODE_REMOVED''"
| "diff_kind_string DK_NodeGenerationChanged = ''NODE_GENERATION_CHANGED''"
| "diff_kind_string DK_EdgeAdded = ''EDGE_ADDED''"
| "diff_kind_string DK_EdgeRemoved = ''EDGE_REMOVED''"
| "diff_kind_string DK_EdgeSuperseded = ''EDGE_SUPERSEDED''"
| "diff_kind_string DK_AttachmentMoved = ''ATTACHMENT_MOVED''"
| "diff_kind_string DK_RelationshipChanged = ''RELATIONSHIP_CHANGED''"
| "diff_kind_string DK_ScopeChanged = ''SCOPE_CHANGED''"
| "diff_kind_string DK_CurrentnessChanged = ''CURRENTNESS_CHANGED''"

record diff_entry =
  df_kind :: diff_kind
  df_key :: string
  df_node :: string
  df_edge :: string
  df_before :: string
  df_after :: string

record topology_diff =
  td_entries :: "diff_entry list"
  td_digest :: string
  td_from_generation :: u64
  td_to_generation :: u64

definition node_entry :: "diff_kind \<Rightarrow> string \<Rightarrow> string \<Rightarrow> string \<Rightarrow> diff_entry" where
  "node_entry kind i before after =
     \<lparr>df_kind = kind, df_key = i, df_node = i, df_edge = [], df_before = before, df_after = after\<rparr>"

definition edge_entry :: "diff_kind \<Rightarrow> string \<Rightarrow> string \<Rightarrow> string \<Rightarrow> diff_entry" where
  "edge_entry kind i before after =
     \<lparr>df_kind = kind, df_key = i, df_node = [], df_edge = i, df_before = before, df_after = after\<rparr>"

definition entry_rank :: "diff_entry \<Rightarrow> nat \<times> string" where
  "entry_rank x = (diff_kind_code (df_kind x), df_key x)"

definition diff_count :: "topology_diff \<Rightarrow> diff_kind \<Rightarrow> nat" where
  "diff_count d kind = length (filter (\<lambda>x. df_kind x = kind) (td_entries d))"

definition render_diff_entry :: "diff_entry \<Rightarrow> string" where
  "render_diff_entry x =
     diff_kind_string (df_kind x) @ '' '' @ df_key x @
     (if df_before x \<noteq> [] then '' before='' @ df_before x else []) @
     (if df_after x \<noteq> [] then '' after='' @ df_after x else []) @ newline"

definition render_diff :: "topology_diff \<Rightarrow> string" where
  "render_diff d =
     ''from_generation='' @ u64_string (td_from_generation d) @ newline @
     ''to_generation='' @ u64_string (td_to_generation d) @ newline @
     ''entries='' @ decimal (length (td_entries d)) @ newline @ concat (map render_diff_entry (td_entries d))"

definition seal_diff :: "topology_diff \<Rightarrow> topology_diff" where
  "seal_diff d = d\<lparr>td_digest := sha256_hex (bytes_of (render_diff d))\<rparr>"

subsection \<open>Comparing two snapshots\<close>

text \<open>\<open>std::map::emplace\<close> keeps the first record of an identifier; the map is visited in key order.\<close>

definition emplace :: "string \<Rightarrow> 'a \<Rightarrow> (string, 'a) mapping \<Rightarrow> (string, 'a) mapping" where
  "emplace k v m = (if has_key m k then m else Mapping.update k v m)"

definition by_id :: "('a \<Rightarrow> string) \<Rightarrow> 'a list \<Rightarrow> (string, 'a) mapping" where
  "by_id ident xs = fold (\<lambda>x. emplace (ident x) x) xs Mapping.empty"

definition node_changes :: "string \<Rightarrow> node \<Rightarrow> node \<Rightarrow> diff_entry list" where
  "node_changes k lhs rhs =
     (if nd_entity_generation lhs \<noteq> nd_entity_generation rhs
      then [(node_entry DK_NodeGenerationChanged k (u64_string (nd_entity_generation lhs))
              (u64_string (nd_entity_generation rhs)))\<lparr>df_node := nd_id lhs\<rparr>] else []) @
     (if nd_domain lhs \<noteq> nd_domain rhs
      then [(node_entry DK_ScopeChanged k (nd_domain lhs) (nd_domain rhs))\<lparr>df_node := nd_id lhs\<rparr>] else []) @
     (if nd_lifecycle lhs \<noteq> nd_lifecycle rhs
      then [(node_entry DK_CurrentnessChanged k (lifecycle_string (nd_lifecycle lhs))
              (lifecycle_string (nd_lifecycle rhs)))\<lparr>df_node := nd_id lhs\<rparr>] else [])"

definition became_superseded :: "edge \<Rightarrow> edge \<Rightarrow> bool" where
  "became_superseded lhs rhs = (ed_lifecycle lhs \<noteq> ed_lifecycle rhs \<and> ed_lifecycle rhs = LS_Superseded)"

definition content_changed :: "edge \<Rightarrow> edge \<Rightarrow> bool" where
  "content_changed lhs rhs =
     (ed_generation lhs \<noteq> ed_generation rhs \<or> ed_evidence_generation lhs \<noteq> ed_evidence_generation rhs \<or>
      ed_metadata lhs \<noteq> ed_metadata rhs \<or> ed_supported_by lhs \<noteq> ed_supported_by rhs \<or>
      ed_attachment lhs \<noteq> ed_attachment rhs)"

definition lifecycle_only :: "edge \<Rightarrow> edge \<Rightarrow> bool" where
  "lifecycle_only lhs rhs =
     (ed_lifecycle lhs \<noteq> ed_lifecycle rhs \<and> ed_generation lhs = ed_generation rhs \<and>
      ed_evidence_generation lhs = ed_evidence_generation rhs \<and> ed_metadata lhs = ed_metadata rhs \<and>
      ed_supported_by lhs = ed_supported_by rhs \<and> ed_attachment lhs = ed_attachment rhs)"

definition edge_changes :: "string \<Rightarrow> edge \<Rightarrow> edge \<Rightarrow> diff_entry list" where
  "edge_changes k lhs rhs =
     (let item = \<lambda>kind before after. (edge_entry kind k before after)\<lparr>df_edge := ed_id lhs\<rparr>;
          superseded = became_superseded lhs rhs in
      (if superseded
       then [item DK_EdgeSuperseded (lifecycle_string (ed_lifecycle lhs)) (lifecycle_string (ed_lifecycle rhs))]
       else if ed_from lhs \<noteq> ed_from rhs \<or> ed_to lhs \<noteq> ed_to rhs
       then [item DK_AttachmentMoved (ed_to lhs) (ed_to rhs)] else []) @
      (if ed_domain lhs \<noteq> ed_domain rhs then [item DK_ScopeChanged (ed_domain lhs) (ed_domain rhs)] else []) @
      (if \<not> superseded \<and> ed_lifecycle lhs \<noteq> ed_lifecycle rhs
       then [item DK_CurrentnessChanged (lifecycle_string (ed_lifecycle lhs)) (lifecycle_string (ed_lifecycle rhs))]
       else []) @
      (if content_changed lhs rhs \<and> \<not> lifecycle_only lhs rhs \<and> \<not> superseded
       then [item DK_RelationshipChanged (u64_string (ed_generation lhs)) (u64_string (ed_generation rhs))] else []))"

definition node_diff :: "(string, node) mapping \<Rightarrow> (string, node) mapping \<Rightarrow> diff_entry list" where
  "node_diff before after =
     concat (map (\<lambda>k. case Mapping.lookup before k of None \<Rightarrow> [] | Some lhs \<Rightarrow>
         (case Mapping.lookup after k of
            None \<Rightarrow> [(node_entry DK_NodeRemoved k (render_node lhs) [])\<lparr>df_node := nd_id lhs\<rparr>]
          | Some rhs \<Rightarrow> node_changes k lhs rhs)) (Mapping.ordered_keys before)) @
     concat (map (\<lambda>k. case Mapping.lookup after k of None \<Rightarrow> [] | Some rhs \<Rightarrow>
         (if has_key before k then []
          else [(node_entry DK_NodeAdded k [] (render_node rhs))\<lparr>df_node := nd_id rhs\<rparr>])) (Mapping.ordered_keys after))"

definition edge_diff :: "(string, edge) mapping \<Rightarrow> (string, edge) mapping \<Rightarrow> diff_entry list" where
  "edge_diff before after =
     concat (map (\<lambda>k. case Mapping.lookup before k of None \<Rightarrow> [] | Some lhs \<Rightarrow>
         (case Mapping.lookup after k of
            None \<Rightarrow> [(edge_entry DK_EdgeRemoved k (render_edge lhs) [])\<lparr>df_edge := ed_id lhs\<rparr>]
          | Some rhs \<Rightarrow> edge_changes k lhs rhs)) (Mapping.ordered_keys before)) @
     concat (map (\<lambda>k. case Mapping.lookup after k of None \<Rightarrow> [] | Some rhs \<Rightarrow>
         (if has_key before k then []
          else [(edge_entry DK_EdgeAdded k [] (render_edge rhs))\<lparr>df_edge := ed_id rhs\<rparr>])) (Mapping.ordered_keys after))"

definition snapshot_diff :: "topology_snapshot \<Rightarrow> topology_snapshot \<Rightarrow> topology_diff" where
  "snapshot_diff before after =
     seal_diff \<lparr>td_entries = sort_key entry_rank
         (node_diff (by_id nd_id (sn_nodes before)) (by_id nd_id (sn_nodes after)) @
          edge_diff (by_id ed_id (sn_edges before)) (by_id ed_id (sn_edges after))),
       td_digest = [], td_from_generation = sn_topology_generation before,
       td_to_generation = sn_topology_generation after\<rparr>"

subsection \<open>What a diff reports\<close>

definition node_tracked :: "node \<Rightarrow> u64 \<times> string \<times> lifecycle_state" where
  "node_tracked n = (nd_entity_generation n, nd_domain n, nd_lifecycle n)"

definition edge_tracked :: "edge \<Rightarrow> string \<times> string \<times> string \<times> lifecycle_state \<times> u64 \<times> u64 \<times> metadata \<times> string option \<times> string option" where
  "edge_tracked e = (ed_from e, ed_to e, ed_domain e, ed_lifecycle e, ed_generation e, ed_evidence_generation e,
     ed_metadata e, ed_supported_by e, ed_attachment e)"

lemma lookup_emplace:
  "Mapping.lookup (emplace j v m) k =
   (case Mapping.lookup m k of Some w \<Rightarrow> Some w | None \<Rightarrow> if j = k then Some v else None)"
  by (auto simp: emplace_def has_key_def lookup_simps split: option.splits)

lemma emplace_fold_lookup:
  "Mapping.lookup (fold (\<lambda>x. emplace (ident x) x) xs m) k =
   (case Mapping.lookup m k of Some v \<Rightarrow> Some v | None \<Rightarrow> find (\<lambda>x. ident x = k) xs)"
proof (induction xs arbitrary: m)
  case (Cons x xs)
  show ?case by (simp add: Cons.IH lookup_emplace split: option.splits)
qed (simp split: option.splits)

lemma lookup_by_id: "Mapping.lookup (by_id ident xs) k = find (\<lambda>x. ident x = k) xs"
  by (simp add: by_id_def emplace_fold_lookup lookup_simps)

lemma finite_by_id: "finite (Mapping.keys (by_id ident xs))"
  by (rule finite_subset [of _ "ident ` set xs"])
    (auto simp: mem_keys_iff lookup_by_id find_Some_iff)

lemma node_changes_Nil: "node_changes k lhs rhs = [] \<longleftrightarrow> node_tracked lhs = node_tracked rhs"
  by (auto simp: node_changes_def node_tracked_def)

lemma edge_changes_Nil: "edge_changes k lhs rhs = [] \<longleftrightarrow> edge_tracked lhs = edge_tracked rhs"
  by (auto simp: edge_changes_def edge_tracked_def Let_def became_superseded_def content_changed_def lifecycle_only_def)

lemma concat_lookup_Nil:
  "finite (Mapping.keys a) \<Longrightarrow>
   concat (map (\<lambda>k. case Mapping.lookup a k of None \<Rightarrow> [] | Some x \<Rightarrow> g k x) (Mapping.ordered_keys a)) = [] \<longleftrightarrow>
   (\<forall>k x. Mapping.lookup a k = Some x \<longrightarrow> g k x = [])"
  by (fastforce simp: mem_keys_iff split: option.splits)

lemma lookup_diff_Nil:
  assumes "finite (Mapping.keys a)" "finite (Mapping.keys b)"
    and "\<And>k x y. ch k x y = [] \<longleftrightarrow> f x = f y" and "\<And>k x. rem k x \<noteq> []" "\<And>k x. new k x \<noteq> []"
  shows "concat (map (\<lambda>k. case Mapping.lookup a k of None \<Rightarrow> [] | Some x \<Rightarrow>
      (case Mapping.lookup b k of None \<Rightarrow> rem k x | Some y \<Rightarrow> ch k x y)) (Mapping.ordered_keys a)) @
    concat (map (\<lambda>k. case Mapping.lookup b k of None \<Rightarrow> [] | Some y \<Rightarrow>
      (if has_key a k then [] else new k y)) (Mapping.ordered_keys b)) = [] \<longleftrightarrow>
    (\<forall>k. map_option f (Mapping.lookup a k) = map_option f (Mapping.lookup b k))" (is "?A @ ?B = [] \<longleftrightarrow> ?R")
proof -
  have "?A = [] \<longleftrightarrow> (\<forall>k x. Mapping.lookup a k = Some x \<longrightarrow>
      (case Mapping.lookup b k of None \<Rightarrow> rem k x | Some y \<Rightarrow> ch k x y) = [])"
    by (rule concat_lookup_Nil [OF assms(1)])
  moreover have "?B = [] \<longleftrightarrow> (\<forall>k y. Mapping.lookup b k = Some y \<longrightarrow> (if has_key a k then [] else new k y) = [])"
    by (rule concat_lookup_Nil [OF assms(2)])
  ultimately have "?A @ ?B = [] \<longleftrightarrow> (\<forall>k. (\<forall>x. Mapping.lookup a k = Some x \<longrightarrow>
      (case Mapping.lookup b k of None \<Rightarrow> rem k x | Some y \<Rightarrow> ch k x y) = []) \<and>
      (\<forall>y. Mapping.lookup b k = Some y \<longrightarrow> (if has_key a k then [] else new k y) = []))"
    unfolding append_is_Nil_conv by blast
  also have "\<dots> \<longleftrightarrow> ?R"
  proof (rule all_cong1)
    fix k
    show "((\<forall>x. Mapping.lookup a k = Some x \<longrightarrow>
      (case Mapping.lookup b k of None \<Rightarrow> rem k x | Some y \<Rightarrow> ch k x y) = []) \<and>
      (\<forall>y. Mapping.lookup b k = Some y \<longrightarrow> (if has_key a k then [] else new k y) = [])) \<longleftrightarrow>
      map_option f (Mapping.lookup a k) = map_option f (Mapping.lookup b k)"
      using assms(3-5) by (cases "Mapping.lookup a k"; cases "Mapping.lookup b k") (auto simp: has_key_def)
  qed
  finally show ?thesis .
qed

text \<open>a diff has no entries exactly when both snapshots hold the same node and edge identifiers
  and each record agrees on entity generation, domain and lifecycle (nodes) or on endpoints,
  domain, lifecycle, generations, metadata, support and attachment (edges). In particular a diff
  of a snapshot with itself is empty, and a change of tier or metadata of a node is not a
  difference.\<close>

theorem snapshot_diff_empty_iff:
  "td_entries (snapshot_diff s t) = [] \<longleftrightarrow>
   (\<forall>k. map_option node_tracked (find (\<lambda>n. nd_id n = k) (sn_nodes s)) =
        map_option node_tracked (find (\<lambda>n. nd_id n = k) (sn_nodes t))) \<and>
   (\<forall>k. map_option edge_tracked (find (\<lambda>e. ed_id e = k) (sn_edges s)) =
        map_option edge_tracked (find (\<lambda>e. ed_id e = k) (sn_edges t)))"
proof -
  have sort_Nil: "sort_key entry_rank xs = [] \<longleftrightarrow> xs = []" for xs
    by (metis length_0_conv length_sort)
  have "node_diff a b = [] \<longleftrightarrow> (\<forall>k. map_option node_tracked (Mapping.lookup a k) = map_option node_tracked (Mapping.lookup b k))"
    if "finite (Mapping.keys a)" "finite (Mapping.keys b)" for a b
    unfolding node_diff_def by (rule lookup_diff_Nil [OF that]) (simp_all add: node_changes_Nil)
  moreover have "edge_diff a b = [] \<longleftrightarrow> (\<forall>k. map_option edge_tracked (Mapping.lookup a k) = map_option edge_tracked (Mapping.lookup b k))"
    if "finite (Mapping.keys a)" "finite (Mapping.keys b)" for a b
    unfolding edge_diff_def by (rule lookup_diff_Nil [OF that]) (simp_all add: edge_changes_Nil)
  ultimately show ?thesis
    by (simp add: snapshot_diff_def seal_diff_def sort_Nil finite_by_id lookup_by_id)
qed

end
