(* ===== verification/Authority.thy ===== *)
theory Authority
  imports Txn Cycle Registry Diff
begin

text \<open>
  The engine state (\<open>TopologyEngine::Impl\<close> in \<open>src/engine_impl.hpp\<close>), publisher authority and
  the attempt ledger (\<open>src/topology_engine.cpp\<close> lines 27 to 190, \<open>authority.hpp\<close>). The state is
  one record threaded through every operation; the mutexes are not modelled: each operation
  holds the exclusive locks for its whole body, so operations are atomic steps. The Fabric
  Registry is the lookup function of the options, and writing the durable image asks
  the parameter \<open>io\<close> for the answer of the file system, which is outside the program.
\<close>

subsection \<open>Grants\<close>

datatype grant_mode = GM_None | GM_Read | GM_IncrementalWrite | GM_AuthoritativeWrite

fun grant_code :: "grant_mode \<Rightarrow> nat" where
  "grant_code GM_None = 0"
| "grant_code GM_Read = 1"
| "grant_code GM_IncrementalWrite = 2"
| "grant_code GM_AuthoritativeWrite = 3"

lemma grant_code_inject: "grant_code a = grant_code b \<longleftrightarrow> a = b"
  by (cases a; cases b; simp)

text \<open>The enumeration is compared by its underlying value.\<close>

instantiation grant_mode :: linorder
begin

definition less_eq_grant_mode :: "grant_mode \<Rightarrow> grant_mode \<Rightarrow> bool" where
  "less_eq_grant_mode a b = (grant_code a \<le> grant_code b)"

definition less_grant_mode :: "grant_mode \<Rightarrow> grant_mode \<Rightarrow> bool" where
  "less_grant_mode a b = (grant_code a < grant_code b)"

instance
  by intro_classes (auto simp: less_eq_grant_mode_def less_grant_mode_def simp flip: grant_code_inject)

end

lemma grant_None_least [simp]: "GM_None \<le> m"
  by (simp add: less_eq_grant_mode_def)

fun grant_mode_string :: "grant_mode \<Rightarrow> string" where
  "grant_mode_string GM_None = ''NONE''"
| "grant_mode_string GM_Read = ''READ''"
| "grant_mode_string GM_IncrementalWrite = ''INCREMENTAL_WRITE''"
| "grant_mode_string GM_AuthoritativeWrite = ''AUTHORITATIVE_WRITE''"

definition grant_mode_from_string :: "string \<Rightarrow> grant_mode option" where
  "grant_mode_from_string text =
     (if text = ''NONE'' then Some GM_None
      else if text = ''READ'' then Some GM_Read
      else if text = ''INCREMENTAL_WRITE'' then Some GM_IncrementalWrite
      else if text = ''AUTHORITATIVE_WRITE'' then Some GM_AuthoritativeWrite
      else None)"

record scope_grant =
  sg_domain :: string
  sg_mode :: grant_mode

record publisher_state =
  pb_publisher :: string
  pb_worker_boot :: string
  pb_coordinator_epoch :: u64
  pb_grants :: "scope_grant list"
  pb_fenced :: bool
  pb_fence_reason :: string
  pb_reason :: string
  pb_committed :: u64
  pb_rejected :: u64

definition grant_for :: "publisher_state \<Rightarrow> string \<Rightarrow> grant_mode" where
  "grant_for s domain_id =
     fold (\<lambda>grant best. if sg_domain grant = domain_id \<and> sg_mode grant > best then sg_mode grant else best)
       (pb_grants s) GM_None"

definition render_publisher :: "publisher_state \<Rightarrow> string" where
  "render_publisher s =
     ''publisher='' @ pb_publisher s @ '' boot='' @ pb_worker_boot s @ '' epoch='' @ u64_string (pb_coordinator_epoch s) @
     '' fenced='' @ (if pb_fenced s then ''true'' else ''false'') @ '' committed='' @ u64_string (pb_committed s) @
     '' rejected='' @ u64_string (pb_rejected s) @ '' grants='' @ decimal (length (pb_grants s)) @
     (if pb_reason s \<noteq> [] then '' reason='' @ pb_reason s else []) @
     (if pb_fence_reason s \<noteq> [] then '' fence_reason='' @ pb_fence_reason s else [])"

text \<open>The loop computes the strongest grant of the domain.\<close>

lemma grant_fold_le:
  "m \<le> fold (\<lambda>grant best. if sg_domain grant = d \<and> sg_mode grant > best then sg_mode grant else best) gs b \<longleftrightarrow>
   m \<le> b \<or> (\<exists>grant \<in> set gs. sg_domain grant = d \<and> m \<le> sg_mode grant)"
proof (induction gs arbitrary: b)
  case (Cons grant gs)
  show ?case by (auto simp: Cons.IH)
qed simp

lemma grant_for_ge:
  "m \<le> grant_for s d \<longleftrightarrow> m = GM_None \<or> (\<exists>grant \<in> set (pb_grants s). sg_domain grant = d \<and> m \<le> sg_mode grant)"
  by (simp add: grant_for_def grant_fold_le) (metis antisym grant_None_least)

subsection \<open>The attempt ledger\<close>

record attempt_ledger =
  al_keys :: "string set"
  al_order :: "string list"

definition kLedgerCapacity :: nat where "kLedgerCapacity = 8192"

definition empty_ledger :: attempt_ledger where
  "empty_ledger = \<lparr>al_keys = {}, al_order = []\<rparr>"

text \<open>The \<open>while\<close> loop that drops the oldest keys.\<close>

function ledger_trim :: "attempt_ledger \<Rightarrow> attempt_ledger" where
  "ledger_trim l =
     (if length (al_order l) > kLedgerCapacity
      then ledger_trim \<lparr>al_keys = al_keys l - {hd (al_order l)}, al_order = tl (al_order l)\<rparr> else l)"
  by auto

termination ledger_trim
  by (relation "measure (\<lambda>l. length (al_order l))") (auto simp: kLedgerCapacity_def)

declare ledger_trim.simps [simp del]

definition ledger_record :: "string \<Rightarrow> attempt_ledger \<Rightarrow> attempt_ledger" where
  "ledger_record key l =
     (if key \<in> al_keys l then l
      else ledger_trim \<lparr>al_keys = insert key (al_keys l), al_order = al_order l @ [key]\<rparr>)"

definition ledger_seen :: "string \<Rightarrow> attempt_ledger \<Rightarrow> bool" where
  "ledger_seen key l = (key \<in> al_keys l)"

definition ledger_wf :: "attempt_ledger \<Rightarrow> bool" where
  "ledger_wf l = (al_keys l = set (al_order l) \<and> distinct (al_order l) \<and> length (al_order l) \<le> kLedgerCapacity)"

lemma ledger_wf_empty [simp]: "ledger_wf empty_ledger"
  by (simp add: ledger_wf_def empty_ledger_def)

lemma ledger_record_new:
  assumes wf: "ledger_wf l" and new: "key \<notin> al_keys l"
  shows "al_order (ledger_record key l) =
      (if length (al_order l) < kLedgerCapacity then al_order l @ [key] else tl (al_order l) @ [key])"
    and "al_keys (ledger_record key l) = set (al_order (ledger_record key l))"
proof -
  let ?l = "\<lparr>al_keys = insert key (al_keys l), al_order = al_order l @ [key]\<rparr>"
  have rec: "ledger_record key l = ledger_trim ?l" using new by (simp add: ledger_record_def)
  have "al_order (ledger_record key l) =
        (if length (al_order l) < kLedgerCapacity then al_order l @ [key] else tl (al_order l) @ [key]) \<and>
      al_keys (ledger_record key l) = set (al_order (ledger_record key l))"
  proof (cases "length (al_order l) < kLedgerCapacity")
    case True
    then have "ledger_trim ?l = ?l" by (subst ledger_trim.simps) simp
    then show ?thesis using True wf by (simp add: rec ledger_wf_def)
  next
    case False
    then have len: "length (al_order l) = kLedgerCapacity" using wf by (simp add: ledger_wf_def)
    then obtain x xs where l: "al_order l = x # xs" by (cases "al_order l") (auto simp: kLedgerCapacity_def)
    let ?t = "\<lparr>al_keys = insert key (al_keys l) - {x}, al_order = xs @ [key]\<rparr>"
    have "ledger_trim ?l = ledger_trim ?t" using len l by (subst ledger_trim.simps) simp
    also have "\<dots> = ?t" using len l by (subst ledger_trim.simps) simp
    finally show ?thesis using False wf new l by (auto simp: rec ledger_wf_def)
  qed
  then show "al_order (ledger_record key l) =
      (if length (al_order l) < kLedgerCapacity then al_order l @ [key] else tl (al_order l) @ [key])"
    and "al_keys (ledger_record key l) = set (al_order (ledger_record key l))" by auto
qed

lemma ledger_wf_record: "ledger_wf l \<Longrightarrow> ledger_wf (ledger_record key l)"
proof (cases "key \<in> al_keys l")
  case False
  assume wf: "ledger_wf l"
  note new = ledger_record_new [OF wf False]
  show ?thesis
    using wf False new
    by (auto simp: ledger_wf_def distinct_tl kLedgerCapacity_def dest: list.set_sel(2) [rotated])
qed (simp add: ledger_record_def)

text \<open>the replay ledger remembers exactly the last 8192 distinct attempts: a recorded attempt is
  recognised at once, recording a known one changes nothing, a new one evicts at most the oldest,
  and memory use is bounded.\<close>

theorem attempt_ledger_bounded_window:
  assumes "ledger_wf l"
  shows "ledger_wf (ledger_record key l) \<and> ledger_seen key (ledger_record key l) \<and>
    (ledger_seen key l \<longrightarrow> ledger_record key l = l) \<and>
    (\<forall>k. ledger_seen k l \<and> (length (al_order l) < kLedgerCapacity \<or> ledger_seen key l \<or> k \<noteq> hd (al_order l)) \<longrightarrow>
         ledger_seen k (ledger_record key l))"
proof (intro conjI allI impI)
  show wf: "ledger_wf (ledger_record key l)" by (rule ledger_wf_record [OF assms])
  show "ledger_seen key (ledger_record key l)"
    using ledger_record_new [OF assms, of key]
    by (cases "key \<in> al_keys l") (auto simp: ledger_seen_def ledger_record_def)
  show "ledger_record key l = l" if "ledger_seen key l"
    using that by (simp add: ledger_seen_def ledger_record_def)
  fix k
  assume k: "ledger_seen k l \<and> (length (al_order l) < kLedgerCapacity \<or> ledger_seen key l \<or> k \<noteq> hd (al_order l))"
  show "ledger_seen k (ledger_record key l)"
  proof (cases "key \<in> al_keys l")
    case False
    have "k \<in> set (al_order l)" using k assms by (auto simp: ledger_seen_def ledger_wf_def)
    then show ?thesis
      using k False ledger_record_new [OF assms False] by (cases "al_order l") (auto simp: ledger_seen_def)
  qed (use k in \<open>simp add: ledger_seen_def ledger_record_def\<close>)
qed

theorem attempt_ledger_bounded_window_witness:
  "ledger_seen ''pub-1'' (ledger_record ''pub-2'' (ledger_record ''pub-1'' empty_ledger))"
proof -
  have one: "ledger_record ''pub-1'' empty_ledger = \<lparr>al_keys = {''pub-1''}, al_order = [''pub-1'']\<rparr>"
    by (simp add: ledger_record_def empty_ledger_def ledger_trim.simps kLedgerCapacity_def)
  have "ledger_wf (ledger_record ''pub-1'' empty_ledger)" by (rule ledger_wf_record) simp
  from attempt_ledger_bounded_window [OF this, of "''pub-2''"] show ?thesis
    by (auto simp: one ledger_seen_def kLedgerCapacity_def)
qed

subsection \<open>Engine state\<close>

datatype persistence_mode = Manual | Immediate

record engine =
  en_persistence_path :: string
  en_persistence_mode :: persistence_mode
  en_verify_indexes :: bool
  en_snapshot_history :: nat
  en_limits :: limits
  en_directory :: "(string \<Rightarrow> entity_record option) option"
  en_graph :: graph
  en_epoch :: u64
  en_publishers :: "(string, publisher_state) mapping"
  en_fenced_boots :: "string set"
  en_attempts :: attempt_ledger
  en_snapshots :: "topology_snapshot list"
  en_committed :: u64
  en_idempotent :: u64
  en_rejected :: u64
  en_generation_advances :: u64
  en_publications_committed :: u64
  en_publications_rejected :: u64

record engine_options =
  op_limits :: limits
  op_directory :: "(string \<Rightarrow> entity_record option) option"
  op_persistence_path :: string
  op_persistence_mode :: persistence_mode
  op_verify_indexes :: bool
  op_initial_epoch :: u64
  op_snapshot_history :: nat

definition new_engine :: "engine_options \<Rightarrow> engine" where
  "new_engine op = \<lparr>en_persistence_path = op_persistence_path op, en_persistence_mode = op_persistence_mode op,
     en_verify_indexes = op_verify_indexes op, en_snapshot_history = op_snapshot_history op,
     en_limits = op_limits op, en_directory = op_directory op, en_graph = new_graph (op_limits op),
     en_epoch = op_initial_epoch op, en_publishers = Mapping.empty, en_fenced_boots = {},
     en_attempts = empty_ledger, en_snapshots = [], en_committed = 0, en_idempotent = 0, en_rejected = 0,
     en_generation_advances = 0, en_publications_committed = 0, en_publications_rejected = 0\<rparr>"

definition engine_lookup :: "engine \<Rightarrow> string \<Rightarrow> entity_record option" where
  "engine_lookup e i = (case en_directory e of None \<Rightarrow> None | Some look \<Rightarrow> look i)"

definition en_generation :: "engine \<Rightarrow> u64" where
  "en_generation e = g_generation (en_graph e)"

definition note_committed :: "engine \<Rightarrow> engine" where "note_committed e = e\<lparr>en_committed := en_committed e + 1\<rparr>"
definition note_idempotent :: "engine \<Rightarrow> engine" where "note_idempotent e = e\<lparr>en_idempotent := en_idempotent e + 1\<rparr>"
definition note_rejected :: "engine \<Rightarrow> engine" where "note_rejected e = e\<lparr>en_rejected := en_rejected e + 1\<rparr>"

text \<open>\<open>++publisher->committed_mutations\<close> through the pointer \<open>check_authority_locked\<close> hands out.\<close>

definition on_publisher :: "string \<Rightarrow> (publisher_state \<Rightarrow> publisher_state) \<Rightarrow> engine \<Rightarrow> engine" where
  "on_publisher p f e =
     (case Mapping.lookup (en_publishers e) p of
        None \<Rightarrow> e
      | Some s \<Rightarrow> e\<lparr>en_publishers := Mapping.update p (f s) (en_publishers e)\<rparr>)"

definition publisher_committed :: "string \<Rightarrow> engine \<Rightarrow> engine" where
  "publisher_committed p = on_publisher p (\<lambda>s. s\<lparr>pb_committed := pb_committed s + 1\<rparr>)"

definition publisher_rejected :: "string \<Rightarrow> engine \<Rightarrow> engine" where
  "publisher_rejected p = on_publisher p (\<lambda>s. s\<lparr>pb_rejected := pb_rejected s + 1\<rparr>)"

text \<open>A status with its fields, in the order of the \<open>with\<close> calls.\<close>

definition explain :: "outcome \<Rightarrow> string \<Rightarrow> (string \<times> string) list \<Rightarrow> status" where
  "explain v code fs = fold (\<lambda>f s. with_field s (fst f) (snd f)) fs (make_status v code)"

lemma fold_with_field [outcome_simps]:
  "outcome_of (fold (\<lambda>f s. with_field s (fst f) (snd f)) fs s) = outcome_of s"
  "code_of (fold (\<lambda>f s. with_field s (fst f) (snd f)) fs s) = code_of s"
  by (induction fs arbitrary: s) simp_all

lemma outcome_explain [outcome_simps, simp]: "outcome_of (explain v code fs) = v" "code_of (explain v code fs) = code"
  by (simp_all add: explain_def fold_with_field)

subsubsection \<open>Durability\<close>

text \<open>What the file system answers when \<open>write_file_atomic\<close> writes the temporary file and renames
  it over the image. Which answer a write gets is the parameter \<open>io\<close> of every mutation.\<close>

datatype file_result = Written | Open_failed | Write_failed | Rename_failed string

definition write_file_atomic :: "string \<Rightarrow> file_result \<Rightarrow> status" where
  "write_file_atomic path r =
     (case r of
        Written \<Rightarrow> make_status O_Ok ''persistence.ok''
      | Open_failed \<Rightarrow> explain O_PersistenceIoFailure ''persistence.open_failed'' [(''path'', path @ ''.tmp'')]
      | Write_failed \<Rightarrow> explain O_PersistenceIoFailure ''persistence.write_failed'' [(''path'', path @ ''.tmp'')]
      | Rename_failed detail \<Rightarrow> explain O_PersistenceIoFailure ''persistence.rename_failed'' [(''path'', path), (''detail'', detail)])"

definition persist_locked :: "(engine \<Rightarrow> file_result) \<Rightarrow> engine \<Rightarrow> status" where
  "persist_locked io e =
     (if en_persistence_path e = [] then make_status O_Ok ''persistence.disabled''
      else write_file_atomic (en_persistence_path e) (io e))"

lemma persist_outcome: "outcome_of (persist_locked io e) = O_Ok \<or> outcome_of (persist_locked io e) = O_PersistenceIoFailure"
  by (simp add: persist_locked_def write_file_atomic_def split: file_result.split)

lemma persist_failed:
  assumes "outcome_of (persist_locked io e) \<noteq> O_Ok"
  shows "en_persistence_path e \<noteq> [] \<and> (\<exists>x. io x \<noteq> Written)"
proof -
  have "en_persistence_path e \<noteq> []" using assms by (auto simp: persist_locked_def)
  moreover have "io e \<noteq> Written" using assms by (auto simp: persist_locked_def write_file_atomic_def split: if_splits)
  ultimately show ?thesis by blast
qed

lemma persist_not_success [simp]:
  "outcome_of (persist_locked io e) \<noteq> O_Committed" "outcome_of (persist_locked io e) \<noteq> O_Idempotent"
  using persist_outcome [of io e] by auto

subsubsection \<open>Authority\<close>

record authority_context =
  au_coordinator_epoch :: u64
  au_publisher :: string
  au_worker_boot :: string
  au_evidence_generation :: u64
  au_attempt :: string
  au_publication :: string

definition boot_is_fenced :: "engine \<Rightarrow> string \<Rightarrow> bool" where
  "boot_is_fenced e boot = (boot \<in> en_fenced_boots e)"

definition check_registration :: "engine \<Rightarrow> authority_context \<Rightarrow> publisher_state \<Rightarrow> string \<Rightarrow> grant_mode \<Rightarrow> status" where
  "check_registration e au s domain_id required =
     (if pb_worker_boot s \<noteq> au_worker_boot au
      then explain O_StaleWorkerBoot ''authority.worker_boot_mismatch''
             [(''registered_boot'', pb_worker_boot s), (''request_boot'', au_worker_boot au)]
      else if pb_coordinator_epoch s \<noteq> en_epoch e
      then explain O_StaleAuthority ''authority.registration_stale''
             [(''registration_epoch'', u64_string (pb_coordinator_epoch s)), (''current_epoch'', u64_string (en_epoch e))]
      else if pb_fenced s
      then explain O_StaleAuthority ''authority.publisher_fenced''
             ((''publisher'', pb_publisher s) # (if pb_fence_reason s \<noteq> [] then [(''fence_reason'', pb_fence_reason s)] else []))
      else if grant_for s domain_id < required
      then explain O_UnauthorizedScope ''authority.scope_not_granted''
             [(''publisher'', pb_publisher s), (''domain'', domain_id),
              (''granted'', grant_mode_string (grant_for s domain_id)), (''required'', grant_mode_string required)]
      else make_status O_Ok ''authority.ok'')"

definition check_authority :: "engine \<Rightarrow> authority_context \<Rightarrow> string \<Rightarrow> grant_mode \<Rightarrow> status" where
  "check_authority e au domain_id required =
     (if au_publisher au = [] then make_status O_MalformedRequest ''authority.publisher_missing''
      else if au_worker_boot au = [] then make_status O_MalformedRequest ''authority.worker_boot_missing''
      else if au_coordinator_epoch au \<noteq> en_epoch e
      then explain O_StaleCoordinatorEpoch ''authority.epoch_stale''
             [(''request_epoch'', u64_string (au_coordinator_epoch au)), (''current_epoch'', u64_string (en_epoch e))]
      else if boot_is_fenced e (au_worker_boot au)
      then explain O_StaleWorkerBoot ''authority.worker_boot_fenced'' [(''worker_boot'', au_worker_boot au)]
      else case Mapping.lookup (en_publishers e) (au_publisher au) of
        None \<Rightarrow> explain O_StaleAuthority ''authority.publisher_unregistered'' [(''publisher'', au_publisher au)]
      | Some s \<Rightarrow> check_registration e au s domain_id required)"

definition authorised :: "engine \<Rightarrow> authority_context \<Rightarrow> string \<Rightarrow> grant_mode \<Rightarrow> bool" where
  "authorised e au domain_id required = (outcome_of (check_authority e au domain_id required) = O_Ok)"

lemma authorised_iff:
  "authorised e au d m \<longleftrightarrow>
   au_publisher au \<noteq> [] \<and> au_worker_boot au \<noteq> [] \<and> au_coordinator_epoch au = en_epoch e \<and>
   au_worker_boot au \<notin> en_fenced_boots e \<and>
   (\<exists>s. Mapping.lookup (en_publishers e) (au_publisher au) = Some s \<and> pb_worker_boot s = au_worker_boot au \<and>
      pb_coordinator_epoch s = en_epoch e \<and> \<not> pb_fenced s \<and> m \<le> grant_for s d)"
  by (auto simp: authorised_def check_authority_def check_registration_def boot_is_fenced_def not_less
      split: option.splits)

text \<open>C29: a mutation is authorised exactly when it names a publisher and a worker boot, carries the
  current coordinator epoch, its boot has never been fenced, and that publisher is registered
  under this very boot and epoch, is not fenced and holds some grant of the required strength for
  the domain.\<close>

theorem authority_check_exact:
  "outcome_of (check_authority e au d m) = O_Ok \<longleftrightarrow>
   au_publisher au \<noteq> [] \<and> au_worker_boot au \<noteq> [] \<and> au_coordinator_epoch au = en_epoch e \<and>
   au_worker_boot au \<notin> en_fenced_boots e \<and>
   (\<exists>s. Mapping.lookup (en_publishers e) (au_publisher au) = Some s \<and> pb_worker_boot s = au_worker_boot au \<and>
      pb_coordinator_epoch s = en_epoch e \<and> \<not> pb_fenced s \<and>
      (m = GM_None \<or> (\<exists>grant \<in> set (pb_grants s). sg_domain grant = d \<and> m \<le> sg_mode grant)))"
  using authorised_iff [of e au d m] unfolding authorised_def grant_for_ge by simp

end
