(* ===== verification/Integrity.thy ===== *)
theory Integrity
  imports Graph_State
begin

text \<open>
  The integrity self-check of the graph (\<open>GraphState::rebuild_indexes\<close>,
  \<open>GraphState::verify_indexes\<close> in \<open>src/graph_state.cpp\<close>): rebuilding every derived index from
  the records gives the maintained indexes back, whatever order the hash maps are visited in,
  and the check accepts exactly the graphs whose indexes agree with their records.
\<close>

subsection \<open>Rebuilding\<close>

definition clear_indexes :: "graph \<Rightarrow> graph" where
  "clear_indexes g = g\<lparr>g_node_by_entity := Mapping.empty, g_edge_by_key := Mapping.empty,
     g_edge_by_relationship := Mapping.empty, g_incident := Mapping.empty, g_outgoing := Mapping.empty,
     g_incoming := Mapping.empty, g_domains := Mapping.empty, g_edge_by_relation := Mapping.empty,
     g_edge_by_layer := Mapping.empty, g_edge_by_lifecycle := Mapping.empty,
     g_edge_by_publisher := Mapping.empty, g_edge_by_attachment := Mapping.empty\<rparr>"

text \<open>\<open>domains[entry.first];\<close>\<close>

definition touch_domain :: "string \<Rightarrow> graph \<Rightarrow> graph" where
  "touch_domain d g =
     (if has_key (g_domains g) d then g else g\<lparr>g_domains := Mapping.update d empty_domain_index (g_domains g)\<rparr>)"

definition index_node_at :: "string \<Rightarrow> graph \<Rightarrow> graph" where
  "index_node_at i g = (case find_node g i of Some n \<Rightarrow> index_node n g | None \<Rightarrow> g)"

definition index_edge_at :: "string \<Rightarrow> graph \<Rightarrow> graph" where
  "index_edge_at i g = (case find_edge g i of Some e \<Rightarrow> index_edge e g | None \<Rightarrow> g)"

text \<open>The three lists are the orders in which the loops visit the declared domains, the nodes
  and the edges.\<close>

definition rebuild_indexes :: "string list \<Rightarrow> string list \<Rightarrow> string list \<Rightarrow> graph \<Rightarrow> graph" where
  "rebuild_indexes ds ns es g =
     fold index_edge_at es (fold index_node_at ns (fold touch_domain ds (clear_indexes g)))"

definition visits :: "string list \<Rightarrow> (string, 'a) mapping \<Rightarrow> bool" where
  "visits xs m = (distinct xs \<and> set xs = Mapping.keys m)"

text \<open>Records for which consistent indexes exist.\<close>

definition unique_key :: "('e \<Rightarrow> 'k) \<Rightarrow> (string, 'e) mapping \<Rightarrow> bool" where
  "unique_key key E = (\<forall>i j e f. Mapping.lookup E i = Some e \<longrightarrow> Mapping.lookup E j = Some f \<longrightarrow> key e = key f \<longrightarrow> i = j)"

lemma unique_keyD:
  "unique_key key E \<Longrightarrow> Mapping.lookup E i = Some e \<Longrightarrow> Mapping.lookup E j = Some f \<Longrightarrow> key e = key f \<Longrightarrow> i = j"
  unfolding unique_key_def by blast

lemma keyed_unique_key: "keyed key m E \<Longrightarrow> unique_key key E"
  by (auto simp: unique_key_def intro: keyed_inj)

definition records_ok :: "graph \<Rightarrow> bool" where
  "records_ok g = (finite (Mapping.keys (g_nodes g)) \<and> finite (Mapping.keys (g_edges g)) \<and>
     finite (Mapping.keys (g_domain_definitions g)) \<and>
     ids_match nd_id (g_nodes g) \<and> ids_match ed_id (g_edges g) \<and>
     unique_key nd_entity_id (g_nodes g) \<and> unique_key edge_key_of (g_edges g) \<and>
     unique_key ed_relationship_id (g_edges g) \<and>
     (\<forall>i e. Mapping.lookup (g_edges g) i = Some e \<longrightarrow> secondary_declared (g_domain_definitions g) e))"

lemma graph_inv_iff_records: "graph_inv g \<longleftrightarrow> records_ok g \<and> indexes_ok g"
  by (auto simp: graph_inv_def records_ok_def indexes_ok_def intro: keyed_unique_key)

subsubsection \<open>Indexing commutes with replacing the records\<close>

lemma index_edge_set_edges: "index_edge e (h\<lparr>g_edges := X\<rparr>) = (index_edge e h)\<lparr>g_edges := X\<rparr>"
  by (simp add: index_edge_def)

lemma index_node_set_nodes: "index_node n (h\<lparr>g_nodes := X, g_edges := Y\<rparr>) = (index_node n h)\<lparr>g_nodes := X, g_edges := Y\<rparr>"
  by (simp add: index_node_def)

lemma index_edge_insert:
  "find_edge h (ed_id e) = None \<Longrightarrow>
   index_edge e (h\<lparr>g_edges := X\<rparr>) = (snd (insert_edge e h))\<lparr>g_edges := X\<rparr>"
  by (simp add: index_edge_set_edges insert_edge_def has_key_def find_defs)

lemma index_node_insert:
  "find_node h (nd_id n) = None \<Longrightarrow>
   index_node n (h\<lparr>g_nodes := X, g_edges := Y\<rparr>) = (snd (insert_node n h))\<lparr>g_nodes := X, g_edges := Y\<rparr>"
  by (simp add: index_node_set_nodes insert_node_def has_key_def find_defs)

text \<open>The graph built so far: the records of \<open>g\<close> whose identifiers are in the two sets.\<close>

definition restrict_map :: "string set \<Rightarrow> (string, 'a) mapping \<Rightarrow> (string, 'a) mapping" where
  "restrict_map A m = Mapping.filter (\<lambda>k _. k \<in> A) m"

lemma lookup_restrict [lookup_simps]:
  "Mapping.lookup (restrict_map A m) i = (if i \<in> A then Mapping.lookup m i else None)"
  by (simp add: restrict_map_def Mapping.lookup_filter split: option.splits)

lemma restrict_empty [simp]: "restrict_map {} m = Mapping.empty"
  by (rule mapping_eqI) (simp add: lookup_simps)

lemma restrict_all: "Mapping.keys m \<subseteq> A \<Longrightarrow> restrict_map A m = m"
proof (rule mapping_eqI)
  fix k
  assume "Mapping.keys m \<subseteq> A"
  then show "Mapping.lookup (restrict_map A m) k = Mapping.lookup m k"
    by (cases "Mapping.lookup m k") (auto simp: lookup_simps dest: mem_keys_Some)
qed

lemma restrict_insert:
  "Mapping.lookup m i = Some v \<Longrightarrow> restrict_map (insert i A) m = Mapping.update i v (restrict_map A m)"
  by (rule mapping_eqI) (auto simp: lookup_simps)

definition part_of :: "graph \<Rightarrow> string set \<Rightarrow> string set \<Rightarrow> graph \<Rightarrow> bool" where
  "part_of g A B h = (graph_inv h \<and> base_frame h = base_frame g \<and>
     g_nodes h = restrict_map A (g_nodes g) \<and> g_edges h = restrict_map B (g_edges g))"

lemma part_of_add_edge:
  assumes r: "records_ok g" and part: "part_of g A B h" and i: "i \<notin> B" "find_edge g i = Some e"
  shows "part_of g A (insert i B) (snd (insert_edge e h))" and "find_edge h (ed_id e) = None"
proof -
  have id: "ed_id e = i" using r i by (auto simp: records_ok_def find_defs dest: ids_matchD)
  have E: "Mapping.lookup (g_edges h) j = (if j \<in> B then Mapping.lookup (g_edges g) j else None)" for j
    using part by (simp add: part_of_def find_defs lookup_simps)
  show fresh: "find_edge h (ed_id e) = None" using i by (simp add: E id find_defs)
  have inv: "graph_inv h" using part by (simp add: part_of_def)
  have "find_edge_by_key h (edge_key_of e) \<noteq> Some j" for j
    using edge_by_key_stored [OF inv, of "edge_key_of e" j] i r
    by (auto simp: E records_ok_def find_defs split: if_splits dest: unique_keyD)
  moreover have "find_edge_by_relationship h (ed_relationship_id e) \<noteq> Some j" for j
    using edge_by_relationship_stored [OF inv, of "ed_relationship_id e" j] i r
    by (auto simp: E records_ok_def find_defs split: if_splits dest: unique_keyD)
  moreover have "secondary_declared (g_domain_definitions h) e"
    using r part i by (auto simp: records_ok_def part_of_def base_frame_iff find_defs)
  ultimately have "graph_inv (snd (insert_edge e h))"
    by (intro insert_edge_inv inv fresh) auto
  then show "part_of g A (insert i B) (snd (insert_edge e h))"
    using part fresh i(2)
    by (simp add: part_of_def frame_simps lookup_simps has_key_def restrict_insert find_defs id)
qed

lemma part_of_add_node:
  assumes r: "records_ok g" and part: "part_of g A B h" and i: "i \<notin> A" "find_node g i = Some n"
  shows "part_of g (insert i A) B (snd (insert_node n h))" and "find_node h (nd_id n) = None"
proof -
  have id: "nd_id n = i" using r i by (auto simp: records_ok_def find_defs dest: ids_matchD)
  have N: "Mapping.lookup (g_nodes h) j = (if j \<in> A then Mapping.lookup (g_nodes g) j else None)" for j
    using part by (simp add: part_of_def find_defs lookup_simps)
  show fresh: "find_node h (nd_id n) = None" using i by (simp add: N id find_defs)
  have inv: "graph_inv h" using part by (simp add: part_of_def)
  have "find_node_by_entity h (nd_entity_id n) \<noteq> Some j" for j
    using node_by_entity_stored [OF inv, of "nd_entity_id n" j] i r
    by (auto simp: N records_ok_def find_defs split: if_splits dest: unique_keyD)
  then have "graph_inv (snd (insert_node n h))" by (intro insert_node_inv inv fresh) auto
  then show "part_of g (insert i A) B (snd (insert_node n h))"
    using part fresh i(2)
    by (simp add: part_of_def frame_simps lookup_simps has_key_def restrict_insert find_defs id)
qed

definition with_records :: "graph \<Rightarrow> graph \<Rightarrow> graph" where
  "with_records g h = h\<lparr>g_nodes := g_nodes g, g_edges := g_edges g\<rparr>"

lemma fold_index_edges:
  assumes r: "records_ok g"
  shows "part_of g A B h \<Longrightarrow> distinct es \<Longrightarrow> set es \<inter> B = {} \<Longrightarrow> set es \<subseteq> Mapping.keys (g_edges g) \<Longrightarrow>
    \<exists>h'. part_of g A (B \<union> set es) h' \<and> fold index_edge_at es (with_records g h) = with_records g h'"
proof (induction es arbitrary: B h)
  case Nil
  then show ?case by auto
next
  case (Cons i es)
  then obtain e where e: "find_edge g i = Some e" by (auto simp: mem_keys_iff find_defs)
  note step = part_of_add_edge [OF r Cons.prems(1) _ e]
  have "index_edge_at i (with_records g h) = with_records g (snd (insert_edge e h))"
    using e step(2) Cons.prems(3)
    by (simp add: index_edge_at_def with_records_def find_defs index_edge_insert
        index_edge_insert [of "h\<lparr>g_nodes := g_nodes g\<rparr>"]) (simp add: insert_edge_def index_edge_def)
  then show ?case using Cons.IH [OF step(1)] Cons.prems by (auto simp: Un_insert_right)
qed

lemma fold_index_nodes:
  assumes r: "records_ok g"
  shows "part_of g A B h \<Longrightarrow> distinct ns \<Longrightarrow> set ns \<inter> A = {} \<Longrightarrow> set ns \<subseteq> Mapping.keys (g_nodes g) \<Longrightarrow>
    \<exists>h'. part_of g (A \<union> set ns) B h' \<and> fold index_node_at ns (with_records g h) = with_records g h'"
proof (induction ns arbitrary: A h)
  case Nil
  then show ?case by auto
next
  case (Cons i ns)
  then obtain n where n: "find_node g i = Some n" by (auto simp: mem_keys_iff find_defs)
  note step = part_of_add_node [OF r Cons.prems(1) _ n]
  have "index_node_at i (with_records g h) = with_records g (snd (insert_node n h))"
    using n step(2) Cons.prems(3) by (simp add: index_node_at_def with_records_def find_defs index_node_insert)
  then show ?case using Cons.IH [OF step(1)] Cons.prems by (auto simp: Un_insert_right)
qed

lemma touch_domain_cases:
  "has_key (g_domains g) d \<Longrightarrow> touch_domain d g = g"
  "\<not> has_key (g_domains g) d \<Longrightarrow>
   touch_domain d g = g\<lparr>g_domains := Mapping.update d empty_domain_index (g_domains g)\<rparr>"
  by (simp_all add: touch_domain_def)

lemma fold_touch_domains:
  "\<exists>doms. fold touch_domain ds g = g\<lparr>g_domains := doms\<rparr> \<and>
     (\<forall>d. Mapping.lookup doms d = (if d \<in> set ds \<and> \<not> has_key (g_domains g) d then Some empty_domain_index
        else Mapping.lookup (g_domains g) d))"
proof (induction ds arbitrary: g)
  case Nil
  then show ?case by (auto intro: exI [of _ "g_domains g"])
next
  case (Cons d ds)
  obtain doms where "fold touch_domain ds (touch_domain d g) = (touch_domain d g)\<lparr>g_domains := doms\<rparr>"
    "\<forall>d'. Mapping.lookup doms d' = (if d' \<in> set ds \<and> \<not> has_key (g_domains (touch_domain d g)) d'
      then Some empty_domain_index else Mapping.lookup (g_domains (touch_domain d g)) d')"
    using Cons.IH by blast
  then show ?case
    by (intro exI [of _ doms], cases "has_key (g_domains g) d")
      (auto simp: touch_domain_cases has_key_update, auto simp: has_key_def lookup_simps)
qed

lemma part_of_touched:
  assumes r: "records_ok g" and ds: "visits ds (g_domain_definitions g)"
  shows "\<exists>h. part_of g {} {} h \<and> fold touch_domain ds (clear_indexes g) = with_records g h"
proof -
  obtain doms where doms: "fold touch_domain ds (clear_indexes g) = (clear_indexes g)\<lparr>g_domains := doms\<rparr>"
    "\<forall>d. Mapping.lookup doms d = (if d \<in> set ds then Some empty_domain_index else None)"
    using fold_touch_domains [of ds "clear_indexes g"] by (auto simp: clear_indexes_def lookup_simps)
  let ?h = "(clear_indexes g)\<lparr>g_domains := doms, g_nodes := Mapping.empty, g_edges := Mapping.empty\<rparr>"
  have "domain_at doms d = empty_domain_index" for d by (simp add: domain_at_def doms(2))
  then have "domains_ok (g_domain_definitions g) doms Mapping.empty Mapping.empty"
    using ds by (auto simp: domains_ok_def present_def doms(2) has_key_def visits_def mem_keys_iff filed_def
        lookup_simps empty_domain_index_def)
  then have "part_of g {} {} ?h"
    using r by (simp add: part_of_def graph_inv_def indexes_ok_def records_ok_def clear_indexes_def base_frame_def lookup_simps)
  moreover have "fold touch_domain ds (clear_indexes g) = with_records g ?h"
    unfolding doms(1) by (cases g) (simp add: with_records_def clear_indexes_def)
  ultimately show ?thesis by blast
qed

lemma rebuild_consistent:
  assumes r: "records_ok g" and visits: "visits ds (g_domain_definitions g)" "visits ns (g_nodes g)" "visits es (g_edges g)"
  shows "graph_inv (rebuild_indexes ds ns es g) \<and> base_frame (rebuild_indexes ds ns es g) = base_frame g \<and>
    g_nodes (rebuild_indexes ds ns es g) = g_nodes g \<and> g_edges (rebuild_indexes ds ns es g) = g_edges g"
proof -
  obtain h1 where h1: "part_of g {} {} h1" "fold touch_domain ds (clear_indexes g) = with_records g h1"
    using part_of_touched [OF r visits(1)] by blast
  obtain h2 where h2: "part_of g (set ns) {} h2" "fold index_node_at ns (with_records g h1) = with_records g h2"
    using fold_index_nodes [OF r h1(1), of ns] visits(2) by (auto simp: visits_def)
  obtain h3 where h3: "part_of g (set ns) (set es) h3" "fold index_edge_at es (with_records g h2) = with_records g h3"
    using fold_index_edges [OF r h2(1), of es] visits(3) by (auto simp: visits_def)
  have N: "g_nodes h3 = g_nodes g" and E: "g_edges h3 = g_edges g"
    using h3(1) visits by (simp_all add: part_of_def visits_def restrict_all)
  then have "rebuild_indexes ds ns es g = h3"
    by (simp add: rebuild_indexes_def h1(2) h2(2) h3(2)) (simp add: with_records_def flip: N E)
  then show ?thesis using h3(1) N E by (simp add: part_of_def)
qed

subsection \<open>The integrity check\<close>

definition index_failure :: "string \<Rightarrow> status" where
  "index_failure code = make_status O_StructuralInvariantViolation code"

text \<open>\<open>maps_equal\<close> and \<open>bucket_maps_equal\<close> compare the sizes and then look every entry of the
  first map up in the second.\<close>

definition maps_equal :: "('k, 'v) mapping \<Rightarrow> ('k, 'v) mapping \<Rightarrow> bool" where
  "maps_equal a b = (map_size a = map_size b \<and>
     (\<forall>k \<in> Mapping.keys a. Mapping.lookup b k \<noteq> None \<and> Mapping.lookup b k = Mapping.lookup a k))"

definition sorted_edges_of :: "string buckets \<Rightarrow> string \<Rightarrow> string list" where
  "sorted_edges_of m k = (case Mapping.lookup m k of None \<Rightarrow> [] | Some ids \<Rightarrow> sorted_list_of_set ids)"

definition adjacency_equal :: "string buckets \<Rightarrow> string buckets \<Rightarrow> bool" where
  "adjacency_equal a ref = (\<forall>k \<in> Mapping.keys ref. sorted_edges_of a k = sorted_edges_of ref k)"

text \<open>The loop over \<open>reference.domains\<close>; the list is the order in which it visits them.\<close>

fun compare_domains :: "string list \<Rightarrow> domain_map \<Rightarrow> domain_map \<Rightarrow> status option" where
  "compare_domains [] a ref = None"
| "compare_domains (d # ds) a ref =
     (case Mapping.lookup a d of
        None \<Rightarrow> Some (index_failure ''index.domain_missing'')
      | Some x \<Rightarrow>
          (if di_nodes x \<noteq> di_nodes (domain_at ref d) \<or> di_edges x \<noteq> di_edges (domain_at ref d)
           then Some (index_failure ''index.domain_membership'')
           else compare_domains ds a ref))"

definition reference_graph :: "graph \<Rightarrow> graph" where
  "reference_graph g = (new_graph (g_limits g))\<lparr>g_nodes := g_nodes g, g_edges := g_edges g,
     g_domain_definitions := g_domain_definitions g\<rparr>"

definition rebuilt_reference :: "graph \<Rightarrow> graph" where
  "rebuilt_reference g = rebuild_indexes (Mapping.ordered_keys (g_domain_definitions g))
     (Mapping.ordered_keys (g_nodes g)) (Mapping.ordered_keys (g_edges g)) (reference_graph g)"

definition compare_indexes :: "graph \<Rightarrow> graph \<Rightarrow> status" where
  "compare_indexes g ref =
     (if \<not> maps_equal (g_node_by_entity g) (g_node_by_entity ref) then index_failure ''index.node_by_entity''
      else if \<not> maps_equal (g_edge_by_key g) (g_edge_by_key ref) then index_failure ''index.edge_by_key''
      else if \<not> maps_equal (g_edge_by_relationship g) (g_edge_by_relationship ref)
        then index_failure ''index.edge_by_relationship''
      else if \<not> maps_equal (g_edge_by_relation g) (g_edge_by_relation ref) then index_failure ''index.edge_by_relation''
      else if \<not> maps_equal (g_edge_by_layer g) (g_edge_by_layer ref) then index_failure ''index.edge_by_layer''
      else if \<not> maps_equal (g_edge_by_lifecycle g) (g_edge_by_lifecycle ref) then index_failure ''index.edge_by_lifecycle''
      else if \<not> maps_equal (g_edge_by_publisher g) (g_edge_by_publisher ref) then index_failure ''index.edge_by_publisher''
      else if \<not> maps_equal (g_edge_by_attachment g) (g_edge_by_attachment ref) then index_failure ''index.edge_by_attachment''
      else if map_size (g_incident g) \<noteq> map_size (g_incident ref) \<or> map_size (g_outgoing g) \<noteq> map_size (g_outgoing ref) \<or>
          map_size (g_incoming g) \<noteq> map_size (g_incoming ref)
        then index_failure ''index.adjacency_size''
      else if \<not> adjacency_equal (g_incident g) (g_incident ref) then index_failure ''index.incident''
      else if \<not> adjacency_equal (g_outgoing g) (g_outgoing ref) then index_failure ''index.outgoing''
      else if \<not> adjacency_equal (g_incoming g) (g_incoming ref) then index_failure ''index.incoming''
      else if map_size (g_domains g) \<noteq> map_size (g_domains ref) then index_failure ''index.domains_size''
      else case compare_domains (Mapping.ordered_keys (g_domains ref)) (g_domains g) (g_domains ref) of
          Some failure \<Rightarrow> failure
        | None \<Rightarrow> make_status O_Ok ''index.ok'')"

definition verify_indexes :: "graph \<Rightarrow> status" where
  "verify_indexes g = compare_indexes g (rebuilt_reference g)"

subsubsection \<open>What the comparisons decide\<close>

definition finite_map :: "('k, 'v) mapping \<Rightarrow> bool" where
  "finite_map m = finite (Mapping.keys m)"

text \<open>Every container of the program is finite; a HOL map need not be.\<close>

definition finite_indexes :: "graph \<Rightarrow> bool" where
  "finite_indexes g = (finite_map (g_node_by_entity g) \<and> finite_map (g_edge_by_key g) \<and>
     finite_map (g_edge_by_relationship g) \<and> finite_map (g_edge_by_relation g) \<and> finite_map (g_edge_by_layer g) \<and>
     finite_map (g_edge_by_lifecycle g) \<and> finite_map (g_edge_by_publisher g) \<and> finite_map (g_edge_by_attachment g) \<and>
     finite_map (g_incident g) \<and> finite_map (g_outgoing g) \<and> finite_map (g_incoming g) \<and> finite_map (g_domains g) \<and>
     (\<forall>k. finite (bucket (g_incident g) k) \<and> finite (bucket (g_outgoing g) k) \<and> finite (bucket (g_incoming g) k)))"

lemma keys_eq_of_sizes:
  assumes "finite_map a" "finite_map b" "map_size a = map_size b" "Mapping.keys a \<subseteq> Mapping.keys b"
  shows "Mapping.keys a = Mapping.keys b"
  using assms by (intro card_subset_eq) (auto simp: finite_map_def map_size_def Mapping.size_def)

lemma lookup_bucket: "k \<in> Mapping.keys m \<Longrightarrow> Mapping.lookup m k = Some (bucket m k)"
  by (auto simp: bucket_def mem_keys_iff)

lemma lookup_domain: "k \<in> Mapping.keys m \<Longrightarrow> Mapping.lookup m k = Some (domain_at m k)"
  by (auto simp: domain_at_def mem_keys_iff)

lemma lookup_outside: "k \<notin> Mapping.keys m \<Longrightarrow> Mapping.lookup m k = None"
  by (simp add: mem_keys_iff)

lemma maps_equal_iff:
  assumes "finite_map a" "finite_map b"
  shows "maps_equal a b \<longleftrightarrow> a = b"
proof
  assume eq: "maps_equal a b"
  then have "Mapping.keys a = Mapping.keys b"
    using assms by (intro keys_eq_of_sizes) (auto simp: maps_equal_def mem_keys_iff)
  show "a = b"
  proof (rule mapping_eqI)
    fix k
    show "Mapping.lookup a k = Mapping.lookup b k"
      using eq \<open>Mapping.keys a = Mapping.keys b\<close>
      by (cases "k \<in> Mapping.keys a") (auto simp: maps_equal_def lookup_outside)
  qed
qed (auto simp: maps_equal_def mem_keys_iff)

lemma sorted_edges_of_bucket: "sorted_edges_of m k = sorted_list_of_set (bucket m k)"
  by (simp add: sorted_edges_of_def bucket_def split: option.splits)

lemma adjacency_equal_iff:
  assumes fin: "finite_map a" "finite_map ref" "\<And>k. finite (bucket a k)" "\<And>k. finite (bucket ref k)" and tight: "tight ref"
  shows "map_size a = map_size ref \<and> adjacency_equal a ref \<longleftrightarrow> a = ref"
proof (intro iffI conjI)
  assume eq: "map_size a = map_size ref \<and> adjacency_equal a ref"
  have b: "bucket a k = bucket ref k" if "k \<in> Mapping.keys ref" for k
    using eq that fin(3,4) [of k] sorted_list_of_set_inject
    by (auto simp: adjacency_equal_def sorted_edges_of_bucket)
  have "Mapping.keys ref \<subseteq> Mapping.keys a"
  proof
    fix k
    assume k: "k \<in> Mapping.keys ref"
    then have "bucket a k \<noteq> {}" using tight b [OF k] by (auto simp: tight_lookup mem_keys_iff split: if_splits)
    then show "k \<in> Mapping.keys a" by (auto simp: bucket_def mem_keys_iff split: option.splits)
  qed
  then have keys: "Mapping.keys ref = Mapping.keys a" using eq fin by (intro keys_eq_of_sizes) auto
  show "a = ref"
  proof (rule mapping_eqI)
    fix k
    show "Mapping.lookup a k = Mapping.lookup ref k"
      using b [of k] keys by (cases "k \<in> Mapping.keys ref") (auto simp: lookup_bucket lookup_outside)
  qed
qed (auto simp: adjacency_equal_def)

lemma compare_domains_None:
  "compare_domains ds a ref = None \<longleftrightarrow> (\<forall>d \<in> set ds. Mapping.lookup a d = Some (domain_at ref d))"
  by (induction ds) (auto split: option.splits simp: domain_index.equality)

lemma compare_domains_outcome:
  "compare_domains ds a ref = Some s \<Longrightarrow> outcome_of s = O_StructuralInvariantViolation"
  by (induction ds) (auto simp: index_failure_def split: option.splits if_splits)

lemma domain_equal_iff:
  assumes fin: "finite_map a" "finite_map ref"
  shows "map_size a = map_size ref \<and> compare_domains (Mapping.ordered_keys ref) a ref = None \<longleftrightarrow> a = ref"
proof (intro iffI conjI)
  assume eq: "map_size a = map_size ref \<and> compare_domains (Mapping.ordered_keys ref) a ref = None"
  then have same: "Mapping.lookup a k = Some (domain_at ref k)" if "k \<in> Mapping.keys ref" for k
    using that fin by (simp add: compare_domains_None finite_map_def)
  then have keys: "Mapping.keys ref = Mapping.keys a"
    using eq fin by (intro keys_eq_of_sizes) (auto simp: mem_keys_iff)
  show "a = ref"
  proof (rule mapping_eqI)
    fix k
    show "Mapping.lookup a k = Mapping.lookup ref k"
      using keys same [of k] by (cases "k \<in> Mapping.keys ref") (auto simp: lookup_domain lookup_outside)
  qed
qed (use fin in \<open>auto simp: compare_domains_None finite_map_def lookup_domain\<close>)

subsubsection \<open>Consistent graphs have finite indexes\<close>

lemma finite_keyed: "keyed key m E \<Longrightarrow> finite (Mapping.keys E) \<Longrightarrow> finite_map m"
proof -
  assume k: "keyed key m E" and fin: "finite (Mapping.keys E)"
  have "Mapping.keys m \<subseteq> (\<lambda>i. key (the (Mapping.lookup E i))) ` Mapping.keys E"
  proof
    fix x
    assume "x \<in> Mapping.keys m"
    then obtain i e where "Mapping.lookup E i = Some e" "key e = x"
      using keyedD [OF k, of x] by (auto simp: mem_keys_iff)
    then show "x \<in> (\<lambda>i. key (the (Mapping.lookup E i))) ` Mapping.keys E"
      by (force simp: mem_keys_iff image_iff)
  qed
  then show "finite_map m" unfolding finite_map_def by (rule finite_subset) (simp add: fin)
qed

lemma filed_finite: "finite (Mapping.keys E) \<Longrightarrow> finite (filed keys E k)"
  by (rule finite_subset [of _ "Mapping.keys E"]) (auto simp: filed_def mem_keys_iff)

lemma files_bucket_finite: "files keys m E \<Longrightarrow> finite (Mapping.keys E) \<Longrightarrow> finite (bucket m k)"
  by (simp add: files_def filed_finite)

lemma finite_files:
  assumes f: "files keys m E" and fin: "finite (Mapping.keys E)" "\<And>e. finite (keys e)"
  shows "finite_map m"
proof -
  have "Mapping.keys m \<subseteq> (\<Union>i \<in> Mapping.keys E. keys (the (Mapping.lookup E i)))"
  proof
    fix k
    assume "k \<in> Mapping.keys m"
    then have "bucket m k \<noteq> {}" using f by (auto simp: files_def tight_lookup mem_keys_iff split: if_splits)
    then obtain i where "i \<in> bucket m k" by blast
    then show "k \<in> (\<Union>i \<in> Mapping.keys E. keys (the (Mapping.lookup E i)))"
      using filesD [OF f] by (force simp: mem_keys_iff)
  qed
  then show ?thesis unfolding finite_map_def by (rule finite_subset) (simp add: fin)
qed

lemma domains_ok_finite:
  assumes ok: "domains_ok defs doms N E" and fin: "finite (Mapping.keys defs)" "finite (Mapping.keys N)" "finite (Mapping.keys E)"
  shows "finite_map doms"
proof -
  have "Mapping.keys doms \<subseteq> Mapping.keys defs \<union> (\<lambda>i. nd_domain (the (Mapping.lookup N i))) ` Mapping.keys N \<union>
      (\<Union>i \<in> Mapping.keys E. edge_domains (the (Mapping.lookup E i)))"
  proof
    fix d
    assume "d \<in> Mapping.keys doms"
    then have "has_key defs d \<or> filed (\<lambda>n. {nd_domain n}) N d \<noteq> {} \<or> filed edge_domains E d \<noteq> {}"
      using ok by (auto simp: domains_ok_def present_def domain_index_cases has_key_def mem_keys_iff)
    then have "d \<in> Mapping.keys defs \<or> (\<exists>i n. Mapping.lookup N i = Some n \<and> nd_domain n = d) \<or>
        (\<exists>i e. Mapping.lookup E i = Some e \<and> d \<in> edge_domains e)"
      by (auto simp: filed_def has_key_def mem_keys_iff)
    then show "d \<in> Mapping.keys defs \<union> (\<lambda>i. nd_domain (the (Mapping.lookup N i))) ` Mapping.keys N \<union>
      (\<Union>i \<in> Mapping.keys E. edge_domains (the (Mapping.lookup E i)))"
      by (force intro: mem_keys_Some)
  qed
  then show ?thesis
    unfolding finite_map_def by (rule finite_subset) (simp add: fin edge_domains_def)
qed

lemma key_sets_finite [simp]:
  "finite (edge_ends e)" "finite (publisher_keys e)" "finite (attachment_keys e)"
  by (simp_all add: edge_ends_def publisher_keys_def attachment_keys_def)

lemma graph_inv_finite_indexes: "graph_inv g \<Longrightarrow> finite_indexes g"
  unfolding graph_inv_def indexes_ok_def finite_indexes_def
  by (auto intro: finite_keyed files_bucket_finite domains_ok_finite
      finite_files [of edge_ends] finite_files [of "\<lambda>e. {ed_from e}"] finite_files [of "\<lambda>e. {ed_to e}"]
      finite_files [of "\<lambda>e. {relation_code (ed_relation e)}"] finite_files [of "\<lambda>e. {layer_code (ed_layer e)}"]
      finite_files [of "\<lambda>e. {lifecycle_code (ed_lifecycle e)}"] finite_files [of publisher_keys]
      finite_files [of attachment_keys])

definition same_indexes :: "graph \<Rightarrow> graph \<Rightarrow> bool" where
  "same_indexes g r = (g_node_by_entity g = g_node_by_entity r \<and> g_edge_by_key g = g_edge_by_key r \<and>
     g_edge_by_relationship g = g_edge_by_relationship r \<and> g_edge_by_relation g = g_edge_by_relation r \<and>
     g_edge_by_layer g = g_edge_by_layer r \<and> g_edge_by_lifecycle g = g_edge_by_lifecycle r \<and>
     g_edge_by_publisher g = g_edge_by_publisher r \<and> g_edge_by_attachment g = g_edge_by_attachment r \<and>
     g_incident g = g_incident r \<and> g_outgoing g = g_outgoing r \<and> g_incoming g = g_incoming r \<and>
     g_domains g = g_domains r)"

lemma same_indexes_iff:
  assumes r: "indexes_ok r" and base: "g_nodes r = g_nodes g" "g_edges r = g_edges g"
    "g_domain_definitions r = g_domain_definitions g"
  shows "same_indexes g r \<longleftrightarrow> indexes_ok g"
  using r unfolding indexes_ok_def same_indexes_def base
  by (auto intro: keyed_unique files_unique domains_ok_unique)

lemma adjacency_equal_conj:
  assumes "finite_map a" "finite_map ref" "\<And>k. finite (bucket a k)" "\<And>k. finite (bucket ref k)" "tight ref"
  shows "map_size a = map_size ref \<and> adjacency_equal a ref \<and> P \<longleftrightarrow> a = ref \<and> P"
  using adjacency_equal_iff [OF assms] by blast

lemma checks_pass:
  "outcome_of (if b then index_failure c else s) = O_Ok \<longleftrightarrow> \<not> b \<and> outcome_of s = O_Ok"
  by (simp add: index_failure_def)

lemma domain_check_passes:
  "outcome_of (case compare_domains ds a ref of Some failure \<Rightarrow> failure | None \<Rightarrow> make_status O_Ok c) = O_Ok \<longleftrightarrow>
   compare_domains ds a ref = None"
  by (auto simp: compare_domains_outcome split: option.split)

lemma compare_indexes_ok:
  assumes g: "finite_indexes g" and r: "finite_indexes r" "indexes_ok r"
  shows "outcome_of (compare_indexes g r) = O_Ok \<longleftrightarrow> same_indexes g r"
proof -
  have tight: "tight (g_incident r)" "tight (g_outgoing r)" "tight (g_incoming r)"
    using r(2) by (auto simp: indexes_ok_def files_def)
  have "outcome_of (compare_indexes g r) = O_Ok \<longleftrightarrow>
      maps_equal (g_node_by_entity g) (g_node_by_entity r) \<and> maps_equal (g_edge_by_key g) (g_edge_by_key r) \<and>
      maps_equal (g_edge_by_relationship g) (g_edge_by_relationship r) \<and>
      maps_equal (g_edge_by_relation g) (g_edge_by_relation r) \<and> maps_equal (g_edge_by_layer g) (g_edge_by_layer r) \<and>
      maps_equal (g_edge_by_lifecycle g) (g_edge_by_lifecycle r) \<and>
      maps_equal (g_edge_by_publisher g) (g_edge_by_publisher r) \<and>
      maps_equal (g_edge_by_attachment g) (g_edge_by_attachment r) \<and>
      (map_size (g_incident g) = map_size (g_incident r) \<and> adjacency_equal (g_incident g) (g_incident r)) \<and>
      (map_size (g_outgoing g) = map_size (g_outgoing r) \<and> adjacency_equal (g_outgoing g) (g_outgoing r)) \<and>
      (map_size (g_incoming g) = map_size (g_incoming r) \<and> adjacency_equal (g_incoming g) (g_incoming r)) \<and>
      (map_size (g_domains g) = map_size (g_domains r) \<and>
       compare_domains (Mapping.ordered_keys (g_domains r)) (g_domains g) (g_domains r) = None)"
    unfolding compare_indexes_def checks_pass domain_check_passes by (simp add: conj_ac)
  then show ?thesis
    using g r(1) tight by (simp add: finite_indexes_def same_indexes_def maps_equal_iff
        adjacency_equal_conj domain_equal_iff)
qed

subsection \<open>The two guarantees\<close>

text \<open>on a consistent graph, dropping every derived index and rebuilding it from the records
  gives back exactly the graph that incremental maintenance left, in whatever order the hash maps
  are visited.\<close>

theorem rebuild_indexes_identity:
  assumes "graph_inv g" "visits ds (g_domain_definitions g)" "visits ns (g_nodes g)" "visits es (g_edges g)"
  shows "rebuild_indexes ds ns es g = g"
  using assms rebuild_consistent [of g ds ns es] graph_inv_ext [of "rebuild_indexes ds ns es g" g]
  by (simp add: graph_inv_iff_records)

theorem rebuild_indexes_identity_witness:
  "rebuild_indexes [] [''n'', ''m''] [''e''] sample_graph = sample_graph"
  by (rule rebuild_indexes_identity [OF sample_graph_inv])
    (auto simp: visits_def sample_graph_records)

lemma verify_indexes_iff:
  assumes rec: "records_ok g" and fin: "finite_indexes g"
  shows "outcome_of (verify_indexes g) = O_Ok \<longleftrightarrow> indexes_ok g"
proof -
  define r where "r = rebuilt_reference g"
  have rr: "records_ok (reference_graph g)"
    using rec by (simp add: reference_graph_def records_ok_def)
  have "visits (Mapping.ordered_keys m) m" if "finite (Mapping.keys m)" for m :: "(string, 'b) mapping"
    using that by (simp add: visits_def)
  then have "graph_inv r \<and> g_nodes r = g_nodes g \<and> g_edges r = g_edges g \<and> g_domain_definitions r = g_domain_definitions g"
    using rebuild_consistent [OF rr, of "Mapping.ordered_keys (g_domain_definitions g)"
        "Mapping.ordered_keys (g_nodes g)" "Mapping.ordered_keys (g_edges g)"] rec
    by (simp add: r_def rebuilt_reference_def reference_graph_def base_frame_iff visits_def records_ok_def)
  then have r: "indexes_ok r" "finite_indexes r" and base: "g_nodes r = g_nodes g" "g_edges r = g_edges g"
    "g_domain_definitions r = g_domain_definitions g"
    by (simp_all add: graph_inv_iff_records graph_inv_finite_indexes)
  show ?thesis
    using same_indexes_iff [OF r(1) base] compare_indexes_ok [OF fin r(2,1)]
    by (simp add: verify_indexes_def flip: r_def)
qed

lemma verify_indexes_consistent: "graph_inv g \<Longrightarrow> outcome_of (verify_indexes g) = O_Ok"
  using verify_indexes_iff [of g] graph_inv_finite_indexes [of g] by (simp add: graph_inv_iff_records)

text \<open>C36: the integrity check is sound and complete. For records that can be indexed at all it
  answers OK exactly when every derived index agrees with the records, so it misses no drift and
  raises no false alarm.\<close>

theorem verify_indexes_exact:
  assumes "records_ok g" and "finite_indexes g"
  shows "outcome_of (verify_indexes g) = O_Ok \<longleftrightarrow> indexes_ok g"
  using assms by (rule verify_indexes_iff)

theorem verify_indexes_exact_witness:
  "outcome_of (verify_indexes sample_graph) = O_Ok"
  using verify_indexes_exact [of sample_graph] sample_graph_inv graph_inv_finite_indexes [OF sample_graph_inv]
  by (simp add: graph_inv_iff_records)

end
