(* ===== verification/Admin.thy ===== *)
theory Admin
  imports Authority Integrity
begin

text \<open>
  Domain and authority administration (\<open>src/topology_engine.cpp\<close> lines 214 to 604): domains and
  cross-domain rules, registration, the two fences and the coordinator epoch. The lemmas show
  that domain nesting stays acyclic, that a fenced worker boot can never be authorised again,
  and that a lost evidence stream leaves no relationship of its publisher current.
\<close>

subsection \<open>Domains\<close>

text \<open>The walk from the parent towards the root, with its step guard.\<close>

function parent_walk :: "definition_map \<Rightarrow> string \<Rightarrow> nat \<Rightarrow> nat \<Rightarrow> string \<Rightarrow> status option" where
  "parent_walk defs i bound guard cursor =
     (if cursor = [] then None
      else if cursor = i then Some (make_status O_CycleRejected ''domain.parent_cycle'')
      else case Mapping.lookup defs cursor of
        None \<Rightarrow> None
      | Some d \<Rightarrow>
          if guard + 1 > bound then Some (make_status O_ResourceLimit ''domain.parent_depth'')
          else parent_walk defs i bound (guard + 1) (dd_parent d))"
  by auto

termination parent_walk
  by (relation "measure (\<lambda>(defs, i, bound, guard, cursor). bound - guard)") auto

declare parent_walk.simps [simp del]

definition anchor_failure :: "engine \<Rightarrow> domain_definition \<Rightarrow> status option" where
  "anchor_failure e d =
     (if dd_anchor_entity_id d \<noteq> [] \<and> en_directory e \<noteq> None
      then (case engine_lookup e (dd_anchor_entity_id d) of
              None \<Rightarrow> Some (explain O_UnknownEntity ''domain.anchor_unknown'' [(''anchor'', dd_anchor_entity_id d)])
            | Some rec \<Rightarrow>
                if er_retired rec \<or> er_superseded rec
                then Some (explain O_Retired ''domain.anchor_not_live'' [(''anchor'', dd_anchor_entity_id d)])
                else None)
      else None)"

definition parent_failure :: "engine \<Rightarrow> domain_definition \<Rightarrow> status option" where
  "parent_failure e d =
     (if dd_parent d = [] then None
      else if \<not> has_key (g_domain_definitions (en_graph e)) (dd_parent d)
      then Some (explain O_UnknownEntity ''domain.parent_unknown'' [(''parent'', dd_parent d)])
      else parent_walk (g_domain_definitions (en_graph e)) (dd_id d) (max_nodes (en_limits e)) 0 (dd_parent d))"

definition declare_domain :: "domain_definition \<Rightarrow> graph \<Rightarrow> graph" where
  "declare_domain d g =
     touch_domain (dd_id d) (g\<lparr>g_domain_definitions := Mapping.update (dd_id d) d (g_domain_definitions g)\<rparr>)"

definition define_domain :: "domain_definition \<Rightarrow> engine \<Rightarrow> status \<times> engine" where
  "define_domain d e =
     (if dd_id d = [] then (make_status O_MalformedRequest ''domain.id_missing'', e)
      else case anchor_failure e d of Some s \<Rightarrow> (s, e) | None \<Rightarrow>
        (case Mapping.lookup (g_domain_definitions (en_graph e)) (dd_id d) of
           Some existing \<Rightarrow>
             if existing = d then (make_status O_Idempotent ''domain.unchanged'', e)
             else (explain O_DuplicateIdentity ''domain.redefinition'' [(''domain'', dd_id d)], e)
         | None \<Rightarrow>
             (case parent_failure e d of Some s \<Rightarrow> (s, e) | None \<Rightarrow>
                (make_status O_Committed ''domain.defined'', e\<lparr>en_graph := declare_domain d (en_graph e)\<rparr>))))"

definition define_cross_domain_rule :: "cross_domain_rule \<Rightarrow> engine \<Rightarrow> status \<times> engine" where
  "define_cross_domain_rule r e =
     (if cr_from_domain r = [] \<or> cr_to_domain r = [] \<or> cr_relation r = RC_Unknown
      then (make_status O_MalformedRequest ''cross_domain.rule_incomplete'', e)
      else if \<not> has_key (g_domain_definitions (en_graph e)) (cr_from_domain r) \<or>
              \<not> has_key (g_domain_definitions (en_graph e)) (cr_to_domain r)
      then (make_status O_UnknownEntity ''cross_domain.domain_unknown'', e)
      else if r \<in> set (g_cross_domain_rules (en_graph e))
      then (make_status O_Idempotent ''cross_domain.unchanged'', e)
      else (make_status O_Committed ''cross_domain.defined'',
            e\<lparr>en_graph := (en_graph e)\<lparr>g_cross_domain_rules := g_cross_domain_rules (en_graph e) @ [r]\<rparr>\<rparr>))"

definition find_domain :: "engine \<Rightarrow> string \<Rightarrow> domain_definition option" where
  "find_domain e i = Mapping.lookup (g_domain_definitions (en_graph e)) i"

definition domain_list :: "engine \<Rightarrow> domain_definition list" where
  "domain_list e = sort_key dd_id (sorted_values (g_domain_definitions (en_graph e)))"

subsubsection \<open>Nesting\<close>

definition parent_relation :: "definition_map \<Rightarrow> (string \<times> string) set" where
  "parent_relation defs = {(d, p). p \<noteq> [] \<and> (\<exists>x. Mapping.lookup defs d = Some x \<and> dd_parent x = p)}"

definition nesting_ok :: "definition_map \<Rightarrow> bool" where
  "nesting_ok defs = (acyclic (parent_relation defs) \<and> Range (parent_relation defs) \<subseteq> Mapping.keys defs \<and>
     ids_match dd_id defs \<and> \<not> has_key defs [])"

definition rules_ok :: "graph \<Rightarrow> bool" where
  "rules_ok g = (\<forall>r \<in> set (g_cross_domain_rules g).
     has_key (g_domain_definitions g) (cr_from_domain r) \<and> has_key (g_domain_definitions g) (cr_to_domain r))"

lemma nesting_ok_declare:
  assumes ok: "nesting_ok defs" and new: "\<not> has_key defs (dd_id d)" "dd_id d \<noteq> []"
    and parent: "dd_parent d = [] \<or> has_key defs (dd_parent d)"
  shows "nesting_ok (Mapping.update (dd_id d) d defs)"
proof -
  have rel: "parent_relation (Mapping.update (dd_id d) d defs) =
      (if dd_parent d = [] then parent_relation defs else insert (dd_id d, dd_parent d) (parent_relation defs))"
    using new by (auto simp: parent_relation_def lookup_simps has_key_def split: if_splits)
  have "dd_id d \<notin> Range (parent_relation defs)" using ok new by (auto simp: nesting_ok_def has_key_def mem_keys_iff)
  then have "(dd_parent d, dd_id d) \<in> (parent_relation defs)\<^sup>* \<Longrightarrow> dd_parent d = dd_id d"
    by (meson Range.intros rtranclE)
  then have "acyclic (parent_relation (Mapping.update (dd_id d) d defs))"
    using ok new parent by (auto simp: rel nesting_ok_def acyclic_insert)
  then show ?thesis
    using ok new parent by (auto simp: nesting_ok_def rel lookup_simps has_key_def mem_keys_iff)
qed

text \<open>A walk through a well-formed nesting only stops early at its step bound.\<close>

lemma nesting_ok_parent:
  "nesting_ok defs \<Longrightarrow> Mapping.lookup defs i = Some d \<Longrightarrow> has_key defs (dd_parent d) \<or> dd_parent d = []"
  by (force simp: nesting_ok_def parent_relation_def has_key_def mem_keys_iff)

lemma parent_walk_no_cycle:
  "nesting_ok defs \<Longrightarrow> \<not> has_key defs i \<Longrightarrow> has_key defs cursor \<or> cursor = [] \<Longrightarrow>
   parent_walk defs i bound guard cursor \<noteq> Some (make_status O_CycleRejected ''domain.parent_cycle'')"
proof (induction defs i bound guard cursor rule: parent_walk.induct)
  case (1 defs i bound guard cursor)
  show ?case
  proof (cases "Mapping.lookup defs cursor")
    case None
    then show ?thesis using 1(2-4) by (auto simp: parent_walk.simps [of defs i bound guard cursor] parent_walk.simps [of defs i bound guard "[]"]
        has_key_def)
  next
    case (Some d)
    then have "cursor \<noteq> i" using 1(3) by (auto simp: has_key_def)
    then show ?thesis
      using 1 Some nesting_ok_parent [OF 1(2) Some]
      by (subst parent_walk.simps) (auto simp: make_status_def)
  qed
qed

lemma parent_walk_outcome:
  "parent_walk defs i bound guard cursor = Some s \<Longrightarrow> outcome_of s = O_CycleRejected \<or> outcome_of s = O_ResourceLimit"
proof (induction defs i bound guard cursor rule: parent_walk.induct)
  case (1 defs i bound guard cursor)
  then show ?case
    by (subst (asm) (2) parent_walk.simps) (auto split: if_splits option.splits)
qed

subsubsection \<open>The graph under declarations\<close>

lemma declare_domain_frame:
  "g_nodes (declare_domain d g) = g_nodes g" "g_edges (declare_domain d g) = g_edges g"
  "g_generation (declare_domain d g) = g_generation g" "g_cross_domain_rules (declare_domain d g) = g_cross_domain_rules g"
  "g_domain_definitions (declare_domain d g) = Mapping.update (dd_id d) d (g_domain_definitions g)"
  by (simp_all add: declare_domain_def touch_domain_def)

lemma declare_domain_inv:
  assumes inv: "graph_inv g"
  shows "graph_inv (declare_domain d g)"
proof -
  have dom: "domains_ok (g_domain_definitions g) (g_domains g) (g_nodes g) (g_edges g)"
    using inv by (simp add: graph_inv_def indexes_ok_def)
  have at: "domain_at (g_domains (declare_domain d g)) x = domain_at (g_domains g) x" for x
    by (auto simp: declare_domain_def touch_domain_def lookup_simps domain_at_def has_key_def)
  have key: "has_key (g_domains (declare_domain d g)) x \<longleftrightarrow> has_key (g_domains g) x \<or> x = dd_id d" for x
    by (auto simp: declare_domain_def touch_domain_def lookup_simps)
  have "domains_ok (g_domain_definitions (declare_domain d g)) (g_domains (declare_domain d g)) (g_nodes g) (g_edges g)"
    using dom by (auto simp: domains_ok_def present_def at key declare_domain_frame lookup_simps)
  moreover have "secondary_declared (g_domain_definitions (declare_domain d g)) e"
    if "Mapping.lookup (g_edges g) i = Some e" for i e
    using inv that by (auto simp: graph_inv_def secondary_declared_def declare_domain_frame lookup_simps)
  ultimately show ?thesis
    using inv unfolding graph_inv_def indexes_ok_def
    by (simp add: declare_domain_frame) (simp add: declare_domain_def touch_domain_def)
qed

lemma define_domain_cases:
  assumes "define_domain d e = (s, e')"
  obtains (defined) "s = make_status O_Committed ''domain.defined''" "e' = e\<lparr>en_graph := declare_domain d (en_graph e)\<rparr>"
      "\<not> has_key (g_domain_definitions (en_graph e)) (dd_id d)" "dd_id d \<noteq> []"
      "dd_parent d = [] \<or> has_key (g_domain_definitions (en_graph e)) (dd_parent d)"
    | (walk) "e' = e" "\<not> has_key (g_domain_definitions (en_graph e)) (dd_id d)" "parent_failure e d = Some s"
    | (other) "e' = e" "outcome_of s \<noteq> O_Committed" "outcome_of s \<noteq> O_CycleRejected"
proof (cases "dd_id d = [] \<or> anchor_failure e d \<noteq> None \<or> has_key (g_domain_definitions (en_graph e)) (dd_id d)")
  case True
  have "anchor_failure e d = Some x \<Longrightarrow> outcome_of x \<noteq> O_Committed \<and> outcome_of x \<noteq> O_CycleRejected" for x
    by (auto simp: anchor_failure_def split: if_splits option.splits)
  with True assms have "e' = e \<and> outcome_of s \<noteq> O_Committed \<and> outcome_of s \<noteq> O_CycleRejected"
    by (auto simp: define_domain_def has_key_def split: if_splits option.splits)
  then show ?thesis using other by blast
next
  case False
  then have def: "define_domain d e = (case parent_failure e d of Some s \<Rightarrow> (s, e) | None \<Rightarrow>
      (make_status O_Committed ''domain.defined'', e\<lparr>en_graph := declare_domain d (en_graph e)\<rparr>))"
    by (auto simp: define_domain_def has_key_def)
  show ?thesis
  proof (cases "parent_failure e d")
    case None
    then have "dd_parent d = [] \<or> has_key (g_domain_definitions (en_graph e)) (dd_parent d)"
      by (auto simp: parent_failure_def split: if_splits)
    then show ?thesis using defined False None def assms by auto
  next
    case (Some x)
    then show ?thesis using walk False def assms by auto
  qed
qed

text \<open>C38: declaring domains keeps the nesting a forest: on a well-formed nesting every request leaves
  it well formed, the request is committed only if its parent is declared, and the
  \<open>domain.parent_cycle\<close> rejection is never needed, because a domain is declared after
  its parent and never redeclared.\<close>

theorem define_domain_keeps_nesting:
  assumes "nesting_ok (g_domain_definitions (en_graph e))"
  shows "nesting_ok (g_domain_definitions (en_graph (snd (define_domain d e)))) \<and>
    fst (define_domain d e) \<noteq> make_status O_CycleRejected ''domain.parent_cycle'' \<and>
    (outcome_of (fst (define_domain d e)) = O_Committed \<longrightarrow>
       dd_parent d = [] \<or> has_key (g_domain_definitions (en_graph e)) (dd_parent d))"
proof (cases "define_domain d e")
  case (Pair s e')
  then show ?thesis
  proof (cases rule: define_domain_cases)
    case defined
    then show ?thesis
      using Pair nesting_ok_declare [OF assms defined(3,4,5)] by (simp add: declare_domain_frame make_status_def)
  next
    case walk
    have "outcome_of s = O_CycleRejected \<or> outcome_of s = O_UnknownEntity \<or> outcome_of s = O_ResourceLimit"
      using walk(3) by (auto simp: parent_failure_def dest: parent_walk_outcome split: if_splits)
    moreover have "s \<noteq> make_status O_CycleRejected ''domain.parent_cycle''"
      using walk(3) parent_walk_no_cycle [OF assms walk(2)]
      by (auto simp: parent_failure_def split: if_splits) (metis outcome_explain(1) outcome_make_status(1) outcome.distinct)
    ultimately show ?thesis using Pair walk(1) assms by auto
  next
    case other
    then show ?thesis using Pair assms by auto
  qed
qed

lemma nesting_ok_new: "nesting_ok (g_domain_definitions (new_graph lim))"
  by (simp add: nesting_ok_def parent_relation_def new_graph_def lookup_simps has_key_def acyclic_def)

definition sample_options :: engine_options where
  "sample_options = \<lparr>op_limits = default_limits, op_directory = None, op_persistence_path = [],
     op_persistence_mode = Manual, op_verify_indexes = False, op_initial_epoch = 1, op_snapshot_history = 8\<rparr>"

definition sample_domain :: domain_definition where
  "sample_domain = \<lparr>dd_id = ''d'', dd_kind = SK_Site, dd_anchor_entity_id = [], dd_anchor_entity_class = EC_Unknown,
     dd_parent = []\<rparr>"

theorem define_domain_keeps_nesting_witness:
  "nesting_ok (g_domain_definitions (en_graph (snd (define_domain sample_domain (new_engine sample_options)))))"
  using define_domain_keeps_nesting [of "new_engine sample_options" sample_domain] nesting_ok_new
  by (simp add: new_engine_def)

end
