(* ===== verification/Fencing.thy ===== *)
theory Fencing
  imports Admin
begin

text \<open>
  Publisher registration, the publisher and boot fences and the coordinator epoch
  (\<open>src/topology_engine.cpp\<close> lines 311 to 604). A fence demotes the relationships of the lost
  evidence stream inside a transaction. The lemmas show that the demotion loop touches exactly
  the selected edges, that every abandoned demotion is rolled back exactly, and that no
  operation ever makes a fenced boot acceptable again.
\<close>

subsection \<open>Registration\<close>

record registration =
  rg_publisher :: string
  rg_worker_boot :: string
  rg_coordinator_epoch :: u64
  rg_grants :: "scope_grant list"
  rg_reason :: string

definition registered_state :: "registration \<Rightarrow> publisher_state" where
  "registered_state r = \<lparr>pb_publisher = rg_publisher r, pb_worker_boot = rg_worker_boot r,
     pb_coordinator_epoch = rg_coordinator_epoch r, pb_grants = rg_grants r, pb_fenced = False,
     pb_fence_reason = [], pb_reason = rg_reason r, pb_committed = 0, pb_rejected = 0\<rparr>"

definition register_publisher :: "registration \<Rightarrow> engine \<Rightarrow> status \<times> engine" where
  "register_publisher r e =
     (if rg_publisher r = [] \<or> rg_worker_boot r = [] then (make_status O_MalformedRequest ''registration.incomplete'', e)
      else if length (rg_reason r) > max_string_bytes (en_limits e)
      then (make_status O_ResourceLimit ''registration.reason_too_long'', e)
      else if boot_is_fenced e (rg_worker_boot r)
      then (explain O_StaleWorkerBoot ''registration.boot_fenced'' [(''worker_boot'', rg_worker_boot r)], e)
      else if rg_coordinator_epoch r \<noteq> en_epoch e
      then (explain O_StaleCoordinatorEpoch ''registration.epoch_stale''
              [(''registration_epoch'', u64_string (rg_coordinator_epoch r)), (''current_epoch'', u64_string (en_epoch e))], e)
      else case Mapping.lookup (en_publishers e) (rg_publisher r) of
        None \<Rightarrow> (make_status O_Committed ''registration.registered'',
                  e\<lparr>en_publishers := Mapping.update (rg_publisher r) (registered_state r) (en_publishers e)\<rparr>)
      | Some old \<Rightarrow>
          if pb_worker_boot old = rg_worker_boot r \<and> pb_coordinator_epoch old = rg_coordinator_epoch r \<and>
             pb_grants old = rg_grants r \<and> \<not> pb_fenced old
          then (make_status O_Idempotent ''registration.unchanged'', e)
          else (make_status O_Committed ''registration.replaced'',
                e\<lparr>en_fenced_boots := (if pb_worker_boot old \<noteq> rg_worker_boot r
                      then insert (pb_worker_boot old) (en_fenced_boots e) else en_fenced_boots e),
                  en_publishers := Mapping.update (rg_publisher r) (registered_state r) (en_publishers e)\<rparr>))"

subsection \<open>Demotion\<close>

definition demote :: "edge \<Rightarrow> edge" where
  "demote e = e\<lparr>ed_lifecycle := LS_RevalidationRequired, ed_generation := advance_if_possible (ed_generation e)\<rparr>"

fun demote_loop :: "(edge \<Rightarrow> bool) \<Rightarrow> string list \<Rightarrow> txn \<Rightarrow> graph \<Rightarrow> nat \<Rightarrow> txn \<times> graph \<times> nat" where
  "demote_loop select [] t g n = (t, g, n)"
| "demote_loop select (i # is) t g n =
     (case find_edge g i of
        None \<Rightarrow> demote_loop select is t g n
      | Some e \<Rightarrow>
          if \<not> select e then demote_loop select is t g n
          else demote_loop select is (note_edge_updated e t) (snd (update_edge (demote e) g)) (n + 1))"

text \<open>What follows the loop in both fences: advance the generation, persist, commit or roll back.\<close>

definition settle_demotion :: "(engine \<Rightarrow> file_result) \<Rightarrow> txn \<Rightarrow> nat \<Rightarrow> engine \<Rightarrow> status \<times> engine" where
  "settle_demotion io t n e =
     (if n = 0 then (make_status O_Ok [], e)
      else if \<not> can_advance (en_generation e)
      then (make_status O_ResourceLimit ''generation.exhausted'', e\<lparr>en_graph := snd (rollback t (en_graph e))\<rparr>)
      else
        let t' = note_generation (en_generation e) t;
            e' = e\<lparr>en_graph := (en_graph e)\<lparr>g_generation := next_counter (en_generation e)\<rparr>,
                   en_generation_advances := en_generation_advances e + 1\<rparr>;
            persisted = persist_locked io e' in
        if outcome_of persisted \<noteq> O_Ok then (persisted, e'\<lparr>en_graph := snd (rollback t' (en_graph e'))\<rparr>)
        else (make_status O_Ok [], e'))"

definition is_current :: "edge \<Rightarrow> bool" where
  "is_current e = (ed_lifecycle e = LS_Current)"

definition sorted_bucket :: "string buckets \<Rightarrow> string \<Rightarrow> string list" where
  "sorted_bucket m k = (case Mapping.lookup m k of None \<Rightarrow> [] | Some ids \<Rightarrow> sorted_list_of_set ids)"

definition mark_fenced :: "string \<Rightarrow> publisher_state \<Rightarrow> publisher_state" where
  "mark_fenced reason s = s\<lparr>pb_fenced := True, pb_fence_reason := (if pb_fence_reason s = [] then reason else pb_fence_reason s)\<rparr>"

definition fence_publisher :: "(engine \<Rightarrow> file_result) \<Rightarrow> string \<Rightarrow> string \<Rightarrow> string \<Rightarrow> engine \<Rightarrow> status \<times> engine" where
  "fence_publisher io publisher boot reason e =
     (if publisher = [] \<or> boot = [] then (make_status O_MalformedRequest ''fence.incomplete'', e)
      else
        let e1 = e\<lparr>en_fenced_boots := insert boot (en_fenced_boots e)\<rparr> in
        case Mapping.lookup (en_publishers e1) publisher of
          None \<Rightarrow> (explain O_StaleAuthority ''fence.publisher_unregistered''
                     [(''publisher'', publisher), (''worker_boot'', boot)], e1)
        | Some s \<Rightarrow>
            if pb_worker_boot s \<noteq> boot
            then (explain O_StaleWorkerBoot ''fence.boot_mismatch''
                    [(''registered_boot'', pb_worker_boot s), (''request_boot'', boot)], e1)
            else
              (case demote_loop is_current (sorted_bucket (g_edge_by_publisher (en_graph e1)) publisher)
                      begin_txn (en_graph e1) 0 of
                 (t, g, n) \<Rightarrow>
                   (case settle_demotion io t n (e1\<lparr>en_publishers := Mapping.update publisher (mark_fenced reason s) (en_publishers e1),
                            en_graph := g\<rparr>) of
                      (settled, e2) \<Rightarrow>
                        if outcome_of settled \<noteq> O_Ok then (settled, e2)
                        else if pb_fenced s
                        then (explain O_Idempotent ''fence.already_fenced'' [(''publisher'', publisher), (''worker_boot'', boot),
                                (''demoted_relationships'', decimal n)], e2)
                        else (explain O_Committed ''fence.fenced'' ([(''publisher'', publisher), (''worker_boot'', boot),
                                (''demoted_relationships'', decimal n)] @ (if reason \<noteq> [] then [(''reason'', reason)] else [])), e2))))"

text \<open>\<open>fence_boot\<close> assigns the reason of every registration it fences and returns their number.\<close>

definition fence_registration :: "string \<Rightarrow> string \<Rightarrow> publisher_state \<Rightarrow> publisher_state" where
  "fence_registration boot reason s =
     (if pb_worker_boot s = boot \<and> \<not> pb_fenced s then s\<lparr>pb_fenced := True, pb_fence_reason := reason\<rparr> else s)"

definition boot_edges :: "string \<Rightarrow> graph \<Rightarrow> string list" where
  "boot_edges boot g =
     sort (filter (\<lambda>i. case find_edge g i of
         Some e \<Rightarrow> pv_worker_boot (ed_provenance e) = boot \<and> is_current e
       | None \<Rightarrow> False) (Mapping.ordered_keys (g_edges g)))"

definition fence_boot :: "(engine \<Rightarrow> file_result) \<Rightarrow> string \<Rightarrow> string \<Rightarrow> engine \<Rightarrow> nat \<times> engine" where
  "fence_boot io boot reason e =
     (if boot = [] then (0, e)
      else
        let hit = (\<lambda>s. pb_worker_boot s = boot \<and> \<not> pb_fenced s);
            fenced = length (filter hit (sorted_values (en_publishers e)));
            e1 = e\<lparr>en_fenced_boots := insert boot (en_fenced_boots e),
                   en_publishers := Mapping.map_values (\<lambda>_. fence_registration boot reason) (en_publishers e)\<rparr> in
        case demote_loop (\<lambda>_. True) (boot_edges boot (en_graph e1)) begin_txn (en_graph e1) 0 of
          (t, g, n) \<Rightarrow> (fenced, snd (settle_demotion io t n (e1\<lparr>en_graph := g\<rparr>))))"

subsection \<open>Coordinator epoch\<close>

definition asserted_current :: "edge \<Rightarrow> bool" where
  "asserted_current e = (pv_publisher (ed_provenance e) \<noteq> [] \<and> is_current e)"

text \<open>The same loop through \<open>mutate_edge\<close>.\<close>

fun epoch_loop :: "string list \<Rightarrow> txn \<Rightarrow> graph \<Rightarrow> bool \<Rightarrow> txn \<times> graph \<times> bool" where
  "epoch_loop [] t g changed = (t, g, changed)"
| "epoch_loop (i # is) t g changed =
     (case find_edge g i of
        None \<Rightarrow> epoch_loop is t g changed
      | Some e \<Rightarrow>
          if pv_publisher (ed_provenance e) = [] then epoch_loop is t g changed
          else if ed_lifecycle e \<noteq> LS_Current then epoch_loop is t g changed
          else epoch_loop is (note_edge_updated e t) (snd (mutate_edge i demote g)) True)"

definition settle_epoch :: "(engine \<Rightarrow> file_result) \<Rightarrow> txn \<Rightarrow> engine \<Rightarrow> engine" where
  "settle_epoch io t e =
     (case (if can_advance (en_generation e)
            then (note_generation (en_generation e) t,
                  e\<lparr>en_graph := (en_graph e)\<lparr>g_generation := next_counter (en_generation e)\<rparr>,
                    en_generation_advances := en_generation_advances e + 1\<rparr>)
            else (t, e)) of
        (t', e') \<Rightarrow>
          let persisted = persist_locked io e' in
          if \<not> status_has persisted ''persistence.ok'' \<and> outcome_of persisted \<noteq> O_Ok \<and> outcome_of persisted \<noteq> O_Committed
          then e'\<lparr>en_graph := snd (rollback t' (en_graph e'))\<rparr> else e')"

definition advance_coordinator_epoch :: "(engine \<Rightarrow> file_result) \<Rightarrow> engine \<Rightarrow> u64 \<times> engine" where
  "advance_coordinator_epoch io e =
     (if \<not> can_advance (en_epoch e) then (en_epoch e, e)
      else
        let e1 = e\<lparr>en_epoch := next_counter (en_epoch e), en_publishers := Mapping.empty\<rparr> in
        case epoch_loop (Mapping.ordered_keys (g_edges (en_graph e1))) begin_txn (en_graph e1) False of
          (t, g, changed) \<Rightarrow>
            let e2 = e1\<lparr>en_graph := g\<rparr>; e3 = (if changed then settle_epoch io t e2 else e2) in
            (en_epoch e3, e3))"

subsection \<open>The demotion loop\<close>

lemma same_identity_demote: "same_edge_identity e (demote e)"
  by (simp add: same_edge_identity_def demote_def edge_key_of_def)

lemma same_identity_free:
  "graph_inv g \<Longrightarrow> find_edge g i = Some e0 \<Longrightarrow> same_edge_identity e0 e \<Longrightarrow> edge_identity_free g e"
  using edge_key_indexed [of g i e0] edge_relationship_indexed [of g i e0] stored_secondary_declared [of g i e0] graph_inv_ids [of g i e0]
  by (auto simp: edge_identity_free_def same_edge_identity_def secondary_declared_def has_secondary_def)

lemma logged_update_edge:
  assumes "logged g0 (tx_entries t) g" "graph_inv g0" "find_edge g i = Some e0" "same_edge_identity e0 e"
  shows "logged g0 (tx_entries (note_edge_updated e0 t)) (snd (update_edge e g))"
proof -
  have inv: "graph_inv g" by (rule logged_inv [OF assms(1,2)])
  have "ed_id e = i" using graph_inv_ids [OF inv assms(3)] assms(4) by (simp add: same_edge_identity_def)
  then show ?thesis
    using logged.edge_updated [OF assms(1), of e e0] assms(3) same_identity_free [OF inv assms(3,4)]
    by (simp add: note_defs)
qed

lemma note_active [simp]: "tx_active (note_edge_updated e t) = tx_active t" "tx_active (note_generation v t) = tx_active t"
  "tx_active begin_txn" "tx_entries begin_txn = []"
  by (simp_all add: note_defs begin_txn_def)

lemma demote_loop_logged:
  "logged g0 (tx_entries t) g \<Longrightarrow> graph_inv g0 \<Longrightarrow> demote_loop select is t g n = (t', g', n') \<Longrightarrow>
   logged g0 (tx_entries t') g' \<and> tx_active t' = tx_active t"
proof (induction select "is" t g n rule: demote_loop.induct)
  case (2 select i "is" t g n)
  show ?case
  proof (cases "find_edge g i")
    case (Some e)
    with 2 logged_update_edge [OF 2(4,5) Some same_identity_demote [of e]] show ?thesis
      by (cases "select e") auto
  qed (use 2 in auto)
qed auto

text \<open>Edge by edge, the loop demotes what it selects and nothing else.\<close>

lemma find_update_demote:
  assumes "graph_inv g" "find_edge g i = Some e"
  shows "find_edge (snd (update_edge (demote e) g)) j = (if j = i then Some (demote e) else find_edge g j)"
  using graph_inv_ids [OF assms] assms(2) by (auto simp: find_after_update_edge demote_def)

lemma demote_loop_find:
  "graph_inv g \<Longrightarrow> distinct is \<Longrightarrow> demote_loop select is t g n = (t', g', n') \<Longrightarrow>
   graph_inv g' \<and> base_frame g' = base_frame g \<and> g_nodes g' = g_nodes g \<and>
   find_edge g' j = (case find_edge g j of
     Some e \<Rightarrow> Some (if j \<in> set is \<and> select e then demote e else e) | None \<Rightarrow> None) \<and>
   (n' = n \<longrightarrow> g' = g)  \<and> n \<le> n'"
proof (induction select "is" t g n rule: demote_loop.induct)
  case (2 select i "is" t g n)
  show ?case
  proof (cases "find_edge g i")
    case None
    then show ?thesis using 2 by (auto split: option.splits)
  next
    case (Some e)
    show ?thesis
    proof (cases "select e")
      case True
      have "graph_inv (snd (update_edge (demote e) g))"
        using Some graph_inv_ids [OF 2(4) Some] same_identity_demote [of e]
        by (intro update_edge_same_identity_inv [OF 2(4)]) (auto simp: demote_def)
      with 2 Some True show ?thesis
        by (auto simp: find_update_demote [OF 2(4) Some] frame_simps split: option.splits)
    next
      case False
      then show ?thesis using 2 Some by (auto split: option.splits)
    qed
  qed
qed (auto split: option.splits)

lemma demote_loop_mono: "n \<le> snd (snd (demote_loop select is t g n))"
  by (induction select "is" t g n rule: demote_loop.induct) (auto split: option.splits)

lemma mutate_demote: "graph_inv g \<Longrightarrow> find_edge g i = Some e \<Longrightarrow> mutate_edge i demote g = update_edge (demote e) g"
  by (rule mutate_edge_as_update) (auto dest: graph_inv_ids simp: demote_def)

lemma epoch_loop_demote_loop:
  "graph_inv g \<Longrightarrow> demote_loop asserted_current is t g n = (t', g', n') \<Longrightarrow>
   epoch_loop is t g c = (t', g', c \<or> n < n')"
proof (induction "is" arbitrary: t g n c)
  case (Cons i "is")
  show ?case
  proof (cases "find_edge g i")
    case None
    then show ?thesis using Cons by auto
  next
    case (Some e)
    show ?thesis
    proof (cases "asserted_current e")
      case True
      have inv: "graph_inv (snd (update_edge (demote e) g))"
        using Some graph_inv_ids [OF Cons.prems(1) Some] same_identity_demote [of e]
        by (intro update_edge_same_identity_inv [OF Cons.prems(1)]) (auto simp: demote_def)
      have le: "n + 1 \<le> n'"
        using Cons.prems True Some demote_loop_mono [of "n + 1" asserted_current "is" "note_edge_updated e t" "snd (update_edge (demote e) g)"]
        by auto
      show ?thesis
        using Cons.IH [OF inv, of "note_edge_updated e t" "n + 1" True] Cons.prems True Some le
        by (auto simp: asserted_current_def is_current_def mutate_demote)
    next
      case False
      then show ?thesis using Cons Some by (auto simp: asserted_current_def is_current_def)
    qed
  qed
qed auto

subsection \<open>Settling a demotion\<close>

lemma settle_demotion_frame:
  "en_fenced_boots (snd (settle_demotion io t n e)) = en_fenced_boots e"
  "en_publishers (snd (settle_demotion io t n e)) = en_publishers e"
  "en_epoch (snd (settle_demotion io t n e)) = en_epoch e"
  by (simp_all add: settle_demotion_def Let_def)

lemma settle_demotion_outcome:
  "outcome_of (fst (settle_demotion io t n e)) = O_Ok \<or> \<not> outcome_is_success (outcome_of (fst (settle_demotion io t n e)))"
  by (simp add: settle_demotion_def Let_def outcome_is_success_def)

lemma settle_demotion_graph:
  assumes "logged g0 (tx_entries t) (en_graph e)" "graph_inv g0" "tx_active t" "n = 0 \<longrightarrow> en_graph e = g0"
  shows "if outcome_of (fst (settle_demotion io t n e)) = O_Ok
    then en_graph (snd (settle_demotion io t n e)) =
      (if n = 0 then g0 else (en_graph e)\<lparr>g_generation := next_counter (en_generation e)\<rparr>) \<and>
      (n \<noteq> 0 \<longrightarrow> can_advance (en_generation e))
    else en_graph (snd (settle_demotion io t n e)) = g0"
proof -
  have "logged g0 (tx_entries (note_generation (en_generation e) t)) ((en_graph e)\<lparr>g_generation := next_counter (en_generation e)\<rparr>)"
    using logged.generation_changed [OF assms(1), of "next_counter (en_generation e)"] by (simp add: note_defs en_generation_def)
  then show ?thesis
    using assms by (simp add: settle_demotion_def Let_def rollback_logged)
qed

lemma update_generation_find [simp]: "find_edge (g\<lparr>g_generation := v\<rparr>) i = find_edge g i"
  by (simp add: find_defs)

lemma distinct_sorted_bucket: "distinct (sorted_bucket m k)"
  by (simp add: sorted_bucket_def split: option.splits)

text \<open>What a bucket of an edge index lists.\<close>

lemma set_sorted_bucket:
  assumes inv: "graph_inv g" and f: "files keys m (g_edges g)"
  shows "i \<in> set (sorted_bucket m k) \<longleftrightarrow> (\<exists>x. find_edge g i = Some x \<and> k \<in> keys x)"
proof -
  have "finite (Mapping.keys (g_edges g))" using inv by (simp add: graph_inv_def)
  then have "set (sorted_bucket m k) = bucket m k"
    using files_bucket_finite [OF f, of k] by (auto simp: sorted_bucket_def bucket_def split: option.splits)
  then show ?thesis using f by (auto simp: files_def filed_def find_defs)
qed

lemma set_publisher_bucket:
  assumes inv: "graph_inv g" and p: "p \<noteq> []"
  shows "i \<in> set (sorted_bucket (g_edge_by_publisher g) p) \<longleftrightarrow>
    (\<exists>e. find_edge g i = Some e \<and> pv_publisher (ed_provenance e) = p)"
  using set_sorted_bucket [OF inv, of publisher_keys "g_edge_by_publisher g"] inv p
  by (auto simp: graph_inv_def indexes_ok_def publisher_keys_def)

text \<open>The loop does nothing exactly if it finds nothing to demote.\<close>

lemma demote_loop_idle:
  "(\<And>i x. i \<in> set is \<Longrightarrow> find_edge g i = Some x \<Longrightarrow> \<not> select x) \<Longrightarrow> demote_loop select is t g n = (t, g, n)"
  by (induction select "is" t g n rule: demote_loop.induct) (auto split: option.split)

text \<open>C27: fencing the incarnation a publisher is registered with always blocks its boot and marks the
  registration. If the operation succeeds, every relationship that publisher asserted and that was
  current now requires revalidation with its generation advanced, and nothing else in the graph
  changed: the indexes are consistent with it, the nodes, the domains, the rules, the limits and
  the snapshot counter are the same, and the topology generation moved forward by one if there was
  such a relationship and stayed otherwise. If it fails (generation exhausted, or the durable
  image could not be written), the graph is exactly as before.\<close>

theorem fence_publisher_effect:
  assumes inv: "graph_inv (en_graph e)" and req: "publisher \<noteq> []" "boot \<noteq> []"
    and reg: "Mapping.lookup (en_publishers e) publisher = Some s" "pb_worker_boot s = boot"
    and run: "fence_publisher io publisher boot reason e = (st, e')"
  shows "boot \<in> en_fenced_boots e' \<and> map_option pb_fenced (Mapping.lookup (en_publishers e') publisher) = Some True \<and>
    (if outcome_of st = O_Committed \<or> outcome_of st = O_Idempotent
     then (\<forall>i. find_edge (en_graph e') i = map_option (\<lambda>x.
             if pv_publisher (ed_provenance x) = publisher \<and> is_current x then demote x else x) (find_edge (en_graph e) i)) \<and>
          g_nodes (en_graph e') = g_nodes (en_graph e) \<and> graph_inv (en_graph e') \<and>
          base_frame ((en_graph e')\<lparr>g_generation := en_generation e\<rparr>) = base_frame (en_graph e) \<and>
          en_generation e' = (if \<exists>i x. find_edge (en_graph e) i = Some x \<and> pv_publisher (ed_provenance x) = publisher \<and> is_current x
            then next_counter (en_generation e) else en_generation e)
     else en_graph e' = en_graph e)"
proof -
  let ?ids = "sorted_bucket (g_edge_by_publisher (en_graph e)) publisher"
  obtain t g n where loop: "demote_loop is_current ?ids begin_txn (en_graph e) 0 = (t, g, n)" by (metis prod_cases3)
  define e1 where "e1 = e\<lparr>en_fenced_boots := insert boot (en_fenced_boots e),
    en_publishers := Mapping.update publisher (mark_fenced reason s) (en_publishers e), en_graph := g\<rparr>"
  obtain settled e2 where settle: "settle_demotion io t n e1 = (settled, e2)" by (metis surj_pair)
  have log: "logged (en_graph e) (tx_entries t) g \<and> tx_active t"
    using demote_loop_logged [OF _ inv loop] by (simp add: logged.nothing)
  note find = demote_loop_find [OF inv distinct_sorted_bucket loop]
  have "n = 0 \<longrightarrow> en_graph e1 = en_graph e" using find by (simp add: e1_def)
  then have graph: "if outcome_of settled = O_Ok then en_graph e2 =
      (if n = 0 then en_graph e else g\<lparr>g_generation := next_counter (en_generation e1)\<rparr>) else en_graph e2 = en_graph e"
    using settle_demotion_graph [of "en_graph e" t e1 n io] log inv settle by (auto simp: e1_def split: if_splits)
  have st: "st = (if outcome_of settled \<noteq> O_Ok then settled
      else if pb_fenced s then explain O_Idempotent ''fence.already_fenced'' [(''publisher'', publisher), (''worker_boot'', boot),
        (''demoted_relationships'', decimal n)]
      else explain O_Committed ''fence.fenced'' ([(''publisher'', publisher), (''worker_boot'', boot),
        (''demoted_relationships'', decimal n)] @ (if reason \<noteq> [] then [(''reason'', reason)] else [])))" and e': "e' = e2"
    using run req reg loop settle by (auto simp: fence_publisher_def Let_def e1_def split: if_splits)
  have same: "find_edge (en_graph e2) i = map_option (\<lambda>x.
      if pv_publisher (ed_provenance x) = publisher \<and> is_current x then demote x else x) (find_edge (en_graph e) i)"
    if "outcome_of settled = O_Ok" for i
    using graph that find [of i] set_publisher_bucket [OF inv req(1), of i]
    by (auto simp: find_defs split: option.splits if_splits)
  have nodes: "g_nodes (en_graph e2) = g_nodes (en_graph e)" if "outcome_of settled = O_Ok"
    using graph that find by (auto split: if_splits)
  have generation: "en_generation e1 = en_generation e" using find by (simp add: e1_def en_generation_def base_frame_iff)
  have frame: "graph_inv (en_graph e2) \<and> base_frame ((en_graph e2)\<lparr>g_generation := en_generation e\<rparr>) = base_frame (en_graph e)"
    if "outcome_of settled = O_Ok"
    using graph that find inv by (auto simp: base_frame_iff en_generation_def split: if_splits)
  have idle: "n = 0 \<longleftrightarrow> \<not> (\<exists>i x. find_edge (en_graph e) i = Some x \<and> pv_publisher (ed_provenance x) = publisher \<and> is_current x)"
  proof
    assume zero: "n = 0"
    show "\<not> (\<exists>i x. find_edge (en_graph e) i = Some x \<and> pv_publisher (ed_provenance x) = publisher \<and> is_current x)"
    proof
      assume "\<exists>i x. find_edge (en_graph e) i = Some x \<and> pv_publisher (ed_provenance x) = publisher \<and> is_current x"
      then obtain i x where x: "find_edge (en_graph e) i = Some x" "pv_publisher (ed_provenance x) = publisher" "is_current x" by blast
      then have "i \<in> set ?ids" using set_publisher_bucket [OF inv req(1)] by blast
      with x find [of i] have "find_edge g i = Some (demote x)" by simp
      moreover have "g = en_graph e" using zero find by simp
      ultimately have "demote x = x" using x(1) by simp
      then have "ed_lifecycle (demote x) = ed_lifecycle x" by simp
      with x(3) show False by (simp add: demote_def is_current_def)
    qed
  next
    assume none: "\<not> (\<exists>i x. find_edge (en_graph e) i = Some x \<and> pv_publisher (ed_provenance x) = publisher \<and> is_current x)"
    have "demote_loop is_current ?ids begin_txn (en_graph e) 0 = (begin_txn, en_graph e, 0)"
      using none set_publisher_bucket [OF inv req(1)] by (intro demote_loop_idle) fastforce
    with loop show "n = 0" by simp
  qed
  have counted: "en_generation e2 = (if \<exists>i x. find_edge (en_graph e) i = Some x \<and> pv_publisher (ed_provenance x) = publisher \<and> is_current x
      then next_counter (en_generation e) else en_generation e)" if "outcome_of settled = O_Ok"
    using graph that idle generation by (auto simp: en_generation_def)
  have settled: "outcome_of settled = O_Ok \<or> (en_graph e2 = en_graph e \<and> \<not> outcome_is_success (outcome_of settled))"
    using graph settle settle_demotion_outcome [of io t n e1] by (cases "outcome_of settled = O_Ok") auto
  have "boot \<in> en_fenced_boots e2" "map_option pb_fenced (Mapping.lookup (en_publishers e2) publisher) = Some True"
    using settle_demotion_frame [of io t n e1] settle by (simp_all add: e1_def lookup_simps mark_fenced_def)
  then show ?thesis
    using st same nodes frame counted settled unfolding e' by (auto simp: outcome_is_success_def)
qed

definition sample_publisher :: publisher_state where
  "sample_publisher = \<lparr>pb_publisher = ''p'', pb_worker_boot = ''b'', pb_coordinator_epoch = 1,
     pb_grants = [\<lparr>sg_domain = ''d'', sg_mode = GM_AuthoritativeWrite\<rparr>], pb_fenced = False, pb_fence_reason = [],
     pb_reason = [], pb_committed = 0, pb_rejected = 0\<rparr>"

definition sample_engine :: engine where
  "sample_engine = (new_engine sample_options)\<lparr>en_graph := sample_graph,
     en_publishers := Mapping.update ''p'' sample_publisher Mapping.empty\<rparr>"

lemma sample_engine_fields [simp]:
  "en_graph sample_engine = sample_graph" "en_epoch sample_engine = 1" "en_fenced_boots sample_engine = {}"
  "Mapping.lookup (en_publishers sample_engine) p = (if p = ''p'' then Some sample_publisher else None)"
  "en_persistence_path sample_engine = []"
  by (simp_all add: sample_engine_def new_engine_def sample_options_def lookup_simps)

theorem fence_publisher_effect_witness:
  "''b'' \<in> en_fenced_boots (snd (fence_publisher (\<lambda>_. Written) ''p'' ''b'' [] sample_engine))"
  using fence_publisher_effect [of sample_engine "''p''" "''b''" sample_publisher "\<lambda>_. Written" "[]"] sample_graph_inv
  by (cases "fence_publisher (\<lambda>_. Written) ''p'' ''b'' [] sample_engine") (auto simp: sample_publisher_def)

subsection \<open>Boots and epochs\<close>

lemma settle_demotion_failed:
  "outcome_of (fst (settle_demotion io t n e)) \<noteq> O_Ok \<Longrightarrow>
   \<not> can_advance (en_generation e) \<or> (en_persistence_path e \<noteq> [] \<and> (\<exists>x. io x \<noteq> Written))"
  by (auto simp: settle_demotion_def Let_def split: if_splits dest: persist_failed)

lemma set_boot_edges:
  assumes inv: "graph_inv g"
  shows "i \<in> set (boot_edges boot g) \<longleftrightarrow>
    (\<exists>e. find_edge g i = Some e \<and> pv_worker_boot (ed_provenance e) = boot \<and> is_current e)"
  using inv by (auto simp: boot_edges_def graph_inv_def find_defs mem_keys_iff split: option.splits)

lemma distinct_boot_edges: "distinct (boot_edges boot g)"
  by (simp add: boot_edges_def)

text \<open>fencing a worker boot blocks it for good, marks every registration that uses it, and
  demotes exactly the current relationships that carry it in their provenance; only an exhausted
  generation counter or a failed write leaves the graph as it was.\<close>

theorem fence_boot_effect:
  assumes inv: "graph_inv (en_graph e)" and req: "boot \<noteq> []" and run: "fence_boot io boot reason e = (k, e')"
  shows "boot \<in> en_fenced_boots e' \<and>
    (\<forall>p s. Mapping.lookup (en_publishers e') p = Some s \<and> pb_worker_boot s = boot \<longrightarrow> pb_fenced s) \<and>
    ((\<forall>i. find_edge (en_graph e') i = map_option (\<lambda>x.
        if pv_worker_boot (ed_provenance x) = boot \<and> is_current x then demote x else x) (find_edge (en_graph e) i)) \<or>
     (en_graph e' = en_graph e \<and> (\<not> can_advance (en_generation e) \<or> en_persistence_path e \<noteq> [] \<and> (\<exists>x. io x \<noteq> Written))))"
proof -
  obtain t g n where loop: "demote_loop (\<lambda>_. True) (boot_edges boot (en_graph e)) begin_txn (en_graph e) 0 = (t, g, n)"
    by (metis prod_cases3)
  define e1 where "e1 = e\<lparr>en_fenced_boots := insert boot (en_fenced_boots e),
    en_publishers := Mapping.map_values (\<lambda>_. fence_registration boot reason) (en_publishers e), en_graph := g\<rparr>"
  have e': "e' = snd (settle_demotion io t n e1)"
    using run req loop by (simp add: fence_boot_def Let_def e1_def split: prod.splits)
  have log: "logged (en_graph e) (tx_entries t) g \<and> tx_active t"
    using demote_loop_logged [OF _ inv loop] by (simp add: logged.nothing)
  note find = demote_loop_find [OF inv distinct_boot_edges loop]
  have "n = 0 \<longrightarrow> en_graph e1 = en_graph e" using find by (simp add: e1_def)
  then have graph: "if outcome_of (fst (settle_demotion io t n e1)) = O_Ok then en_graph e' =
      (if n = 0 then en_graph e else g\<lparr>g_generation := next_counter (en_generation e1)\<rparr>) else en_graph e' = en_graph e"
    using settle_demotion_graph [of "en_graph e" t e1 n io] log inv by (auto simp: e' e1_def split: if_splits)
  have gen: "en_generation e1 = en_generation e" using find by (simp add: e1_def en_generation_def base_frame_iff)
  have path: "en_persistence_path e1 = en_persistence_path e" by (simp add: e1_def)
  have g: "find_edge g i = map_option (\<lambda>x. if pv_worker_boot (ed_provenance x) = boot \<and> is_current x then demote x else x)
      (find_edge (en_graph e) i) \<and> (n = 0 \<longrightarrow> g = en_graph e)" for i
    using find [of i] set_boot_edges [OF inv, of i boot] by (auto split: option.splits)
  have ok: "find_edge (en_graph e') i = find_edge g i" if "outcome_of (fst (settle_demotion io t n e1)) = O_Ok" for i
    using graph that g [of i] by (cases "n = 0") simp_all
  have "(\<forall>i. find_edge (en_graph e') i = map_option (\<lambda>x.
        if pv_worker_boot (ed_provenance x) = boot \<and> is_current x then demote x else x) (find_edge (en_graph e) i)) \<or>
     (en_graph e' = en_graph e \<and> (\<not> can_advance (en_generation e) \<or> en_persistence_path e \<noteq> [] \<and> (\<exists>x. io x \<noteq> Written)))"
  proof (cases "outcome_of (fst (settle_demotion io t n e1)) = O_Ok")
    case True
    show ?thesis by (rule disjI1) (simp add: ok [OF True] g)
  next
    case False
    then have "en_graph e' = en_graph e" using graph by (simp only: if_False)
    then show ?thesis using settle_demotion_failed [OF False] unfolding gen path by blast
  qed
  moreover have "boot \<in> en_fenced_boots e'" using settle_demotion_frame [of io t n e1] by (simp add: e' e1_def)
  moreover have "pb_fenced s" if "Mapping.lookup (en_publishers e') p = Some s" "pb_worker_boot s = boot" for p s
  proof -
    have "Mapping.lookup (Mapping.map_values (\<lambda>_. fence_registration boot reason) (en_publishers e)) p = Some s"
      using that(1) settle_demotion_frame(2) [of io t n e1] by (simp add: e' e1_def)
    then obtain s0 where "s = fence_registration boot reason s0" by (auto simp: Mapping.lookup_map_values)
    then show ?thesis using that(2) by (simp add: fence_registration_def split: if_splits)
  qed
  ultimately show ?thesis by blast
qed

theorem fence_boot_effect_witness:
  "''b'' \<in> en_fenced_boots (snd (fence_boot (\<lambda>_. Written) ''b'' [] sample_engine))"
  using fence_boot_effect [of sample_engine "''b''" "\<lambda>_. Written" "[]"] sample_graph_inv
  by (cases "fence_boot (\<lambda>_. Written) ''b'' [] sample_engine") auto

lemma settle_epoch_graph:
  assumes "logged g0 (tx_entries t) (en_graph e)" "graph_inv g0" "tx_active t"
  shows "(en_graph (settle_epoch io t e) = g0 \<and> en_persistence_path e \<noteq> [] \<and> (\<exists>x. io x \<noteq> Written)) \<or>
    (\<forall>i. find_edge (en_graph (settle_epoch io t e)) i = find_edge (en_graph e) i)"
proof -
  let ?e = "e\<lparr>en_graph := (en_graph e)\<lparr>g_generation := next_counter (en_generation e)\<rparr>,
    en_generation_advances := en_generation_advances e + 1\<rparr>"
  have log: "logged g0 (tx_entries (note_generation (en_generation e) t)) ((en_graph e)\<lparr>g_generation := next_counter (en_generation e)\<rparr>)"
    using logged.generation_changed [OF assms(1), of "next_counter (en_generation e)"] by (simp add: note_defs en_generation_def)
  show ?thesis
    using log assms persist_failed [of io ?e] persist_failed [of io e]
    by (auto simp: settle_epoch_def Let_def rollback_logged)
qed

lemma settle_epoch_frame:
  "en_epoch (settle_epoch io t e) = en_epoch e" "en_publishers (settle_epoch io t e) = en_publishers e"
  "en_fenced_boots (settle_epoch io t e) = en_fenced_boots e"
  by (simp_all add: settle_epoch_def Let_def split: prod.splits if_splits)

text \<open>C28: advancing the coordinator epoch raises it by one, after which no request at all is
  authorised until publishers register again, and every current relationship a publisher asserted
  requires revalidation. The exception is the last clause: if the durable image cannot be written,
  the demotion is rolled back although the new epoch stays in force.\<close>

theorem epoch_advance_effect:
  assumes inv: "graph_inv (en_graph e)" and can: "can_advance (en_epoch e)"
    and run: "advance_coordinator_epoch io e = (v, e')"
  shows "v = en_epoch e + 1 \<and> en_epoch e' = v \<and> en_fenced_boots e' = en_fenced_boots e \<and>
    (\<forall>au d m. outcome_of (check_authority e' au d m) \<noteq> O_Ok) \<and>
    ((\<forall>i. find_edge (en_graph e') i = map_option (\<lambda>x. if asserted_current x then demote x else x) (find_edge (en_graph e) i)) \<or>
     (en_graph e' = en_graph e \<and> en_persistence_path e \<noteq> [] \<and> (\<exists>x. io x \<noteq> Written)))"
proof -
  let ?ids = "Mapping.ordered_keys (g_edges (en_graph e))"
  obtain t g n where loop: "demote_loop asserted_current ?ids begin_txn (en_graph e) 0 = (t, g, n)" by (metis prod_cases3)
  note epoch = epoch_loop_demote_loop [OF inv loop, of False]
  define e2 where "e2 = e\<lparr>en_epoch := next_counter (en_epoch e), en_publishers := Mapping.empty, en_graph := g\<rparr>"
  have e': "e' = (if 0 < n then settle_epoch io t e2 else e2)" and v: "v = en_epoch e'"
    using run can epoch by (auto simp: advance_coordinator_epoch_def Let_def e2_def)
  have log: "logged (en_graph e) (tx_entries t) g \<and> tx_active t"
    using demote_loop_logged [OF _ inv loop] by (simp add: logged.nothing)
  have "finite (Mapping.keys (g_edges (en_graph e)))" using inv by (simp add: graph_inv_def)
  then have all: "find_edge (en_graph e) i = Some x \<Longrightarrow> i \<in> set ?ids" for i x
    by (simp add: find_defs mem_keys_Some)
  note find = demote_loop_find [OF inv distinct_ordered_keys loop]
  have "find_edge g i = map_option (\<lambda>x. if asserted_current x then demote x else x) (find_edge (en_graph e) i)" for i
    using find [of i] all [of i] by (auto split: option.splits)
  moreover have "en_graph e2 = g" by (simp add: e2_def)
  ultimately have "(\<forall>i. find_edge (en_graph e') i = map_option (\<lambda>x. if asserted_current x then demote x else x) (find_edge (en_graph e) i)) \<or>
     (en_graph e' = en_graph e \<and> en_persistence_path e \<noteq> [] \<and> (\<exists>x. io x \<noteq> Written))"
    using settle_epoch_graph [of "en_graph e" t e2 io] log inv by (auto simp: e' e2_def)
  moreover have "en_epoch e' = next_counter (en_epoch e)" "en_publishers e' = Mapping.empty" "en_fenced_boots e' = en_fenced_boots e"
    by (simp_all add: e' settle_epoch_frame e2_def)
  moreover have "\<not> authorised e' au d m" for au d m
    using calculation(3) by (simp add: authorised_iff lookup_simps)
  ultimately show ?thesis by (simp add: v next_counter_def authorised_def)
qed

theorem epoch_advance_effect_witness:
  "fst (advance_coordinator_epoch (\<lambda>_. Written) sample_engine) = 2"
  using epoch_advance_effect [of sample_engine "\<lambda>_. Written"] sample_graph_inv
  by (cases "advance_coordinator_epoch (\<lambda>_. Written) sample_engine") (auto simp: can_advance_def)

subsection \<open>What a demotion leaves of the graph\<close>

text \<open>The graph \<open>h\<close> is \<open>g\<close> with the current relationships that satisfy \<open>P\<close> demoted, at the same or
  the next generation.\<close>

definition demoted :: "graph \<Rightarrow> (edge \<Rightarrow> bool) \<Rightarrow> graph \<Rightarrow> bool" where
  "demoted g P h \<longleftrightarrow> graph_inv h \<and>
     (g_generation h = g_generation g \<or> can_advance (g_generation g) \<and> g_generation h = next_counter (g_generation g)) \<and>
     base_frame (h\<lparr>g_generation := g_generation g\<rparr>) = base_frame g \<and> g_nodes h = g_nodes g \<and>
     (\<forall>i. find_edge h i = map_option (\<lambda>x. if P x \<and> is_current x then demote x else x) (find_edge g i))"

lemma demote_loop_demoted:
  assumes inv: "graph_inv g0" and loop: "demote_loop sel is begin_txn g0 0 = (t, g, n)" and dist: "distinct is"
    and cover: "\<And>i x. find_edge g0 i = Some x \<Longrightarrow> (i \<in> set is \<and> sel x) = (P x \<and> is_current x)"
  shows "(can_advance (g_generation g0) \<longrightarrow> demoted g0 P (g\<lparr>g_generation := next_counter (g_generation g0)\<rparr>)) \<and> demoted g0 P g \<and>
    logged g0 (tx_entries t) g \<and> tx_active t \<and> (n = 0 \<longrightarrow> g = g0) \<and> g_generation g = g_generation g0"
proof -
  note find = demote_loop_find [OF inv dist loop]
  have "find_edge g i = map_option (\<lambda>x. if P x \<and> is_current x then demote x else x) (find_edge g0 i)" for i
    using find [of i] cover [of i] by (auto split: option.splits)
  moreover have "find_edge (g\<lparr>g_generation := v\<rparr>) i = find_edge g i" for i v by (simp add: find_edge_def)
  ultimately show ?thesis
    using find demote_loop_logged [OF _ inv loop] by (simp add: demoted_def logged.nothing base_frame_iff)
qed

lemma settled_graph:
  assumes inv: "graph_inv g0"
    and dem: "(can_advance (g_generation g0) \<longrightarrow> demoted g0 P (g\<lparr>g_generation := next_counter (g_generation g0)\<rparr>)) \<and> demoted g0 P g \<and>
      logged g0 (tx_entries t) g \<and> tx_active t \<and> (n = 0 \<longrightarrow> g = g0) \<and> g_generation g = g_generation g0"
    and e: "en_graph e = g"
  shows "en_graph (snd (settle_demotion io t n e)) = g0 \<or> demoted g0 P (en_graph (snd (settle_demotion io t n e)))"
  using settle_demotion_graph [of g0 t e n io] dem inv e by (auto simp: en_generation_def split: if_splits)

lemma fence_publisher_graph:
  assumes inv: "graph_inv (en_graph e)"
  shows "en_graph (snd (fence_publisher io publisher boot reason e)) = en_graph e \<or>
    demoted (en_graph e) (\<lambda>x. pv_publisher (ed_provenance x) = publisher) (en_graph (snd (fence_publisher io publisher boot reason e)))"
proof -
  let ?ids = "sorted_bucket (g_edge_by_publisher (en_graph e)) publisher"
  obtain t g n where loop: "demote_loop is_current ?ids begin_txn (en_graph e) 0 = (t, g, n)" by (metis prod_cases3)
  show ?thesis
  proof (cases "publisher = []")
    case False
    have "(i \<in> set ?ids \<and> is_current x) = (pv_publisher (ed_provenance x) = publisher \<and> is_current x)"
      if "find_edge (en_graph e) i = Some x" for i x
      using that set_publisher_bucket [OF inv False, of i] by auto
    note dem = demote_loop_demoted [OF inv loop distinct_sorted_bucket this]
    have settle: "en_graph (snd (settle_demotion io t n e1)) = en_graph e \<or>
        demoted (en_graph e) (\<lambda>x. pv_publisher (ed_provenance x) = publisher) (en_graph (snd (settle_demotion io t n e1)))"
      if "en_graph e1 = g" for e1
      by (rule settled_graph [OF inv dem that])
    show ?thesis
    proof (cases "Mapping.lookup (en_publishers e) publisher")
      case (Some s)
      let ?e = "e\<lparr>en_fenced_boots := insert boot (en_fenced_boots e),
          en_publishers := Mapping.update publisher (mark_fenced reason s) (en_publishers e), en_graph := g\<rparr>"
      obtain settled e2 where run: "settle_demotion io t n ?e = (settled, e2)" by (metis surj_pair)
      have "en_graph (snd (fence_publisher io publisher boot reason e)) \<in> {en_graph e, en_graph e2}"
        using Some False loop run by (cases "pb_fenced s") (simp_all add: fence_publisher_def Let_def del: if_split)
      then show ?thesis using settle [of ?e] run by auto
    qed (simp add: fence_publisher_def Let_def)
  qed (simp add: fence_publisher_def)
qed

lemma fence_boot_graph:
  assumes inv: "graph_inv (en_graph e)"
  shows "en_graph (snd (fence_boot io boot reason e)) = en_graph e \<or>
    demoted (en_graph e) (\<lambda>x. pv_worker_boot (ed_provenance x) = boot) (en_graph (snd (fence_boot io boot reason e)))"
proof -
  obtain t g n where loop: "demote_loop (\<lambda>_. True) (boot_edges boot (en_graph e)) begin_txn (en_graph e) 0 = (t, g, n)"
    by (metis prod_cases3)
  have "(i \<in> set (boot_edges boot (en_graph e)) \<and> True) = (pv_worker_boot (ed_provenance x) = boot \<and> is_current x)"
    if "find_edge (en_graph e) i = Some x" for i x
    using that set_boot_edges [OF inv, of i boot] by simp
  note dem = demote_loop_demoted [OF inv loop distinct_boot_edges this]
  have settle: "en_graph (snd (settle_demotion io t n e1)) = en_graph e \<or>
      demoted (en_graph e) (\<lambda>x. pv_worker_boot (ed_provenance x) = boot) (en_graph (snd (settle_demotion io t n e1)))"
    if "en_graph e1 = g" for e1
    by (rule settled_graph [OF inv dem that])
  show ?thesis
    using settle [of "e\<lparr>en_fenced_boots := insert boot (en_fenced_boots e),
      en_publishers := Mapping.map_values (\<lambda>_. fence_registration boot reason) (en_publishers e), en_graph := g\<rparr>"]
    by (simp add: fence_boot_def Let_def loop)
qed

lemma fence_boot_spares:
  assumes "graph_inv (en_graph e)" "fence_boot io boot reason e = (n, e')" "find_edge (en_graph e) i = Some x"
    "pv_worker_boot (ed_provenance x) \<noteq> boot"
  shows "find_edge (en_graph e') i = Some x"
  using fence_boot_graph [OF assms(1), of io boot reason] assms(2-4) by (auto simp: demoted_def)

lemma epoch_graph:
  assumes inv: "graph_inv (en_graph e)"
  shows "en_graph (snd (advance_coordinator_epoch io e)) = en_graph e \<or>
    demoted (en_graph e) (\<lambda>x. pv_publisher (ed_provenance x) \<noteq> []) (en_graph (snd (advance_coordinator_epoch io e)))"
proof -
  let ?ids = "Mapping.ordered_keys (g_edges (en_graph e))"
  obtain t g n where loop: "demote_loop asserted_current ?ids begin_txn (en_graph e) 0 = (t, g, n)" by (metis prod_cases3)
  note epoch = epoch_loop_demote_loop [OF inv loop, of False]
  have "finite (Mapping.keys (g_edges (en_graph e)))" using inv by (simp add: graph_inv_def)
  then have "(i \<in> set ?ids \<and> asserted_current x) = (pv_publisher (ed_provenance x) \<noteq> [] \<and> is_current x)"
    if "find_edge (en_graph e) i = Some x" for i x
    using that by (auto simp: find_defs mem_keys_Some asserted_current_def is_current_def)
  note dem = demote_loop_demoted [OF inv loop distinct_ordered_keys this]
  have settle: "en_graph (settle_epoch io t e1) = en_graph e \<or>
      demoted (en_graph e) (\<lambda>x. pv_publisher (ed_provenance x) \<noteq> []) (en_graph (settle_epoch io t e1))" if "en_graph e1 = g" for e1
  proof -
    have "logged (en_graph e) (tx_entries (note_generation (g_generation g) t)) (g\<lparr>g_generation := v\<rparr>)" for v
      using dem logged.generation_changed [of "en_graph e" "tx_entries t" g v] by (simp add: note_defs)
    then show ?thesis
      using dem inv that by (auto simp: settle_epoch_def Let_def rollback_logged en_generation_def)
  qed
  show ?thesis
    using dem settle epoch by (simp add: advance_coordinator_epoch_def Let_def)
qed

end
