(* ===== verification/Mutation.thy ===== *)
theory Mutation
  imports Fencing
begin

text \<open>
  What every mutation of the engine shares (\<open>mutations.hpp\<close>, \<open>src/topology_mutations.cpp\<close>): the
  result record, the ways a handler returns, \<open>finalize_mutation\<close> and the diff of a commit. The
  predicate \<open>atomic\<close> is the contract of a mutation: it commits and moves the topology generation
  by one, or it leaves the graph alone; it never touches authority.
\<close>

subsection \<open>Results\<close>

record mutation_result =
  mr_status :: status
  mr_generation :: u64
  mr_node :: "string option"
  mr_edge :: "string option"
  mr_diff :: topology_diff

definition empty_diff :: topology_diff where
  "empty_diff = \<lparr>td_entries = [], td_digest = [], td_from_generation = 0, td_to_generation = 0\<rparr>"

definition answer :: "status \<Rightarrow> mutation_result" where
  "answer s = \<lparr>mr_status = s, mr_generation = 0, mr_node = None, mr_edge = None, mr_diff = empty_diff\<rparr>"

definition accepted :: "mutation_result \<Rightarrow> bool" where
  "accepted r = outcome_is_success (outcome_of (mr_status r))"

definition changed :: "mutation_result \<Rightarrow> bool" where
  "changed r = (outcome_of (mr_status r) = O_Committed)"

definition render_mutation :: "mutation_result \<Rightarrow> string" where
  "render_mutation r =
     render_status (mr_status r) @ newline @ ''generation='' @ u64_string (mr_generation r) @
     (case mr_node r of Some i \<Rightarrow> '' node='' @ i | None \<Rightarrow> []) @
     (case mr_edge r of Some i \<Rightarrow> '' edge='' @ i | None \<Rightarrow> []) @
     '' diff_entries='' @ decimal (length (td_entries (mr_diff r)))"

text \<open>The ways a handler returns early: without a lock, with the rejection counted, with it also
  counted for the publisher whose authority was established, or accepted without a change.\<close>

definition rejected :: "status \<Rightarrow> engine \<Rightarrow> mutation_result \<times> engine" where
  "rejected s e = ((answer s)\<lparr>mr_generation := en_generation e\<rparr>, note_rejected e)"

definition rejected_by :: "string \<Rightarrow> status \<Rightarrow> engine \<Rightarrow> mutation_result \<times> engine" where
  "rejected_by p s e = rejected s (publisher_rejected p e)"

definition unchanged :: "string \<Rightarrow> status \<Rightarrow> string option \<Rightarrow> string option \<Rightarrow> engine \<Rightarrow> mutation_result \<times> engine" where
  "unchanged p s n i e =
     ((answer s)\<lparr>mr_node := n, mr_edge := i, mr_generation := en_generation e\<rparr>, publisher_committed p (note_idempotent e))"

definition stale_generation :: "string \<Rightarrow> u64 \<Rightarrow> engine \<Rightarrow> status option" where
  "stale_generation code expected e =
     (if expected \<noteq> 0 \<and> expected \<noteq> en_generation e
      then Some (explain O_StaleGeneration code
             [(''expected'', u64_string expected), (''current'', u64_string (en_generation e))])
      else None)"

definition with_reason :: "string \<Rightarrow> status \<Rightarrow> status" where
  "with_reason reason s = (if reason \<noteq> [] then with_field s ''reason'' reason else s)"

subsection \<open>Committing\<close>

definition finalize_mutation :: "(engine \<Rightarrow> file_result) \<Rightarrow> txn \<Rightarrow> engine \<Rightarrow> status \<times> engine" where
  "finalize_mutation io t e =
     (let t' = note_generation (en_generation e) t in
      if \<not> can_advance (en_generation e)
      then (make_status O_ResourceLimit ''generation.exhausted'', e\<lparr>en_graph := snd (rollback t' (en_graph e))\<rparr>)
      else
        let e' = e\<lparr>en_graph := (en_graph e)\<lparr>g_generation := next_counter (en_generation e)\<rparr>,
                   en_generation_advances := en_generation_advances e + 1\<rparr>;
            persisted = persist_locked io e' in
        if outcome_of persisted \<noteq> O_Ok then (persisted, e'\<lparr>en_graph := snd (rollback t' (en_graph e'))\<rparr>)
        else (make_status O_Ok ''mutation.ok'', e'))"

definition conclude :: "(engine \<Rightarrow> file_result) \<Rightarrow> string \<Rightarrow> txn \<Rightarrow> (engine \<Rightarrow> mutation_result) \<Rightarrow> engine \<Rightarrow>
    mutation_result \<times> engine" where
  "conclude io p t success e =
     (case finalize_mutation io t e of
        (finalized, e') \<Rightarrow>
          if outcome_of finalized \<noteq> O_Ok then rejected_by p finalized e'
          else (success e', note_committed (publisher_committed p e')))"

text \<open>With the self-check an option asks for; its failure returns without counting anything.\<close>

definition conclude_verified :: "(engine \<Rightarrow> file_result) \<Rightarrow> string \<Rightarrow> txn \<Rightarrow> (engine \<Rightarrow> mutation_result) \<Rightarrow> engine \<Rightarrow>
    mutation_result \<times> engine" where
  "conclude_verified io p t success e =
     (case finalize_mutation io t e of
        (finalized, e') \<Rightarrow>
          if outcome_of finalized \<noteq> O_Ok then rejected_by p finalized e'
          else if en_verify_indexes e' \<and> outcome_of (verify_indexes (en_graph e')) \<noteq> O_Ok
          then (answer (verify_indexes (en_graph e')), e')
          else (success e', note_committed (publisher_committed p e')))"

definition commit_diff :: "diff_entry list \<Rightarrow> u64 \<Rightarrow> topology_diff" where
  "commit_diff entries v = \<lparr>td_entries = entries, td_digest = [], td_from_generation = v - 1, td_to_generation = v\<rparr>"

definition finish_diff :: "diff_entry list \<Rightarrow> u64 \<Rightarrow> topology_diff" where
  "finish_diff entries v = seal_diff (commit_diff (sort_key entry_rank entries) v)"

definition committed_result :: "status \<Rightarrow> string option \<Rightarrow> string option \<Rightarrow> (u64 \<Rightarrow> topology_diff) \<Rightarrow> engine \<Rightarrow> mutation_result" where
  "committed_result s n i diff e =
     \<lparr>mr_status = s, mr_generation = en_generation e, mr_node = n, mr_edge = i, mr_diff = diff (en_generation e)\<rparr>"

lemma answer_sel [simp]: "mr_status (answer s) = s" "mr_status (committed_result s n i d e) = s"
  by (simp_all add: answer_def committed_result_def)

lemma outcome_with_reason [simp, outcome_simps]: "outcome_of (with_reason reason s) = outcome_of s"
  by (simp add: with_reason_def)

lemma stale_generation_outcome: "stale_generation code v e = Some s \<Longrightarrow> outcome_of s = O_StaleGeneration"
  by (auto simp: stale_generation_def split: if_splits)

subsection \<open>What a mutation leaves alone\<close>

text \<open>Everything of the engine but the graph and the counters.\<close>

definition plain_publisher :: "publisher_state \<Rightarrow> publisher_state" where
  "plain_publisher s = s\<lparr>pb_committed := 0, pb_rejected := 0\<rparr>"

definition control :: "engine \<Rightarrow> engine" where
  "control e = e\<lparr>en_graph := new_graph (en_limits e), en_publishers := Mapping.map_values (\<lambda>_. plain_publisher) (en_publishers e),
     en_committed := 0, en_idempotent := 0, en_rejected := 0, en_generation_advances := 0\<rparr>"

named_theorems control_simps

lemma control_counters [control_simps]:
  "control (note_committed e) = control e" "control (note_idempotent e) = control e" "control (note_rejected e) = control e"
  "control (e\<lparr>en_graph := g\<rparr>) = control e"
  "control (e\<lparr>en_graph := g, en_generation_advances := v\<rparr>) = control e"
  "control (e\<lparr>en_generation_advances := v\<rparr>) = control e"
  by (simp_all add: control_def note_committed_def note_idempotent_def note_rejected_def)

lemma map_values_update:
  "Mapping.lookup m k = Some x \<Longrightarrow> f y = f x \<Longrightarrow> Mapping.map_values (\<lambda>_. f) (Mapping.update k y m) = Mapping.map_values (\<lambda>_. f) m"
  by (rule mapping_eqI) (auto simp: lookup_simps Mapping.lookup_map_values)

lemma control_publishers [control_simps]:
  "control (publisher_committed p e) = control e" "control (publisher_rejected p e) = control e"
  by (simp_all add: publisher_committed_def publisher_rejected_def on_publisher_def control_def
      map_values_update [of _ _ _ plain_publisher] plain_publisher_def split: option.split)

lemma counters_graph [simp]:
  "en_graph (note_committed e) = en_graph e" "en_graph (note_idempotent e) = en_graph e" "en_graph (note_rejected e) = en_graph e"
  "en_graph (publisher_committed p e) = en_graph e" "en_graph (publisher_rejected p e) = en_graph e"
  by (simp_all add: note_committed_def note_idempotent_def note_rejected_def publisher_committed_def
      publisher_rejected_def on_publisher_def split: option.splits)

lemma counters_generation [simp]:
  "en_generation (note_committed e) = en_generation e" "en_generation (note_idempotent e) = en_generation e"
  "en_generation (note_rejected e) = en_generation e" "en_generation (publisher_committed p e) = en_generation e"
  "en_generation (publisher_rejected p e) = en_generation e"
  by (simp_all add: en_generation_def)

lemma control_sel:
  assumes "control e' = control e"
  shows "en_epoch e' = en_epoch e" "en_fenced_boots e' = en_fenced_boots e" "en_limits e' = en_limits e"
    "en_directory e' = en_directory e" "en_persistence_path e' = en_persistence_path e"
    "en_verify_indexes e' = en_verify_indexes e" "en_snapshots e' = en_snapshots e" "en_attempts e' = en_attempts e"
    "Mapping.map_values (\<lambda>_. plain_publisher) (en_publishers e') = Mapping.map_values (\<lambda>_. plain_publisher) (en_publishers e)"
  using arg_cong [OF assms, of en_epoch] arg_cong [OF assms, of en_fenced_boots] arg_cong [OF assms, of en_limits]
    arg_cong [OF assms, of en_directory] arg_cong [OF assms, of en_persistence_path] arg_cong [OF assms, of en_verify_indexes]
    arg_cong [OF assms, of en_snapshots] arg_cong [OF assms, of en_attempts] arg_cong [OF assms, of en_publishers]
  by (simp_all add: control_def)

text \<open>So a mutation changes nobody's authority.\<close>

lemma control_authorised:
  assumes "control e' = control e"
  shows "authorised e' au d m = authorised e au d m"
proof -
  have look: "map_option plain_publisher (Mapping.lookup (en_publishers e') p) = map_option plain_publisher (Mapping.lookup (en_publishers e) p)" for p
    using arg_cong [OF control_sel(9) [OF assms], of "\<lambda>x. Mapping.lookup x p"] by (simp add: Mapping.lookup_map_values)
  have grant: "grant_for (plain_publisher s) = grant_for s" for s
    by (simp add: plain_publisher_def grant_for_def fun_eq_iff)
  have iff: "authorised e au d m \<longleftrightarrow> au_publisher au \<noteq> [] \<and> au_worker_boot au \<noteq> [] \<and> au_coordinator_epoch au = en_epoch e \<and>
     au_worker_boot au \<notin> en_fenced_boots e \<and>
     (case map_option plain_publisher (Mapping.lookup (en_publishers e) (au_publisher au)) of None \<Rightarrow> False | Some s \<Rightarrow>
       pb_worker_boot s = au_worker_boot au \<and> pb_coordinator_epoch s = en_epoch e \<and> \<not> pb_fenced s \<and> m \<le> grant_for s d)" for e
    unfolding authorised_iff by (simp add: grant split: option.split) (simp add: plain_publisher_def)
  show ?thesis unfolding iff look control_sel(1,2) [OF assms] ..
qed

subsection \<open>The contract of a mutation\<close>

definition atomic :: "engine \<Rightarrow> mutation_result \<times> engine \<Rightarrow> bool" where
  "atomic e x \<longleftrightarrow> control (snd x) = control e \<and>
     (if changed (fst x) then can_advance (en_generation e) \<and> en_generation (snd x) = en_generation e + 1
      else en_graph (snd x) = en_graph e)"

text \<open>How a handler ends: with the graph as it was, or with the graph \<open>g\<close> and the next generation.\<close>

definition ends_with :: "engine \<Rightarrow> graph \<Rightarrow> mutation_result \<times> engine \<Rightarrow> bool" where
  "ends_with e g x \<longleftrightarrow> control (snd x) = control e \<and>
     (if changed (fst x) then can_advance (en_generation e) \<and> en_graph (snd x) = g\<lparr>g_generation := en_generation e + 1\<rparr>
      else en_graph (snd x) = en_graph e)"

lemma ends_with_atomic: "ends_with e g x \<Longrightarrow> atomic e x"
  by (auto simp: ends_with_def atomic_def en_generation_def split: if_splits)

lemma rejected_ends [simp]:
  "outcome_of s \<noteq> O_Committed \<Longrightarrow> ends_with e g (rejected s e)"
  "outcome_of s \<noteq> O_Committed \<Longrightarrow> ends_with e g (rejected_by p s e)"
  "outcome_of s \<noteq> O_Committed \<Longrightarrow> ends_with e g (unchanged p s n i e)"
  "outcome_of s \<noteq> O_Committed \<Longrightarrow> ends_with e g (answer s, e)"
  by (simp_all add: ends_with_def changed_def rejected_def rejected_by_def unchanged_def answer_def control_simps)

lemma finalize_ends:
  assumes log: "logged (en_graph e) (tx_entries t) g" and inv: "graph_inv (en_graph e)" and act: "tx_active t"
    and gen: "g_generation g = en_generation e" and run: "finalize_mutation io t (e\<lparr>en_graph := g\<rparr>) = (s, e')"
  shows "control e' = control e \<and>
    (if outcome_of s = O_Ok
     then can_advance (en_generation e) \<and> en_graph e' = g\<lparr>g_generation := en_generation e + 1\<rparr>
     else en_graph e' = en_graph e) \<and> outcome_of s \<noteq> O_Committed"
proof -
  have eg: "en_generation (e\<lparr>en_graph := g\<rparr>) = en_generation e" using gen by (simp add: en_generation_def)
  have "logged (en_graph e) (tx_entries (note_generation (en_generation e) t)) (g\<lparr>g_generation := v\<rparr>)" for v
    using logged.generation_changed [OF log, of v] gen by (simp add: note_defs en_generation_def)
  from rollback_logged [OF inv this] act
  have roll: "snd (rollback (note_generation (en_generation e) t) (g\<lparr>g_generation := v\<rparr>)) = en_graph e" for v by simp
  have "g = g\<lparr>g_generation := en_generation e\<rparr>" using gen by (cases g) (simp add: en_generation_def)
  with roll have roll0: "snd (rollback (note_generation (en_generation e) t) g) = en_graph e" by metis
  show ?thesis
    using run by (auto simp: finalize_mutation_def Let_def eg roll roll0 control_simps next_counter_def split: if_splits)
qed

lemma conclude_ends:
  assumes "logged (en_graph e) (tx_entries t) g" "graph_inv (en_graph e)" "tx_active t" "g_generation g = en_generation e"
    and "\<And>e'. changed (success e')"
  shows "ends_with e g (conclude io p t success (e\<lparr>en_graph := g\<rparr>))"
proof -
  obtain s e' where run: "finalize_mutation io t (e\<lparr>en_graph := g\<rparr>) = (s, e')" by (metis surj_pair)
  show ?thesis
    using finalize_ends [OF assms(1-4) run] assms(5)
    by (simp add: conclude_def run ends_with_def control_simps rejected_by_def rejected_def changed_def)
qed

lemma conclude_verified_ends:
  assumes "logged (en_graph e) (tx_entries t) g" "graph_inv (en_graph e)" "tx_active t" "g_generation g = en_generation e"
    and "\<And>e'. changed (success e')"
  shows "ends_with e g (conclude_verified io p t success (e\<lparr>en_graph := g\<rparr>))"
proof -
  obtain s e' where run: "finalize_mutation io t (e\<lparr>en_graph := g\<rparr>) = (s, e')" by (metis surj_pair)
  note fin = finalize_ends [OF assms(1-4) run]
  have "graph_inv (g\<lparr>g_generation := v\<rparr>)" for v using logged_inv [OF assms(1,2)] by simp
  then have "outcome_of s = O_Ok \<Longrightarrow> outcome_of (verify_indexes (en_graph e')) = O_Ok"
    using fin by (auto intro: verify_indexes_consistent)
  then show ?thesis
    using fin assms(5)
    by (simp add: conclude_verified_def run ends_with_def control_simps rejected_by_def rejected_def changed_def)
qed

lemma verify_not_committed: "outcome_of (verify_indexes g) \<noteq> O_Committed"
  by (auto simp: verify_indexes_def compare_indexes_def index_failure_def dest: compare_domains_outcome split: option.split)

lemma finalize_not_committed: "outcome_of (fst (finalize_mutation io t e)) \<noteq> O_Committed"
  by (simp add: finalize_mutation_def Let_def)

text \<open>A committed result is the one the handler prepared.\<close>

lemma conclude_result:
  "changed (fst (conclude io p t success e)) \<Longrightarrow> \<exists>e'. fst (conclude io p t success e) = success e'"
  "changed (fst (conclude_verified io p t success e)) \<Longrightarrow> \<exists>e'. fst (conclude_verified io p t success e) = success e'"
  using finalize_not_committed [of io t e] verify_not_committed
  by (auto simp: conclude_def conclude_verified_def changed_def rejected_by_def rejected_def answer_def split: prod.splits if_splits)

end
