(* ===== verification/Candidate.thy ===== *)
theory Candidate
  imports Mutation
begin

text \<open>
  The checks every relationship passes before it is stored (\<open>src/reconciliation.cpp\<close>, lines 44 to
  261): which domain it belongs to, and whether the candidate fits the relation table, its
  endpoints, its supporting edge, the exclusive attachments and the acyclic relations. Where the
  code walks a hash set the order is unspecified; the model walks it in identifier order, which
  only decides which of several conflicting edges an explanation names.
\<close>

subsection \<open>Domain resolution\<close>

record domain_resolution =
  dr_ok :: bool
  dr_domain :: string
  dr_cross_domain :: bool
  dr_secondary_domain :: string
  dr_status :: status

definition unresolved :: "status \<Rightarrow> domain_resolution" where
  "unresolved s = \<lparr>dr_ok = False, dr_domain = [], dr_cross_domain = False, dr_secondary_domain = [], dr_status = s\<rparr>"

definition cross_domain_permitted :: "cross_domain_rule list \<Rightarrow> string \<Rightarrow> string \<Rightarrow> relation_class \<Rightarrow> bool" where
  "cross_domain_permitted rules from_domain to_domain relation =
     list_ex (\<lambda>rule.
       ((cr_from_domain rule = from_domain \<and> cr_to_domain rule = to_domain) \<or>
        (cr_symmetric rule \<and> cr_from_domain rule = to_domain \<and> cr_to_domain rule = from_domain)) \<and>
       cr_relation rule = relation) rules"

definition resolve_relationship_domain ::
  "graph \<Rightarrow> string \<Rightarrow> string \<Rightarrow> string \<Rightarrow> relation_class \<Rightarrow> bool \<Rightarrow> domain_resolution" where
  "resolve_relationship_domain g from_domain to_domain requested relation allow_cross_domain =
     (if from_domain = [] \<or> to_domain = []
      then unresolved (make_status O_DomainViolation ''domain.endpoint_scope_missing'')
      else if from_domain = to_domain
      then
        if requested \<noteq> [] \<and> requested \<noteq> from_domain
        then unresolved (explain O_DomainViolation ''domain.requested_scope_mismatch''
               [(''requested'', requested), (''endpoint_scope'', from_domain)])
        else \<lparr>dr_ok = True, dr_domain = from_domain, dr_cross_domain = False, dr_secondary_domain = [],
               dr_status = make_status O_Ok ''domain.resolved''\<rparr>
      else if \<not> allow_cross_domain
      then unresolved (explain O_DomainViolation ''domain.cross_domain_not_permitted''
             [(''from_domain'', from_domain), (''to_domain'', to_domain)])
      else if requested = [] \<or> (requested \<noteq> from_domain \<and> requested \<noteq> to_domain)
      then unresolved (explain O_DomainViolation ''domain.cross_domain_scope_ambiguous''
             [(''from_domain'', from_domain), (''to_domain'', to_domain)])
      else if \<not> cross_domain_permitted (g_cross_domain_rules g) from_domain to_domain relation
      then unresolved (explain O_DomainViolation ''domain.cross_domain_rule_missing''
             [(''from_domain'', from_domain), (''to_domain'', to_domain), (''relation'', relation_string relation)])
      else \<lparr>dr_ok = True, dr_domain = requested, dr_cross_domain = True,
             dr_secondary_domain = (if requested = from_domain then to_domain else from_domain),
             dr_status = make_status O_Ok ''domain.cross_domain_resolved''\<rparr>)"

subsection \<open>Candidates\<close>

record relationship_candidate =
  cd_id :: string
  cd_relationship_id :: string
  cd_relation :: relation_class
  cd_from :: string
  cd_to :: string
  cd_layer :: topology_layer
  cd_domain :: string
  cd_cross_domain :: bool
  cd_secondary_domain :: string
  cd_evidence_generation :: u64
  cd_supported_by :: "string option"
  cd_attachment :: "string option"
  cd_exclusive_attachment :: bool
  cd_metadata :: metadata
  cd_evidence_type :: publication_type
  cd_source :: discovery_source
  cd_source_relationship_id :: string

definition endpoint_lifecycle_failure :: "string \<Rightarrow> string \<Rightarrow> node \<Rightarrow> status option" where
  "endpoint_lifecycle_failure role i n =
     (if nd_lifecycle n = LS_Retired
      then Some (explain O_Retired (''relationship.'' @ role @ ''_retired'') [(role, i)])
      else if nd_lifecycle n = LS_Superseded
      then Some (explain O_Superseded (''relationship.'' @ role @ ''_superseded'') [(role, i)])
      else None)"

definition rule_failure :: "relationship_candidate \<Rightarrow> node \<Rightarrow> node \<Rightarrow> status option" where
  "rule_failure c from_node to_node =
     (if \<not> relation_endpoints_permitted (cd_relation c) (nd_class from_node) (nd_class to_node)
      then Some (explain O_IncompatibleEntityClass ''relationship.endpoint_class_pairing''
             [(''relation'', relation_string (cd_relation c)), (''from_class'', node_class_string (nd_class from_node)),
              (''to_class'', node_class_string (nd_class to_node))])
      else if \<not> relation_layer_permitted (cd_relation c) (cd_layer c)
      then Some (explain O_MalformedRequest ''relationship.layer_policy''
             [(''relation'', relation_string (cd_relation c)), (''layer'', layer_string (cd_layer c))])
      else if cd_from c = cd_to c \<and> \<not> rule_self_edge_allowed (relation_rules (cd_relation c))
      then Some (explain O_InvalidEndpoint ''relationship.self_link''
             [(''node'', cd_from c), (''relation'', relation_string (cd_relation c))])
      else None)"

definition support_failure :: "graph \<Rightarrow> relationship_candidate \<Rightarrow> status option" where
  "support_failure g c =
     (case cd_supported_by c of None \<Rightarrow> None | Some s \<Rightarrow>
        case find_edge g s of
          None \<Rightarrow> Some (explain O_UnknownEntity ''relationship.support_unknown'' [(''supported_by'', s)])
        | Some support \<Rightarrow>
            if s = cd_id c then Some (make_status O_CycleRejected ''relationship.self_support'')
            else if cd_layer c = Logical \<and> ed_layer support \<noteq> Physical
            then Some (explain O_RelationshipConflict ''relationship.support_not_physical''
                   [(''supported_by'', ed_id support), (''support_layer'', layer_string (ed_layer support))])
            else None)"

definition attachment_conflict :: "graph \<Rightarrow> relationship_candidate \<Rightarrow> string \<Rightarrow> string \<Rightarrow> status option" where
  "attachment_conflict g c a i =
     (if i = cd_id c then None
      else case find_edge g i of None \<Rightarrow> None | Some other \<Rightarrow>
        if ed_lifecycle other \<noteq> LS_Current \<or> (ed_to other = cd_to c \<and> ed_from other = cd_from c) then None
        else Some (explain O_RelationshipConflict ''relationship.attachment_conflict''
               [(''attachment'', a), (''conflicting_edge'', ed_id other)]))"

definition endpoint_conflict :: "graph \<Rightarrow> relationship_candidate \<Rightarrow> string \<Rightarrow> status option" where
  "endpoint_conflict g c i =
     (if i = cd_id c then None
      else case find_edge g i of None \<Rightarrow> None | Some other \<Rightarrow>
        if ed_relation other \<noteq> RC_AttachedTo \<or> ed_lifecycle other \<noteq> LS_Current then None
        else case ed_attachment other of None \<Rightarrow> None | Some b \<Rightarrow>
          if ed_from other \<noteq> cd_from c then None
          else Some (explain O_RelationshipConflict ''relationship.exclusive_attachment_exists''
                 [(''endpoint'', cd_from c), (''existing_edge'', ed_id other), (''existing_attachment'', b)]))"

fun first_some :: "('a \<Rightarrow> 'b option) \<Rightarrow> 'a list \<Rightarrow> 'b option" where
  "first_some f [] = None"
| "first_some f (x # xs) = (case f x of Some y \<Rightarrow> Some y | None \<Rightarrow> first_some f xs)"

definition exclusive_failure :: "graph \<Rightarrow> relationship_candidate \<Rightarrow> status option" where
  "exclusive_failure g c =
     (if \<not> cd_exclusive_attachment c then None
      else case cd_attachment c of None \<Rightarrow> None | Some a \<Rightarrow>
        case first_some (attachment_conflict g c a) (sorted_bucket (g_edge_by_attachment g) a) of
          Some s \<Rightarrow> Some s
        | None \<Rightarrow> first_some (endpoint_conflict g c) (sorted_bucket (g_incident g) (cd_from c)))"

definition cycle_failure :: "graph \<Rightarrow> relationship_candidate \<Rightarrow> bool \<Rightarrow> status option" where
  "cycle_failure g c is_new =
     (if is_new \<and> would_create_cycle g (cd_relation c) (cd_from c) (cd_to c) = Some True
      then Some (explain O_CycleRejected ''relationship.cycle''
             [(''relation'', relation_string (cd_relation c)), (''from'', cd_from c), (''to'', cd_to c),
              (''cycle_rule'', ''ACYCLIC'')])
      else None)"

definition endpoints_failure :: "relationship_candidate \<Rightarrow> node \<Rightarrow> node \<Rightarrow> status option" where
  "endpoints_failure c from_node to_node =
     (case endpoint_lifecycle_failure ''from'' (cd_from c) from_node of Some s \<Rightarrow> Some s | None \<Rightarrow>
      case endpoint_lifecycle_failure ''to'' (cd_to c) to_node of Some s \<Rightarrow> Some s | None \<Rightarrow>
        rule_failure c from_node to_node)"

text \<open>\<open>None\<close> stands for \<open>ok\<close> with the status \<open>relationship.valid\<close>.\<close>

definition validate_relationship_candidate :: "graph \<Rightarrow> relationship_candidate \<Rightarrow> bool \<Rightarrow> status option" where
  "validate_relationship_candidate g c is_new =
     (if cd_relation c = RC_Unknown then Some (make_status O_MalformedRequest ''relationship.relation_unknown'')
      else if cd_id c = [] then Some (make_status O_MalformedRequest ''relationship.id_missing'')
      else if cd_relationship_id c = [] then Some (make_status O_MalformedRequest ''relationship.relationship_id_missing'')
      else case find_node g (cd_from c) of
        None \<Rightarrow> Some (explain O_UnknownEntity ''relationship.from_unknown'' [(''from'', cd_from c)])
      | Some from_node \<Rightarrow>
          (case find_node g (cd_to c) of
             None \<Rightarrow> Some (explain O_UnknownEntity ''relationship.to_unknown'' [(''to'', cd_to c)])
           | Some to_node \<Rightarrow>
               (case endpoints_failure c from_node to_node of Some s \<Rightarrow> Some s | None \<Rightarrow>
                case support_failure g c of Some s \<Rightarrow> Some s | None \<Rightarrow>
                case exclusive_failure g c of Some s \<Rightarrow> Some s | None \<Rightarrow>
                  cycle_failure g c is_new)))"

end
