(* ===== verification/Wellformed.thy ===== *)
theory Wellformed
  imports Candidate
begin

text \<open>
  The invariant of the authoritative graph that the mutations maintain together: consistent
  indexes, acyclic relations, relationships that fit the relation table, whose endpoints are
  stored and whose domains are those of their endpoints, and nodes in declared domains. One
  preservation lemma per primitive change of the graph.
\<close>

subsection \<open>The invariant\<close>

definition scope_ok :: "graph \<Rightarrow> edge \<Rightarrow> string \<Rightarrow> string \<Rightarrow> bool" where
  "scope_ok g x from_domain to_domain \<longleftrightarrow>
     (if ed_cross_domain x
      then from_domain \<noteq> to_domain \<and> {from_domain, to_domain} = {ed_domain x, ed_secondary_domain x} \<and>
        cross_domain_permitted (g_cross_domain_rules g) from_domain to_domain (ed_relation x)
      else from_domain = ed_domain x \<and> to_domain = ed_domain x)"

definition edge_fits :: "graph \<Rightarrow> edge \<Rightarrow> bool" where
  "edge_fits g x \<longleftrightarrow> (\<exists>a b. find_node g (ed_from x) = Some a \<and> find_node g (ed_to x) = Some b \<and>
     relation_endpoints_permitted (ed_relation x) (nd_class a) (nd_class b) \<and>
     relation_layer_permitted (ed_relation x) (ed_layer x) \<and> ed_from x \<noteq> ed_to x \<and>
     scope_ok g x (nd_domain a) (nd_domain b))"

definition graph_ok :: "graph \<Rightarrow> bool" where
  "graph_ok g \<longleftrightarrow> graph_inv g \<and> acyclic_relations_hold g \<and> nesting_ok (g_domain_definitions g) \<and> rules_ok g \<and>
     (\<forall>i n. find_node g i = Some n \<longrightarrow> i \<noteq> [] \<and> has_key (g_domain_definitions g) (nd_domain n)) \<and>
     (\<forall>i x. find_edge g i = Some x \<longrightarrow> i \<noteq> [] \<and> edge_fits g x)"

lemma graph_okD:
  assumes "graph_ok g"
  shows "graph_inv g" "acyclic_relations_hold g" "nesting_ok (g_domain_definitions g)" "rules_ok g"
    "find_node g i = Some n \<Longrightarrow> has_key (g_domain_definitions g) (nd_domain n)"
    "find_node g i = Some n \<Longrightarrow> i \<noteq> []" "find_edge g j = Some x \<Longrightarrow> edge_fits g x" "find_edge g j = Some x \<Longrightarrow> j \<noteq> []"
  using assms by (auto simp: graph_ok_def)

lemma graph_ok_new: "graph_ok (new_graph lim)"
  by (simp add: graph_ok_def nesting_ok_new rules_ok_def acyclic_relations_hold_def depends_def find_defs)
    (simp add: new_graph_def acyclic_def)

text \<open>What a node contributes to the fitting of its edges.\<close>

definition node_shape :: "node \<Rightarrow> node_class \<times> string" where
  "node_shape n = (nd_class n, nd_domain n)"

lemma edge_fits_cong:
  assumes "edge_fits g x" and shape: "\<And>i n. i \<in> {ed_from x, ed_to x} \<Longrightarrow> find_node g i = Some n \<Longrightarrow>
      \<exists>m. find_node h i = Some m \<and> node_shape m = node_shape n"
    and "g_cross_domain_rules h = g_cross_domain_rules g"
  shows "edge_fits h x"
proof -
  obtain a b where ab: "find_node g (ed_from x) = Some a" "find_node g (ed_to x) = Some b"
    "relation_endpoints_permitted (ed_relation x) (nd_class a) (nd_class b)"
    "relation_layer_permitted (ed_relation x) (ed_layer x)" "ed_from x \<noteq> ed_to x" "scope_ok g x (nd_domain a) (nd_domain b)"
    using assms(1) by (auto simp: edge_fits_def)
  obtain a' b' where "find_node h (ed_from x) = Some a'" "node_shape a' = node_shape a"
    "find_node h (ed_to x) = Some b'" "node_shape b' = node_shape b"
    using shape [of "ed_from x" a] shape [of "ed_to x" b] ab by auto
  then show ?thesis
    using ab assms(3) by (auto simp: edge_fits_def node_shape_def scope_ok_def)
qed

lemma edge_fits_same_nodes:
  assumes "g_nodes h = g_nodes g" "g_cross_domain_rules h = g_cross_domain_rules g"
  shows "edge_fits h x = edge_fits g x"
  unfolding edge_fits_def scope_ok_def find_node_def assms ..

lemma edge_fits_more_rules:
  assumes "edge_fits g x" "g_nodes h = g_nodes g" "set (g_cross_domain_rules g) \<subseteq> set (g_cross_domain_rules h)"
  shows "edge_fits h x"
proof -
  obtain a b where ab: "find_node g (ed_from x) = Some a" "find_node g (ed_to x) = Some b"
    "relation_endpoints_permitted (ed_relation x) (nd_class a) (nd_class b)"
    "relation_layer_permitted (ed_relation x) (ed_layer x)" "ed_from x \<noteq> ed_to x" "scope_ok g x (nd_domain a) (nd_domain b)"
    using assms(1) by (auto simp: edge_fits_def)
  have "scope_ok h x (nd_domain a) (nd_domain b)"
    using ab(6) assms(3) unfolding scope_ok_def cross_domain_permitted_def list_ex_iff by (auto split: if_splits)
  then show ?thesis using ab assms(2) by (auto simp: edge_fits_def find_node_def)
qed

subsection \<open>Edges\<close>

text \<open>An update of an edge that keeps what it relates, and does not bring back an ended edge.\<close>

definition same_shape :: "edge \<Rightarrow> edge \<Rightarrow> bool" where
  "same_shape x y \<longleftrightarrow> ed_id y = ed_id x \<and> ed_relation y = ed_relation x \<and> ed_from y = ed_from x \<and> ed_to y = ed_to x \<and>
     ed_domain y = ed_domain x \<and> ed_cross_domain y = ed_cross_domain x \<and> ed_secondary_domain y = ed_secondary_domain x \<and>
     (ended x \<longrightarrow> ended y)"

lemma same_shape_identity:
  "same_shape x y \<Longrightarrow> ed_relationship_id y = ed_relationship_id x \<Longrightarrow> same_edge_identity x y"
  by (simp add: same_shape_def same_edge_identity_def edge_key_of_def)

lemma same_shape_fits:
  "same_shape x y \<Longrightarrow> relation_layer_permitted (ed_relation y) (ed_layer y) \<Longrightarrow> edge_fits g x \<Longrightarrow> edge_fits g y"
  by (auto simp: same_shape_def edge_fits_def scope_ok_def)

lemma frame_of_edge_ops:
  "g_domain_definitions (snd (insert_edge x g)) = g_domain_definitions g"
  "g_cross_domain_rules (snd (insert_edge x g)) = g_cross_domain_rules g"
  "g_generation (snd (insert_edge x g)) = g_generation g"
  "g_domain_definitions (snd (update_edge x g)) = g_domain_definitions g"
  "g_cross_domain_rules (snd (update_edge x g)) = g_cross_domain_rules g"
  "g_generation (snd (update_edge x g)) = g_generation g"
  "g_domain_definitions (snd (erase_edge i g)) = g_domain_definitions g"
  "g_cross_domain_rules (snd (erase_edge i g)) = g_cross_domain_rules g"
  "g_generation (snd (erase_edge i g)) = g_generation g"
  using edge_ops_frame(2) [of x g] edge_ops_frame(4) [of i g] edge_ops_frame(6) [of x g] by (simp_all add: base_frame_iff)

lemma frame_of_node_ops:
  "g_domain_definitions (snd (insert_node n g)) = g_domain_definitions g"
  "g_cross_domain_rules (snd (insert_node n g)) = g_cross_domain_rules g"
  "g_generation (snd (insert_node n g)) = g_generation g"
  "g_domain_definitions (snd (update_node n g)) = g_domain_definitions g"
  "g_cross_domain_rules (snd (update_node n g)) = g_cross_domain_rules g"
  "g_generation (snd (update_node n g)) = g_generation g"
  "g_domain_definitions (snd (erase_node i g)) = g_domain_definitions g"
  "g_cross_domain_rules (snd (erase_node i g)) = g_cross_domain_rules g"
  "g_generation (snd (erase_node i g)) = g_generation g"
  using node_ops_frame(2) [of n g] node_ops_frame(4) [of i g] node_ops_frame(6) [of n g] by (simp_all add: base_frame_iff)

lemma find_node_edge_ops [simp]:
  "find_node (snd (insert_edge x g)) i = find_node g i" "find_node (snd (update_edge x g)) i = find_node g i"
  "find_node (snd (erase_edge j g)) i = find_node g i"
  by (simp_all add: find_node_def frame_simps)

lemma find_edge_node_ops [simp]:
  "find_edge (snd (insert_node n g)) i = find_edge g i" "find_edge (snd (update_node n g)) i = find_edge g i"
  "find_edge (snd (erase_node j g)) i = find_edge g i"
  by (simp_all add: find_edge_def frame_simps)

lemma rules_ok_frame:
  "g_domain_definitions h = g_domain_definitions g \<Longrightarrow> g_cross_domain_rules h = g_cross_domain_rules g \<Longrightarrow> rules_ok h = rules_ok g"
  unfolding rules_ok_def by (simp only:)

lemma ok_by_edges:
  assumes ok: "graph_ok g" and inv: "graph_inv h" and acyc: "acyclic_relations_hold h"
    and frame: "g_nodes h = g_nodes g" "g_domain_definitions h = g_domain_definitions g"
      "g_cross_domain_rules h = g_cross_domain_rules g"
    and edges: "\<And>i x. find_edge h i = Some x \<Longrightarrow> i \<noteq> [] \<and> (edge_fits g x)"
  shows "graph_ok h"
  unfolding graph_ok_def
proof (intro conjI allI impI inv acyc)
  show "nesting_ok (g_domain_definitions h)" "rules_ok h"
    using graph_okD(3,4) [OF ok] rules_ok_frame [OF frame(2,3)] by (simp_all add: frame)
  show "i \<noteq> []" if "find_node h i = Some n" for i n
    using that graph_okD(6) [OF ok, of i n] by (simp add: find_node_def frame)
  show "has_key (g_domain_definitions h) (nd_domain n)" if "find_node h i = Some n" for i n
    using that graph_okD(5) [OF ok, of i n] by (simp add: find_node_def frame)
  show "i \<noteq> []" "edge_fits h x" if "find_edge h i = Some x" for i x
    using edges [OF that] by (simp_all add: edge_fits_same_nodes [OF frame(1,3)])
qed

lemma ok_update_edge:
  assumes ok: "graph_ok g" and old: "find_edge g (ed_id y) = Some x" and same: "same_shape x y"
    and rel: "find_edge_by_relationship g (ed_relationship_id y) \<in> {None, Some (ed_id y)}"
    and layer: "relation_layer_permitted (ed_relation y) (ed_layer y)"
  shows "graph_ok (snd (update_edge y g))"
proof (rule ok_by_edges [OF ok])
  note inv = graph_okD(1) [OF ok]
  have "edge_key_of y = edge_key_of x" using same by (simp add: same_shape_def edge_key_of_def)
  moreover have "secondary_declared (g_domain_definitions g) x" by (rule stored_secondary_declared [OF inv old])
  ultimately show "graph_inv (snd (update_edge y g))"
    using same edge_key_indexed [OF inv old] rel
    by (intro update_edge_inv [OF inv old]) (auto simp: secondary_declared_def has_secondary_def same_shape_def)
  show "acyclic_relations_hold (snd (update_edge y g))"
    using same by (intro acyclic_update_edge [OF graph_okD(2) [OF ok] old]) (auto simp: same_shape_def)
  show "i \<noteq> [] \<and> edge_fits g z" if "find_edge (snd (update_edge y g)) i = Some z" for i z
    using that old graph_okD(7,8) [OF ok, of i] same_shape_fits [OF same layer, of g]
    by (auto simp: find_after_update_edge split: if_splits)
qed (simp_all add: frame_simps frame_of_edge_ops)

lemma ok_update_edge_kept:
  assumes ok: "graph_ok g" and old: "find_edge g (ed_id y) = Some x" and same: "same_shape x y"
    and "ed_relationship_id y = ed_relationship_id x" "ed_layer y = ed_layer x"
  shows "graph_ok (snd (update_edge y g))"
proof (rule ok_update_edge [OF ok old same])
  show "find_edge_by_relationship g (ed_relationship_id y) \<in> {None, Some (ed_id y)}"
    using edge_relationship_indexed [OF graph_okD(1) [OF ok] old] assms(4) by simp
  show "relation_layer_permitted (ed_relation y) (ed_layer y)"
    using graph_okD(7) [OF ok old] assms(5) same by (auto simp: edge_fits_def same_shape_def)
qed

lemma ok_erase_edge: "graph_ok g \<Longrightarrow> graph_ok (snd (erase_edge i g))"
  by (rule ok_by_edges)
    (auto simp: frame_simps frame_of_edge_ops erase_edge_inv acyclic_erase_edge find_defs lookup_simps
      dest: graph_okD split: if_splits)

lemma ok_insert_edge:
  assumes ok: "graph_ok g" and fresh: "find_edge g (ed_id x) = None" "find_edge_by_key g (edge_key_of x) = None"
    "find_edge_by_relationship g (ed_relationship_id x) = None"
    and id: "ed_id x \<noteq> []" and fits: "edge_fits g x"
    and cycle: "would_create_cycle g (ed_relation x) (ed_from x) (ed_to x) \<noteq> Some True"
  shows "graph_ok (snd (insert_edge x g))"
proof (rule ok_by_edges [OF ok])
  note inv = graph_okD(1) [OF ok]
  obtain a b where ab: "find_node g (ed_from x) = Some a" "find_node g (ed_to x) = Some b" "scope_ok g x (nd_domain a) (nd_domain b)"
    using fits by (auto simp: edge_fits_def)
  have "secondary_declared (g_domain_definitions g) x"
    using ab graph_okD(5) [OF ok ab(1)] graph_okD(5) [OF ok ab(2)]
    by (auto simp: secondary_declared_def has_secondary_def scope_ok_def doubleton_eq_iff)
  then show "graph_inv (snd (insert_edge x g))" by (intro insert_edge_inv inv fresh)
  have "would_create_cycle g (ed_relation x) (ed_from x) (ed_to x) = Some False"
    using cycle would_create_cycle_iff [OF inv] by auto
  then show "acyclic_relations_hold (snd (insert_edge x g))"
    by (rule acyclic_insert_edge [OF inv graph_okD(2) [OF ok] fresh(1)])
  have ins: "fst (insert_edge x g)" using fresh(1) by (simp add: insert_edge_def has_key_def find_edge_def)
  show "i \<noteq> [] \<and> edge_fits g z" if "find_edge (snd (insert_edge x g)) i = Some z" for i z
    using that graph_okD(7,8) [OF ok, of i] fits id by (auto simp: find_after_insert_edge [OF ins] split: if_splits)
qed (simp_all add: frame_simps frame_of_edge_ops)

subsection \<open>Nodes\<close>

lemma ok_by_nodes:
  assumes ok: "graph_ok g" and inv: "graph_inv h" and frame: "g_edges h = g_edges g"
      "g_domain_definitions h = g_domain_definitions g" "g_cross_domain_rules h = g_cross_domain_rules g"
    and nodes: "\<And>i n. find_node h i = Some n \<Longrightarrow> i \<noteq> [] \<and> has_key (g_domain_definitions g) (nd_domain n)"
    and kept: "\<And>i n j x. find_edge g j = Some x \<Longrightarrow> i \<in> {ed_from x, ed_to x} \<Longrightarrow> find_node g i = Some n \<Longrightarrow>
      \<exists>m. find_node h i = Some m \<and> node_shape m = node_shape n"
  shows "graph_ok h"
  unfolding graph_ok_def
proof (intro conjI allI impI inv)
  show "acyclic_relations_hold h" using graph_okD(2) [OF ok] acyclic_cong [OF frame(1)] by simp
  show "nesting_ok (g_domain_definitions h)" "rules_ok h"
    using graph_okD(3,4) [OF ok] rules_ok_frame [OF frame(2,3)] by (simp_all add: frame)
  show "i \<noteq> []" "has_key (g_domain_definitions h) (nd_domain n)" if "find_node h i = Some n" for i n
    using nodes [OF that] by (simp_all add: frame)
  have edge: "find_edge g i = Some x" if "find_edge h i = Some x" for i x using that by (simp add: find_edge_def frame)
  show "i \<noteq> []" "edge_fits h x" if "find_edge h i = Some x" for i x
    using graph_okD(7,8) [OF ok edge [OF that]] edge_fits_cong [OF graph_okD(7) [OF ok edge [OF that]] kept [OF edge [OF that]] frame(3)]
    by simp_all
qed

lemma ok_update_node:
  assumes ok: "graph_ok g" and old: "find_node g (nd_id n) = Some n0" and same: "node_shape n = node_shape n0"
    and free: "find_node_by_entity g (nd_entity_id n) \<in> {None, Some (nd_id n)}"
  shows "graph_ok (snd (update_node n g))"
  using ok update_node_inv [OF graph_okD(1) [OF ok] old free]
proof (rule ok_by_nodes)
  show "i \<noteq> [] \<and> has_key (g_domain_definitions g) (nd_domain m)" if "find_node (snd (update_node n g)) i = Some m" for i m
    using that old same graph_okD(5,6) [OF ok, of i] by (auto simp: find_after_update_node node_shape_def split: if_splits)
  show "\<exists>m'. find_node (snd (update_node n g)) i = Some m' \<and> node_shape m' = node_shape m" if "find_node g i = Some m" for i m
    using that old same by (auto simp: find_after_update_node)
qed (simp_all add: frame_simps frame_of_node_ops)

lemma ok_insert_node:
  assumes ok: "graph_ok g" and fresh: "find_node g (nd_id n) = None" "find_node_by_entity g (nd_entity_id n) = None"
    and id: "nd_id n \<noteq> []" and dom: "has_key (g_domain_definitions g) (nd_domain n)"
  shows "graph_ok (snd (insert_node n g))"
  using ok insert_node_inv [OF graph_okD(1) [OF ok] fresh]
proof (rule ok_by_nodes)
  have find: "find_node (snd (insert_node n g)) i = (if i = nd_id n then Some n else find_node g i)" for i
    using fresh(1) by (simp add: find_node_def lookup_simps has_key_def)
  show "i \<noteq> [] \<and> has_key (g_domain_definitions g) (nd_domain m)" if "find_node (snd (insert_node n g)) i = Some m" for i m
    using that id dom graph_okD(5,6) [OF ok, of i] by (auto simp: find split: if_splits)
  show "\<exists>m'. find_node (snd (insert_node n g)) i = Some m' \<and> node_shape m' = node_shape m" if "find_node g i = Some m" for i m
    using that fresh(1) by (auto simp: find)
qed (simp_all add: frame_simps frame_of_node_ops)

lemma ok_erase_node:
  assumes ok: "graph_ok g" and free: "\<And>j x. find_edge g j = Some x \<Longrightarrow> ed_from x \<noteq> i \<and> ed_to x \<noteq> i"
  shows "graph_ok (snd (erase_node i g))"
  using ok erase_node_inv [OF graph_okD(1) [OF ok]]
proof (rule ok_by_nodes)
  have find: "find_node (snd (erase_node i g)) j = (if j = i then None else find_node g j)" for j
    by (simp add: find_node_def lookup_simps)
  show "j \<noteq> [] \<and> has_key (g_domain_definitions g) (nd_domain m)" if "find_node (snd (erase_node i g)) j = Some m" for j m
    using that graph_okD(5,6) [OF ok, of j] by (auto simp: find split: if_splits)
  show "\<exists>m'. find_node (snd (erase_node i g)) k = Some m' \<and> node_shape m' = node_shape m"
    if "find_edge g j = Some x" "k \<in> {ed_from x, ed_to x}" "find_node g k = Some m" for j x k m
    using that free [OF that(1)] by (auto simp: find)
qed (simp_all add: frame_simps frame_of_node_ops)

subsection \<open>Generation, domains and rules\<close>

lemma ok_generation [simp]: "graph_ok (g\<lparr>g_generation := v\<rparr>) = graph_ok g"
proof -
  let ?h = "g\<lparr>g_generation := v\<rparr>"
  have "acyclic_relations_hold ?h = acyclic_relations_hold g" by (rule acyclic_cong) simp
  moreover have "edge_fits ?h x = edge_fits g x" for x by (rule edge_fits_same_nodes) simp_all
  moreover have "find_node ?h i = find_node g i" "find_edge ?h i = find_edge g i" for i by (simp_all add: find_defs)
  moreover have "rules_ok ?h = rules_ok g" by (rule rules_ok_frame) simp_all
  ultimately show ?thesis by (simp add: graph_ok_def)
qed

lemma ok_declare_domain:
  assumes ok: "graph_ok g" and "\<not> has_key (g_domain_definitions g) (dd_id d)" "dd_id d \<noteq> []"
    "dd_parent d = [] \<or> has_key (g_domain_definitions g) (dd_parent d)"
  shows "graph_ok (declare_domain d g)"
proof -
  let ?h = "declare_domain d g"
  have "has_key (g_domain_definitions g) x \<Longrightarrow> has_key (g_domain_definitions ?h) x" for x
    by (simp add: declare_domain_frame lookup_simps)
  moreover from this have "rules_ok ?h" using graph_okD(4) [OF ok] by (auto simp: rules_ok_def declare_domain_frame(4))
  moreover have "nesting_ok (g_domain_definitions ?h)"
    using nesting_ok_declare [OF graph_okD(3) [OF ok] assms(2-4)] by (simp add: declare_domain_frame)
  moreover have "acyclic_relations_hold ?h = acyclic_relations_hold g" by (rule acyclic_cong) (rule declare_domain_frame)
  moreover have "edge_fits ?h x = edge_fits g x" for x by (rule edge_fits_same_nodes) (rule declare_domain_frame)+
  moreover have "find_node ?h i = find_node g i" "find_edge ?h i = find_edge g i" for i
    by (simp_all add: find_defs declare_domain_frame)
  ultimately show ?thesis
    using ok declare_domain_inv [OF graph_okD(1) [OF ok], of d] by (simp add: graph_ok_def)
qed

lemma ok_add_rule:
  assumes ok: "graph_ok g" and "has_key (g_domain_definitions g) (cr_from_domain r)" "has_key (g_domain_definitions g) (cr_to_domain r)"
  shows "graph_ok (g\<lparr>g_cross_domain_rules := g_cross_domain_rules g @ [r]\<rparr>)"
proof -
  let ?h = "g\<lparr>g_cross_domain_rules := g_cross_domain_rules g @ [r]\<rparr>"
  have "graph_inv ?h" using graph_okD(1) [OF ok] by (simp add: graph_inv_def indexes_ok_def)
  moreover have "edge_fits g x \<Longrightarrow> edge_fits ?h x" for x by (erule edge_fits_more_rules) auto
  moreover have "acyclic_relations_hold ?h = acyclic_relations_hold g" by (rule acyclic_cong) simp
  moreover have "find_node ?h i = find_node g i" "find_edge ?h i = find_edge g i" for i by (simp_all add: find_defs)
  moreover have "rules_ok ?h" using graph_okD(4) [OF ok] assms(2,3) by (auto simp: rules_ok_def)
  ultimately show ?thesis using ok by (simp add: graph_ok_def)
qed


text \<open>A demotion keeps the invariant.\<close>

lemma same_shape_demote: "is_current x \<Longrightarrow> same_shape x (demote x)"
  by (simp add: same_shape_def demote_def is_current_def ended_def)

lemma ok_demoted:
  assumes ok: "graph_ok g" and dem: "demoted g P h"
  shows "graph_ok h"
proof (rule ok_by_edges [OF ok])
  have find: "find_edge h i = map_option (\<lambda>x. if P x \<and> is_current x then demote x else x) (find_edge g i)" for i
    using dem by (simp add: demoted_def)
  have shape: "\<exists>x0. find_edge g i = Some x0 \<and> same_shape x0 x \<and> ed_layer x = ed_layer x0" if "find_edge h i = Some x" for i x
  proof -
    obtain x0 where x0: "find_edge g i = Some x0" "x = (if P x0 \<and> is_current x0 then demote x0 else x0)"
      using \<open>find_edge h i = Some x\<close> find [of i] by (cases "find_edge g i") simp_all
    have "same_shape x0 x" using same_shape_demote [of x0] x0(2) by (simp add: same_shape_def)
    with x0 show ?thesis by (auto simp: demote_def)
  qed
  show "graph_inv h" "g_nodes h = g_nodes g" "g_domain_definitions h = g_domain_definitions g"
    "g_cross_domain_rules h = g_cross_domain_rules g"
    using dem by (simp_all add: demoted_def base_frame_iff)
  have "depends h r \<subseteq> depends g r" for r
  proof
    fix p
    assume "p \<in> depends h r"
    then obtain i x where x: "find_edge h i = Some x" "cycle_edge_active r x" "p = (ed_from x, ed_to x)"
      unfolding depends_def by auto
    obtain x0 where "find_edge g i = Some x0" "same_shape x0 x" using shape [OF x(1)] by blast
    with x show "p \<in> depends g r"
      unfolding depends_def by (auto simp: same_shape_def cycle_edge_active_def ended_def)
  qed
  then show "acyclic_relations_hold h"
    using graph_okD(2) [OF ok] by (auto simp: acyclic_relations_hold_def intro: acyclic_subset)
  show "i \<noteq> [] \<and> edge_fits g x" if "find_edge h i = Some x" for i x
  proof -
    obtain x0 where x0: "find_edge g i = Some x0" "same_shape x0 x" "ed_layer x = ed_layer x0" using shape [OF \<open>find_edge h i = Some x\<close>] by blast
    have fits: "edge_fits g x0" by (rule graph_okD(7) [OF ok x0(1)])
    then have "relation_layer_permitted (ed_relation x) (ed_layer x)" using x0(2,3) by (auto simp: edge_fits_def same_shape_def)
    with same_shape_fits [OF x0(2) _ fits] graph_okD(8) [OF ok x0(1)] show ?thesis by simp
  qed
qed

end
