(* ===== verification/Samples.thy ===== *)
theory Samples
  imports Wellformed
begin

text \<open>
  A small world for instances of the properties: one domain, a network adapter \<open>nic\<close> and two
  switches \<open>s1\<close> and \<open>s2\<close>, a directory that knows their entities, and a publisher \<open>p\<close> whose boot
  \<open>b\<close> may write the domain.
\<close>

definition demo_node :: "string \<Rightarrow> node_class \<Rightarrow> node" where
  "demo_node i c = \<lparr>nd_id = i, nd_entity_id = ''ent-'' @ i, nd_entity_class = node_class_entity_class c,
     nd_entity_generation = 1, nd_class = c, nd_tier = TT_Leaf, nd_domain = ''d'', nd_generation = 1,
     nd_created_generation = 0, nd_last_validated_generation = 0, nd_lifecycle = LS_Current,
     nd_provenance = sample_provenance, nd_metadata = []\<rparr>"

definition demo_graph :: graph where
  "demo_graph = snd (insert_node (demo_node ''nic'' NC_Nic) (snd (insert_node (demo_node ''s2'' NC_Switch)
     (snd (insert_node (demo_node ''s1'' NC_Switch) (declare_domain sample_domain (new_graph default_limits)))))))"

definition demo_record :: "string \<Rightarrow> entity_class \<Rightarrow> u64 \<Rightarrow> entity_record" where
  "demo_record i c v = sample_record\<lparr>er_entity_id := i, er_entity_class := c, er_generation := v\<rparr>"

definition demo_directory :: "string \<Rightarrow> entity_record option" where
  "demo_directory i =
     (if i = ''ent-nic'' then Some (demo_record i EC_Nic 1)
      else if i = ''ent-s1'' then Some (demo_record i EC_Switch 2)
      else if i = ''ent-s2'' \<or> i = ''ent-s3'' then Some (demo_record i EC_Switch 1) else None)"

definition demo_engine :: engine where
  "demo_engine = (new_engine (sample_options\<lparr>op_directory := Some demo_directory\<rparr>))\<lparr>en_graph := demo_graph,
     en_publishers := Mapping.update ''p'' sample_publisher Mapping.empty\<rparr>"

definition demo_authority :: authority_context where
  "demo_authority = \<lparr>au_coordinator_epoch = 1, au_publisher = ''p'', au_worker_boot = ''b'', au_evidence_generation = 7,
     au_attempt = [], au_publication = []\<rparr>"

lemma demo_node_fields [simp]:
  "nd_id (demo_node i c) = i" "nd_entity_id (demo_node i c) = ''ent-'' @ i" "nd_domain (demo_node i c) = ''d''"
  "nd_class (demo_node i c) = c" "nd_lifecycle (demo_node i c) = LS_Current" "nd_entity_generation (demo_node i c) = 1"
  by (simp_all add: demo_node_def)

lemma demo_graph_base:
  "g_nodes demo_graph = Mapping.update ''nic'' (demo_node ''nic'' NC_Nic) (Mapping.update ''s2'' (demo_node ''s2'' NC_Switch)
     (Mapping.update ''s1'' (demo_node ''s1'' NC_Switch) Mapping.empty))"
  "g_edges demo_graph = Mapping.empty" "g_generation demo_graph = 0"
  "g_domain_definitions demo_graph = Mapping.update ''d'' sample_domain Mapping.empty" "g_cross_domain_rules demo_graph = []"
  by (simp_all add: demo_graph_def lookup_simps frame_simps frame_of_node_ops declare_domain_frame has_key_def)
    (simp_all add: new_graph_def sample_domain_def)

lemma demo_graph_find:
  "find_node demo_graph i = (if i = ''nic'' then Some (demo_node i NC_Nic)
     else if i = ''s1'' \<or> i = ''s2'' then Some (demo_node i NC_Switch) else None)"
  "find_edge demo_graph j = None"
  by (simp_all add: find_defs demo_graph_base lookup_simps)

lemma demo_graph_ok: "graph_ok demo_graph"
proof -
  let ?g0 = "declare_domain sample_domain (new_graph default_limits)"
  have g0: "graph_ok ?g0"
    by (rule ok_declare_domain [OF graph_ok_new]) (simp_all add: new_graph_def sample_domain_def has_key_def)
  have key: "has_key (g_domain_definitions ?g0) ''d''" by (simp add: declare_domain_frame sample_domain_def lookup_simps)
  have none: "find_node ?g0 i = None" "find_node_by_entity ?g0 k = None" for i k
    by (simp_all add: find_defs declare_domain_frame) (simp_all add: new_graph_def declare_domain_def touch_domain_def)
  have ins: "find_node (snd (insert_node n g)) i = (if i = nd_id n then Some n else find_node g i)"
    "find_node_by_entity (snd (insert_node n g)) k = (if k = nd_entity_id n then Some (nd_id n) else find_node_by_entity g k)"
    if "find_node g (nd_id n) = None" for n g i k
    using that by (simp_all add: find_defs lookup_simps has_key_def insert_node_def index_node_def)
  let ?g1 = "snd (insert_node (demo_node ''s1'' NC_Switch) ?g0)"
  let ?g2 = "snd (insert_node (demo_node ''s2'' NC_Switch) ?g1)"
  have g1: "graph_ok ?g1" by (rule ok_insert_node [OF g0]) (simp_all add: none key)
  have g2: "graph_ok ?g2" by (rule ok_insert_node [OF g1]) (simp_all add: ins none key frame_of_node_ops)
  show ?thesis unfolding demo_graph_def
    by (rule ok_insert_node [OF g2]) (simp_all add: ins none key frame_of_node_ops)
qed

lemma demo_engine_fields [simp]:
  "en_graph demo_engine = demo_graph" "en_epoch demo_engine = 1" "en_fenced_boots demo_engine = {}"
  "Mapping.lookup (en_publishers demo_engine) p = (if p = ''p'' then Some sample_publisher else None)"
  "en_persistence_path demo_engine = []" "en_limits demo_engine = default_limits" "\<not> en_verify_indexes demo_engine"
  "engine_lookup demo_engine i = demo_directory i" "en_generation demo_engine = 0"
  by (simp_all add: demo_engine_def new_engine_def sample_options_def lookup_simps engine_lookup_def en_generation_def demo_graph_base)

lemma demo_authorised [simp]: "outcome_of (check_authority demo_engine demo_authority ''d'' m) = O_Ok"
  using authorised_iff [of demo_engine demo_authority "''d''" m]
  by (cases m) (simp_all add: authorised_def demo_authority_def sample_publisher_def grant_for_def less_grant_mode_def less_eq_grant_mode_def)

lemma persist_disabled [simp]: "en_persistence_path e = [] \<Longrightarrow> outcome_of (persist_locked io e) = O_Ok"
  by (simp add: persist_locked_def)

lemma changed_committed [simp]: "changed (committed_result s n i d e) = (outcome_of s = O_Committed)"
  by (simp add: changed_def)

text \<open>A commit goes through when nothing is written and the generation can advance.\<close>

lemma conclude_commits:
  assumes "en_persistence_path e = []" "can_advance (en_generation e)" "\<And>e'. changed (success e')"
  shows "changed (fst (conclude io p t success e))"
    "\<not> en_verify_indexes e \<Longrightarrow> changed (fst (conclude_verified io p t success e))"
  using assms by (simp_all add: conclude_def conclude_verified_def finalize_mutation_def Let_def)

end
