(* ===== verification/Nodes.thy ===== *)
theory Nodes
  imports Samples
begin

text \<open>
  Adding, rebinding and removing nodes (\<open>TopologyEngine::add_node\<close>, \<open>remove_node\<close> in
  \<open>src/topology_engine.cpp\<close>), with \<open>fence_edges_for_node_change\<close>, which asks for revalidation of
  every live relationship of a node whose entity generation changed.
\<close>

record add_node_request =
  an_node_id :: "string option"
  an_entity_id :: string
  an_node_class :: node_class
  an_tier :: topology_tier
  an_domain :: string
  an_expected_generation :: u64
  an_metadata :: metadata

record remove_node_request =
  rn_node :: string
  rn_expected_generation :: u64
  rn_cascade_relationships :: bool
  rn_reason :: string

subsection \<open>Relationships of a changed node\<close>

definition rebind_end :: "string \<Rightarrow> u64 \<Rightarrow> edge \<Rightarrow> edge" where
  "rebind_end i v x =
     (if ed_from x = i then x\<lparr>ed_from_entity_generation := v\<rparr> else x\<lparr>ed_to_entity_generation := v\<rparr>)"

definition bound_generation :: "string \<Rightarrow> edge \<Rightarrow> u64" where
  "bound_generation i x = (if ed_from x = i then ed_from_entity_generation x else ed_to_entity_generation x)"

definition fence_skips :: "string \<Rightarrow> u64 \<Rightarrow> edge \<Rightarrow> bool" where
  "fence_skips i v x =
     (ed_lifecycle x = LS_Retired \<or> ed_lifecycle x = LS_Superseded \<or>
      (bound_generation i x = v \<and> ed_lifecycle x = LS_RevalidationRequired))"

definition fence_edge :: "string \<Rightarrow> u64 \<Rightarrow> edge \<Rightarrow> edge" where
  "fence_edge i v x = demote (rebind_end i v x)"

text \<open>The loop over the incident relationships, in identifier order. \<open>skip\<close> and \<open>change\<close> are the
  tests and the edit of its body; the entity rebinding of \<open>replace_endpoint_generation\<close> uses it too.\<close>

fun fence_loop :: "(edge \<Rightarrow> bool) \<Rightarrow> (edge \<Rightarrow> edge) \<Rightarrow> string list \<Rightarrow> txn \<Rightarrow> graph \<Rightarrow> diff_entry list \<Rightarrow>
    txn \<times> graph \<times> diff_entry list" where
  "fence_loop skip change [] t g d = (t, g, d)"
| "fence_loop skip change (i # is) t g d =
     (case find_edge g i of
        None \<Rightarrow> fence_loop skip change is t g d
      | Some x \<Rightarrow>
          if skip x then fence_loop skip change is t g d
          else fence_loop skip change is (note_edge_updated x t) (snd (update_edge (change x) g))
                 (d @ [edge_entry DK_CurrentnessChanged (ed_id x) (lifecycle_string (ed_lifecycle x))
                         (lifecycle_string LS_RevalidationRequired)]))"

definition fence_edges_for_node_change :: "string \<Rightarrow> u64 \<Rightarrow> txn \<Rightarrow> graph \<Rightarrow> txn \<times> graph \<times> diff_entry list" where
  "fence_edges_for_node_change i v t g =
     fence_loop (fence_skips i v) (fence_edge i v) (sorted_bucket (g_incident g) i) t g []"

subsection \<open>Adding a node\<close>

definition add_node_malformed :: "limits \<Rightarrow> add_node_request \<Rightarrow> status option" where
  "add_node_malformed lim r =
     (if an_entity_id r = [] then Some (make_status O_MalformedRequest ''node.entity_id_missing'')
      else if length (an_entity_id r) > max_identifier_bytes lim then Some (make_status O_ResourceLimit ''node.entity_id_too_long'')
      else if an_node_class r = NC_Unknown then Some (make_status O_MalformedRequest ''node.node_class_unknown'')
      else if an_domain r = [] then Some (make_status O_MalformedRequest ''node.domain_missing'')
      else if outcome_of (metadata_validate (an_metadata r) lim) \<noteq> O_Ok then Some (metadata_validate (an_metadata r) lim)
      else None)"

definition resolve_entity :: "engine \<Rightarrow> add_node_request \<Rightarrow> status + entity_record" where
  "resolve_entity e r =
     (case engine_lookup e (an_entity_id r) of
        None \<Rightarrow> Inl (explain O_UnknownEntity ''node.entity_unknown'' [(''entity_id'', an_entity_id r)])
      | Some rec \<Rightarrow>
          if er_retired rec then Inl (explain O_Retired ''node.entity_retired'' [(''entity_id'', an_entity_id r)])
          else if er_superseded rec
          then Inl (explain O_Superseded ''node.entity_superseded''
                 ((''entity_id'', an_entity_id r) #
                  (if er_superseded_by rec \<noteq> [] then [(''superseded_by'', er_superseded_by rec)] else [])))
          else if node_class_entity_class (an_node_class r) = EC_Unknown \<or>
                  er_entity_class rec \<noteq> node_class_entity_class (an_node_class r)
          then Inl (explain O_IncompatibleEntityClass ''node.entity_class_mismatch''
                 [(''entity_id'', an_entity_id r), (''registry_class'', entity_class_string (er_entity_class rec)),
                  (''node_class'', node_class_string (an_node_class r))])
          else Inr rec)"

definition node_unchanged :: "add_node_request \<Rightarrow> entity_record \<Rightarrow> node \<Rightarrow> bool" where
  "node_unchanged r rec n =
     (nd_entity_generation n = er_generation rec \<and> nd_tier n = an_tier r \<and> nd_metadata n = an_metadata r \<and>
      nd_lifecycle n = LS_Current)"

definition refreshed_node :: "u64 \<Rightarrow> add_node_request \<Rightarrow> entity_record \<Rightarrow> node \<Rightarrow> node" where
  "refreshed_node v r rec n =
     n\<lparr>nd_entity_generation := er_generation rec, nd_tier := an_tier r, nd_metadata := an_metadata r,
       nd_lifecycle := LS_Current, nd_generation := advance_if_possible (nd_generation n),
       nd_last_validated_generation := v\<rparr>"

definition refresh_node :: "add_node_request \<Rightarrow> entity_record \<Rightarrow> node \<Rightarrow> graph \<Rightarrow> txn \<times> graph \<times> diff_entry list" where
  "refresh_node r rec n g =
     (let n' = refreshed_node (g_generation g) r rec n;
          t = note_node_updated n begin_txn;
          g' = snd (update_node n' g);
          entry = node_entry DK_NodeGenerationChanged (nd_id n) (u64_string (nd_entity_generation n))
                    (u64_string (nd_entity_generation n')) in
      if nd_entity_generation n \<noteq> nd_entity_generation n'
      then (case fence_edges_for_node_change (nd_id n) (nd_entity_generation n') t g' of (t', g'', d) \<Rightarrow> (t', g'', d @ [entry]))
      else (t, g', [entry]))"

definition declared_node :: "authority_context \<Rightarrow> add_node_request \<Rightarrow> entity_record \<Rightarrow> string \<Rightarrow> u64 \<Rightarrow> node" where
  "declared_node au r rec i v =
     \<lparr>nd_id = i, nd_entity_id = an_entity_id r, nd_entity_class = er_entity_class rec,
      nd_entity_generation = er_generation rec, nd_class = an_node_class r, nd_tier = an_tier r,
      nd_domain = an_domain r, nd_generation = 1, nd_created_generation = v, nd_last_validated_generation = v,
      nd_lifecycle = LS_Current,
      nd_provenance = \<lparr>pv_publisher = au_publisher au, pv_worker_boot = au_worker_boot au,
        pv_coordinator_epoch = au_coordinator_epoch au, pv_source = DS_OperatorDeclaration, pv_evidence_type = PT_Real,
        pv_evidence_generation = au_evidence_generation au, pv_source_relationship_id = [],
        pv_publication = au_publication au, pv_created_generation = v, pv_last_validated_generation = v\<rparr>,
      nd_metadata = an_metadata r\<rparr>"

definition add_node_success :: "string \<Rightarrow> diff_entry list \<Rightarrow> engine \<Rightarrow> mutation_result" where
  "add_node_success i d = committed_result (make_status O_Committed ''node.committed'') (Some i) None (commit_diff d)"

definition add_new_node ::
  "(engine \<Rightarrow> file_result) \<Rightarrow> authority_context \<Rightarrow> add_node_request \<Rightarrow> entity_record \<Rightarrow> string \<Rightarrow> engine \<Rightarrow>
   mutation_result \<times> engine" where
  "add_new_node io au r rec i e =
     (let p = au_publisher au; g = en_graph e in
      if find_node_by_entity g (an_entity_id r) \<noteq> None
      then rejected_by p (explain O_DuplicateIdentity ''node.entity_already_bound'' [(''entity_id'', an_entity_id r)]) e
      else if map_size (g_nodes g) \<ge> max_nodes (en_limits e)
      then rejected_by p (make_status O_ResourceLimit ''node.limit_reached'') e
      else
        let n = declared_node au r rec i (en_generation e);
            t = note_node_inserted i begin_txn in
        case insert_node n g of
          (done, g') \<Rightarrow>
            if \<not> done
            then rejected_by p (make_status O_InternalError ''node.insert_failed'') (e\<lparr>en_graph := snd (rollback t g')\<rparr>)
            else conclude_verified io p t (add_node_success i [node_entry DK_NodeAdded i [] (render_node n)]) (e\<lparr>en_graph := g'\<rparr>))"

definition place_node ::
  "(engine \<Rightarrow> file_result) \<Rightarrow> authority_context \<Rightarrow> add_node_request \<Rightarrow> entity_record \<Rightarrow> engine \<Rightarrow>
   mutation_result \<times> engine" where
  "place_node io au r rec e =
     (let p = au_publisher au;
          i = (case an_node_id r of Some j \<Rightarrow> j | None \<Rightarrow> derive_node_id (an_domain r) (an_entity_id r)) in
      if i = [] then rejected_by p (make_status O_MalformedRequest ''node.id_missing'') e
      else case find_node (en_graph e) i of
        None \<Rightarrow> add_new_node io au r rec i e
      | Some n \<Rightarrow>
          if nd_entity_id n \<noteq> an_entity_id r
          then rejected_by p (explain O_DuplicateIdentity ''node.id_reused'' [(''node_id'', i)]) e
          else if node_unchanged r rec n
          then unchanged p (make_status O_Idempotent ''node.unchanged'') (Some i) None e
          else (case refresh_node r rec n (en_graph e) of
                  (t, g, d) \<Rightarrow> conclude_verified io p t (add_node_success i d) (e\<lparr>en_graph := g\<rparr>)))"

definition add_node ::
  "(engine \<Rightarrow> file_result) \<Rightarrow> authority_context \<Rightarrow> add_node_request \<Rightarrow> engine \<Rightarrow> mutation_result \<times> engine" where
  "add_node io au r e =
     (case add_node_malformed (en_limits e) r of Some s \<Rightarrow> (answer s, e) | None \<Rightarrow>
      if \<not> has_key (g_domain_definitions (en_graph e)) (an_domain r)
      then rejected (explain O_DomainViolation ''node.domain_unknown'' [(''domain'', an_domain r)]) e
      else
        let permit = check_authority e au (an_domain r) GM_IncrementalWrite in
        if outcome_of permit \<noteq> O_Ok then rejected permit e
        else case stale_generation ''node.stale_generation'' (an_expected_generation r) e of
          Some s \<Rightarrow> rejected_by (au_publisher au) s e
        | None \<Rightarrow> (case resolve_entity e r of
              Inl s \<Rightarrow> rejected_by (au_publisher au) s e
            | Inr rec \<Rightarrow> place_node io au r rec e))"

subsection \<open>Removing a node\<close>

fun erase_loop :: "string list \<Rightarrow> txn \<Rightarrow> graph \<Rightarrow> diff_entry list \<Rightarrow> txn \<times> graph \<times> diff_entry list" where
  "erase_loop [] t g d = (t, g, d)"
| "erase_loop (i # is) t g d =
     (case find_edge g i of
        None \<Rightarrow> erase_loop is t g d
      | Some x \<Rightarrow> erase_loop is (note_edge_erased x t) (snd (erase_edge i g))
                    (d @ [edge_entry DK_EdgeRemoved i (render_edge x) []]))"

definition remove_node_and_edges :: "node \<Rightarrow> string \<Rightarrow> graph \<Rightarrow> txn \<times> graph \<times> diff_entry list" where
  "remove_node_and_edges n i g =
     (case erase_loop (sorted_bucket (g_incident g) i) begin_txn g [] of
        (t, g', d) \<Rightarrow> (note_node_erased n t, snd (erase_node i g'), d @ [node_entry DK_NodeRemoved i (render_node n) []]))"

definition remove_node ::
  "(engine \<Rightarrow> file_result) \<Rightarrow> authority_context \<Rightarrow> remove_node_request \<Rightarrow> engine \<Rightarrow> mutation_result \<times> engine" where
  "remove_node io au r e =
     (if rn_node r = [] then (answer (make_status O_MalformedRequest ''node.id_missing''), e)
      else case find_node (en_graph e) (rn_node r) of
        None \<Rightarrow> rejected (explain O_NotFound ''node.not_found'' [(''node_id'', rn_node r)]) e
      | Some n \<Rightarrow>
          let p = au_publisher au; permit = check_authority e au (nd_domain n) GM_AuthoritativeWrite;
              incident = sorted_bucket (g_incident (en_graph e)) (rn_node r) in
          if outcome_of permit \<noteq> O_Ok then rejected permit e
          else case stale_generation ''node.stale_generation'' (rn_expected_generation r) e of
            Some s \<Rightarrow> rejected_by p s e
          | None \<Rightarrow>
              if incident \<noteq> [] \<and> \<not> rn_cascade_relationships r
              then rejected_by p (explain O_StructuralInvariantViolation ''node.has_relationships''
                     [(''node_id'', rn_node r), (''incident'', decimal (length incident))]) e
              else (case remove_node_and_edges n (rn_node r) (en_graph e) of
                      (t, g, d) \<Rightarrow>
                        conclude io p t (committed_result (make_status O_Committed ''node.removed'') (Some (rn_node r)) None
                          (commit_diff (sort_key entry_rank d))) (e\<lparr>en_graph := g\<rparr>)))"

subsection \<open>The loops\<close>

lemma fence_loop_logged:
  assumes same: "\<And>x. same_edge_identity x (change x)" and inv: "graph_inv g0"
  shows "logged g0 (tx_entries t) g \<Longrightarrow> fence_loop skip change is t g d = (t', g', d') \<Longrightarrow>
    logged g0 (tx_entries t') g' \<and> tx_active t' = tx_active t \<and> g_generation g' = g_generation g"
proof (induction "is" arbitrary: t g d)
  case (Cons i "is")
  show ?case
  proof (cases "find_edge g i")
    case (Some x)
    with Cons logged_update_edge [OF Cons.prems(1) inv Some same] show ?thesis
      by (cases "skip x") (auto simp: frame_of_edge_ops)
  qed (use Cons in auto)
qed auto

lemma fence_loop_ok:
  assumes same: "\<And>x. \<not> skip x \<Longrightarrow> same_shape x (change x)" "\<And>x. ed_relationship_id (change x) = ed_relationship_id x"
      "\<And>x. ed_layer (change x) = ed_layer x"
  shows "graph_ok g \<Longrightarrow> fence_loop skip change is t g d = (t', g', d') \<Longrightarrow> graph_ok g' \<and> g_nodes g' = g_nodes g"
proof (induction "is" arbitrary: t g d)
  case (Cons i "is")
  show ?case
  proof (cases "find_edge g i")
    case (Some x)
    have "\<not> skip x \<Longrightarrow> ed_id (change x) = i"
      using graph_inv_ids [OF graph_okD(1) [OF Cons.prems(1)] Some] same(1) [of x] by (simp add: same_shape_def)
    then have "\<not> skip x \<Longrightarrow> graph_ok (snd (update_edge (change x) g))"
      using Some same by (intro ok_update_edge_kept [OF Cons.prems(1), of _ x]) auto
    with Cons Some show ?thesis by (cases "skip x") (auto simp: frame_simps)
  qed (use Cons in auto)
qed auto

lemma fence_loop_find:
  assumes same: "\<And>x. same_edge_identity x (change x)"
  shows "graph_inv g \<Longrightarrow> distinct is \<Longrightarrow> fence_loop skip change is t g d = (t', g', d') \<Longrightarrow>
    graph_inv g' \<and> base_frame g' = base_frame g \<and> g_nodes g' = g_nodes g \<and>
    find_edge g' j = (case find_edge g j of
      Some x \<Rightarrow> Some (if j \<in> set is \<and> \<not> skip x then change x else x) | None \<Rightarrow> None)"
proof (induction "is" arbitrary: t g d)
  case (Cons i "is")
  show ?case
  proof (cases "find_edge g i")
    case None
    then show ?thesis using Cons by (auto split: option.splits)
  next
    case (Some x)
    have id: "ed_id (change x) = i" using graph_inv_ids [OF Cons.prems(1) Some] same [of x] by (simp add: same_edge_identity_def)
    show ?thesis
    proof (cases "skip x")
      case False
      have "graph_inv (snd (update_edge (change x) g))"
        using Some id by (intro update_edge_same_identity_inv [OF Cons.prems(1) _ same]) simp
      with Cons Some False id show ?thesis
        by (auto simp: find_after_update_edge frame_simps split: option.splits)
    next
      case True
      then show ?thesis using Cons Some by (auto split: option.splits)
    qed
  qed
qed (auto split: option.splits)

lemma fence_edge_facts:
  "same_edge_identity x (fence_edge i v x)" "ed_relationship_id (fence_edge i v x) = ed_relationship_id x"
  "ed_layer (fence_edge i v x) = ed_layer x" "\<not> fence_skips i v x \<Longrightarrow> same_shape x (fence_edge i v x)"
  by (simp_all add: fence_edge_def demote_def rebind_end_def same_edge_identity_def edge_key_of_def same_shape_def
      fence_skips_def ended_def)

lemma fence_edge_facts2 [simp]:
  "ed_lifecycle (fence_edge i v x) = LS_RevalidationRequired" "bound_generation i (fence_edge i v x) = v"
  "ed_from (fence_edge i v x) = ed_from x" "ed_to (fence_edge i v x) = ed_to x"
  by (simp_all add: fence_edge_def demote_def rebind_end_def bound_generation_def)

lemma set_incident:
  assumes inv: "graph_inv g"
  shows "i \<in> set (sorted_bucket (g_incident g) n) \<longleftrightarrow> (\<exists>x. find_edge g i = Some x \<and> (ed_from x = n \<or> ed_to x = n))"
  using set_sorted_bucket [OF inv, of edge_ends "g_incident g"] inv
  by (auto simp: graph_inv_def indexes_ok_def edge_ends_def)


lemma note_active_erased [simp]:
  "tx_active (note_edge_erased x t) = tx_active t" "tx_active (note_node_erased n t) = tx_active t"
  "tx_active (note_node_updated n t) = tx_active t" "tx_active (note_node_inserted i t) = tx_active t"
  "tx_active (note_edge_inserted i t) = tx_active t"
  by (simp_all add: note_defs)

lemma erase_loop_logged:
  "logged g0 (tx_entries t) g \<Longrightarrow> erase_loop is t g d = (t', g', d') \<Longrightarrow>
   logged g0 (tx_entries t') g' \<and> tx_active t' = tx_active t \<and> g_generation g' = g_generation g"
proof (induction "is" arbitrary: t g d)
  case (Cons i "is")
  show ?case
  proof (cases "find_edge g i")
    case (Some x)
    have "logged g0 (tx_entries (note_edge_erased x t)) (snd (erase_edge i g))"
      using logged.edge_erased [OF Cons.prems(1) Some] by (simp add: note_defs)
    from Cons.IH [OF this] Cons.prems Some show ?thesis by (simp add: frame_of_edge_ops)
  qed (use Cons in auto)
qed auto

lemma erase_loop_find:
  "erase_loop is t g d = (t', g', d') \<Longrightarrow>
   (graph_ok g \<longrightarrow> graph_ok g') \<and> g_nodes g' = g_nodes g \<and> find_edge g' j = (if j \<in> set is then None else find_edge g j)"
proof (induction "is" arbitrary: t g d)
  case (Cons i "is")
  show ?case
  proof (cases "find_edge g i")
    case None
    with Cons show ?thesis by (auto split: if_splits)
  next
    case (Some x)
    have "find_edge (snd (erase_edge i g)) j = (if j = i then None else find_edge g j)"
      by (simp add: find_edge_def lookup_simps)
    with Cons Some show ?thesis by (auto simp: frame_simps ok_erase_edge split: if_splits)
  qed
qed auto

lemma remove_node_and_edges_effect:
  assumes ok: "graph_ok g" and n: "find_node g i = Some n" and run: "remove_node_and_edges n i g = (t, g', d)"
  shows "logged g (tx_entries t) g' \<and> tx_active t \<and> g_generation g' = g_generation g \<and> graph_ok g' \<and>
    find_node g' j = (if j = i then None else find_node g j) \<and>
    find_edge g' k = (case find_edge g k of None \<Rightarrow> None | Some x \<Rightarrow> if ed_from x = i \<or> ed_to x = i then None else Some x)"
proof -
  let ?is = "sorted_bucket (g_incident g) i"
  note inv = graph_okD(1) [OF ok]
  obtain t1 g1 d1 where loop: "erase_loop ?is begin_txn g [] = (t1, g1, d1)" by (metis prod_cases3)
  have res: "t = note_node_erased n t1" "g' = snd (erase_node i g1)"
    using run loop by (auto simp: remove_node_and_edges_def)
  note log = erase_loop_logged [OF _ loop, of g] and find = erase_loop_find [OF loop]
  have edge: "find_edge g1 k = (case find_edge g k of None \<Rightarrow> None | Some x \<Rightarrow> if ed_from x = i \<or> ed_to x = i then None else Some x)" for k
    using find [of k] by (auto simp: set_incident [OF inv] split: option.splits)
  have "find_node g1 j = find_node g j" for j using find by (simp add: find_node_def)
  moreover have "graph_ok (snd (erase_node i g1))"
  proof (rule ok_erase_node)
    show "graph_ok g1" using find ok by blast
    show "ed_from x \<noteq> i \<and> ed_to x \<noteq> i" if "find_edge g1 j = Some x" for j x
      using that edge [of j] by (simp split: option.splits if_splits)
  qed
  ultimately show ?thesis
    using log n logged.node_erased [of g "tx_entries t1" g1 i n] edge
    by (simp add: res note_defs logged.nothing frame_of_node_ops begin_txn_def) (simp add: find_node_def lookup_simps)
qed


text \<open>A refusal leaves the graph alone.\<close>

definition refused :: "engine \<Rightarrow> mutation_result \<times> engine \<Rightarrow> bool" where
  "refused e x \<longleftrightarrow> \<not> changed (fst x) \<and> en_graph (snd x) = en_graph e \<and> control (snd x) = control e"

lemma refused_rejected [simp]:
  "outcome_of s \<noteq> O_Committed \<Longrightarrow> refused e (rejected s e)"
  "outcome_of s \<noteq> O_Committed \<Longrightarrow> refused e (rejected_by p s e)"
  "outcome_of s \<noteq> O_Committed \<Longrightarrow> refused e (unchanged p s n i e)"
  "outcome_of s \<noteq> O_Committed \<Longrightarrow> refused e (answer s, e)"
  by (simp_all add: refused_def changed_def rejected_def rejected_by_def unchanged_def answer_def control_simps)

lemma check_authority_outcome [simp]: "outcome_of (check_authority e au d m) \<noteq> O_Committed"
  by (simp add: check_authority_def check_registration_def split: option.split)

lemma remove_node_cases:
  assumes ok: "graph_ok (en_graph e)" and not: "\<not> refused e (remove_node io au r e)"
  obtains n t g d where "find_node (en_graph e) (rn_node r) = Some n" "authorised e au (nd_domain n) GM_AuthoritativeWrite"
    "remove_node_and_edges n (rn_node r) (en_graph e) = (t, g, d)" "ends_with e g (remove_node io au r e)"
proof (cases "find_node (en_graph e) (rn_node r)")
  case None
  then show ?thesis using not by (simp add: remove_node_def split: if_splits)
next
  case (Some n)
  obtain t g d where run: "remove_node_and_edges n (rn_node r) (en_graph e) = (t, g, d)" by (metis prod_cases3)
  note eff = remove_node_and_edges_effect [OF ok Some run]
  have "ends_with e g (conclude io (au_publisher au) t (committed_result (make_status O_Committed ''node.removed'') (Some (rn_node r)) None
      (commit_diff (sort_key entry_rank d))) (e\<lparr>en_graph := g\<rparr>))"
    using eff graph_okD(1) [OF ok] by (intro conclude_ends) (auto simp: en_generation_def changed_def)
  moreover have "remove_node io au r e = conclude io (au_publisher au) t (committed_result (make_status O_Committed ''node.removed'') (Some (rn_node r)) None
      (commit_diff (sort_key entry_rank d))) (e\<lparr>en_graph := g\<rparr>) \<and> authorised e au (nd_domain n) GM_AuthoritativeWrite"
    using not Some run
    by (auto simp: remove_node_def Let_def authorised_def stale_generation_outcome split: if_splits option.splits)
  ultimately show ?thesis using that [OF Some _ run] by auto
qed

subsection \<open>Adding\<close>

lemma refresh_node_effect:
  assumes ok: "graph_ok g" and n: "find_node g i = Some n" and run: "refresh_node r rec n g = (t, g', d)"
  shows "logged g (tx_entries t) g' \<and> tx_active t \<and> g_generation g' = g_generation g \<and> graph_ok g' \<and>
    find_node g' j = (if j = i then Some (refreshed_node (g_generation g) r rec n) else find_node g j) \<and>
    find_edge g' k = (case find_edge g k of None \<Rightarrow> None | Some x \<Rightarrow>
      if nd_entity_generation n \<noteq> er_generation rec \<and> (ed_from x = i \<or> ed_to x = i) \<and> \<not> fence_skips i (er_generation rec) x
      then Some (fence_edge i (er_generation rec) x) else Some x)"
proof -
  let ?n = "refreshed_node (g_generation g) r rec n" and ?v = "er_generation rec"
  let ?g = "snd (update_node ?n g)" and ?is = "sorted_bucket (g_incident (snd (update_node (refreshed_node (g_generation g) r rec n) g))) i"
  note inv = graph_okD(1) [OF ok]
  have id: "nd_id n = i" by (rule graph_inv_node_ids [OF inv n])
  have new: "nd_id ?n = i" "nd_entity_id ?n = nd_entity_id n" "node_shape ?n = node_shape n" "nd_entity_generation ?n = ?v"
    by (simp_all add: refreshed_node_def id node_shape_def)
  have free: "find_node_by_entity g (nd_entity_id ?n) \<in> {None, Some (nd_id ?n)}"
    using node_entity_indexed [OF inv n] new by simp
  have ok1: "graph_ok ?g" using n new free by (intro ok_update_node [OF ok, of _ n]) simp_all
  have log1: "logged g (tx_entries (note_node_updated n begin_txn)) ?g"
    using logged.node_updated [OF logged.nothing, of g ?n n] n new free by (simp add: note_defs begin_txn_def)
  have gen1: "g_generation ?g = g_generation g" by (simp add: frame_of_node_ops)
  have node1: "find_node ?g j = (if j = i then Some ?n else find_node g j)" for j
    using n new by (simp add: find_after_update_node)
  show ?thesis
  proof (cases "nd_entity_generation n = ?v")
    case True
    then have "t = note_node_updated n begin_txn" "g' = ?g" using run new by (auto simp: refresh_node_def Let_def)
    with True show ?thesis using ok1 log1 gen1 node1 by (simp split: option.split)
  next
    case False
    obtain t2 g2 d2 where loop: "fence_loop (fence_skips i ?v) (fence_edge i ?v) ?is (note_node_updated n begin_txn) ?g [] = (t2, g2, d2)"
      by (metis prod_cases3)
    have res: "t = t2" "g' = g2"
      using run False loop by (auto simp: refresh_node_def Let_def id new fence_edges_for_node_change_def)
    note log2 = fence_loop_logged [OF fence_edge_facts(1) inv log1 loop]
    note ok2 = fence_loop_ok [OF fence_edge_facts(4,2,3) ok1 loop]
    note find2 = fence_loop_find [OF fence_edge_facts(1) graph_okD(1) [OF ok1] distinct_sorted_bucket loop, of k]
    have "k \<in> set ?is \<longleftrightarrow> (\<exists>x. find_edge g k = Some x \<and> (ed_from x = i \<or> ed_to x = i))"
      by (simp add: set_incident [OF graph_okD(1) [OF ok1]])
    then show ?thesis
      using log2 ok2 find2 gen1 node1 False by (auto simp: res find_node_def split: option.splits)
  qed
qed

lemma derived_node_id_nonempty: "derive_node_id d entity \<noteq> []"
  by (simp add: derive_node_id_def)

lemma add_new_node_cases:
  assumes ok: "graph_ok (en_graph e)" and i: "i \<noteq> []" "find_node (en_graph e) i = None"
    and dom: "has_key (g_domain_definitions (en_graph e)) (an_domain r)"
    and not: "\<not> refused e (add_new_node io au r rec i e)"
  shows "find_node_by_entity (en_graph e) (an_entity_id r) = None \<and> map_size (g_nodes (en_graph e)) < max_nodes (en_limits e) \<and>
    ends_with e (snd (insert_node (declared_node au r rec i (en_generation e)) (en_graph e))) (add_new_node io au r rec i e) \<and>
    graph_ok (snd (insert_node (declared_node au r rec i (en_generation e)) (en_graph e)))"
proof -
  let ?n = "declared_node au r rec i (en_generation e)"
  have n: "nd_id ?n = i" "nd_entity_id ?n = an_entity_id r" "nd_domain ?n = an_domain r" by (simp_all add: declared_node_def)
  have fresh: "fst (insert_node ?n (en_graph e))" using i by (simp add: insert_node_def n has_key_def find_node_def)
  obtain g where ins: "insert_node ?n (en_graph e) = (True, g)" using fresh by (metis prod.collapse)
  have guards: "find_node_by_entity (en_graph e) (an_entity_id r) = None" "map_size (g_nodes (en_graph e)) < max_nodes (en_limits e)"
    and run: "add_new_node io au r rec i e = conclude_verified io (au_publisher au) (note_node_inserted i begin_txn)
      (add_node_success i [node_entry DK_NodeAdded i [] (render_node ?n)]) (e\<lparr>en_graph := g\<rparr>)"
    using not by (auto simp: add_new_node_def Let_def ins split: if_splits)
  have g: "g = snd (insert_node ?n (en_graph e))" by (simp add: ins)
  have "logged (en_graph e) (tx_entries (note_node_inserted i begin_txn)) g"
    using logged.node_inserted [OF logged.nothing, of "en_graph e" ?n] i guards by (simp add: note_defs begin_txn_def n g)
  moreover have "g_generation g = en_generation e" by (simp add: g frame_of_node_ops en_generation_def)
  ultimately have "ends_with e g (add_new_node io au r rec i e)"
    unfolding run using graph_okD(1) [OF ok] by (intro conclude_verified_ends) (auto simp: add_node_success_def changed_def)
  moreover have "graph_ok g" unfolding g using i dom guards by (intro ok_insert_node [OF ok]) (simp_all add: n)
  ultimately show ?thesis using guards by (simp add: g)
qed

definition node_id_of :: "add_node_request \<Rightarrow> string" where
  "node_id_of r = (case an_node_id r of Some j \<Rightarrow> j | None \<Rightarrow> derive_node_id (an_domain r) (an_entity_id r))"

lemma add_node_malformed_outcome: "add_node_malformed lim r = Some s \<Longrightarrow> outcome_of s \<noteq> O_Committed"
  using metadata_validate_outcome [of "an_metadata r" lim] by (auto simp: add_node_malformed_def split: if_splits)

lemma resolve_entity_outcome: "resolve_entity e r = Inl s \<Longrightarrow> outcome_of s \<noteq> O_Committed"
  by (auto simp: resolve_entity_def split: option.splits if_splits)

text \<open>A request that is not refused places a live identity of the right class, in a domain its
  publisher may write, as a new node or by refreshing the node of that identifier.\<close>

lemma add_node_placed:
  assumes not: "\<not> refused e (add_node io au r e)"
  obtains rec where "add_node io au r e = place_node io au r rec e" "authorised e au (an_domain r) GM_IncrementalWrite"
    "has_key (g_domain_definitions (en_graph e)) (an_domain r)" "engine_lookup e (an_entity_id r) = Some rec"
    "\<not> er_retired rec" "\<not> er_superseded rec" "er_entity_class rec = node_class_entity_class (an_node_class r)"
proof (cases "resolve_entity e r")
  case (Inl s)
  then show ?thesis using not resolve_entity_outcome [OF Inl]
    by (auto simp: add_node_def Let_def add_node_malformed_outcome stale_generation_outcome split: option.splits if_splits)
next
  case (Inr rec)
  have "engine_lookup e (an_entity_id r) = Some rec \<and> \<not> er_retired rec \<and> \<not> er_superseded rec \<and>
      er_entity_class rec = node_class_entity_class (an_node_class r)"
    using Inr by (auto simp: resolve_entity_def split: option.splits if_splits)
  moreover have "add_node io au r e = place_node io au r rec e \<and> authorised e au (an_domain r) GM_IncrementalWrite \<and>
      has_key (g_domain_definitions (en_graph e)) (an_domain r)"
    using not Inr
    by (auto simp: add_node_def Let_def authorised_def add_node_malformed_outcome stale_generation_outcome split: option.splits if_splits)
  ultimately show ?thesis using that by blast
qed

lemma place_node_cases:
  assumes ok: "graph_ok (en_graph e)" and dom: "has_key (g_domain_definitions (en_graph e)) (an_domain r)"
    and not: "\<not> refused e (place_node io au r rec e)"
  obtains (fresh) "node_id_of r \<noteq> []" "find_node (en_graph e) (node_id_of r) = None"
    "find_node_by_entity (en_graph e) (an_entity_id r) = None" "map_size (g_nodes (en_graph e)) < max_nodes (en_limits e)"
    "ends_with e (snd (insert_node (declared_node au r rec (node_id_of r) (en_generation e)) (en_graph e))) (place_node io au r rec e)"
    "graph_ok (snd (insert_node (declared_node au r rec (node_id_of r) (en_generation e)) (en_graph e)))"
  | (refreshed) n t g d where "find_node (en_graph e) (node_id_of r) = Some n" "nd_entity_id n = an_entity_id r"
    "refresh_node r rec n (en_graph e) = (t, g, d)" "ends_with e g (place_node io au r rec e)"
proof (cases "find_node (en_graph e) (node_id_of r)")
  case None
  have ne: "node_id_of r \<noteq> []" using not by (auto simp: place_node_def Let_def node_id_of_def [symmetric] split: if_splits)
  then have "place_node io au r rec e = add_new_node io au r rec (node_id_of r) e"
    using None by (simp add: place_node_def Let_def node_id_of_def [symmetric])
  with add_new_node_cases [OF ok ne None dom, of io au rec] not fresh [OF ne None] show ?thesis by simp
next
  case (Some n)
  obtain t g d where run: "refresh_node r rec n (en_graph e) = (t, g, d)" by (metis prod_cases3)
  have ent: "nd_entity_id n = an_entity_id r" and res: "place_node io au r rec e =
      conclude_verified io (au_publisher au) t (add_node_success (node_id_of r) d) (e\<lparr>en_graph := g\<rparr>)"
    using not Some run by (auto simp: place_node_def Let_def node_id_of_def [symmetric] split: if_splits)
  have "ends_with e g (place_node io au r rec e)"
    unfolding res using refresh_node_effect [OF ok Some run] graph_okD(1) [OF ok]
    by (intro conclude_verified_ends) (auto simp: add_node_success_def changed_def en_generation_def)
  with refreshed [OF Some ent run] show ?thesis by blast
qed

lemma ends_with_ok:
  "ends_with e g x \<Longrightarrow> graph_ok (en_graph e) \<Longrightarrow> graph_ok g \<Longrightarrow> atomic e x \<and> graph_ok (en_graph (snd x))"
  by (auto simp: ends_with_def ends_with_atomic split: if_splits)

lemma refused_ok: "refused e x \<Longrightarrow> graph_ok (en_graph e) \<Longrightarrow> atomic e x \<and> graph_ok (en_graph (snd x))"
  by (simp add: refused_def atomic_def)

lemma add_node_ok:
  assumes ok: "graph_ok (en_graph e)"
  shows "atomic e (add_node io au r e) \<and> graph_ok (en_graph (snd (add_node io au r e)))"
proof (cases "refused e (add_node io au r e)")
  case True
  then show ?thesis using ok by (rule refused_ok)
next
  case False
  then obtain rec where p: "add_node io au r e = place_node io au r rec e" "has_key (g_domain_definitions (en_graph e)) (an_domain r)"
    by (rule add_node_placed)
  from ok p(2) False [unfolded p(1)]
  have "atomic e (place_node io au r rec e) \<and> graph_ok (en_graph (snd (place_node io au r rec e)))"
  proof (cases rule: place_node_cases)
    case fresh
    show ?thesis by (rule ends_with_ok [OF fresh(5) ok fresh(6)])
  next
    case (refreshed n t g d)
    show ?thesis using refresh_node_effect [OF ok refreshed(1,3)] ends_with_ok [OF refreshed(4) ok] by simp
  qed
  then show ?thesis by (simp add: p(1))
qed

lemma remove_node_ok:
  assumes ok: "graph_ok (en_graph e)"
  shows "atomic e (remove_node io au r e) \<and> graph_ok (en_graph (snd (remove_node io au r e)))"
proof (cases "refused e (remove_node io au r e)")
  case True
  then show ?thesis using ok by (rule refused_ok)
next
  case False
  with ok obtain n t g d where c: "find_node (en_graph e) (rn_node r) = Some n"
    "remove_node_and_edges n (rn_node r) (en_graph e) = (t, g, d)" "ends_with e g (remove_node io au r e)"
    by (rule remove_node_cases)
  then show ?thesis using remove_node_and_edges_effect [OF ok c(1,2)] ends_with_ok [OF c(3) ok] by simp
qed

subsection \<open>Effects\<close>

text \<open>C32: adding a node commits only for a live registry identity of the class the request names, in
  a declared domain the publisher may write. Then exactly that node is current and bound to the
  registry generation, every other node is as before, and if this changed the binding of an
  existing node, each of its live relationships requires revalidation under the new generation. In
  every other case the graph is untouched.\<close>

theorem add_node_effect:
  assumes ok: "graph_ok (en_graph e)" and run: "add_node io au r e = (res, e')"
  shows "if changed res
    then \<exists>rec n. engine_lookup e (an_entity_id r) = Some rec \<and> \<not> er_retired rec \<and> \<not> er_superseded rec \<and>
      er_entity_class rec = node_class_entity_class (an_node_class r) \<and>
      has_key (g_domain_definitions (en_graph e)) (an_domain r) \<and> authorised e au (an_domain r) GM_IncrementalWrite \<and>
      en_generation e' = en_generation e + 1 \<and> find_node (en_graph e') (node_id_of r) = Some n \<and>
      nd_entity_id n = an_entity_id r \<and> nd_entity_generation n = er_generation rec \<and> nd_lifecycle n = LS_Current \<and>
      (\<forall>i. i \<noteq> node_id_of r \<longrightarrow> find_node (en_graph e') i = find_node (en_graph e) i) \<and>
      (\<forall>n0 k x. find_node (en_graph e) (node_id_of r) = Some n0 \<and> nd_entity_generation n0 \<noteq> er_generation rec \<and>
         find_edge (en_graph e') k = Some x \<and> (ed_from x = node_id_of r \<or> ed_to x = node_id_of r) \<and> \<not> ended x \<longrightarrow>
         ed_lifecycle x = LS_RevalidationRequired \<and> bound_generation (node_id_of r) x = er_generation rec)
    else en_graph e' = en_graph e"
proof (cases "refused e (add_node io au r e)")
  case True
  then show ?thesis using run by (simp add: refused_def)
next
  case False
  then obtain rec where p: "add_node io au r e = place_node io au r rec e" "authorised e au (an_domain r) GM_IncrementalWrite"
    "has_key (g_domain_definitions (en_graph e)) (an_domain r)" "engine_lookup e (an_entity_id r) = Some rec"
    "\<not> er_retired rec" "\<not> er_superseded rec" "er_entity_class rec = node_class_entity_class (an_node_class r)"
    by (rule add_node_placed)
  let ?i = "node_id_of r"
  define new where "new g n \<longleftrightarrow> (find_node g ?i = Some n \<and> nd_entity_id n = an_entity_id r \<and>
      nd_entity_generation n = er_generation rec \<and> nd_lifecycle n = LS_Current \<and>
      (\<forall>i. i \<noteq> ?i \<longrightarrow> find_node g i = find_node (en_graph e) i) \<and>
      (\<forall>n0 k x. find_node (en_graph e) ?i = Some n0 \<and> nd_entity_generation n0 \<noteq> er_generation rec \<and>
         find_edge g k = Some x \<and> (ed_from x = ?i \<or> ed_to x = ?i) \<and> \<not> ended x \<longrightarrow>
         ed_lifecycle x = LS_RevalidationRequired \<and> bound_generation ?i x = er_generation rec))" for g n
  from ok p(3) False [unfolded p(1)] obtain g n where g: "ends_with e g (place_node io au r rec e)" "new g n"
  proof (cases rule: place_node_cases)
    case fresh
    have "new (snd (insert_node (declared_node au r rec ?i (en_generation e)) (en_graph e))) (declared_node au r rec ?i (en_generation e))"
      using fresh(2) by (simp add: new_def find_node_def lookup_simps has_key_def declared_node_def)
    with fresh(5) show ?thesis by (rule that)
  next
    case (refreshed n t g d)
    note eff = refresh_node_effect [OF ok refreshed(1,3)]
    have "new g (refreshed_node (g_generation (en_graph e)) r rec n)"
      using eff refreshed(1,2) unfolding new_def
      by (auto simp: refreshed_node_def fence_skips_def ended_def fence_edge_facts2 split: option.splits if_splits)
    with refreshed(4) show ?thesis by (rule that)
  qed
  have "new (g\<lparr>g_generation := v\<rparr>) n" for v
  proof -
    have finds: "find_node (g\<lparr>g_generation := v\<rparr>) = find_node g" "find_edge (g\<lparr>g_generation := v\<rparr>) = find_edge g"
      by (simp_all add: fun_eq_iff find_defs)
    show ?thesis unfolding new_def finds by (fact g(2) [unfolded new_def])
  qed
  then show ?thesis
    using g(1) run p by (auto simp: ends_with_def new_def en_generation_def)
qed

definition demo_refresh :: add_node_request where
  "demo_refresh = \<lparr>an_node_id = Some ''s1'', an_entity_id = ''ent-s1'', an_node_class = NC_Switch, an_tier = TT_Leaf,
     an_domain = ''d'', an_expected_generation = 0, an_metadata = []\<rparr>"

theorem add_node_effect_witness:
  "\<exists>n. find_node (en_graph (snd (add_node (\<lambda>_. Written) demo_authority demo_refresh demo_engine))) ''s1'' = Some n \<and>
     nd_entity_generation n = 2"
proof -
  obtain res e' where run: "add_node (\<lambda>_. Written) demo_authority demo_refresh demo_engine = (res, e')" by (metis surj_pair)
  obtain t g d where ref: "refresh_node demo_refresh (demo_record ''ent-s1'' EC_Switch 2) (demo_node ''s1'' NC_Switch) demo_graph = (t, g, d)"
    by (metis prod_cases3)
  have "g_generation g = 0"
    using refresh_node_effect [OF demo_graph_ok _ ref, of "''s1''"] by (simp add: demo_graph_find demo_graph_base)
  then have "changed (fst (place_node (\<lambda>_. Written) demo_authority demo_refresh (demo_record ''ent-s1'' EC_Switch 2) demo_engine))"
    using ref by (simp add: place_node_def Let_def demo_graph_find node_unchanged_def demo_record_def)
      (simp add: demo_refresh_def conclude_commits add_node_success_def en_generation_def can_advance_def)
  moreover have "add_node (\<lambda>_. Written) demo_authority demo_refresh demo_engine =
      place_node (\<lambda>_. Written) demo_authority demo_refresh (demo_record ''ent-s1'' EC_Switch 2) demo_engine"
    by (simp add: add_node_def add_node_malformed_def demo_refresh_def stale_generation_def resolve_entity_def
        demo_directory_def demo_record_def sample_record_def demo_graph_base lookup_simps metadata_validate_def default_limits_def)
  ultimately have "changed (fst (add_node (\<lambda>_. Written) demo_authority demo_refresh demo_engine))" by simp
  then have "changed res" by (simp add: run)
  then show ?thesis
    using add_node_effect [OF _ run] run demo_graph_ok
    by (auto simp: demo_refresh_def node_id_of_def demo_directory_def demo_record_def sample_record_def)
qed

text \<open>removing a node commits only for a publisher with authoritative write on its domain. Then
  the node and exactly the relationships that touch it are gone and everything else is as before;
  without the cascade flag there were none. Otherwise the graph is untouched, also when
  relationships were already erased and the commit failed.\<close>

theorem remove_node_effect:
  assumes ok: "graph_ok (en_graph e)" and run: "remove_node io au r e = (res, e')"
  shows "if changed res
    then (\<exists>n. find_node (en_graph e) (rn_node r) = Some n \<and> authorised e au (nd_domain n) GM_AuthoritativeWrite) \<and>
      en_generation e' = en_generation e + 1 \<and>
      (\<forall>i. find_node (en_graph e') i = (if i = rn_node r then None else find_node (en_graph e) i)) \<and>
      (\<forall>k. find_edge (en_graph e') k = (case find_edge (en_graph e) k of None \<Rightarrow> None
         | Some x \<Rightarrow> if ed_from x = rn_node r \<or> ed_to x = rn_node r then None else Some x)) \<and>
      (rn_cascade_relationships r \<or> (\<forall>k x. find_edge (en_graph e) k = Some x \<longrightarrow> ed_from x \<noteq> rn_node r \<and> ed_to x \<noteq> rn_node r))
    else en_graph e' = en_graph e"
proof (cases "refused e (remove_node io au r e)")
  case True
  then show ?thesis using run by (simp add: refused_def)
next
  case False
  with ok obtain n t g d where c: "find_node (en_graph e) (rn_node r) = Some n" "authorised e au (nd_domain n) GM_AuthoritativeWrite"
    "remove_node_and_edges n (rn_node r) (en_graph e) = (t, g, d)" "ends_with e g (remove_node io au r e)"
    by (rule remove_node_cases)
  note eff = remove_node_and_edges_effect [OF ok c(1,3)]
  have "rn_cascade_relationships r \<or> sorted_bucket (g_incident (en_graph e)) (rn_node r) = []"
    using False c(1) by (auto simp: remove_node_def Let_def stale_generation_outcome split: if_splits option.splits)
  then have "rn_cascade_relationships r \<or> (\<forall>k x. find_edge (en_graph e) k = Some x \<longrightarrow> ed_from x \<noteq> rn_node r \<and> ed_to x \<noteq> rn_node r)"
    using set_incident [OF graph_okD(1) [OF ok], of _ "rn_node r"] by fastforce
  moreover have "find_node (g\<lparr>g_generation := v\<rparr>) i = find_node g i" for v i by (simp add: find_node_def)
  ultimately show ?thesis
    using c eff run by (auto simp: ends_with_def en_generation_def)
qed

definition demo_removal :: remove_node_request where
  "demo_removal = \<lparr>rn_node = ''s2'', rn_expected_generation = 0, rn_cascade_relationships = False, rn_reason = []\<rparr>"

theorem remove_node_effect_witness:
  "find_node (en_graph (snd (remove_node (\<lambda>_. Written) demo_authority demo_removal demo_engine))) ''s2'' = None"
proof -
  obtain res e' where run: "remove_node (\<lambda>_. Written) demo_authority demo_removal demo_engine = (res, e')" by (metis surj_pair)
  have "i \<notin> set (sorted_bucket (g_incident demo_graph) ''s2'')" for i
    using set_incident [OF graph_okD(1) [OF demo_graph_ok], of i "''s2''"] by (simp add: demo_graph_find)
  then have empty: "sorted_bucket (g_incident demo_graph) ''s2'' = []" using last_in_set by blast
  have "changed (fst (remove_node (\<lambda>_. Written) demo_authority demo_removal demo_engine))"
    by (simp add: remove_node_def demo_removal_def stale_generation_def demo_graph_find empty remove_node_and_edges_def)
      (simp add: conclude_commits en_generation_def frame_of_node_ops demo_graph_base can_advance_def)
  then have "changed res" by (simp add: run)
  then show ?thesis using remove_node_effect [OF _ run] run demo_graph_ok by (simp add: demo_removal_def)
qed

end
