(* ===== verification/Relationships.thy ===== *)
theory Relationships
  imports Nodes
begin

text \<open>
  Asserting a relationship (\<open>TopologyEngine::add_relationship\<close>, \<open>attach_endpoint\<close> in
  \<open>src/topology_mutations.cpp\<close>): a new edge, or a refresh of the edge with the same key.
\<close>

record add_relationship_request =
  ar_edge_id :: "string option"
  ar_relationship_id :: string
  ar_relation :: relation_class
  ar_from :: string
  ar_to :: string
  ar_layer :: "topology_layer option"
  ar_domain :: string
  ar_expected_generation :: u64
  ar_evidence_generation :: u64
  ar_supported_by :: "string option"
  ar_attachment :: "string option"
  ar_exclusive_attachment :: bool
  ar_allow_cross_domain :: bool
  ar_metadata :: metadata

definition add_relationship_malformed :: "limits \<Rightarrow> add_relationship_request \<Rightarrow> status option" where
  "add_relationship_malformed lim r =
     (if ar_relation r = RC_Unknown then Some (make_status O_MalformedRequest ''relationship.relation_unknown'')
      else if ar_from r = [] \<or> ar_to r = [] then Some (make_status O_MalformedRequest ''relationship.endpoint_missing'')
      else if outcome_of (metadata_validate (ar_metadata r) lim) \<noteq> O_Ok then Some (metadata_validate (ar_metadata r) lim)
      else None)"

definition relationship_candidate_of ::
  "add_relationship_request \<Rightarrow> string \<Rightarrow> string \<Rightarrow> topology_layer \<Rightarrow> domain_resolution \<Rightarrow> relationship_candidate" where
  "relationship_candidate_of r from_id to_id layer res =
     (let key = make_edge_key (ar_relation r) from_id to_id (dr_domain res) in
      \<lparr>cd_id = (case ar_edge_id r of Some i \<Rightarrow> i | None \<Rightarrow> derive_edge_id key),
       cd_relationship_id = (if ar_relationship_id r = [] then derive_relationship_id key else ar_relationship_id r),
       cd_relation = ar_relation r, cd_from = from_id, cd_to = to_id, cd_layer = layer, cd_domain = dr_domain res,
       cd_cross_domain = dr_cross_domain res, cd_secondary_domain = dr_secondary_domain res,
       cd_evidence_generation = ar_evidence_generation r, cd_supported_by = ar_supported_by r,
       cd_attachment = ar_attachment r, cd_exclusive_attachment = ar_exclusive_attachment r,
       cd_metadata = ar_metadata r, cd_evidence_type = PT_Real, cd_source = DS_OperatorDeclaration,
       cd_source_relationship_id = []\<rparr>)"

definition cd_key :: "relationship_candidate \<Rightarrow> edge_key" where
  "cd_key c = make_edge_key (cd_relation c) (cd_from c) (cd_to c) (cd_domain c)"

definition identity_conflict :: "graph \<Rightarrow> relationship_candidate \<Rightarrow> status option" where
  "identity_conflict g c =
     (case find_edge_by_key g (cd_key c) of
        Some j \<Rightarrow> if j \<noteq> cd_id c
          then Some (explain O_DuplicateEdge ''relationship.duplicate_edge'' [(''existing'', j), (''requested'', cd_id c)])
          else None
      | None \<Rightarrow> None)"

definition edge_id_conflict :: "graph \<Rightarrow> relationship_candidate \<Rightarrow> status option" where
  "edge_id_conflict g c =
     (case find_edge g (cd_id c) of
        Some x \<Rightarrow> if edge_key_of x \<noteq> cd_key c
          then Some (explain O_DuplicateIdentity ''relationship.edge_id_reused'' [(''edge_id'', cd_id c)]) else None
      | None \<Rightarrow> None)"

definition relationship_id_conflict :: "graph \<Rightarrow> relationship_candidate \<Rightarrow> status option" where
  "relationship_id_conflict g c =
     (case find_edge_by_relationship g (cd_relationship_id c) of
        Some j \<Rightarrow> if j \<noteq> cd_id c
          then Some (explain O_DuplicateIdentity ''relationship.id_reused'' [(''relationship_id'', cd_relationship_id c)]) else None
      | None \<Rightarrow> None)"

definition candidate_id_failure :: "graph \<Rightarrow> relationship_candidate \<Rightarrow> status option" where
  "candidate_id_failure g c =
     (if cd_id c = [] \<or> cd_relationship_id c = [] then Some (make_status O_MalformedRequest ''relationship.id_invalid'')
      else case identity_conflict g c of Some s \<Rightarrow> Some s | None \<Rightarrow>
           case edge_id_conflict g c of Some s \<Rightarrow> Some s | None \<Rightarrow> relationship_id_conflict g c)"

definition endpoints_match :: "edge \<Rightarrow> node \<Rightarrow> node \<Rightarrow> bool" where
  "endpoints_match x a b =
     (ed_from_entity_generation x = nd_entity_generation a \<and> ed_to_entity_generation x = nd_entity_generation b)"

definition edge_unchanged :: "relationship_candidate \<Rightarrow> node \<Rightarrow> node \<Rightarrow> edge \<Rightarrow> bool" where
  "edge_unchanged c a b x =
     (ed_layer x = cd_layer c \<and> ed_evidence_generation x = cd_evidence_generation c \<and> ed_lifecycle x = LS_Current \<and>
      ed_metadata x = cd_metadata c \<and> ed_supported_by x = cd_supported_by c \<and> ed_attachment x = cd_attachment c \<and>
      endpoints_match x a b)"

text \<open>A refresh keeps the provenance of the publisher that first asserted the edge.\<close>

definition refreshed_edge :: "u64 \<Rightarrow> relationship_candidate \<Rightarrow> node \<Rightarrow> node \<Rightarrow> edge \<Rightarrow> edge" where
  "refreshed_edge v c a b x =
     x\<lparr>ed_relationship_id := cd_relationship_id c, ed_layer := cd_layer c, ed_evidence_generation := cd_evidence_generation c,
       ed_metadata := cd_metadata c, ed_supported_by := cd_supported_by c, ed_attachment := cd_attachment c,
       ed_lifecycle := LS_Current, ed_from_entity_generation := nd_entity_generation a,
       ed_to_entity_generation := nd_entity_generation b, ed_last_validated_generation := v,
       ed_provenance := (ed_provenance x)\<lparr>pv_evidence_generation := cd_evidence_generation c, pv_last_validated_generation := v\<rparr>,
       ed_generation := advance_if_possible (ed_generation x)\<rparr>"

definition asserted_provenance :: "authority_context \<Rightarrow> relationship_candidate \<Rightarrow> u64 \<Rightarrow> provenance" where
  "asserted_provenance au c v =
     \<lparr>pv_publisher = au_publisher au, pv_worker_boot = au_worker_boot au, pv_coordinator_epoch = au_coordinator_epoch au,
      pv_source = cd_source c, pv_evidence_type = cd_evidence_type c, pv_evidence_generation = cd_evidence_generation c,
      pv_source_relationship_id = cd_source_relationship_id c, pv_publication = au_publication au,
      pv_created_generation = v, pv_last_validated_generation = v\<rparr>"

definition asserted_edge :: "authority_context \<Rightarrow> u64 \<Rightarrow> relationship_candidate \<Rightarrow> node \<Rightarrow> node \<Rightarrow> edge" where
  "asserted_edge au v c a b =
     \<lparr>ed_id = cd_id c, ed_relationship_id = cd_relationship_id c, ed_relation = cd_relation c, ed_from = cd_from c,
      ed_to = cd_to c, ed_layer = cd_layer c, ed_domain = cd_domain c, ed_cross_domain = cd_cross_domain c,
      ed_secondary_domain = (if cd_cross_domain c then cd_secondary_domain c else cd_domain c), ed_generation = 1,
      ed_created_generation = v, ed_last_validated_generation = v, ed_evidence_generation = cd_evidence_generation c,
      ed_from_entity_generation = nd_entity_generation a, ed_to_entity_generation = nd_entity_generation b,
      ed_lifecycle = LS_Current, ed_supported_by = cd_supported_by c, ed_superseded_by = None,
      ed_attachment = cd_attachment c, ed_provenance = asserted_provenance au c v, ed_metadata = cd_metadata c\<rparr>"

definition relationship_success :: "string \<Rightarrow> string \<Rightarrow> diff_entry \<Rightarrow> engine \<Rightarrow> mutation_result" where
  "relationship_success code i entry = committed_result (make_status O_Committed code) None (Some i) (finish_diff [entry])"

definition refresh_relationship ::
  "(engine \<Rightarrow> file_result) \<Rightarrow> string \<Rightarrow> relationship_candidate \<Rightarrow> node \<Rightarrow> node \<Rightarrow> edge \<Rightarrow> engine \<Rightarrow>
   mutation_result \<times> engine" where
  "refresh_relationship io p c a b x e =
     (let y = refreshed_edge (en_generation e) c a b x in
      conclude_verified io p (note_edge_updated x begin_txn)
        (relationship_success ''relationship.updated'' (ed_id y)
           (edge_entry DK_RelationshipChanged (ed_id y) (render_edge x) (render_edge y)))
        (e\<lparr>en_graph := snd (update_edge y (en_graph e))\<rparr>))"

definition store_relationship ::
  "(engine \<Rightarrow> file_result) \<Rightarrow> authority_context \<Rightarrow> relationship_candidate \<Rightarrow> node \<Rightarrow> node \<Rightarrow> engine \<Rightarrow>
   mutation_result \<times> engine" where
  "store_relationship io au c a b e =
     (let p = au_publisher au; y = asserted_edge au (en_generation e) c a b; t = note_edge_inserted (ed_id y) begin_txn in
      case insert_edge y (en_graph e) of
        (stored, g) \<Rightarrow>
          if \<not> stored
          then rejected_by p (make_status O_InternalError ''relationship.insert_failed'') (e\<lparr>en_graph := snd (rollback t g)\<rparr>)
          else conclude_verified io p t
                 (relationship_success ''relationship.added'' (ed_id y) (edge_entry DK_EdgeAdded (ed_id y) [] (render_edge y)))
                 (e\<lparr>en_graph := g\<rparr>))"

definition admit_relationship ::
  "(engine \<Rightarrow> file_result) \<Rightarrow> authority_context \<Rightarrow> relationship_candidate \<Rightarrow> node \<Rightarrow> node \<Rightarrow> engine \<Rightarrow>
   mutation_result \<times> engine" where
  "admit_relationship io au c a b e =
     (let p = au_publisher au; g = en_graph e in
      case candidate_id_failure g c of Some s \<Rightarrow> rejected_by p s e | None \<Rightarrow>
      (case find_edge_by_key g (cd_key c) of
         None \<Rightarrow> (case validate_relationship_candidate g c True of
             Some s \<Rightarrow> rejected_by p s e
           | None \<Rightarrow> store_relationship io au c a b e)
       | Some j \<Rightarrow>
           let x = the (find_edge g j) in
           if ended x
           then rejected_by p (explain O_Retired ''relationship.retired_cannot_revive''
                  [(''edge_id'', ed_id x), (''lifecycle'', lifecycle_string (ed_lifecycle x))]) e
           else if edge_unchanged c a b x
           then unchanged p (make_status O_Idempotent ''relationship.unchanged'') None (Some (ed_id x)) e
           else (case validate_relationship_candidate g c False of
               Some s \<Rightarrow> rejected_by p s e
             | None \<Rightarrow> refresh_relationship io p c a b x e)))"

definition authorise_relationship ::
  "(engine \<Rightarrow> file_result) \<Rightarrow> authority_context \<Rightarrow> add_relationship_request \<Rightarrow> relationship_candidate \<Rightarrow>
   node \<Rightarrow> node \<Rightarrow> engine \<Rightarrow> mutation_result \<times> engine" where
  "authorise_relationship io au r c a b e =
     (let permit = check_authority e au (cd_domain c) GM_IncrementalWrite;
          permit2 = check_authority e au (cd_secondary_domain c) GM_IncrementalWrite in
      if outcome_of permit \<noteq> O_Ok then rejected permit e
      else if cd_cross_domain c \<and> outcome_of permit2 \<noteq> O_Ok then rejected_by (au_publisher au) permit2 e
      else case stale_generation ''relationship.stale_generation'' (ar_expected_generation r) e of
        Some s \<Rightarrow> rejected_by (au_publisher au) s e
      | None \<Rightarrow> admit_relationship io au c a b e)"

definition endpoint_unknown :: "add_relationship_request \<Rightarrow> status" where
  "endpoint_unknown r = explain O_UnknownEntity ''relationship.endpoint_unknown'' [(''from'', ar_from r), (''to'', ar_to r)]"

definition add_relationship ::
  "(engine \<Rightarrow> file_result) \<Rightarrow> authority_context \<Rightarrow> add_relationship_request \<Rightarrow> engine \<Rightarrow> mutation_result \<times> engine" where
  "add_relationship io au r e =
     (case add_relationship_malformed (en_limits e) r of Some s \<Rightarrow> (answer s, e) | None \<Rightarrow>
      if find_node (en_graph e) (ar_from r) = None \<or> find_node (en_graph e) (ar_to r) = None
      then rejected (endpoint_unknown r) e
      else case resolve_layer (ar_relation r) (ar_layer r) of
        None \<Rightarrow> rejected (explain O_MalformedRequest ''relationship.layer_required''
                  [(''relation'', relation_string (ar_relation r))]) e
      | Some layer \<Rightarrow>
          (case normalize_endpoints (ar_relation r) (ar_from r) (ar_to r) of
             (from_id, to_id) \<Rightarrow>
               (case (find_node (en_graph e) from_id, find_node (en_graph e) to_id) of
                  (Some a, Some b) \<Rightarrow>
                    let res = resolve_relationship_domain (en_graph e) (nd_domain a) (nd_domain b) (ar_domain r)
                                (ar_relation r) (ar_allow_cross_domain r) in
                    if \<not> dr_ok res then rejected (dr_status res) e
                    else authorise_relationship io au r (relationship_candidate_of r from_id to_id layer res) a b e
                | _ \<Rightarrow> rejected (make_status O_UnknownEntity ''relationship.endpoint_unknown'') e)))"

subsection \<open>Attaching\<close>

definition with_operation :: "string \<Rightarrow> mutation_result \<times> engine \<Rightarrow> mutation_result \<times> engine" where
  "with_operation op x = ((fst x)\<lparr>mr_status := with_field (mr_status (fst x)) ''operation'' op\<rparr>, snd x)"

record attach_endpoint_request =
  ae_endpoint :: string
  ae_target :: string
  ae_domain :: string
  ae_edge_id :: "string option"
  ae_attachment :: string
  ae_exclusive :: bool
  ae_expected_generation :: u64
  ae_evidence_generation :: u64
  ae_metadata :: metadata

definition attach_endpoint ::
  "(engine \<Rightarrow> file_result) \<Rightarrow> authority_context \<Rightarrow> attach_endpoint_request \<Rightarrow> engine \<Rightarrow> mutation_result \<times> engine" where
  "attach_endpoint io au r e =
     with_operation ''attach_endpoint'' (add_relationship io au
       \<lparr>ar_edge_id = ae_edge_id r, ar_relationship_id = [], ar_relation = RC_AttachedTo, ar_from = ae_endpoint r,
        ar_to = ae_target r, ar_layer = Some Physical, ar_domain = ae_domain r,
        ar_expected_generation = ae_expected_generation r, ar_evidence_generation = ae_evidence_generation r,
        ar_supported_by = None, ar_attachment = Some (ae_attachment r), ar_exclusive_attachment = ae_exclusive r,
        ar_allow_cross_domain = False, ar_metadata = ae_metadata r\<rparr> e)"

subsection \<open>What the checks establish\<close>

lemma first_some_outcome: "first_some f xs = Some s \<Longrightarrow> \<exists>x \<in> set xs. f x = Some s"
  by (induction xs) (auto split: option.splits)

lemma first_some_None: "first_some f xs = None \<longleftrightarrow> (\<forall>x \<in> set xs. f x = None)"
  by (induction xs) (auto split: option.splits)

lemma check_outcomes:
  "endpoint_lifecycle_failure role i m = Some s \<Longrightarrow> outcome_of s \<noteq> O_Committed"
  "rule_failure c a b = Some s \<Longrightarrow> outcome_of s \<noteq> O_Committed"
  "support_failure g c = Some s \<Longrightarrow> outcome_of s \<noteq> O_Committed"
  "attachment_conflict g c k i = Some s \<Longrightarrow> outcome_of s \<noteq> O_Committed"
  "endpoint_conflict g c i = Some s \<Longrightarrow> outcome_of s \<noteq> O_Committed"
  "cycle_failure g c n = Some s \<Longrightarrow> outcome_of s \<noteq> O_Committed"
  by (auto simp: endpoint_lifecycle_failure_def rule_failure_def support_failure_def attachment_conflict_def
      endpoint_conflict_def cycle_failure_def split: option.splits if_splits)

lemma exclusive_outcome: "exclusive_failure g c = Some s \<Longrightarrow> outcome_of s \<noteq> O_Committed"
  by (auto simp: exclusive_failure_def dest!: first_some_outcome dest: check_outcomes split: if_splits option.split_asm)

lemma endpoints_outcome: "endpoints_failure c a b = Some s \<Longrightarrow> outcome_of s \<noteq> O_Committed"
  by (auto simp: endpoints_failure_def dest: check_outcomes split: option.split_asm)

lemma validate_outcome: "validate_relationship_candidate g c n = Some s \<Longrightarrow> outcome_of s \<noteq> O_Committed"
  unfolding validate_relationship_candidate_def
  by (auto dest: check_outcomes exclusive_outcome endpoints_outcome split: if_splits option.split_asm)

lemma candidate_id_outcome: "candidate_id_failure g c = Some s \<Longrightarrow> outcome_of s \<noteq> O_Committed"
  by (auto simp: candidate_id_failure_def identity_conflict_def edge_id_conflict_def relationship_id_conflict_def
      split: option.splits if_splits)

lemma resolution_outcome: "outcome_of (dr_status (resolve_relationship_domain g a b r rel allow)) \<noteq> O_Committed"
  by (simp add: resolve_relationship_domain_def unresolved_def)

lemma validated:
  assumes "validate_relationship_candidate g c n = None"
  obtains a b where "find_node g (cd_from c) = Some a" "find_node g (cd_to c) = Some b"
    "relation_endpoints_permitted (cd_relation c) (nd_class a) (nd_class b)"
    "relation_layer_permitted (cd_relation c) (cd_layer c)" "cd_from c \<noteq> cd_to c" "cd_id c \<noteq> []"
    "nd_lifecycle a \<notin> {LS_Retired, LS_Superseded}" "nd_lifecycle b \<notin> {LS_Retired, LS_Superseded}"
    "support_failure g c = None" "exclusive_failure g c = None" "cycle_failure g c n = None"
proof -
  have self: "\<not> rule_self_edge_allowed (relation_rules r)" for r by (cases r) (simp_all add: rules_of_def)
  show ?thesis
    using assms that
    by (auto simp: validate_relationship_candidate_def endpoints_failure_def endpoint_lifecycle_failure_def rule_failure_def self
        split: option.splits if_splits)
qed

lemma resolution_scope:
  assumes "dr_ok (resolve_relationship_domain g fd td req rel allow)"
  shows "if dr_cross_domain (resolve_relationship_domain g fd td req rel allow)
    then fd \<noteq> td \<and> allow \<and> {fd, td} = {dr_domain (resolve_relationship_domain g fd td req rel allow),
        dr_secondary_domain (resolve_relationship_domain g fd td req rel allow)} \<and>
      cross_domain_permitted (g_cross_domain_rules g) fd td rel
    else fd = dr_domain (resolve_relationship_domain g fd td req rel allow) \<and>
      td = dr_domain (resolve_relationship_domain g fd td req rel allow)"
  using assms by (auto simp: resolve_relationship_domain_def unresolved_def split: if_splits)

text \<open>What a candidate made by \<open>add_relationship\<close> satisfies before it is admitted.\<close>

definition candidate_scoped :: "graph \<Rightarrow> relationship_candidate \<Rightarrow> bool" where
  "candidate_scoped g c \<longleftrightarrow> (\<exists>a b. find_node g (cd_from c) = Some a \<and> find_node g (cd_to c) = Some b \<and>
     (if cd_cross_domain c
      then nd_domain a \<noteq> nd_domain b \<and> {nd_domain a, nd_domain b} = {cd_domain c, cd_secondary_domain c} \<and>
        cross_domain_permitted (g_cross_domain_rules g) (nd_domain a) (nd_domain b) (cd_relation c)
      else nd_domain a = cd_domain c \<and> nd_domain b = cd_domain c))"

lemma asserted_edge_fields [simp]:
  "ed_id (asserted_edge au v c a b) = cd_id c" "ed_relationship_id (asserted_edge au v c a b) = cd_relationship_id c"
  "ed_relation (asserted_edge au v c a b) = cd_relation c" "ed_from (asserted_edge au v c a b) = cd_from c"
  "ed_to (asserted_edge au v c a b) = cd_to c" "ed_lifecycle (asserted_edge au v c a b) = LS_Current"
  "ed_layer (asserted_edge au v c a b) = cd_layer c" "edge_key_of (asserted_edge au v c a b) = cd_key c"
  "ed_domain (asserted_edge au v c a b) = cd_domain c" "ed_cross_domain (asserted_edge au v c a b) = cd_cross_domain c"
  by (simp_all add: asserted_edge_def edge_key_of_def cd_key_def)

lemma asserted_fits:
  assumes "validate_relationship_candidate g c n = None" "candidate_scoped g c"
  shows "edge_fits g (asserted_edge au v c a b)"
  using assms(1)
proof (rule validated)
  fix a' b'
  assume *: "find_node g (cd_from c) = Some a'" "find_node g (cd_to c) = Some b'"
    "relation_endpoints_permitted (cd_relation c) (nd_class a') (nd_class b')"
    "relation_layer_permitted (cd_relation c) (cd_layer c)" "cd_from c \<noteq> cd_to c"
  then have "scope_ok g (asserted_edge au v c a b) (nd_domain a') (nd_domain b')"
    using assms(2) by (auto simp: candidate_scoped_def scope_ok_def asserted_edge_def)
  with * show ?thesis by (simp add: edge_fits_def)
qed

lemma key_relation: "make_edge_key r a b d = make_edge_key r' a' b' d' \<Longrightarrow> r = r'"
  by (auto simp: make_edge_key_def split: if_splits)

subsection \<open>Admission\<close>

lemma store_relationship_ends:
  assumes ok: "graph_ok (en_graph e)" and val: "validate_relationship_candidate (en_graph e) c True = None"
    and scoped: "candidate_scoped (en_graph e) c" and ids: "candidate_id_failure (en_graph e) c = None"
    and key: "find_edge_by_key (en_graph e) (cd_key c) = None"
  shows "ends_with e (snd (insert_edge (asserted_edge au (en_generation e) c a b) (en_graph e))) (store_relationship io au c a b e) \<and>
    graph_ok (snd (insert_edge (asserted_edge au (en_generation e) c a b) (en_graph e))) \<and> find_edge (en_graph e) (cd_id c) = None"
proof -
  let ?y = "asserted_edge au (en_generation e) c a b"
  note inv = graph_okD(1) [OF ok]
  have id: "find_edge (en_graph e) (cd_id c) = None"
  proof (rule ccontr)
    assume "find_edge (en_graph e) (cd_id c) \<noteq> None"
    then obtain x where x: "find_edge (en_graph e) (cd_id c) = Some x" by blast
    then have "edge_key_of x = cd_key c" using ids by (auto simp: candidate_id_failure_def edge_id_conflict_def split: option.splits if_splits)
    with edge_key_indexed [OF inv x] key show False by simp
  qed
  have rel: "find_edge_by_relationship (en_graph e) (cd_relationship_id c) = None"
  proof (rule ccontr)
    assume "find_edge_by_relationship (en_graph e) (cd_relationship_id c) \<noteq> None"
    then obtain j where j: "find_edge_by_relationship (en_graph e) (cd_relationship_id c) = Some j" by blast
    then have "j = cd_id c" using ids by (auto simp: candidate_id_failure_def relationship_id_conflict_def split: option.splits if_splits)
    with edge_by_relationship_stored [OF inv j] id show False by simp
  qed
  have cyc: "would_create_cycle (en_graph e) (cd_relation c) (cd_from c) (cd_to c) \<noteq> Some True" and ne: "cd_id c \<noteq> []"
    using val by (auto elim!: validated simp: cycle_failure_def split: if_splits)
  have good: "graph_ok (snd (insert_edge ?y (en_graph e)))"
    using id rel key cyc ne asserted_fits [OF val scoped] by (intro ok_insert_edge [OF ok]) simp_all
  have "fst (insert_edge ?y (en_graph e))" using id by (simp add: insert_edge_def has_key_def find_edge_def)
  then obtain g where g: "insert_edge ?y (en_graph e) = (True, g)" by (metis prod.collapse)
  have sec: "secondary_declared (g_domain_definitions (en_graph e)) ?y"
    using good id stored_secondary_declared [OF graph_okD(1) [OF good], of "cd_id c" ?y]
    by (simp add: frame_of_edge_ops find_edge_def lookup_simps has_key_def)
  have "logged (en_graph e) (tx_entries (note_edge_inserted (cd_id c) begin_txn)) g"
    using logged.edge_inserted [OF logged.nothing, of "en_graph e" ?y] id rel key sec g by (simp add: note_defs begin_txn_def)
  moreover have "g_generation g = en_generation e"
    using frame_of_edge_ops(3) [of ?y "en_graph e"] g by (simp add: en_generation_def)
  ultimately have "ends_with e g (conclude_verified io (au_publisher au) (note_edge_inserted (cd_id c) begin_txn)
      (relationship_success ''relationship.added'' (cd_id c) (edge_entry DK_EdgeAdded (cd_id c) [] (render_edge ?y))) (e\<lparr>en_graph := g\<rparr>))"
    using inv by (intro conclude_verified_ends) (auto simp: relationship_success_def)
  then show ?thesis using g good id by (simp add: store_relationship_def)
qed

lemma refreshed_edge_facts:
  "ed_id (refreshed_edge v c a b x) = ed_id x" "ed_relationship_id (refreshed_edge v c a b x) = cd_relationship_id c"
  "ed_relation (refreshed_edge v c a b x) = ed_relation x" "ed_layer (refreshed_edge v c a b x) = cd_layer c"
  "\<not> ended x \<Longrightarrow> same_shape x (refreshed_edge v c a b x)" "edge_key_of (refreshed_edge v c a b x) = edge_key_of x"
  "ed_lifecycle (refreshed_edge v c a b x) = LS_Current"
  by (simp_all add: refreshed_edge_def same_shape_def edge_key_of_def)

lemma refresh_relationship_ends:
  assumes ok: "graph_ok (en_graph e)" and val: "validate_relationship_candidate (en_graph e) c False = None"
    and ids: "candidate_id_failure (en_graph e) c = None"
    and key: "find_edge_by_key (en_graph e) (cd_key c) = Some j" and x: "find_edge (en_graph e) j = Some x" and live: "\<not> ended x"
  shows "ends_with e (snd (update_edge (refreshed_edge (en_generation e) c a b x) (en_graph e))) (refresh_relationship io p c a b x e) \<and>
    graph_ok (snd (update_edge (refreshed_edge (en_generation e) c a b x) (en_graph e))) \<and> j = cd_id c \<and> edge_key_of x = cd_key c"
proof -
  let ?y = "refreshed_edge (en_generation e) c a b x"
  note inv = graph_okD(1) [OF ok] and facts = refreshed_edge_facts
  have j: "j = cd_id c" using ids key by (auto simp: candidate_id_failure_def identity_conflict_def split: if_splits option.splits)
  have id: "ed_id x = j" by (rule graph_inv_ids [OF inv x])
  have kx: "edge_key_of x = cd_key c" using edge_by_key_stored [OF inv key] x by auto
  then have "ed_relation x = cd_relation c" unfolding edge_key_of_def cd_key_def by (rule key_relation)
  moreover have "relation_layer_permitted (cd_relation c) (cd_layer c)" using val by (rule validated)
  moreover have rel: "find_edge_by_relationship (en_graph e) (cd_relationship_id c) \<in> {None, Some j}"
    using ids j by (auto simp: candidate_id_failure_def relationship_id_conflict_def split: if_splits option.splits)
  ultimately have good: "graph_ok (snd (update_edge ?y (en_graph e)))"
    using x id live by (intro ok_update_edge [OF ok, of _ x]) (auto simp: facts)
  have "secondary_declared (g_domain_definitions (en_graph e)) ?y"
    using stored_secondary_declared [OF inv x] by (simp add: refreshed_edge_def secondary_declared_def has_secondary_def)
  then have "edge_identity_free (en_graph e) ?y"
    using rel id kx key by (auto simp: edge_identity_free_def facts)
  then have "logged (en_graph e) (tx_entries (note_edge_updated x begin_txn)) (snd (update_edge ?y (en_graph e)))"
    using logged.edge_updated [OF logged.nothing, of "en_graph e" ?y x] x id by (simp add: note_defs begin_txn_def facts)
  then have "ends_with e (snd (update_edge ?y (en_graph e))) (refresh_relationship io p c a b x e)"
    unfolding refresh_relationship_def Let_def using inv
    by (intro conclude_verified_ends) (auto simp: relationship_success_def frame_of_edge_ops en_generation_def)
  then show ?thesis using good j kx by simp
qed

definition serves :: "engine \<Rightarrow> authority_context \<Rightarrow> add_relationship_request \<Rightarrow> relationship_candidate \<Rightarrow> node \<Rightarrow> node \<Rightarrow> bool" where
  "serves e au r c a b \<longleftrightarrow> candidate_scoped (en_graph e) c \<and> find_node (en_graph e) (cd_from c) = Some a \<and>
     find_node (en_graph e) (cd_to c) = Some b \<and> cd_relation c = ar_relation r \<and>
     {cd_from c, cd_to c} = {ar_from r, ar_to r} \<and> authorised e au (cd_domain c) GM_IncrementalWrite \<and>
     (cd_cross_domain c \<longrightarrow> ar_allow_cross_domain r \<and> authorised e au (cd_secondary_domain c) GM_IncrementalWrite)"

lemma add_relationship_malformed_outcome: "add_relationship_malformed lim r = Some s \<Longrightarrow> outcome_of s \<noteq> O_Committed"
  using metadata_validate_outcome [of "ar_metadata r" lim] by (auto simp: add_relationship_malformed_def split: if_splits)

lemma candidate_of_facts:
  "cd_relation (relationship_candidate_of r f t l res) = ar_relation r" "cd_from (relationship_candidate_of r f t l res) = f"
  "cd_to (relationship_candidate_of r f t l res) = t" "cd_domain (relationship_candidate_of r f t l res) = dr_domain res"
  "cd_cross_domain (relationship_candidate_of r f t l res) = dr_cross_domain res"
  "cd_secondary_domain (relationship_candidate_of r f t l res) = dr_secondary_domain res"
  by (simp_all add: relationship_candidate_of_def Let_def)

lemma authorise_admits:
  assumes "\<not> refused e (authorise_relationship io au r c a b e)"
  shows "authorise_relationship io au r c a b e = admit_relationship io au c a b e \<and> authorised e au (cd_domain c) GM_IncrementalWrite \<and>
    (cd_cross_domain c \<longrightarrow> authorised e au (cd_secondary_domain c) GM_IncrementalWrite)"
  using assms
  by (auto simp: authorise_relationship_def Let_def authorised_def stale_generation_outcome split: if_splits option.split_asm)

lemma add_relationship_admits:
  assumes not: "\<not> refused e (add_relationship io au r e)"
  obtains c a b where "serves e au r c a b" "add_relationship io au r e = admit_relationship io au c a b e"
proof -
  obtain f t where ends: "normalize_endpoints (ar_relation r) (ar_from r) (ar_to r) = (f, t)" by (metis surj_pair)
  have set: "{f, t} = {ar_from r, ar_to r}" using ends by (auto simp: normalize_endpoints_def split: if_splits)
  obtain layer where layer: "resolve_layer (ar_relation r) (ar_layer r) = Some layer"
    using not by (auto simp: add_relationship_def add_relationship_malformed_outcome endpoint_unknown_def split: option.split_asm if_splits)
  obtain a b where ab: "find_node (en_graph e) f = Some a" "find_node (en_graph e) t = Some b"
    using not layer ends
    by (auto simp: add_relationship_def add_relationship_malformed_outcome endpoint_unknown_def split: option.split_asm if_splits)
  define res where "res = resolve_relationship_domain (en_graph e) (nd_domain a) (nd_domain b) (ar_domain r) (ar_relation r) (ar_allow_cross_domain r)"
  let ?c = "relationship_candidate_of r f t layer res"
  have out: "outcome_of (dr_status res) \<noteq> O_Committed" by (simp add: res_def resolution_outcome)
  have dr: "dr_ok res" and run: "add_relationship io au r e = authorise_relationship io au r ?c a b e"
    using not layer ends ab
    by (auto simp: add_relationship_def add_relationship_malformed_outcome endpoint_unknown_def out
        simp flip: res_def split: option.split_asm if_splits)
  note adm = authorise_admits [of e io au r ?c a b] and scope = resolution_scope [OF dr [unfolded res_def], folded res_def]
  have "serves e au r ?c a b"
    using ab set adm not run scope by (auto simp: serves_def candidate_scoped_def candidate_of_facts split: if_splits)
  with that adm not run show ?thesis by simp
qed

lemma admit_relationship_cases:
  assumes ok: "graph_ok (en_graph e)" and srv: "serves e au r c a b" and not: "\<not> refused e (admit_relationship io au c a b e)"
  obtains (stored) "find_edge (en_graph e) (cd_id c) = None"
    "ends_with e (snd (insert_edge (asserted_edge au (en_generation e) c a b) (en_graph e))) (admit_relationship io au c a b e)"
    "graph_ok (snd (insert_edge (asserted_edge au (en_generation e) c a b) (en_graph e)))"
    "validate_relationship_candidate (en_graph e) c True = None"
    "admit_relationship io au c a b e = store_relationship io au c a b e"
  | (refreshed) x where "find_edge (en_graph e) (cd_id c) = Some x" "\<not> ended x" "edge_key_of x = cd_key c"
    "ends_with e (snd (update_edge (refreshed_edge (en_generation e) c a b x) (en_graph e))) (admit_relationship io au c a b e)"
    "graph_ok (snd (update_edge (refreshed_edge (en_generation e) c a b x) (en_graph e)))"
    "admit_relationship io au c a b e = refresh_relationship io (au_publisher au) c a b x e"
proof -
  have ids: "candidate_id_failure (en_graph e) c = None"
    using not by (auto simp: admit_relationship_def candidate_id_outcome Let_def split: option.split_asm)
  show ?thesis
  proof (cases "find_edge_by_key (en_graph e) (cd_key c)")
    case None
    then have val: "validate_relationship_candidate (en_graph e) c True = None"
      and run: "admit_relationship io au c a b e = store_relationship io au c a b e"
      using not ids by (auto simp: admit_relationship_def Let_def validate_outcome split: option.split_asm)
    show ?thesis
      using store_relationship_ends [OF ok val _ ids None, of au a b io] srv run val stored by (simp add: serves_def)
  next
    case (Some j)
    obtain x where x: "find_edge (en_graph e) j = Some x"
      using edge_by_key_stored [OF graph_okD(1) [OF ok] Some] by blast
    have val: "validate_relationship_candidate (en_graph e) c False = None" and live: "\<not> ended x"
      and run: "admit_relationship io au c a b e = refresh_relationship io (au_publisher au) c a b x e"
      using not ids Some x by (auto simp: admit_relationship_def Let_def validate_outcome split: option.split_asm if_splits)
    show ?thesis
      using refresh_relationship_ends [OF ok val ids Some x live, of a b io "au_publisher au"] run x live refreshed by simp
  qed
qed

lemma add_relationship_ok:
  assumes ok: "graph_ok (en_graph e)"
  shows "atomic e (add_relationship io au r e) \<and> graph_ok (en_graph (snd (add_relationship io au r e)))"
proof (cases "refused e (add_relationship io au r e)")
  case True
  then show ?thesis using ok by (rule refused_ok)
next
  case False
  then obtain c a b where c: "serves e au r c a b" "add_relationship io au r e = admit_relationship io au c a b e"
    by (rule add_relationship_admits)
  from ok c(1) False [unfolded c(2)]
  have "atomic e (admit_relationship io au c a b e) \<and> graph_ok (en_graph (snd (admit_relationship io au c a b e)))"
  proof (cases rule: admit_relationship_cases)
    case stored
    show ?thesis by (rule ends_with_ok [OF stored(2) ok stored(3)])
  next
    case (refreshed x)
    show ?thesis by (rule ends_with_ok [OF refreshed(4) ok refreshed(5)])
  qed
  then show ?thesis by (simp add: c(2))
qed

lemma with_operation_ok [simp]:
  "snd (with_operation op x) = snd x" "changed (fst (with_operation op x)) = changed (fst x)"
  by (simp_all add: with_operation_def changed_def)

lemma with_operation_atomic [simp]: "atomic e (with_operation op x) = atomic e x"
  by (simp add: atomic_def)

lemma attach_endpoint_ok:
  "graph_ok (en_graph e) \<Longrightarrow> atomic e (attach_endpoint io au r e) \<and> graph_ok (en_graph (snd (attach_endpoint io au r e)))"
  by (simp add: attach_endpoint_def add_relationship_ok)

subsection \<open>Effects\<close>

lemma key_ends: "make_edge_key r a b d = make_edge_key r' a' b' d' \<Longrightarrow> {a, b} = {a', b'} \<and> d = d'"
  by (auto simp: make_edge_key_def split: if_splits)

text \<open>An edge with the key of a candidate has its scope too.\<close>

lemma same_key_scope:
  assumes fits: "edge_fits g x" and scoped: "candidate_scoped g c" and key: "edge_key_of x = cd_key c"
  shows "ed_relation x = cd_relation c \<and> {ed_from x, ed_to x} = {cd_from c, cd_to c} \<and> ed_domain x = cd_domain c \<and>
    ed_cross_domain x = cd_cross_domain c \<and> (cd_cross_domain c \<longrightarrow> ed_secondary_domain x = cd_secondary_domain c)"
proof -
  have k: "ed_relation x = cd_relation c" "{ed_from x, ed_to x} = {cd_from c, cd_to c}" "ed_domain x = cd_domain c"
    using key key_relation key_ends unfolding edge_key_of_def cd_key_def by blast+
  obtain a b where ab: "find_node g (ed_from x) = Some a" "find_node g (ed_to x) = Some b" "scope_ok g x (nd_domain a) (nd_domain b)"
    using fits by (auto simp: edge_fits_def)
  obtain a' b' where cd: "find_node g (cd_from c) = Some a'" "find_node g (cd_to c) = Some b'"
    "if cd_cross_domain c then nd_domain a' \<noteq> nd_domain b' \<and> {nd_domain a', nd_domain b'} = {cd_domain c, cd_secondary_domain c}
     else nd_domain a' = cd_domain c \<and> nd_domain b' = cd_domain c"
    using scoped by (auto simp: candidate_scoped_def split: if_splits)
  have "(ed_from x = cd_from c \<and> ed_to x = cd_to c) \<or> (ed_from x = cd_to c \<and> ed_to x = cd_from c)"
    using k(2) by (simp add: doubleton_eq_iff)
  then have "(a = a' \<and> b = b') \<or> (a = b' \<and> b = a')" using ab cd by auto
  then show ?thesis
    using k ab(3) cd(3) by (auto simp: scope_ok_def doubleton_eq_iff split: if_splits)
qed

lemma conclude_edge:
  "changed (fst (conclude_verified io p t (relationship_success code i d) e)) \<Longrightarrow>
   mr_edge (fst (conclude_verified io p t (relationship_success code i d) e)) = Some i"
  by (drule conclude_result(2)) (auto simp: relationship_success_def committed_result_def)

lemma add_relationship_stores:
  assumes ok: "graph_ok (en_graph e)" and not: "\<not> refused e (add_relationship io au r e)" and ch: "changed (fst (add_relationship io au r e))"
  obtains c a b g y where "serves e au r c a b" "mr_edge (fst (add_relationship io au r e)) = Some (cd_id c)"
    "ends_with e g (add_relationship io au r e)" "g_nodes g = g_nodes (en_graph e)" "graph_ok g"
    "g_cross_domain_rules g = g_cross_domain_rules (en_graph e)"
    "\<forall>k. find_edge g k = (if k = cd_id c then Some y else find_edge (en_graph e) k)"
    "ed_lifecycle y = LS_Current" "edge_key_of y = cd_key c"
    "\<forall>x. find_edge (en_graph e) (cd_id c) = Some x \<longrightarrow> \<not> ended x \<and> edge_key_of x = edge_key_of y \<and> y = refreshed_edge (en_generation e) c a b x"
    "find_edge (en_graph e) (cd_id c) = None \<longrightarrow> y = asserted_edge au (en_generation e) c a b"
proof -
  obtain c a b where c: "serves e au r c a b" "add_relationship io au r e = admit_relationship io au c a b e"
    using not by (rule add_relationship_admits)
  from ok c(1) not [unfolded c(2)] show ?thesis
  proof (cases rule: admit_relationship_cases)
    case stored
    let ?y = "asserted_edge au (en_generation e) c a b"
    have find: "find_edge (snd (insert_edge ?y (en_graph e))) k = (if k = cd_id c then Some ?y else find_edge (en_graph e) k)" for k
      using stored(1) by (simp add: find_edge_def lookup_simps has_key_def)
    have "mr_edge (fst (store_relationship io au c a b e)) = Some (cd_id c)"
      using ch [unfolded c(2) stored(5)] stored(1)
      by (simp add: store_relationship_def Let_def insert_edge_def has_key_def find_edge_def conclude_edge)
    with stored c find show ?thesis by (intro that [of c a b "snd (insert_edge ?y (en_graph e))" ?y])
        (simp_all add: frame_simps frame_of_edge_ops)
  next
    case (refreshed x)
    let ?y = "refreshed_edge (en_generation e) c a b x"
    have id: "ed_id x = cd_id c" by (rule graph_inv_ids [OF graph_okD(1) [OF ok] refreshed(1)])
    have find: "find_edge (snd (update_edge ?y (en_graph e))) k = (if k = cd_id c then Some ?y else find_edge (en_graph e) k)" for k
      using refreshed(1) id by (simp add: find_after_update_edge refreshed_edge_facts)
    have "mr_edge (fst (refresh_relationship io (au_publisher au) c a b x e)) = Some (cd_id c)"
      using ch [unfolded c(2) refreshed(6)]
      by (simp add: refresh_relationship_def Let_def id refreshed_edge_facts conclude_edge)
    with refreshed c find show ?thesis by (intro that [of c a b "snd (update_edge ?y (en_graph e))" ?y])
        (simp_all add: frame_simps frame_of_edge_ops refreshed_edge_facts)
  qed
qed

text \<open>C23: asserting a relationship commits only for a publisher that may write its domain (both
  domains, and with the explicit flag, when it crosses one). Then the named edge is stored and
  current, relates the requested endpoints, fits the relation table and the scope rules, and is
  new or was live under the same key: an ended relationship is never revived. Every other edge and
  all nodes are as before. In every other case the graph is untouched.\<close>

theorem add_relationship_effect:
  assumes ok: "graph_ok (en_graph e)" and run: "add_relationship io au r e = (res, e')"
  shows "if changed res
    then \<exists>i y. mr_edge res = Some i \<and> find_edge (en_graph e') i = Some y \<and> ed_lifecycle y = LS_Current \<and>
      ed_relation y = ar_relation r \<and> {ed_from y, ed_to y} = {ar_from r, ar_to r} \<and> edge_fits (en_graph e') y \<and>
      authorised e au (ed_domain y) GM_IncrementalWrite \<and>
      (ed_cross_domain y \<longrightarrow> ar_allow_cross_domain r \<and> authorised e au (ed_secondary_domain y) GM_IncrementalWrite) \<and>
      (\<forall>x. find_edge (en_graph e) i = Some x \<longrightarrow> \<not> ended x \<and> edge_key_of x = edge_key_of y) \<and>
      (\<forall>k. k \<noteq> i \<longrightarrow> find_edge (en_graph e') k = find_edge (en_graph e) k) \<and>
      g_nodes (en_graph e') = g_nodes (en_graph e) \<and> en_generation e' = en_generation e + 1
    else en_graph e' = en_graph e"
proof (cases "refused e (add_relationship io au r e) \<or> \<not> changed (fst (add_relationship io au r e))")
  case True
  then show ?thesis using run add_relationship_ok [OF ok, of io au r] by (auto simp: refused_def atomic_def)
next
  case False
  then have not: "\<not> refused e (add_relationship io au r e)" and ch: "changed (fst (add_relationship io au r e))" by simp_all
  from ok not ch obtain c a b g y where c: "serves e au r c a b" "mr_edge (fst (add_relationship io au r e)) = Some (cd_id c)"
    "ends_with e g (add_relationship io au r e)" "g_nodes g = g_nodes (en_graph e)" "graph_ok g"
    "g_cross_domain_rules g = g_cross_domain_rules (en_graph e)"
    and find: "\<forall>k. find_edge g k = (if k = cd_id c then Some y else find_edge (en_graph e) k)"
    and y: "ed_lifecycle y = LS_Current" "edge_key_of y = cd_key c"
    "\<forall>x. find_edge (en_graph e) (cd_id c) = Some x \<longrightarrow> \<not> ended x \<and> edge_key_of x = edge_key_of y \<and> y = refreshed_edge (en_generation e) c a b x"
    "find_edge (en_graph e) (cd_id c) = None \<longrightarrow> y = asserted_edge au (en_generation e) c a b"
    by (rule add_relationship_stores)
  have "find_edge g (cd_id c) = Some y" using find by simp
  then have "edge_fits g y" by (rule graph_okD(7) [OF c(5)])
  moreover from this have fits: "edge_fits (en_graph e) y" using edge_fits_same_nodes [OF c(4,6)] by simp
  moreover have "edge_fits (g\<lparr>g_generation := v\<rparr>) y = edge_fits g y" for v by (rule edge_fits_same_nodes) simp_all
  moreover note scope = same_key_scope [OF fits _ y(2)]
  ultimately show ?thesis
    using c y find ch run by (auto simp: ends_with_def serves_def en_generation_def find_edge_def)
qed

definition demo_link :: add_relationship_request where
  "demo_link = \<lparr>ar_edge_id = Some ''e1'', ar_relationship_id = ''r1'', ar_relation = RC_AttachedTo, ar_from = ''nic'',
     ar_to = ''s1'', ar_layer = None, ar_domain = [], ar_expected_generation = 0, ar_evidence_generation = 3,
     ar_supported_by = None, ar_attachment = Some ''slot'', ar_exclusive_attachment = True,
     ar_allow_cross_domain = False, ar_metadata = []\<rparr>"

definition demo_candidate :: relationship_candidate where
  "demo_candidate = \<lparr>cd_id = ''e1'', cd_relationship_id = ''r1'', cd_relation = RC_AttachedTo, cd_from = ''nic'', cd_to = ''s1'',
     cd_layer = Physical, cd_domain = ''d'', cd_cross_domain = False, cd_secondary_domain = [], cd_evidence_generation = 3,
     cd_supported_by = None, cd_attachment = Some ''slot'', cd_exclusive_attachment = True, cd_metadata = [],
     cd_evidence_type = PT_Real, cd_source = DS_OperatorDeclaration, cd_source_relationship_id = []\<rparr>"

lemma demo_candidate_fields [simp]:
  "cd_id demo_candidate = ''e1''" "cd_relationship_id demo_candidate = ''r1''" "cd_relation demo_candidate = RC_AttachedTo"
  "cd_from demo_candidate = ''nic''" "cd_to demo_candidate = ''s1''" "cd_layer demo_candidate = Physical"
  "cd_domain demo_candidate = ''d''" "\<not> cd_cross_domain demo_candidate" "cd_evidence_generation demo_candidate = 3"
  "cd_supported_by demo_candidate = None" "cd_attachment demo_candidate = Some ''slot''" "cd_exclusive_attachment demo_candidate"
  by (simp_all add: demo_candidate_def)

abbreviation demo_nic :: node where "demo_nic \<equiv> demo_node ''nic'' NC_Nic"
abbreviation demo_s1 :: node where "demo_s1 \<equiv> demo_node ''s1'' NC_Switch"

text \<open>Whatever the state of the engine, the request for the attachment of \<open>nic\<close> to \<open>s1\<close> comes down
  to the admission of one candidate.\<close>

lemma demo_link_admitted:
  assumes "find_node (en_graph e) ''nic'' = Some demo_nic" "find_node (en_graph e) ''s1'' = Some demo_s1"
    "outcome_of (check_authority e demo_authority ''d'' GM_IncrementalWrite) = O_Ok" "en_limits e = default_limits"
  shows "add_relationship io demo_authority demo_link e = admit_relationship io demo_authority demo_candidate demo_nic demo_s1 e"
proof -
  have "relationship_candidate_of demo_link ''nic'' ''s1'' Physical
      \<lparr>dr_ok = True, dr_domain = ''d'', dr_cross_domain = False, dr_secondary_domain = [], dr_status = make_status O_Ok ''domain.resolved''\<rparr> =
      demo_candidate"
    by (simp add: relationship_candidate_of_def demo_link_def demo_candidate_def Let_def)
  moreover have "add_relationship_malformed default_limits demo_link = None"
    by (simp add: add_relationship_malformed_def demo_link_def metadata_validate_def default_limits_def)
  moreover have "resolve_relationship_domain g ''d'' ''d'' [] RC_AttachedTo False =
      \<lparr>dr_ok = True, dr_domain = ''d'', dr_cross_domain = False, dr_secondary_domain = [], dr_status = make_status O_Ok ''domain.resolved''\<rparr>" for g
    by (simp add: resolve_relationship_domain_def)
  ultimately show ?thesis
    using assms
    by (simp add: add_relationship_def)
      (simp add: demo_link_def resolve_layer_def rules_of_def normalize_endpoints_def authorise_relationship_def demo_candidate_def
        stale_generation_def)
qed

lemma attachment_valid:
  assumes "cd_relation c = RC_AttachedTo" "cd_from c = ''nic''" "cd_to c = ''s1''" "cd_layer c = Physical" "cd_supported_by c = None"
    "cd_id c = ''e1''" "cd_relationship_id c \<noteq> []"
    "find_node g ''nic'' = Some demo_nic" "find_node g ''s1'' = Some demo_s1"
    and only: "\<And>i x. find_edge g i = Some x \<Longrightarrow> i = ''e1''"
  shows "validate_relationship_candidate g c n = None"
proof -
  have "first_some (attachment_conflict g c a) is = None" for a "is"
    using only assms(6) by (auto simp: first_some_None attachment_conflict_def split: option.split)
  moreover have "first_some (endpoint_conflict g c) is = None" for "is"
    using only assms(6) by (auto simp: first_some_None endpoint_conflict_def split: option.split)
  moreover have "would_create_cycle g RC_AttachedTo a b = Some False" for a b
    by (simp add: would_create_cycle_def rules_of_def)
  moreover have "relation_endpoints_permitted RC_AttachedTo NC_Nic NC_Switch"
    unfolding relation_endpoints_permitted_def in_from_mask in_to_mask by (simp add: class_groups)
  moreover have "relation_layer_permitted RC_AttachedTo Physical" by (simp add: relation_layer_permitted_def rules_of_def)
  ultimately show ?thesis
    using assms
    by (simp add: validate_relationship_candidate_def exclusive_failure_def endpoints_failure_def endpoint_lifecycle_failure_def
        rule_failure_def support_failure_def cycle_failure_def del: relation_rules.simps split: option.split)
qed

lemma demo_candidate_valid:
  assumes "find_node g ''nic'' = Some demo_nic" "find_node g ''s1'' = Some demo_s1"
    "\<And>i x. find_edge g i = Some x \<Longrightarrow> i = ''e1''"
  shows "validate_relationship_candidate g demo_candidate n = None"
  using assms by (intro attachment_valid) simp_all

text \<open>The attachment goes through in any engine that stores no edge yet.\<close>

lemma demo_link_stored:
  assumes "graph_ok (en_graph e)" "\<And>i. find_edge (en_graph e) i = None" "g_generation (en_graph e) = 0"
    "find_node (en_graph e) ''nic'' = Some demo_nic" "find_node (en_graph e) ''s1'' = Some demo_s1"
    "outcome_of (check_authority e demo_authority ''d'' GM_IncrementalWrite) = O_Ok" "en_limits e = default_limits"
    "en_persistence_path e = []" "\<not> en_verify_indexes e"
  shows "changed (fst (add_relationship io demo_authority demo_link e))"
proof -
  have none: "find_edge_by_key (en_graph e) k = None" "find_edge_by_relationship (en_graph e) r = None" for k r
    using edge_by_key_stored [OF graph_okD(1) [OF assms(1)]] edge_by_relationship_stored [OF graph_okD(1) [OF assms(1)]] assms(2)
    by (metis option.distinct(1) option.exhaust)+
  have val: "validate_relationship_candidate (en_graph e) demo_candidate True = None"
    using assms by (intro demo_candidate_valid) simp_all
  let ?y = "asserted_edge demo_authority (en_generation e) demo_candidate demo_nic demo_s1"
  obtain g where g: "insert_edge ?y (en_graph e) = (True, g)"
    using assms(2) by (cases "insert_edge ?y (en_graph e)") (auto simp: insert_edge_def has_key_def find_edge_def)
  have "g_generation g = 0" using frame_of_edge_ops(3) [of ?y "en_graph e"] g assms(3) by simp
  then show ?thesis
    using assms g
    by (simp add: demo_link_admitted admit_relationship_def candidate_id_failure_def identity_conflict_def edge_id_conflict_def
        relationship_id_conflict_def none val store_relationship_def Let_def conclude_commits relationship_success_def
        en_generation_def can_advance_def)
qed

lemma demo_link_run: "changed (fst (add_relationship io demo_authority demo_link demo_engine))"
  using demo_graph_ok by (intro demo_link_stored) (simp_all add: demo_graph_find demo_graph_base)

theorem add_relationship_effect_witness:
  "\<exists>i y. find_edge (en_graph (snd (add_relationship (\<lambda>_. Written) demo_authority demo_link demo_engine))) i = Some y \<and>
     ed_lifecycle y = LS_Current \<and> {ed_from y, ed_to y} = {''nic'', ''s1''}"
proof -
  obtain res e' where run: "add_relationship (\<lambda>_. Written) demo_authority demo_link demo_engine = (res, e')" by (metis surj_pair)
  have ch: "changed res" using demo_link_run [of "\<lambda>_. Written"] by (simp add: run)
  have "graph_ok (en_graph demo_engine)" using demo_graph_ok by simp
  note eff = add_relationship_effect [OF this run, unfolded if_P [OF ch]]
  obtain i y where "find_edge (en_graph e') i = Some y" "ed_lifecycle y = LS_Current" "{ed_from y, ed_to y} = {ar_from demo_link, ar_to demo_link}"
    using eff by - (erule exE, erule exE, elim conjE, rule that)
  then show ?thesis by (simp add: run) (simp add: demo_link_def, blast)
qed

text \<open>re-asserting a stored relationship makes it current again but keeps the publisher, worker
  boot and coordinator epoch of its first assertion. So when that boot is fenced, the relationship
  is current under the provenance of a fenced boot, and fencing the boot that re-asserted it does
  not demote it.\<close>

theorem reassertion_keeps_provenance:
  assumes ok: "graph_ok (en_graph e)" and run: "add_relationship io au r e = (res, e')" and ch: "changed res"
    and old: "mr_edge res = Some i" "find_edge (en_graph e) i = Some x"
    and boots: "pv_worker_boot (ed_provenance x) \<noteq> b" and fence: "fence_boot io' b reason e' = (n, e'')"
  shows "\<exists>y. find_edge (en_graph e'') i = Some y \<and> ed_lifecycle y = LS_Current \<and>
    pv_worker_boot (ed_provenance y) = pv_worker_boot (ed_provenance x) \<and>
    pv_publisher (ed_provenance y) = pv_publisher (ed_provenance x) \<and>
    pv_coordinator_epoch (ed_provenance y) = pv_coordinator_epoch (ed_provenance x)"
proof -
  have not: "\<not> refused e (add_relationship io au r e)" and ch': "changed (fst (add_relationship io au r e))"
    using ch run by (auto simp: refused_def)
  from ok not ch' obtain c a b g y where c: "serves e au r c a b" "mr_edge (fst (add_relationship io au r e)) = Some (cd_id c)"
    "ends_with e g (add_relationship io au r e)" "g_nodes g = g_nodes (en_graph e)" "graph_ok g"
    "g_cross_domain_rules g = g_cross_domain_rules (en_graph e)"
    and find: "\<forall>k. find_edge g k = (if k = cd_id c then Some y else find_edge (en_graph e) k)"
    and y: "ed_lifecycle y = LS_Current" "edge_key_of y = cd_key c"
    "\<forall>x. find_edge (en_graph e) (cd_id c) = Some x \<longrightarrow> \<not> ended x \<and> edge_key_of x = edge_key_of y \<and> y = refreshed_edge (en_generation e) c a b x"
    "find_edge (en_graph e) (cd_id c) = None \<longrightarrow> y = asserted_edge au (en_generation e) c a b"
    by (rule add_relationship_stores)
  have i: "i = cd_id c" using c(2) old(1) run by simp
  have prov: "pv_worker_boot (ed_provenance y) = pv_worker_boot (ed_provenance x)"
    "pv_publisher (ed_provenance y) = pv_publisher (ed_provenance x)"
    "pv_coordinator_epoch (ed_provenance y) = pv_coordinator_epoch (ed_provenance x)"
    using y(3) old(2) i by (auto simp: refreshed_edge_def)
  have e': "en_graph e' = g\<lparr>g_generation := en_generation e + 1\<rparr>" using c(3) ch run by (simp add: ends_with_def)
  then have "find_edge (en_graph e') i = Some y" using find i by (simp add: find_edge_def)
  moreover have "graph_inv (en_graph e')" using graph_okD(1) [OF c(5)] by (simp add: e')
  ultimately have "find_edge (en_graph e'') i = Some y"
    using fence_boot_spares [OF _ fence] boots prov(1) by simp
  with y(1) prov show ?thesis by simp
qed

text \<open>The demonstration engine with the attachment asserted earlier by another boot and demoted since.\<close>

definition demo_stale_edge :: edge where
  "demo_stale_edge = (asserted_edge (demo_authority\<lparr>au_worker_boot := ''a''\<rparr>) 0 demo_candidate demo_nic demo_s1)
     \<lparr>ed_lifecycle := LS_RevalidationRequired\<rparr>"

definition demo_linked :: engine where
  "demo_linked = demo_engine\<lparr>en_graph := snd (insert_edge demo_stale_edge demo_graph)\<rparr>"

lemma demo_stale_fields [simp]:
  "ed_id demo_stale_edge = ''e1''" "edge_key_of demo_stale_edge = cd_key demo_candidate" "ed_relationship_id demo_stale_edge = ''r1''"
  "ed_relation demo_stale_edge = RC_AttachedTo" "ed_from demo_stale_edge = ''nic''" "ed_to demo_stale_edge = ''s1''"
  "ed_lifecycle demo_stale_edge = LS_RevalidationRequired" "\<not> ended demo_stale_edge" "pv_worker_boot (ed_provenance demo_stale_edge) = ''a''"
  by (simp_all add: demo_stale_edge_def edge_key_of_def cd_key_def asserted_edge_def asserted_provenance_def ended_def)

lemma demo_candidate_scoped: "candidate_scoped demo_graph demo_candidate"
  by (simp add: candidate_scoped_def demo_graph_find)

lemma demo_no_key: "find_edge_by_key demo_graph k = None" "find_edge_by_relationship demo_graph r = None"
  using edge_by_key_stored [OF graph_okD(1) [OF demo_graph_ok]] edge_by_relationship_stored [OF graph_okD(1) [OF demo_graph_ok]]
    demo_graph_find(2)
  by (metis option.distinct(1) option.exhaust)+

lemma demo_linked_facts:
  "graph_ok (en_graph demo_linked)" "find_edge (en_graph demo_linked) i = (if i = ''e1'' then Some demo_stale_edge else None)"
  "g_nodes (en_graph demo_linked) = g_nodes demo_graph" "g_generation (en_graph demo_linked) = 0"
proof -
  have val: "validate_relationship_candidate demo_graph demo_candidate True = None"
    by (intro demo_candidate_valid) (simp_all add: demo_graph_find)
  then have "edge_fits demo_graph (asserted_edge (demo_authority\<lparr>au_worker_boot := ''a''\<rparr>) 0 demo_candidate demo_nic demo_s1)"
    by (rule asserted_fits) (rule demo_candidate_scoped)
  then have fits: "edge_fits demo_graph demo_stale_edge"
    by (simp add: demo_stale_edge_def edge_fits_def scope_ok_def)
  show "graph_ok (en_graph demo_linked)"
    unfolding demo_linked_def
    using fits by (simp, intro ok_insert_edge [OF demo_graph_ok])
      (simp_all add: demo_graph_find demo_no_key would_create_cycle_def rules_of_def)
  show "find_edge (en_graph demo_linked) i = (if i = ''e1'' then Some demo_stale_edge else None)"
    using demo_graph_find(2)
    by (simp add: demo_linked_def frame_of_edge_ops find_edge_def lookup_simps has_key_def demo_graph_base)
  show "g_nodes (en_graph demo_linked) = g_nodes demo_graph" "g_generation (en_graph demo_linked) = 0"
    by (simp_all add: demo_linked_def frame_of_edge_ops frame_simps)
      (simp add: demo_graph_base)
qed

lemma demo_relink_run:
  "changed (fst (add_relationship io demo_authority demo_link demo_linked)) \<and>
   mr_edge (fst (add_relationship io demo_authority demo_link demo_linked)) = Some ''e1''"
proof -
  let ?g = "en_graph demo_linked"
  note inv = graph_okD(1) [OF demo_linked_facts(1)]
  have key: "find_edge_by_key ?g (cd_key demo_candidate) = Some ''e1''"
    using edge_key_indexed [OF inv, of "''e1''" demo_stale_edge] demo_linked_facts(2) by simp
  have rel: "find_edge_by_relationship ?g ''r1'' \<in> {None, Some ''e1''}"
    using edge_by_relationship_stored [OF inv, of "''r1''"] demo_linked_facts(2)
    by (cases "find_edge_by_relationship ?g ''r1''") (auto split: if_splits)
  have nodes: "find_node ?g i = find_node demo_graph i" for i by (simp add: find_node_def demo_linked_facts(3))
  have val: "validate_relationship_candidate ?g demo_candidate False = None"
    by (rule demo_candidate_valid) (simp_all add: nodes demo_graph_find demo_linked_facts(2) split: if_splits)
  have ids: "candidate_id_failure ?g demo_candidate = None"
    using key rel by (auto simp: candidate_id_failure_def identity_conflict_def edge_id_conflict_def relationship_id_conflict_def
        demo_linked_facts(2))
  have plain: "en_limits demo_linked = default_limits" "en_persistence_path demo_linked = []" "\<not> en_verify_indexes demo_linked"
    "outcome_of (check_authority demo_linked demo_authority ''d'' GM_IncrementalWrite) = O_Ok"
  proof -
    show "en_limits demo_linked = default_limits" "en_persistence_path demo_linked = []" "\<not> en_verify_indexes demo_linked"
      by (simp_all add: demo_linked_def)
    have "check_authority demo_linked demo_authority ''d'' GM_IncrementalWrite =
        check_authority demo_engine demo_authority ''d'' GM_IncrementalWrite"
      by (simp add: check_authority_def demo_linked_def boot_is_fenced_def check_registration_def)
    then show "outcome_of (check_authority demo_linked demo_authority ''d'' GM_IncrementalWrite) = O_Ok" by simp
  qed
  have "changed (fst (admit_relationship io demo_authority demo_candidate demo_nic demo_s1 demo_linked))"
    by (simp add: admit_relationship_def ids key val demo_linked_facts(2) edge_unchanged_def Let_def refresh_relationship_def)
      (rule conclude_commits(2), simp_all add: plain en_generation_def frame_of_edge_ops demo_linked_facts(4) can_advance_def
        relationship_success_def demo_linked_def demo_graph_base)
  moreover have "add_relationship io demo_authority demo_link demo_linked =
      admit_relationship io demo_authority demo_candidate demo_nic demo_s1 demo_linked"
    by (rule demo_link_admitted) (simp_all add: plain nodes demo_graph_find)
  moreover have "mr_edge (fst (admit_relationship io demo_authority demo_candidate demo_nic demo_s1 demo_linked)) = Some ''e1''"
    if "changed (fst (admit_relationship io demo_authority demo_candidate demo_nic demo_s1 demo_linked))"
    using that
    by (simp add: admit_relationship_def ids key val demo_linked_facts(2) edge_unchanged_def Let_def refresh_relationship_def
        conclude_edge refreshed_edge_facts)
  ultimately show ?thesis by simp
qed

theorem reassertion_keeps_provenance_witness:
  "\<exists>y. find_edge (en_graph (snd (fence_boot (\<lambda>_. Written) ''b'' []
       (snd (add_relationship (\<lambda>_. Written) demo_authority demo_link demo_linked))))) ''e1'' = Some y \<and>
     ed_lifecycle y = LS_Current \<and> pv_worker_boot (ed_provenance y) = ''a''"
proof -
  obtain res e' where run: "add_relationship (\<lambda>_. Written) demo_authority demo_link demo_linked = (res, e')" by (metis surj_pair)
  obtain n e'' where fence: "fence_boot (\<lambda>_. Written) ''b'' [] e' = (n, e'')" by (metis surj_pair)
  have res: "changed res" "mr_edge res = Some ''e1''" using demo_relink_run [of "\<lambda>_. Written"] by (simp_all add: run)
  have "find_edge (en_graph demo_linked) ''e1'' = Some demo_stale_edge" by (simp add: demo_linked_facts(2))
  note eff = reassertion_keeps_provenance [OF demo_linked_facts(1) run res this _ fence]
  show ?thesis using eff by (auto simp: run fence)
qed
end
