(* ===== verification/Lifecycle.thy ===== *)
theory Lifecycle
  imports Relationships
begin

text \<open>
  The life of a stored relationship (\<open>src/topology_mutations.cpp\<close>): new evidence and revalidation,
  supersession, retirement and the detachment of an endpoint. All of them replace one edge by an
  edit of it; \<open>revise_edge\<close> is that shared end.
\<close>

subsection \<open>Requests\<close>

record update_evidence_request =
  ue_edge :: string
  ue_evidence_generation :: u64
  ue_lifecycle :: lifecycle_state
  ue_expected_generation :: u64
  ue_expected_edge_generation :: u64
  ue_replace_metadata :: bool
  ue_metadata :: metadata
  ue_reason :: string

record revalidate_request =
  rv_edge :: string
  rv_evidence_generation :: u64
  rv_expected_generation :: u64
  rv_reason :: string

record supersede_request =
  su_edge :: string
  su_replacement :: "string option"
  su_expected_generation :: u64
  su_reason :: string

record retire_request =
  rt_edge :: string
  rt_expected_generation :: u64
  rt_reason :: string

record detach_endpoint_request =
  de_endpoint :: string
  de_attachment :: string
  de_expected_generation :: u64
  de_reason :: string

subsection \<open>The shared end\<close>

definition revise_edge ::
  "(engine \<Rightarrow> file_result) \<Rightarrow> string \<Rightarrow> edge \<Rightarrow> edge \<Rightarrow> (engine \<Rightarrow> mutation_result) \<Rightarrow> engine \<Rightarrow> mutation_result \<times> engine" where
  "revise_edge io p x y success e =
     conclude io p (note_edge_updated x begin_txn) success (e\<lparr>en_graph := snd (update_edge y (en_graph e))\<rparr>)"

subsection \<open>Evidence\<close>

definition stale_edge_generation :: "string \<Rightarrow> u64 \<Rightarrow> edge \<Rightarrow> status option" where
  "stale_edge_generation code expected x =
     (if expected \<noteq> 0 \<and> expected \<noteq> ed_generation x
      then Some (explain O_StaleGeneration code
             [(''expected_edge_generation'', u64_string expected), (''current_edge_generation'', u64_string (ed_generation x))])
      else None)"

definition ended_failure :: "string \<Rightarrow> edge \<Rightarrow> status option" where
  "ended_failure i x =
     (if ed_lifecycle x = LS_Retired then Some (explain O_Retired ''relationship.retired_cannot_revive'' [(''edge_id'', i)])
      else if ed_lifecycle x = LS_Superseded
      then Some (explain O_Superseded ''relationship.superseded_cannot_revive'' [(''edge_id'', i)])
      else None)"

text \<open>Whether the registry has moved past the binding of a node.\<close>

definition entity_stale :: "(string \<Rightarrow> entity_record option) \<Rightarrow> node \<Rightarrow> bool" where
  "entity_stale look n =
     (case look (nd_entity_id n) of None \<Rightarrow> True
      | Some rec \<Rightarrow> er_retired rec \<or> er_superseded rec \<or> er_generation rec \<noteq> nd_entity_generation n)"

definition registry_failure :: "engine \<Rightarrow> string \<Rightarrow> node \<Rightarrow> node \<Rightarrow> status option" where
  "registry_failure e i a b =
     (case en_directory e of None \<Rightarrow> None | Some look \<Rightarrow>
        if entity_stale look a \<or> entity_stale look b
        then Some (explain O_StaleEntityGeneration ''relationship.registry_generation_advanced''
               ((''edge_id'', i) # (if entity_stale look a then [(''from_entity'', nd_entity_id a)] else []) @
                (if entity_stale look b then [(''to_entity'', nd_entity_id b)] else [])))
        else None)"

definition binding_failure :: "engine \<Rightarrow> string \<Rightarrow> edge \<Rightarrow> status option" where
  "binding_failure e i x =
     (case (find_node (en_graph e) (ed_from x), find_node (en_graph e) (ed_to x)) of
        (Some a, Some b) \<Rightarrow>
          (case registry_failure e i a b of Some s \<Rightarrow> Some s | None \<Rightarrow>
             if \<not> endpoints_match x a b
             then Some (explain O_StaleEntityGeneration ''relationship.endpoint_generation_changed''
                    [(''edge_id'', i), (''edge_from_entity_generation'', u64_string (ed_from_entity_generation x)),
                     (''node_entity_generation'', u64_string (nd_entity_generation a))])
             else None)
      | _ \<Rightarrow> Some (explain O_StructuralInvariantViolation ''relationship.endpoint_missing'' [(''edge_id'', i)]))"

definition evidence_edge ::
  "authority_context \<Rightarrow> u64 \<Rightarrow> u64 \<Rightarrow> lifecycle_state \<Rightarrow> metadata option \<Rightarrow> edge \<Rightarrow> edge" where
  "evidence_edge au v evidence lifecycle md x =
     (let prov = (ed_provenance x)\<lparr>pv_evidence_generation := evidence, pv_last_validated_generation := v\<rparr> in
      x\<lparr>ed_evidence_generation := evidence, ed_lifecycle := lifecycle,
        ed_metadata := (case md of Some m \<Rightarrow> m | None \<Rightarrow> ed_metadata x), ed_last_validated_generation := v,
        ed_provenance := (if lifecycle = LS_Current
          then prov\<lparr>pv_publisher := au_publisher au, pv_worker_boot := au_worker_boot au,
                 pv_coordinator_epoch := au_coordinator_epoch au\<rparr>
          else prov),
        ed_generation := advance_if_possible (ed_generation x)\<rparr>)"

definition evidence_entry :: "edge \<Rightarrow> edge \<Rightarrow> string \<Rightarrow> diff_entry" where
  "evidence_entry x y i =
     (if ed_lifecycle x \<noteq> ed_lifecycle y
      then edge_entry DK_CurrentnessChanged i (lifecycle_string (ed_lifecycle x)) (lifecycle_string (ed_lifecycle y))
      else edge_entry DK_RelationshipChanged i [] (render_edge y))"

definition evidence_success :: "string \<Rightarrow> string \<Rightarrow> diff_entry \<Rightarrow> engine \<Rightarrow> mutation_result" where
  "evidence_success i reason entry =
     committed_result (with_reason reason (make_status O_Committed ''relationship.evidence_updated'')) None (Some i)
       (finish_diff [entry])"

definition evidence_unchanged :: "u64 \<Rightarrow> lifecycle_state \<Rightarrow> metadata option \<Rightarrow> edge \<Rightarrow> bool" where
  "evidence_unchanged evidence lifecycle md x =
     (ed_evidence_generation x = evidence \<and> ed_lifecycle x = lifecycle \<and>
      (case md of Some m \<Rightarrow> ed_metadata x = m | None \<Rightarrow> True))"

text \<open>\<open>md\<close> is the metadata to store, \<open>None\<close> for \<open>replace_metadata = false\<close>.\<close>

definition apply_evidence_change ::
  "(engine \<Rightarrow> file_result) \<Rightarrow> authority_context \<Rightarrow> string \<Rightarrow> u64 \<Rightarrow> lifecycle_state \<Rightarrow> u64 \<Rightarrow> u64 \<Rightarrow> metadata option \<Rightarrow>
   string \<Rightarrow> bool \<Rightarrow> engine \<Rightarrow> mutation_result \<times> engine" where
  "apply_evidence_change io au i evidence lifecycle expected expected_edge md reason require_binding e =
     (case find_edge (en_graph e) i of
        None \<Rightarrow> rejected (explain O_NotFound ''relationship.not_found'' [(''edge_id'', i)]) e
      | Some x \<Rightarrow>
          let p = au_publisher au; permit = check_authority e au (ed_domain x) GM_IncrementalWrite in
          if outcome_of permit \<noteq> O_Ok then rejected permit e
          else case stale_generation ''relationship.stale_generation'' expected e of
            Some s \<Rightarrow> rejected_by p s e
          | None \<Rightarrow>
          case stale_edge_generation ''relationship.stale_edge_generation'' expected_edge x of
            Some s \<Rightarrow> rejected_by p s e
          | None \<Rightarrow>
          case ended_failure i x of
            Some s \<Rightarrow> rejected_by p s e
          | None \<Rightarrow>
          case (if require_binding \<and> lifecycle = LS_Current then binding_failure e i x else None) of
            Some s \<Rightarrow> rejected_by p s e
          | None \<Rightarrow>
              if evidence_unchanged evidence lifecycle md x
              then unchanged p (make_status O_Idempotent ''relationship.evidence_unchanged'') None (Some i) e
              else let y = evidence_edge au (en_generation e) evidence lifecycle md x in
                revise_edge io p x y (evidence_success i reason (evidence_entry x y i)) e)"

definition update_relationship_evidence ::
  "(engine \<Rightarrow> file_result) \<Rightarrow> authority_context \<Rightarrow> update_evidence_request \<Rightarrow> engine \<Rightarrow> mutation_result \<times> engine" where
  "update_relationship_evidence io au r e =
     (if outcome_of (metadata_validate (ue_metadata r) (en_limits e)) \<noteq> O_Ok
      then ((answer (metadata_validate (ue_metadata r) (en_limits e)))\<lparr>mr_generation := en_generation e\<rparr>, e)
      else if ue_lifecycle r = LS_Retired \<or> ue_lifecycle r = LS_Superseded
      then ((answer (make_status O_MalformedRequest ''relationship.use_dedicated_operation''))
              \<lparr>mr_generation := en_generation e\<rparr>, e)
      else with_operation ''update_relationship_evidence''
             (apply_evidence_change io au (ue_edge r) (ue_evidence_generation r) (ue_lifecycle r)
                (ue_expected_generation r) (ue_expected_edge_generation r)
                (if ue_replace_metadata r then Some (ue_metadata r) else None) (ue_reason r)
                (ue_lifecycle r = LS_Current) e))"

definition mark_revalidated :: "mutation_result \<times> engine \<Rightarrow> mutation_result \<times> engine" where
  "mark_revalidated x =
     (if accepted (fst x) then ((fst x)\<lparr>mr_status := with_field (mr_status (fst x)) ''revalidated'' ''true''\<rparr>, snd x) else x)"

definition revalidate_relationship ::
  "(engine \<Rightarrow> file_result) \<Rightarrow> authority_context \<Rightarrow> revalidate_request \<Rightarrow> engine \<Rightarrow> mutation_result \<times> engine" where
  "revalidate_relationship io au r e =
     mark_revalidated (with_operation ''revalidate_relationship''
       (apply_evidence_change io au (rv_edge r) (rv_evidence_generation r) LS_Current (rv_expected_generation r) 0 None
          (rv_reason r) True e))"

subsection \<open>Supersession and retirement\<close>

definition replacement_failure :: "graph \<Rightarrow> string \<Rightarrow> string option \<Rightarrow> status option" where
  "replacement_failure g i replacement =
     (case replacement of None \<Rightarrow> None | Some j \<Rightarrow>
        case find_edge g j of
          None \<Rightarrow> Some (explain O_NotFound ''relationship.replacement_not_found'' [(''replacement'', j)])
        | Some y \<Rightarrow>
            if j = i then Some (make_status O_CycleRejected ''relationship.self_supersede'')
            else if ed_lifecycle y \<noteq> LS_Current
            then Some (explain O_RelationshipConflict ''relationship.replacement_not_current''
                   [(''replacement_lifecycle'', lifecycle_string (ed_lifecycle y))])
            else None)"

definition superseded_edge :: "string option \<Rightarrow> edge \<Rightarrow> edge" where
  "superseded_edge replacement x =
     x\<lparr>ed_lifecycle := LS_Superseded, ed_superseded_by := replacement, ed_generation := advance_if_possible (ed_generation x)\<rparr>"

text \<open>The diff reads the lifecycle before the change through a pointer into the map, after the change.\<close>

definition supersede_success :: "supersede_request \<Rightarrow> edge \<Rightarrow> engine \<Rightarrow> mutation_result" where
  "supersede_success r y e =
     committed_result (with_reason (su_reason r) (make_status O_Committed ''relationship.superseded'')) None (Some (su_edge r))
       (finish_diff [edge_entry DK_EdgeSuperseded (su_edge r)
          (case find_edge (en_graph e) (su_edge r) of Some found \<Rightarrow> lifecycle_string (ed_lifecycle found) | None \<Rightarrow> [])
          (lifecycle_string (ed_lifecycle y))]) e"

definition supersede_relationship ::
  "(engine \<Rightarrow> file_result) \<Rightarrow> authority_context \<Rightarrow> supersede_request \<Rightarrow> engine \<Rightarrow> mutation_result \<times> engine" where
  "supersede_relationship io au r e =
     (if su_edge r = [] then (answer (make_status O_MalformedRequest ''relationship.edge_missing''), e)
      else case find_edge (en_graph e) (su_edge r) of
        None \<Rightarrow> rejected (explain O_NotFound ''relationship.not_found'' [(''edge_id'', su_edge r)]) e
      | Some x \<Rightarrow>
          let p = au_publisher au; permit = check_authority e au (ed_domain x) GM_IncrementalWrite in
          if outcome_of permit \<noteq> O_Ok then rejected permit e
          else case stale_generation ''relationship.stale_generation'' (su_expected_generation r) e of
            Some s \<Rightarrow> rejected_by p s e
          | None \<Rightarrow>
              if ed_lifecycle x = LS_Superseded \<and> ed_superseded_by x = su_replacement r
              then unchanged p (make_status O_Idempotent ''relationship.already_superseded'') None (Some (su_edge r)) e
              else if ed_lifecycle x = LS_Retired then rejected_by p (make_status O_Retired ''relationship.retired'') e
              else case replacement_failure (en_graph e) (su_edge r) (su_replacement r) of
                Some s \<Rightarrow> rejected_by p s e
              | None \<Rightarrow> let y = superseded_edge (su_replacement r) x in revise_edge io p x y (supersede_success r y) e)"

definition retired_edge :: "edge \<Rightarrow> edge" where
  "retired_edge x = x\<lparr>ed_lifecycle := LS_Retired, ed_generation := advance_if_possible (ed_generation x)\<rparr>"

definition retire_success :: "retire_request \<Rightarrow> edge \<Rightarrow> engine \<Rightarrow> mutation_result" where
  "retire_success r x =
     committed_result (with_reason (rt_reason r) (make_status O_Committed ''relationship.retired'')) None (Some (rt_edge r))
       (finish_diff [edge_entry DK_CurrentnessChanged (rt_edge r) (lifecycle_string (ed_lifecycle x)) (lifecycle_string LS_Retired)])"

definition retire_relationship ::
  "(engine \<Rightarrow> file_result) \<Rightarrow> authority_context \<Rightarrow> retire_request \<Rightarrow> engine \<Rightarrow> mutation_result \<times> engine" where
  "retire_relationship io au r e =
     (if rt_edge r = [] then (answer (make_status O_MalformedRequest ''relationship.edge_missing''), e)
      else case find_edge (en_graph e) (rt_edge r) of
        None \<Rightarrow> rejected (explain O_NotFound ''relationship.not_found'' [(''edge_id'', rt_edge r)]) e
      | Some x \<Rightarrow>
          let p = au_publisher au; permit = check_authority e au (ed_domain x) GM_IncrementalWrite in
          if outcome_of permit \<noteq> O_Ok then rejected permit e
          else case stale_generation ''relationship.stale_generation'' (rt_expected_generation r) e of
            Some s \<Rightarrow> rejected_by p s e
          | None \<Rightarrow>
              if ed_lifecycle x = LS_Retired
              then unchanged p (make_status O_Idempotent ''relationship.already_retired'') None (Some (rt_edge r)) e
              else revise_edge io p x (retired_edge x) (retire_success r x) e)"

subsection \<open>Detaching\<close>

definition detaches :: "graph \<Rightarrow> string \<Rightarrow> string \<Rightarrow> bool" where
  "detaches g endpoint i =
     (case find_edge g i of None \<Rightarrow> False | Some x \<Rightarrow> ed_from x = endpoint \<and> ed_lifecycle x = LS_Current)"

text \<open>The code takes the first match of a hash set, the model the first in identifier order.\<close>

definition detach_endpoint ::
  "(engine \<Rightarrow> file_result) \<Rightarrow> authority_context \<Rightarrow> detach_endpoint_request \<Rightarrow> engine \<Rightarrow> mutation_result \<times> engine" where
  "detach_endpoint io au r e =
     (case List.find (detaches (en_graph e) (de_endpoint r)) (sorted_bucket (g_edge_by_attachment (en_graph e)) (de_attachment r)) of
        None \<Rightarrow> rejected (explain O_NotFound ''attachment.not_found''
                  [(''endpoint'', de_endpoint r), (''attachment'', de_attachment r)]) e
      | Some i \<Rightarrow> with_operation ''detach_endpoint''
          (retire_relationship io au
             \<lparr>rt_edge = i, rt_expected_generation = de_expected_generation r, rt_reason = de_reason r\<rparr> e))"

subsection \<open>What a revision does\<close>

lemma with_operation_refused [simp]: "refused e (with_operation op x) = refused e x"
  by (simp add: refused_def)

lemma mark_revalidated_simps [simp]:
  "snd (mark_revalidated x) = snd x" "changed (fst (mark_revalidated x)) = changed (fst x)"
  by (simp_all add: mark_revalidated_def changed_def)

lemma with_operation_ends [simp]: "ends_with e g (with_operation op x) = ends_with e g x"
  "ends_with e g (mark_revalidated x) = ends_with e g x" "refused e (mark_revalidated x) = refused e x"
  by (simp_all add: ends_with_def refused_def)

lemma revise_ends:
  assumes ok: "graph_ok (en_graph e)" and x: "find_edge (en_graph e) i = Some x"
    and same: "same_shape x y" "ed_relationship_id y = ed_relationship_id x" "ed_layer y = ed_layer x"
    and success: "\<And>e'. changed (success e')"
  shows "ends_with e (snd (update_edge y (en_graph e))) (revise_edge io p x y success e) \<and> graph_ok (snd (update_edge y (en_graph e)))"
proof -
  note inv = graph_okD(1) [OF ok]
  have id: "ed_id y = i" using graph_inv_ids [OF inv x] same(1) by (simp add: same_shape_def)
  have "logged (en_graph e) (tx_entries (note_edge_updated x begin_txn)) (snd (update_edge y (en_graph e)))"
    by (rule logged_update_edge [OF _ inv x same_shape_identity [OF same(1,2)]]) (simp add: begin_txn_def logged.nothing)
  then have "ends_with e (snd (update_edge y (en_graph e))) (revise_edge io p x y success e)"
    unfolding revise_edge_def using inv success
    by (intro conclude_ends) (simp_all add: frame_of_edge_ops en_generation_def note_defs begin_txn_def)
  moreover have "graph_ok (snd (update_edge y (en_graph e)))"
    using x same id by (intro ok_update_edge_kept [OF ok, of y x]) simp_all
  ultimately show ?thesis by simp
qed

text \<open>The contract the operations of this theory share: nothing happens, or the edge \<open>i\<close> met
  \<open>P\<close> and is replaced by \<open>f\<close> of it.\<close>

definition revises :: "engine \<Rightarrow> string \<Rightarrow> (edge \<Rightarrow> bool) \<Rightarrow> (edge \<Rightarrow> edge) \<Rightarrow> mutation_result \<times> engine \<Rightarrow> bool" where
  "revises e i P f z \<longleftrightarrow> refused e z \<or>
     (\<exists>x. find_edge (en_graph e) i = Some x \<and> P x \<and> same_shape x (f x) \<and> ed_layer (f x) = ed_layer x \<and>
        ends_with e (snd (update_edge (f x) (en_graph e))) z \<and> graph_ok (snd (update_edge (f x) (en_graph e))))"

lemma revises_result [simp]: "revises e i P f (with_operation op z) = revises e i P f z"
  by (simp add: revises_def)

lemma revises_ok:
  assumes "graph_ok (en_graph e)" "revises e i P f z"
  shows "atomic e z \<and> graph_ok (en_graph (snd z))"
  using assms refused_ok [of e z] ends_with_ok [of e _ z] by (auto simp: revises_def)

lemma revises_effect:
  assumes ok: "graph_ok (en_graph e)" and rev: "revises e i P f z" and ch: "changed (fst z)"
  obtains x where "find_edge (en_graph e) i = Some x" "P x" "find_edge (en_graph (snd z)) i = Some (f x)"
    "\<forall>j. j \<noteq> i \<longrightarrow> find_edge (en_graph (snd z)) j = find_edge (en_graph e) j"
    "g_nodes (en_graph (snd z)) = g_nodes (en_graph e)" "en_generation (snd z) = en_generation e + 1"
proof -
  obtain x where x: "find_edge (en_graph e) i = Some x" "P x" "same_shape x (f x)"
    and ends: "ends_with e (snd (update_edge (f x) (en_graph e))) z"
    using rev ch by (auto simp: revises_def refused_def)
  have id: "ed_id (f x) = i" using graph_inv_ids [OF graph_okD(1) [OF ok] x(1)] x(3) by (simp add: same_shape_def)
  have after: "en_graph (snd z) = (snd (update_edge (f x) (en_graph e)))\<lparr>g_generation := en_generation e + 1\<rparr>"
    using ends ch by (simp add: ends_with_def)
  have "find_edge (en_graph (snd z)) j = (if j = i then Some (f x) else find_edge (en_graph e) j)" for j
    using find_after_update_edge [of "f x" "en_graph e" j] x(1) id by (simp add: after find_edge_def)
  with that [OF x(1,2)] show ?thesis by (simp add: after en_generation_def frame_simps)
qed

subsection \<open>The operations\<close>

lemma evidence_edge_facts:
  "ed_id (evidence_edge au v n l md x) = ed_id x" "ed_layer (evidence_edge au v n l md x) = ed_layer x"
  "ed_relationship_id (evidence_edge au v n l md x) = ed_relationship_id x"
  "ed_lifecycle (evidence_edge au v n l md x) = l" "ed_evidence_generation (evidence_edge au v n l md x) = n"
  "\<not> ended x \<Longrightarrow> same_shape x (evidence_edge au v n l md x)"
  by (simp_all add: evidence_edge_def Let_def same_shape_def)

lemma evidence_outcomes:
  "stale_edge_generation c v x = Some s \<Longrightarrow> outcome_of s \<noteq> O_Committed"
  "ended_failure i x = Some s \<Longrightarrow> outcome_of s \<noteq> O_Committed"
  "binding_failure e i x = Some s \<Longrightarrow> outcome_of s \<noteq> O_Committed"
  "replacement_failure g i r = Some s \<Longrightarrow> outcome_of s \<noteq> O_Committed"
  by (auto simp: stale_edge_generation_def ended_failure_def binding_failure_def registry_failure_def replacement_failure_def
      split: if_splits option.splits)

lemma ended_failure_None: "ended_failure i x = None \<longleftrightarrow> \<not> ended x"
  by (simp add: ended_failure_def ended_def)

text \<open>When a relationship is bound to the entities its endpoints stand for now.\<close>

definition bound_now :: "engine \<Rightarrow> edge \<Rightarrow> bool" where
  "bound_now e x \<longleftrightarrow> (\<exists>a b. find_node (en_graph e) (ed_from x) = Some a \<and> find_node (en_graph e) (ed_to x) = Some b \<and>
     endpoints_match x a b \<and>
     (\<forall>look. en_directory e = Some look \<longrightarrow> \<not> entity_stale look a \<and> \<not> entity_stale look b))"

lemma binding_failure_None: "binding_failure e i x = None \<longleftrightarrow> bound_now e x"
  by (auto simp: binding_failure_def registry_failure_def bound_now_def split: option.splits if_splits)

definition takes_evidence :: "engine \<Rightarrow> authority_context \<Rightarrow> lifecycle_state \<Rightarrow> u64 \<Rightarrow> u64 \<Rightarrow> bool \<Rightarrow> edge \<Rightarrow> bool" where
  "takes_evidence e au l expected expected_edge require x \<longleftrightarrow>
     authorised e au (ed_domain x) GM_IncrementalWrite \<and> expected \<in> {0, en_generation e} \<and>
     expected_edge \<in> {0, ed_generation x} \<and> \<not> ended x \<and> (require \<and> l = LS_Current \<longrightarrow> bound_now e x)"

lemma apply_evidence_revises:
  assumes ok: "graph_ok (en_graph e)"
  shows "revises e i (takes_evidence e au l expected expected_edge require) (evidence_edge au (en_generation e) n l md)
    (apply_evidence_change io au i n l expected expected_edge md reason require e)"
proof (cases "refused e (apply_evidence_change io au i n l expected expected_edge md reason require e)")
  case False
  let ?f = "evidence_edge au (en_generation e) n l md"
  obtain x where x: "find_edge (en_graph e) i = Some x" "takes_evidence e au l expected expected_edge require x"
    and run: "apply_evidence_change io au i n l expected expected_edge md reason require e =
      revise_edge io (au_publisher au) x (?f x) (evidence_success i reason (evidence_entry x (?f x) i)) e"
    using False
    by (auto simp: apply_evidence_change_def Let_def takes_evidence_def authorised_def stale_generation_def
        stale_edge_generation_def ended_failure_None binding_failure_None evidence_outcomes
        split: if_splits option.split_asm)
  have "\<not> ended x" using x(2) by (simp add: takes_evidence_def)
  note same = evidence_edge_facts(6) [OF this, of au "en_generation e" n l md]
  have "ends_with e (snd (update_edge (?f x) (en_graph e))) (revise_edge io (au_publisher au) x (?f x)
      (evidence_success i reason (evidence_entry x (?f x) i)) e) \<and> graph_ok (snd (update_edge (?f x) (en_graph e)))"
    by (rule revise_ends [OF ok x(1) same]) (simp_all add: evidence_edge_facts evidence_success_def)
  then show ?thesis using x same run by (auto simp: revises_def evidence_edge_facts)
qed (simp add: revises_def)

lemma update_evidence_revises:
  assumes ok: "graph_ok (en_graph e)"
  shows "revises e (ue_edge r)
    (\<lambda>x. ue_lifecycle r \<notin> {LS_Retired, LS_Superseded} \<and>
      takes_evidence e au (ue_lifecycle r) (ue_expected_generation r) (ue_expected_edge_generation r) True x)
    (evidence_edge au (en_generation e) (ue_evidence_generation r) (ue_lifecycle r)
      (if ue_replace_metadata r then Some (ue_metadata r) else None))
    (update_relationship_evidence io au r e)"
proof -
  let ?md = "if ue_replace_metadata r then Some (ue_metadata r) else None"
  note rev = apply_evidence_revises [OF ok, of "ue_edge r" au "ue_lifecycle r" "ue_expected_generation r" "ue_expected_edge_generation r"
      "ue_lifecycle r = LS_Current" "ue_evidence_generation r" ?md io "ue_reason r"]
  have "refused e (update_relationship_evidence io au r e)"
    if "outcome_of (metadata_validate (ue_metadata r) (en_limits e)) \<noteq> O_Ok \<or> ue_lifecycle r \<in> {LS_Retired, LS_Superseded}"
    using that metadata_validate_outcome [of "ue_metadata r" "en_limits e"]
    by (auto simp: update_relationship_evidence_def refused_def changed_def answer_def)
  then show ?thesis
    using rev by (auto simp: revises_def update_relationship_evidence_def takes_evidence_def)
qed

lemma revalidate_revises:
  assumes ok: "graph_ok (en_graph e)"
  shows "revises e (rv_edge r) (takes_evidence e au LS_Current (rv_expected_generation r) 0 True)
    (evidence_edge au (en_generation e) (rv_evidence_generation r) LS_Current None) (revalidate_relationship io au r e)"
  using apply_evidence_revises [OF ok, of "rv_edge r" au LS_Current "rv_expected_generation r" 0 True "rv_evidence_generation r" None io "rv_reason r"]
  by (simp add: revises_def revalidate_relationship_def)

definition may_write :: "engine \<Rightarrow> authority_context \<Rightarrow> u64 \<Rightarrow> edge \<Rightarrow> bool" where
  "may_write e au expected x \<longleftrightarrow> authorised e au (ed_domain x) GM_IncrementalWrite \<and> expected \<in> {0, en_generation e}"

lemma replacement_failure_None:
  "replacement_failure g i r = None \<longleftrightarrow>
   (\<forall>j. r = Some j \<longrightarrow> j \<noteq> i \<and> (\<exists>y. find_edge g j = Some y \<and> ed_lifecycle y = LS_Current))"
  by (auto simp: replacement_failure_def split: option.splits)

lemma supersede_revises:
  assumes ok: "graph_ok (en_graph e)"
  shows "revises e (su_edge r)
    (\<lambda>x. may_write e au (su_expected_generation r) x \<and> ed_lifecycle x \<noteq> LS_Retired \<and>
      (\<forall>j. su_replacement r = Some j \<longrightarrow> j \<noteq> su_edge r \<and> (\<exists>y. find_edge (en_graph e) j = Some y \<and> ed_lifecycle y = LS_Current)))
    (superseded_edge (su_replacement r)) (supersede_relationship io au r e)"
proof (cases "refused e (supersede_relationship io au r e)")
  case False
  let ?f = "superseded_edge (su_replacement r)"
  obtain x where x: "find_edge (en_graph e) (su_edge r) = Some x" "may_write e au (su_expected_generation r) x"
      "ed_lifecycle x \<noteq> LS_Retired" "replacement_failure (en_graph e) (su_edge r) (su_replacement r) = None"
    and run: "supersede_relationship io au r e = revise_edge io (au_publisher au) x (?f x) (supersede_success r (?f x)) e"
    using False
    by (auto simp: supersede_relationship_def Let_def may_write_def authorised_def stale_generation_def evidence_outcomes
        split: if_splits option.split_asm)
  have same: "same_shape x (?f x)" "ed_relationship_id (?f x) = ed_relationship_id x" "ed_layer (?f x) = ed_layer x"
    by (simp_all add: superseded_edge_def same_shape_def ended_def)
  note fin = revise_ends [OF ok x(1) same, of "supersede_success r (?f x)"]
  have "ends_with e (snd (update_edge (?f x) (en_graph e))) (revise_edge io (au_publisher au) x (?f x) (supersede_success r (?f x)) e) \<and>
      graph_ok (snd (update_edge (?f x) (en_graph e)))"
    by (rule fin) (simp add: supersede_success_def)
  then show ?thesis using x same run unfolding revises_def replacement_failure_None by auto
qed (simp add: revises_def)

lemma retire_revises:
  assumes ok: "graph_ok (en_graph e)"
  shows "revises e (rt_edge r) (\<lambda>x. may_write e au (rt_expected_generation r) x \<and> ed_lifecycle x \<noteq> LS_Retired)
    retired_edge (retire_relationship io au r e)"
proof (cases "refused e (retire_relationship io au r e)")
  case False
  obtain x where x: "find_edge (en_graph e) (rt_edge r) = Some x" "may_write e au (rt_expected_generation r) x"
      "ed_lifecycle x \<noteq> LS_Retired"
    and run: "retire_relationship io au r e = revise_edge io (au_publisher au) x (retired_edge x) (retire_success r x) e"
    using False
    by (auto simp: retire_relationship_def Let_def may_write_def authorised_def stale_generation_def
        split: if_splits option.split_asm)
  have same: "same_shape x (retired_edge x)" "ed_relationship_id (retired_edge x) = ed_relationship_id x"
    "ed_layer (retired_edge x) = ed_layer x"
    by (simp_all add: retired_edge_def same_shape_def ended_def)
  note fin = revise_ends [OF ok x(1) same, of "retire_success r x"]
  have "ends_with e (snd (update_edge (retired_edge x) (en_graph e))) (revise_edge io (au_publisher au) x (retired_edge x) (retire_success r x) e) \<and>
      graph_ok (snd (update_edge (retired_edge x) (en_graph e)))"
    by (rule fin) (simp add: retire_success_def)
  then show ?thesis using x same run unfolding revises_def by auto
qed (simp add: revises_def)

lemma find_SomeD: "List.find P xs = Some x \<Longrightarrow> P x \<and> x \<in> set xs"
  by (metis find_Some_iff nth_mem)

lemma attached_bucket:
  assumes "graph_inv g" "find_edge g i = Some x"
  shows "i \<in> set (sorted_bucket (g_edge_by_attachment g) a) \<longleftrightarrow> ed_attachment x = Some a"
  using set_sorted_bucket [OF assms(1), of attachment_keys "g_edge_by_attachment g"] assms
  by (auto simp: graph_inv_def indexes_ok_def attachment_keys_def)

text \<open>A detachment is the retirement of a current relationship of the endpoint that carries the attachment.\<close>

lemma detach_cases:
  assumes ok: "graph_ok (en_graph e)"
  obtains (none) "refused e (detach_endpoint io au r e)"
  | (some) i x where "find_edge (en_graph e) i = Some x" "ed_from x = de_endpoint r" "ed_lifecycle x = LS_Current"
      "ed_attachment x = Some (de_attachment r)"
      "revises e i (\<lambda>x. may_write e au (de_expected_generation r) x \<and> ed_lifecycle x \<noteq> LS_Retired) retired_edge (detach_endpoint io au r e)"
proof (cases "List.find (detaches (en_graph e) (de_endpoint r)) (sorted_bucket (g_edge_by_attachment (en_graph e)) (de_attachment r))")
  case None
  then show ?thesis by (intro none) (simp add: detach_endpoint_def)
next
  case (Some i)
  note hit = find_SomeD [OF Some]
  then obtain x where x: "find_edge (en_graph e) i = Some x" "ed_from x = de_endpoint r" "ed_lifecycle x = LS_Current"
    by (auto simp: detaches_def split: option.splits)
  let ?r = "\<lparr>rt_edge = i, rt_expected_generation = de_expected_generation r, rt_reason = de_reason r\<rparr>"
  have "ed_attachment x = Some (de_attachment r)" using attached_bucket [OF graph_okD(1) [OF ok] x(1)] hit by simp
  then show ?thesis
    using retire_revises [OF ok, of ?r au io] Some x by (intro some) (simp_all add: detach_endpoint_def)
qed

subsection \<open>Effects\<close>

text \<open>new evidence commits only from a publisher that may write the domain of the relationship,
  for a relationship that has not ended, and never to an ended state. It makes the relationship
  current only if both endpoints exist, carry the entity generations the relationship is bound to
  and are live under these generations in the registry; the provenance is then that of the caller.
  Nothing else changes; without a commit nothing changes at all.\<close>

theorem update_evidence_effect:
  assumes ok: "graph_ok (en_graph e)" and run: "update_relationship_evidence io au r e = (res, e')"
  shows "if changed res
    then \<exists>x y. find_edge (en_graph e) (ue_edge r) = Some x \<and> find_edge (en_graph e') (ue_edge r) = Some y \<and>
      \<not> ended x \<and> \<not> ended y \<and> authorised e au (ed_domain x) GM_IncrementalWrite \<and>
      ed_lifecycle y = ue_lifecycle r \<and> ed_evidence_generation y = ue_evidence_generation r \<and>
      ed_metadata y = (if ue_replace_metadata r then ue_metadata r else ed_metadata x) \<and> edge_key_of y = edge_key_of x \<and>
      (ue_lifecycle r = LS_Current \<longrightarrow> bound_now e x \<and> pv_publisher (ed_provenance y) = au_publisher au \<and>
         pv_worker_boot (ed_provenance y) = au_worker_boot au \<and> pv_coordinator_epoch (ed_provenance y) = en_epoch e) \<and>
      (\<forall>j. j \<noteq> ue_edge r \<longrightarrow> find_edge (en_graph e') j = find_edge (en_graph e) j) \<and>
      g_nodes (en_graph e') = g_nodes (en_graph e) \<and> en_generation e' = en_generation e + 1
    else en_graph e' = en_graph e"
proof (cases "changed res")
  case True
  let ?md = "if ue_replace_metadata r then Some (ue_metadata r) else None"
  let ?f = "evidence_edge au (en_generation e) (ue_evidence_generation r) (ue_lifecycle r) ?md"
  obtain x where x: "find_edge (en_graph e) (ue_edge r) = Some x" "ue_lifecycle r \<notin> {LS_Retired, LS_Superseded} \<and>
      takes_evidence e au (ue_lifecycle r) (ue_expected_generation r) (ue_expected_edge_generation r) True x"
    "find_edge (en_graph e') (ue_edge r) = Some (?f x)"
    "\<forall>j. j \<noteq> ue_edge r \<longrightarrow> find_edge (en_graph e') j = find_edge (en_graph e) j"
    "g_nodes (en_graph e') = g_nodes (en_graph e)" "en_generation e' = en_generation e + 1"
    using revises_effect [OF ok update_evidence_revises [OF ok]] run True by (metis fst_conv snd_conv)
  then have "\<not> ended (?f x)" "ed_metadata (?f x) = (if ue_replace_metadata r then ue_metadata r else ed_metadata x)"
    "edge_key_of (?f x) = edge_key_of x"
    "ue_lifecycle r = LS_Current \<longrightarrow> pv_publisher (ed_provenance (?f x)) = au_publisher au \<and>
       pv_worker_boot (ed_provenance (?f x)) = au_worker_boot au \<and> pv_coordinator_epoch (ed_provenance (?f x)) = en_epoch e"
    by (auto simp: evidence_edge_def Let_def ended_def edge_key_of_def takes_evidence_def authorised_iff)
  then show ?thesis using x True by (simp add: takes_evidence_def evidence_edge_facts)
next
  case False
  then show ?thesis
    using revises_ok [OF ok update_evidence_revises [OF ok, of r au io]] run by (simp add: atomic_def)
qed

text \<open>a supersession commits only for a relationship that is not retired, and with a replacement
  only if the replacement is another relationship that is stored and current. Then the
  relationship is superseded by exactly that replacement, and nothing else changes.\<close>

theorem supersede_effect:
  assumes ok: "graph_ok (en_graph e)" and run: "supersede_relationship io au r e = (res, e')"
  shows "if changed res
    then \<exists>x y. find_edge (en_graph e) (su_edge r) = Some x \<and> find_edge (en_graph e') (su_edge r) = Some y \<and>
      ed_lifecycle x \<noteq> LS_Retired \<and> authorised e au (ed_domain x) GM_IncrementalWrite \<and>
      y = x\<lparr>ed_lifecycle := LS_Superseded, ed_superseded_by := su_replacement r, ed_generation := ed_generation y\<rparr> \<and>
      (\<forall>j. su_replacement r = Some j \<longrightarrow> j \<noteq> su_edge r \<and>
         (\<exists>z. find_edge (en_graph e) j = Some z \<and> find_edge (en_graph e') j = Some z \<and> ed_lifecycle z = LS_Current)) \<and>
      (\<forall>j. j \<noteq> su_edge r \<longrightarrow> find_edge (en_graph e') j = find_edge (en_graph e) j) \<and>
      g_nodes (en_graph e') = g_nodes (en_graph e) \<and> en_generation e' = en_generation e + 1
    else en_graph e' = en_graph e"
proof (cases "changed res")
  case True
  let ?f = "superseded_edge (su_replacement r)"
  obtain x where x: "find_edge (en_graph e) (su_edge r) = Some x"
    "may_write e au (su_expected_generation r) x \<and> ed_lifecycle x \<noteq> LS_Retired \<and>
      (\<forall>j. su_replacement r = Some j \<longrightarrow> j \<noteq> su_edge r \<and> (\<exists>y. find_edge (en_graph e) j = Some y \<and> ed_lifecycle y = LS_Current))"
    "find_edge (en_graph e') (su_edge r) = Some (?f x)"
    "\<forall>j. j \<noteq> su_edge r \<longrightarrow> find_edge (en_graph e') j = find_edge (en_graph e) j"
    "g_nodes (en_graph e') = g_nodes (en_graph e)" "en_generation e' = en_generation e + 1"
    using revises_effect [OF ok supersede_revises [OF ok]] run True by (metis fst_conv snd_conv)
  moreover have "?f x = x\<lparr>ed_lifecycle := LS_Superseded, ed_superseded_by := su_replacement r, ed_generation := ed_generation (?f x)\<rparr>"
    by (simp add: superseded_edge_def)
  ultimately show ?thesis using True by (auto simp: may_write_def)
next
  case False
  then show ?thesis
    using revises_ok [OF ok supersede_revises [OF ok, of r au io]] run by (simp add: atomic_def)
qed

subsection \<open>When a revalidation is accepted\<close>

lemma accepted_results [simp]:
  "accepted (fst (rejected s e)) = outcome_is_success (outcome_of s)"
  "accepted (fst (rejected_by p s e)) = outcome_is_success (outcome_of s)"
  "accepted (fst (unchanged p s n i e)) = outcome_is_success (outcome_of s)"
  "accepted (fst (with_operation op z)) = accepted (fst z)" "accepted (fst (mark_revalidated z)) = accepted (fst z)"
  by (simp_all add: accepted_def rejected_def rejected_by_def unchanged_def answer_def with_operation_def mark_revalidated_def)

lemma failures_not_accepted:
  "stale_generation c v e = Some s \<Longrightarrow> \<not> outcome_is_success (outcome_of s)"
  "stale_edge_generation c v x = Some s \<Longrightarrow> \<not> outcome_is_success (outcome_of s)"
  "ended_failure i x = Some s \<Longrightarrow> \<not> outcome_is_success (outcome_of s)"
  "binding_failure e i x = Some s \<Longrightarrow> \<not> outcome_is_success (outcome_of s)"
  "outcome_of (check_authority e au d m) \<noteq> O_Ok \<Longrightarrow> \<not> outcome_is_success (outcome_of (check_authority e au d m))"
  by (auto simp: stale_generation_def stale_edge_generation_def ended_failure_def binding_failure_def registry_failure_def
      check_authority_def check_registration_def outcome_is_success_def split: if_splits option.splits)

lemma changed_accepted: "changed r \<Longrightarrow> accepted r"
  by (simp add: changed_def accepted_def outcome_is_success_def)

lemma revise_commits:
  assumes "en_persistence_path e = []" "can_advance (en_generation e)" "\<And>e'. changed (success e')"
  shows "changed (fst (revise_edge io p x y success e))"
  unfolding revise_edge_def
  by (rule conclude_commits(1)) (use assms in \<open>simp_all add: en_generation_def frame_of_edge_ops\<close>)

lemma apply_evidence_run:
  assumes x: "find_edge (en_graph e) i = Some x" "takes_evidence e au l expected expected_edge require x"
  shows "apply_evidence_change io au i n l expected expected_edge md reason require e =
    (let y = evidence_edge au (en_generation e) n l md x in
     if evidence_unchanged n l md x
     then unchanged (au_publisher au) (make_status O_Idempotent ''relationship.evidence_unchanged'') None (Some i) e
     else revise_edge io (au_publisher au) x y (evidence_success i reason (evidence_entry x y i)) e)"
proof -
  have "stale_generation c expected e = None" "stale_edge_generation c expected_edge x = None" "ended_failure i x = None"
    "(if require \<and> l = LS_Current then binding_failure e i x else None) = None" for c
    using x(2) by (auto simp: takes_evidence_def stale_generation_def stale_edge_generation_def ended_failure_None binding_failure_None)
  then show ?thesis
    using x by (simp add: apply_evidence_change_def Let_def takes_evidence_def authorised_def)
qed

lemma apply_evidence_fails:
  assumes "\<And>x. find_edge (en_graph e) i = Some x \<Longrightarrow> \<not> takes_evidence e au l expected expected_edge require x"
  shows "\<not> accepted (fst (apply_evidence_change io au i n l expected expected_edge md reason require e))"
proof (cases "find_edge (en_graph e) i")
  case (Some x)
  have "outcome_of (check_authority e au (ed_domain x) GM_IncrementalWrite) \<noteq> O_Ok \<or>
      stale_generation ''relationship.stale_generation'' expected e \<noteq> None \<or>
      stale_edge_generation ''relationship.stale_edge_generation'' expected_edge x \<noteq> None \<or>
      ended_failure i x \<noteq> None \<or> (if require \<and> l = LS_Current then binding_failure e i x else None) \<noteq> None"
    using assms [OF Some]
    by (auto simp: takes_evidence_def authorised_def stale_generation_def stale_edge_generation_def ended_failure_None binding_failure_None)
  then show ?thesis
    using Some failures_not_accepted
    by (auto simp: apply_evidence_change_def Let_def split: if_splits option.splits)
qed (simp add: apply_evidence_change_def outcome_is_success_def)

text \<open>C24: in an engine without a durable file and with a generation left, a revalidation is accepted
  exactly when the relationship is stored and has not ended, the publisher may write its domain,
  the expected generation is absent or current, and both endpoints still carry the entity
  generations the relationship is bound to and, where the engine has a registry, are live there
  under these generations. The relationship is then current under the presented evidence.\<close>

theorem revalidate_accepted_iff:
  assumes ok: "graph_ok (en_graph e)" and mem: "en_persistence_path e = []" and room: "can_advance (en_generation e)"
    and run: "revalidate_relationship io au r e = (res, e')"
  shows "(accepted res \<longleftrightarrow> (\<exists>x. find_edge (en_graph e) (rv_edge r) = Some x \<and> \<not> ended x \<and>
       authorised e au (ed_domain x) GM_IncrementalWrite \<and> rv_expected_generation r \<in> {0, en_generation e} \<and> bound_now e x)) \<and>
    (accepted res \<longrightarrow> (\<exists>y. find_edge (en_graph e') (rv_edge r) = Some y \<and> ed_lifecycle y = LS_Current \<and>
       ed_evidence_generation y = rv_evidence_generation r))"
proof (cases "\<exists>x. find_edge (en_graph e) (rv_edge r) = Some x \<and> takes_evidence e au LS_Current (rv_expected_generation r) 0 True x")
  case True
  then obtain x where x: "find_edge (en_graph e) (rv_edge r) = Some x" "takes_evidence e au LS_Current (rv_expected_generation r) 0 True x"
    by blast
  let ?n = "rv_evidence_generation r"
  let ?y = "evidence_edge au (en_generation e) ?n LS_Current None x"
  note run' = apply_evidence_run [OF x, of io ?n None "rv_reason r"]
  show ?thesis
  proof (cases "evidence_unchanged ?n LS_Current None x")
    case True
    then have "accepted res" "en_graph e' = en_graph e"
      using run by (auto simp: revalidate_relationship_def run' unchanged_def accepted_def answer_def mark_revalidated_def
          with_operation_def outcome_is_success_def split: if_splits)
    then show ?thesis
      using x True by (auto simp: takes_evidence_def evidence_unchanged_def)
  next
    case False
    then have "changed (fst (revalidate_relationship io au r e))"
      using revise_commits [OF mem room] by (simp add: revalidate_relationship_def run' Let_def evidence_success_def)
    then have ch: "changed res" using run by simp
    obtain x' where x': "find_edge (en_graph e) (rv_edge r) = Some x'"
      "find_edge (en_graph e') (rv_edge r) = Some (evidence_edge au (en_generation e) ?n LS_Current None x')"
      using revises_effect [OF ok revalidate_revises [OF ok, of r au io]] run ch by (metis fst_conv snd_conv)
    then show ?thesis using x changed_accepted [OF ch] by (auto simp: takes_evidence_def evidence_edge_facts)
  qed
next
  case False
  then have "\<not> accepted (fst (revalidate_relationship io au r e))"
    using apply_evidence_fails by (simp add: revalidate_relationship_def)
  then have "\<not> accepted res" using run by simp
  with False show ?thesis by (auto simp: takes_evidence_def)
qed

subsection \<open>Instances\<close>

lemma demo_linked_plain [simp]:
  "en_persistence_path demo_linked = []" "en_limits demo_linked = default_limits" "en_generation demo_linked = 0" "en_epoch demo_linked = 1"
  "outcome_of (check_authority demo_linked demo_authority ''d'' m) = O_Ok" "ed_domain demo_stale_edge = ''d''"
proof -
  show "en_persistence_path demo_linked = []" "en_limits demo_linked = default_limits" "en_epoch demo_linked = 1"
    by (simp_all add: demo_linked_def)
  show "en_generation demo_linked = 0" by (simp add: en_generation_def demo_linked_facts)
  have "check_authority demo_linked demo_authority ''d'' m = check_authority demo_engine demo_authority ''d'' m"
    by (simp add: check_authority_def demo_linked_def boot_is_fenced_def check_registration_def)
  then show "outcome_of (check_authority demo_linked demo_authority ''d'' m) = O_Ok" by simp
  show "ed_domain demo_stale_edge = ''d''" by (simp add: demo_stale_edge_def)
qed

definition demo_evidence :: update_evidence_request where
  "demo_evidence = \<lparr>ue_edge = ''e1'', ue_evidence_generation = 9, ue_lifecycle = LS_Conflicted, ue_expected_generation = 0,
     ue_expected_edge_generation = 0, ue_replace_metadata = False, ue_metadata = [], ue_reason = []\<rparr>"

theorem update_evidence_effect_witness:
  "\<exists>y. find_edge (en_graph (snd (update_relationship_evidence (\<lambda>_. Written) demo_authority demo_evidence demo_linked))) ''e1'' = Some y \<and>
     ed_lifecycle y = LS_Conflicted \<and> ed_evidence_generation y = 9"
proof -
  obtain res e' where run: "update_relationship_evidence (\<lambda>_. Written) demo_authority demo_evidence demo_linked = (res, e')"
    by (metis surj_pair)
  have "takes_evidence demo_linked demo_authority LS_Conflicted 0 0 False demo_stale_edge"
    by (simp add: takes_evidence_def authorised_def)
  from apply_evidence_run [OF _ this, of "''e1''" "\<lambda>_. Written" 9 None "[]"]
  have "changed (fst (apply_evidence_change (\<lambda>_. Written) demo_authority ''e1'' 9 LS_Conflicted 0 0 None [] False demo_linked))"
    by (simp add: demo_linked_facts(2) evidence_unchanged_def revise_commits can_advance_def evidence_success_def Let_def)
  then have ch: "changed (fst (update_relationship_evidence (\<lambda>_. Written) demo_authority demo_evidence demo_linked))"
    by (simp add: update_relationship_evidence_def demo_evidence_def metadata_validate_def default_limits_def)
  then have "changed res" by (simp add: run)
  note eff = update_evidence_effect [OF demo_linked_facts(1) run, unfolded if_P [OF this]]
  from eff show ?thesis unfolding run by (auto simp: demo_evidence_def)
qed

definition demo_unlisted :: engine where "demo_unlisted = demo_linked\<lparr>en_directory := None\<rparr>"

definition demo_revalidation :: revalidate_request where
  "demo_revalidation = \<lparr>rv_edge = ''e1'', rv_evidence_generation = 9, rv_expected_generation = 0, rv_reason = []\<rparr>"

theorem revalidate_accepted_iff_witness:
  "\<exists>y. find_edge (en_graph (snd (revalidate_relationship (\<lambda>_. Written) demo_authority demo_revalidation demo_unlisted))) ''e1'' = Some y \<and>
     ed_lifecycle y = LS_Current"
proof -
  obtain res e' where run: "revalidate_relationship (\<lambda>_. Written) demo_authority demo_revalidation demo_unlisted = (res, e')"
    by (metis surj_pair)
  have graph: "en_graph demo_unlisted = en_graph demo_linked" by (simp add: demo_unlisted_def)
  have "check_authority demo_unlisted demo_authority ''d'' m = check_authority demo_linked demo_authority ''d'' m" for m
    by (simp add: check_authority_def demo_unlisted_def boot_is_fenced_def check_registration_def split: option.split)
  then have auth: "authorised demo_unlisted demo_authority ''d'' m" for m by (simp add: authorised_def)
  have "find_node (en_graph demo_unlisted) i = find_node demo_graph i" for i by (simp add: find_node_def graph demo_linked_facts(3))
  then have "bound_now demo_unlisted demo_stale_edge"
    by (simp add: bound_now_def demo_graph_find endpoints_match_def demo_unlisted_def)
      (simp add: demo_stale_edge_def asserted_edge_def)
  moreover have "en_persistence_path demo_unlisted = []" "en_generation demo_unlisted = 0"
    by (simp_all add: demo_unlisted_def en_generation_def demo_linked_facts)
  ultimately have "\<exists>y. find_edge (en_graph e') ''e1'' = Some y \<and> ed_lifecycle y = LS_Current"
    using revalidate_accepted_iff [OF _ _ _ run] auth
    by (auto simp: graph demo_linked_facts demo_revalidation_def can_advance_def)
  then show ?thesis by (simp add: run)
qed

definition demo_supersession :: supersede_request where
  "demo_supersession = \<lparr>su_edge = ''e1'', su_replacement = None, su_expected_generation = 0, su_reason = []\<rparr>"

theorem supersede_effect_witness:
  "\<exists>y. find_edge (en_graph (snd (supersede_relationship (\<lambda>_. Written) demo_authority demo_supersession demo_linked))) ''e1'' = Some y \<and>
     ed_lifecycle y = LS_Superseded"
proof -
  obtain res e' where run: "supersede_relationship (\<lambda>_. Written) demo_authority demo_supersession demo_linked = (res, e')"
    by (metis surj_pair)
  have "changed (fst (supersede_relationship (\<lambda>_. Written) demo_authority demo_supersession demo_linked))"
    by (simp add: supersede_relationship_def demo_supersession_def demo_linked_facts(2) stale_generation_def replacement_failure_def
        Let_def revise_commits can_advance_def supersede_success_def)
  then have "changed res" by (simp add: run)
  note eff = supersede_effect [OF demo_linked_facts(1) run, unfolded if_P [OF this]]
  from eff obtain x y where y: "find_edge (en_graph e') (su_edge demo_supersession) = Some y"
    "y = x\<lparr>ed_lifecycle := LS_Superseded, ed_superseded_by := su_replacement demo_supersession, ed_generation := ed_generation y\<rparr>"
    by - (erule exE, erule exE, elim conjE, rule that)
  have "ed_lifecycle y = LS_Superseded" using arg_cong [OF y(2), of ed_lifecycle] by simp
  moreover have "su_edge demo_supersession = ''e1''" by (simp add: demo_supersession_def)
  ultimately show ?thesis using y(1) by (simp add: run)
qed

end
