(* ===== verification/Rebind.thy ===== *)
theory Rebind
  imports Lifecycle
begin

text \<open>
  Rebinding: a node to a new entity generation or a successor identity, and an attachment to a new
  target (\<open>replace_endpoint_generation\<close>, \<open>move_attachment\<close> in \<open>src/topology_mutations.cpp\<close>).
\<close>

subsection \<open>Replacing the entity generation of a node\<close>

record replace_endpoint_request =
  rp_node :: string
  rp_new_entity_generation :: u64
  rp_successor_entity_id :: string
  rp_rebind_identity :: bool
  rp_expected_node_generation :: u64
  rp_expected_generation :: u64
  rp_reason :: string

definition stale_node_generation :: "u64 \<Rightarrow> node \<Rightarrow> status option" where
  "stale_node_generation expected n =
     (if expected \<noteq> 0 \<and> expected \<noteq> nd_generation n
      then Some (explain O_StaleGeneration ''endpoint.stale_node_generation''
             [(''expected_node_generation'', u64_string expected), (''current_node_generation'', u64_string (nd_generation n))])
      else None)"

definition successor_failure :: "engine \<Rightarrow> string \<Rightarrow> node \<Rightarrow> entity_record \<Rightarrow> status option" where
  "successor_failure e s n rec =
     (if er_retired rec \<or> er_superseded rec then Some (explain O_Retired ''endpoint.successor_not_live'' [(''successor'', s)])
      else if er_entity_class rec \<noteq> node_class_entity_class (nd_class n)
      then Some (explain O_IncompatibleEntityClass ''endpoint.successor_class_mismatch''
             [(''registry_class'', entity_class_string (er_entity_class rec)), (''node_class'', node_class_string (nd_class n))])
      else case find_node_by_entity (en_graph e) s of
        Some j \<Rightarrow> if j \<noteq> nd_id n
          then Some (explain O_DuplicateIdentity ''endpoint.successor_already_bound'' [(''successor'', s), (''bound_node'', j)])
          else None
      | None \<Rightarrow> None)"

definition successor_binding :: "engine \<Rightarrow> string \<Rightarrow> node \<Rightarrow> status + node" where
  "successor_binding e s n =
     (case engine_lookup e s of
        None \<Rightarrow> Inl (explain O_UnknownEntity ''endpoint.successor_unknown'' [(''successor'', s)])
      | Some rec \<Rightarrow> (case successor_failure e s n rec of
          Some f \<Rightarrow> Inl f
        | None \<Rightarrow> Inr (n\<lparr>nd_entity_id := s, nd_entity_class := er_entity_class rec, nd_entity_generation := er_generation rec\<rparr>)))"

definition replace_end :: "string \<Rightarrow> u64 \<Rightarrow> edge \<Rightarrow> edge" where
  "replace_end i v x =
     (let y = (if ed_from x = i then x\<lparr>ed_from_entity_generation := v\<rparr> else x);
          z = (if ed_to x = i then y\<lparr>ed_to_entity_generation := v\<rparr> else y) in demote z)"

text \<open>\<open>m\<close> is the node with its new binding. The transaction notes that node, not the one before:
  this is what the code does, and what a rollback restores.\<close>

definition rebind_node :: "node \<Rightarrow> graph \<Rightarrow> txn \<times> graph \<times> diff_entry list" where
  "rebind_node m g =
     (let m' = m\<lparr>nd_generation := advance_if_possible (nd_generation m), nd_last_validated_generation := g_generation g\<rparr>;
          g' = snd (update_node m' g) in
      fence_loop ended (replace_end (nd_id m) (nd_entity_generation m)) (sorted_bucket (g_incident g') (nd_id m))
        (note_node_updated m begin_txn) g' [])"

definition replace_status :: "replace_endpoint_request \<Rightarrow> node \<Rightarrow> status" where
  "replace_status r m =
     with_reason (rp_reason r)
       (explain O_Committed ''endpoint.generation_replaced''
          ((''entity_generation'', u64_string (nd_entity_generation m)) #
           (if rp_rebind_identity r then [(''successor_entity_id'', rp_successor_entity_id r)] else [])))"

definition commit_rebinding ::
  "(engine \<Rightarrow> file_result) \<Rightarrow> string \<Rightarrow> replace_endpoint_request \<Rightarrow> node \<Rightarrow> node \<Rightarrow> engine \<Rightarrow> mutation_result \<times> engine" where
  "commit_rebinding io p r n m e =
     (case rebind_node m (en_graph e) of
        (t, g, d) \<Rightarrow>
          conclude io p t
            (committed_result (replace_status r m) (Some (rp_node r)) None
               (finish_diff (d @ [node_entry DK_NodeGenerationChanged (rp_node r)
                  (u64_string (nd_entity_generation n)) (u64_string (nd_entity_generation m))])))
            (e\<lparr>en_graph := g\<rparr>))"

definition replace_endpoint_generation ::
  "(engine \<Rightarrow> file_result) \<Rightarrow> authority_context \<Rightarrow> replace_endpoint_request \<Rightarrow> engine \<Rightarrow> mutation_result \<times> engine" where
  "replace_endpoint_generation io au r e =
     (if rp_node r = [] then (answer (make_status O_MalformedRequest ''endpoint.node_missing''), e)
      else if rp_rebind_identity r \<and> rp_successor_entity_id r = []
      then (answer (make_status O_MalformedRequest ''endpoint.successor_missing''), e)
      else case find_node (en_graph e) (rp_node r) of
        None \<Rightarrow> rejected (explain O_NotFound ''endpoint.not_found'' [(''node_id'', rp_node r)]) e
      | Some n \<Rightarrow>
          let p = au_publisher au; permit = check_authority e au (nd_domain n) GM_IncrementalWrite in
          if outcome_of permit \<noteq> O_Ok then rejected permit e
          else case stale_generation ''endpoint.stale_generation'' (rp_expected_generation r) e of
            Some s \<Rightarrow> rejected_by p s e
          | None \<Rightarrow>
          case stale_node_generation (rp_expected_node_generation r) n of
            Some s \<Rightarrow> rejected_by p s e
          | None \<Rightarrow>
              if rp_rebind_identity r
              then (case successor_binding e (rp_successor_entity_id r) n of
                      Inl s \<Rightarrow> rejected_by p s e
                    | Inr m \<Rightarrow> commit_rebinding io p r n m e)
              else if rp_new_entity_generation r \<noteq> 0 \<and> rp_new_entity_generation r \<le> nd_entity_generation n
              then unchanged p (explain O_Idempotent ''endpoint.generation_unchanged''
                     [(''entity_generation'', u64_string (nd_entity_generation n))]) (Some (rp_node r)) None e
              else commit_rebinding io p r n (n\<lparr>nd_entity_generation := rp_new_entity_generation r\<rparr>) e)"

subsection \<open>Moving an attachment\<close>

record move_attachment_request =
  mv_attachment_edge :: string
  mv_new_target :: string
  mv_domain :: string
  mv_new_edge_id :: "string option"
  mv_expected_generation :: u64
  mv_expected_edge_generation :: u64
  mv_evidence_generation :: u64
  mv_attachment :: string
  mv_metadata :: metadata
  mv_reason :: string

definition move_malformed :: "limits \<Rightarrow> move_attachment_request \<Rightarrow> status option" where
  "move_malformed lim r =
     (if mv_attachment_edge r = [] \<or> mv_new_target r = [] \<or> mv_attachment r = []
      then Some (make_status O_MalformedRequest ''attachment.move_incomplete'')
      else if outcome_of (metadata_validate (mv_metadata r) lim) \<noteq> O_Ok then Some (metadata_validate (mv_metadata r) lim)
      else None)"

definition source_not_current :: "edge \<Rightarrow> status option" where
  "source_not_current x =
     (if ed_lifecycle x \<noteq> LS_Current
      then Some (explain O_RevalidationRequired ''attachment.source_not_current''
             [(''lifecycle'', lifecycle_string (ed_lifecycle x))])
      else None)"

definition move_domain_failure :: "move_attachment_request \<Rightarrow> edge \<Rightarrow> status option" where
  "move_domain_failure r x =
     (if mv_domain r \<noteq> [] \<and> mv_domain r \<noteq> ed_domain x
      then Some (explain O_DomainViolation ''attachment.domain_change_not_permitted''
             [(''current_domain'', ed_domain x), (''requested_domain'', mv_domain r)])
      else None)"

definition move_key :: "move_attachment_request \<Rightarrow> edge \<Rightarrow> edge_key" where
  "move_key r x = make_edge_key RC_AttachedTo (ed_from x) (mv_new_target r) (ed_domain x)"

definition move_target_exists :: "graph \<Rightarrow> move_attachment_request \<Rightarrow> edge \<Rightarrow> status option" where
  "move_target_exists g r x =
     (case find_edge_by_key g (move_key r x) of
        Some j \<Rightarrow> if j \<noteq> ed_id x
          then Some (explain O_DuplicateEdge ''attachment.move_target_exists'' [(''existing'', j)]) else None
      | None \<Rightarrow> None)"

definition moved_candidate :: "move_attachment_request \<Rightarrow> edge \<Rightarrow> relationship_candidate" where
  "moved_candidate r x =
     \<lparr>cd_id = (case mv_new_edge_id r of Some i \<Rightarrow> i | None \<Rightarrow> derive_edge_id (move_key r x)),
      cd_relationship_id = derive_relationship_id (move_key r x), cd_relation = RC_AttachedTo, cd_from = ed_from x,
      cd_to = mv_new_target r, cd_layer = Physical, cd_domain = ed_domain x, cd_cross_domain = False, cd_secondary_domain = [],
      cd_evidence_generation = mv_evidence_generation r, cd_supported_by = None, cd_attachment = Some (mv_attachment r),
      cd_exclusive_attachment = True, cd_metadata = mv_metadata r, cd_evidence_type = PT_Real,
      cd_source = DS_OperatorDeclaration, cd_source_relationship_id = []\<rparr>"

text \<open>The old edge is marked first, then the new one is noted and stored. The diff renders the edge
  before the move through a pointer into the map, after the change.\<close>

definition commit_move ::
  "(engine \<Rightarrow> file_result) \<Rightarrow> authority_context \<Rightarrow> move_attachment_request \<Rightarrow> edge \<Rightarrow> node \<Rightarrow> node \<Rightarrow> engine \<Rightarrow>
   mutation_result \<times> engine" where
  "commit_move io au r x endpoint target e =
     (let p = au_publisher au; c = moved_candidate r x;
          created = asserted_edge au (en_generation e) c endpoint target;
          retired = superseded_edge (Some (cd_id c)) x;
          t = note_edge_inserted (cd_id c) (note_edge_updated x begin_txn) in
      case insert_edge created (snd (update_edge retired (en_graph e))) of
        (stored, g) \<Rightarrow>
          if \<not> stored
          then rejected_by p (make_status O_InternalError ''attachment.insert_failed'') (e\<lparr>en_graph := snd (rollback t g)\<rparr>)
          else conclude io p t
                 (committed_result (with_reason (mv_reason r) (make_status O_Committed ''attachment.moved'')) None (Some (cd_id c))
                    (finish_diff
                       [edge_entry DK_EdgeSuperseded (ed_id x)
                          (case find_edge g (ed_id x) of Some found \<Rightarrow> render_edge found | None \<Rightarrow> []) (render_edge retired),
                        edge_entry DK_AttachmentMoved (cd_id c) (ed_to x) (ed_to created)]))
                 (e\<lparr>en_graph := g\<rparr>))"

definition place_attachment ::
  "(engine \<Rightarrow> file_result) \<Rightarrow> authority_context \<Rightarrow> move_attachment_request \<Rightarrow> edge \<Rightarrow> engine \<Rightarrow> mutation_result \<times> engine" where
  "place_attachment io au r x e =
     (let p = au_publisher au; g = en_graph e in
      case find_node g (mv_new_target r) of
        None \<Rightarrow> rejected_by p (explain O_UnknownEntity ''attachment.target_unknown'' [(''target'', mv_new_target r)]) e
      | Some target \<Rightarrow>
      case move_domain_failure r x of Some s \<Rightarrow> rejected_by p s e | None \<Rightarrow>
      case find_node g (ed_from x) of
        None \<Rightarrow> rejected_by p (make_status O_StructuralInvariantViolation ''attachment.endpoint_missing'') e
      | Some endpoint \<Rightarrow>
      case move_target_exists g r x of Some s \<Rightarrow> rejected_by p s e | None \<Rightarrow>
      case validate_relationship_candidate g (moved_candidate r x) True of Some s \<Rightarrow> rejected_by p s e | None \<Rightarrow>
        commit_move io au r x endpoint target e)"

definition move_attachment ::
  "(engine \<Rightarrow> file_result) \<Rightarrow> authority_context \<Rightarrow> move_attachment_request \<Rightarrow> engine \<Rightarrow> mutation_result \<times> engine" where
  "move_attachment io au r e =
     (case move_malformed (en_limits e) r of Some s \<Rightarrow> (answer s, e) | None \<Rightarrow>
      case find_edge (en_graph e) (mv_attachment_edge r) of
        None \<Rightarrow> rejected (explain O_NotFound ''attachment.edge_not_found'' [(''edge_id'', mv_attachment_edge r)]) e
      | Some x \<Rightarrow>
          let p = au_publisher au; permit = check_authority e au (ed_domain x) GM_IncrementalWrite in
          if ed_relation x \<noteq> RC_AttachedTo
          then rejected (explain O_MalformedRequest ''attachment.not_an_attachment'' [(''relation'', relation_string (ed_relation x))]) e
          else if outcome_of permit \<noteq> O_Ok then rejected permit e
          else case stale_generation ''attachment.stale_generation'' (mv_expected_generation r) e of
            Some s \<Rightarrow> rejected_by p s e
          | None \<Rightarrow>
          case stale_edge_generation ''attachment.stale_edge_generation'' (mv_expected_edge_generation r) x of
            Some s \<Rightarrow> rejected_by p s e
          | None \<Rightarrow>
          case source_not_current x of Some s \<Rightarrow> rejected_by p s e | None \<Rightarrow> place_attachment io au r x e)"

subsection \<open>What a rebinding does\<close>

lemma mapping_update_twice: "Mapping.update k w (Mapping.update k v m) = Mapping.update k w m"
  by (rule mapping_eqI) (auto simp: lookup_simps)

lemma update_node_twice:
  assumes inv: "graph_inv g" and old: "find_node g (nd_id m) = Some n" and id: "nd_id m' = nd_id m" "nd_entity_id m' = nd_entity_id m"
    and free: "find_node_by_entity g (nd_entity_id m) \<in> {None, Some (nd_id m)}"
  shows "snd (update_node m' (snd (update_node m g))) = snd (update_node m' g) \<and>
    find_node_by_entity (snd (update_node m g)) (nd_entity_id m') \<in> {None, Some (nd_id m')}"
proof -
  let ?h = "snd (update_node m g)"
  have h: "graph_inv ?h" by (rule update_node_inv [OF inv old free])
  have find: "find_node ?h (nd_id m) = Some m" using old by (simp add: find_after_update_node)
  have own: "find_node_by_entity ?h (nd_entity_id m) = Some (nd_id m)" by (rule node_entity_indexed [OF h find])
  have "graph_inv (snd (update_node m' ?h))"
    by (rule update_node_inv [OF h]) (simp_all add: id find own)
  moreover have "graph_inv (snd (update_node m' g))"
    using old free by (intro update_node_inv [OF inv]) (simp_all add: id)
  ultimately have "snd (update_node m' ?h) = snd (update_node m' g)"
    using old id(1)
    by (rule_tac graph_inv_ext) (simp_all add: frame_simps lookup_simps has_key_def find_defs mapping_update_twice)
  then show ?thesis by (simp add: id own)
qed

lemma replace_end_facts:
  "same_edge_identity x (replace_end i v x)" "ed_relationship_id (replace_end i v x) = ed_relationship_id x"
  "ed_layer (replace_end i v x) = ed_layer x" "\<not> ended x \<Longrightarrow> same_shape x (replace_end i v x)"
  by (simp_all add: replace_end_def demote_def same_edge_identity_def edge_key_of_def same_shape_def ended_def Let_def)

text \<open>A node with a binding that keeps what its edges and indexes rely on.\<close>

definition binds :: "graph \<Rightarrow> node \<Rightarrow> node \<Rightarrow> bool" where
  "binds g n m \<longleftrightarrow> nd_id m = nd_id n \<and> node_shape m = node_shape n \<and>
     find_node_by_entity g (nd_entity_id m) \<in> {None, Some (nd_id m)} \<and> nd_generation m = nd_generation n"

lemma rebind_node_effect:
  assumes ok: "graph_ok g" and n: "find_node g i = Some n" and b: "binds g n m" and run: "rebind_node m g = (t, g', d)"
  shows "graph_ok (snd (update_node m g))" "logged (snd (update_node m g)) (tx_entries t) g'" "tx_active t"
    "g_generation g' = g_generation g" "graph_ok g'"
    "find_node g' j = (if j = i then Some (m\<lparr>nd_generation := advance_if_possible (nd_generation n),
        nd_last_validated_generation := g_generation g\<rparr>) else find_node g j)"
    "find_edge g' k = (case find_edge g k of None \<Rightarrow> None | Some x \<Rightarrow>
      if (ed_from x = i \<or> ed_to x = i) \<and> \<not> ended x then Some (replace_end i (nd_entity_generation m) x) else Some x)"
proof -
  let ?m = "m\<lparr>nd_generation := advance_if_possible (nd_generation m), nd_last_validated_generation := g_generation g\<rparr>"
  let ?h = "snd (update_node m g)" and ?g = "snd (update_node ?m g)" and ?v = "nd_entity_generation m"
  let ?is = "sorted_bucket (g_incident ?g) i"
  note inv = graph_okD(1) [OF ok]
  have id: "nd_id m = i" using graph_inv_node_ids [OF inv n] b by (simp add: binds_def)
  have old: "find_node g (nd_id m) = Some n" by (simp add: id n)
  have free: "find_node_by_entity g (nd_entity_id m) \<in> {None, Some (nd_id m)}" using b unfolding binds_def by blast
  show okh: "graph_ok ?h" using b by (intro ok_update_node [OF ok old _ free]) (simp add: binds_def)
  have ok1: "graph_ok ?g" using b old free by (intro ok_update_node [OF ok, of _ n]) (simp_all add: binds_def node_shape_def)
  have twice: "snd (update_node ?m ?h) = ?g" "find_node_by_entity ?h (nd_entity_id ?m) \<in> {None, Some (nd_id ?m)}"
    using update_node_twice [OF inv old _ _ free, of ?m] by simp_all
  have "find_node ?h (nd_id ?m) = Some m" using old by (simp add: find_after_update_node)
  then have log1: "logged ?h (tx_entries (note_node_updated m begin_txn)) ?g"
    using logged.node_updated [OF logged.nothing, of ?h ?m m] twice by (simp add: note_defs begin_txn_def)
  have loop: "fence_loop ended (replace_end i ?v) ?is (note_node_updated m begin_txn) ?g [] = (t, g', d)"
    using run by (simp add: rebind_node_def Let_def id)
  note log2 = fence_loop_logged [OF replace_end_facts(1) graph_okD(1) [OF okh] log1 loop]
  note ok2 = fence_loop_ok [OF replace_end_facts(4,2,3) ok1 loop]
  note find2 = fence_loop_find [OF replace_end_facts(1) graph_okD(1) [OF ok1] distinct_sorted_bucket loop, of k]
  show "logged ?h (tx_entries t) g'" "tx_active t" "g_generation g' = g_generation g" "graph_ok g'"
    using log2 ok2 by (simp_all add: frame_of_node_ops begin_txn_def)
  have "find_node ?g j = (if j = i then Some ?m else find_node g j)"
    using old id by (simp add: find_after_update_node)
  then show "find_node g' j = (if j = i then Some (m\<lparr>nd_generation := advance_if_possible (nd_generation n),
        nd_last_validated_generation := g_generation g\<rparr>) else find_node g j)"
    using ok2 b by (simp add: find_node_def binds_def)
  have "k \<in> set ?is \<longleftrightarrow> (\<exists>x. find_edge g k = Some x \<and> (ed_from x = i \<or> ed_to x = i))"
    by (simp add: set_incident [OF graph_okD(1) [OF ok1]])
  then show "find_edge g' k = (case find_edge g k of None \<Rightarrow> None | Some x \<Rightarrow>
      if (ed_from x = i \<or> ed_to x = i) \<and> \<not> ended x then Some (replace_end i (nd_entity_generation m) x) else Some x)"
    using find2 by (auto split: option.splits)
qed

text \<open>The bindings a request may give the node.\<close>

definition new_binding :: "engine \<Rightarrow> replace_endpoint_request \<Rightarrow> node \<Rightarrow> node \<Rightarrow> bool" where
  "new_binding e r n m \<longleftrightarrow>
     (if rp_rebind_identity r
      then \<exists>rec. engine_lookup e (rp_successor_entity_id r) = Some rec \<and> \<not> er_retired rec \<and> \<not> er_superseded rec \<and>
        er_entity_class rec = node_class_entity_class (nd_class n) \<and>
        find_node_by_entity (en_graph e) (rp_successor_entity_id r) \<in> {None, Some (nd_id n)} \<and>
        m = n\<lparr>nd_entity_id := rp_successor_entity_id r, nd_entity_class := er_entity_class rec, nd_entity_generation := er_generation rec\<rparr>
      else (rp_new_entity_generation r = 0 \<or> nd_entity_generation n < rp_new_entity_generation r) \<and>
        m = n\<lparr>nd_entity_generation := rp_new_entity_generation r\<rparr>)"

lemma successor_binding_Inr:
  "successor_binding e s n = Inr m \<Longrightarrow> \<exists>rec. engine_lookup e s = Some rec \<and> \<not> er_retired rec \<and> \<not> er_superseded rec \<and>
     er_entity_class rec = node_class_entity_class (nd_class n) \<and> find_node_by_entity (en_graph e) s \<in> {None, Some (nd_id n)} \<and>
     m = n\<lparr>nd_entity_id := s, nd_entity_class := er_entity_class rec, nd_entity_generation := er_generation rec\<rparr>"
  by (auto simp: successor_binding_def successor_failure_def split: option.splits if_splits)

lemma rebinding_outcomes:
  "successor_binding e s n = Inl f \<Longrightarrow> outcome_of f \<noteq> O_Committed"
  "stale_node_generation v n = Some f \<Longrightarrow> outcome_of f \<noteq> O_Committed"
  "outcome_of (replace_status r m) = O_Committed"
  by (auto simp: successor_binding_def successor_failure_def stale_node_generation_def replace_status_def split: option.splits if_splits)

lemma new_binding_binds:
  assumes ok: "graph_ok (en_graph e)" and n: "find_node (en_graph e) i = Some n" and new: "new_binding e r n m"
  shows "binds (en_graph e) n m"
  using new node_entity_indexed [OF graph_okD(1) [OF ok] n] graph_inv_node_ids [OF graph_okD(1) [OF ok] n]
  by (auto simp: new_binding_def binds_def node_shape_def split: if_splits)

lemma commit_rebinding_ends:
  assumes ok: "graph_ok (en_graph e)" and n: "find_node (en_graph e) i = Some n" and b: "binds (en_graph e) n m"
    and run: "rebind_node m (en_graph e) = (t, g, d)"
  shows "ends_with (e\<lparr>en_graph := snd (update_node m (en_graph e))\<rparr>) g (commit_rebinding io p r n m e)"
proof -
  let ?e = "e\<lparr>en_graph := snd (update_node m (en_graph e))\<rparr>"
  note eff = rebind_node_effect [OF ok n b run]
  have "ends_with ?e g (conclude io p t (committed_result (replace_status r m) (Some (rp_node r)) None
      (finish_diff (d @ [node_entry DK_NodeGenerationChanged (rp_node r) (u64_string (nd_entity_generation n))
         (u64_string (nd_entity_generation m))]))) (?e\<lparr>en_graph := g\<rparr>))"
    using eff(2-4) graph_okD(1) [OF eff(1)]
    by (intro conclude_ends) (simp_all add: en_generation_def frame_of_node_ops rebinding_outcomes)
  then show ?thesis by (simp add: commit_rebinding_def run)
qed

lemma replace_endpoint_cases:
  assumes ok: "graph_ok (en_graph e)" and not: "\<not> refused e (replace_endpoint_generation io au r e)"
  obtains n m t g d where "find_node (en_graph e) (rp_node r) = Some n" "authorised e au (nd_domain n) GM_IncrementalWrite"
    "new_binding e r n m" "binds (en_graph e) n m" "rebind_node m (en_graph e) = (t, g, d)"
    "replace_endpoint_generation io au r e = commit_rebinding io (au_publisher au) r n m e"
    "ends_with (e\<lparr>en_graph := snd (update_node m (en_graph e))\<rparr>) g (replace_endpoint_generation io au r e)"
proof -
  obtain n where n: "find_node (en_graph e) (rp_node r) = Some n"
    using not by (auto simp: replace_endpoint_generation_def split: if_splits option.splits)
  have auth: "authorised e au (nd_domain n) GM_IncrementalWrite"
    and "\<exists>m. new_binding e r n m \<and> replace_endpoint_generation io au r e = commit_rebinding io (au_publisher au) r n m e"
    using not n
    by (auto simp: replace_endpoint_generation_def Let_def authorised_def stale_generation_outcome rebinding_outcomes new_binding_def
        not_le dest!: successor_binding_Inr split: if_splits option.split_asm sum.split_asm)
  then obtain m where m: "new_binding e r n m" "replace_endpoint_generation io au r e = commit_rebinding io (au_publisher au) r n m e"
    by blast
  obtain t g d where run: "rebind_node m (en_graph e) = (t, g, d)" by (metis prod_cases3)
  note b = new_binding_binds [OF ok n m(1)]
  show ?thesis
    using that [OF n auth m(1) b run m(2)] commit_rebinding_ends [OF ok n b run, of io "au_publisher au" r] m(2) by simp
qed

text \<open>Short of atomicity: the generation moves only with a commit, and nothing but the graph and counters changes.\<close>

definition steady :: "engine \<Rightarrow> mutation_result \<times> engine \<Rightarrow> bool" where
  "steady e x \<longleftrightarrow> control (snd x) = control e \<and>
     (if changed (fst x) then can_advance (en_generation e) \<and> en_generation (snd x) = en_generation e + 1
      else en_generation (snd x) = en_generation e)"

lemma atomic_steady: "atomic e x \<Longrightarrow> steady e x"
  by (auto simp: atomic_def steady_def en_generation_def split: if_splits)

lemma replace_endpoint_ok:
  assumes ok: "graph_ok (en_graph e)"
  shows "steady e (replace_endpoint_generation io au r e) \<and> graph_ok (en_graph (snd (replace_endpoint_generation io au r e)))"
proof (cases "refused e (replace_endpoint_generation io au r e)")
  case True
  then show ?thesis using refused_ok [OF True ok] atomic_steady by blast
next
  case False
  then show ?thesis
  proof (rule replace_endpoint_cases [OF ok])
    fix n m t g d
    assume c: "find_node (en_graph e) (rp_node r) = Some n" "binds (en_graph e) n m" "rebind_node m (en_graph e) = (t, g, d)"
      and ends: "ends_with (e\<lparr>en_graph := snd (update_node m (en_graph e))\<rparr>) g (replace_endpoint_generation io au r e)"
    note eff = rebind_node_effect [OF ok c]
    from ends show ?thesis
      using eff(1,5) by (auto simp: ends_with_def steady_def en_generation_def control_simps frame_of_node_ops split: if_splits)
  qed
qed

text \<open>C33: the entity generation of a node is replaced only by a publisher that may write the domain
  of the node, and only by a live identity of its class, or by a generation that is zero or
  larger. No other node has that identity. The node then has this binding; of its relationships
  those that have not ended require revalidation and carry the new generation at the ends that are
  this node. Other nodes and relationships are as before.\<close>

theorem replace_endpoint_effect:
  assumes ok: "graph_ok (en_graph e)" and run: "replace_endpoint_generation io au r e = (res, e')" and ch: "changed res"
  shows "\<exists>n m. find_node (en_graph e) (rp_node r) = Some n \<and> find_node (en_graph e') (rp_node r) = Some m \<and>
    authorised e au (nd_domain n) GM_IncrementalWrite \<and> nd_domain m = nd_domain n \<and> nd_class m = nd_class n \<and>
    (if rp_rebind_identity r
     then nd_entity_id m = rp_successor_entity_id r \<and>
       (\<exists>rec. engine_lookup e (nd_entity_id m) = Some rec \<and> \<not> er_retired rec \<and> \<not> er_superseded rec \<and>
          er_entity_class rec = node_class_entity_class (nd_class n) \<and> nd_entity_generation m = er_generation rec)
     else nd_entity_id m = nd_entity_id n \<and> nd_entity_generation m = rp_new_entity_generation r \<and>
       (rp_new_entity_generation r = 0 \<or> nd_entity_generation n < rp_new_entity_generation r)) \<and>
    (\<forall>j k. find_node (en_graph e) j = Some k \<longrightarrow> j \<noteq> rp_node r \<longrightarrow> nd_entity_id k \<noteq> nd_entity_id m) \<and>
    (\<forall>j. j \<noteq> rp_node r \<longrightarrow> find_node (en_graph e') j = find_node (en_graph e) j) \<and>
    (\<forall>k. find_edge (en_graph e') k = map_option (\<lambda>x.
       if (ed_from x = rp_node r \<or> ed_to x = rp_node r) \<and> \<not> ended x
       then x\<lparr>ed_from_entity_generation := (if ed_from x = rp_node r then nd_entity_generation m else ed_from_entity_generation x),
              ed_to_entity_generation := (if ed_to x = rp_node r then nd_entity_generation m else ed_to_entity_generation x),
              ed_lifecycle := LS_RevalidationRequired, ed_generation := advance_if_possible (ed_generation x)\<rparr>
       else x) (find_edge (en_graph e) k)) \<and>
    en_generation e' = en_generation e + 1"
proof -
  have "\<not> refused e (replace_endpoint_generation io au r e)" using ch run by (simp add: refused_def)
  then obtain n m t g d where c: "find_node (en_graph e) (rp_node r) = Some n" "authorised e au (nd_domain n) GM_IncrementalWrite"
    "new_binding e r n m" "binds (en_graph e) n m" "rebind_node m (en_graph e) = (t, g, d)"
    "ends_with (e\<lparr>en_graph := snd (update_node m (en_graph e))\<rparr>) g (replace_endpoint_generation io au r e)"
    by (rule replace_endpoint_cases [OF ok])
  note eff = rebind_node_effect [OF ok c(1,4,5)]
  have e': "en_graph e' = g\<lparr>g_generation := en_generation e + 1\<rparr>"
    using c(6) ch run by (simp add: ends_with_def en_generation_def frame_of_node_ops)
  have gen: "en_generation e' = en_generation e + 1" by (simp add: en_generation_def e')
  let ?m = "m\<lparr>nd_generation := advance_if_possible (nd_generation n), nd_last_validated_generation := g_generation (en_graph e)\<rparr>"
  have nodes: "find_node (en_graph e') j = (if j = rp_node r then Some ?m else find_node (en_graph e) j)" for j
    using eff(6) [of j] by (simp add: e' find_node_def)
  have "find_edge (en_graph e') k = (case find_edge (en_graph e) k of None \<Rightarrow> None | Some x \<Rightarrow>
      if (ed_from x = rp_node r \<or> ed_to x = rp_node r) \<and> \<not> ended x then Some (replace_end (rp_node r) (nd_entity_generation m) x) else Some x)" for k
    using eff(7) [of k] by (simp add: e' find_edge_def)
  then have edges: "find_edge (en_graph e') k = map_option (\<lambda>x.
       if (ed_from x = rp_node r \<or> ed_to x = rp_node r) \<and> \<not> ended x
       then x\<lparr>ed_from_entity_generation := (if ed_from x = rp_node r then nd_entity_generation ?m else ed_from_entity_generation x),
              ed_to_entity_generation := (if ed_to x = rp_node r then nd_entity_generation ?m else ed_to_entity_generation x),
              ed_lifecycle := LS_RevalidationRequired, ed_generation := advance_if_possible (ed_generation x)\<rparr>
       else x) (find_edge (en_graph e) k)" for k
    by (cases "find_edge (en_graph e) k") (simp_all add: replace_end_def demote_def Let_def)
  have "nd_domain ?m = nd_domain n" "nd_class ?m = nd_class n" using c(4) by (simp_all add: binds_def node_shape_def)
  moreover have "if rp_rebind_identity r
     then nd_entity_id ?m = rp_successor_entity_id r \<and>
       (\<exists>rec. engine_lookup e (nd_entity_id ?m) = Some rec \<and> \<not> er_retired rec \<and> \<not> er_superseded rec \<and>
          er_entity_class rec = node_class_entity_class (nd_class n) \<and> nd_entity_generation ?m = er_generation rec)
     else nd_entity_id ?m = nd_entity_id n \<and> nd_entity_generation ?m = rp_new_entity_generation r \<and>
       (rp_new_entity_generation r = 0 \<or> nd_entity_generation n < rp_new_entity_generation r)"
    using c(3) by (auto simp: new_binding_def split: if_splits)
  moreover have "nd_entity_id k \<noteq> nd_entity_id ?m" if k: "find_node (en_graph e) j = Some k" "j \<noteq> rp_node r" for j k
  proof
    assume "nd_entity_id k = nd_entity_id ?m"
    then have "find_node_by_entity (en_graph e) (nd_entity_id m) = Some j"
      using node_entity_indexed [OF graph_okD(1) [OF ok] k(1)] by simp
    moreover have "nd_id m = rp_node r" using c(4) graph_inv_node_ids [OF graph_okD(1) [OF ok] c(1)] by (simp add: binds_def)
    ultimately show False using c(4) k(2) by (simp add: binds_def)
  qed
  ultimately show ?thesis using c(1,2) nodes edges gen by (intro exI [of _ n] exI [of _ ?m]) simp
qed

lemma replace_generation_run:
  assumes "find_node (en_graph e) (rp_node r) = Some n" "rp_node r \<noteq> []" "authorised e au (nd_domain n) GM_IncrementalWrite"
    "rp_expected_generation r = 0" "rp_expected_node_generation r = 0" "\<not> rp_rebind_identity r"
    and more: "nd_entity_generation n < rp_new_entity_generation r"
  shows "replace_endpoint_generation io au r e =
    commit_rebinding io (au_publisher au) r n (n\<lparr>nd_entity_generation := rp_new_entity_generation r\<rparr>) e"
proof -
  have "\<not> (rp_new_entity_generation r \<noteq> 0 \<and> rp_new_entity_generation r \<le> nd_entity_generation n)" using more by auto
  moreover have "stale_generation ''endpoint.stale_generation'' (rp_expected_generation r) e = None"
    "stale_node_generation (rp_expected_node_generation r) n = None"
    using assms by (simp_all add: stale_generation_def stale_node_generation_def)
  ultimately show ?thesis
    using assms by (auto simp: replace_endpoint_generation_def authorised_def Let_def)
qed

text \<open>a replacement that passes its checks but whose durable write fails is answered with that
  failure, and the topology generation stays; yet the node keeps its new entity generation and
  identity, while its relationships are as before: the rollback does not restore the binding.\<close>

theorem failed_rebinding_survives:
  assumes ok: "graph_ok (en_graph e)" and n: "find_node (en_graph e) (rp_node r) = Some n" and ids: "rp_node r \<noteq> []"
    and auth: "authorised e au (nd_domain n) GM_IncrementalWrite"
    and req: "rp_expected_generation r = 0" "rp_expected_node_generation r = 0" "\<not> rp_rebind_identity r"
      "nd_entity_generation n < rp_new_entity_generation r"
    and room: "can_advance (en_generation e)" and disk: "en_persistence_path e \<noteq> []" "\<And>x. io x = Rename_failed why"
    and run: "replace_endpoint_generation io au r e = (res, e')"
  shows "outcome_of (mr_status res) = O_PersistenceIoFailure \<and> en_generation e' = en_generation e \<and>
    (\<exists>m. find_node (en_graph e') (rp_node r) = Some m \<and> nd_entity_generation m = rp_new_entity_generation r) \<and>
    (\<forall>k. find_edge (en_graph e') k = find_edge (en_graph e) k)"
proof -
  let ?m = "n\<lparr>nd_entity_generation := rp_new_entity_generation r\<rparr>"
  have new: "new_binding e r n ?m" using req by (simp add: new_binding_def)
  obtain t g d where loop: "rebind_node ?m (en_graph e) = (t, g, d)" by (metis prod_cases3)
  note b = new_binding_binds [OF ok n new]
  note ends = commit_rebinding_ends [OF ok n b loop, of io "au_publisher au" r] and eff = rebind_node_effect [OF ok n b loop]
  have res: "(res, e') = commit_rebinding io (au_publisher au) r n ?m e"
    using replace_generation_run [OF n ids auth req] run by simp
  have fails: "outcome_of (persist_locked io x) = O_PersistenceIoFailure" if "en_persistence_path x = en_persistence_path e" for x
    using that disk by (simp add: persist_locked_def write_file_atomic_def)
  have "outcome_of (mr_status (fst (commit_rebinding io (au_publisher au) r n ?m e))) = O_PersistenceIoFailure"
    using eff(4) room
    by (simp add: commit_rebinding_def loop conclude_def finalize_mutation_def Let_def fails rejected_by_def rejected_def answer_def
        en_generation_def)
  then have out: "outcome_of (mr_status res) = O_PersistenceIoFailure" by (simp flip: res)
  then have "\<not> changed res" by (simp add: changed_def)
  with ends have "en_graph e' = snd (update_node ?m (en_graph e))" by (simp add: ends_with_def flip: res)
  then show ?thesis
    using out n graph_inv_node_ids [OF graph_okD(1) [OF ok] n]
    by (simp add: find_after_update_node en_generation_def frame_of_node_ops find_edge_def frame_simps)
qed

definition demo_rebinding :: replace_endpoint_request where
  "demo_rebinding = \<lparr>rp_node = ''s1'', rp_new_entity_generation = 5, rp_successor_entity_id = [], rp_rebind_identity = False,
     rp_expected_node_generation = 0, rp_expected_generation = 0, rp_reason = []\<rparr>"

lemma demo_rebinding_fields [simp]:
  "rp_node demo_rebinding = ''s1''" "rp_new_entity_generation demo_rebinding = 5" "\<not> rp_rebind_identity demo_rebinding"
  "rp_expected_node_generation demo_rebinding = 0" "rp_expected_generation demo_rebinding = 0"
  by (simp_all add: demo_rebinding_def)

lemma demo_linked_node [simp]: "find_node (en_graph demo_linked) i = find_node demo_graph i"
  by (simp add: find_node_def demo_linked_facts(3))

theorem replace_endpoint_effect_witness:
  "\<exists>x. find_edge (en_graph (snd (replace_endpoint_generation (\<lambda>_. Written) demo_authority demo_rebinding demo_linked))) ''e1'' = Some x \<and>
     ed_lifecycle x = LS_RevalidationRequired \<and> ed_to_entity_generation x = 5"
proof -
  let ?m = "demo_s1\<lparr>nd_entity_generation := 5\<rparr>"
  obtain res e' where run: "replace_endpoint_generation (\<lambda>_. Written) demo_authority demo_rebinding demo_linked = (res, e')"
    by (metis surj_pair)
  obtain t g d where loop: "rebind_node ?m (en_graph demo_linked) = (t, g, d)" by (metis prod_cases3)
  have n: "find_node (en_graph demo_linked) ''s1'' = Some demo_s1" by (simp add: demo_graph_find)
  have "new_binding demo_linked demo_rebinding demo_s1 ?m" by (simp add: new_binding_def)
  note b = new_binding_binds [OF demo_linked_facts(1) n this]
  have "changed (fst (commit_rebinding (\<lambda>_. Written) ''p'' demo_rebinding demo_s1 ?m demo_linked))"
    using rebind_node_effect(4) [OF demo_linked_facts(1) n b loop]
    by (auto simp: commit_rebinding_def loop rebinding_outcomes en_generation_def can_advance_def demo_linked_facts(4)
        intro!: conclude_commits(1))
  then have "changed res"
    using run replace_generation_run [of demo_linked demo_rebinding demo_s1 demo_authority "\<lambda>_. Written"]
    by (simp add: demo_graph_find authorised_def demo_authority_def [THEN arg_cong, of au_publisher])
  note eff = replace_endpoint_effect [OF demo_linked_facts(1) run this]
  from eff show ?thesis
  proof (elim exE conjE)
    fix n m
    assume gen: "if rp_rebind_identity demo_rebinding
       then nd_entity_id m = rp_successor_entity_id demo_rebinding \<and>
         (\<exists>rec. engine_lookup demo_linked (nd_entity_id m) = Some rec \<and> \<not> er_retired rec \<and> \<not> er_superseded rec \<and>
            er_entity_class rec = node_class_entity_class (nd_class n) \<and> nd_entity_generation m = er_generation rec)
       else nd_entity_id m = nd_entity_id n \<and> nd_entity_generation m = rp_new_entity_generation demo_rebinding \<and>
         (rp_new_entity_generation demo_rebinding = 0 \<or> nd_entity_generation n < rp_new_entity_generation demo_rebinding)"
      and edges: "\<forall>k. find_edge (en_graph e') k = map_option (\<lambda>x.
         if (ed_from x = rp_node demo_rebinding \<or> ed_to x = rp_node demo_rebinding) \<and> \<not> ended x
         then x\<lparr>ed_from_entity_generation := (if ed_from x = rp_node demo_rebinding then nd_entity_generation m else ed_from_entity_generation x),
                ed_to_entity_generation := (if ed_to x = rp_node demo_rebinding then nd_entity_generation m else ed_to_entity_generation x),
                ed_lifecycle := LS_RevalidationRequired, ed_generation := advance_if_possible (ed_generation x)\<rparr>
         else x) (find_edge (en_graph demo_linked) k)"
    show ?thesis using gen edges [rule_format, of "''e1''"] by (simp add: run demo_linked_facts(2))
  qed
qed

definition demo_durable :: engine where "demo_durable = demo_linked\<lparr>en_persistence_path := ''f''\<rparr>"

theorem failed_rebinding_survives_witness:
  "\<exists>m. find_node (en_graph (snd (replace_endpoint_generation (\<lambda>_. Rename_failed []) demo_authority demo_rebinding demo_durable))) ''s1'' = Some m \<and>
     nd_entity_generation m = 5 \<and>
     outcome_of (mr_status (fst (replace_endpoint_generation (\<lambda>_. Rename_failed []) demo_authority demo_rebinding demo_durable))) =
       O_PersistenceIoFailure"
proof -
  obtain res e' where run: "replace_endpoint_generation (\<lambda>_. Rename_failed []) demo_authority demo_rebinding demo_durable = (res, e')"
    by (metis surj_pair)
  have graph: "en_graph demo_durable = en_graph demo_linked" by (simp add: demo_durable_def)
  have "check_authority demo_durable demo_authority ''d'' m = check_authority demo_linked demo_authority ''d'' m" for m
    by (simp add: check_authority_def demo_durable_def boot_is_fenced_def check_registration_def split: option.split)
  then have "authorised demo_durable demo_authority (nd_domain demo_s1) GM_IncrementalWrite" by (simp add: authorised_def)
  moreover have "find_node (en_graph demo_durable) ''s1'' = Some demo_s1" "en_persistence_path demo_durable \<noteq> []"
    "can_advance (en_generation demo_durable)" "graph_ok (en_graph demo_durable)"
    by (simp_all add: graph demo_graph_find demo_linked_facts en_generation_def can_advance_def) (simp add: demo_durable_def)
  ultimately have "\<exists>m. find_node (en_graph e') ''s1'' = Some m \<and> nd_entity_generation m = 5 \<and>
      outcome_of (mr_status res) = O_PersistenceIoFailure"
    using failed_rebinding_survives [OF _ _ _ _ _ _ _ _ _ _ _ run, of demo_s1 "[]"] by auto
  then show ?thesis by (simp add: run)
qed

subsection \<open>What a move does\<close>

definition movable :: "engine \<Rightarrow> authority_context \<Rightarrow> move_attachment_request \<Rightarrow> edge \<Rightarrow> node \<Rightarrow> node \<Rightarrow> bool" where
  "movable e au r x endpoint target \<longleftrightarrow> find_edge (en_graph e) (mv_attachment_edge r) = Some x \<and> ed_relation x = RC_AttachedTo \<and>
     ed_lifecycle x = LS_Current \<and> authorised e au (ed_domain x) GM_IncrementalWrite \<and>
     find_node (en_graph e) (ed_from x) = Some endpoint \<and> find_node (en_graph e) (mv_new_target r) = Some target \<and>
     move_target_exists (en_graph e) r x = None \<and> validate_relationship_candidate (en_graph e) (moved_candidate r x) True = None"

lemma move_outcomes:
  "move_malformed lim r = Some s \<Longrightarrow> outcome_of s \<noteq> O_Committed"
  "source_not_current x = Some s \<Longrightarrow> outcome_of s \<noteq> O_Committed"
  "move_domain_failure r x = Some s \<Longrightarrow> outcome_of s \<noteq> O_Committed"
  "move_target_exists g r x = Some s \<Longrightarrow> outcome_of s \<noteq> O_Committed"
  using metadata_validate_outcome [of "mv_metadata r" lim]
  by (auto simp: move_malformed_def source_not_current_def move_domain_failure_def move_target_exists_def
      split: option.splits if_splits)

lemma move_cases:
  assumes not: "\<not> refused e (move_attachment io au r e)"
  obtains x endpoint target where "movable e au r x endpoint target"
    "move_attachment io au r e = commit_move io au r x endpoint target e"
proof -
  obtain x where x: "find_edge (en_graph e) (mv_attachment_edge r) = Some x"
      "ed_relation x = RC_AttachedTo" "authorised e au (ed_domain x) GM_IncrementalWrite" "source_not_current x = None"
    and run: "move_attachment io au r e = place_attachment io au r x e"
    using not by (auto simp: move_attachment_def Let_def authorised_def stale_generation_outcome evidence_outcomes move_outcomes
        split: if_splits option.split_asm)
  from x(4) have "ed_lifecycle x = LS_Current" by (simp add: source_not_current_def split: if_splits)
  moreover obtain endpoint target where "find_node (en_graph e) (ed_from x) = Some endpoint" "find_node (en_graph e) (mv_new_target r) = Some target"
    "move_target_exists (en_graph e) r x = None" "validate_relationship_candidate (en_graph e) (moved_candidate r x) True = None"
    "place_attachment io au r x e = commit_move io au r x endpoint target e"
    using not unfolding run
    by (auto simp: place_attachment_def Let_def move_outcomes validate_outcome split: option.split_asm)
  ultimately show ?thesis using x run by (intro that [of x endpoint target]) (simp_all add: movable_def)
qed

lemma superseded_edge_facts:
  "same_shape x (superseded_edge j x)" "same_edge_identity x (superseded_edge j x)" "ed_layer (superseded_edge j x) = ed_layer x"
  "ed_relationship_id (superseded_edge j x) = ed_relationship_id x" "ed_id (superseded_edge j x) = ed_id x"
  by (simp_all add: superseded_edge_def same_shape_def same_edge_identity_def edge_key_of_def ended_def)

lemma moved_candidate_fields [simp]:
  "cd_from (moved_candidate r x) = ed_from x" "cd_to (moved_candidate r x) = mv_new_target r"
  "cd_relation (moved_candidate r x) = RC_AttachedTo" "cd_domain (moved_candidate r x) = ed_domain x"
  "\<not> cd_cross_domain (moved_candidate r x)" "cd_key (moved_candidate r x) = move_key r x"
  "cd_attachment (moved_candidate r x) = Some (mv_attachment r)" "cd_exclusive_attachment (moved_candidate r x)"
  "cd_relationship_id (moved_candidate r x) = derive_relationship_id (move_key r x)"
  by (simp_all add: moved_candidate_def cd_key_def move_key_def)

text \<open>an attachment that carries an attachment id can never be moved to an edge of its own: as
  long as the new edge has another identifier, the exclusive attachment check finds the very edge
  that is to be replaced, whatever the target and the new attachment id are.\<close>

theorem attached_edge_never_moves:
  assumes ok: "graph_ok (en_graph e)" and x: "find_edge (en_graph e) (mv_attachment_edge r) = Some x"
    and att: "ed_attachment x = Some a" and other: "cd_id (moved_candidate r x) \<noteq> mv_attachment_edge r"
    and run: "move_attachment io au r e = (res, e')"
  shows "\<not> changed res \<and> en_graph e' = en_graph e"
proof (rule ccontr)
  assume no: "\<not> (\<not> changed res \<and> en_graph e' = en_graph e)"
  then have "\<not> refused e (move_attachment io au r e)" using run by (auto simp: refused_def)
  then obtain y endpoint target where "movable e au r y endpoint target" by (rule move_cases)
  then have y: "ed_relation x = RC_AttachedTo" "ed_lifecycle x = LS_Current"
    and val: "validate_relationship_candidate (en_graph e) (moved_candidate r x) True = None"
    using x by (auto simp: movable_def)
  have "exclusive_failure (en_graph e) (moved_candidate r x) = None" using val by (rule validated)
  then have "first_some (endpoint_conflict (en_graph e) (moved_candidate r x)) (sorted_bucket (g_incident (en_graph e)) (ed_from x)) = None"
    by (simp add: exclusive_failure_def split: option.splits)
  moreover have "mv_attachment_edge r \<in> set (sorted_bucket (g_incident (en_graph e)) (ed_from x))"
    using set_incident [OF graph_okD(1) [OF ok]] x by blast
  ultimately have "endpoint_conflict (en_graph e) (moved_candidate r x) (mv_attachment_edge r) = None"
    by (simp add: first_some_None)
  then show False using x y att other by (simp add: endpoint_conflict_def split: if_splits)
qed

lemma erase_update_commute:
  assumes inv: "graph_inv g" and x: "find_edge g i = Some x" and same: "same_edge_identity x y" and ne: "j \<noteq> i"
  shows "snd (erase_edge j (snd (update_edge y g))) = snd (update_edge y (snd (erase_edge j g)))"
proof (rule graph_inv_ext)
  have id: "ed_id y = i" using graph_inv_ids [OF inv x] same by (simp add: same_edge_identity_def)
  have "graph_inv (snd (update_edge y g))"
    using x id by (intro update_edge_same_identity_inv [OF inv _ same]) simp
  then show "graph_inv (snd (erase_edge j (snd (update_edge y g))))" by (rule erase_edge_inv)
  have "find_edge (snd (erase_edge j g)) i = Some x" using x ne by (simp add: find_edge_def lookup_simps)
  then show "graph_inv (snd (update_edge y (snd (erase_edge j g))))"
    using id by (intro update_edge_same_identity_inv [OF erase_edge_inv [OF inv] _ same]) simp
  have "Mapping.delete j (Mapping.update i y (g_edges g)) = Mapping.update i y (Mapping.delete j (g_edges g))"
    using ne by (intro mapping_eqI) (auto simp: lookup_simps)
  then show "g_edges (snd (erase_edge j (snd (update_edge y g)))) = g_edges (snd (update_edge y (snd (erase_edge j g))))"
    using x id ne by (simp add: frame_simps find_edge_def has_key_def lookup_simps)
qed (simp_all add: frame_simps)

text \<open>Rolling back the failed insertion erases the edge that was already there.\<close>

lemma move_rollback:
  assumes inv: "graph_inv g" and x: "find_edge g (ed_id x) = Some x" and same: "same_edge_identity x y" and j: "find_edge g j \<noteq> None"
  shows "snd (rollback (note_edge_inserted j (note_edge_updated x begin_txn)) (snd (update_edge y g))) = snd (erase_edge j g)"
proof -
  let ?h = "snd (update_edge y g)"
  have id: "ed_id y = ed_id x" using same by (simp add: same_edge_identity_def)
  have h: "graph_inv ?h" using x id by (intro update_edge_same_identity_inv [OF inv _ same]) simp
  have roll: "snd (rollback (note_edge_inserted j (note_edge_updated x begin_txn)) ?h) = snd (update_edge x (snd (erase_edge j ?h)))"
    by (simp add: rollback_def note_defs begin_txn_def)
  show ?thesis
  proof (cases "j = ed_id x")
    case True
    have none: "find_edge (snd (erase_edge j k)) (ed_id x) = None" for k by (simp add: True find_edge_def lookup_simps)
    have "snd (erase_edge j ?h) = snd (erase_edge j g)"
    proof (rule graph_inv_ext)
      show "graph_inv (snd (erase_edge j ?h))" "graph_inv (snd (erase_edge j g))" using h inv by (simp_all add: erase_edge_inv)
      have "Mapping.delete j (Mapping.update j y (g_edges g)) = Mapping.delete j (g_edges g)"
        by (intro mapping_eqI) (auto simp: lookup_simps)
      then show "g_edges (snd (erase_edge j ?h)) = g_edges (snd (erase_edge j g))"
        using x True id by (simp add: frame_simps find_edge_def has_key_def lookup_simps)
    qed (simp_all add: frame_simps)
    then show ?thesis using none [of g] by (simp add: roll update_edge_def [of x])
  next
    case False
    have kept: "find_edge (snd (erase_edge j g)) (ed_id x) = Some x" using x False by (simp add: find_edge_def lookup_simps)
    note inv' = erase_edge_inv [OF inv, of j]
    have "snd (erase_edge j ?h) = snd (update_edge y (snd (erase_edge j g)))" by (rule erase_update_commute [OF inv x same False])
    then show ?thesis
      using undo_edge_updated [OF inv', of y x] kept id same_identity_free [OF inv' kept same] by (simp add: roll)
  qed
qed

lemma commit_move_fails:
  assumes ok: "graph_ok (en_graph e)" and x: "find_edge (en_graph e) i = Some x"
    and taken: "find_edge (en_graph e) (cd_id (moved_candidate r x)) \<noteq> None"
  shows "\<not> changed (fst (commit_move io au r x a b e)) \<and> control (snd (commit_move io au r x a b e)) = control e \<and>
    outcome_of (mr_status (fst (commit_move io au r x a b e))) = O_InternalError \<and>
    mr_diff (fst (commit_move io au r x a b e)) = empty_diff \<and>
    en_graph (snd (commit_move io au r x a b e)) = snd (erase_edge (cd_id (moved_candidate r x)) (en_graph e))"
proof -
  let ?c = "moved_candidate r x"
  let ?y = "superseded_edge (Some (cd_id ?c)) x"
  let ?h = "snd (update_edge ?y (en_graph e))"
  note inv = graph_okD(1) [OF ok]
  have id: "ed_id x = i" by (rule graph_inv_ids [OF inv x])
  have "find_edge ?h (cd_id ?c) \<noteq> None" using taken by (simp add: find_after_update_edge)
  then have "insert_edge (asserted_edge au (en_generation e) ?c a b) ?h = (False, ?h)"
    by (simp add: insert_edge_def has_key_def find_edge_def)
  moreover have "snd (rollback (note_edge_inserted (cd_id ?c) (note_edge_updated x begin_txn)) ?h) = snd (erase_edge (cd_id ?c) (en_graph e))"
    using x id taken by (intro move_rollback [OF inv] superseded_edge_facts) simp_all
  ultimately show ?thesis
    by (simp add: commit_move_def Let_def rejected_by_def rejected_def answer_def changed_def control_simps empty_diff_def)
qed

text \<open>C34: a move whose new edge has the identifier of a stored relationship never commits, but it can
  still change the graph, and then it has deleted that relationship, of whatever domain. It is
  answered with an internal error, the topology generation stays and no diff records the deletion.\<close>

theorem rejected_move_erases_relationship:
  assumes ok: "graph_ok (en_graph e)" and run: "move_attachment io au r e = (res, e')"
    and x: "find_edge (en_graph e) (mv_attachment_edge r) = Some x" and y: "find_edge (en_graph e) (cd_id (moved_candidate r x)) = Some y"
    and diff: "en_graph e' \<noteq> en_graph e"
  shows "\<not> changed res \<and> outcome_of (mr_status res) = O_InternalError \<and> mr_diff res = empty_diff \<and>
    (\<forall>k. find_edge (en_graph e') k = (if k = cd_id (moved_candidate r x) then None else find_edge (en_graph e) k)) \<and>
    g_nodes (en_graph e') = g_nodes (en_graph e) \<and> en_generation e' = en_generation e"
proof -
  have "\<not> refused e (move_attachment io au r e)" using diff run by (auto simp: refused_def)
  then obtain x' a b where "movable e au r x' a b" "move_attachment io au r e = commit_move io au r x' a b e" by (rule move_cases)
  then have eq: "(res, e') = commit_move io au r x a b e" using x run by (simp add: movable_def)
  note fails = commit_move_fails [OF ok x, where r = r and au = au and a = a and b = b and io = io, folded eq]
  have gr: "en_graph e' = snd (erase_edge (cd_id (moved_candidate r x)) (en_graph e))" using fails y by simp
  then show ?thesis using fails y by (simp add: frame_simps find_edge_def lookup_simps en_generation_def frame_of_edge_ops)
qed

text \<open>The instances: a current attachment \<open>e1\<close> with the attachment id \<open>slot\<close>, a move to \<open>s2\<close> and one
  to its own target.\<close>

definition demo_attached_edge :: edge where
  "demo_attached_edge = asserted_edge demo_authority 0 demo_candidate demo_nic demo_s1"

definition demo_attached :: engine where
  "demo_attached = demo_engine\<lparr>en_graph := snd (insert_edge demo_attached_edge demo_graph)\<rparr>"

definition demo_move :: "string \<Rightarrow> string option \<Rightarrow> move_attachment_request" where
  "demo_move target i = \<lparr>mv_attachment_edge = ''e1'', mv_new_target = target, mv_domain = [], mv_new_edge_id = i,
     mv_expected_generation = 0, mv_expected_edge_generation = 0, mv_evidence_generation = 4, mv_attachment = ''port'',
     mv_metadata = [], mv_reason = []\<rparr>"

lemma demo_attached_facts:
  "graph_ok (en_graph demo_attached)" "find_edge (en_graph demo_attached) i = (if i = ''e1'' then Some demo_attached_edge else None)"
  "find_node (en_graph demo_attached) j = find_node demo_graph j"
proof -
  have val: "validate_relationship_candidate demo_graph demo_candidate True = None"
    by (intro demo_candidate_valid) (simp_all add: demo_graph_find)
  have "edge_fits demo_graph demo_attached_edge"
    unfolding demo_attached_edge_def by (rule asserted_fits [OF val demo_candidate_scoped])
  then show "graph_ok (en_graph demo_attached)"
    by (simp add: demo_attached_def, intro ok_insert_edge [OF demo_graph_ok])
      (simp_all add: demo_graph_find demo_no_key demo_attached_edge_def would_create_cycle_def rules_of_def)
  show "find_edge (en_graph demo_attached) i = (if i = ''e1'' then Some demo_attached_edge else None)"
    using demo_graph_find(2)
    by (simp add: demo_attached_def frame_of_edge_ops find_edge_def lookup_simps has_key_def demo_graph_base demo_attached_edge_def)
  show "find_node (en_graph demo_attached) j = find_node demo_graph j"
    by (simp add: demo_attached_def find_node_def frame_simps)
qed

theorem attached_edge_never_moves_witness:
  "en_graph (snd (move_attachment (\<lambda>_. Written) demo_authority (demo_move ''s2'' (Some ''e2'')) demo_attached)) = en_graph demo_attached"
proof -
  obtain res e' where run: "move_attachment (\<lambda>_. Written) demo_authority (demo_move ''s2'' (Some ''e2'')) demo_attached = (res, e')"
    by (metis surj_pair)
  have "ed_attachment demo_attached_edge = Some ''slot''" by (simp add: demo_attached_edge_def asserted_edge_def)
  moreover have "find_edge (en_graph demo_attached) (mv_attachment_edge (demo_move ''s2'' (Some ''e2''))) = Some demo_attached_edge"
    "cd_id (moved_candidate (demo_move ''s2'' (Some ''e2'')) demo_attached_edge) \<noteq> mv_attachment_edge (demo_move ''s2'' (Some ''e2''))"
    by (simp_all add: demo_attached_facts(2) demo_move_def moved_candidate_def)
  ultimately show ?thesis
    using attached_edge_never_moves [OF demo_attached_facts(1) _ _ _ run, of demo_attached_edge "''slot''"] by (simp add: run)
qed

lemma demo_move_runs:
  "move_attachment io demo_authority (demo_move ''s1'' (Some ''e1'')) demo_attached =
   commit_move io demo_authority (demo_move ''s1'' (Some ''e1'')) demo_attached_edge demo_nic demo_s1 demo_attached"
proof -
  let ?r = "demo_move ''s1'' (Some ''e1'')"
  have edge: "ed_relation demo_attached_edge = RC_AttachedTo" "ed_lifecycle demo_attached_edge = LS_Current" "ed_from demo_attached_edge = ''nic''"
    "ed_domain demo_attached_edge = ''d''" "ed_id demo_attached_edge = ''e1''" "edge_key_of demo_attached_edge = move_key ?r demo_attached_edge"
    by (simp_all add: demo_attached_edge_def asserted_edge_def demo_move_def move_key_def edge_key_of_def)
  have req: "move_malformed (en_limits demo_attached) ?r = None" "mv_attachment_edge ?r = ''e1''" "mv_new_target ?r = ''s1''"
    "move_domain_failure ?r demo_attached_edge = None"
    "stale_generation c (mv_expected_generation ?r) demo_attached = None" "stale_edge_generation c (mv_expected_edge_generation ?r) x = None" for c x
    by (simp_all add: demo_move_def move_malformed_def metadata_validate_def default_limits_def demo_attached_def move_domain_failure_def
        stale_generation_def stale_edge_generation_def)
  have "validate_relationship_candidate (en_graph demo_attached) (moved_candidate ?r demo_attached_edge) True = None"
    by (rule attachment_valid)
      (auto simp: demo_attached_facts demo_graph_find edge req moved_candidate_def demo_move_def derive_relationship_id_def split: if_splits)
  moreover have "move_target_exists (en_graph demo_attached) ?r demo_attached_edge = None"
    using edge_key_indexed [OF graph_okD(1) [OF demo_attached_facts(1)], of "''e1''" demo_attached_edge] edge
    by (simp add: move_target_exists_def demo_attached_facts(2))
  moreover have "check_authority demo_attached demo_authority ''d'' m = check_authority demo_engine demo_authority ''d'' m" for m
    by (simp add: check_authority_def demo_attached_def boot_is_fenced_def check_registration_def split: option.split)
  ultimately show ?thesis
    by (simp add: move_attachment_def place_attachment_def demo_attached_facts demo_graph_find edge req source_not_current_def Let_def)
qed

theorem rejected_move_erases_relationship_witness:
  "find_edge (en_graph (snd (move_attachment (\<lambda>_. Written) demo_authority (demo_move ''s1'' (Some ''e1'')) demo_attached))) ''e1'' = None"
proof -
  let ?r = "demo_move ''s1'' (Some ''e1'')"
  obtain res e' where run: "move_attachment (\<lambda>_. Written) demo_authority ?r demo_attached = (res, e')"
    by (metis surj_pair)
  have x: "find_edge (en_graph demo_attached) (mv_attachment_edge ?r) = Some demo_attached_edge"
    and id: "cd_id (moved_candidate ?r demo_attached_edge) = ''e1''"
    by (simp_all add: demo_attached_facts(2) demo_move_def moved_candidate_def)
  have y: "find_edge (en_graph demo_attached) (cd_id (moved_candidate ?r demo_attached_edge)) = Some demo_attached_edge"
    by (simp add: id demo_attached_facts(2))
  have "en_graph e' = snd (erase_edge ''e1'' (en_graph demo_attached))"
    using commit_move_fails [OF demo_attached_facts(1) x, where r = ?r and io = "\<lambda>_. Written" and au = demo_authority
        and a = demo_nic and b = demo_s1] run y by (simp add: demo_move_runs id)
  then have "find_edge (en_graph e') ''e1'' \<noteq> find_edge (en_graph demo_attached) ''e1''"
    by (simp add: demo_attached_facts(2)) (simp add: find_edge_def lookup_simps)
  then have "en_graph e' \<noteq> en_graph demo_attached" by metis
  from rejected_move_erases_relationship [OF demo_attached_facts(1) run x y this] show ?thesis by (simp add: run id)
qed

subsection \<open>A move that is safe\<close>

text \<open>What the code leaves to its callers: the new identifiers are free, the relationship stays in one domain.\<close>

definition safe_move :: "engine \<Rightarrow> move_attachment_request \<Rightarrow> bool" where
  "safe_move e r \<longleftrightarrow> (\<forall>x target. find_edge (en_graph e) (mv_attachment_edge r) = Some x \<longrightarrow>
     find_node (en_graph e) (mv_new_target r) = Some target \<longrightarrow>
     find_edge (en_graph e) (cd_id (moved_candidate r x)) = None \<and> find_edge_by_key (en_graph e) (move_key r x) = None \<and>
     find_edge_by_relationship (en_graph e) (derive_relationship_id (move_key r x)) = None \<and>
     \<not> ed_cross_domain x \<and> nd_domain target = ed_domain x)"

lemma commit_move_ends:
  assumes ok: "graph_ok (en_graph e)" and mv: "movable e au r x a b" and safe: "safe_move e r"
  defines "y \<equiv> superseded_edge (Some (cd_id (moved_candidate r x))) x"
  defines "c \<equiv> asserted_edge au (en_generation e) (moved_candidate r x) a b"
  shows "ends_with e (snd (insert_edge c (snd (update_edge y (en_graph e))))) (commit_move io au r x a b e)"
    "graph_ok (snd (insert_edge c (snd (update_edge y (en_graph e)))))"
    "find_edge (snd (insert_edge c (snd (update_edge y (en_graph e))))) k =
      (if k = cd_id (moved_candidate r x) then Some c else if k = mv_attachment_edge r then Some y else find_edge (en_graph e) k)"
proof -
  let ?g = "en_graph e" and ?c = "moved_candidate r x"
  let ?h = "snd (update_edge y (en_graph e))"
  note inv = graph_okD(1) [OF ok] and facts = superseded_edge_facts [where x = x and j = "Some (cd_id ?c)", folded y_def]
  have x: "find_edge ?g (mv_attachment_edge r) = Some x" and val: "validate_relationship_candidate ?g ?c True = None"
    and ends: "find_node ?g (ed_from x) = Some a" "find_node ?g (mv_new_target r) = Some b"
    using mv by (auto simp: movable_def)
  have id: "ed_id x = mv_attachment_edge r" by (rule graph_inv_ids [OF inv x])
  have free: "find_edge ?g (cd_id ?c) = None" "find_edge_by_key ?g (move_key r x) = None"
    "find_edge_by_relationship ?g (cd_relationship_id ?c) = None" "\<not> ed_cross_domain x" "nd_domain b = ed_domain x"
    using safe x ends by (auto simp: safe_move_def)
  have okh: "graph_ok ?h" using x id facts by (intro ok_update_edge_kept [OF ok, of y x]) simp_all
  have same: "edge_key_of y = edge_key_of x" "ed_relationship_id y = ed_relationship_id x"
    using facts(2) by (simp_all add: same_edge_identity_def)
  have after: "find_edge ?h k = (if k = mv_attachment_edge r then Some y else find_edge ?g k)" for k
    using x id facts(5) by (simp add: find_after_update_edge)
  have keys: "find_edge_by_key ?h (move_key r x) = None"
  proof (rule ccontr)
    assume "find_edge_by_key ?h (move_key r x) \<noteq> None"
    then obtain j z where z: "find_edge ?h j = Some z" "edge_key_of z = move_key r x"
      using edge_by_key_stored [OF graph_okD(1) [OF okh]] by blast
    then obtain z' where "find_edge ?g j = Some z'" "edge_key_of z' = move_key r x"
      using x same by (auto simp: after split: if_splits)
    with edge_key_indexed [OF inv this(1)] free(2) show False by simp
  qed
  have rels: "find_edge_by_relationship ?h (cd_relationship_id ?c) = None"
  proof (rule ccontr)
    assume "find_edge_by_relationship ?h (cd_relationship_id ?c) \<noteq> None"
    then obtain j z where z: "find_edge ?h j = Some z" "ed_relationship_id z = cd_relationship_id ?c"
      using edge_by_relationship_stored [OF graph_okD(1) [OF okh]] by blast
    then obtain z' where "find_edge ?g j = Some z'" "ed_relationship_id z' = cd_relationship_id ?c"
      using x same by (auto simp: after split: if_splits)
    with edge_relationship_indexed [OF inv this(1)] free(3) show False by simp
  qed
  have fresh: "find_edge ?h (cd_id ?c) = None" using free(1) x by (auto simp: after)
  have "nd_domain a = ed_domain x" using graph_okD(7) [OF ok x] ends(1) free(4) by (auto simp: edge_fits_def scope_ok_def)
  then have "candidate_scoped ?g ?c" using ends free(5) by (simp add: candidate_scoped_def)
  then have fits: "edge_fits ?g c" unfolding c_def by (rule asserted_fits [OF val])
  have "edge_fits ?h c" using fits edge_fits_same_nodes [of ?h ?g c] by (simp add: frame_simps frame_of_edge_ops)
  moreover have "would_create_cycle ?h (ed_relation c) (ed_from c) (ed_to c) \<noteq> Some True"
    by (simp add: c_def would_create_cycle_def rules_of_def)
  moreover have "ed_id c \<noteq> []" using val by (auto elim!: validated simp: c_def)
  ultimately show good: "graph_ok (snd (insert_edge c ?h))"
    using fresh keys rels by (intro ok_insert_edge [OF okh]) (simp_all add: c_def)
  obtain g where g: "insert_edge c ?h = (True, g)"
    using fresh by (cases "insert_edge c ?h") (auto simp: insert_edge_def has_key_def find_edge_def c_def)
  show find: "find_edge (snd (insert_edge c ?h)) k =
      (if k = cd_id ?c then Some c else if k = mv_attachment_edge r then Some y else find_edge ?g k)" for k
    using fresh after [of k] by (simp add: find_edge_def lookup_simps has_key_def c_def)
  have sec: "secondary_declared (g_domain_definitions ?h) c"
    using stored_secondary_declared [OF graph_okD(1) [OF good], of "cd_id ?c" c] find [of "cd_id ?c"] by (simp add: frame_of_edge_ops)
  have "logged ?g (tx_entries (note_edge_updated x begin_txn)) ?h"
    by (rule logged_update_edge [OF _ inv x facts(2)]) (simp add: logged.nothing)
  from logged.edge_inserted [OF this, of c] fresh keys rels sec
  have "logged ?g (tx_entries (note_edge_inserted (cd_id ?c) (note_edge_updated x begin_txn))) g"
    using g by (simp add: note_defs c_def)
  moreover have "g_generation g = en_generation e"
    using frame_of_edge_ops(3) [of c ?h] g by (simp add: frame_of_edge_ops en_generation_def)
  ultimately have "ends_with e g (commit_move io au r x a b e)"
    unfolding commit_move_def Let_def y_def [symmetric] c_def [symmetric] g prod.case not_True_eq_False if_False
    using inv by (intro conclude_ends) auto
  then show "ends_with e (snd (insert_edge c ?h)) (commit_move io au r x a b e)" by (simp add: g)
qed

end
