(* ===== verification/Machine.thy ===== *)
theory Machine
  imports Rebind
begin

text \<open>
  The operations of \<open>TopologyEngine\<close> that change one thing of the graph or of its administration, as a
  step relation, and what every such step keeps. \<open>move_attachment\<close> is a step here only where
  \<open>safe_move\<close> holds; \<open>Rebind\<close> shows what the code does otherwise. Publications, snapshots, loads and
  the other moves are added in \<open>Runs\<close>.
\<close>

subsection \<open>Steps\<close>

inductive operation_step :: "engine \<Rightarrow> engine \<Rightarrow> bool" where
  define_domain_step: "define_domain d e = (s, e') \<Longrightarrow> operation_step e e'"
| define_rule_step: "define_cross_domain_rule c e = (s, e') \<Longrightarrow> operation_step e e'"
| register_step: "register_publisher rg e = (s, e') \<Longrightarrow> operation_step e e'"
| fence_publisher_step: "fence_publisher io p b reason e = (s, e') \<Longrightarrow> operation_step e e'"
| fence_boot_step: "fence_boot io b reason e = (n, e') \<Longrightarrow> operation_step e e'"
| epoch_step: "advance_coordinator_epoch io e = (v, e') \<Longrightarrow> operation_step e e'"
| add_node_step: "add_node io au an e = (res, e') \<Longrightarrow> operation_step e e'"
| remove_node_step: "remove_node io au rn e = (res, e') \<Longrightarrow> operation_step e e'"
| add_relationship_step: "add_relationship io au ar e = (res, e') \<Longrightarrow> operation_step e e'"
| attach_step: "attach_endpoint io au ae e = (res, e') \<Longrightarrow> operation_step e e'"
| evidence_step: "update_relationship_evidence io au ue e = (res, e') \<Longrightarrow> operation_step e e'"
| revalidate_step: "revalidate_relationship io au rv e = (res, e') \<Longrightarrow> operation_step e e'"
| supersede_step: "supersede_relationship io au su e = (res, e') \<Longrightarrow> operation_step e e'"
| retire_step: "retire_relationship io au rt e = (res, e') \<Longrightarrow> operation_step e e'"
| detach_step: "detach_endpoint io au de e = (res, e') \<Longrightarrow> operation_step e e'"
| replace_step: "replace_endpoint_generation io au rp e = (res, e') \<Longrightarrow> operation_step e e'"
| move_step: "safe_move e mv \<Longrightarrow> move_attachment io au mv e = (res, e') \<Longrightarrow> operation_step e e'"

subsection \<open>How a step changes relationships\<close>

text \<open>Every relationship after a step was there before, under the same key, and is not revived; or it
  is new, live and supersedes nothing. A new supersession points to a current relationship.\<close>

definition links :: "graph \<Rightarrow> string \<Rightarrow> edge \<Rightarrow> edge \<Rightarrow> bool" where
  "links h i x y \<longleftrightarrow> ed_superseded_by y = ed_superseded_by x \<or>
     ended y \<and> (\<forall>j. ed_superseded_by y = Some j \<longrightarrow> j \<noteq> i \<and> (\<exists>z. find_edge h j = Some z \<and> \<not> ended z))"

definition evolves :: "graph \<Rightarrow> graph \<Rightarrow> bool" where
  "evolves g h \<longleftrightarrow> (\<forall>i y. find_edge h i = Some y \<longrightarrow>
     (case find_edge g i of
        None \<Rightarrow> \<not> ended y \<and> ed_superseded_by y = None
      | Some x \<Rightarrow> edge_key_of y = edge_key_of x \<and> (ended x \<longrightarrow> ended y) \<and> links h i x y))"

lemma evolvesI:
  assumes "\<And>i y. find_edge h i = Some y \<Longrightarrow> find_edge g i = None \<Longrightarrow> \<not> ended y \<and> ed_superseded_by y = None"
    and "\<And>i x y. find_edge h i = Some y \<Longrightarrow> find_edge g i = Some x \<Longrightarrow>
      edge_key_of y = edge_key_of x \<and> (ended x \<longrightarrow> ended y) \<and> links h i x y"
  shows "evolves g h"
  using assms by (auto simp: evolves_def split: option.split)

lemma evolves_same: "(\<And>i. find_edge h i = find_edge g i) \<Longrightarrow> evolves g h"
  by (rule evolvesI) (auto simp: links_def)

lemma evolves_mapped:
  assumes "\<And>i. find_edge h i = map_option (f i) (find_edge g i)"
    and "\<And>i x. find_edge g i = Some x \<Longrightarrow> edge_key_of (f i x) = edge_key_of x \<and> (ended x \<longrightarrow> ended (f i x)) \<and> ed_superseded_by (f i x) = ed_superseded_by x"
  shows "evolves g h"
  using assms by (intro evolvesI) (auto simp: links_def)

lemma evolves_demoted: "demoted g P h \<Longrightarrow> evolves g h"
  unfolding demoted_def
  by (rule evolves_mapped [where f = "\<lambda>_ x. if P x \<and> is_current x then demote x else x"])
    (auto simp: demote_def edge_key_of_def ended_def is_current_def)

lemma evolves_generation: "evolves g (h\<lparr>g_generation := v\<rparr>) = evolves g h"
  by (simp add: evolves_def links_def cong: option.case_cong)

lemma evolves_ends_with: "ends_with e h z \<Longrightarrow> evolves (en_graph e) h \<Longrightarrow> evolves (en_graph e) (en_graph (snd z))"
  by (auto simp: ends_with_def evolves_generation evolves_same split: if_splits)

lemma evolves_refused: "refused e z \<Longrightarrow> evolves (en_graph e) (en_graph (snd z))"
  by (simp add: refused_def evolves_same)

lemma shape_key: "same_shape x y \<Longrightarrow> edge_key_of y = edge_key_of x \<and> (ended x \<longrightarrow> ended y)"
  by (simp add: same_shape_def edge_key_of_def)

lemma evolves_revises:
  assumes ok: "graph_ok (en_graph e)" and rev: "revises e i P f z"
    and links: "\<And>x h. find_edge (en_graph e) i = Some x \<Longrightarrow> P x \<Longrightarrow> (\<And>j. j \<noteq> i \<Longrightarrow> find_edge h j = find_edge (en_graph e) j) \<Longrightarrow> links h i x (f x)"
  shows "evolves (en_graph e) (en_graph (snd z))"
  using rev unfolding revises_def
proof (elim disjE exE conjE)
  fix x
  assume x: "find_edge (en_graph e) i = Some x" "P x" "same_shape x (f x)"
    and ends: "ends_with e (snd (update_edge (f x) (en_graph e))) z"
  let ?h = "snd (update_edge (f x) (en_graph e))"
  have id: "ed_id (f x) = i" using graph_inv_ids [OF graph_okD(1) [OF ok] x(1)] x(3) by (simp add: same_shape_def)
  have find: "find_edge ?h j = (if j = i then Some (f x) else find_edge (en_graph e) j)" for j
    using x(1) id by (simp add: find_after_update_edge)
  have "links ?h i x (f x)" by (rule links [OF x(1,2)]) (simp add: find)
  then have "evolves (en_graph e) ?h"
    using x shape_key [OF x(3)] by (intro evolvesI) (auto simp: find links_def split: if_splits)
  with ends show ?thesis by (rule evolves_ends_with)
qed (simp add: evolves_refused)

subsection \<open>Each operation\<close>

lemma evolves_add_node:
  assumes ok: "graph_ok (en_graph e)"
  shows "evolves (en_graph e) (en_graph (snd (add_node io au r e)))"
proof (cases "refused e (add_node io au r e)")
  case False
  then obtain rec where rec: "add_node io au r e = place_node io au r rec e" "has_key (g_domain_definitions (en_graph e)) (an_domain r)"
    by (rule add_node_placed)
  from ok rec(2) False [unfolded rec(1)]
  have "evolves (en_graph e) (en_graph (snd (place_node io au r rec e)))"
  proof (cases rule: place_node_cases)
    case fresh
    show ?thesis by (rule evolves_ends_with [OF fresh(5)]) (simp add: evolves_same find_edge_def frame_simps)
  next
    case (refreshed n t g d)
    note eff = refresh_node_effect [OF ok refreshed(1,3)]
    have "evolves (en_graph e) g"
    proof (rule evolves_mapped)
      fix i
      show "find_edge g i = map_option (\<lambda>x. if nd_entity_generation n \<noteq> er_generation rec \<and> (ed_from x = node_id_of r \<or> ed_to x = node_id_of r) \<and>
          \<not> fence_skips (node_id_of r) (er_generation rec) x then fence_edge (node_id_of r) (er_generation rec) x else x) (find_edge (en_graph e) i)"
        using eff [of _ i] by (simp split: option.split)
    qed (auto simp: fence_edge_def demote_def rebind_end_def edge_key_of_def fence_skips_def ended_def)
    then show ?thesis by (rule evolves_ends_with [OF refreshed(4)])
  qed
  then show ?thesis by (simp add: rec(1))
qed (simp add: evolves_refused)

lemma evolves_remove_node:
  assumes ok: "graph_ok (en_graph e)"
  shows "evolves (en_graph e) (en_graph (snd (remove_node io au r e)))"
proof (cases "refused e (remove_node io au r e)")
  case False
  from ok False show ?thesis
  proof (rule remove_node_cases)
    fix n t g d
    assume c: "find_node (en_graph e) (rn_node r) = Some n" "remove_node_and_edges n (rn_node r) (en_graph e) = (t, g, d)"
      and ends: "ends_with e g (remove_node io au r e)"
    have "evolves (en_graph e) g"
      using remove_node_and_edges_effect [OF ok c] by (intro evolvesI) (auto simp: links_def split: if_splits)
    then show ?thesis by (rule evolves_ends_with [OF ends])
  qed
qed (simp add: evolves_refused)

lemma evolves_add_relationship:
  assumes ok: "graph_ok (en_graph e)"
  shows "evolves (en_graph e) (en_graph (snd (add_relationship io au r e)))"
proof (cases "refused e (add_relationship io au r e)")
  case False
  then obtain c a b where c: "serves e au r c a b" "add_relationship io au r e = admit_relationship io au c a b e"
    by (rule add_relationship_admits)
  note inv = graph_okD(1) [OF ok]
  from ok c(1) False [unfolded c(2)]
  have "evolves (en_graph e) (en_graph (snd (admit_relationship io au c a b e)))"
  proof (cases rule: admit_relationship_cases)
    case stored
    let ?y = "asserted_edge au (en_generation e) c a b"
    have "find_edge (snd (insert_edge ?y (en_graph e))) k = (if k = cd_id c then Some ?y else find_edge (en_graph e) k)" for k
      using stored(1) by (simp add: find_edge_def lookup_simps has_key_def)
    then have "evolves (en_graph e) (snd (insert_edge ?y (en_graph e)))"
      using stored(1) by (intro evolvesI) (auto simp: links_def asserted_edge_def ended_def split: if_splits)
    then show ?thesis by (rule evolves_ends_with [OF stored(2)])
  next
    case (refreshed x)
    let ?y = "refreshed_edge (en_generation e) c a b x"
    have id: "ed_id x = cd_id c" by (rule graph_inv_ids [OF inv refreshed(1)])
    have "find_edge (snd (update_edge ?y (en_graph e))) k = (if k = cd_id c then Some ?y else find_edge (en_graph e) k)" for k
      using refreshed(1) id by (simp add: find_after_update_edge refreshed_edge_facts)
    moreover have "ed_superseded_by ?y = ed_superseded_by x" by (simp add: refreshed_edge_def)
    ultimately have "evolves (en_graph e) (snd (update_edge ?y (en_graph e)))"
      using refreshed(1,2) by (intro evolvesI) (auto simp: links_def refreshed_edge_facts split: if_splits)
    then show ?thesis by (rule evolves_ends_with [OF refreshed(4)])
  qed
  then show ?thesis by (simp add: c(2))
qed (simp add: evolves_refused)

lemma evolves_attach:
  "graph_ok (en_graph e) \<Longrightarrow> evolves (en_graph e) (en_graph (snd (attach_endpoint io au r e)))"
  by (simp add: attach_endpoint_def evolves_add_relationship)

lemma evolves_evidence:
  assumes "graph_ok (en_graph e)"
  shows "evolves (en_graph e) (en_graph (snd (update_relationship_evidence io au ue e)))"
    "evolves (en_graph e) (en_graph (snd (revalidate_relationship io au rv e)))"
  using evolves_revises [OF assms update_evidence_revises [OF assms, of ue au io]]
    evolves_revises [OF assms revalidate_revises [OF assms, of rv au io]]
  by (simp_all add: links_def evidence_edge_def Let_def)

lemma evolves_supersede:
  assumes ok: "graph_ok (en_graph e)"
  shows "evolves (en_graph e) (en_graph (snd (supersede_relationship io au r e)))"
proof (rule evolves_revises [OF ok supersede_revises [OF ok]])
  fix x h
  assume p: "may_write e au (su_expected_generation r) x \<and> ed_lifecycle x \<noteq> LS_Retired \<and>
      (\<forall>j. su_replacement r = Some j \<longrightarrow> j \<noteq> su_edge r \<and> (\<exists>y. find_edge (en_graph e) j = Some y \<and> ed_lifecycle y = LS_Current))"
    and other: "\<And>j. j \<noteq> su_edge r \<Longrightarrow> find_edge h j = find_edge (en_graph e) j"
  have "ended y" if "ed_lifecycle y = LS_Superseded" for y using that by (simp add: ended_def)
  with p other show "links h (su_edge r) x (superseded_edge (su_replacement r) x)"
    by (auto simp: links_def superseded_edge_def ended_def)
qed

lemma evolves_retire:
  assumes "graph_ok (en_graph e)"
  shows "evolves (en_graph e) (en_graph (snd (retire_relationship io au r e)))"
  by (rule evolves_revises [OF assms retire_revises [OF assms]]) (simp add: links_def retired_edge_def)

lemma evolves_detach:
  assumes ok: "graph_ok (en_graph e)"
  shows "evolves (en_graph e) (en_graph (snd (detach_endpoint io au r e)))"
  using ok
proof (cases rule: detach_cases [where io = io and au = au and r = r])
  case none
  then show ?thesis by (rule evolves_refused)
next
  case (some i x)
  show ?thesis by (rule evolves_revises [OF ok some(5)]) (simp add: links_def retired_edge_def)
qed

lemma evolves_replace:
  assumes ok: "graph_ok (en_graph e)"
  shows "evolves (en_graph e) (en_graph (snd (replace_endpoint_generation io au r e)))"
proof (cases "refused e (replace_endpoint_generation io au r e)")
  case False
  then obtain n m t g d where c: "find_node (en_graph e) (rp_node r) = Some n" "binds (en_graph e) n m" "rebind_node m (en_graph e) = (t, g, d)"
    and ends: "ends_with (e\<lparr>en_graph := snd (update_node m (en_graph e))\<rparr>) g (replace_endpoint_generation io au r e)"
    by (rule replace_endpoint_cases [OF ok])
  let ?f = "\<lambda>x. if (ed_from x = rp_node r \<or> ed_to x = rp_node r) \<and> \<not> ended x
    then replace_end (rp_node r) (nd_entity_generation m) x else x"
  have "evolves (en_graph e) g"
  proof (rule evolves_mapped)
    show "find_edge g i = map_option ?f (find_edge (en_graph e) i)" for i
      using rebind_node_effect(7) [OF ok c, of i] by (simp split: option.split)
  qed (auto simp: replace_end_def demote_def edge_key_of_def ended_def Let_def)
  moreover have "evolves (en_graph e) (snd (update_node m (en_graph e)))" by (rule evolves_same) (simp add: find_edge_def frame_simps)
  ultimately show ?thesis using ends by (auto simp: ends_with_def evolves_generation split: if_splits)
qed (simp add: evolves_refused)

lemma evolves_move:
  assumes ok: "graph_ok (en_graph e)" and safe: "safe_move e r"
  shows "evolves (en_graph e) (en_graph (snd (move_attachment io au r e)))"
proof (cases "refused e (move_attachment io au r e)")
  case False
  then obtain x a b where mv: "movable e au r x a b" "move_attachment io au r e = commit_move io au r x a b e" by (rule move_cases)
  note eff = commit_move_ends [OF ok mv(1) safe]
  have x: "find_edge (en_graph e) (mv_attachment_edge r) = Some x" "find_node (en_graph e) (mv_new_target r) = Some b"
    using mv(1) by (auto simp: movable_def)
  then have new: "find_edge (en_graph e) (cd_id (moved_candidate r x)) = None" using safe by (auto simp: safe_move_def)
  then have ne: "cd_id (moved_candidate r x) \<noteq> mv_attachment_edge r" using x by auto
  let ?h = "snd (insert_edge (asserted_edge au (en_generation e) (moved_candidate r x) a b)
      (snd (update_edge (superseded_edge (Some (cd_id (moved_candidate r x))) x) (en_graph e))))"
  have "evolves (en_graph e) ?h"
    using x(1) new ne eff(3)
    by (intro evolvesI) (auto simp: links_def superseded_edge_def asserted_edge_def edge_key_of_def ended_def split: if_splits)
  then show ?thesis unfolding mv(2) by (rule evolves_ends_with [OF eff(1)])
qed (simp add: evolves_refused)

lemma move_attachment_ok:
  assumes ok: "graph_ok (en_graph e)" and safe: "safe_move e r"
  shows "atomic e (move_attachment io au r e) \<and> graph_ok (en_graph (snd (move_attachment io au r e)))"
proof (cases "refused e (move_attachment io au r e)")
  case True
  then show ?thesis using ok by (rule refused_ok)
next
  case False
  then obtain x a b where mv: "movable e au r x a b" "move_attachment io au r e = commit_move io au r x a b e" by (rule move_cases)
  note eff = commit_move_ends [OF ok mv(1) safe]
  show ?thesis unfolding mv(2) by (rule ends_with_ok [OF eff(1) ok eff(2)])
qed

lemma detach_ok:
  assumes ok: "graph_ok (en_graph e)"
  shows "atomic e (detach_endpoint io au r e) \<and> graph_ok (en_graph (snd (detach_endpoint io au r e)))"
  using ok
proof (cases rule: detach_cases [where io = io and au = au and r = r])
  case none
  then show ?thesis using ok by (rule refused_ok)
next
  case (some i x)
  show ?thesis by (rule revises_ok [OF ok some(5)])
qed

subsection \<open>What every step keeps\<close>

text \<open>Fences, the coordinator epoch and the topology generation only move forward.\<close>

definition progress :: "engine \<Rightarrow> engine \<Rightarrow> bool" where
  "progress e e' \<longleftrightarrow> en_fenced_boots e \<subseteq> en_fenced_boots e' \<and> en_epoch e \<le> en_epoch e' \<and> en_generation e \<le> en_generation e'"

lemma advance_le: "can_advance v \<Longrightarrow> v \<le> v + 1" "can_advance v \<Longrightarrow> v \<le> next_counter v"
  using unat_next_counter [of v] by (simp_all add: word_le_nat_alt next_counter_def)

lemma progress_steady: "steady e z \<Longrightarrow> progress e (snd z)"
  using advance_le(1) by (auto simp: steady_def progress_def dest: control_sel(1,2) split: if_splits)

lemma demoted_generation: "demoted g P h \<Longrightarrow> g_generation g \<le> g_generation h"
  using advance_le(2) by (auto simp: demoted_def)

definition good_step :: "engine \<Rightarrow> engine \<Rightarrow> bool" where
  "good_step e e' \<longleftrightarrow> graph_ok (en_graph e') \<and> evolves (en_graph e) (en_graph e') \<and> progress e e'"

lemma good_mutation:
  assumes "steady e z \<and> graph_ok (en_graph (snd z))" "evolves (en_graph e) (en_graph (snd z))"
  shows "good_step e (snd z)"
  using assms progress_steady by (simp add: good_step_def)

lemma good_atomic:
  "atomic e z \<and> graph_ok (en_graph (snd z)) \<Longrightarrow> evolves (en_graph e) (en_graph (snd z)) \<Longrightarrow> good_step e (snd z)"
  by (rule good_mutation) (auto intro: atomic_steady)

lemma good_demotion:
  assumes ok: "graph_ok (en_graph e)" and "en_graph e' = en_graph e \<or> demoted (en_graph e) P (en_graph e')"
    and "en_fenced_boots e \<subseteq> en_fenced_boots e'" "en_epoch e \<le> en_epoch e'"
  shows "good_step e e'"
  using assms ok_demoted [OF ok] evolves_demoted demoted_generation
  by (auto simp: good_step_def progress_def en_generation_def evolves_same)

lemma good_domain:
  assumes ok: "graph_ok (en_graph e)" and run: "define_domain d e = (s, e')"
  shows "good_step e e'"
  using run
proof (cases rule: define_domain_cases)
  case defined
  have "graph_ok (declare_domain d (en_graph e))" using defined by (intro ok_declare_domain [OF ok]) simp_all
  moreover have "find_edge (declare_domain d g) i = find_edge g i" "g_generation (declare_domain d g) = g_generation g" for g i
    by (simp_all add: declare_domain_def touch_domain_def find_edge_def)
  ultimately show ?thesis using defined by (simp add: good_step_def progress_def en_generation_def evolves_same)
qed (simp_all add: good_step_def progress_def evolves_same ok)

lemma good_rule:
  assumes ok: "graph_ok (en_graph e)" and run: "define_cross_domain_rule c e = (s, e')"
  shows "good_step e e'"
proof (cases "e' = e")
  case False
  then have "has_key (g_domain_definitions (en_graph e)) (cr_from_domain c)" "has_key (g_domain_definitions (en_graph e)) (cr_to_domain c)"
    "e' = e\<lparr>en_graph := (en_graph e)\<lparr>g_cross_domain_rules := g_cross_domain_rules (en_graph e) @ [c]\<rparr>\<rparr>"
    using run by (auto simp: define_cross_domain_rule_def split: if_splits)
  then show ?thesis using ok_add_rule [OF ok, of c] by (simp add: good_step_def progress_def en_generation_def evolves_same find_edge_def)
qed (simp add: good_step_def progress_def evolves_same ok)

lemma good_register:
  assumes ok: "graph_ok (en_graph e)" and run: "register_publisher rg e = (s, e')"
  shows "good_step e e'"
proof -
  have "en_graph e' = en_graph e" "en_epoch e' = en_epoch e" "en_fenced_boots e \<subseteq> en_fenced_boots e'"
    using run by (auto simp: register_publisher_def split: if_splits option.splits)
  then show ?thesis using ok by (simp add: good_step_def progress_def en_generation_def evolves_same)
qed

lemma fence_frames:
  "en_epoch (snd (fence_publisher io p b reason e)) = en_epoch e"
  "en_fenced_boots e \<subseteq> en_fenced_boots (snd (fence_publisher io p b reason e))"
  "en_epoch (snd (fence_boot io b reason e)) = en_epoch e"
  "en_fenced_boots e \<subseteq> en_fenced_boots (snd (fence_boot io b reason e))"
  "en_epoch e \<le> en_epoch (snd (advance_coordinator_epoch io e))"
  "en_fenced_boots (snd (advance_coordinator_epoch io e)) = en_fenced_boots e"
  using advance_le(2)
  by (auto simp: fence_publisher_def fence_boot_def advance_coordinator_epoch_def Let_def case_prod_beta settle_demotion_frame
      settle_epoch_frame split: option.split)

lemma step_good:
  assumes step: "operation_step e e'" and ok: "graph_ok (en_graph e)"
  shows "good_step e e'"
  using step
proof cases
  case (define_domain_step d s)
  then show ?thesis by (rule good_domain [OF ok])
next
  case (define_rule_step c s)
  then show ?thesis by (rule good_rule [OF ok])
next
  case (register_step rg s)
  then show ?thesis by (rule good_register [OF ok])
next
  case (fence_publisher_step io p b reason s)
  then show ?thesis
    using good_demotion [OF ok fence_publisher_graph [OF graph_okD(1) [OF ok], of io p b reason]] fence_frames(1,2) [where e = e and io = io and p = p and b = b and reason = reason] by simp
next
  case (fence_boot_step io b reason n)
  then show ?thesis
    using good_demotion [OF ok fence_boot_graph [OF graph_okD(1) [OF ok], of io b reason]] fence_frames(3,4) [where e = e and io = io and b = b and reason = reason] by simp
next
  case (epoch_step io v)
  then show ?thesis
    using good_demotion [OF ok epoch_graph [OF graph_okD(1) [OF ok], of io]] fence_frames(5) [where e = e and io = io] fence_frames(6) [where e = e and io = io] by simp
next
  case (add_node_step io au an res)
  then show ?thesis using good_atomic [OF add_node_ok evolves_add_node, OF ok ok, of io au an] by simp
next
  case (remove_node_step io au rn res)
  then show ?thesis using good_atomic [OF remove_node_ok evolves_remove_node, OF ok ok, of io au rn] by simp
next
  case (add_relationship_step io au ar res)
  then show ?thesis using good_atomic [OF add_relationship_ok evolves_add_relationship, OF ok ok, of io au ar] by simp
next
  case (attach_step io au ae res)
  then show ?thesis
    using good_atomic [OF attach_endpoint_ok evolves_attach, OF ok ok, of io au ae] by simp
next
  case (evidence_step io au ue res)
  then show ?thesis using good_atomic [OF revises_ok [OF ok update_evidence_revises [OF ok, of ue au io]] evolves_evidence(1) [OF ok, of io au ue]] by simp
next
  case (revalidate_step io au rv res)
  then show ?thesis using good_atomic [OF revises_ok [OF ok revalidate_revises [OF ok, of rv au io]] evolves_evidence(2) [OF ok, of io au rv]] by simp
next
  case (supersede_step io au su res)
  then show ?thesis using good_atomic [OF revises_ok [OF ok supersede_revises [OF ok, of su au io]] evolves_supersede [OF ok, of io au su]] by simp
next
  case (retire_step io au rt res)
  then show ?thesis using good_atomic [OF revises_ok [OF ok retire_revises [OF ok, of rt au io]] evolves_retire [OF ok, of io au rt]] by simp
next
  case (detach_step io au de res)
  then show ?thesis using good_atomic [OF detach_ok evolves_detach, OF ok ok, of io au de] by simp
next
  case (replace_step io au rp res)
  then show ?thesis using good_mutation [OF replace_endpoint_ok evolves_replace, OF ok ok, of io au rp] by simp
next
  case (move_step mv io au res)
  then show ?thesis using good_atomic [OF move_attachment_ok [OF ok] evolves_move [OF ok], of mv io au] by simp
qed

subsection \<open>Supersession\<close>

definition supersession :: "graph \<Rightarrow> (string \<times> string) set" where
  "supersession g = {(i, j). \<exists>x. find_edge g i = Some x \<and> ed_superseded_by x = Some j}"

definition supersession_ok :: "graph \<Rightarrow> bool" where
  "supersession_ok g \<longleftrightarrow> acyclic (supersession g) \<and>
     (\<forall>i x. find_edge g i = Some x \<longrightarrow> ed_superseded_by x \<noteq> None \<longrightarrow> ended x)"

text \<open>New links lead to relationships without a link of their own, so they close no cycle.\<close>

lemma acyclic_to_sinks:
  assumes "acyclic R" and new: "\<And>a b. (a, b) \<in> S \<Longrightarrow> (a, b) \<in> R \<or> (\<forall>c. (b, c) \<notin> S)"
  shows "acyclic S"
proof -
  have path: "(a, b) \<in> R\<^sup>+ \<or> (\<forall>c. (b, c) \<notin> S)" if "(a, b) \<in> S\<^sup>+" for a b
    using that
  proof (induction rule: trancl_induct)
    case (base b)
    then show ?case using new by blast
  next
    case (step b c)
    then show ?case using new by (meson trancl.trancl_into_trancl)
  qed
  have "\<exists>c. (a, c) \<in> S" if "(a, a) \<in> S\<^sup>+" for a using that by (meson tranclD)
  with path assms(1) show ?thesis unfolding acyclic_def by blast
qed

lemma evolves_supersession:
  assumes ev: "evolves g h" and ok: "supersession_ok g"
  shows "supersession_ok h"
proof -
  have old: "find_edge g i = None \<and> ed_superseded_by y = None \<and> \<not> ended y \<or>
      (\<exists>x. find_edge g i = Some x \<and> (ended x \<longrightarrow> ended y) \<and> links h i x y)" if "find_edge h i = Some y" for i y
    using ev that by (cases "find_edge g i") (force simp: evolves_def split: option.splits)+
  have live: "ended y" if "find_edge h i = Some y" "ed_superseded_by y \<noteq> None" for i y
    using old [OF that(1)] that(2) ok by (auto simp: links_def supersession_ok_def)
  have "(a, b) \<in> supersession g \<or> (\<forall>c. (b, c) \<notin> supersession h)" if ab: "(a, b) \<in> supersession h" for a b
  proof -
    obtain y where y: "find_edge h a = Some y" "ed_superseded_by y = Some b" using ab by (auto simp: supersession_def)
    then obtain x where x: "find_edge g a = Some x" "links h a x y" using old [OF y(1)] by auto
    show ?thesis
    proof (cases "ed_superseded_by y = ed_superseded_by x")
      case True
      then show ?thesis using x y by (auto simp: supersession_def)
    next
      case False
      then obtain z where "find_edge h b = Some z" "\<not> ended z" using x(2) y(2) by (auto simp: links_def)
      then show ?thesis using live by (fastforce simp: supersession_def)
    qed
  qed
  moreover have "acyclic (supersession g)" using ok by (simp add: supersession_ok_def)
  ultimately have "acyclic (supersession h)" by (rule acyclic_to_sinks [rotated]) blast
  with live show ?thesis by (simp add: supersession_ok_def)
qed

subsection \<open>Instances\<close>

definition demo_options :: engine_options where
  "demo_options = sample_options\<lparr>op_directory := Some demo_directory\<rparr>"

end
