(* ===== verification/Validation.thy ===== *)
theory Validation
  imports Diff Relationships
begin

text \<open>
  The consistency report (\<open>validate_graph\<close> in \<open>src/validation.cpp\<close>): the checks on every node and every
  relationship of a scope, the slots that may be taken once, and a three-colour search for cycles in
  each acyclic relation. The theorem states, without the search, which graphs the report accepts.
\<close>

subsection \<open>Reports\<close>

record validation_issue =
  vi_outcome :: outcome
  vi_code :: string
  vi_node :: string
  vi_edge :: string
  vi_detail :: string

record validation_report =
  vr_valid :: bool
  vr_generation :: u64
  vr_nodes :: nat
  vr_edges :: nat
  vr_current_edges :: nat
  vr_non_current_edges :: nat
  vr_issues :: "validation_issue list"

definition add_issue :: "outcome \<Rightarrow> string \<Rightarrow> string \<Rightarrow> string \<Rightarrow> string \<Rightarrow> validation_issue" where
  "add_issue v code n x detail = \<lparr>vi_outcome = v, vi_code = code, vi_node = n, vi_edge = x, vi_detail = detail\<rparr>"

definition issue_key :: "validation_issue \<Rightarrow> string \<times> string \<times> string \<times> string" where
  "issue_key x = (vi_code x, vi_node x, vi_edge x, vi_detail x)"

definition render_report :: "validation_report \<Rightarrow> string" where
  "render_report r =
     ''valid='' @ (if vr_valid r then ''true'' else ''false'') @ '' generation='' @ u64_string (vr_generation r) @
     '' nodes='' @ decimal (vr_nodes r) @ '' edges='' @ decimal (vr_edges r) @
     '' current_edges='' @ decimal (vr_current_edges r) @ '' non_current_edges='' @ decimal (vr_non_current_edges r) @
     '' issues='' @ decimal (length (vr_issues r)) @
     concat (map (\<lambda>x. newline @ ''  '' @ vi_code x @ '' outcome='' @ outcome_string (vi_outcome x) @
       (if vi_node x \<noteq> [] then '' node='' @ vi_node x else []) @
       (if vi_edge x \<noteq> [] then '' edge='' @ vi_edge x else []) @
       (if vi_detail x \<noteq> [] then '' detail='' @ vi_detail x else [])) (vr_issues r))"

definition issue_if :: "bool \<Rightarrow> validation_issue \<Rightarrow> validation_issue list" where
  "issue_if b x = (if b then [x] else [])"

subsection \<open>Nodes\<close>

definition record_issues :: "entity_record \<Rightarrow> node \<Rightarrow> validation_issue list" where
  "record_issues rec n =
     issue_if (er_retired rec) (add_issue O_Retired ''node.entity_retired'' (nd_id n) [] (nd_entity_id n)) @
     issue_if (er_superseded rec) (add_issue O_Superseded ''node.entity_superseded'' (nd_id n) [] (nd_entity_id n)) @
     issue_if (er_entity_class rec \<noteq> nd_entity_class n)
       (add_issue O_IncompatibleEntityClass ''node.entity_class_changed'' (nd_id n) [] (entity_class_string (er_entity_class rec))) @
     issue_if (er_generation rec \<noteq> nd_entity_generation n \<and> nd_lifecycle n = LS_Current)
       (add_issue O_StaleEntityGeneration ''node.entity_generation_stale'' (nd_id n) []
          (''registry='' @ u64_string (er_generation rec) @ '' node='' @ u64_string (nd_entity_generation n)))"

definition node_issues :: "(string \<Rightarrow> entity_record option) option \<Rightarrow> node \<Rightarrow> validation_issue list" where
  "node_issues directory n =
     issue_if (nd_class n = NC_Unknown)
       (add_issue O_StructuralInvariantViolation ''node.class_unknown'' (nd_id n) [] (nd_entity_id n)) @
     issue_if (nd_entity_id n = [])
       (add_issue O_StructuralInvariantViolation ''node.entity_missing'' (nd_id n) [] (nd_id n)) @
     issue_if (nd_generation n = 0)
       (add_issue O_StructuralInvariantViolation ''node.generation_zero'' (nd_id n) [] (nd_id n)) @
     issue_if (nd_entity_class n \<noteq> node_class_entity_class (nd_class n))
       (add_issue O_IncompatibleEntityClass ''node.entity_class_pairing'' (nd_id n) []
          (entity_class_string (nd_entity_class n) @ '' vs '' @ node_class_string (nd_class n))) @
     (case directory of
        None \<Rightarrow> []
      | Some look \<Rightarrow> (case look (nd_entity_id n) of
            None \<Rightarrow> [add_issue O_UnknownEntity ''node.entity_unknown'' (nd_id n) [] (nd_entity_id n)]
          | Some rec \<Rightarrow> record_issues rec n))"

subsection \<open>Relationships\<close>

definition shape_issues :: "edge \<Rightarrow> validation_issue list" where
  "shape_issues x =
     issue_if (ed_from x = ed_to x \<and> \<not> rule_self_edge_allowed (relation_rules (ed_relation x)))
       (add_issue O_InvalidEndpoint ''edge.self_link'' (ed_from x) (ed_id x) (relation_string (ed_relation x))) @
     issue_if (\<not> relation_layer_permitted (ed_relation x) (ed_layer x))
       (add_issue O_StructuralInvariantViolation ''edge.layer_policy'' [] (ed_id x) (layer_string (ed_layer x)))"

definition permitted_cross :: "edge \<Rightarrow> node \<Rightarrow> node \<Rightarrow> bool" where
  "permitted_cross x a b \<longleftrightarrow>
     ed_cross_domain x \<and> (ed_domain x = nd_domain a \<or> ed_secondary_domain x = nd_domain a) \<and>
     (ed_domain x = nd_domain b \<or> ed_secondary_domain x = nd_domain b)"

definition endpoint_issues :: "edge \<Rightarrow> node \<Rightarrow> node \<Rightarrow> validation_issue list" where
  "endpoint_issues x a b =
     issue_if (\<not> relation_endpoints_permitted (ed_relation x) (nd_class a) (nd_class b))
       (add_issue O_IncompatibleEntityClass ''edge.endpoint_class_pairing'' [] (ed_id x)
          (render_relation (ed_relation x) (nd_class a) (nd_class b))) @
     issue_if ((ed_domain x \<noteq> nd_domain a \<or> ed_domain x \<noteq> nd_domain b) \<and> \<not> permitted_cross x a b)
       (add_issue O_DomainViolation ''edge.cross_domain_undeclared'' [] (ed_id x) (ed_domain x)) @
     issue_if (ed_lifecycle x = LS_Current \<and> (ed_from_entity_generation x \<noteq> nd_entity_generation a \<or>
         ed_to_entity_generation x \<noteq> nd_entity_generation b))
       (add_issue O_StaleEntityGeneration ''edge.endpoint_generation_stale'' [] (ed_id x) (ed_id x)) @
     issue_if (ed_lifecycle x = LS_Current \<and> (nd_lifecycle a \<noteq> LS_Current \<or> nd_lifecycle b \<noteq> LS_Current))
       (add_issue O_StructuralInvariantViolation ''edge.endpoint_not_current'' [] (ed_id x) (ed_id x))"

definition reference_issues :: "(string, edge) mapping \<Rightarrow> edge \<Rightarrow> validation_issue list" where
  "reference_issues edges x =
     (case ed_supported_by x of
        None \<Rightarrow> []
      | Some j \<Rightarrow> (case Mapping.lookup edges j of
            None \<Rightarrow> [add_issue O_StructuralInvariantViolation ''edge.support_missing'' [] (ed_id x) j]
          | Some y \<Rightarrow> issue_if (ed_layer x = Logical \<and> ed_layer y \<noteq> Physical)
              (add_issue O_StructuralInvariantViolation ''edge.support_not_physical'' [] (ed_id x) (ed_id y)))) @
     issue_if (ed_superseded_by x = Some (ed_id x))
       (add_issue O_StructuralInvariantViolation ''edge.self_supersede'' [] (ed_id x) (ed_id x))"

text \<open>A slot that may be taken once: the first relationship takes it, a later one is an issue.\<close>

definition claim :: "string \<Rightarrow> string \<Rightarrow> (string \<Rightarrow> validation_issue) \<Rightarrow> (string, string) mapping \<Rightarrow>
    validation_issue list \<times> (string, string) mapping" where
  "claim slot i issue_of m =
     (case Mapping.lookup m slot of
        Some j \<Rightarrow> ([issue_of j], m)
      | None \<Rightarrow> ([], Mapping.update slot i m))"

record edge_scan =
  es_keys :: "(string, string) mapping"
  es_exclusive :: "(string, string) mapping"
  es_slots :: "(string, string) mapping"
  es_issues :: "validation_issue list"

definition attachment_slot :: "edge \<Rightarrow> string \<Rightarrow> string" where
  "attachment_slot x a = ed_from x @ ''|'' @ a"

definition claim_attachment :: "edge \<Rightarrow> edge_scan \<Rightarrow> edge_scan" where
  "claim_attachment x s =
     (case ed_attachment x of
        None \<Rightarrow> s
      | Some a \<Rightarrow>
          if ed_lifecycle x = LS_Current \<and> ed_relation x = RC_AttachedTo
          then let (taken, exclusive) = claim a (ed_id x)
                 (\<lambda>_. add_issue O_RelationshipConflict ''attachment.duplicate_exclusive'' [] (ed_id x) a) (es_exclusive s);
               (doubled, slots) = claim (attachment_slot x a) (ed_id x)
                 (\<lambda>_. add_issue O_RelationshipConflict ''attachment.multiple_current'' [] (ed_id x) (attachment_slot x a)) (es_slots s)
            in s\<lparr>es_exclusive := exclusive, es_slots := slots, es_issues := es_issues s @ taken @ doubled\<rparr>
          else s)"

definition scan_edge :: "bool \<Rightarrow> (string, node) mapping \<Rightarrow> (string, edge) mapping \<Rightarrow> edge \<Rightarrow> edge_scan \<Rightarrow> edge_scan" where
  "scan_edge whole nodes edges x s =
     (if ed_relation x = RC_Unknown
      then s\<lparr>es_issues := es_issues s @
             [add_issue O_StructuralInvariantViolation ''edge.relation_unknown'' [] (ed_id x) (ed_id x)]\<rparr>
      else
        let (doubled, keys) = claim (render_edge_key (edge_key_of x)) (ed_id x)
              (\<lambda>j. add_issue O_DuplicateEdge ''edge.duplicate_authoritative'' [] (ed_id x) j) (es_keys s);
            t = s\<lparr>es_keys := keys, es_issues := es_issues s @ shape_issues x @ doubled\<rparr> in
        case (Mapping.lookup nodes (ed_from x), Mapping.lookup nodes (ed_to x)) of
          (Some a, Some b) \<Rightarrow>
            claim_attachment x (t\<lparr>es_issues := es_issues t @ endpoint_issues x a b @ reference_issues edges x\<rparr>)
        | _ \<Rightarrow> t\<lparr>es_issues := es_issues t @ issue_if whole
              (add_issue O_StructuralInvariantViolation ''edge.orphan'' [] (ed_id x) (ed_from x @ ''->'' @ ed_to x))\<rparr>)"

definition empty_scan :: edge_scan where
  "empty_scan = \<lparr>es_keys = Mapping.empty, es_exclusive = Mapping.empty, es_slots = Mapping.empty, es_issues = []\<rparr>"

subsection \<open>Cycles\<close>

text \<open>The adjacency of one relation is a finite table (an association list, in the order the entries were
  first met); every entry is sorted and without duplicates.\<close>

type_synonym adjacency = "(string \<times> string list) list"

definition targets :: "adjacency \<Rightarrow> string \<Rightarrow> string list" where
  "targets adj n = (case map_of adj n of None \<Rightarrow> [] | Some ts \<Rightarrow> ts)"

definition add_target :: "relation_class \<Rightarrow> edge \<Rightarrow> adjacency \<Rightarrow> adjacency" where
  "add_target relation x adj =
     (if cycle_edge_active relation x then AList.update (ed_from x) (targets adj (ed_from x) @ [ed_to x]) adj else adj)"

definition adjacency_of :: "relation_class \<Rightarrow> edge list \<Rightarrow> adjacency" where
  "adjacency_of relation edges =
     map (\<lambda>(n, ts). (n, remdups_adj (sort ts))) (fold (add_target relation) edges [])"

datatype mark = White | Grey | Black

definition mark_of :: "(string, mark) mapping \<Rightarrow> string \<Rightarrow> mark" where
  "mark_of marks n = (case Mapping.lookup marks n of None \<Rightarrow> White | Some c \<Rightarrow> c)"

definition known_nodes :: "adjacency \<Rightarrow> string set" where
  "known_nodes adj = fst ` set adj \<union> \<Union> (set ` snd ` set adj)"

definition white_nodes :: "adjacency \<Rightarrow> (string, mark) mapping \<Rightarrow> string set" where
  "white_nodes adj marks = {n \<in> known_nodes adj. mark_of marks n = White}"

lemma finite_known_nodes [simp]: "finite (known_nodes adj)"
  by (simp add: known_nodes_def)

lemma finite_white_nodes [simp]: "finite (white_nodes adj marks)"
  by (simp add: white_nodes_def)

lemma mark_of_update [simp]: "mark_of (Mapping.update n c marks) m = (if m = n then c else mark_of marks m)"
  by (simp add: mark_of_def lookup_simps)

lemma mark_of_empty [simp]: "mark_of Mapping.empty n = White"
  by (simp add: mark_of_def lookup_simps)

lemma targets_known:
  assumes "m \<in> set (targets adj n)"
  shows "m \<in> known_nodes adj"
proof -
  obtain ts where "map_of adj n = Some ts" "m \<in> set ts" using assms by (cases "map_of adj n") (auto simp: targets_def)
  then have "ts \<in> snd ` set adj" by (force dest: map_of_SomeD)
  with \<open>m \<in> set ts\<close> show ?thesis by (auto simp: known_nodes_def)
qed

lemma white_nodes_marked: "c \<noteq> White \<Longrightarrow> white_nodes adj (Mapping.update n c marks) = white_nodes adj marks - {n}"
  by (auto simp: white_nodes_def)

definition work_left :: "adjacency \<Rightarrow> (string \<times> nat) list \<Rightarrow> nat" where
  "work_left adj stack = sum_list (map (\<lambda>(n, k). length (targets adj n) - k + 1) stack)"

text \<open>The stack holds each open node with the index of the next target to look at, top first.\<close>

function cycle_walk :: "adjacency \<Rightarrow> (string \<times> nat) list \<Rightarrow> (string, mark) mapping \<Rightarrow> string list \<Rightarrow>
    (string, mark) mapping \<times> string list" where
  "cycle_walk adj [] marks hits = (marks, hits)"
| "cycle_walk adj ((n, k) # rest) marks hits =
     (if length (targets adj n) \<le> k then cycle_walk adj rest (Mapping.update n Black marks) hits
      else let m = targets adj n ! k; stack = (n, k + 1) # rest in
        case mark_of marks m of
          Grey \<Rightarrow> cycle_walk adj stack marks (hits @ [m])
        | White \<Rightarrow> cycle_walk adj ((m, 0) # stack) (Mapping.update m Grey marks) hits
        | Black \<Rightarrow> cycle_walk adj stack marks hits)"
  by pat_completeness auto

termination
proof (relation "measures [\<lambda>(adj, stack, marks, hits). card (white_nodes adj marks), \<lambda>(adj, stack, marks, hits). work_left adj stack]")
  fix adj n k rest marks hits
  have "card (white_nodes adj (Mapping.update n Black marks)) \<le> card (white_nodes adj marks)"
    by (auto simp: white_nodes_marked intro!: card_mono)
  then show "((adj, rest, Mapping.update n Black marks, hits), (adj, (n, k) # rest, marks, hits))
      \<in> measures [\<lambda>(adj, stack, marks, hits). card (white_nodes adj marks), \<lambda>(adj, stack, marks, hits). work_left adj stack]"
    by (auto simp: work_left_def)
next
  fix adj n k rest and marks :: "(string, mark) mapping" and hits m stack
  assume k: "\<not> length (targets adj n) \<le> k" and m: "m = targets adj n ! k" and "stack = (n, k + 1) # rest"
    and white: "mark_of marks m = White"
  have "m \<in> white_nodes adj marks"
    using k m white targets_known [of m adj n] by (simp add: white_nodes_def)
  then have "card (white_nodes adj marks - {m}) < card (white_nodes adj marks)" by (intro card_Diff1_less) simp_all
  then show "((adj, (m, 0) # stack, Mapping.update m Grey marks, hits), (adj, (n, k) # rest, marks, hits))
      \<in> measures [\<lambda>(adj, stack, marks, hits). card (white_nodes adj marks), \<lambda>(adj, stack, marks, hits). work_left adj stack]"
    by (simp add: white_nodes_marked)
qed (auto simp: work_left_def)

fun cycle_roots :: "adjacency \<Rightarrow> string list \<Rightarrow> (string, mark) mapping \<Rightarrow> string list \<Rightarrow> string list" where
  "cycle_roots adj [] marks hits = hits"
| "cycle_roots adj (n # ns) marks hits =
     (if mark_of marks n \<noteq> White then cycle_roots adj ns marks hits
      else case cycle_walk adj [(n, 0)] (Mapping.update n Grey marks) hits of
          (marks', hits') \<Rightarrow> cycle_roots adj ns marks' hits')"

definition cycle_hits :: "relation_class \<Rightarrow> edge list \<Rightarrow> string list" where
  "cycle_hits relation edges =
     (let adj = adjacency_of relation edges in cycle_roots adj (map fst adj) Mapping.empty [])"

text \<open>The classes from 1 to \<open>kRelationClassCount\<close>.\<close>

definition checked_relations :: "relation_class list" where
  "checked_relations = [RC_ConnectedTo, RC_AttachedTo, RC_Contains, RC_MemberOf, RC_UplinkTo, RC_DownlinkTo, RC_PeersWith,
     RC_BackedBy, RC_TunneledOver, RC_LogicallyConnectedTo, RC_HostedBy, RC_PresentsEndpoint, RC_FabricMembership]"

definition cycle_issues :: "edge list \<Rightarrow> validation_issue list" where
  "cycle_issues edges =
     concat (map (\<lambda>relation. map (\<lambda>n. add_issue O_CycleRejected ''graph.cycle'' n [] (relation_string relation))
         (cycle_hits relation edges))
       (filter (\<lambda>relation. rule_cycle_rule (relation_rules relation) = CR_Acyclic) checked_relations))"

subsection \<open>The report\<close>

definition validate_graph :: "graph \<Rightarrow> (string \<Rightarrow> entity_record option) option \<Rightarrow> snapshot_scope \<Rightarrow> validation_report" where
  "validate_graph g directory scope =
     (let nodes = sorted_nodes g scope; edges = sorted_edges g scope;
          scan = fold (scan_edge (whole_topology scope) (by_id nd_id nodes) (by_id ed_id edges)) edges empty_scan;
          issues = concat (map (node_issues directory) nodes) @ es_issues scan @ cycle_issues edges in
      \<lparr>vr_valid = (issues = []), vr_generation = g_generation g, vr_nodes = length nodes, vr_edges = length edges,
       vr_current_edges = length (filter (\<lambda>x. ed_lifecycle x = LS_Current) edges),
       vr_non_current_edges = length (filter (\<lambda>x. ed_lifecycle x \<noteq> LS_Current) edges),
       vr_issues = sort_key issue_key issues\<rparr>)"

definition validate :: "snapshot_scope \<Rightarrow> engine \<Rightarrow> validation_report" where
  "validate scope e = validate_graph (en_graph e) (en_directory e) scope"

subsection \<open>The search finds a cycle when there is one\<close>

declare cycle_walk.simps(2) [simp del]

lemma walk_pop: "length (targets adj n) \<le> k \<Longrightarrow>
    cycle_walk adj ((n, k) # rest) marks hits = cycle_walk adj rest (Mapping.update n Black marks) hits"
  by (simp add: cycle_walk.simps(2))

lemma walk_look:
  assumes "\<not> length (targets adj n) \<le> k"
  shows "mark_of marks (targets adj n ! k) = Grey \<Longrightarrow>
      cycle_walk adj ((n, k) # rest) marks hits = cycle_walk adj ((n, k + 1) # rest) marks (hits @ [targets adj n ! k])"
    and "mark_of marks (targets adj n ! k) = White \<Longrightarrow> cycle_walk adj ((n, k) # rest) marks hits =
      cycle_walk adj ((targets adj n ! k, 0) # (n, k + 1) # rest) (Mapping.update (targets adj n ! k) Grey marks) hits"
    and "mark_of marks (targets adj n ! k) = Black \<Longrightarrow>
      cycle_walk adj ((n, k) # rest) marks hits = cycle_walk adj ((n, k + 1) # rest) marks hits"
  using assms by (subst cycle_walk.simps, simp add: Let_def)+

text \<open>An induction that follows the run: each rule may assume the statement of the next state.\<close>

lemma walk_induct [case_names stop pop hit push skip]:
  assumes "\<And>marks hits. P [] marks hits"
    and "\<And>n k rest marks hits. length (targets adj n) \<le> k \<Longrightarrow> P rest (Mapping.update n Black marks) hits \<Longrightarrow>
      P ((n, k) # rest) marks hits"
    and "\<And>n k rest marks hits m. k < length (targets adj n) \<Longrightarrow> m = targets adj n ! k \<Longrightarrow> mark_of marks m = Grey \<Longrightarrow>
      P ((n, k + 1) # rest) marks (hits @ [m]) \<Longrightarrow> P ((n, k) # rest) marks hits"
    and "\<And>n k rest marks hits m. k < length (targets adj n) \<Longrightarrow> m = targets adj n ! k \<Longrightarrow> mark_of marks m = White \<Longrightarrow>
      P ((m, 0) # (n, k + 1) # rest) (Mapping.update m Grey marks) hits \<Longrightarrow> P ((n, k) # rest) marks hits"
    and "\<And>n k rest marks hits m. k < length (targets adj n) \<Longrightarrow> m = targets adj n ! k \<Longrightarrow> mark_of marks m = Black \<Longrightarrow>
      P ((n, k + 1) # rest) marks hits \<Longrightarrow> P ((n, k) # rest) marks hits"
  shows "P stack marks hits"
proof -
  have "adj' = adj \<longrightarrow> P stack marks hits" for adj'
  proof (induction adj' stack marks hits rule: cycle_walk.induct)
    case (2 adj' n k rest marks hits)
    then show ?case
      using assms(2-5) by (cases "k < length (targets adj n)"; cases "mark_of marks (targets adj n ! k)") (auto simp: not_less)
  qed (simp add: assms(1))
  then show ?thesis by simp
qed

definition leads_to :: "adjacency \<Rightarrow> (string \<times> string) set" where
  "leads_to adj = {(n, m). m \<in> set (targets adj n)}"

text \<open>The open nodes form a path, and each frame has looked at all targets before its index.\<close>

fun open_path :: "adjacency \<Rightarrow> (string \<times> nat) list \<Rightarrow> bool" where
  "open_path adj [] = True"
| "open_path adj [x] = True"
| "open_path adj (x # y # rest) \<longleftrightarrow> (fst y, fst x) \<in> leads_to adj \<and> open_path adj (y # rest)"

definition greys :: "(string, mark) mapping \<Rightarrow> string set" where "greys marks = {n. mark_of marks n = Grey}"

definition blacks :: "(string, mark) mapping \<Rightarrow> string set" where "blacks marks = {n. mark_of marks n = Black}"

lemma mark_sets_update [simp]:
  "greys (Mapping.update n c marks) = (if c = Grey then insert n (greys marks) else greys marks - {n})"
  "blacks (Mapping.update n c marks) = (if c = Black then insert n (blacks marks) else blacks marks - {n})"
  by (auto simp: greys_def blacks_def)

lemma mark_sets_empty [simp]: "greys Mapping.empty = {}" "blacks Mapping.empty = {}"
  by (simp_all add: greys_def blacks_def)

lemma open_path_index: "open_path adj ((n, k) # rest) = open_path adj ((n, j) # rest)"
  by (cases rest) simp_all

lemma open_path_reaches: "open_path adj ((n, k) # rest) \<Longrightarrow> m \<in> fst ` set rest \<Longrightarrow> (m, n) \<in> (leads_to adj)\<^sup>+"
proof (induction rest arbitrary: n k)
  case (Cons y rest)
  obtain a j where y: "y = (a, j)" by (cases y)
  with Cons.prems have step: "(a, n) \<in> leads_to adj" and "open_path adj ((a, j) # rest)" by auto
  with Cons.IH [of a j] Cons.prems(2) y show ?case by (auto intro: trancl_into_trancl)
qed simp

text \<open>A hit is always a cycle.\<close>

lemma cycle_walk_sound:
  "open_path adj stack \<Longrightarrow> greys marks = fst ` set stack \<Longrightarrow> distinct (map fst stack) \<Longrightarrow> (hits \<noteq> [] \<Longrightarrow> \<not> acyclic (leads_to adj)) \<Longrightarrow>
   cycle_walk adj stack marks hits = (marks', hits') \<Longrightarrow>
   greys marks' = {} \<and> (hits' \<noteq> [] \<longrightarrow> \<not> acyclic (leads_to adj))"
proof (induction stack marks hits rule: walk_induct [where adj = adj])
  case (pop n k rest marks hits)
  have "open_path adj rest" using pop.prems(1) by (cases rest) simp_all
  with pop show ?case by (intro pop.IH) (auto simp: walk_pop)
next
  case (hit n k rest marks hits m)
  have edge: "(n, m) \<in> leads_to adj" using hit.hyps by (simp add: leads_to_def)
  have "m \<in> greys marks" using hit.hyps by (simp add: greys_def)
  then have "m \<in> fst ` set ((n, k) # rest)" using hit.prems(2) by metis
  then have "m = n \<or> (m, n) \<in> (leads_to adj)\<^sup>+" using open_path_reaches [OF hit.prems(1)] by auto
  with edge have "(n, n) \<in> (leads_to adj)\<^sup>+" by (metis r_into_trancl' trancl_into_trancl2)
  then have "\<not> acyclic (leads_to adj)" by (auto simp: acyclic_def)
  with hit open_path_index [of adj n k rest] show ?case by (intro hit.IH) (simp_all add: walk_look)
next
  case (push n k rest marks hits m)
  have "m \<notin> greys marks" using push.hyps by (simp add: greys_def)
  then have "m \<notin> fst ` set ((n, k) # rest)" using push.prems(2) by metis
  moreover have "(n, m) \<in> leads_to adj" using push.hyps by (simp add: leads_to_def)
  ultimately show ?case
    using push open_path_index [of adj n k rest] by (intro push.IH) (simp_all add: walk_look)
next
  case (skip n k rest marks hits m)
  then show ?case using open_path_index [of adj n k rest] by (intro skip.IH) (simp_all add: walk_look)
qed simp

text \<open>A search that hits nothing closes a set of nodes from which no cycle can be reached.\<close>

definition closed_acyclic :: "adjacency \<Rightarrow> string set \<Rightarrow> bool" where
  "closed_acyclic adj B \<longleftrightarrow> leads_to adj `` B \<subseteq> B \<and> acyclic (leads_to adj \<inter> B \<times> UNIV)"

lemma closed_acyclic_insert:
  assumes B: "closed_acyclic adj B" and n: "n \<notin> B" "set (targets adj n) \<subseteq> B"
  shows "closed_acyclic adj (insert n B)"
proof -
  let ?R = "leads_to adj"
  have sub: "?R \<inter> insert n B \<times> UNIV \<subseteq> insert n B \<times> B" using B n(2) by (auto simp: closed_acyclic_def leads_to_def)
  have inB: "(a, b) \<in> (?R \<inter> insert n B \<times> UNIV)\<^sup>+ \<Longrightarrow> b \<in> B \<and> (a \<in> B \<longrightarrow> (a, b) \<in> (?R \<inter> B \<times> UNIV)\<^sup>+)" for a b
  proof (induction rule: trancl_induct)
    case (step b c)
    then have "b \<in> B" "(b, c) \<in> ?R \<inter> B \<times> UNIV" using n(1) by auto
    with step show ?case using sub by (auto intro: trancl_into_trancl)
  qed (use sub in auto)
  then have "acyclic (?R \<inter> insert n B \<times> UNIV)" using B unfolding acyclic_def closed_acyclic_def by blast
  with B n(2) show ?thesis by (auto simp: closed_acyclic_def leads_to_def)
qed

text \<open>Of an open node all targets before its index are done, or are the next open node.\<close>

fun looked_at :: "adjacency \<Rightarrow> string set \<Rightarrow> string set \<Rightarrow> (string \<times> nat) list \<Rightarrow> bool" where
  "looked_at adj B A [] = True"
| "looked_at adj B A ((n, k) # rest) \<longleftrightarrow> set (take k (targets adj n)) \<subseteq> B \<union> A \<and> looked_at adj B {n} rest"

lemma looked_at_mono: "looked_at adj B A stack \<Longrightarrow> B \<subseteq> C \<Longrightarrow> B \<union> A \<subseteq> C \<union> D \<Longrightarrow> looked_at adj C D stack"
  by (induction adj B A stack arbitrary: D rule: looked_at.induct) auto

lemma cycle_walk_hits: "cycle_walk adj stack marks hits = (marks', hits') \<Longrightarrow> hits \<noteq> [] \<Longrightarrow> hits' \<noteq> []"
  by (induction stack marks hits rule: walk_induct [where adj = adj]) (auto simp: walk_pop walk_look)

lemma cycle_walk_complete:
  "cycle_walk adj stack marks hits = (marks', []) \<Longrightarrow> greys marks = fst ` set stack \<Longrightarrow> distinct (map fst stack) \<Longrightarrow>
   closed_acyclic adj (blacks marks) \<Longrightarrow> looked_at adj (blacks marks) {} stack \<Longrightarrow>
   closed_acyclic adj (blacks marks') \<and> blacks marks \<union> fst ` set stack \<subseteq> blacks marks'"
proof (induction stack marks hits rule: walk_induct [where adj = adj])
  case (pop n k rest marks hits)
  have "n \<in> greys marks" using pop.prems(2) by auto
  then have n: "n \<notin> blacks marks" by (simp add: greys_def blacks_def)
  have "set (targets adj n) \<subseteq> blacks marks" using pop.prems(5) pop.hyps by simp
  then have "closed_acyclic adj (insert n (blacks marks))" using closed_acyclic_insert pop.prems(4) n by metis
  moreover have "looked_at adj (insert n (blacks marks)) {} rest"
    using pop.prems(5) by (auto intro: looked_at_mono)
  ultimately have "closed_acyclic adj (blacks marks') \<and> blacks (Mapping.update n Black marks) \<union> fst ` set rest \<subseteq> blacks marks'"
    using pop.prems pop.hyps by (intro pop.IH) (auto simp: walk_pop)
  then show ?case by auto
next
  case (hit n k rest marks hits m)
  then show ?case using cycle_walk_hits [of adj "(n, k + 1) # rest" marks "hits @ [m]"] by (simp add: walk_look)
next
  case (push n k rest marks hits m)
  have m: "m \<notin> greys marks" "m \<notin> blacks marks" using push.hyps by (simp_all add: greys_def blacks_def)
  then have "m \<notin> fst ` set ((n, k) # rest)" using push.prems(2) by metis
  moreover have "looked_at adj (blacks marks) {} ((m, 0) # (n, k + 1) # rest)"
    using push.prems(5) push.hyps by (auto simp: take_Suc_conv_app_nth)
  ultimately have "closed_acyclic adj (blacks marks') \<and>
      blacks (Mapping.update m Grey marks) \<union> fst ` set ((m, 0) # (n, k + 1) # rest) \<subseteq> blacks marks'"
    using push.prems push.hyps m by (intro push.IH) (simp_all add: walk_look)
  then show ?case using m by auto
next
  case (skip n k rest marks hits m)
  have "m \<in> blacks marks" using skip.hyps by (simp add: blacks_def)
  then have "looked_at adj (blacks marks) {} ((n, k + 1) # rest)"
    using skip.prems(5) skip.hyps by (auto simp: take_Suc_conv_app_nth)
  with skip.prems skip.hyps have "closed_acyclic adj (blacks marks') \<and> blacks marks \<union> fst ` set ((n, k + 1) # rest) \<subseteq> blacks marks'"
    by (intro skip.IH) (simp_all add: walk_look)
  then show ?case by simp
qed simp

lemma cycle_roots_sound:
  "greys marks = {} \<Longrightarrow> (hits \<noteq> [] \<Longrightarrow> \<not> acyclic (leads_to adj)) \<Longrightarrow> cycle_roots adj ns marks hits \<noteq> [] \<Longrightarrow>
   \<not> acyclic (leads_to adj)"
proof (induction adj ns marks hits rule: cycle_roots.induct)
  case (2 adj n ns marks hits)
  show ?case
  proof (cases "mark_of marks n = White")
    case True
    obtain marks' hits' where w: "cycle_walk adj [(n, 0)] (Mapping.update n Grey marks) hits = (marks', hits')" by fastforce
    have "greys marks' = {} \<and> (hits' \<noteq> [] \<longrightarrow> \<not> acyclic (leads_to adj))"
      by (rule cycle_walk_sound [OF _ _ _ _ w]) (use "2.prems" in auto)
    with True w "2.prems"(3) "2.IH"(2) [OF _ w [symmetric]] show ?thesis by auto
  next
    case False
    with "2.prems" "2.IH"(1) show ?thesis by auto
  qed
qed simp

lemma cycle_roots_hits: "hits \<noteq> [] \<Longrightarrow> cycle_roots adj ns marks hits \<noteq> []"
proof (induction adj ns marks hits rule: cycle_roots.induct)
  case (2 adj n ns marks hits)
  obtain marks' hits' where w: "cycle_walk adj [(n, 0)] (Mapping.update n Grey marks) hits = (marks', hits')" by fastforce
  with 2 cycle_walk_hits [OF w] show ?case by simp
qed simp

lemma cycle_roots_complete:
  "greys marks = {} \<Longrightarrow> closed_acyclic adj (blacks marks) \<Longrightarrow> cycle_roots adj ns marks hits = [] \<Longrightarrow>
   \<exists>B. closed_acyclic adj B \<and> blacks marks \<union> set ns \<subseteq> B"
proof (induction adj ns marks hits rule: cycle_roots.induct)
  case (2 adj n ns marks hits)
  show ?case
  proof (cases "mark_of marks n = White")
    case True
    obtain marks' hits' where w: "cycle_walk adj [(n, 0)] (Mapping.update n Grey marks) hits = (marks', hits')" by fastforce
    have rest: "cycle_roots adj ns marks' hits' = []" using True w "2.prems"(3) by simp
    have "hits' = []"
    proof (rule ccontr)
      assume "hits' \<noteq> []"
      with cycle_roots_hits rest show False by blast
    qed
    have n: "n \<notin> blacks marks" using True by (simp add: blacks_def)
    have g: "greys marks' = {}"
      using cycle_walk_sound [OF _ _ _ _ w] "2.prems"(1) cycle_walk_hits [OF w] \<open>hits' = []\<close> by auto
    have "closed_acyclic adj (blacks marks') \<and> blacks (Mapping.update n Grey marks) \<union> fst ` set [(n, 0::nat)] \<subseteq> blacks marks'"
      using w \<open>hits' = []\<close> "2.prems" n by (intro cycle_walk_complete [where hits = hits]) auto
    moreover from this obtain B where "closed_acyclic adj B" "blacks marks' \<union> set ns \<subseteq> B"
      using "2.IH"(2) [OF _ w [symmetric] g _ rest] True by auto
    ultimately show ?thesis using n by (intro exI [of _ B]) auto
  next
    case False
    then have "n \<in> blacks marks" using "2.prems"(1) by (cases "mark_of marks n") (auto simp: greys_def blacks_def)
    with False "2.prems" "2.IH"(1) show ?thesis by fastforce
  qed
qed auto

lemma leads_to_add:
  "leads_to (add_target r x adj) = leads_to adj \<union> (if cycle_edge_active r x then {(ed_from x, ed_to x)} else {})"
  by (auto simp: leads_to_def add_target_def targets_def update_conv' split: if_splits option.splits)

lemma leads_to_adjacency:
  "leads_to (adjacency_of r edges) = {(a, b). \<exists>x \<in> set edges. cycle_edge_active r x \<and> ed_from x = a \<and> ed_to x = b}"
proof -
  have "leads_to (fold (add_target r) xs adj) =
      leads_to adj \<union> {(a, b). \<exists>x \<in> set xs. cycle_edge_active r x \<and> ed_from x = a \<and> ed_to x = b}" for xs adj
    by (induction xs arbitrary: adj) (auto simp: leads_to_add)
  moreover have "leads_to (map (\<lambda>(n, ts). (n, remdups_adj (sort ts))) adj) = leads_to adj" for adj
    by (simp add: leads_to_def targets_def map_of_map split: option.split)
  ultimately show ?thesis by (simp add: adjacency_of_def leads_to_def targets_def)
qed

lemma cycle_hits_iff:
  "cycle_hits r edges = [] \<longleftrightarrow> acyclic {(a, b). \<exists>x \<in> set edges. cycle_edge_active r x \<and> ed_from x = a \<and> ed_to x = b}"
proof -
  let ?adj = "adjacency_of r edges"
  have "acyclic (leads_to ?adj)" if none: "cycle_roots ?adj (map fst ?adj) Mapping.empty [] = []"
  proof -
    have "closed_acyclic ?adj (blacks Mapping.empty)" by (simp add: closed_acyclic_def acyclic_def)
    then obtain B where B: "closed_acyclic ?adj B" "fst ` set ?adj \<subseteq> B"
      using cycle_roots_complete [OF _ _ none] by auto
    have "a \<in> fst ` set ?adj" if "(a, b) \<in> leads_to ?adj" for a b
      using that by (cases "map_of ?adj a") (auto simp: leads_to_def targets_def dest: map_of_SomeD intro: rev_image_eqI)
    then have "leads_to ?adj \<subseteq> fst ` set ?adj \<times> UNIV" by auto
    with B have "leads_to ?adj \<inter> B \<times> UNIV = leads_to ?adj" by blast
    with B(1) show ?thesis by (simp add: closed_acyclic_def)
  qed
  moreover have "cycle_roots ?adj (map fst ?adj) Mapping.empty [] = []" if "acyclic (leads_to ?adj)"
    using cycle_roots_sound [of Mapping.empty "[]" ?adj "map fst ?adj"] that by auto
  ultimately show ?thesis unfolding cycle_hits_def Let_def leads_to_adjacency by blast
qed

subsection \<open>What the scan accepts\<close>

definition edge_clean :: "(string, node) mapping \<Rightarrow> (string, edge) mapping \<Rightarrow> edge \<Rightarrow> bool" where
  "edge_clean nodes edges x \<longleftrightarrow> ed_relation x \<noteq> RC_Unknown \<and> shape_issues x = [] \<and>
     (\<exists>a b. Mapping.lookup nodes (ed_from x) = Some a \<and> Mapping.lookup nodes (ed_to x) = Some b \<and>
        endpoint_issues x a b = [] \<and> reference_issues edges x = [])"

definition edge_text :: "edge \<Rightarrow> string" where "edge_text x = render_edge_key (edge_key_of x)"

definition held_attachment :: "edge \<Rightarrow> string option" where
  "held_attachment x = (if ed_lifecycle x = LS_Current \<and> ed_relation x = RC_AttachedTo then ed_attachment x else None)"

definition held_slot :: "edge \<Rightarrow> string option" where
  "held_slot x = map_option (attachment_slot x) (held_attachment x)"

definition unclaimed :: "(string, string) mapping \<Rightarrow> string list \<Rightarrow> bool" where
  "unclaimed m ks \<longleftrightarrow> distinct ks \<and> (\<forall>k \<in> set ks. Mapping.lookup m k = None)"

lemma unclaimed_simps [simp]:
  "unclaimed m []"
  "unclaimed m (k # ks) \<longleftrightarrow> Mapping.lookup m k = None \<and> k \<notin> set ks \<and> unclaimed m ks"
  "unclaimed (Mapping.update k i m) ks \<longleftrightarrow> k \<notin> set ks \<and> unclaimed m ks"
  by (auto simp: unclaimed_def lookup_simps)

lemma issue_if_Nil [simp]: "issue_if b x = [] \<longleftrightarrow> \<not> b"
  by (simp add: issue_if_def)

lemma claim_free: "fst (claim slot i f m) = [] \<longleftrightarrow> Mapping.lookup m slot = None"
  "Mapping.lookup m slot = None \<Longrightarrow> claim slot i f m = ([], Mapping.update slot i m)"
  by (simp_all add: claim_def split: option.split)

definition scan_step :: "edge \<Rightarrow> edge_scan \<Rightarrow> edge_scan" where
  "scan_step x s = s\<lparr>es_keys := Mapping.update (edge_text x) (ed_id x) (es_keys s),
     es_exclusive := (case held_attachment x of None \<Rightarrow> es_exclusive s | Some a \<Rightarrow> Mapping.update a (ed_id x) (es_exclusive s)),
     es_slots := (case held_slot x of None \<Rightarrow> es_slots s | Some a \<Rightarrow> Mapping.update a (ed_id x) (es_slots s)),
     es_issues := []\<rparr>"

definition scan_free :: "edge \<Rightarrow> edge_scan \<Rightarrow> bool" where
  "scan_free x s \<longleftrightarrow> Mapping.lookup (es_keys s) (edge_text x) = None \<and>
     (\<forall>a. held_attachment x = Some a \<longrightarrow> Mapping.lookup (es_exclusive s) a = None) \<and>
     (\<forall>a. held_slot x = Some a \<longrightarrow> Mapping.lookup (es_slots s) a = None)"

lemma claim_attachment_clean:
  "es_issues (claim_attachment x s) = [] \<longleftrightarrow> es_issues s = [] \<and>
     (\<forall>a. held_attachment x = Some a \<longrightarrow> Mapping.lookup (es_exclusive s) a = None) \<and>
     (\<forall>a. held_slot x = Some a \<longrightarrow> Mapping.lookup (es_slots s) a = None)"
  "es_issues (claim_attachment x s) = [] \<Longrightarrow> claim_attachment x s = s\<lparr>
     es_exclusive := (case held_attachment x of None \<Rightarrow> es_exclusive s | Some a \<Rightarrow> Mapping.update a (ed_id x) (es_exclusive s)),
     es_slots := (case held_slot x of None \<Rightarrow> es_slots s | Some a \<Rightarrow> Mapping.update a (ed_id x) (es_slots s))\<rparr>"
  by (auto simp: claim_attachment_def held_attachment_def held_slot_def claim_def Let_def split: option.splits prod.splits if_splits)

lemma scan_edge_clean:
  "es_issues (scan_edge True nodes edges x s) = [] \<longleftrightarrow> es_issues s = [] \<and> edge_clean nodes edges x \<and> scan_free x s"
  "es_issues (scan_edge True nodes edges x s) = [] \<Longrightarrow> scan_edge True nodes edges x s = scan_step x s"
proof -
  have "(es_issues (scan_edge True nodes edges x s) = [] \<longleftrightarrow> es_issues s = [] \<and> edge_clean nodes edges x \<and> scan_free x s) \<and>
      (es_issues (scan_edge True nodes edges x s) = [] \<longrightarrow> scan_edge True nodes edges x s = scan_step x s)"
  proof (cases "ed_relation x = RC_Unknown")
    case True
    then show ?thesis by (simp add: scan_edge_def edge_clean_def)
  next
    case known: False
    show ?thesis
    proof (cases "Mapping.lookup nodes (ed_from x) = None \<or> Mapping.lookup nodes (ed_to x) = None")
      case True
      with known show ?thesis
        by (auto simp: scan_edge_def edge_clean_def Let_def issue_if_def split: prod.split option.split)
    next
      case False
      then obtain a b where ab: "Mapping.lookup nodes (ed_from x) = Some a" "Mapping.lookup nodes (ed_to x) = Some b" by auto
      show ?thesis
      proof (cases "Mapping.lookup (es_keys s) (edge_text x)")
        case (Some j)
        with known ab show ?thesis
          by (simp add: scan_edge_def claim_def edge_text_def claim_attachment_clean(1) scan_free_def)
      next
        case None
        let ?t = "s\<lparr>es_keys := Mapping.update (edge_text x) (ed_id x) (es_keys s),
          es_issues := es_issues s @ shape_issues x @ endpoint_issues x a b @ reference_issues edges x\<rparr>"
        have "scan_edge True nodes edges x s = claim_attachment x ?t"
          using known ab None by (simp add: scan_edge_def claim_def edge_text_def)
        with known ab None show ?thesis
          using claim_attachment_clean(1) [of x ?t] claim_attachment_clean(2) [of x ?t]
          by (auto simp: edge_clean_def scan_free_def scan_step_def split: option.splits)
      qed
    qed
  qed
  then show "es_issues (scan_edge True nodes edges x s) = [] \<longleftrightarrow> es_issues s = [] \<and> edge_clean nodes edges x \<and> scan_free x s"
    "es_issues (scan_edge True nodes edges x s) = [] \<Longrightarrow> scan_edge True nodes edges x s = scan_step x s" by blast+
qed

lemma scan_clean:
  "es_issues (fold (scan_edge True nodes edges) xs s) = [] \<longleftrightarrow>
     es_issues s = [] \<and> (\<forall>x \<in> set xs. edge_clean nodes edges x) \<and> unclaimed (es_keys s) (map edge_text xs) \<and>
     unclaimed (es_exclusive s) (List.map_filter held_attachment xs) \<and> unclaimed (es_slots s) (List.map_filter held_slot xs)"
proof (induction xs arbitrary: s)
  case (Cons x xs)
  show ?case
  proof (cases "es_issues (scan_edge True nodes edges x s) = []")
    case True
    then have c: "es_issues s = []" "edge_clean nodes edges x" "scan_free x s" by (simp_all add: scan_edge_clean(1))
    have "held_slot x = None \<longleftrightarrow> held_attachment x = None" by (simp add: held_slot_def)
    then show ?thesis
      using c by (auto simp: Cons.IH scan_edge_clean(2) [OF True] scan_step_def scan_free_def List.map_filter_simps
          split: option.splits)
  next
    case False
    then have "\<not> (es_issues s = [] \<and> edge_clean nodes edges x \<and> scan_free x s)" by (simp add: scan_edge_clean(1))
    with False show ?thesis
      by (auto simp: Cons.IH scan_free_def List.map_filter_simps split: option.splits)
  qed
qed (simp add: List.map_filter_simps)

subsection \<open>What the report accepts\<close>

definition node_sound :: "(string \<Rightarrow> entity_record option) option \<Rightarrow> node \<Rightarrow> bool" where
  "node_sound directory n \<longleftrightarrow> nd_class n \<noteq> NC_Unknown \<and> nd_entity_id n \<noteq> [] \<and> nd_generation n \<noteq> 0 \<and>
     nd_entity_class n = node_class_entity_class (nd_class n) \<and>
     (\<forall>look. directory = Some look \<longrightarrow> (\<exists>rec. look (nd_entity_id n) = Some rec \<and> \<not> er_retired rec \<and> \<not> er_superseded rec \<and>
        er_entity_class rec = nd_entity_class n \<and> (nd_lifecycle n = LS_Current \<longrightarrow> er_generation rec = nd_entity_generation n)))"

definition edge_sound :: "graph \<Rightarrow> edge \<Rightarrow> bool" where
  "edge_sound g x \<longleftrightarrow> ed_relation x \<noteq> RC_Unknown \<and> ed_from x \<noteq> ed_to x \<and>
     relation_layer_permitted (ed_relation x) (ed_layer x) \<and> ed_superseded_by x \<noteq> Some (ed_id x) \<and>
     (\<forall>j. ed_supported_by x = Some j \<longrightarrow>
        (\<exists>y. find_edge g j = Some y \<and> (ed_layer x = Logical \<longrightarrow> ed_layer y = Physical))) \<and>
     (\<exists>a b. find_node g (ed_from x) = Some a \<and> find_node g (ed_to x) = Some b \<and>
        relation_endpoints_permitted (ed_relation x) (nd_class a) (nd_class b) \<and>
        (ed_domain x = nd_domain a \<and> ed_domain x = nd_domain b \<or> permitted_cross x a b) \<and>
        (ed_lifecycle x = LS_Current \<longrightarrow> ed_from_entity_generation x = nd_entity_generation a \<and>
           ed_to_entity_generation x = nd_entity_generation b \<and> nd_lifecycle a = LS_Current \<and> nd_lifecycle b = LS_Current))"

definition edges_apart :: "edge \<Rightarrow> edge \<Rightarrow> bool" where
  "edges_apart x y \<longleftrightarrow> edge_text x \<noteq> edge_text y \<and> (held_attachment x = None \<or> held_attachment x \<noteq> held_attachment y) \<and>
     (held_slot x = None \<or> held_slot x \<noteq> held_slot y)"

lemma node_issues_iff: "node_issues directory n = [] \<longleftrightarrow> node_sound directory n"
  by (auto simp: node_issues_def record_issues_def node_sound_def split: option.splits)

lemma scope_all_everything [simp]: "node_in_scope n scope_all" "edge_in_scope x scope_all" "whole_topology scope_all"
  by (simp_all add: node_in_scope_def edge_in_scope_def scope_all_def)

lemma all_listed:
  assumes "graph_inv g"
  shows "set (sorted_nodes g scope_all) = {n. find_node g (nd_id n) = Some n}"
    and "set (sorted_edges g scope_all) = {x. find_edge g (ed_id x) = Some x}"
    and "distinct (sorted_edges g scope_all)"
    and "Mapping.lookup (by_id nd_id (sorted_nodes g scope_all)) i = find_node g i"
    and "Mapping.lookup (by_id ed_id (sorted_edges g scope_all)) j = find_edge g j"
proof -
  show n: "set (sorted_nodes g scope_all) = {n. find_node g (nd_id n) = Some n}" using set_sorted_nodes [OF assms] by auto
  show x: "set (sorted_edges g scope_all) = {x. find_edge g (ed_id x) = Some x}" using set_sorted_edges [OF assms] by auto
  show "distinct (sorted_edges g scope_all)" using sorted_listing_ids(1) [OF assms, of scope_all] by (simp add: strict_sorted_iff distinct_map)
  show "Mapping.lookup (by_id nd_id (sorted_nodes g scope_all)) i = find_node g i"
  proof (cases "find_node g i")
    case None
    then have "\<nexists>n. n \<in> set (sorted_nodes g scope_all) \<and> nd_id n = i" by (auto simp: n)
    with None show ?thesis by (auto simp: lookup_by_id find_None_iff)
  next
    case (Some m)
    then have "m \<in> set (sorted_nodes g scope_all)" "nd_id m = i" using graph_inv_node_ids [OF assms] by (auto simp: n)
    then have "find (\<lambda>n. nd_id n = i) (sorted_nodes g scope_all) \<noteq> None" by (auto simp: find_None_iff)
    then obtain k where k: "find (\<lambda>n. nd_id n = i) (sorted_nodes g scope_all) = Some k" by auto
    then have "k \<in> set (sorted_nodes g scope_all)" "nd_id k = i" by (auto simp: find_Some_iff)
    with Some k show ?thesis by (simp add: n lookup_by_id)
  qed
  show "Mapping.lookup (by_id ed_id (sorted_edges g scope_all)) j = find_edge g j"
  proof (cases "find_edge g j")
    case None
    then have "\<nexists>n. n \<in> set (sorted_edges g scope_all) \<and> ed_id n = j" by (auto simp: x)
    with None show ?thesis by (auto simp: lookup_by_id find_None_iff)
  next
    case (Some m)
    then have "m \<in> set (sorted_edges g scope_all)" "ed_id m = j" using graph_inv_ids [OF assms] by (auto simp: x)
    then have "find (\<lambda>n. ed_id n = j) (sorted_edges g scope_all) \<noteq> None" by (auto simp: find_None_iff)
    then obtain k where k: "find (\<lambda>n. ed_id n = j) (sorted_edges g scope_all) = Some k" by auto
    then have "k \<in> set (sorted_edges g scope_all)" "ed_id k = j" by (auto simp: find_Some_iff)
    with Some k show ?thesis by (simp add: x lookup_by_id)
  qed
qed

lemma edge_clean_iff:
  assumes inv: "graph_inv g"
  shows "edge_clean (by_id nd_id (sorted_nodes g scope_all)) (by_id ed_id (sorted_edges g scope_all)) x \<longleftrightarrow> edge_sound g x"
  unfolding edge_clean_def all_listed(4) [OF inv]
  by (auto simp: edge_sound_def shape_issues_def endpoint_issues_def reference_issues_def all_listed(5) [OF inv] split: option.splits)

lemma distinct_filtered:
  assumes "distinct xs"
  shows "distinct (List.map_filter f xs) \<longleftrightarrow> (\<forall>x \<in> set xs. \<forall>y \<in> set xs. x \<noteq> y \<longrightarrow> f x = None \<or> f x \<noteq> f y)"
proof -
  have "distinct xs \<Longrightarrow> distinct (List.map_filter f xs) \<longleftrightarrow>
      (\<forall>x y z. x \<in> set xs \<longrightarrow> y \<in> set xs \<longrightarrow> f x = Some z \<longrightarrow> f y = Some z \<longrightarrow> x = y)"
    by (induction xs) (auto simp: List.map_filter_simps set_map_filter split: option.splits)
  then have "distinct (List.map_filter f xs) \<longleftrightarrow>
      (\<forall>x y z. x \<in> set xs \<longrightarrow> y \<in> set xs \<longrightarrow> f x = Some z \<longrightarrow> f y = Some z \<longrightarrow> x = y)" using assms .
  also have "\<dots> \<longleftrightarrow> (\<forall>x \<in> set xs. \<forall>y \<in> set xs. x \<noteq> y \<longrightarrow> f x = None \<or> f x \<noteq> f y)"
  proof (intro iffI ballI allI impI)
    fix x y assume "\<forall>x y z. x \<in> set xs \<longrightarrow> y \<in> set xs \<longrightarrow> f x = Some z \<longrightarrow> f y = Some z \<longrightarrow> x = y"
      and "x \<in> set xs" "y \<in> set xs" "x \<noteq> y"
    then show "f x = None \<or> f x \<noteq> f y" by (metis not_None_eq)
  next
    fix x y z assume all: "\<forall>x \<in> set xs. \<forall>y \<in> set xs. x \<noteq> y \<longrightarrow> f x = None \<or> f x \<noteq> f y"
      and xy: "x \<in> set xs" "y \<in> set xs" "f x = Some z" "f y = Some z"
    show "x = y"
    proof (rule ccontr)
      assume "x \<noteq> y"
      with all xy have "f x = None \<or> f x \<noteq> f y" by blast
      with xy show False by simp
    qed
  qed
  finally show ?thesis .
qed

lemma stored_pairs:
  assumes inv: "graph_inv g"
  shows "(\<forall>x \<in> set (sorted_edges g scope_all). \<forall>y \<in> set (sorted_edges g scope_all). x \<noteq> y \<longrightarrow> P x y) \<longleftrightarrow>
    (\<forall>i j x y. find_edge g i = Some x \<longrightarrow> find_edge g j = Some y \<longrightarrow> i \<noteq> j \<longrightarrow> P x y)"
proof (intro iffI allI ballI impI)
  fix i j x y assume "\<forall>x \<in> set (sorted_edges g scope_all). \<forall>y \<in> set (sorted_edges g scope_all). x \<noteq> y \<longrightarrow> P x y"
    and xy: "find_edge g i = Some x" "find_edge g j = Some y" "i \<noteq> j"
  moreover have "ed_id x = i" "ed_id y = j" using graph_inv_ids [OF inv] xy by blast+
  ultimately show "P x y" by (auto simp: all_listed(2) [OF inv])
next
  fix x y assume all: "\<forall>i j x y. find_edge g i = Some x \<longrightarrow> find_edge g j = Some y \<longrightarrow> i \<noteq> j \<longrightarrow> P x y"
    and "x \<in> set (sorted_edges g scope_all)" "y \<in> set (sorted_edges g scope_all)" and xy: "x \<noteq> y"
  then have f: "find_edge g (ed_id x) = Some x" "find_edge g (ed_id y) = Some y" by (simp_all add: all_listed(2) [OF inv])
  with xy have "ed_id x \<noteq> ed_id y" by auto
  with all f show "P x y" by blast
qed

lemma cycle_issues_iff:
  assumes inv: "graph_inv g"
    and known: "\<And>i x. find_edge g i = Some x \<Longrightarrow> ed_relation x \<noteq> RC_Unknown"
  shows "cycle_issues (sorted_edges g scope_all) = [] \<longleftrightarrow> acyclic_relations_hold g"
proof -
  have "{(a, b). \<exists>x \<in> set (sorted_edges g scope_all). cycle_edge_active r x \<and> ed_from x = a \<and> ed_to x = b} = depends g r" for r
    using graph_inv_ids [OF inv] by (fastforce simp: all_listed(2) [OF inv] depends_def)
  then have hits: "cycle_hits r (sorted_edges g scope_all) = [] \<longleftrightarrow> acyclic (depends g r)" for r
    by (simp add: cycle_hits_iff)
  have "depends g RC_Unknown = {}" using known by (auto simp: depends_def cycle_edge_active_def)
  then have "r \<in> set checked_relations \<or> acyclic (depends g r)" for r
    by (cases r) (simp_all add: checked_relations_def acyclic_def)
  then show ?thesis by (auto simp: cycle_issues_def acyclic_relations_hold_def hits)
qed

lemma listed_all:
  assumes inv: "graph_inv g"
  shows "(\<forall>n \<in> set (sorted_nodes g scope_all). P n) \<longleftrightarrow> (\<forall>i n. find_node g i = Some n \<longrightarrow> P n)"
    and "(\<forall>x \<in> set (sorted_edges g scope_all). Q x) \<longleftrightarrow> (\<forall>i x. find_edge g i = Some x \<longrightarrow> Q x)"
  using graph_inv_ids [OF inv] graph_inv_node_ids [OF inv] by (force simp: all_listed [OF inv])+

lemma report_valid:
  assumes inv: "graph_inv g"
  shows "vr_valid (validate_graph g directory scope_all) \<longleftrightarrow>
    (\<forall>n \<in> set (sorted_nodes g scope_all). node_sound directory n) \<and> (\<forall>x \<in> set (sorted_edges g scope_all). edge_sound g x) \<and>
    (\<forall>x \<in> set (sorted_edges g scope_all). \<forall>y \<in> set (sorted_edges g scope_all). x \<noteq> y \<longrightarrow> edges_apart x y) \<and>
    acyclic_relations_hold g"
proof -
  let ?N = "sorted_nodes g scope_all" and ?E = "sorted_edges g scope_all"
  have texts: "distinct (map edge_text ?E) \<longleftrightarrow> (\<forall>x \<in> set ?E. \<forall>y \<in> set ?E. x \<noteq> y \<longrightarrow> edge_text x \<noteq> edge_text y)"
    using all_listed(3) [OF inv] by (auto simp: distinct_map inj_on_def)
  have apart: "unclaimed Mapping.empty (map edge_text ?E) \<and> unclaimed Mapping.empty (List.map_filter held_attachment ?E) \<and>
      unclaimed Mapping.empty (List.map_filter held_slot ?E) \<longleftrightarrow> (\<forall>x \<in> set ?E. \<forall>y \<in> set ?E. x \<noteq> y \<longrightarrow> edges_apart x y)"
    unfolding unclaimed_def distinct_filtered [OF all_listed(3) [OF inv]] texts edges_apart_def
    by (simp add: lookup_simps imp_conjR ball_conj_distrib)
  have cycles: "cycle_issues ?E = [] \<longleftrightarrow> acyclic_relations_hold g" if "\<forall>x \<in> set ?E. edge_sound g x"
    using that unfolding listed_all(2) [OF inv] by (intro cycle_issues_iff [OF inv]) (simp add: edge_sound_def)
  show ?thesis
    using cycles unfolding apart [symmetric]
    by (auto simp: validate_graph_def Let_def scan_clean empty_scan_def edge_clean_iff [OF inv] node_issues_iff)
qed

lemma report_validD:
  assumes "graph_inv g" "vr_valid (validate_graph g directory scope_all)"
  shows "find_node g i = Some n \<Longrightarrow> node_sound directory n" "find_edge g i = Some x \<Longrightarrow> edge_sound g x"
    "acyclic_relations_hold g"
  using assms(2) unfolding report_valid [OF assms(1)] listed_all [OF assms(1)] by blast+

text \<open>C9: on a consistent graph the report over the whole topology is valid exactly if every node has
  a known class paired with its entity class, a generation that is not zero and, where the engine
  has a registry, an identity that is live there, and is bound to the registered generation while
  it is current; no relationship is superseded by itself; every relationship joins two stored
  nodes as its relation, layer and domains permit, is bound to their generations and lies between
  current nodes while it is current, and is supported by a stored relationship of the right layer;
  no two relationships share a rendered key or a held attachment; and no acyclic relation has a
  cycle.\<close>

theorem validate_graph_accepts_iff:
  assumes inv: "graph_inv g"
  shows "vr_valid (validate_graph g directory scope_all) \<longleftrightarrow>
    (\<forall>i n. find_node g i = Some n \<longrightarrow> node_sound directory n) \<and>
    (\<forall>i x. find_edge g i = Some x \<longrightarrow> edge_sound g x) \<and>
    (\<forall>i j x y. find_edge g i = Some x \<longrightarrow> find_edge g j = Some y \<longrightarrow> i \<noteq> j \<longrightarrow> edges_apart x y) \<and>
    acyclic_relations_hold g"
  unfolding report_valid [OF inv] stored_pairs [OF inv] unfolding listed_all [OF inv] by (rule refl)

theorem validate_graph_accepts_iff_witness:
  "vr_valid (validate_graph demo_graph None scope_all)"
proof -
  have "graph_inv demo_graph" using demo_graph_ok by (simp add: graph_ok_def)
  then show ?thesis
    using demo_graph_ok
    by (simp add: validate_graph_accepts_iff demo_graph_find node_sound_def graph_ok_def demo_node_def)
qed

end
