(* ===== verification/Publication.thy ===== *)
theory Publication
  imports Validation Rebind
begin

text \<open>
  Publications (\<open>publication.hpp\<close>, \<open>TopologyEngine::publish\<close> in \<open>src/reconciliation.cpp\<close>): a batch of
  observed nodes and relationships of one domain is applied to a copy of the graph, entry by entry;
  an authoritative snapshot then removes what the batch does not mention. The copy replaces the
  graph only if the full validation accepts it and it could be written; every refusal drops it.
\<close>

subsection \<open>Publications and results\<close>

record observed_node =
  on_node_id :: string
  on_entity_id :: string
  on_class :: node_class
  on_tier :: topology_tier
  on_domain :: string
  on_entity_generation :: u64
  on_metadata :: metadata
  on_present :: bool

record observed_edge =
  oe_edge_id :: "string option"
  oe_relationship_id :: string
  oe_relation :: relation_class
  oe_from :: string
  oe_to :: string
  oe_layer :: "topology_layer option"
  oe_domain :: string
  oe_evidence_generation :: u64
  oe_source_relationship_id :: string
  oe_supported_by :: "string option"
  oe_attachment :: "string option"
  oe_exclusive_attachment :: bool
  oe_metadata :: metadata
  oe_present :: bool

record publication =
  pu_id :: string
  pu_domain :: string
  pu_scope_kind :: scope_kind
  pu_mode :: publication_mode
  pu_type :: publication_type
  pu_source :: discovery_source
  pu_expected_generation :: u64
  pu_evidence_generation :: u64
  pu_declared_absent :: "string list"
  pu_nodes :: "observed_node list"
  pu_edges :: "observed_edge list"
  pu_note :: string

record publication_counts =
  pc_nodes_added :: nat
  pc_nodes_updated :: nat
  pc_nodes_removed :: nat
  pc_nodes_unchanged :: nat
  pc_edges_added :: nat
  pc_edges_updated :: nat
  pc_edges_removed :: nat
  pc_edges_superseded :: nat
  pc_edges_unchanged :: nat
  pc_edges_conflicted :: nat
  pc_edges_rejected :: nat

definition no_counts :: publication_counts where
  "no_counts = \<lparr>pc_nodes_added = 0, pc_nodes_updated = 0, pc_nodes_removed = 0, pc_nodes_unchanged = 0,
     pc_edges_added = 0, pc_edges_updated = 0, pc_edges_removed = 0, pc_edges_superseded = 0,
     pc_edges_unchanged = 0, pc_edges_conflicted = 0, pc_edges_rejected = 0\<rparr>"

record publication_result =
  pr_status :: status
  pr_generation :: u64
  pr_diff :: topology_diff
  pr_counts :: publication_counts
  pr_generation_advanced :: bool

definition publication_committed :: "publication_result \<Rightarrow> bool" where
  "publication_committed r = outcome_is_success (outcome_of (pr_status r))"

definition render_publication :: "publication_result \<Rightarrow> string" where
  "render_publication r =
     (let c = pr_counts r in
      render_status (pr_status r) @ newline @ ''generation='' @ u64_string (pr_generation r) @
      '' nodes_added='' @ decimal (pc_nodes_added c) @ '' nodes_updated='' @ decimal (pc_nodes_updated c) @
      '' nodes_removed='' @ decimal (pc_nodes_removed c) @ '' nodes_unchanged='' @ decimal (pc_nodes_unchanged c) @
      '' edges_added='' @ decimal (pc_edges_added c) @ '' edges_updated='' @ decimal (pc_edges_updated c) @
      '' edges_removed='' @ decimal (pc_edges_removed c) @ '' edges_superseded='' @ decimal (pc_edges_superseded c) @
      '' edges_unchanged='' @ decimal (pc_edges_unchanged c) @ '' edges_conflicted='' @ decimal (pc_edges_conflicted c) @
      '' edges_rejected='' @ decimal (pc_edges_rejected c) @ '' diff_entries='' @ decimal (length (td_entries (pr_diff r))) @
      '' generation_advanced='' @ (if pr_generation_advanced r then ''true'' else ''false''))"

subsection \<open>The batch\<close>

text \<open>The local variables of the handler: the copy of the graph, the diff, the sets of what has been
  seen and mentioned, and the counters.\<close>

record batch =
  ba_graph :: graph
  ba_diff :: "diff_entry list"
  ba_node_ids :: "string set"
  ba_entity_ids :: "string set"
  ba_edge_keys :: "string set"
  ba_relationship_ids :: "string set"
  ba_mentioned_edges :: "string set"
  ba_mentioned_nodes :: "string set"
  ba_counts :: publication_counts
  ba_stale :: nat
  ba_stale_detail :: string

definition start_batch :: "graph \<Rightarrow> batch" where
  "start_batch g = \<lparr>ba_graph = g, ba_diff = [], ba_node_ids = {}, ba_entity_ids = {}, ba_edge_keys = {},
     ba_relationship_ids = {}, ba_mentioned_edges = {}, ba_mentioned_nodes = {}, ba_counts = no_counts,
     ba_stale = 0, ba_stale_detail = []\<rparr>"

definition step_batch :: "graph \<Rightarrow> diff_entry list \<Rightarrow> (publication_counts \<Rightarrow> publication_counts) \<Rightarrow> batch \<Rightarrow> batch" where
  "step_batch g d tally b = b\<lparr>ba_graph := g, ba_diff := ba_diff b @ d, ba_counts := tally (ba_counts b)\<rparr>"

text \<open>The loop over the entries stops at the first rejection.\<close>

fun each_entry :: "('a \<Rightarrow> batch \<Rightarrow> status + batch) \<Rightarrow> 'a list \<Rightarrow> batch \<Rightarrow> status + batch" where
  "each_entry f [] b = Inr b"
| "each_entry f (x # xs) b = (case f x b of Inl s \<Rightarrow> Inl s | Inr c \<Rightarrow> each_entry f xs c)"

definition entry_domain :: "string \<Rightarrow> publication \<Rightarrow> string" where
  "entry_domain d p = (if d = [] then pu_domain p else d)"

subsection \<open>Observed nodes\<close>

definition published_entity :: "engine \<Rightarrow> observed_node \<Rightarrow> status + entity_record" where
  "published_entity e o' =
     (case engine_lookup e (on_entity_id o') of
        None \<Rightarrow> Inl (explain O_UnknownEntity ''publication.node_entity_unknown'' [(''entity_id'', on_entity_id o')])
      | Some rec \<Rightarrow>
          if er_retired rec \<or> er_superseded rec
          then Inl (explain (if er_retired rec then O_Retired else O_Superseded) ''publication.node_entity_not_live''
                 ((''entity_id'', on_entity_id o') #
                  (if er_superseded_by rec \<noteq> [] then [(''superseded_by'', er_superseded_by rec)] else [])))
          else if node_class_entity_class (on_class o') = EC_Unknown \<or>
                  er_entity_class rec \<noteq> node_class_entity_class (on_class o')
          then Inl (explain O_IncompatibleEntityClass ''publication.node_entity_class_mismatch''
                 [(''entity_id'', on_entity_id o'), (''registry_class'', entity_class_string (er_entity_class rec)),
                  (''node_class'', node_class_string (on_class o'))])
          else Inr rec)"

definition published_provenance :: "authority_context \<Rightarrow> publication \<Rightarrow> string \<Rightarrow> u64 \<Rightarrow> provenance" where
  "published_provenance au p source_id v =
     \<lparr>pv_publisher = au_publisher au, pv_worker_boot = au_worker_boot au, pv_coordinator_epoch = au_coordinator_epoch au,
      pv_source = pu_source p, pv_evidence_type = pu_type p, pv_evidence_generation = pu_evidence_generation p,
      pv_source_relationship_id = source_id, pv_publication = pu_id p, pv_created_generation = v,
      pv_last_validated_generation = v\<rparr>"

definition published_node :: "authority_context \<Rightarrow> publication \<Rightarrow> observed_node \<Rightarrow> entity_record \<Rightarrow> string \<Rightarrow> u64 \<Rightarrow> node" where
  "published_node au p o' rec i v =
     \<lparr>nd_id = i, nd_entity_id = on_entity_id o', nd_entity_class = er_entity_class rec,
      nd_entity_generation = er_generation rec, nd_class = on_class o', nd_tier = on_tier o',
      nd_domain = entry_domain (on_domain o') p, nd_generation = 1, nd_created_generation = v,
      nd_last_validated_generation = v, nd_lifecycle = LS_Current,
      nd_provenance = published_provenance au p [] v, nd_metadata = on_metadata o'\<rparr>"

definition observed_unchanged :: "observed_node \<Rightarrow> entity_record \<Rightarrow> node \<Rightarrow> bool" where
  "observed_unchanged o' rec n \<longleftrightarrow> nd_entity_generation n = er_generation rec \<and> nd_tier n = on_tier o' \<and>
     nd_class n = on_class o' \<and> nd_metadata n = on_metadata o' \<and> nd_lifecycle n = LS_Current"

definition republished_node :: "u64 \<Rightarrow> observed_node \<Rightarrow> entity_record \<Rightarrow> node \<Rightarrow> node" where
  "republished_node v o' rec n =
     n\<lparr>nd_entity_generation := er_generation rec, nd_tier := on_tier o', nd_metadata := on_metadata o',
       nd_lifecycle := LS_Current, nd_last_validated_generation := v,
       nd_generation := advance_if_possible (nd_generation n)\<rparr>"

text \<open>The relationships of a node whose binding changed; the transaction of \<open>fence_loop\<close> is dropped.\<close>

definition rebind_incident :: "string \<Rightarrow> u64 \<Rightarrow> graph \<Rightarrow> graph \<times> diff_entry list" where
  "rebind_incident i v g = snd (fence_loop ended (replace_end i v) (sorted_bucket (g_incident g) i) begin_txn g [])"

definition republish_node :: "observed_node \<Rightarrow> entity_record \<Rightarrow> node \<Rightarrow> batch \<Rightarrow> batch" where
  "republish_node o' rec n b =
     (let m = republished_node (g_generation (ba_graph b)) o' rec n;
          g = snd (update_node m (ba_graph b));
          entry = node_entry DK_NodeGenerationChanged (nd_id n) (u64_string (nd_entity_generation n))
            (u64_string (nd_entity_generation m));
          (h, demoted) = (if nd_entity_generation n \<noteq> nd_entity_generation m
            then rebind_incident (nd_id n) (nd_entity_generation m) g else (g, [])) in
      step_batch h (entry # demoted) (\<lambda>c. c\<lparr>pc_nodes_updated := pc_nodes_updated c + 1\<rparr>) b)"

definition publish_new_node ::
  "engine \<Rightarrow> authority_context \<Rightarrow> publication \<Rightarrow> observed_node \<Rightarrow> entity_record \<Rightarrow> string \<Rightarrow> batch \<Rightarrow> status + batch" where
  "publish_new_node e au p o' rec i b =
     (case find_node_by_entity (ba_graph b) (on_entity_id o') of
        Some bound \<Rightarrow> Inl (explain O_DuplicateIdentity ''publication.entity_already_bound''
          [(''entity_id'', on_entity_id o'), (''bound_node'', bound)])
      | None \<Rightarrow>
          if max_nodes (en_limits e) \<le> map_size (g_nodes (ba_graph b))
          then Inl (make_status O_ResourceLimit ''publication.node_limit'')
          else let n = published_node au p o' rec i (g_generation (ba_graph b)) in
            Inr (step_batch (snd (insert_node n (ba_graph b))) [node_entry DK_NodeAdded i [] (render_node n)]
              (\<lambda>c. c\<lparr>pc_nodes_added := pc_nodes_added c + 1\<rparr>) b))"

definition settle_node ::
  "engine \<Rightarrow> authority_context \<Rightarrow> publication \<Rightarrow> observed_node \<Rightarrow> entity_record \<Rightarrow> string \<Rightarrow> batch \<Rightarrow> status + batch" where
  "settle_node e au p o' rec i b =
     (case find_node (ba_graph b) i of
        None \<Rightarrow> publish_new_node e au p o' rec i b
      | Some n \<Rightarrow>
          if nd_entity_id n \<noteq> on_entity_id o'
          then Inl (explain O_DuplicateIdentity ''publication.node_id_reused'' [(''node_id'', i)])
          else if observed_unchanged o' rec n
          then Inr (b\<lparr>ba_counts := (ba_counts b)\<lparr>pc_nodes_unchanged := pc_nodes_unchanged (ba_counts b) + 1\<rparr>\<rparr>)
          else Inr (republish_node o' rec n b))"

definition node_entry_id :: "publication \<Rightarrow> observed_node \<Rightarrow> string" where
  "node_entry_id p o' =
     (if on_node_id o' \<noteq> [] then on_node_id o' else derive_node_id (entry_domain (on_domain o') p) (on_entity_id o'))"

definition observe_node :: "engine \<Rightarrow> authority_context \<Rightarrow> publication \<Rightarrow> observed_node \<Rightarrow> batch \<Rightarrow> status + batch" where
  "observe_node e au p o' b =
     (let d = entry_domain (on_domain o') p; i = node_entry_id p o' in
      if d \<noteq> pu_domain p
      then Inl (explain O_DomainViolation ''publication.node_out_of_scope''
             [(''entity_id'', on_entity_id o'), (''entry_domain'', d), (''publication_domain'', pu_domain p)])
      else if on_class o' = NC_Unknown
      then Inl (explain O_MalformedRequest ''publication.node_class_unknown'' [(''entity_id'', on_entity_id o')])
      else if i \<in> ba_node_ids b
      then Inl (explain O_DuplicateIdentity ''publication.duplicate_node'' [(''node_id'', i)])
      else
        let b1 = b\<lparr>ba_node_ids := insert i (ba_node_ids b)\<rparr> in
        if \<not> on_present o'
        then (if pu_mode p = PM_PartialObservation
              then Inl (explain O_MalformedRequest ''publication.partial_cannot_assert_node_absence''
                     [(''entity_id'', on_entity_id o')])
              else Inr (b1\<lparr>ba_mentioned_nodes := insert i (ba_mentioned_nodes b)\<rparr>))
        else if on_entity_id o' \<in> ba_entity_ids b
        then Inl (explain O_DuplicateIdentity ''publication.duplicate_entity'' [(''entity_id'', on_entity_id o')])
        else case published_entity e o' of
            Inl s \<Rightarrow> Inl s
          | Inr rec \<Rightarrow> settle_node e au p o' rec i
              (b1\<lparr>ba_entity_ids := insert (on_entity_id o') (ba_entity_ids b),
                  ba_mentioned_nodes := insert i (ba_mentioned_nodes b)\<rparr>))"

subsection \<open>Observed relationships\<close>

definition observed_key :: "publication \<Rightarrow> observed_edge \<Rightarrow> edge_key" where
  "observed_key p x = make_edge_key (oe_relation x) (oe_from x) (oe_to x) (entry_domain (oe_domain x) p)"

definition erase_published :: "edge \<Rightarrow> batch \<Rightarrow> batch" where
  "erase_published x b =
     step_batch (snd (erase_edge (ed_id x) (ba_graph b))) [edge_entry DK_EdgeRemoved (ed_id x) (render_edge x) []]
       (\<lambda>c. c\<lparr>pc_edges_removed := pc_edges_removed c + 1\<rparr>) b"

definition retire_published :: "edge \<Rightarrow> batch \<Rightarrow> batch" where
  "retire_published x b =
     step_batch (snd (update_edge (retired_edge x) (ba_graph b)))
       [edge_entry DK_CurrentnessChanged (ed_id x) (lifecycle_string (ed_lifecycle x)) (lifecycle_string LS_Retired)]
       (\<lambda>c. c\<lparr>pc_edges_removed := pc_edges_removed c + 1\<rparr>) b"

text \<open>An absence: an authoritative snapshot erases the relationship, an increment retires it.\<close>

definition drop_published :: "publication \<Rightarrow> edge \<Rightarrow> batch \<Rightarrow> batch" where
  "drop_published p x b = (if pu_mode p = PM_AuthoritativeSnapshot then erase_published x b else retire_published x b)"

definition count_unchanged_edge :: "batch \<Rightarrow> batch" where
  "count_unchanged_edge b = b\<lparr>ba_counts := (ba_counts b)\<lparr>pc_edges_unchanged := pc_edges_unchanged (ba_counts b) + 1\<rparr>\<rparr>"

definition observe_absence :: "publication \<Rightarrow> edge_key \<Rightarrow> batch \<Rightarrow> status + batch" where
  "observe_absence p key b =
     (if pu_mode p = PM_PartialObservation
      then Inl (explain O_MalformedRequest ''publication.partial_cannot_assert_absence'' [(''key'', render_edge_key key)])
      else case find_edge_by_key (ba_graph b) key of
          None \<Rightarrow> Inr (count_unchanged_edge b)
        | Some i \<Rightarrow> (case find_edge (ba_graph b) i of
              None \<Rightarrow> Inr (count_unchanged_edge b)
            | Some x \<Rightarrow> if ended x then Inr (count_unchanged_edge b) else Inr (drop_published p x b)))"

definition published_candidate :: "publication \<Rightarrow> observed_edge \<Rightarrow> topology_layer \<Rightarrow> relationship_candidate" where
  "published_candidate p x layer =
     (let d = entry_domain (oe_domain x) p; (a, c) = normalize_endpoints (oe_relation x) (oe_from x) (oe_to x);
          key = make_edge_key (oe_relation x) a c d in
      \<lparr>cd_id = (case oe_edge_id x of Some i \<Rightarrow> i | None \<Rightarrow> derive_edge_id key),
       cd_relationship_id = (if oe_relationship_id x = [] then derive_relationship_id key else oe_relationship_id x),
       cd_relation = oe_relation x, cd_from = a, cd_to = c, cd_layer = layer, cd_domain = d,
       cd_cross_domain = False, cd_secondary_domain = [], cd_evidence_generation = oe_evidence_generation x,
       cd_supported_by = oe_supported_by x, cd_attachment = oe_attachment x,
       cd_exclusive_attachment = oe_exclusive_attachment x, cd_metadata = oe_metadata x,
       cd_evidence_type = pu_type p, cd_source = pu_source p,
       cd_source_relationship_id = oe_source_relationship_id x\<rparr>)"

definition published_edge :: "authority_context \<Rightarrow> publication \<Rightarrow> u64 \<Rightarrow> relationship_candidate \<Rightarrow> node \<Rightarrow> node \<Rightarrow> edge" where
  "published_edge au p v c a b =
     (asserted_edge au v c a b)\<lparr>ed_provenance := published_provenance au p (cd_source_relationship_id c) v\<rparr>"

definition published_unchanged :: "relationship_candidate \<Rightarrow> edge \<Rightarrow> bool" where
  "published_unchanged c x \<longleftrightarrow> ed_layer x = cd_layer c \<and> ed_evidence_generation x = cd_evidence_generation c \<and>
     ed_lifecycle x = LS_Current \<and> ed_metadata x = cd_metadata c \<and> ed_supported_by x = cd_supported_by c \<and>
     ed_attachment x = cd_attachment c"

definition republished_provenance :: "authority_context \<Rightarrow> publication \<Rightarrow> u64 \<Rightarrow> relationship_candidate \<Rightarrow> provenance \<Rightarrow> provenance" where
  "republished_provenance au p v c q =
     q\<lparr>pv_evidence_generation := cd_evidence_generation c, pv_source := pu_source p, pv_evidence_type := pu_type p,
       pv_publication := pu_id p, pv_publisher := au_publisher au, pv_worker_boot := au_worker_boot au,
       pv_coordinator_epoch := au_coordinator_epoch au, pv_last_validated_generation := v,
       pv_source_relationship_id := (if cd_source_relationship_id c \<noteq> [] then cd_source_relationship_id c
         else pv_source_relationship_id q)\<rparr>"

definition republished_edge :: "authority_context \<Rightarrow> publication \<Rightarrow> u64 \<Rightarrow> relationship_candidate \<Rightarrow> edge \<Rightarrow> edge" where
  "republished_edge au p v c x =
     x\<lparr>ed_layer := cd_layer c, ed_evidence_generation := cd_evidence_generation c, ed_metadata := cd_metadata c,
       ed_supported_by := cd_supported_by c, ed_attachment := cd_attachment c, ed_lifecycle := LS_Current,
       ed_last_validated_generation := v, ed_provenance := republished_provenance au p v c (ed_provenance x),
       ed_generation := advance_if_possible (ed_generation x)\<rparr>"

definition republished_entry :: "edge \<Rightarrow> edge \<Rightarrow> diff_entry" where
  "republished_entry x y =
     (if ed_lifecycle x \<noteq> ed_lifecycle y
      then edge_entry DK_CurrentnessChanged (ed_id y) (lifecycle_string (ed_lifecycle x)) (lifecycle_string (ed_lifecycle y))
      else edge_entry DK_RelationshipChanged (ed_id y) (u64_string (ed_evidence_generation x))
             (u64_string (ed_evidence_generation y)))"

definition republish_edge :: "authority_context \<Rightarrow> publication \<Rightarrow> relationship_candidate \<Rightarrow> edge \<Rightarrow> batch \<Rightarrow> status + batch" where
  "republish_edge au p c x b =
     (if ended x
      then Inl (explain O_Retired ''publication.relationship_retired''
             [(''edge_id'', ed_id x), (''lifecycle'', lifecycle_string (ed_lifecycle x))])
      else if cd_evidence_generation c < ed_evidence_generation x
      then (if pu_mode p = PM_AuthoritativeSnapshot
            then Inl (explain O_StaleGeneration ''publication.stale_evidence''
                   [(''edge_id'', ed_id x), (''stored_evidence_generation'', u64_string (ed_evidence_generation x)),
                    (''published_evidence_generation'', u64_string (cd_evidence_generation c))])
            else Inr (count_unchanged_edge (b\<lparr>ba_stale := ba_stale b + 1, ba_stale_detail := ed_id x\<rparr>)))
      else if published_unchanged c x then Inr (count_unchanged_edge b)
      else let y = republished_edge au p (g_generation (ba_graph b)) c x in
        Inr (step_batch (snd (update_edge y (ba_graph b))) [republished_entry x y]
          (\<lambda>k. k\<lparr>pc_edges_updated := pc_edges_updated k + 1\<rparr>) b))"

definition publish_new_edge ::
  "engine \<Rightarrow> authority_context \<Rightarrow> publication \<Rightarrow> relationship_candidate \<Rightarrow> batch \<Rightarrow> status + batch" where
  "publish_new_edge e au p c b =
     (if max_edges (en_limits e) \<le> map_size (g_edges (ba_graph b))
      then Inl (make_status O_ResourceLimit ''publication.edge_limit'')
      else case (find_node (ba_graph b) (cd_from c), find_node (ba_graph b) (cd_to c)) of
          (Some m, Some n) \<Rightarrow>
            let x = published_edge au p (g_generation (ba_graph b)) c m n in
            Inr (step_batch (snd (insert_edge x (ba_graph b))) [edge_entry DK_EdgeAdded (ed_id x) [] (render_edge x)]
              (\<lambda>k. k\<lparr>pc_edges_added := pc_edges_added k + 1\<rparr>) b)
        | _ \<Rightarrow> Inl (make_status O_UnknownEntity ''publication.edge_endpoint_unknown''))"

definition published_id_failure :: "graph \<Rightarrow> relationship_candidate \<Rightarrow> status option" where
  "published_id_failure g c =
     (case find_edge_by_key g (cd_key c) of
        Some j \<Rightarrow>
          if j \<noteq> cd_id c
          then Some (explain O_DuplicateEdge ''publication.duplicate_edge'' [(''existing'', j), (''requested'', cd_id c)])
          else None
      | None \<Rightarrow> None)"

definition published_reuse_failure :: "graph \<Rightarrow> relationship_candidate \<Rightarrow> status option" where
  "published_reuse_failure g c =
     (case find_edge g (cd_id c) of
        Some x \<Rightarrow>
          if edge_key_of x \<noteq> cd_key c
          then Some (explain O_DuplicateIdentity ''publication.edge_id_reused'' [(''edge_id'', cd_id c)])
          else None
      | None \<Rightarrow> None)"

definition observe_presence ::
  "engine \<Rightarrow> authority_context \<Rightarrow> publication \<Rightarrow> relationship_candidate \<Rightarrow> batch \<Rightarrow> status + batch" where
  "observe_presence e au p c b =
     (if cd_relationship_id c \<in> ba_relationship_ids b
      then Inl (explain O_DuplicateIdentity ''publication.duplicate_relationship_id''
             [(''relationship_id'', cd_relationship_id c)])
      else
        let b1 = b\<lparr>ba_relationship_ids := insert (cd_relationship_id c) (ba_relationship_ids b)\<rparr>; g = ba_graph b in
        case published_id_failure g c of Some s \<Rightarrow> Inl s | None \<Rightarrow>
        (case published_reuse_failure g c of Some s \<Rightarrow> Inl s | None \<Rightarrow>
        (case validate_relationship_candidate g c (find_edge_by_key g (cd_key c) = None) of Some s \<Rightarrow> Inl s | None \<Rightarrow>
          (case find_edge_by_key g (cd_key c) of
             None \<Rightarrow> publish_new_edge e au p c b1
           | Some j \<Rightarrow> republish_edge au p c (the (find_edge g j)) b1))))"

definition observe_edge :: "engine \<Rightarrow> authority_context \<Rightarrow> publication \<Rightarrow> observed_edge \<Rightarrow> batch \<Rightarrow> status + batch" where
  "observe_edge e au p x b =
     (let d = entry_domain (oe_domain x) p; key = observed_key p x; text = render_edge_key key in
      if oe_relation x = RC_Unknown
      then Inl (explain O_MalformedRequest ''publication.edge_relation_unknown'' [(''relationship_id'', oe_relationship_id x)])
      else if oe_from x = [] \<or> oe_to x = []
      then Inl (make_status O_MalformedRequest ''publication.edge_endpoint_missing'')
      else if d \<noteq> pu_domain p
      then Inl (explain O_DomainViolation ''publication.edge_out_of_scope'' [(''entry_domain'', d)])
      else if text \<in> ba_edge_keys b
      then Inl (explain O_DuplicateIdentity ''publication.duplicate_relationship'' [(''key'', text)])
      else
        let b1 = b\<lparr>ba_edge_keys := insert text (ba_edge_keys b), ba_mentioned_edges := insert text (ba_mentioned_edges b)\<rparr> in
        if \<not> oe_present x then observe_absence p key b1
        else case resolve_layer (oe_relation x) (oe_layer x) of
            None \<Rightarrow> Inl (explain O_MalformedRequest ''publication.edge_layer_required''
              [(''relation'', relation_string (oe_relation x))])
          | Some layer \<Rightarrow> observe_presence e au p (published_candidate p x layer) b1)"

subsection \<open>Declared absences and the replacement of a snapshot\<close>

definition declare_absent :: "publication \<Rightarrow> string \<Rightarrow> batch \<Rightarrow> batch" where
  "declare_absent p rel b =
     (if rel = [] then b
      else case find_edge_by_relationship (ba_graph b) rel of
          None \<Rightarrow> b
        | Some i \<Rightarrow> (case find_edge (ba_graph b) i of
              None \<Rightarrow> b
            | Some x \<Rightarrow>
                if ed_domain x \<noteq> pu_domain p \<or> ended x then b
                else drop_published p x
                  (b\<lparr>ba_mentioned_edges := insert (render_edge_key (edge_key_of x)) (ba_mentioned_edges b)\<rparr>)))"

definition unmentioned_edge :: "publication \<Rightarrow> batch \<Rightarrow> edge \<Rightarrow> bool" where
  "unmentioned_edge p b x \<longleftrightarrow> ed_domain x = pu_domain p \<and> \<not> ended x \<and>
     render_edge_key (edge_key_of x) \<notin> ba_mentioned_edges b"

definition replace_edge :: "string \<Rightarrow> batch \<Rightarrow> batch" where
  "replace_edge i b = (case find_edge (ba_graph b) i of None \<Rightarrow> b | Some x \<Rightarrow> erase_published x b)"

definition replace_edges :: "publication \<Rightarrow> batch \<Rightarrow> batch" where
  "replace_edges p b =
     fold replace_edge (sort (map ed_id (filter (unmentioned_edge p b) (sorted_values (g_edges (ba_graph b)))))) b"

definition unmentioned_node :: "publication \<Rightarrow> batch \<Rightarrow> node \<Rightarrow> bool" where
  "unmentioned_node p b n \<longleftrightarrow> nd_domain n = pu_domain p \<and> nd_id n \<notin> ba_mentioned_nodes b"

definition retired_node :: "node \<Rightarrow> node" where
  "retired_node n = n\<lparr>nd_lifecycle := LS_Retired, nd_generation := advance_if_possible (nd_generation n)\<rparr>"

definition replace_node :: "string \<Rightarrow> batch \<Rightarrow> batch" where
  "replace_node i b =
     (let removed = (\<lambda>c. c\<lparr>pc_nodes_removed := pc_nodes_removed c + 1\<rparr>) in
      case find_node (ba_graph b) i of
        None \<Rightarrow> b
      | Some n \<Rightarrow>
          if sorted_bucket (g_incident (ba_graph b)) i \<noteq> []
          then step_batch (snd (update_node (retired_node n) (ba_graph b)))
                 [node_entry DK_CurrentnessChanged i (lifecycle_string (nd_lifecycle n)) (lifecycle_string LS_Retired)] removed b
          else step_batch (snd (erase_node i (ba_graph b))) [node_entry DK_NodeRemoved i (render_node n) []] removed b)"

definition replace_nodes :: "publication \<Rightarrow> batch \<Rightarrow> batch" where
  "replace_nodes p b =
     fold replace_node (sort (map nd_id (filter (unmentioned_node p b) (sorted_values (g_nodes (ba_graph b)))))) b"

definition replace_domain :: "publication \<Rightarrow> batch \<Rightarrow> batch" where
  "replace_domain p b = (if pu_mode p = PM_AuthoritativeSnapshot then replace_nodes p (replace_edges p b) else b)"

text \<open>The entries are taken in the order of their entity, and of their rendered key with the domain as
  given; \<open>std::sort\<close> leaves the order of ties open, here they keep the order of the publication.\<close>

definition observe_entries :: "engine \<Rightarrow> authority_context \<Rightarrow> publication \<Rightarrow> status + batch" where
  "observe_entries e au p =
     (case each_entry (observe_node e au p) (sort_key on_entity_id (pu_nodes p)) (start_batch (en_graph e)) of
        Inl s \<Rightarrow> Inl s
      | Inr b \<Rightarrow>
          (case each_entry (observe_edge e au p)
                  (sort_key (\<lambda>x. render_edge_key (make_edge_key (oe_relation x) (oe_from x) (oe_to x) (oe_domain x))) (pu_edges p)) b of
             Inl s \<Rightarrow> Inl s
           | Inr c \<Rightarrow> Inr (fold (declare_absent p) (pu_declared_absent p) c)))"

definition observe_batch :: "engine \<Rightarrow> authority_context \<Rightarrow> publication \<Rightarrow> status + batch" where
  "observe_batch e au p = (case observe_entries e au p of Inl s \<Rightarrow> Inl s | Inr b \<Rightarrow> Inr (replace_domain p b))"

subsection \<open>Committing a batch\<close>

definition publication_answer :: "status \<Rightarrow> engine \<Rightarrow> publication_result" where
  "publication_answer s e =
     \<lparr>pr_status = s, pr_generation = en_generation e, pr_diff = empty_diff, pr_counts = no_counts, pr_generation_advanced = False\<rparr>"

definition count_rejected_publication :: "engine \<Rightarrow> engine" where
  "count_rejected_publication e = e\<lparr>en_publications_rejected := en_publications_rejected e + 1\<rparr>"

definition publication_refused :: "status \<Rightarrow> engine \<Rightarrow> publication_result \<times> engine" where
  "publication_refused s e = (publication_answer s e, count_rejected_publication (note_rejected e))"

definition publication_rejected :: "string \<Rightarrow> status \<Rightarrow> engine \<Rightarrow> publication_result \<times> engine" where
  "publication_rejected p s e = publication_refused s (publisher_rejected p e)"

definition record_attempt :: "string \<Rightarrow> engine \<Rightarrow> engine" where
  "record_attempt i e = e\<lparr>en_attempts := ledger_record i (en_attempts e)\<rparr>"

definition no_change :: "authority_context \<Rightarrow> publication \<Rightarrow> batch \<Rightarrow> engine \<Rightarrow> publication_result \<times> engine" where
  "no_change au p b e =
     ((publication_answer (make_status O_Idempotent ''publication.no_change'') e)
        \<lparr>pr_counts := no_counts\<lparr>pc_nodes_unchanged := pc_nodes_unchanged (ba_counts b) + length (pu_nodes p),
           pc_edges_unchanged := pc_edges_unchanged (ba_counts b) + length (pu_edges p),
           pc_nodes_added := pc_nodes_added (ba_counts b), pc_edges_added := pc_edges_added (ba_counts b)\<rparr>\<rparr>,
      publisher_committed (au_publisher au) (note_idempotent (record_attempt (pu_id p) e)))"

definition invariant_violation :: "validation_report \<Rightarrow> status" where
  "invariant_violation r =
     explain O_StructuralInvariantViolation ''publication.invariant_violation''
       ((''issues'', decimal (length (vr_issues r))) #
        (case vr_issues r of [] \<Rightarrow> []
         | x # _ \<Rightarrow> (''first_issue'', vi_code x) # (if vi_detail x \<noteq> [] then [(''first_detail'', vi_detail x)] else [])))"

definition published_status :: "authority_context \<Rightarrow> publication \<Rightarrow> batch \<Rightarrow> status" where
  "published_status au p b =
     explain O_Committed ''publication.committed''
       ([(''publisher'', au_publisher au), (''publication'', pu_id p), (''mode'', publication_mode_string (pu_mode p)),
         (''domain'', pu_domain p)] @
        (if ba_stale b \<noteq> 0 then (''stale_entries'', decimal (ba_stale b)) #
           (if ba_stale_detail b \<noteq> [] then [(''stale_example'', ba_stale_detail b)] else []) else []))"

text \<open>The self-check runs after the commit; when it fails, only the answer changes.\<close>

definition checked_status :: "engine \<Rightarrow> status \<Rightarrow> status" where
  "checked_status e s =
     (if en_verify_indexes e \<and> outcome_of (verify_indexes (en_graph e)) \<noteq> O_Ok then verify_indexes (en_graph e) else s)"

definition commit_batch ::
  "(engine \<Rightarrow> file_result) \<Rightarrow> authority_context \<Rightarrow> publication \<Rightarrow> batch \<Rightarrow> engine \<Rightarrow> publication_result \<times> engine" where
  "commit_batch io au p b e =
     (if \<not> can_advance (g_generation (ba_graph b))
      then publication_rejected (au_publisher au) (make_status O_ResourceLimit ''generation.exhausted'') e
      else
        let g = (ba_graph b)\<lparr>g_generation := next_counter (g_generation (ba_graph b))\<rparr>;
            report = validate_graph g (en_directory e) scope_all in
        if \<not> vr_valid report then publication_rejected (au_publisher au) (invariant_violation report) e
        else
          let e1 = e\<lparr>en_graph := g, en_generation_advances := en_generation_advances e + 1\<rparr>;
              persisted = persist_locked io e1 in
          if outcome_of persisted \<noteq> O_Ok then publication_rejected (au_publisher au) persisted e
          else
            let e2 = note_committed (publisher_committed (au_publisher au) (record_attempt (pu_id p) e1));
                e3 = e2\<lparr>en_publications_committed := en_publications_committed e2 + 1\<rparr> in
            (\<lparr>pr_status = checked_status e3 (published_status au p b), pr_generation = en_generation e3,
              pr_diff = finish_diff (ba_diff b) (en_generation e3), pr_counts = ba_counts b,
              pr_generation_advanced = True\<rparr>, e3))"

definition settle_batch ::
  "(engine \<Rightarrow> file_result) \<Rightarrow> authority_context \<Rightarrow> publication \<Rightarrow> engine \<Rightarrow> publication_result \<times> engine" where
  "settle_batch io au p e =
     (case observe_batch e au p of
        Inl s \<Rightarrow> publication_rejected (au_publisher au) s e
      | Inr b \<Rightarrow> if ba_diff b = [] then no_change au p b e else commit_batch io au p b e)"

definition observed_malformed :: "limits \<Rightarrow> observed_node \<Rightarrow> status option" where
  "observed_malformed l o' =
     (if outcome_of (metadata_validate (on_metadata o') l) \<noteq> O_Ok then Some (metadata_validate (on_metadata o') l)
      else if on_entity_id o' = [] \<or> max_identifier_bytes l < length (on_entity_id o')
      then Some (make_status O_MalformedRequest ''publication.node_entity_invalid'')
      else None)"

definition observed_edge_malformed :: "limits \<Rightarrow> observed_edge \<Rightarrow> status option" where
  "observed_edge_malformed l x =
     (if outcome_of (metadata_validate (oe_metadata x) l) \<noteq> O_Ok then Some (metadata_validate (oe_metadata x) l) else None)"

definition publication_malformed :: "limits \<Rightarrow> publication \<Rightarrow> status option" where
  "publication_malformed l p =
     (if pu_id p = [] then Some (make_status O_MalformedRequest ''publication.id_missing'')
      else if pu_domain p = [] then Some (make_status O_MalformedRequest ''publication.domain_missing'')
      else if max_string_bytes l < length (pu_note p) then Some (make_status O_ResourceLimit ''publication.note_too_long'')
      else if max_nodes_per_publication l < length (pu_nodes p)
      then Some (explain O_ResourceLimit ''publication.too_many_nodes''
             [(''declared'', decimal (length (pu_nodes p))), (''limit'', decimal (max_nodes_per_publication l))])
      else if max_edges_per_publication l < length (pu_edges p)
      then Some (explain O_ResourceLimit ''publication.too_many_edges''
             [(''declared'', decimal (length (pu_edges p))), (''limit'', decimal (max_edges_per_publication l))])
      else if max_edges_per_publication l < length (pu_declared_absent p)
      then Some (make_status O_ResourceLimit ''publication.too_many_absences'')
      else case first_some (observed_malformed l) (pu_nodes p) of Some s \<Rightarrow> Some s
        | None \<Rightarrow> first_some (observed_edge_malformed l) (pu_edges p))"

definition required_grant :: "publication_mode \<Rightarrow> grant_mode" where
  "required_grant m = (if m = PM_AuthoritativeSnapshot then GM_AuthoritativeWrite else GM_IncrementalWrite)"

definition replayed :: "authority_context \<Rightarrow> publication \<Rightarrow> engine \<Rightarrow> publication_result \<times> engine" where
  "replayed au p e =
     ((publication_answer (make_status O_Idempotent ''publication.replayed'') e)
        \<lparr>pr_counts := no_counts\<lparr>pc_nodes_unchanged := length (pu_nodes p), pc_edges_unchanged := length (pu_edges p)\<rparr>\<rparr>,
      publisher_committed (au_publisher au) (note_idempotent e))"

definition publish ::
  "(engine \<Rightarrow> file_result) \<Rightarrow> authority_context \<Rightarrow> publication \<Rightarrow> engine \<Rightarrow> publication_result \<times> engine" where
  "publish io au p e =
     (case publication_malformed (en_limits e) p of Some s \<Rightarrow> (publication_answer s e, e) | None \<Rightarrow>
      if \<not> has_key (g_domain_definitions (en_graph e)) (pu_domain p)
      then publication_refused (explain O_DomainViolation ''publication.domain_unknown'' [(''domain'', pu_domain p)]) e
      else
        let permit = check_authority e au (pu_domain p) (required_grant (pu_mode p)) in
        if outcome_of permit \<noteq> O_Ok then publication_refused permit e
        else case stale_generation ''publication.stale_generation'' (pu_expected_generation p) e of
          Some s \<Rightarrow> publication_rejected (au_publisher au) s e
        | None \<Rightarrow> if ledger_seen (pu_id p) (en_attempts e) then replayed au p e else settle_batch io au p e)"

end
