(* ===== verification/Reconcile.thy ===== *)
theory Reconcile
  imports Publication
begin

text \<open>
  What a publication does to the graph (\<open>src/reconciliation.cpp\<close>). \<open>reconciles d R g h\<close> says that \<open>h\<close> is a
  consistent graph that differs from \<open>g\<close> only as a publication of the domain \<open>d\<close> may make it; it is
  reflexive and transitive, and every step of the handler is an instance.
\<close>

subsection \<open>Changes a publication may make\<close>

definition new_in :: "string \<Rightarrow> string set \<Rightarrow> edge \<Rightarrow> bool" where
  "new_in d R y \<longleftrightarrow> ed_domain y = d \<and> \<not> ed_cross_domain y \<and> ed_superseded_by y = None \<and> ed_relationship_id y \<in> R \<and> ed_id y \<noteq> []"

definition kept_edge :: "edge \<Rightarrow> edge \<Rightarrow> bool" where
  "kept_edge x y \<longleftrightarrow> same_shape x y \<and> ed_relationship_id y = ed_relationship_id x \<and> ed_superseded_by y = ed_superseded_by x"

text \<open>What a rebinding of its ends may do to a relationship: it awaits revalidation, no earlier than
  before, with new bound generations. Nothing else of it changes.\<close>

definition rebound_edge :: "edge \<Rightarrow> edge \<Rightarrow> bool" where
  "rebound_edge x y \<longleftrightarrow> ed_generation x \<le> ed_generation y \<and>
     y = x\<lparr>ed_lifecycle := LS_RevalidationRequired, ed_generation := ed_generation y,
       ed_from_entity_generation := ed_from_entity_generation y, ed_to_entity_generation := ed_to_entity_generation y\<rparr>"

lemma rebound_edge_trans: "rebound_edge x y \<Longrightarrow> rebound_edge y z \<Longrightarrow> rebound_edge x z"
  by (cases x; cases y; cases z) (auto simp: rebound_edge_def)

lemma rebound_edge_kept: "rebound_edge x y \<Longrightarrow> \<not> ended x \<Longrightarrow> kept_edge x y \<and> \<not> ended y"
  by (cases x; cases y) (auto simp: rebound_edge_def kept_edge_def same_shape_def ended_def)

lemma replace_end_rebinds: "rebound_edge x (replace_end i v x)"
  by (cases x) (simp add: rebound_edge_def replace_end_def demote_def Let_def advance_if_possible_ge)

definition reconciles :: "string \<Rightarrow> string set \<Rightarrow> graph \<Rightarrow> graph \<Rightarrow> bool" where
  "reconciles d R g h \<longleftrightarrow> graph_inv h \<and> base_frame h = base_frame g \<and>
     (\<forall>i x. find_edge g i = Some x \<longrightarrow> ended x \<longrightarrow> find_edge h i = Some x) \<and>
     (\<forall>i x. find_edge g i = Some x \<longrightarrow> ed_domain x \<noteq> d \<longrightarrow>
        (\<exists>y. find_edge h i = Some y \<and> (y = x \<or> \<not> ended x \<and> rebound_edge x y))) \<and>
     (\<forall>i y. find_edge h i = Some y \<longrightarrow> (\<exists>x. find_edge g i = Some x \<and> kept_edge x y) \<or> new_in d R y) \<and>
     (\<forall>i n. find_node g i = Some n \<longrightarrow> nd_domain n \<noteq> d \<longrightarrow> (\<exists>m. find_node h i = Some m \<and> node_shape m = node_shape n)) \<and>
     (\<forall>i m. find_node h i = Some m \<longrightarrow> (\<exists>n. find_node g i = Some n \<and> node_shape m = node_shape n) \<or> nd_domain m = d \<and> i \<noteq> [])"

lemma reconcilesD:
  assumes "reconciles d R g h"
  shows "graph_inv h" "base_frame h = base_frame g"
    "find_edge g i = Some x \<Longrightarrow> ended x \<Longrightarrow> find_edge h i = Some x"
    "find_edge g i = Some x \<Longrightarrow> ed_domain x \<noteq> d \<Longrightarrow>
      \<exists>y. find_edge h i = Some y \<and> (y = x \<or> \<not> ended x \<and> rebound_edge x y)"
    "find_edge h i = Some y \<Longrightarrow> (\<exists>x. find_edge g i = Some x \<and> kept_edge x y) \<or> new_in d R y"
    "find_node g i = Some n \<Longrightarrow> nd_domain n \<noteq> d \<Longrightarrow> \<exists>m. find_node h i = Some m \<and> node_shape m = node_shape n"
    "find_node h i = Some m \<Longrightarrow> (\<exists>n. find_node g i = Some n \<and> node_shape m = node_shape n) \<or> nd_domain m = d \<and> i \<noteq> []"
  using assms unfolding reconciles_def by blast+

lemma kept_edge_refl [simp]: "kept_edge x x"
  by (simp add: kept_edge_def same_shape_def)

lemma kept_edge_trans: "kept_edge x y \<Longrightarrow> kept_edge y z \<Longrightarrow> kept_edge x z"
  by (auto simp: kept_edge_def same_shape_def)

lemma kept_edge_domain: "kept_edge x y \<Longrightarrow> ed_domain y = ed_domain x \<and> (ended x \<longrightarrow> ended y) \<and> ed_id y = ed_id x"
  by (simp add: kept_edge_def same_shape_def)

lemma reconciles_refl: "graph_inv g \<Longrightarrow> reconciles d R g g"
  by (auto simp: reconciles_def)

lemma new_in_kept: "new_in d R x \<Longrightarrow> kept_edge x y \<Longrightarrow> R \<subseteq> S \<Longrightarrow> new_in d S y"
  by (auto simp: new_in_def kept_edge_def same_shape_def)

lemma reconciles_trans:
  assumes a: "reconciles d R g h" and b: "reconciles d S h k" and RS: "R \<subseteq> S"
  shows "reconciles d S g k"
  unfolding reconciles_def
proof (intro conjI allI impI)
  fix i x assume x: "find_edge g i = Some x" "ed_domain x \<noteq> d"
  from reconcilesD(4) [OF a x] obtain y where y: "find_edge h i = Some y"
    "y = x \<or> \<not> ended x \<and> rebound_edge x y" by blast
  then have "ed_domain y \<noteq> d" using x kept_edge_domain rebound_edge_kept by metis
  from reconcilesD(4) [OF b y(1) this] obtain z where z: "find_edge k i = Some z"
    "z = y \<or> \<not> ended y \<and> rebound_edge y z" by blast
  with y rebound_edge_trans show "\<exists>y. find_edge k i = Some y \<and> (y = x \<or> \<not> ended x \<and> rebound_edge x y)"
    by blast
next
  fix i z assume "find_edge k i = Some z"
  from reconcilesD(5) [OF b this] show "(\<exists>x. find_edge g i = Some x \<and> kept_edge x z) \<or> new_in d S z"
  proof (elim disjE exE conjE)
    fix y assume y: "find_edge h i = Some y" "kept_edge y z"
    from reconcilesD(5) [OF a y(1)] show ?thesis using y(2) kept_edge_trans new_in_kept RS by metis
  qed simp
next
  fix i m assume "find_node k i = Some m"
  from reconcilesD(7) [OF b this] show "(\<exists>n. find_node g i = Some n \<and> node_shape m = node_shape n) \<or> nd_domain m = d \<and> i \<noteq> []"
  proof (elim disjE exE conjE)
    fix n assume n: "find_node h i = Some n" "node_shape m = node_shape n"
    from reconcilesD(7) [OF a n(1)] show ?thesis using n(2) by (auto simp: node_shape_def)
  qed simp
next
  fix i n assume n: "find_node g i = Some n" "nd_domain n \<noteq> d"
  from reconcilesD(6) [OF a n] obtain m where m: "find_node h i = Some m" "node_shape m = node_shape n" by blast
  then have "nd_domain m \<noteq> d" using n by (simp add: node_shape_def)
  from reconcilesD(6) [OF b m(1) this] m(2) show "\<exists>m. find_node k i = Some m \<and> node_shape m = node_shape n" by auto
next
  fix i x assume "find_edge g i = Some x" "ended x"
  with reconcilesD(3) [OF a] reconcilesD(3) [OF b] show "find_edge k i = Some x" by blast
qed (use reconcilesD(1,2) [OF a] reconcilesD(1,2) [OF b] in simp_all)

lemma reconciles_mono: "reconciles d R g h \<Longrightarrow> R \<subseteq> S \<Longrightarrow> reconciles d S g h"
  using reconciles_trans [OF _ reconciles_refl] reconcilesD(1) by blast

subsection \<open>The single changes\<close>

lemma reconciles_add_node:
  assumes inv: "graph_inv g" and fresh: "find_node g (nd_id n) = None" "find_node_by_entity g (nd_entity_id n) = None"
    and n: "nd_id n \<noteq> []" "nd_domain n = d"
  shows "reconciles d R g (snd (insert_node n g))"
proof -
  have f: "find_node (snd (insert_node n g)) i = (if i = nd_id n then Some n else find_node g i)" for i
    using fresh(1) by (auto simp: find_node_def lookup_simps has_key_def)
  have "graph_inv (snd (insert_node n g))" by (rule insert_node_inv [OF inv fresh])
  with f fresh n show ?thesis unfolding reconciles_def by (auto simp: frame_simps)
qed

lemma reconciles_set_node:
  assumes inv: "graph_inv g" and old: "find_node g (nd_id n) = Some m"
    and same: "nd_entity_id n = nd_entity_id m" "node_shape n = node_shape m"
  shows "reconciles d R g (snd (update_node n g))"
proof -
  have f: "find_node (snd (update_node n g)) i = (if i = nd_id n then Some n else find_node g i)" for i
    using old by (simp add: find_after_update_node)
  have "graph_inv (snd (update_node n g))"
    using node_entity_indexed [OF inv old] same by (intro update_node_inv [OF inv old]) simp
  with f old same show ?thesis unfolding reconciles_def by (auto simp: frame_simps node_shape_def)
qed

lemma reconciles_del_node:
  assumes inv: "graph_inv g" and dom: "\<And>n. find_node g i = Some n \<Longrightarrow> nd_domain n = d"
  shows "reconciles d R g (snd (erase_node i g))"
proof -
  have f: "find_node (snd (erase_node i g)) j = (if j = i then None else find_node g j)" for j
    by (simp add: find_node_def lookup_simps)
  show ?thesis unfolding reconciles_def using f dom erase_node_inv [OF inv] by (auto simp: frame_simps)
qed

lemma reconciles_add_edge:
  assumes inv: "graph_inv g" and fresh: "find_edge g (ed_id x) = None" "find_edge_by_key g (edge_key_of x) = None"
    "find_edge_by_relationship g (ed_relationship_id x) = None" and x: "new_in d R x"
  shows "reconciles d R g (snd (insert_edge x g))"
proof -
  have "fst (insert_edge x g)" using fresh(1) by (simp add: insert_edge_def has_key_def find_edge_def)
  then have f: "find_edge (snd (insert_edge x g)) i = (if i = ed_id x then Some x else find_edge g i)" for i
    by (rule find_after_insert_edge)
  have "secondary_declared (g_domain_definitions g) x" using x by (simp add: secondary_declared_def has_secondary_def new_in_def)
  then have "graph_inv (snd (insert_edge x g))" by (rule insert_edge_inv [OF inv fresh])
  with f fresh x show ?thesis unfolding reconciles_def by (auto simp: frame_simps)
qed

lemma reconciles_set_edge:
  assumes inv: "graph_inv g" and old: "find_edge g (ed_id y) = Some x" and live: "\<not> ended x" and same: "kept_edge x y"
    and dom: "ed_domain x = d \<or> rebound_edge x y"
  shows "reconciles d R g (snd (update_edge y g))"
proof -
  have f: "find_edge (snd (update_edge y g)) i = (if i = ed_id y then Some y else find_edge g i)" for i
    using old by (simp add: find_after_update_edge)
  have "same_edge_identity x y" using same by (auto simp: kept_edge_def same_shape_def same_edge_identity_def edge_key_of_def)
  then have "graph_inv (snd (update_edge y g))" by (rule update_edge_same_identity_inv [OF inv old])
  with f old live same dom show ?thesis unfolding reconciles_def by (auto simp: frame_simps)
qed

lemma reconciles_del_edge:
  assumes inv: "graph_inv g" and old: "find_edge g i = Some x" "\<not> ended x" "ed_domain x = d"
  shows "reconciles d R g (snd (erase_edge i g))"
proof -
  have f: "find_edge (snd (erase_edge i g)) j = (if j = i then None else find_edge g j)" for j
    by (simp add: find_edge_def lookup_simps)
  show ?thesis unfolding reconciles_def using f old erase_edge_inv [OF inv] by (auto simp: frame_simps)
qed

lemma reconciles_rebind:
  assumes "graph_inv g"
  shows "reconciles d R g (fst (rebind_incident i v g))"
proof -
  have "graph_inv g \<Longrightarrow> fence_loop ended (replace_end i v) is t g ds = (t', h, ds') \<Longrightarrow> reconciles d R g h" for "is" t g ds t' h ds'
  proof (induction "is" arbitrary: t g ds)
    case Nil
    then show ?case by (simp add: reconciles_refl)
  next
    case (Cons j js)
    show ?case
    proof (cases "\<exists>x. find_edge g j = Some x \<and> \<not> ended x")
      case True
      then obtain x where x: "find_edge g j = Some x" "\<not> ended x" by blast
      let ?y = "replace_end i v x" and ?g = "snd (update_edge (replace_end i v x) g)"
      have id: "ed_id ?y = j" using replace_end_facts(1) [where x = x and i = i and v = v] graph_inv_ids [OF Cons.prems(1) x(1)]
        by (simp add: same_edge_identity_def)
      have "rebound_edge x ?y" by (rule replace_end_rebinds)
      moreover from this have "kept_edge x ?y" using rebound_edge_kept x(2) by blast
      ultimately have step: "reconciles d R g ?g"
        using x id by (intro reconciles_set_edge [OF Cons.prems(1), where x = x]) simp_all
      moreover have "reconciles d R ?g h"
        using Cons.prems x by (intro Cons.IH [OF reconcilesD(1) [OF step]]) simp
      ultimately show ?thesis using reconciles_trans by blast
    next
      case False
      then show ?thesis using Cons by (auto split: option.splits)
    qed
  qed
  with assms show ?thesis
    unfolding rebind_incident_def
    by (cases "fence_loop ended (replace_end i v) (sorted_bucket (g_incident g) i) begin_txn g []") auto
qed

subsection \<open>The steps of the handler\<close>

definition moves :: "string \<Rightarrow> batch \<Rightarrow> batch \<Rightarrow> bool" where
  "moves d b c \<longleftrightarrow> ba_relationship_ids b \<subseteq> ba_relationship_ids c \<and> reconciles d (ba_relationship_ids c) (ba_graph b) (ba_graph c)"

lemma moves_trans: "moves d a b \<Longrightarrow> moves d b c \<Longrightarrow> moves d a c"
  using reconciles_trans by (fastforce simp: moves_def)

lemma moves_same: "graph_inv (ba_graph b) \<Longrightarrow> ba_graph c = ba_graph b \<Longrightarrow> ba_relationship_ids b \<subseteq> ba_relationship_ids c \<Longrightarrow> moves d b c"
  by (simp add: moves_def reconciles_refl)

lemma moves_inv: "moves d b c \<Longrightarrow> graph_inv (ba_graph c)"
  by (simp add: moves_def reconciles_def)

lemma moves_step:
  assumes "reconciles d (ba_relationship_ids b) (ba_graph b) h"
  shows "moves d b (step_batch h ds f b)"
  using assms by (simp add: moves_def step_batch_def)

lemma step_batch_sel [simp]:
  "ba_graph (step_batch h ds f b) = h" "ba_relationship_ids (step_batch h ds f b) = ba_relationship_ids b"
  "ba_diff (step_batch h ds f b) = ba_diff b @ ds" "ba_mentioned_edges (step_batch h ds f b) = ba_mentioned_edges b"
  "ba_mentioned_nodes (step_batch h ds f b) = ba_mentioned_nodes b" "ba_edge_keys (step_batch h ds f b) = ba_edge_keys b"
  "ba_node_ids (step_batch h ds f b) = ba_node_ids b"
  by (simp_all add: step_batch_def)

lemma each_entry_keeps:
  "P b \<Longrightarrow> each_entry f xs b = Inr c \<Longrightarrow> (\<And>x b c. x \<in> set xs \<Longrightarrow> P b \<Longrightarrow> f x b = Inr c \<Longrightarrow> P c) \<Longrightarrow> P c"
proof (induction xs arbitrary: b)
  case (Cons x xs)
  then obtain d where d: "f x b = Inr d" "each_entry f xs d = Inr c" by (auto split: sum.splits)
  moreover have "P d" using Cons.prems(1) d(1) by (intro Cons.prems(3) [of x b d]) simp_all
  ultimately show ?case using Cons.prems(3) by (intro Cons.IH [of d]) auto
qed simp

lemma republish_moves:
  assumes inv: "graph_inv (ba_graph b)" and n: "find_node (ba_graph b) i = Some n" and e: "nd_entity_id n = on_entity_id o'"
  shows "moves d b (republish_node o' rec n b)"
proof -
  let ?m = "republished_node (g_generation (ba_graph b)) o' rec n"
  have i: "nd_id n = i" using graph_inv_node_ids [OF inv n] .
  have "reconciles d (ba_relationship_ids b) (ba_graph b) (snd (update_node ?m (ba_graph b)))"
    using n i by (intro reconciles_set_node [OF inv]) (simp_all add: republished_node_def node_shape_def)
  moreover from this have "reconciles d (ba_relationship_ids b) (snd (update_node ?m (ba_graph b)))
      (fst (rebind_incident (nd_id n) v (snd (update_node ?m (ba_graph b)))))" for v
    by (intro reconciles_rebind) (rule reconcilesD(1))
  ultimately show ?thesis
    unfolding republish_node_def Let_def by (auto intro!: moves_step intro: reconciles_trans split: prod.split)
       (metis fst_conv reconciles_trans subset_refl)
qed

lemma node_entry_id_nonempty: "node_entry_id p o' \<noteq> []"
  using derived_node_id_nonempty by (simp add: node_entry_id_def)

lemma settle_node_moves:
  assumes inv: "graph_inv (ba_graph b)" and i: "i \<noteq> []" and d: "entry_domain (on_domain o') p = d"
    and run: "settle_node e au p o' rec i b = Inr c"
  shows "moves d b c"
proof (cases "find_node (ba_graph b) i")
  case None
  with run have "publish_new_node e au p o' rec i b = Inr c" by (simp add: settle_node_def)
  then have free: "find_node_by_entity (ba_graph b) (on_entity_id o') = None"
    and c: "\<exists>ds f. c = step_batch (snd (insert_node (published_node au p o' rec i (g_generation (ba_graph b))) (ba_graph b))) ds f b"
    by (auto simp: publish_new_node_def Let_def split: option.splits if_splits)
  have "reconciles d (ba_relationship_ids b) (ba_graph b)
      (snd (insert_node (published_node au p o' rec i (g_generation (ba_graph b))) (ba_graph b)))"
    using None free i d by (intro reconciles_add_node [OF inv]) (simp_all add: published_node_def)
  with c show ?thesis by (auto intro: moves_step)
next
  case (Some n)
  with run show ?thesis
    using republish_moves [OF inv Some] moves_same [OF inv]
    by (auto simp: settle_node_def split: if_splits)
qed

lemma observe_node_moves:
  assumes inv: "graph_inv (ba_graph b)" and run: "observe_node e au p o' b = Inr c"
  shows "moves (pu_domain p) b c"
proof -
  let ?b = "b\<lparr>ba_node_ids := insert (node_entry_id p o') (ba_node_ids b), ba_entity_ids := insert (on_entity_id o') (ba_entity_ids b),
      ba_mentioned_nodes := insert (node_entry_id p o') (ba_mentioned_nodes b)\<rparr>"
  have d: "entry_domain (on_domain o') p = pu_domain p" using run by (simp add: observe_node_def Let_def split: if_splits)
  consider "ba_graph c = ba_graph b \<and> ba_relationship_ids c = ba_relationship_ids b"
    | rec where "settle_node e au p o' rec (node_entry_id p o') ?b = Inr c"
    using run by (auto simp: observe_node_def Let_def split: if_splits sum.splits)
  then show ?thesis
  proof cases
    case 1
    with inv show ?thesis by (intro moves_same) simp_all
  next
    case 2
    then have "moves (pu_domain p) ?b c"
      using inv by (intro settle_node_moves [OF _ node_entry_id_nonempty d]) simp_all
    moreover have "moves (pu_domain p) b ?b" using inv by (intro moves_same) simp_all
    ultimately show ?thesis by (rule moves_trans [rotated])
  qed
qed

text \<open>The relationship identifiers of the present entries belong to no relationship of another key: the
  handler checks this within the publication, but not against the stored relationships.\<close>

definition published_relationship_id :: "publication \<Rightarrow> observed_edge \<Rightarrow> string" where
  "published_relationship_id p x =
     (if oe_relationship_id x = [] then derive_relationship_id (observed_key p x) else oe_relationship_id x)"

definition relationships_agree :: "graph \<Rightarrow> publication \<Rightarrow> bool" where
  "relationships_agree g p \<longleftrightarrow> (\<forall>x \<in> set (pu_edges p). oe_present x \<longrightarrow>
     (\<forall>i y. find_edge g i = Some y \<longrightarrow> ed_relationship_id y = published_relationship_id p x \<longrightarrow> edge_key_of y = observed_key p x))"

lemma published_candidate_facts:
  "cd_key (published_candidate p x layer) = observed_key p x" "cd_relation (published_candidate p x layer) = oe_relation x"
  "cd_relationship_id (published_candidate p x layer) = published_relationship_id p x"
  "cd_domain (published_candidate p x layer) = entry_domain (oe_domain x) p" "\<not> cd_cross_domain (published_candidate p x layer)"
  by (auto simp: published_candidate_def cd_key_def observed_key_def published_relationship_id_def make_edge_key_def
      normalize_endpoints_def Let_def)

lemma kept_edge_key: "kept_edge x y \<Longrightarrow> edge_key_of y = edge_key_of x"
  by (simp add: kept_edge_def same_shape_def edge_key_of_def)

definition grown :: "string \<Rightarrow> graph \<Rightarrow> batch \<Rightarrow> bool" where
  "grown d g b \<longleftrightarrow> reconciles d (ba_relationship_ids b) g (ba_graph b)"

lemma grown_moves: "grown d g b \<Longrightarrow> moves d b c \<Longrightarrow> grown d g c"
  using reconciles_trans by (auto simp: grown_def moves_def)

lemma grown_inv: "grown d g b \<Longrightarrow> graph_inv (ba_graph b)"
  by (simp add: grown_def reconciles_def)

lemma drop_published_moves:
  assumes inv: "graph_inv (ba_graph b)" and x: "find_edge (ba_graph b) i = Some x" "\<not> ended x" "ed_domain x = d"
  shows "moves d b (drop_published p x b)"
proof -
  have i: "ed_id x = i" using graph_inv_ids [OF inv x(1)] .
  have "reconciles d (ba_relationship_ids b) (ba_graph b) (snd (update_edge (retired_edge x) (ba_graph b)))"
    using x i by (intro reconciles_set_edge [OF inv, where x = x])
      (auto simp: retired_edge_def kept_edge_def same_shape_def ended_def)
  moreover have "reconciles d (ba_relationship_ids b) (ba_graph b) (snd (erase_edge (ed_id x) (ba_graph b)))"
    unfolding i by (rule reconciles_del_edge [OF inv x])
  ultimately show ?thesis by (simp add: drop_published_def erase_published_def retire_published_def moves_step)
qed

lemma observed_key_domain: "edge_key_of x = observed_key p y \<Longrightarrow> ed_domain x = entry_domain (oe_domain y) p"
  by (auto simp: edge_key_of_def observed_key_def make_edge_key_def split: if_splits)

lemma observe_absence_moves:
  assumes inv: "graph_inv (ba_graph b)" and d: "entry_domain (oe_domain y) p = d"
    and run: "observe_absence p (observed_key p y) b = Inr c"
  shows "moves d b c"
proof -
  have same: "moves d b (count_unchanged_edge b)" by (intro moves_same [OF inv]) (simp_all add: count_unchanged_edge_def)
  show ?thesis
  proof (cases "\<exists>i x. find_edge_by_key (ba_graph b) (observed_key p y) = Some i \<and> find_edge (ba_graph b) i = Some x \<and> \<not> ended x")
    case True
    then obtain i x where x: "find_edge_by_key (ba_graph b) (observed_key p y) = Some i" "find_edge (ba_graph b) i = Some x" "\<not> ended x"
      by blast
    then have "edge_key_of x = observed_key p y" using edge_by_key_stored [OF inv x(1)] by auto
    then have "ed_domain x = d" using d observed_key_domain by metis
    with x run drop_published_moves [OF inv x(2,3)] show ?thesis by (auto simp: observe_absence_def split: if_splits)
  next
    case False
    with run same show ?thesis by (auto simp: observe_absence_def split: if_splits option.splits)
  qed
qed

lemma publish_new_edge_moves:
  assumes inv: "graph_inv (ba_graph b)" and run: "publish_new_edge e au p c b = Inr b'"
    and new: "find_edge_by_key (ba_graph b) (cd_key c) = None" "published_reuse_failure (ba_graph b) c = None"
    and rel: "find_edge_by_relationship (ba_graph b) (cd_relationship_id c) = None" "cd_relationship_id c \<in> ba_relationship_ids b"
    and c: "cd_id c \<noteq> []" "\<not> cd_cross_domain c" "cd_domain c = d"
  shows "moves d b b'"
proof -
  obtain m n ds f where b': "b' = step_batch (snd (insert_edge (published_edge au p (g_generation (ba_graph b)) c m n) (ba_graph b))) ds f b"
    using run by (auto simp: publish_new_edge_def Let_def split: if_splits option.splits)
  let ?x = "published_edge au p (g_generation (ba_graph b)) c m n"
  have x: "ed_id ?x = cd_id c" "edge_key_of ?x = cd_key c" "ed_relationship_id ?x = cd_relationship_id c" "ed_domain ?x = cd_domain c"
    "\<not> ed_cross_domain ?x" "ed_superseded_by ?x = None"
    using c(2) by (simp_all add: published_edge_def edge_key_of_def asserted_edge_def cd_key_def)
  have "find_edge (ba_graph b) (cd_id c) = None"
  proof (cases "find_edge (ba_graph b) (cd_id c)")
    case (Some y)
    then have "edge_key_of y = cd_key c" using new(2) by (simp add: published_reuse_failure_def split: if_splits)
    with edge_key_indexed [OF inv Some] new(1) show ?thesis by simp
  qed
  with x new(1) rel c have "reconciles d (ba_relationship_ids b) (ba_graph b) (snd (insert_edge ?x (ba_graph b)))"
    by (intro reconciles_add_edge [OF inv]) (simp_all add: new_in_def)
  then show ?thesis unfolding b' by (rule moves_step)
qed

lemma republish_edge_moves:
  assumes inv: "graph_inv (ba_graph b)" and x: "find_edge (ba_graph b) i = Some x" "ed_domain x = d"
    and run: "republish_edge au p c x b = Inr b'"
  shows "moves d b b'"
proof -
  have i: "ed_id x = i" using graph_inv_ids [OF inv x(1)] .
  let ?y = "republished_edge au p (g_generation (ba_graph b)) c x"
  consider "b' = count_unchanged_edge b \<or> b' = count_unchanged_edge (b\<lparr>ba_stale := ba_stale b + 1, ba_stale_detail := ed_id x\<rparr>)"
    | ds f where "\<not> ended x" "b' = step_batch (snd (update_edge ?y (ba_graph b))) ds f b"
    using run by (auto simp: republish_edge_def Let_def split: if_splits)
  then show ?thesis
  proof cases
    case 1
    then show ?thesis using inv by (intro moves_same) (auto simp: count_unchanged_edge_def)
  next
    case 2
    then have "reconciles d (ba_relationship_ids b) (ba_graph b) (snd (update_edge ?y (ba_graph b)))"
      using x i by (intro reconciles_set_edge [OF inv, where x = x])
        (auto simp: republished_edge_def kept_edge_def same_shape_def)
    with 2 show ?thesis by (simp add: moves_step)
  qed
qed

lemma fresh_relationship:
  assumes g: "grown d g b" and new: "find_edge_by_key (ba_graph b) k = None" and r: "r \<notin> ba_relationship_ids b"
    and agree: "\<And>i y. find_edge g i = Some y \<Longrightarrow> ed_relationship_id y = r \<Longrightarrow> edge_key_of y = k"
  shows "find_edge_by_relationship (ba_graph b) r = None"
proof (rule ccontr)
  note inv = grown_inv [OF g]
  assume "find_edge_by_relationship (ba_graph b) r \<noteq> None"
  then obtain i y where y: "find_edge (ba_graph b) i = Some y" "ed_relationship_id y = r"
    using edge_by_relationship_stored [OF inv] by fastforce
  have "(\<exists>x. find_edge g i = Some x \<and> kept_edge x y) \<or> new_in d (ba_relationship_ids b) y"
    using reconcilesD(5) y(1) g unfolding grown_def by blast
  then obtain x where x: "find_edge g i = Some x" "kept_edge x y" using y(2) r by (auto simp: new_in_def)
  then have "edge_key_of x = k" using agree y(2) by (auto simp: kept_edge_def)
  with x(2) have "edge_key_of y = k" using kept_edge_key by simp
  with edge_key_indexed [OF inv y(1)] new show False by simp
qed

lemma observe_presence_moves:
  assumes g: "grown d g b" and run: "observe_presence e au p c b = Inr b'" and d: "cd_domain c = d" "\<not> cd_cross_domain c"
    and agree: "\<And>i y. find_edge g i = Some y \<Longrightarrow> ed_relationship_id y = cd_relationship_id c \<Longrightarrow> edge_key_of y = cd_key c"
  shows "moves d b b'"
proof -
  note inv = grown_inv [OF g]
  let ?b = "b\<lparr>ba_relationship_ids := insert (cd_relationship_id c) (ba_relationship_ids b)\<rparr>"
  have r: "cd_relationship_id c \<notin> ba_relationship_ids b"
    and ids: "published_id_failure (ba_graph b) c = None" "published_reuse_failure (ba_graph b) c = None"
    and val: "validate_relationship_candidate (ba_graph b) c (find_edge_by_key (ba_graph b) (cd_key c) = None) = None"
    and rest: "(case find_edge_by_key (ba_graph b) (cd_key c) of None \<Rightarrow> publish_new_edge e au p c ?b
      | Some j \<Rightarrow> republish_edge au p c (the (find_edge (ba_graph b) j)) ?b) = Inr b'"
    using run by (auto simp: observe_presence_def Let_def split: if_splits option.splits)
  have id: "cd_id c \<noteq> []" using val by (rule validated)
  have start: "moves d b ?b" using inv by (intro moves_same) auto
  have "moves d ?b b'"
  proof (cases "find_edge_by_key (ba_graph b) (cd_key c)")
    case None
    with rest have "publish_new_edge e au p c ?b = Inr b'" by simp
    then show ?thesis
      using inv None ids id d fresh_relationship [OF g None r agree] by (intro publish_new_edge_moves) simp_all
  next
    case (Some j)
    obtain x where x: "find_edge (ba_graph b) j = Some x" "edge_key_of x = cd_key c" using edge_by_key_stored [OF inv Some] by blast
    have "ed_domain x = d" using x(2) d(1) by (auto simp: edge_key_of_def cd_key_def make_edge_key_def split: if_splits)
    with x Some rest inv show ?thesis by (intro republish_edge_moves [where i = j and x = x]) simp_all
  qed
  with start show ?thesis by (rule moves_trans)
qed

lemma observe_edge_moves:
  assumes g: "grown (pu_domain p) g b" and agree: "relationships_agree g p" and x: "x \<in> set (pu_edges p)"
    and run: "observe_edge e au p x b = Inr b'"
  shows "moves (pu_domain p) b b'"
proof -
  note inv = grown_inv [OF g]
  let ?b = "b\<lparr>ba_edge_keys := insert (render_edge_key (observed_key p x)) (ba_edge_keys b),
      ba_mentioned_edges := insert (render_edge_key (observed_key p x)) (ba_mentioned_edges b)\<rparr>"
  have d: "entry_domain (oe_domain x) p = pu_domain p" using run by (simp add: observe_edge_def Let_def split: if_splits)
  have g': "grown (pu_domain p) g ?b" using g by (simp add: grown_def)
  have start: "moves (pu_domain p) b ?b" using inv by (intro moves_same) auto
  have "moves (pu_domain p) ?b b'"
  proof (cases "oe_present x")
    case True
    with run obtain layer where "observe_presence e au p (published_candidate p x layer) ?b = Inr b'"
      by (auto simp: observe_edge_def Let_def split: if_splits option.splits)
    then show ?thesis
      using agree x True d
      by (intro observe_presence_moves [OF g']) (auto simp: published_candidate_facts relationships_agree_def)
  next
    case False
    with run have "observe_absence p (observed_key p x) ?b = Inr b'" by (simp add: observe_edge_def Let_def split: if_splits)
    then show ?thesis using inv d by (intro observe_absence_moves) simp_all
  qed
  with start show ?thesis by (rule moves_trans)
qed

lemma declare_absent_moves:
  assumes inv: "graph_inv (ba_graph b)"
  shows "moves (pu_domain p) b (declare_absent p rel b)"
proof (cases "\<exists>i x. rel \<noteq> [] \<and> find_edge_by_relationship (ba_graph b) rel = Some i \<and> find_edge (ba_graph b) i = Some x \<and>
    ed_domain x = pu_domain p \<and> \<not> ended x")
  case True
  then obtain i x where x: "rel \<noteq> []" "find_edge_by_relationship (ba_graph b) rel = Some i" "find_edge (ba_graph b) i = Some x"
    "ed_domain x = pu_domain p" "\<not> ended x" by blast
  let ?b = "b\<lparr>ba_mentioned_edges := insert (render_edge_key (edge_key_of x)) (ba_mentioned_edges b)\<rparr>"
  have "moves (pu_domain p) b ?b" using inv by (intro moves_same) auto
  moreover have "moves (pu_domain p) ?b (drop_published p x ?b)"
    using inv x by (intro drop_published_moves [where i = i]) simp_all
  ultimately have "moves (pu_domain p) b (drop_published p x ?b)" by (rule moves_trans)
  with x show ?thesis by (simp add: declare_absent_def)
next
  case False
  then have "declare_absent p rel b = b" by (auto simp: declare_absent_def split: option.splits)
  with inv show ?thesis by (simp add: moves_same)
qed

lemma replace_edge_graph:
  "find_edge (ba_graph (fold replace_edge is b)) j = (if j \<in> set is then None else find_edge (ba_graph b) j)"
  if "graph_inv (ba_graph b)"
  using that
proof (induction "is" arbitrary: b)
  case (Cons i "is")
  have f: "find_edge (snd (erase_edge i g)) j = (if j = i then None else find_edge g j)" for g j
    by (simp add: find_edge_def lookup_simps)
  have "ba_graph (replace_edge i b) = snd (erase_edge i (ba_graph b)) \<or> ba_graph (replace_edge i b) = ba_graph b \<and> find_edge (ba_graph b) i = None"
    using graph_inv_ids [OF Cons.prems] by (auto simp: replace_edge_def erase_published_def split: option.split)
  then show ?case using Cons.IH [of "replace_edge i b"] Cons.prems f erase_edge_inv [OF Cons.prems] by auto
qed simp

lemma replace_edge_moves:
  "graph_inv (ba_graph b) \<Longrightarrow> (\<And>i x. i \<in> set is \<Longrightarrow> find_edge (ba_graph b) i = Some x \<Longrightarrow> \<not> ended x \<and> ed_domain x = d) \<Longrightarrow>
   moves d b (fold replace_edge is b) \<and> ba_mentioned_edges (fold replace_edge is b) = ba_mentioned_edges b \<and>
     ba_mentioned_nodes (fold replace_edge is b) = ba_mentioned_nodes b \<and> g_nodes (ba_graph (fold replace_edge is b)) = g_nodes (ba_graph b)"
proof (induction "is" arbitrary: b)
  case Nil
  then show ?case by (simp add: moves_same)
next
  case (Cons i "is")
  let ?c = "replace_edge i b"
  have c: "moves d b ?c"
  proof (cases "find_edge (ba_graph b) i")
    case None
    with Cons.prems(1) show ?thesis by (simp add: replace_edge_def moves_same)
  next
    case (Some x)
    have "ed_id x = i" using graph_inv_ids [OF Cons.prems(1) Some] .
    moreover have "reconciles d (ba_relationship_ids b) (ba_graph b) (snd (erase_edge i (ba_graph b)))"
      using Cons.prems(2) [of i x] Some by (intro reconciles_del_edge [OF Cons.prems(1) Some]) auto
    ultimately show ?thesis using Some by (simp add: replace_edge_def erase_published_def moves_step)
  qed
  have frame: "ba_mentioned_edges ?c = ba_mentioned_edges b" "ba_mentioned_nodes ?c = ba_mentioned_nodes b"
    "g_nodes (ba_graph ?c) = g_nodes (ba_graph b)"
    by (simp_all add: replace_edge_def erase_published_def frame_simps split: option.split)
  have "find_edge (ba_graph ?c) j = Some x \<Longrightarrow> find_edge (ba_graph b) j = Some x" for j x
    using replace_edge_graph [OF Cons.prems(1), of "[i]" j] by (simp split: if_splits)
  then have "moves d ?c (fold replace_edge is ?c) \<and> ba_mentioned_edges (fold replace_edge is ?c) = ba_mentioned_edges ?c \<and>
      ba_mentioned_nodes (fold replace_edge is ?c) = ba_mentioned_nodes ?c \<and>
      g_nodes (ba_graph (fold replace_edge is ?c)) = g_nodes (ba_graph ?c)"
    using Cons.prems(2) by (intro Cons.IH [OF moves_inv [OF c]]) (meson list.set_intros(2))
  then show ?case using moves_trans [OF c] frame by simp
qed

lemma replace_node_moves:
  assumes inv: "graph_inv (ba_graph b)" and dom: "\<And>n. find_node (ba_graph b) i = Some n \<Longrightarrow> nd_domain n = d"
  shows "moves d b (replace_node i b)"
    and "find_node (ba_graph (replace_node i b)) j =
      (if j = i then (case find_node (ba_graph b) i of Some n \<Rightarrow>
           if sorted_bucket (g_incident (ba_graph b)) i \<noteq> [] then Some (retired_node n) else None | None \<Rightarrow> None)
       else find_node (ba_graph b) j)"
    and "g_edges (ba_graph (replace_node i b)) = g_edges (ba_graph b)"
proof -
  have shape: "node_shape (retired_node n) = node_shape n" "nd_id (retired_node n) = nd_id n" "nd_entity_id (retired_node n) = nd_entity_id n" for n
    by (simp_all add: retired_node_def node_shape_def)
  show "moves d b (replace_node i b)"
  proof (cases "find_node (ba_graph b) i")
    case None
    with inv show ?thesis by (simp add: replace_node_def moves_same)
  next
    case (Some n)
    have i: "nd_id n = i" using graph_inv_node_ids [OF inv Some] .
    have "reconciles d (ba_relationship_ids b) (ba_graph b) (snd (update_node (retired_node n) (ba_graph b)))"
      using Some i shape by (intro reconciles_set_node [OF inv]) simp_all
    moreover have "reconciles d (ba_relationship_ids b) (ba_graph b) (snd (erase_node i (ba_graph b)))"
      using dom by (rule reconciles_del_node [OF inv])
    ultimately show ?thesis using Some by (simp add: replace_node_def Let_def moves_step)
  qed
  show "find_node (ba_graph (replace_node i b)) j =
      (if j = i then (case find_node (ba_graph b) i of Some n \<Rightarrow>
           if sorted_bucket (g_incident (ba_graph b)) i \<noteq> [] then Some (retired_node n) else None | None \<Rightarrow> None)
       else find_node (ba_graph b) j)"
  proof (cases "find_node (ba_graph b) i")
    case None
    then show ?thesis by (auto simp: replace_node_def)
  next
    case (Some n)
    then show ?thesis
      using graph_inv_node_ids [OF inv Some] shape(2) [of n]
      by (auto simp: replace_node_def Let_def find_after_update_node) (auto simp: find_node_def lookup_simps)
  qed
  show "g_edges (ba_graph (replace_node i b)) = g_edges (ba_graph b)"
    by (simp add: replace_node_def Let_def frame_simps split: option.split)
qed

end
