(* ===== verification/Published.thy ===== *)
theory Published
  imports Reconcile
begin

text \<open>
  The publication as a whole: the replacement of a snapshot, the batch, the handler.
\<close>

subsection \<open>The replacement of a domain\<close>

lemma replace_nodes_moves:
  "graph_inv (ba_graph b) \<Longrightarrow> (\<And>i n. i \<in> set is \<Longrightarrow> find_node (ba_graph b) i = Some n \<Longrightarrow> nd_domain n = d) \<Longrightarrow> distinct is \<Longrightarrow>
   moves d b (fold replace_node is b) \<and> g_edges (ba_graph (fold replace_node is b)) = g_edges (ba_graph b) \<and>
   (\<forall>j. if j \<in> set is
      then \<forall>m. find_node (ba_graph (fold replace_node is b)) j = Some m \<longrightarrow> (\<exists>n. find_node (ba_graph b) j = Some n \<and> m = retired_node n)
      else find_node (ba_graph (fold replace_node is b)) j = find_node (ba_graph b) j)"
proof (induction "is" arbitrary: b)
  case Nil
  then show ?case by (simp add: moves_same)
next
  case (Cons i "is")
  let ?c = "replace_node i b" and ?e = "fold replace_node is (replace_node i b)"
  have dom: "find_node (ba_graph b) i = Some n \<Longrightarrow> nd_domain n = d" for n using Cons.prems(2) [of i n] by simp
  have step: "moves d b ?c" "g_edges (ba_graph ?c) = g_edges (ba_graph b)"
    using replace_node_moves(1,3) [OF Cons.prems(1), of i d] dom by blast+
  have find: "find_node (ba_graph ?c) j = (if j = i then (case find_node (ba_graph b) i of Some n \<Rightarrow>
      if sorted_bucket (g_incident (ba_graph b)) i \<noteq> [] then Some (retired_node n) else None | None \<Rightarrow> None)
      else find_node (ba_graph b) j)" for j
    by (rule replace_node_moves(2) [OF Cons.prems(1) dom])
  have old: "j \<in> set is \<Longrightarrow> find_node (ba_graph ?c) j = Some n \<Longrightarrow> nd_domain n = d" for j n
    using find [of j] Cons.prems(2) [of j n] Cons.prems(3) by (auto split: if_splits)
  have IH: "moves d ?c ?e" "g_edges (ba_graph ?e) = g_edges (ba_graph ?c)"
    "j \<in> set is \<Longrightarrow> find_node (ba_graph ?e) j = Some m \<Longrightarrow> \<exists>n. find_node (ba_graph ?c) j = Some n \<and> m = retired_node n"
    "j \<notin> set is \<Longrightarrow> find_node (ba_graph ?e) j = find_node (ba_graph ?c) j" for j m
  proof -
    have "moves d ?c ?e \<and> g_edges (ba_graph ?e) = g_edges (ba_graph ?c) \<and>
        (\<forall>j. if j \<in> set is then \<forall>m. find_node (ba_graph ?e) j = Some m \<longrightarrow> (\<exists>n. find_node (ba_graph ?c) j = Some n \<and> m = retired_node n)
          else find_node (ba_graph ?e) j = find_node (ba_graph ?c) j)"
      using Cons.prems(3) by (intro Cons.IH [OF moves_inv [OF step(1)]]) (simp_all add: old)
    then show "moves d ?c ?e" "g_edges (ba_graph ?e) = g_edges (ba_graph ?c)"
      "j \<in> set is \<Longrightarrow> find_node (ba_graph ?e) j = Some m \<Longrightarrow> \<exists>n. find_node (ba_graph ?c) j = Some n \<and> m = retired_node n"
      "j \<notin> set is \<Longrightarrow> find_node (ba_graph ?e) j = find_node (ba_graph ?c) j" for j m
      by (meson)+
  qed
  have "find_node (ba_graph ?e) i = Some m \<Longrightarrow> \<exists>n. find_node (ba_graph b) i = Some n \<and> m = retired_node n" for m
    using IH(4) [of i] find [of i] Cons.prems(3) by (auto split: option.splits if_splits)
  moreover have "\<exists>n. find_node (ba_graph b) j = Some n \<and> m = retired_node n"
    if "j \<in> set is" "find_node (ba_graph ?e) j = Some m" for j m
  proof -
    have "j \<noteq> i" using that(1) Cons.prems(3) by auto
    with IH(3) [OF that] find [of j] show ?thesis by simp
  qed
  moreover have "find_node (ba_graph ?e) j = find_node (ba_graph b) j" if "j \<noteq> i" "j \<notin> set is" for j
    using IH(4) [OF that(2)] find [of j] that(1) by simp
  ultimately show ?case
    using moves_trans [OF step(1) IH(1)] IH(2) step(2) by simp
qed

lemma stored_values:
  assumes "graph_inv g"
  shows "set (sorted_values (g_edges g)) = {x. find_edge g (ed_id x) = Some x}"
    and "set (sorted_values (g_nodes g)) = {n. find_node g (nd_id n) = Some n}"
    and "distinct (map nd_id (filter P (sorted_values (g_nodes g))))"
proof -
  have fin: "finite (Mapping.keys (g_edges g))" "finite (Mapping.keys (g_nodes g))" using assms by (simp_all add: graph_inv_def)
  show "set (sorted_values (g_edges g)) = {x. find_edge g (ed_id x) = Some x}"
    using graph_inv_ids [OF assms] fin by (fastforce simp: set_sorted_values find_edge_def)
  show "set (sorted_values (g_nodes g)) = {n. find_node g (nd_id n) = Some n}"
    using graph_inv_node_ids [OF assms] fin by (fastforce simp: set_sorted_values find_node_def)
  show "distinct (map nd_id (filter P (sorted_values (g_nodes g))))"
    using sorted_values_listing(2) [OF fin(2), of nd_id P] assms by (simp add: graph_inv_def strict_sorted_iff)
qed

lemma stored_ids:
  assumes "graph_inv g"
  shows "i \<in> set (sort (map ed_id (filter P (sorted_values (g_edges g))))) \<longleftrightarrow> (\<exists>x. find_edge g i = Some x \<and> P x)"
    and "i \<in> set (sort (map nd_id (filter Q (sorted_values (g_nodes g))))) \<longleftrightarrow> (\<exists>n. find_node g i = Some n \<and> Q n)"
proof -
  show "i \<in> set (sort (map ed_id (filter P (sorted_values (g_edges g))))) \<longleftrightarrow> (\<exists>x. find_edge g i = Some x \<and> P x)"
    unfolding set_sort set_map set_filter stored_values(1) [OF assms] using graph_inv_ids [OF assms, of i] by blast
  show "i \<in> set (sort (map nd_id (filter Q (sorted_values (g_nodes g))))) \<longleftrightarrow> (\<exists>n. find_node g i = Some n \<and> Q n)"
    unfolding set_sort set_map set_filter stored_values(2) [OF assms] using graph_inv_node_ids [OF assms, of i] by blast
qed

lemma replace_domain_moves:
  assumes inv: "graph_inv (ba_graph b)"
  shows "moves (pu_domain p) b (replace_domain p b)"
    and "pu_mode p = PM_AuthoritativeSnapshot \<Longrightarrow> find_edge (ba_graph (replace_domain p b)) j =
      (case find_edge (ba_graph b) j of Some x \<Rightarrow> if unmentioned_edge p b x then None else Some x | None \<Rightarrow> None)"
    and "pu_mode p = PM_AuthoritativeSnapshot \<Longrightarrow> find_node (ba_graph (replace_domain p b)) i = Some m \<Longrightarrow>
      nd_domain m = pu_domain p \<Longrightarrow> i \<notin> ba_mentioned_nodes b \<Longrightarrow> \<exists>n. find_node (ba_graph b) i = Some n \<and> m = retired_node n"
    and "pu_mode p = PM_AuthoritativeSnapshot \<Longrightarrow> i \<in> ba_mentioned_nodes b \<Longrightarrow>
      find_node (ba_graph (replace_domain p b)) i = find_node (ba_graph b) i"
proof -
  let ?is = "sort (map ed_id (filter (unmentioned_edge p b) (sorted_values (g_edges (ba_graph b)))))"
  let ?c = "fold replace_edge ?is b"
  have ins: "i \<in> set ?is \<longleftrightarrow> (\<exists>x. find_edge (ba_graph b) i = Some x \<and> unmentioned_edge p b x)" for i
    by (rule stored_ids(1) [OF inv])
  have e: "moves (pu_domain p) b ?c" "ba_mentioned_nodes ?c = ba_mentioned_nodes b" "g_nodes (ba_graph ?c) = g_nodes (ba_graph b)"
  proof -
    have dom: "\<not> ended x \<and> ed_domain x = pu_domain p" if "i \<in> set ?is" "find_edge (ba_graph b) i = Some x" for i x
      using that(1) that(2) unfolding ins by (auto simp: unmentioned_edge_def)
    have "moves (pu_domain p) b ?c \<and> ba_mentioned_edges ?c = ba_mentioned_edges b \<and> ba_mentioned_nodes ?c = ba_mentioned_nodes b \<and>
        g_nodes (ba_graph ?c) = g_nodes (ba_graph b)"
      by (rule replace_edge_moves [OF inv]) (rule dom)
    then show "moves (pu_domain p) b ?c" "ba_mentioned_nodes ?c = ba_mentioned_nodes b"
      "g_nodes (ba_graph ?c) = g_nodes (ba_graph b)" by blast+
  qed
  note c = moves_inv [OF e(1)]
  have fe: "find_edge (ba_graph ?c) j =
      (case find_edge (ba_graph b) j of Some x \<Rightarrow> if unmentioned_edge p b x then None else Some x | None \<Rightarrow> None)" for j
    unfolding replace_edge_graph [OF inv] ins by (simp split: option.split)
  let ?js = "sort (map nd_id (filter (unmentioned_node p ?c) (sorted_values (g_nodes (ba_graph ?c)))))"
  have inj: "j \<in> set ?js \<longleftrightarrow> (\<exists>n. find_node (ba_graph ?c) j = Some n \<and> nd_domain n = pu_domain p \<and> j \<notin> ba_mentioned_nodes b)" for j
    unfolding stored_ids(2) [OF c] unmentioned_node_def e(2) using graph_inv_node_ids [OF c, of j] by blast
  have "distinct ?js" by (simp only: distinct_sort) (rule stored_values(3) [OF c])
  then have n: "moves (pu_domain p) ?c (fold replace_node ?js ?c)" "g_edges (ba_graph (fold replace_node ?js ?c)) = g_edges (ba_graph ?c)"
    "j \<in> set ?js \<Longrightarrow> find_node (ba_graph (fold replace_node ?js ?c)) j = Some m \<Longrightarrow>
      \<exists>n. find_node (ba_graph ?c) j = Some n \<and> m = retired_node n"
    "j \<notin> set ?js \<Longrightarrow> find_node (ba_graph (fold replace_node ?js ?c)) j = find_node (ba_graph ?c) j" for j m
  proof -
    have dom: "nd_domain n = pu_domain p" if "j \<in> set ?js" "find_node (ba_graph ?c) j = Some n" for j n
      using that(1) that(2) unfolding inj by auto
    have "moves (pu_domain p) ?c (fold replace_node ?js ?c) \<and> g_edges (ba_graph (fold replace_node ?js ?c)) = g_edges (ba_graph ?c) \<and>
        (\<forall>j. if j \<in> set ?js
          then \<forall>m. find_node (ba_graph (fold replace_node ?js ?c)) j = Some m \<longrightarrow> (\<exists>n. find_node (ba_graph ?c) j = Some n \<and> m = retired_node n)
          else find_node (ba_graph (fold replace_node ?js ?c)) j = find_node (ba_graph ?c) j)"
      by (rule replace_nodes_moves [OF c _ \<open>distinct ?js\<close>]) (rule dom)
    then show "moves (pu_domain p) ?c (fold replace_node ?js ?c)" "g_edges (ba_graph (fold replace_node ?js ?c)) = g_edges (ba_graph ?c)"
      "j \<in> set ?js \<Longrightarrow> find_node (ba_graph (fold replace_node ?js ?c)) j = Some m \<Longrightarrow>
      \<exists>n. find_node (ba_graph ?c) j = Some n \<and> m = retired_node n"
      "j \<notin> set ?js \<Longrightarrow> find_node (ba_graph (fold replace_node ?js ?c)) j = find_node (ba_graph ?c) j" for j m
      by meson+
  qed
  have r: "replace_domain p b = fold replace_node ?js ?c" if "pu_mode p = PM_AuthoritativeSnapshot"
    using that by (simp add: replace_domain_def replace_nodes_def replace_edges_def)
  show "moves (pu_domain p) b (replace_domain p b)"
    using r moves_trans [OF e(1) n(1)] moves_same [OF inv, of b] by (cases "pu_mode p = PM_AuthoritativeSnapshot") (simp_all add: replace_domain_def)
  assume snap: "pu_mode p = PM_AuthoritativeSnapshot"
  show "find_edge (ba_graph (replace_domain p b)) j =
      (case find_edge (ba_graph b) j of Some x \<Rightarrow> if unmentioned_edge p b x then None else Some x | None \<Rightarrow> None)"
    unfolding r [OF snap] using n(2) fe [of j] by (simp add: find_edge_def)
  show "i \<in> ba_mentioned_nodes b \<Longrightarrow> find_node (ba_graph (replace_domain p b)) i = find_node (ba_graph b) i"
    unfolding r [OF snap] using n(4) [of i] inj [of i] e(3) by (simp add: find_node_def)
  assume m: "find_node (ba_graph (replace_domain p b)) i = Some m" "nd_domain m = pu_domain p" "i \<notin> ba_mentioned_nodes b"
  show "\<exists>n. find_node (ba_graph b) i = Some n \<and> m = retired_node n"
  proof (cases "i \<in> set ?js")
    case True
    have "\<exists>n. find_node (ba_graph ?c) i = Some n \<and> m = retired_node n"
      using n(3) [OF True] m(1) unfolding r [OF snap] by blast
    then show ?thesis using e(3) by (simp add: find_node_def)
  next
    case False
    with m(1) have "find_node (ba_graph ?c) i = Some m" unfolding r [OF snap] by (simp add: n(4))
    with m(2,3) have "i \<in> set ?js" unfolding inj by blast
    with False show ?thesis by blast
  qed
qed

lemma observe_entries_grown:
  assumes inv: "graph_inv (en_graph e)" and agree: "relationships_agree (en_graph e) p" and run: "observe_entries e au p = Inr b"
  shows "grown (pu_domain p) (en_graph e) b"
proof -
  let ?G = "grown (pu_domain p) (en_graph e)"
  let ?edges = "sort_key (\<lambda>x. render_edge_key (make_edge_key (oe_relation x) (oe_from x) (oe_to x) (oe_domain x))) (pu_edges p)"
  obtain c d where c: "each_entry (observe_node e au p) (sort_key on_entity_id (pu_nodes p)) (start_batch (en_graph e)) = Inr c"
    and d: "each_entry (observe_edge e au p) ?edges c = Inr d"
    and b: "b = fold (declare_absent p) (pu_declared_absent p) d"
    using run by (auto simp: observe_entries_def split: sum.splits)
  have node: "?G x \<Longrightarrow> observe_node e au p o' x = Inr y \<Longrightarrow> ?G y" for o' x y
    using observe_node_moves grown_moves grown_inv by blast
  have edge: "o' \<in> set ?edges \<Longrightarrow> ?G x \<Longrightarrow> observe_edge e au p o' x = Inr y \<Longrightarrow> ?G y" for o' x y
    using observe_edge_moves [OF _ agree] grown_moves by (metis set_sort)
  have "?G (start_batch (en_graph e))" using inv by (simp add: grown_def start_batch_def reconciles_refl)
  then have "?G c" using c by (rule each_entry_keeps) (rule node)
  then have "?G d" using d by (rule each_entry_keeps) (rule edge)
  moreover have absent: "?G x \<Longrightarrow> ?G (declare_absent p r x)" for r x
    by (rule grown_moves [OF _ declare_absent_moves]) (auto intro: grown_inv)
  have "?G x \<Longrightarrow> ?G (fold (declare_absent p) is x)" for "is" x
    by (induction "is" arbitrary: x) (simp_all add: absent)
  ultimately show ?thesis unfolding b by blast
qed

lemma observe_batch_grown:
  assumes "graph_inv (en_graph e)" "relationships_agree (en_graph e) p" "observe_batch e au p = Inr b"
  shows "grown (pu_domain p) (en_graph e) b"
  using assms observe_entries_grown [OF assms(1,2)] replace_domain_moves(1) grown_moves grown_inv
  by (fastforce simp: observe_batch_def split: sum.splits)

subsection \<open>The invariant survives\<close>

lemma generation_frame [simp]:
  "find_node (g\<lparr>g_generation := v\<rparr>) i = find_node g i" "acyclic_relations_hold (g\<lparr>g_generation := v\<rparr>) = acyclic_relations_hold g"
  "edge_fits (g\<lparr>g_generation := v\<rparr>) x = edge_fits g x" "edge_sound (g\<lparr>g_generation := v\<rparr>) x = edge_sound g x"
  by (simp_all add: find_node_def acyclic_relations_hold_def depends_def edge_fits_def scope_ok_def edge_sound_def)

lemma graph_ok_generation: "graph_ok (g\<lparr>g_generation := v\<rparr>) = graph_ok g"
  by (simp add: graph_ok_def rules_ok_def)

lemma endpoint_domain_kept:
  assumes r: "reconciles d R g h" and old: "find_node g i = Some n" and new: "find_node h i = Some m"
  shows "nd_domain m = nd_domain n"
proof (cases "nd_domain n = d")
  case True
  with reconcilesD(7) [OF r new] old show ?thesis by (auto simp: node_shape_def)
next
  case False
  with reconcilesD(6) [OF r old] new show ?thesis by (auto simp: node_shape_def)
qed

lemma reconciled_edge_fits:
  assumes ok: "graph_ok g" and r: "reconciles d R g h" and x: "find_edge h i = Some x" and sound: "edge_sound h x"
  shows "edge_fits h x"
proof -
  obtain a b where ab: "find_node h (ed_from x) = Some a" "find_node h (ed_to x) = Some b"
    and scope: "ed_domain x = nd_domain a \<and> ed_domain x = nd_domain b \<or> permitted_cross x a b"
    and rest: "relation_endpoints_permitted (ed_relation x) (nd_class a) (nd_class b)"
      "relation_layer_permitted (ed_relation x) (ed_layer x)" "ed_from x \<noteq> ed_to x"
    using sound by (auto simp: edge_sound_def)
  have "scope_ok h x (nd_domain a) (nd_domain b)"
  proof (cases "ed_cross_domain x")
    case True
    with reconcilesD(5) [OF r x] obtain y where y: "find_edge g i = Some y" "kept_edge y x" by (auto simp: new_in_def)
    then have same: "ed_from x = ed_from y" "ed_to x = ed_to y" "ed_relation x = ed_relation y" "ed_domain x = ed_domain y"
      "ed_cross_domain x = ed_cross_domain y" "ed_secondary_domain x = ed_secondary_domain y"
      by (simp_all add: kept_edge_def same_shape_def)
    obtain m n where mn: "find_node g (ed_from y) = Some m" "find_node g (ed_to y) = Some n"
      and old: "scope_ok g y (nd_domain m) (nd_domain n)"
      using graph_okD(7) [OF ok y(1)] by (auto simp: edge_fits_def)
    have "nd_domain a = nd_domain m" "nd_domain b = nd_domain n"
      using endpoint_domain_kept [OF r mn(1)] endpoint_domain_kept [OF r mn(2)] ab same by simp_all
    moreover have "g_cross_domain_rules h = g_cross_domain_rules g" using reconcilesD(2) [OF r] by (simp add: base_frame_def)
    ultimately show ?thesis using old True same by (simp add: scope_ok_def)
  next
    case False
    with scope show ?thesis by (auto simp: scope_ok_def permitted_cross_def)
  qed
  with ab rest show ?thesis by (auto simp: edge_fits_def)
qed

lemma reconciled_ok:
  assumes ok: "graph_ok g" and r: "reconciles d R g h" and d: "has_key (g_domain_definitions g) d"
    and sound: "\<And>i x. find_edge h i = Some x \<Longrightarrow> edge_sound h x" and acyclic: "acyclic_relations_hold h"
  shows "graph_ok h"
proof -
  have frame: "g_domain_definitions h = g_domain_definitions g" "g_cross_domain_rules h = g_cross_domain_rules g"
    using reconcilesD(2) [OF r] by (simp_all add: base_frame_def)
  have node: "i \<noteq> [] \<and> has_key (g_domain_definitions h) (nd_domain n)" if "find_node h i = Some n" for i n
    using reconcilesD(7) [OF r that] graph_okD(5,6) [OF ok] d by (auto simp: frame node_shape_def)
  have edge: "i \<noteq> [] \<and> edge_fits h x" if x: "find_edge h i = Some x" for i x
  proof
    have "ed_id x = i" by (rule graph_inv_ids [OF reconcilesD(1) [OF r] x])
    then show "i \<noteq> []" using reconcilesD(5) [OF r x] graph_okD(8) [OF ok] by (auto simp: new_in_def)
    show "edge_fits h x" by (rule reconciled_edge_fits [OF ok r x sound [OF x]])
  qed
  show ?thesis
    unfolding graph_ok_def using reconcilesD(1) [OF r] acyclic graph_okD(3,4) [OF ok] node edge
    by (simp add: frame rules_ok_def)
qed

subsection \<open>The handler\<close>

lemma publisher_frame [simp]:
  "en_graph (publisher_rejected p e) = en_graph e" "en_graph (publisher_committed p e) = en_graph e"
  "en_directory (publisher_rejected p e) = en_directory e" "en_directory (publisher_committed p e) = en_directory e"
  "en_attempts (publisher_committed p e) = en_attempts e" "en_limits (publisher_committed p e) = en_limits e"
  "en_generation_advances (publisher_rejected p e) = en_generation_advances e"
  "en_generation_advances (publisher_committed p e) = en_generation_advances e"
  by (simp_all add: publisher_rejected_def publisher_committed_def on_publisher_def split: option.split)

lemma refusal_facts [simp]:
  "\<not> pr_generation_advanced (fst (publication_refused s e))" "\<not> pr_generation_advanced (fst (publication_rejected p s e))"
  "\<not> pr_generation_advanced (publication_answer s e)"
  "\<not> pr_generation_advanced (fst (no_change au p' b e))" "\<not> pr_generation_advanced (fst (replayed au p' e))"
  by (simp_all add: publication_refused_def publication_rejected_def no_change_def replayed_def publication_answer_def)

lemma refusal_graph [simp]:
  "en_graph (snd (publication_refused s e)) = en_graph e" "en_graph (snd (publication_rejected p s e)) = en_graph e"
  "en_graph (snd (no_change au p' b e)) = en_graph e" "en_graph (snd (replayed au p' e)) = en_graph e"
  by (simp_all add: publication_refused_def publication_rejected_def no_change_def replayed_def count_rejected_publication_def
      note_rejected_def note_idempotent_def record_attempt_def)

definition publish_admitted :: "authority_context \<Rightarrow> publication \<Rightarrow> engine \<Rightarrow> bool" where
  "publish_admitted au p e \<longleftrightarrow> publication_malformed (en_limits e) p = None \<and>
     has_key (g_domain_definitions (en_graph e)) (pu_domain p) \<and>
     authorised e au (pu_domain p)
       (if pu_mode p = PM_AuthoritativeSnapshot then GM_AuthoritativeWrite else GM_IncrementalWrite) \<and>
     (pu_expected_generation p = 0 \<or> pu_expected_generation p = en_generation e) \<and> \<not> ledger_seen (pu_id p) (en_attempts e)"

definition next_graph :: "graph \<Rightarrow> graph" where
  "next_graph g = g\<lparr>g_generation := next_counter (g_generation g)\<rparr>"

definition published_engine :: "authority_context \<Rightarrow> publication \<Rightarrow> graph \<Rightarrow> engine \<Rightarrow> engine" where
  "published_engine au p g e =
     (let e1 = e\<lparr>en_graph := g, en_generation_advances := en_generation_advances e + 1\<rparr>;
          e2 = note_committed (publisher_committed (au_publisher au) (record_attempt (pu_id p) e1)) in
      e2\<lparr>en_publications_committed := en_publications_committed e2 + 1\<rparr>)"

lemma published_engine_facts [simp]:
  "en_graph (published_engine au p g e) = g" "en_directory (published_engine au p g e) = en_directory e"
  "en_limits (published_engine au p g e) = en_limits e" "en_generation (published_engine au p g e) = g_generation g"
  "en_attempts (published_engine au p g e) = ledger_record (pu_id p) (en_attempts e)"
  by (simp_all add: published_engine_def Let_def note_committed_def record_attempt_def en_generation_def)

lemma commit_batch_run:
  obtains s where "commit_batch io au p b e = publication_rejected (au_publisher au) s e"
  | "can_advance (g_generation (ba_graph b))" "vr_valid (validate_graph (next_graph (ba_graph b)) (en_directory e) scope_all)"
    "snd (commit_batch io au p b e) = published_engine au p (next_graph (ba_graph b)) e"
    "pr_status (fst (commit_batch io au p b e)) =
       checked_status (published_engine au p (next_graph (ba_graph b)) e) (published_status au p b)"
    "pr_generation_advanced (fst (commit_batch io au p b e))"
    "pr_generation (fst (commit_batch io au p b e)) = g_generation (next_graph (ba_graph b))"
    "outcome_of (persist_locked io (e\<lparr>en_graph := next_graph (ba_graph b), en_generation_advances := en_generation_advances e + 1\<rparr>)) = O_Ok"
  by (cases "can_advance (g_generation (ba_graph b))";
      cases "vr_valid (validate_graph (next_graph (ba_graph b)) (en_directory e) scope_all)";
      cases "outcome_of (persist_locked io (e\<lparr>en_graph := next_graph (ba_graph b),
        en_generation_advances := en_generation_advances e + 1\<rparr>)) = O_Ok")
    (simp_all add: commit_batch_def Let_def published_engine_def next_graph_def en_generation_def note_committed_def record_attempt_def)

lemma publish_run:
  assumes run: "publish io au p e = (r, e')"
  obtains (unchanged) "\<not> pr_generation_advanced r" "en_graph e' = en_graph e"
  | (committed) b where "pr_generation_advanced r" "publish_admitted au p e" "observe_batch e au p = Inr b" "ba_diff b \<noteq> []"
      "can_advance (g_generation (ba_graph b))" "vr_valid (validate_graph (next_graph (ba_graph b)) (en_directory e) scope_all)"
      "e' = published_engine au p (next_graph (ba_graph b)) e"
      "pr_status r = checked_status e' (published_status au p b)" "pr_generation r = en_generation e'"
      "outcome_of (persist_locked io (e\<lparr>en_graph := next_graph (ba_graph b), en_generation_advances := en_generation_advances e + 1\<rparr>)) = O_Ok"
proof (cases "publish_admitted au p e")
  case False
  then have "\<not> pr_generation_advanced (fst (publish io au p e)) \<and> en_graph (snd (publish io au p e)) = en_graph e"
    by (auto simp: publish_def publish_admitted_def required_grant_def stale_generation_def authorised_def Let_def split: option.split)
  with run unchanged show thesis by simp
next
  case True
  then have e: "publish io au p e = settle_batch io au p e"
    by (auto simp: publish_def publish_admitted_def required_grant_def stale_generation_def authorised_def Let_def)
  show thesis
  proof (cases "pr_generation_advanced r")
    case adv: True
    with run e obtain b where b: "observe_batch e au p = Inr b" "ba_diff b \<noteq> []" "commit_batch io au p b e = (r, e')"
      by (auto simp: settle_batch_def split: sum.splits if_splits) (metis fst_conv refusal_facts)+
    show thesis
    proof (cases rule: commit_batch_run [of io au p b e])
      case (1 s)
      with adv b(3) show thesis by (metis fst_conv refusal_facts(2))
    next
      case 2
      with adv b show thesis by (intro committed [OF adv True b(1,2)]) simp_all
    qed
  next
    case False
    have "en_graph (snd (commit_batch io au p b e)) = en_graph e" if "\<not> pr_generation_advanced (fst (commit_batch io au p b e))" for b
      using that by (cases rule: commit_batch_run [of io au p b e]) simp_all
    with False run e have "en_graph e' = en_graph e"
      by (auto simp: settle_batch_def split: sum.splits if_splits) (metis fst_conv snd_conv refusal_graph)+
    with False show thesis by (rule unchanged)
  qed
qed

end
