(* ===== verification/Observed.thy ===== *)
theory Observed
  imports Published
begin

text \<open>
  What the entries of a publication leave in the graph, and the properties of \<open>publish\<close>
  (\<open>src/reconciliation.cpp\<close>) that rest on it.
\<close>

subsection \<open>What the steps leave alone\<close>

lemma rebind_incident_frame:
  "g_nodes (fst (rebind_incident i v g)) = g_nodes g" "base_frame (fst (rebind_incident i v g)) = base_frame g"
proof -
  have "g_nodes (fst (snd (fence_loop skip change is t g ds))) = g_nodes g \<and>
      base_frame (fst (snd (fence_loop skip change is t g ds))) = base_frame g" for skip change "is" t g ds
    by (induction skip change "is" t g ds rule: fence_loop.induct) (auto simp: frame_simps split: option.splits)
  then show "g_nodes (fst (rebind_incident i v g)) = g_nodes g" "base_frame (fst (rebind_incident i v g)) = base_frame g"
    by (simp_all add: rebind_incident_def)
qed

definition edges_only :: "batch \<Rightarrow> batch \<Rightarrow> bool" where
  "edges_only b c \<longleftrightarrow> g_nodes (ba_graph c) = g_nodes (ba_graph b) \<and> ba_node_ids c = ba_node_ids b \<and>
     ba_mentioned_nodes c = ba_mentioned_nodes b \<and> base_frame (ba_graph c) = base_frame (ba_graph b)"

lemma edges_only_trans: "edges_only a b \<Longrightarrow> edges_only b c \<Longrightarrow> edges_only a c"
  by (simp add: edges_only_def)

lemma edges_only_refl [simp]: "edges_only b b"
  by (simp add: edges_only_def)

lemma drop_published_nodes: "edges_only b (drop_published p x b)"
  by (simp add: edges_only_def drop_published_def erase_published_def retire_published_def frame_simps)

lemma count_unchanged_nodes: "edges_only b (count_unchanged_edge b)"
  by (simp add: edges_only_def count_unchanged_edge_def)

lemma observe_absence_nodes: "observe_absence p key b = Inr c \<Longrightarrow> edges_only b c"
  using drop_published_nodes count_unchanged_nodes by (auto simp: observe_absence_def split: if_splits option.splits)

lemma publish_new_edge_nodes: "publish_new_edge e au p x b = Inr c \<Longrightarrow> edges_only b c"
  by (auto simp: publish_new_edge_def Let_def edges_only_def frame_simps split: if_splits option.splits)

lemma republish_edge_nodes: "republish_edge au p x y b = Inr c \<Longrightarrow> edges_only b c"
  by (auto simp: republish_edge_def Let_def edges_only_def count_unchanged_edge_def frame_simps split: if_splits)

lemma observe_edge_nodes:
  assumes "observe_edge e au p x b = Inr c"
  shows "edges_only b c"
proof -
  let ?b = "b\<lparr>ba_edge_keys := insert (render_edge_key (observed_key p x)) (ba_edge_keys b),
      ba_mentioned_edges := insert (render_edge_key (observed_key p x)) (ba_mentioned_edges b)\<rparr>"
  have start: "edges_only b ?b" "edges_only ?b (?b\<lparr>ba_relationship_ids := R\<rparr>)" for R by (simp_all add: edges_only_def)
  have "edges_only ?b c" if run: "observe_presence e au p k ?b = Inr c" for k
  proof -
    let ?c = "?b\<lparr>ba_relationship_ids := insert (cd_relationship_id k) (ba_relationship_ids ?b)\<rparr>"
    have "edges_only ?c c"
      using run publish_new_edge_nodes [of e au p k ?c c] republish_edge_nodes [of au p k _ ?c c]
      by (auto simp: observe_presence_def Let_def split: if_splits option.splits)
    with start(2) show ?thesis by (rule edges_only_trans)
  qed
  then have "edges_only ?b c"
    using assms observe_absence_nodes [of p "observed_key p x" ?b c]
    by (auto simp: observe_edge_def Let_def split: if_splits option.splits)
  with start(1) show ?thesis by (rule edges_only_trans)
qed

lemma declare_absent_nodes: "edges_only b (declare_absent p rel b)"
proof -
  have "edges_only b (b\<lparr>ba_mentioned_edges := S\<rparr>)" for S by (simp add: edges_only_def)
  then show ?thesis
    using edges_only_trans [OF _ drop_published_nodes] by (auto simp: declare_absent_def split: option.split)
qed

lemma replace_domain_frame: "base_frame (ba_graph (replace_domain p b)) = base_frame (ba_graph b)"
proof -
  have e: "base_frame (ba_graph (replace_edge i b)) = base_frame (ba_graph b)" for i b
    by (simp add: replace_edge_def erase_published_def frame_simps split: option.split)
  have n: "base_frame (ba_graph (replace_node i b)) = base_frame (ba_graph b)" for i b
    by (simp add: replace_node_def Let_def frame_simps split: option.split)
  have "base_frame (ba_graph (fold replace_edge is b)) = base_frame (ba_graph b)" for "is" b
    by (induction "is" arbitrary: b) (simp_all add: e)
  moreover have "base_frame (ba_graph (fold replace_node is b)) = base_frame (ba_graph b)" for "is" b
    by (induction "is" arbitrary: b) (simp_all add: n)
  ultimately show ?thesis by (simp add: replace_domain_def replace_edges_def replace_nodes_def)
qed

subsection \<open>What an observed node leaves behind\<close>

definition node_stored :: "engine \<Rightarrow> observed_node \<Rightarrow> node \<Rightarrow> bool" where
  "node_stored e o' n \<longleftrightarrow> nd_entity_id n = on_entity_id o' \<and> nd_tier n = on_tier o' \<and> nd_metadata n = on_metadata o' \<and>
     nd_lifecycle n = LS_Current \<and>
     (\<exists>rec. engine_lookup e (on_entity_id o') = Some rec \<and> er_entity_class rec = node_class_entity_class (on_class o') \<and>
        nd_entity_generation n = er_generation rec)"

lemma republish_graph:
  "g_nodes (ba_graph (republish_node o' rec n b)) =
     g_nodes (snd (update_node (republished_node (g_generation (ba_graph b)) o' rec n) (ba_graph b)))"
  "base_frame (ba_graph (republish_node o' rec n b)) = base_frame (ba_graph b)"
  "ba_node_ids (republish_node o' rec n b) = ba_node_ids b" "ba_mentioned_nodes (republish_node o' rec n b) = ba_mentioned_nodes b"
  by (simp_all add: republish_node_def Let_def case_prod_unfold rebind_incident_frame frame_simps)

lemma settle_node_effect:
  assumes inv: "graph_inv (ba_graph b)" and run: "settle_node e au p o' rec i b = Inr c"
    and rec: "engine_lookup e (on_entity_id o') = Some rec" "er_entity_class rec = node_class_entity_class (on_class o')"
  shows "\<exists>n. find_node (ba_graph c) i = Some n \<and> node_stored e o' n"
    and "j \<noteq> i \<Longrightarrow> find_node (ba_graph c) j = find_node (ba_graph b) j"
    and "base_frame (ba_graph c) = base_frame (ba_graph b)" and "ba_node_ids c = ba_node_ids b"
    and "ba_mentioned_nodes c = ba_mentioned_nodes b"
proof -
  have "(\<exists>n. find_node (ba_graph c) i = Some n \<and> node_stored e o' n) \<and>
      (j \<noteq> i \<longrightarrow> find_node (ba_graph c) j = find_node (ba_graph b) j) \<and> base_frame (ba_graph c) = base_frame (ba_graph b) \<and>
      ba_node_ids c = ba_node_ids b \<and> ba_mentioned_nodes c = ba_mentioned_nodes b"
  proof (cases "find_node (ba_graph b) i")
    case None
    then obtain ds f where c: "c = step_batch (snd (insert_node (published_node au p o' rec i (g_generation (ba_graph b))) (ba_graph b))) ds f b"
      using run by (auto simp: settle_node_def publish_new_node_def Let_def split: option.splits if_splits)
    let ?n = "published_node au p o' rec i (g_generation (ba_graph b))"
    have "find_node (snd (insert_node ?n (ba_graph b))) k = (if k = i then Some ?n else find_node (ba_graph b) k)" for k
      using None by (auto simp: find_node_def lookup_simps has_key_def published_node_def)
    moreover have "node_stored e o' ?n" using rec by (simp add: node_stored_def published_node_def)
    ultimately show ?thesis by (simp add: c frame_simps)
  next
    case (Some n)
    have i: "nd_id n = i" by (rule graph_inv_node_ids [OF inv Some])
    have run': "nd_entity_id n = on_entity_id o'" "(if observed_unchanged o' rec n then
        c = b\<lparr>ba_counts := (ba_counts b)\<lparr>pc_nodes_unchanged := pc_nodes_unchanged (ba_counts b) + 1\<rparr>\<rparr> else c = republish_node o' rec n b)"
      using run Some by (auto simp: settle_node_def split: if_splits)
    show ?thesis
    proof (cases "observed_unchanged o' rec n")
      case True
      then have "node_stored e o' n" using rec run'(1) by (simp add: observed_unchanged_def node_stored_def)
      with True run'(2) Some show ?thesis by simp
    next
      case False
      let ?m = "republished_node (g_generation (ba_graph b)) o' rec n"
      have m: "node_stored e o' ?m" "nd_id ?m = i" using rec run'(1) i by (simp_all add: node_stored_def republished_node_def)
      have c: "c = republish_node o' rec n b" using False run'(2) by simp
      have "find_node (ba_graph c) k = (if k = i then Some ?m else find_node (ba_graph b) k)" for k
        using find_after_update_node [of ?m "ba_graph b" k] Some m(2) by (simp add: c find_node_def republish_graph(1))
      with m(1) show ?thesis by (simp add: c republish_graph)
    qed
  qed
  then show "\<exists>n. find_node (ba_graph c) i = Some n \<and> node_stored e o' n"
    "j \<noteq> i \<Longrightarrow> find_node (ba_graph c) j = find_node (ba_graph b) j" "base_frame (ba_graph c) = base_frame (ba_graph b)"
    "ba_node_ids c = ba_node_ids b" "ba_mentioned_nodes c = ba_mentioned_nodes b" by blast+
qed

lemma observe_node_effect:
  assumes inv: "graph_inv (ba_graph b)" and run: "observe_node e au p o' b = Inr c"
  shows "node_entry_id p o' \<notin> ba_node_ids b" "ba_node_ids c = insert (node_entry_id p o') (ba_node_ids b)"
    "ba_mentioned_nodes c = insert (node_entry_id p o') (ba_mentioned_nodes b)"
    "base_frame (ba_graph c) = base_frame (ba_graph b)"
    "j \<noteq> node_entry_id p o' \<Longrightarrow> find_node (ba_graph c) j = find_node (ba_graph b) j"
    "on_present o' \<Longrightarrow> \<exists>n. find_node (ba_graph c) (node_entry_id p o') = Some n \<and> node_stored e o' n"
    "\<not> on_present o' \<Longrightarrow> find_node (ba_graph c) (node_entry_id p o') = find_node (ba_graph b) (node_entry_id p o')"
proof -
  let ?i = "node_entry_id p o'"
  show fresh: "?i \<notin> ba_node_ids b" using run by (auto simp: observe_node_def Let_def split: if_splits)
  have "ba_node_ids c = insert ?i (ba_node_ids b) \<and> ba_mentioned_nodes c = insert ?i (ba_mentioned_nodes b) \<and>
      base_frame (ba_graph c) = base_frame (ba_graph b) \<and> (j \<noteq> ?i \<longrightarrow> find_node (ba_graph c) j = find_node (ba_graph b) j) \<and>
      (if on_present o' then \<exists>n. find_node (ba_graph c) ?i = Some n \<and> node_stored e o' n
       else find_node (ba_graph c) ?i = find_node (ba_graph b) ?i)" (is ?effect)
  proof (cases "on_present o'")
    case False
    with run fresh have "c = b\<lparr>ba_node_ids := insert ?i (ba_node_ids b), ba_mentioned_nodes := insert ?i (ba_mentioned_nodes b)\<rparr>"
      by (simp add: observe_node_def Let_def split: if_splits)
    with False show ?effect by simp
  next
    case True
    let ?b = "b\<lparr>ba_node_ids := insert ?i (ba_node_ids b), ba_entity_ids := insert (on_entity_id o') (ba_entity_ids b),
        ba_mentioned_nodes := insert ?i (ba_mentioned_nodes b)\<rparr>"
    from run True obtain rec where "published_entity e o' = Inr rec" and settle: "settle_node e au p o' rec ?i ?b = Inr c"
      by (auto simp: observe_node_def Let_def split: if_splits sum.splits)
    then have rec: "engine_lookup e (on_entity_id o') = Some rec" "er_entity_class rec = node_class_entity_class (on_class o')"
      by (auto simp: published_entity_def split: option.splits if_splits)
    have inv': "graph_inv (ba_graph ?b)" using inv by simp
    show ?effect using settle_node_effect [OF inv' settle rec] True by simp
  qed
  then show "ba_node_ids c = insert ?i (ba_node_ids b)" "ba_mentioned_nodes c = insert ?i (ba_mentioned_nodes b)"
    "base_frame (ba_graph c) = base_frame (ba_graph b)"
    "j \<noteq> ?i \<Longrightarrow> find_node (ba_graph c) j = find_node (ba_graph b) j"
    "on_present o' \<Longrightarrow> \<exists>n. find_node (ba_graph c) ?i = Some n \<and> node_stored e o' n"
    "\<not> on_present o' \<Longrightarrow> find_node (ba_graph c) ?i = find_node (ba_graph b) ?i" by (simp_all split: if_splits)
qed

definition node_settled :: "engine \<Rightarrow> publication \<Rightarrow> graph \<Rightarrow> observed_node \<Rightarrow> batch \<Rightarrow> bool" where
  "node_settled e p g o' b \<longleftrightarrow> node_entry_id p o' \<in> ba_node_ids b \<and> node_entry_id p o' \<in> ba_mentioned_nodes b \<and>
     (if on_present o' then \<exists>n. find_node (ba_graph b) (node_entry_id p o') = Some n \<and> node_stored e o' n
      else find_node (ba_graph b) (node_entry_id p o') = find_node g (node_entry_id p o'))"

definition nodes_pending :: "publication \<Rightarrow> graph \<Rightarrow> batch \<Rightarrow> bool" where
  "nodes_pending p g b \<longleftrightarrow> graph_inv (ba_graph b) \<and> base_frame (ba_graph b) = base_frame g \<and>
     ba_mentioned_nodes b = ba_node_ids b \<and> (\<forall>i. i \<notin> ba_node_ids b \<longrightarrow> find_node (ba_graph b) i = find_node g i)"

lemma observe_node_settles:
  assumes P: "nodes_pending p g b" and run: "observe_node e au p o' b = Inr c"
  shows "nodes_pending p g c" "node_settled e p g o' c" "node_settled e p g q b \<Longrightarrow> node_settled e p g q c"
proof -
  have inv: "graph_inv (ba_graph b)" using P by (simp add: nodes_pending_def)
  note eff = observe_node_effect [OF inv run]
  have "graph_inv (ba_graph c)" using moves_inv [OF observe_node_moves [OF inv run]] .
  with P eff(2-5) show "nodes_pending p g c" by (simp add: nodes_pending_def)
  show "node_settled e p g o' c" using eff(1,2,3,6,7) P by (simp add: node_settled_def nodes_pending_def)
  show "node_settled e p g q c" if q: "node_settled e p g q b"
  proof -
    have "node_entry_id p q \<noteq> node_entry_id p o'" using q eff(1) by (auto simp: node_settled_def)
    with q eff(2,3) eff(5) [of "node_entry_id p q"] show ?thesis by (simp add: node_settled_def)
  qed
qed

lemma each_entry_settles:
  assumes "each_entry f xs b = Inr c" "P b"
    and step: "\<And>x b c. x \<in> set xs \<Longrightarrow> P b \<Longrightarrow> f x b = Inr c \<Longrightarrow> P c \<and> Q x c"
    and keep: "\<And>x y b c. x \<in> set xs \<Longrightarrow> P b \<Longrightarrow> f x b = Inr c \<Longrightarrow> Q y b \<Longrightarrow> Q y c"
  shows "P c \<and> (\<forall>y. y \<in> set xs \<or> Q y b \<longrightarrow> Q y c)"
  using assms
proof (induction xs arbitrary: b)
  case (Cons x xs)
  then obtain d where d: "f x b = Inr d" "each_entry f xs d = Inr c" by (auto split: sum.splits)
  have x: "P d \<and> Q x d" using Cons.prems(2) d(1) by (intro Cons.prems(3)) simp_all
  have "P c \<and> (\<forall>y. y \<in> set xs \<or> Q y d \<longrightarrow> Q y c)"
  proof (rule Cons.IH [OF d(2)])
    show "P d" using x ..
    show "P c \<and> Q y c" if "y \<in> set xs" "P b" "f y b = Inr c" for y b c using that by (intro Cons.prems(3)) simp_all
    show "Q y c" if "z \<in> set xs" "P b" "f z b = Inr c" "Q y b" for y z b c using that by (intro Cons.prems(4) [of z b c y]) simp_all
  qed
  moreover have "Q y d" if "Q y b" for y using that Cons.prems(2) d(1) by (intro Cons.prems(4) [of x b d y]) simp_all
  ultimately show ?case using x by auto
qed simp

lemma edges_only_settled: "edges_only b c \<Longrightarrow> node_settled e p g q b \<Longrightarrow> node_settled e p g q c"
proof -
  assume "edges_only b c"
  then have "find_node (ba_graph c) = find_node (ba_graph b)" "ba_node_ids c = ba_node_ids b"
    "ba_mentioned_nodes c = ba_mentioned_nodes b" by (simp_all add: edges_only_def find_node_def fun_eq_iff)
  then show "node_settled e p g q b \<Longrightarrow> node_settled e p g q c" by (simp add: node_settled_def)
qed

lemma observe_node_mentions:
  assumes "observe_node e au p o' b = Inr c"
  shows "ba_mentioned_edges c = ba_mentioned_edges b"
proof -
  have new: "ba_mentioned_edges c = ba_mentioned_edges b" if "publish_new_node e au p o' rec i b = Inr c" for rec i b c
    using that by (auto simp: publish_new_node_def Let_def split: option.splits if_splits)
  have set: "ba_mentioned_edges (republish_node o' rec n b) = ba_mentioned_edges b" for rec n b
    by (simp add: republish_node_def Let_def case_prod_unfold)
  have "ba_mentioned_edges c = ba_mentioned_edges b" if "settle_node e au p o' rec i b = Inr c" for rec i b c
    using that new set by (auto simp: settle_node_def split: option.splits if_splits)
  from this [of _ _ "b\<lparr>ba_node_ids := insert (node_entry_id p o') (ba_node_ids b), ba_entity_ids := insert (on_entity_id o') (ba_entity_ids b),
      ba_mentioned_nodes := insert (node_entry_id p o') (ba_mentioned_nodes b)\<rparr>" c]
  show ?thesis using assms by (auto simp: observe_node_def Let_def split: if_splits sum.splits)
qed

text \<open>The batch before the replacement, with what is known of it.\<close>

lemma observe_entries_steps:
  assumes inv: "graph_inv (en_graph e)" and run: "observe_entries e au p = Inr b"
  obtains c d where "each_entry (observe_edge e au p)
      (sort_key (\<lambda>x. render_edge_key (make_edge_key (oe_relation x) (oe_from x) (oe_to x) (oe_domain x))) (pu_edges p)) c = Inr d"
    and "b = fold (declare_absent p) (pu_declared_absent p) d" and "edges_only c d"
    and "ba_mentioned_nodes c = (node_entry_id p) ` set (pu_nodes p)" and "base_frame (ba_graph c) = base_frame (en_graph e)"
    and "\<And>q. q \<in> set (pu_nodes p) \<Longrightarrow> node_settled e p (en_graph e) q c" and "ba_mentioned_edges c = {}"
proof -
  let ?P = "\<lambda>b. nodes_pending p (en_graph e) b"
  obtain c d where c: "each_entry (observe_node e au p) (sort_key on_entity_id (pu_nodes p)) (start_batch (en_graph e)) = Inr c"
    and d: "each_entry (observe_edge e au p)
      (sort_key (\<lambda>x. render_edge_key (make_edge_key (oe_relation x) (oe_from x) (oe_to x) (oe_domain x))) (pu_edges p)) c = Inr d"
    and b: "b = fold (declare_absent p) (pu_declared_absent p) d"
    using run by (auto simp: observe_entries_def split: sum.splits)
  have start: "?P (start_batch (en_graph e))" using inv by (simp add: nodes_pending_def start_batch_def)
  have P: "?P c \<and> (\<forall>q. q \<in> set (sort_key on_entity_id (pu_nodes p)) \<or>
      node_settled e p (en_graph e) q (start_batch (en_graph e)) \<longrightarrow> node_settled e p (en_graph e) q c)"
    by (rule each_entry_settles [where P = ?P, OF c start]) (blast intro: observe_node_settles)+
  then have settled: "\<And>q. q \<in> set (pu_nodes p) \<Longrightarrow> node_settled e p (en_graph e) q c" by simp
  have eo: "edges_only c d"
    by (rule each_entry_keeps [OF _ d, where P = "edges_only c"]) (auto intro: edges_only_trans observe_edge_nodes)
  let ?M = "\<lambda>b. ?P b \<and> ba_mentioned_edges b = {} \<and> ba_node_ids b \<subseteq> node_entry_id p ` set (pu_nodes p)"
  have "?M (start_batch (en_graph e))" using start by (simp add: start_batch_def)
  then have "?M c"
  proof (rule each_entry_keeps [OF _ c])
    fix x b c' assume "x \<in> set (sort_key on_entity_id (pu_nodes p))" and M: "?M b" and run: "observe_node e au p x b = Inr c'"
    then show "?M c'"
      using observe_node_settles(1) [OF conjunct1 [OF M] run] observe_node_mentions [OF run]
        observe_node_effect(2) [OF _ run] by (auto simp: nodes_pending_def)
  qed
  moreover have "node_entry_id p ` set (pu_nodes p) \<subseteq> ba_node_ids c" using settled by (auto simp: node_settled_def)
  ultimately show thesis
    using P by (intro that [OF d b eo _ _ settled]) (auto simp: nodes_pending_def)
qed

end
