(* ===== verification/Publishing.thy ===== *)
theory Publishing
  imports Observed
begin

text \<open>
  The properties of \<open>TopologyEngine::publish\<close> (\<open>src/reconciliation.cpp\<close>): atomicity, the invariant of the
  graph, the frame of the other domains, what a snapshot replaces, replays, and two ways in which a
  publication does not do what it should.
\<close>

lemma observe_edge_mentions:
  assumes "observe_edge e au p x b = Inr c"
  shows "ba_mentioned_edges c = insert (render_edge_key (observed_key p x)) (ba_mentioned_edges b)"
proof -
  let ?b = "b\<lparr>ba_edge_keys := insert (render_edge_key (observed_key p x)) (ba_edge_keys b),
      ba_mentioned_edges := insert (render_edge_key (observed_key p x)) (ba_mentioned_edges b)\<rparr>"
  have unchanged: "ba_mentioned_edges (count_unchanged_edge b) = ba_mentioned_edges b" for b by (simp add: count_unchanged_edge_def)
  have drop: "ba_mentioned_edges (drop_published p x b) = ba_mentioned_edges b" for x b
    by (simp add: drop_published_def erase_published_def retire_published_def)
  have absent: "ba_mentioned_edges c = ba_mentioned_edges b" if "observe_absence p k b = Inr c" for k b c
    using that drop unchanged by (auto simp: observe_absence_def split: if_splits option.splits)
  have new: "ba_mentioned_edges c = ba_mentioned_edges b" if "publish_new_edge e au p k b = Inr c" for k b c
    using that by (auto simp: publish_new_edge_def Let_def split: if_splits option.splits)
  have again: "ba_mentioned_edges c = ba_mentioned_edges b" if "republish_edge au p k y b = Inr c" for k y b c
    using that by (auto simp: republish_edge_def Let_def unchanged split: if_splits)
  have "ba_mentioned_edges c = ba_mentioned_edges b" if "observe_presence e au p k b = Inr c" for k b c
    using that new [of k "b\<lparr>ba_relationship_ids := insert (cd_relationship_id k) (ba_relationship_ids b)\<rparr>" c]
      again [of k _ "b\<lparr>ba_relationship_ids := insert (cd_relationship_id k) (ba_relationship_ids b)\<rparr>" c]
    by (auto simp: observe_presence_def Let_def split: if_splits option.splits)
  from this [of _ ?b c] absent [of _ ?b c] show ?thesis
    using assms by (auto simp: observe_edge_def Let_def split: if_splits option.splits)
qed

lemma declared_nodes: "edges_only d (fold (declare_absent p) is d)"
  by (induction "is" rule: rev_induct) (auto intro: edges_only_trans declare_absent_nodes)

lemma observe_batch_frame:
  assumes inv: "graph_inv (en_graph e)" and run: "observe_batch e au p = Inr b"
  shows "base_frame (ba_graph b) = base_frame (en_graph e)"
proof -
  obtain k where k: "observe_entries e au p = Inr k" "b = replace_domain p k"
    using run by (auto simp: observe_batch_def split: sum.splits)
  then show ?thesis
  proof (cases rule: observe_entries_steps [OF inv k(1)])
    case (1 c d)
    have "edges_only c k" unfolding 1(2) using 1(3) declared_nodes by (rule edges_only_trans)
    with 1(5) show ?thesis by (simp add: k(2) replace_domain_frame edges_only_def)
  qed
qed

lemma observed_nodes_kept:
  assumes inv: "graph_inv (en_graph e)" and agree: "relationships_agree (en_graph e) p" and run: "observe_batch e au p = Inr b"
    and q: "q \<in> set (pu_nodes p)"
  shows "if on_present q then \<exists>n. find_node (ba_graph b) (node_entry_id p q) = Some n \<and> node_stored e q n
    else find_node (ba_graph b) (node_entry_id p q) = find_node (en_graph e) (node_entry_id p q)"
proof -
  obtain k where k: "observe_entries e au p = Inr k" "b = replace_domain p k"
    using run by (auto simp: observe_batch_def split: sum.splits)
  have inv': "graph_inv (ba_graph k)" by (rule grown_inv [OF observe_entries_grown [OF inv agree k(1)]])
  have settled: "node_settled e p (en_graph e) q k"
  proof (cases rule: observe_entries_steps [OF inv k(1)])
    case (1 c d)
    have "edges_only c k" unfolding 1(2) using 1(3) declared_nodes by (rule edges_only_trans)
    then show ?thesis using 1(6) [OF q] by (rule edges_only_settled)
  qed
  have "find_node (ba_graph b) (node_entry_id p q) = find_node (ba_graph k) (node_entry_id p q)"
    using settled replace_domain_moves(4) [OF inv'] by (auto simp: k(2) node_settled_def replace_domain_def)
  with settled show ?thesis by (simp add: node_settled_def)
qed

lemma publication_ok:
  assumes ok: "graph_ok (en_graph e)" and agree: "relationships_agree (en_graph e) p" and run: "publish io au p e = (r, e')"
  shows "graph_ok (en_graph e')"
proof (cases rule: publish_run [OF run])
  case 1
  with ok show ?thesis by simp
next
  case (2 b)
  note inv = graph_okD(1) [OF ok]
  have r: "reconciles (pu_domain p) (ba_relationship_ids b) (en_graph e) (ba_graph b)"
    using observe_batch_grown [OF inv agree 2(3)] by (simp add: grown_def)
  have "graph_inv (next_graph (ba_graph b))" using reconcilesD(1) [OF r] by (simp add: next_graph_def)
  note valid = report_validD [OF this 2(6)]
  have "graph_ok (ba_graph b)"
  proof (rule reconciled_ok [OF ok r])
    show "has_key (g_domain_definitions (en_graph e)) (pu_domain p)" using 2(2) by (simp add: publish_admitted_def)
    show "edge_sound (ba_graph b) x" if "find_edge (ba_graph b) i = Some x" for i x
      using valid(2) [of i x] that by (simp add: next_graph_def)
    show "acyclic_relations_hold (ba_graph b)" using valid(3) by (simp add: next_graph_def)
  qed
  then show ?thesis by (simp add: 2(7) next_graph_def graph_ok_generation)
qed

lemma publication_reconciles:
  assumes inv: "graph_inv (en_graph e)" and agree: "relationships_agree (en_graph e) p" and run: "publish io au p e = (r, e')"
  obtains R h where "reconciles (pu_domain p) R (en_graph e) h" "en_graph e' = h \<or> en_graph e' = next_graph h"
proof (cases rule: publish_run [OF run])
  case 1
  then show thesis using that [OF reconciles_refl [OF inv]] by blast
next
  case (2 b)
  then show thesis using that observe_batch_grown [OF inv agree 2(3)] by (simp add: grown_def)
qed

lemma publisher_control [simp]:
  "en_epoch (publisher_rejected p e) = en_epoch e" "en_epoch (publisher_committed p e) = en_epoch e"
  "en_fenced_boots (publisher_rejected p e) = en_fenced_boots e" "en_fenced_boots (publisher_committed p e) = en_fenced_boots e"
  by (simp_all add: publisher_rejected_def publisher_committed_def on_publisher_def split: option.split)

lemma publication_control:
  "en_epoch (snd (publish io au p e)) = en_epoch e \<and> en_fenced_boots (snd (publish io au p e)) = en_fenced_boots e"
proof -
  have "en_epoch (snd (commit_batch io au p b e)) = en_epoch e \<and> en_fenced_boots (snd (commit_batch io au p b e)) = en_fenced_boots e" for b
    by (simp add: commit_batch_def Let_def publication_rejected_def publication_refused_def count_rejected_publication_def note_rejected_def
        note_committed_def record_attempt_def)
  then show ?thesis
    by (simp add: publish_def settle_batch_def Let_def publication_refused_def publication_rejected_def no_change_def replayed_def
        count_rejected_publication_def note_rejected_def note_idempotent_def record_attempt_def split: option.split sum.split)
qed

subsection \<open>Properties of publications\<close>

lemma ledger_record_seen:
  assumes "ledger_wf l"
  shows "ledger_seen key (ledger_record key l)"
  using ledger_record_new [OF assms, of key] by (cases "key \<in> al_keys l") (auto simp: ledger_seen_def ledger_record_def)

text \<open>C6: a publication either commits or leaves the graph alone. Either the generation advances by
  exactly one, and then the request was well-formed, of a declared domain, authorised with the
  grant its mode requires, of the expected generation and not seen before, the new graph passes
  the full validation and was written, and the answer reports its generation; or the graph is left
  as it was.\<close>

theorem publish_all_or_nothing:
  assumes inv: "graph_inv (en_graph e)" and run: "publish io au p e = (r, e')"
  shows "if pr_generation_advanced r
    then publish_admitted au p e \<and> en_attempts e' = ledger_record (pu_id p) (en_attempts e) \<and>
      unat (en_generation e') = unat (en_generation e) + 1 \<and> pr_generation r = en_generation e' \<and>
      vr_valid (validate_graph (en_graph e') (en_directory e) scope_all) \<and>
      outcome_of (persist_locked io (e\<lparr>en_graph := en_graph e', en_generation_advances := en_generation_advances e + 1\<rparr>)) = O_Ok
    else en_graph e' = en_graph e"
proof (cases rule: publish_run [OF run])
  case (2 b)
  have "g_generation (ba_graph b) = en_generation e"
    using observe_batch_frame [OF inv 2(3)] by (simp add: base_frame_def en_generation_def)
  with 2(5) have "unat (g_generation (next_graph (ba_graph b))) = unat (en_generation e) + 1"
    by (simp add: next_graph_def unat_next_counter)
  with 2 show ?thesis by simp
qed simp

text \<open>C5: a publication keeps every invariant of the graph: consistent indexes, fitting relationships
  between stored nodes of declared domains, no cycle in an acyclic relation. The one condition is
  that none of its relationship identifiers is already that of a stored relationship of another
  key.\<close>

theorem publish_keeps_graph_ok:
  assumes "graph_ok (en_graph e)" and "relationships_agree (en_graph e) p" and "publish io au p e = (r, e')"
  shows "graph_ok (en_graph e')"
  using assms by (rule publication_ok)

text \<open>C8: a publication of one domain stays in it, provided that none of its relationship identifiers
  is already that of a stored relationship of another key. It never touches an ended relationship.
  A relationship of another domain is left exactly as it is, or it was live and has been rebound:
  it awaits revalidation under a generation that has not gone back, its two bound entity
  generations may be new, and every other field is the same. A node of another domain keeps its
  class and domain, and every relationship and node the publication brings in belongs to its own
  domain.\<close>

theorem publish_stays_in_domain:
  assumes inv: "graph_inv (en_graph e)" and agree: "relationships_agree (en_graph e) p" and run: "publish io au p e = (r, e')"
  shows "(\<forall>i x. find_edge (en_graph e) i = Some x \<longrightarrow> ended x \<longrightarrow> find_edge (en_graph e') i = Some x) \<and>
    (\<forall>i x. find_edge (en_graph e) i = Some x \<longrightarrow> ed_domain x \<noteq> pu_domain p \<longrightarrow>
       (\<exists>y. find_edge (en_graph e') i = Some y \<and>
          (y = x \<or> \<not> ended x \<and> ed_generation x \<le> ed_generation y \<and>
             y = x\<lparr>ed_lifecycle := LS_RevalidationRequired, ed_generation := ed_generation y,
               ed_from_entity_generation := ed_from_entity_generation y, ed_to_entity_generation := ed_to_entity_generation y\<rparr>))) \<and>
    (\<forall>i n. find_node (en_graph e) i = Some n \<longrightarrow> nd_domain n \<noteq> pu_domain p \<longrightarrow>
       (\<exists>m. find_node (en_graph e') i = Some m \<and> nd_class m = nd_class n \<and> nd_domain m = nd_domain n)) \<and>
    (\<forall>i y. find_edge (en_graph e') i = Some y \<longrightarrow> find_edge (en_graph e) i = None \<longrightarrow> ed_domain y = pu_domain p) \<and>
    (\<forall>i m. find_node (en_graph e') i = Some m \<longrightarrow> find_node (en_graph e) i = None \<longrightarrow> nd_domain m = pu_domain p)"
proof -
  obtain R h where r: "reconciles (pu_domain p) R (en_graph e) h" and "en_graph e' = h \<or> en_graph e' = next_graph h"
    by (rule publication_reconciles [OF inv agree run])
  then have h: "find_edge (en_graph e') = find_edge h" "find_node (en_graph e') = find_node h"
    by (auto simp: next_graph_def fun_eq_iff)
  show ?thesis
    unfolding h
  proof (intro conjI allI impI)
    fix i x assume "find_edge (en_graph e) i = Some x" "ended x"
    then show "find_edge h i = Some x" by (rule reconcilesD(3) [OF r])
  next
    fix i x assume x: "find_edge (en_graph e) i = Some x" "ed_domain x \<noteq> pu_domain p"
    from reconcilesD(4) [OF r x]
    show "\<exists>y. find_edge h i = Some y \<and> (y = x \<or> \<not> ended x \<and> ed_generation x \<le> ed_generation y \<and>
             y = x\<lparr>ed_lifecycle := LS_RevalidationRequired, ed_generation := ed_generation y,
               ed_from_entity_generation := ed_from_entity_generation y, ed_to_entity_generation := ed_to_entity_generation y\<rparr>)"
      unfolding rebound_edge_def .
  next
    fix i n assume "find_node (en_graph e) i = Some n" "nd_domain n \<noteq> pu_domain p"
    from reconcilesD(6) [OF r this] show "\<exists>m. find_node h i = Some m \<and> nd_class m = nd_class n \<and> nd_domain m = nd_domain n"
      by (auto simp: node_shape_def)
  next
    fix i y assume "find_edge h i = Some y" "find_edge (en_graph e) i = None"
    with reconcilesD(5) [OF r] show "ed_domain y = pu_domain p" by (fastforce simp: new_in_def)
  next
    fix i m assume "find_node h i = Some m" "find_node (en_graph e) i = None"
    with reconcilesD(7) [OF r] show "nd_domain m = pu_domain p" by fastforce
  qed
qed

text \<open>after a committed publication every node it reports as present is stored under its
  identifier with the observed entity, tier and metadata, current, and bound to the registered
  generation of an entity of the observed class. An entry that reports a participant as absent, on
  the contrary, leaves the node of that identifier exactly as it was, whatever the mode.\<close>

theorem publish_stores_nodes:
  assumes inv: "graph_inv (en_graph e)" and agree: "relationships_agree (en_graph e) p" and run: "publish io au p e = (r, e')"
    and adv: "pr_generation_advanced r" and q: "q \<in> set (pu_nodes p)"
  shows "if on_present q then \<exists>n. find_node (en_graph e') (node_entry_id p q) = Some n \<and> node_stored e q n
    else find_node (en_graph e') (node_entry_id p q) = find_node (en_graph e) (node_entry_id p q)"
proof (cases rule: publish_run [OF run])
  case (2 b)
  show ?thesis using observed_nodes_kept [OF inv agree 2(3) q] by (simp add: 2(7) next_graph_def)
qed (use adv in simp)

text \<open>C7: a committed authoritative snapshot replaces its domain: every live relationship of the
  domain afterwards has the key of one of its entries, and every node of the domain that no entry
  names is gone or retired. Two conditions restrict the snapshot: none of its relationship
  identifiers is already that of a stored relationship of another key (which the code does not
  check), and it carries no list of absences (which a snapshot does not need).\<close>

theorem snapshot_replaces_domain:
  assumes inv: "graph_inv (en_graph e)" and agree: "relationships_agree (en_graph e) p" and run: "publish io au p e = (r, e')"
    and adv: "pr_generation_advanced r" and snap: "pu_mode p = PM_AuthoritativeSnapshot" and none: "pu_declared_absent p = []"
  shows "(\<forall>i x. find_edge (en_graph e') i = Some x \<longrightarrow> ed_domain x = pu_domain p \<longrightarrow> \<not> ended x \<longrightarrow>
      (\<exists>y \<in> set (pu_edges p). edge_text x = render_edge_key (observed_key p y))) \<and>
    (\<forall>i m. find_node (en_graph e') i = Some m \<longrightarrow> nd_domain m = pu_domain p \<longrightarrow> i \<notin> node_entry_id p ` set (pu_nodes p) \<longrightarrow>
      nd_lifecycle m = LS_Retired)"
proof (cases rule: publish_run [OF run])
  case (2 b)
  obtain k where k: "observe_entries e au p = Inr k" "b = replace_domain p k"
    using 2(3) by (auto simp: observe_batch_def split: sum.splits)
  have inv': "graph_inv (ba_graph k)" by (rule grown_inv [OF observe_entries_grown [OF inv agree k(1)]])
  have marks: "ba_mentioned_nodes k = node_entry_id p ` set (pu_nodes p) \<and>
      ba_mentioned_edges k \<subseteq> (\<lambda>y. render_edge_key (observed_key p y)) ` set (pu_edges p)"
  proof (cases rule: observe_entries_steps [OF inv k(1)])
    case (1 c d)
    let ?M = "\<lambda>b. ba_mentioned_edges b \<subseteq> (\<lambda>y. render_edge_key (observed_key p y)) ` set (pu_edges p)"
    have "?M c" using 1(7) by simp
    then have "?M d" by (rule each_entry_keeps [OF _ 1(1)]) (auto dest!: observe_edge_mentions)
    with 1(2-4) none show ?thesis by (simp add: edges_only_def)
  qed
  have f: "find_edge (en_graph e') = find_edge (ba_graph b)" "find_node (en_graph e') = find_node (ba_graph b)"
    by (simp_all add: 2(7) next_graph_def fun_eq_iff)
  show ?thesis
  proof (intro conjI allI impI)
    fix i x assume x: "find_edge (en_graph e') i = Some x" "ed_domain x = pu_domain p" "\<not> ended x"
    then have "\<not> unmentioned_edge p k x"
      using replace_domain_moves(2) [OF inv' snap] by (auto simp: f k(2) split: option.splits if_splits)
    with x marks show "\<exists>y \<in> set (pu_edges p). edge_text x = render_edge_key (observed_key p y)"
      by (auto simp: unmentioned_edge_def edge_text_def)
  next
    fix i m assume "find_node (en_graph e') i = Some m" "nd_domain m = pu_domain p" "i \<notin> node_entry_id p ` set (pu_nodes p)"
    with replace_domain_moves(3) [OF inv' snap, of i m] marks show "nd_lifecycle m = LS_Retired"
      by (auto simp: f k(2) retired_node_def)
  qed
qed (use adv in simp)

text \<open>a publication that was committed and is sent again changes nothing. It is answered as a
  replay only if it named no expected generation; one that did is refused as stale, for its own
  commit advanced the generation.\<close>

theorem publish_replayed:
  assumes inv: "graph_inv (en_graph e)" and run: "publish io au p e = (r, e')" and adv: "pr_generation_advanced r"
    and wf: "ledger_wf (en_attempts e)"
  shows "outcome_of (pr_status (fst (publish io' au p e'))) =
      (if pu_expected_generation p = 0 then O_Idempotent else O_StaleGeneration) \<and>
    en_graph (snd (publish io' au p e')) = en_graph e'"
proof (cases rule: publish_run [OF run])
  case (2 b)
  have frame: "base_frame (ba_graph b) = base_frame (en_graph e)" by (rule observe_batch_frame [OF inv 2(3)])
  then have gen: "unat (en_generation e') = unat (en_generation e) + 1"
    using 2(5) by (simp add: 2(7) next_graph_def unat_next_counter base_frame_def en_generation_def)
  have auth: "authorised e' au (pu_domain p) (required_grant (pu_mode p))"
    using 2(2) unfolding publish_admitted_def required_grant_def authorised_iff
    by (auto simp: 2(7) published_engine_def Let_def note_committed_def record_attempt_def publisher_committed_def on_publisher_def
        lookup_simps grant_for_def split: option.split)
  have seen: "ledger_seen (pu_id p) (en_attempts e')" using ledger_record_seen [OF wf] by (simp add: 2(7))
  have "publication_malformed (en_limits e') p = None" "has_key (g_domain_definitions (en_graph e')) (pu_domain p)"
    using 2(2) frame by (simp_all add: publish_admitted_def 2(7) next_graph_def base_frame_def)
  then have "publish io' au p e' = (case stale_generation ''publication.stale_generation'' (pu_expected_generation p) e' of
      Some s \<Rightarrow> publication_rejected (au_publisher au) s e' | None \<Rightarrow> replayed au p e')"
    using auth seen by (simp add: publish_def Let_def authorised_def)
  moreover have "stale_generation ''publication.stale_generation'' (pu_expected_generation p) e' = None \<longleftrightarrow> pu_expected_generation p = 0"
    using 2(2) gen by (auto simp: stale_generation_def publish_admitted_def)
  ultimately show ?thesis
    by (cases "pu_expected_generation p = 0")
      (auto simp: stale_generation_def publication_rejected_def publication_refused_def replayed_def publication_answer_def
        count_rejected_publication_def note_rejected_def note_idempotent_def outcome_simps split: if_splits)
qed (use adv in simp)


subsection \<open>An instance\<close>

text \<open>The demo publication reports the switch \<open>s1\<close>, which the registry has at generation 2, and, in a
  snapshot, nothing else.\<close>

definition demo_observed :: observed_node where
  "demo_observed = \<lparr>on_node_id = ''s1'', on_entity_id = ''ent-s1'', on_class = NC_Switch, on_tier = TT_Leaf, on_domain = [],
     on_entity_generation = 0, on_metadata = [], on_present = True\<rparr>"

definition demo_publication :: "publication_mode \<Rightarrow> publication" where
  "demo_publication m = \<lparr>pu_id = ''pub-1'', pu_domain = ''d'', pu_scope_kind = SK_Site, pu_mode = m, pu_type = PT_Real,
     pu_source = DS_OperatorDeclaration, pu_expected_generation = 0, pu_evidence_generation = 1, pu_declared_absent = [],
     pu_nodes = [demo_observed], pu_edges = [], pu_note = []\<rparr>"

lemma demo_publication_fields [simp]:
  "pu_domain (demo_publication m) = ''d''" "pu_mode (demo_publication m) = m" "pu_nodes (demo_publication m) = [demo_observed]"
  "pu_edges (demo_publication m) = []" "pu_declared_absent (demo_publication m) = []" "pu_expected_generation (demo_publication m) = 0"
  by (simp_all add: demo_publication_def)

lemma demo_observed_fields [simp]:
  "on_entity_id demo_observed = ''ent-s1''" "on_class demo_observed = NC_Switch" "on_domain demo_observed = []" "on_present demo_observed"
  by (simp_all add: demo_observed_def)

lemma demo_agrees: "relationships_agree g (demo_publication m)"
  by (simp add: relationships_agree_def)

lemma demo_entry [simp]: "node_entry_id (demo_publication m) demo_observed = ''s1''"
  by (simp add: node_entry_id_def demo_observed_def)

lemma replace_domain_diff: "ba_diff b \<noteq> [] \<Longrightarrow> ba_diff (replace_domain p b) \<noteq> []"
proof -
  have e: "ba_diff b \<noteq> [] \<Longrightarrow> ba_diff (replace_edge i b) \<noteq> []" for i b
    by (simp add: replace_edge_def erase_published_def split: option.split)
  have n: "ba_diff b \<noteq> [] \<Longrightarrow> ba_diff (replace_node i b) \<noteq> []" for i b
    by (simp add: replace_node_def Let_def split: option.split)
  have "ba_diff b \<noteq> [] \<Longrightarrow> ba_diff (fold replace_edge is b) \<noteq> []" for "is" b
    by (induction "is" arbitrary: b) (simp_all add: e)
  moreover have "ba_diff b \<noteq> [] \<Longrightarrow> ba_diff (fold replace_node is b) \<noteq> []" for "is" b
    by (induction "is" arbitrary: b) (simp_all add: n)
  ultimately show "ba_diff b \<noteq> [] \<Longrightarrow> ba_diff (replace_domain p b) \<noteq> []"
    by (simp add: replace_domain_def replace_edges_def replace_nodes_def)
qed

lemma demo_entries:
  obtains k where "observe_entries demo_engine demo_authority (demo_publication m) = Inr k" "ba_diff k \<noteq> []"
    "ba_mentioned_nodes k = {''s1''}" "ba_relationship_ids k = {}"
    "\<And>i. find_node (ba_graph k) i = (if i = ''s1''
       then Some (republished_node 0 demo_observed (demo_record ''ent-s1'' EC_Switch 2) (demo_node ''s1'' NC_Switch))
       else find_node demo_graph i)"
proof -
  let ?rec = "demo_record ''ent-s1'' EC_Switch 2" and ?n = "demo_node ''s1'' NC_Switch"
  let ?b = "(start_batch demo_graph)\<lparr>ba_node_ids := {''s1''}, ba_entity_ids := {''ent-s1''}, ba_mentioned_nodes := {''s1''}\<rparr>"
  let ?k = "republish_node demo_observed ?rec ?n ?b"
  have "published_entity demo_engine demo_observed = Inr ?rec"
    by (simp add: published_entity_def demo_directory_def demo_record_def sample_record_def)
  moreover have "settle_node demo_engine demo_authority (demo_publication m) demo_observed ?rec ''s1'' ?b = Inr ?k"
    by (simp add: settle_node_def start_batch_def demo_graph_find observed_unchanged_def demo_record_def)
  ultimately have "observe_node demo_engine demo_authority (demo_publication m) demo_observed (start_batch demo_graph) = Inr ?k"
    by (simp add: observe_node_def entry_domain_def start_batch_def Let_def)
  then have k: "observe_entries demo_engine demo_authority (demo_publication m) = Inr ?k" by (simp add: observe_entries_def)
  have "ba_diff ?k \<noteq> []" "ba_relationship_ids ?k = {}"
    by (simp_all add: republish_node_def Let_def case_prod_unfold start_batch_def)
  moreover have "find_node (ba_graph ?k) i = (if i = ''s1'' then Some (republished_node 0 demo_observed ?rec ?n) else find_node demo_graph i)" for i
  proof -
    have "find_node (ba_graph ?k) i = find_node (snd (update_node (republished_node 0 demo_observed ?rec ?n) demo_graph)) i"
      unfolding find_node_def republish_graph(1) by (simp add: start_batch_def demo_graph_base)
    also have "\<dots> = (if i = ''s1'' then Some (republished_node 0 demo_observed ?rec ?n) else find_node demo_graph i)"
      by (simp add: find_after_update_node demo_graph_find republished_node_def)
    finally show ?thesis .
  qed
  ultimately show thesis by (intro that [OF k]) (simp_all add: republish_graph)
qed

lemma demo_valid:
  assumes run: "observe_batch demo_engine demo_authority (demo_publication m) = Inr b"
    and k: "observe_entries demo_engine demo_authority (demo_publication m) = Inr k" "ba_relationship_ids k = {}"
      "ba_mentioned_nodes k = {''s1''}"
      "\<And>i. find_node (ba_graph k) i = (if i = ''s1''
       then Some (republished_node 0 demo_observed (demo_record ''ent-s1'' EC_Switch 2) (demo_node ''s1'' NC_Switch))
       else find_node demo_graph i)"
  shows "vr_valid (validate_graph (next_graph (ba_graph b)) (en_directory demo_engine) scope_all)"
proof -
  let ?p = "demo_publication m"
  have inv: "graph_inv (en_graph demo_engine)" using graph_okD(1) [OF demo_graph_ok] by simp
  have b: "b = replace_domain ?p k" using run k(1) by (simp add: observe_batch_def)
  have grown: "grown ''d'' demo_graph k" "grown ''d'' demo_graph b"
    using observe_entries_grown [OF inv demo_agrees k(1)] observe_batch_grown [OF inv demo_agrees run] by simp_all
  note inv_k = grown_inv [OF grown(1)] and inv_b = grown_inv [OF grown(2)]
  have no_edge: "find_edge (ba_graph k) i = None" for i
    using reconcilesD(5) [of "''d''" "{}" demo_graph "ba_graph k" i] grown(1) k(2)
    by (cases "find_edge (ba_graph k) i") (auto simp: grown_def new_in_def demo_graph_find)
  have edges: "find_edge (ba_graph b) i = None" for i
    using replace_domain_moves(2) [OF inv_k, of ?p i] no_edge
    by (cases "m = PM_AuthoritativeSnapshot") (simp_all add: b replace_domain_def)
  have sound: "node_sound (Some demo_directory) n" if n: "find_node (ba_graph b) i = Some n" for i n
  proof -
    have d: "nd_domain n = ''d''"
      using reconcilesD(7) [OF _ n] grown(2) by (fastforce simp: grown_def node_shape_def demo_graph_find split: if_splits)
    have "find_node (ba_graph k) i = Some n \<or> i \<noteq> ''s1'' \<and> (\<exists>a. find_node (ba_graph k) i = Some a \<and> n = retired_node a)"
    proof (cases "m = PM_AuthoritativeSnapshot")
      case True
      then show ?thesis
        using replace_domain_moves(3) [OF inv_k, of ?p i n] replace_domain_moves(4) [OF inv_k, of ?p i] n d k(3)
        by (cases "i = ''s1''") (simp_all add: b)
    next
      case False
      with n show ?thesis by (simp add: b replace_domain_def)
    qed
    then show ?thesis
      by (auto simp: k(4) demo_graph_find node_sound_def retired_node_def demo_directory_def demo_record_def sample_record_def
          republished_node_def demo_node_def advance_if_possible_def can_advance_def next_counter_def demo_observed_def split: if_splits)
  qed
  have "en_directory demo_engine = Some demo_directory" by (simp add: demo_engine_def new_engine_def sample_options_def)
  moreover have "graph_inv (next_graph (ba_graph b))" using inv_b by (simp add: next_graph_def)
  ultimately show ?thesis
    using sound edges
    by (simp add: report_valid stored_pairs listed_all) (simp add: next_graph_def acyclic_relations_hold_def depends_def edges acyclic_def)
qed

lemma demo_inv: "graph_inv (en_graph demo_engine)"
  using graph_okD(1) [OF demo_graph_ok] by simp

lemma demo_published:
  obtains r e' where "publish (\<lambda>_. Written) demo_authority (demo_publication m) demo_engine = (r, e')" "pr_generation_advanced r"
proof -
  let ?e = demo_engine and ?p = "demo_publication m"
  have inv: "graph_inv (en_graph ?e)" using graph_okD(1) [OF demo_graph_ok] by simp
  have attempts: "en_attempts ?e = empty_ledger" by (simp add: demo_engine_def new_engine_def)
  have wellformed: "publication_malformed (en_limits ?e) ?p = None"
    by (simp add: publication_malformed_def demo_publication_def observed_malformed_def demo_observed_def)
      (simp add: default_limits_def metadata_validate_def)
  have "publish (\<lambda>_. Written) demo_authority ?p ?e = settle_batch (\<lambda>_. Written) demo_authority ?p ?e"
    using wellformed by (simp add: publish_def demo_graph_base has_key_def lookup_simps stale_generation_def attempts ledger_seen_def empty_ledger_def)
  moreover obtain k where k: "observe_entries ?e demo_authority ?p = Inr k" "ba_diff k \<noteq> []" "ba_mentioned_nodes k = {''s1''}"
    "ba_relationship_ids k = {}" "\<And>i. find_node (ba_graph k) i = (if i = ''s1''
       then Some (republished_node 0 demo_observed (demo_record ''ent-s1'' EC_Switch 2) (demo_node ''s1'' NC_Switch))
       else find_node demo_graph i)" by (rule demo_entries) blast
  moreover define b where "b = replace_domain ?p k"
  ultimately have run: "observe_batch ?e demo_authority ?p = Inr b" "ba_diff b \<noteq> []"
    and pub: "publish (\<lambda>_. Written) demo_authority ?p ?e = commit_batch (\<lambda>_. Written) demo_authority ?p b ?e"
    using replace_domain_diff [OF k(2), of ?p] by (simp_all add: observe_batch_def settle_batch_def)
  have "g_generation (ba_graph b) = 0"
    using observe_batch_frame [OF inv run(1)] by (simp add: base_frame_def demo_graph_base)
  moreover note demo_valid [OF run(1) k(1,4,3,5)]
  ultimately have "pr_generation_advanced (fst (publish (\<lambda>_. Written) demo_authority ?p ?e))"
    by (simp add: pub commit_batch_def next_graph_def can_advance_def Let_def persist_locked_def)
  then show thesis using that by (cases "publish (\<lambda>_. Written) demo_authority ?p ?e") simp
qed

theorem publish_all_or_nothing_witness: "unat (en_generation (snd (publish (\<lambda>_. Written) demo_authority (demo_publication PM_AuthoritativeSnapshot) demo_engine))) = 1"
proof -
  obtain r e' where run: "publish (\<lambda>_. Written) demo_authority (demo_publication PM_AuthoritativeSnapshot) demo_engine = (r, e')" "pr_generation_advanced r" by (rule demo_published)
  with publish_all_or_nothing [OF demo_inv run(1)] show ?thesis by simp
qed

theorem publish_keeps_graph_ok_witness: "graph_ok (en_graph (snd (publish (\<lambda>_. Written) demo_authority (demo_publication PM_AuthoritativeSnapshot) demo_engine)))"
proof -
  obtain r e' where run: "publish (\<lambda>_. Written) demo_authority (demo_publication PM_AuthoritativeSnapshot) demo_engine = (r, e')" by (rule demo_published)
  have "graph_ok (en_graph demo_engine)" using demo_graph_ok by simp
  from publish_keeps_graph_ok [OF this demo_agrees run] run show ?thesis by simp
qed

theorem publish_stays_in_domain_witness:
  "{m. \<exists>i. find_node (en_graph (snd (publish (\<lambda>_. Written) demo_authority (demo_publication PM_AuthoritativeSnapshot) demo_engine))) i = Some m \<and> find_node demo_graph i = None \<and> nd_domain m \<noteq> ''d''} = {}"
proof -
  obtain r e' where run: "publish (\<lambda>_. Written) demo_authority (demo_publication PM_AuthoritativeSnapshot) demo_engine = (r, e')" by (rule demo_published)
  from publish_stays_in_domain [OF demo_inv demo_agrees run] run show ?thesis by fastforce
qed

theorem publish_stores_nodes_witness:
  "\<exists>n. find_node (en_graph (snd (publish (\<lambda>_. Written) demo_authority (demo_publication PM_AuthoritativeSnapshot) demo_engine))) ''s1'' = Some n \<and> nd_entity_generation n = 2"
proof -
  obtain r e' where run: "publish (\<lambda>_. Written) demo_authority (demo_publication PM_AuthoritativeSnapshot) demo_engine = (r, e')" "pr_generation_advanced r" by (rule demo_published)
  from publish_stores_nodes [OF demo_inv demo_agrees run, of demo_observed] run(1) show ?thesis
    by (auto simp: node_stored_def demo_directory_def demo_record_def)
qed

theorem snapshot_replaces_domain_witness:
  "{m. find_node (en_graph (snd (publish (\<lambda>_. Written) demo_authority (demo_publication PM_AuthoritativeSnapshot) demo_engine))) ''s2'' = Some m \<and> nd_domain m = ''d'' \<and> nd_lifecycle m \<noteq> LS_Retired} = {}"
proof -
  obtain r e' where run: "publish (\<lambda>_. Written) demo_authority (demo_publication PM_AuthoritativeSnapshot) demo_engine = (r, e')" "pr_generation_advanced r" by (rule demo_published)
  from snapshot_replaces_domain [OF demo_inv demo_agrees run] run(1) show ?thesis by fastforce
qed

theorem publish_replayed_witness:
  "outcome_of (pr_status (fst (publish (\<lambda>_. Written) demo_authority (demo_publication PM_AuthoritativeSnapshot)
     (snd (publish (\<lambda>_. Written) demo_authority (demo_publication PM_AuthoritativeSnapshot) demo_engine))))) = O_Idempotent"
proof -
  obtain r e' where run: "publish (\<lambda>_. Written) demo_authority (demo_publication PM_AuthoritativeSnapshot) demo_engine = (r, e')" "pr_generation_advanced r" by (rule demo_published)
  have "ledger_wf (en_attempts demo_engine)" by (simp add: demo_engine_def new_engine_def)
  from publish_replayed [OF demo_inv run this] run(1) show ?thesis by simp
qed

subsection \<open>Where publications go wrong\<close>

text \<open>the relationship identifier of a new relationship is compared only with the identifiers of
  the same publication. When another stored relationship has it already, the entry still goes
  through, and the relationship index can then no longer name both: the graph is inconsistent.\<close>

theorem published_relationship_id_collides:
  assumes inv: "graph_inv (ba_graph b)" and other: "find_edge (ba_graph b) j = Some y" "ed_relationship_id y = cd_relationship_id c" "j \<noteq> cd_id c"
    and new: "find_edge (ba_graph b) (cd_id c) = None" and run: "publish_new_edge e au p c b = Inr b'"
  shows "\<not> graph_inv (ba_graph b')"
proof
  assume inv': "graph_inv (ba_graph b')"
  obtain m n ds f where b': "b' = step_batch (snd (insert_edge (published_edge au p (g_generation (ba_graph b)) c m n) (ba_graph b))) ds f b"
    using run by (auto simp: publish_new_edge_def Let_def split: if_splits option.splits)
  let ?x = "published_edge au p (g_generation (ba_graph b)) c m n"
  have id: "ed_id ?x = cd_id c" "ed_relationship_id ?x = cd_relationship_id c" by (simp_all add: published_edge_def asserted_edge_def)
  have "fst (insert_edge ?x (ba_graph b))" using new id by (simp add: insert_edge_def has_key_def find_edge_def)
  then have "find_edge (ba_graph b') (cd_id c) = Some ?x" "find_edge (ba_graph b') j = Some y"
    using other(1,3) id by (simp_all add: b' find_after_insert_edge)
  from edge_relationship_indexed [OF inv' this(1)] edge_relationship_indexed [OF inv' this(2)] id other(2,3) show False by simp
qed

definition demo_second :: relationship_candidate where
  "demo_second = demo_candidate\<lparr>cd_id := ''e2'', cd_to := ''s2''\<rparr>"

theorem published_relationship_id_collides_witness:
  "\<exists>b. publish_new_edge demo_linked demo_authority (demo_publication PM_Incremental) demo_second (start_batch (en_graph demo_linked)) = Inr b \<and>
     \<not> graph_inv (ba_graph b)"
proof -
  let ?b = "start_batch (en_graph demo_linked)"
  have g: "ba_graph ?b = en_graph demo_linked" by (simp add: start_batch_def)
  have inv: "graph_inv (ba_graph ?b)" using graph_okD(1) [OF demo_linked_facts(1)] by (simp add: g)
  have edges: "g_edges (en_graph demo_linked) = Mapping.update ''e1'' demo_stale_edge Mapping.empty"
    using demo_linked_facts(2) by (intro mapping_eqI) (simp add: find_edge_def lookup_simps)
  have lim: "\<not> max_edges (en_limits demo_linked) \<le> map_size (g_edges (en_graph demo_linked))"
    by (simp add: edges map_size_def Mapping.size_def, simp add: demo_linked_def default_limits_def)
  have "\<exists>b. publish_new_edge demo_linked demo_authority (demo_publication PM_Incremental) demo_second ?b = Inr b"
    using lim by (simp add: publish_new_edge_def g demo_second_def Let_def demo_graph_find)
  then obtain b where b: "publish_new_edge demo_linked demo_authority (demo_publication PM_Incremental) demo_second ?b = Inr b" ..
  have "\<not> graph_inv (ba_graph b)"
    by (rule published_relationship_id_collides [OF inv _ _ _ _ b, of "''e1''" demo_stale_edge])
      (simp_all add: g demo_linked_facts(2) demo_second_def)
  with b show ?thesis by blast
qed

text \<open>An observed class that differs from the stored one (both of the same entity class) is
  never stored, but counts as a change: the entry yields a difference each time it is published, so
  the generation advances without end and the node keeps its class.\<close>

theorem published_class_never_stored:
  assumes inv: "graph_inv (ba_graph b)" and n: "find_node (ba_graph b) i = Some n" "nd_entity_id n = on_entity_id o'" "nd_class n \<noteq> on_class o'"
  shows "\<exists>c m. settle_node e au p o' rec i b = Inr c \<and> ba_diff c \<noteq> ba_diff b \<and> find_node (ba_graph c) i = Some m \<and> nd_class m = nd_class n"
proof -
  let ?m = "republished_node (g_generation (ba_graph b)) o' rec n"
  have i: "nd_id n = i" by (rule graph_inv_node_ids [OF inv n(1)])
  have "settle_node e au p o' rec i b = Inr (republish_node o' rec n b)"
    using n by (simp add: settle_node_def observed_unchanged_def)
  moreover have "ba_diff (republish_node o' rec n b) \<noteq> ba_diff b"
    by (simp add: republish_node_def Let_def case_prod_unfold)
  moreover have "find_node (ba_graph (republish_node o' rec n b)) i = Some ?m"
    using find_after_update_node [of ?m "ba_graph b" i] n(1) i by (simp add: find_node_def republish_graph(1) republished_node_def)
  moreover have "nd_class ?m = nd_class n" by (simp add: republished_node_def)
  ultimately show ?thesis by blast
qed

theorem published_class_never_stored_witness:
  "\<exists>c m. settle_node demo_engine demo_authority (demo_publication PM_Incremental) (demo_observed\<lparr>on_class := NC_RackNetworkDomain\<rparr>)
       (demo_record ''ent-s1'' EC_Switch 2) ''s1'' (start_batch demo_graph) = Inr c \<and>
     ba_diff c \<noteq> [] \<and> find_node (ba_graph c) ''s1'' = Some m \<and> nd_class m = NC_Switch"
proof -
  have g: "ba_graph (start_batch demo_graph) = demo_graph" "ba_diff (start_batch demo_graph) = []" by (simp_all add: start_batch_def)
  have "graph_inv (ba_graph (start_batch demo_graph))" using graph_okD(1) [OF demo_graph_ok] by (simp add: g)
  from published_class_never_stored [OF this, of "''s1''" "demo_node ''s1'' NC_Switch" "demo_observed\<lparr>on_class := NC_RackNetworkDomain\<rparr>"]
  show ?thesis by (simp add: g demo_graph_find)
qed

end
