(* ===== verification/Wire.thy ===== *)
theory Wire
  imports Codec Types Identifiers
begin

text \<open>
  Decoders over the record reader as \<open>persistence.cpp\<close> and \<open>protocol.cpp\<close> write them: a step either yields a
  value or has failed, and a failed step ends the decoder. A byte stands for an enumerator only
  below the number of its values. A reader that has read one part of its data and has the
  rest before it is a normal form on which every put and get pair is one rewrite.
\<close>

named_theorems wire_simps

subsection \<open>Decoder steps\<close>

type_synonym ('e, 'a) decoder = "reader \<Rightarrow> ('e + 'a) \<times> reader"

definition and_then :: "('e + 'a) \<times> reader \<Rightarrow> ('a \<Rightarrow> ('e, 'b) decoder) \<Rightarrow> ('e + 'b) \<times> reader" where
  "and_then x f = (case x of (Inl e, r) \<Rightarrow> (Inl e, r) | (Inr a, r) \<Rightarrow> f a r)"

text \<open>A decoder that returns \<open>bool\<close> fails with \<open>()\<close>; its caller makes the explanation from the reader.\<close>

definition or_report :: "(reader \<Rightarrow> 'e) \<Rightarrow> (unit + 'a) \<times> reader \<Rightarrow> ('e + 'a) \<times> reader" where
  "or_report f x = (case x of (Inl _, r) \<Rightarrow> (Inl (f r), r) | (Inr a, r) \<Rightarrow> (Inr a, r))"

text \<open>A final \<open>return reader.ok()\<close>.\<close>

definition if_ok :: "'a \<Rightarrow> (unit, 'a) decoder" where
  "if_ok x r = (if rd_ok r then (Inr x, r) else (Inl (), r))"

definition decode_enum :: "'a list \<Rightarrow> string \<Rightarrow> (unit, 'a) decoder" where
  "decode_enum table message r =
     (case get_u8 r of (c, r') \<Rightarrow>
        if \<not> rd_ok r' \<or> length table \<le> unat c then (Inl (), rd_fail message r') else (Inr (table ! unat c), r'))"

definition decode_identifier :: "nat \<Rightarrow> (unit, string) decoder" where
  "decode_identifier max_bytes r =
     (case get_text max_bytes r of (s, r') \<Rightarrow>
        if \<not> rd_ok r' then (Inl (), r')
        else if s \<noteq> [] \<and> \<not> is_valid_identifier s max_bytes then (Inl (), rd_fail ''identifier.malformed'' r')
        else (Inr s, r'))"

text \<open>The loop over a declared number of records, each of which is stored before the next is read.\<close>

fun load_each :: "('e, 'a) decoder \<Rightarrow> ('a \<Rightarrow> 's \<Rightarrow> 'e + 's) \<Rightarrow> nat \<Rightarrow> 's \<Rightarrow> ('e, 's) decoder" where
  "load_each decode store 0 s r = (Inr s, r)"
| "load_each decode store (Suc n) s r =
     (case decode r of
        (Inl e, r') \<Rightarrow> (Inl e, r')
      | (Inr x, r') \<Rightarrow> (case store x s of Inl e \<Rightarrow> (Inl e, r') | Inr s' \<Rightarrow> load_each decode store n s' r'))"

fun store_all :: "('a \<Rightarrow> 's \<Rightarrow> 'e + 's) \<Rightarrow> 'a list \<Rightarrow> 's \<Rightarrow> 'e + 's" where
  "store_all store [] s = Inr s"
| "store_all store (x # xs) s = (case store x s of Inl e \<Rightarrow> Inl e | Inr s' \<Rightarrow> store_all store xs s')"

subsection \<open>Readers in the middle of their data\<close>

definition reading :: "bytes \<Rightarrow> bytes \<Rightarrow> reader" where
  "reading done_part rest = \<lparr>rd_data = done_part @ rest, rd_offset = length done_part, rd_ok = True, rd_error = []\<rparr>"

lemma open_reading: "open_reader bs = reading [] bs"
  by (simp add: open_reader_def reading_def)

lemma reading_facts [simp]:
  "rd_ok (reading a b)" "pending (reading a b) = b" "rd_at_end (reading a b) \<longleftrightarrow> b = []" "rd_remaining (reading a b) = length b"
  by (simp_all add: reading_def pending_def rd_at_end_def rd_remaining_def)

lemma advance_reading: "advance (length bs) (reading a (bs @ c)) = reading (a @ bs) c"
  by (simp add: advance_def reading_def)

context field_codec
begin

lemma get_reading: "valid x \<Longrightarrow> get (reading a (put x @ c)) = (x, reading (a @ put x) c)"
  using get_put [of x "reading a (put x @ c)" c] by (simp add: advance_reading)

end

lemmas get_put_reading [wire_simps] =
  u8_codec.get_reading [OF TrueI] u16_codec.get_reading [OF TrueI] u32_codec.get_reading [OF TrueI]
  u64_codec.get_reading [OF TrueI] boolean_codec.get_reading [OF TrueI]

definition text_bounded :: "nat \<Rightarrow> string \<Rightarrow> bool" where
  "text_bounded m s \<longleftrightarrow> length s \<le> m \<and> length s < 4294967296"

lemma get_blob_reading [wire_simps]:
  "length bs \<le> m \<Longrightarrow> length bs < 4294967296 \<Longrightarrow> get_blob m (reading a (put_blob bs @ c)) = (bs, reading (a @ put_blob bs) c)"
  using get_blob_put [of m bs "reading a (put_blob bs @ c)"] advance_reading [of "put_blob bs" a c]
  by (simp add: blob_fits_def)

lemma get_text_reading [wire_simps]:
  "text_bounded m s \<Longrightarrow> get_text m (reading a (put_text s @ c)) = (s, reading (a @ put_text s) c)"
  by (simp add: text_bounded_def put_text_def get_text_def get_blob_reading)

lemma get_blob_too_long:
  assumes "m < length bs" "length bs < 4294967296"
  shows "get_blob m (reading a (put_blob bs @ c)) =
    ([], rd_fail ''codec.length_over_limit'' (reading (a @ put_u32 (of_nat (length bs))) (bs @ c)))"
  using assms by (simp add: get_blob_def put_blob_def get_put_reading unat_of_length)

lemma and_then_simps [wire_simps, simp]:
  "and_then (Inr x, r) f = f x r" "and_then (Inl e, r) f = (Inl e, r)"
  "or_report g (Inr x, r) = (Inr x, r)" "or_report g (Inl u, r) = (Inl (g r), r)"
  by (simp_all add: and_then_def or_report_def)

lemma if_ok_reading [wire_simps, simp]: "if_ok x (reading a b) = (Inr x, reading a b)"
  by (simp add: if_ok_def)

lemma decode_identifier_reading [wire_simps]:
  "s = [] \<or> is_valid_identifier s m \<Longrightarrow> text_bounded m s \<Longrightarrow>
   decode_identifier m (reading a (put_text s @ c)) = (Inr s, reading (a @ put_text s) c)"
  by (auto simp: decode_identifier_def get_text_reading)

subsection \<open>Enumerations\<close>

locale enumeration =
  fixes code :: "'a \<Rightarrow> u8" and table :: "'a list"
  assumes bound: "unat (code x) < length table" and decoded: "table ! unat (code x) = x"
begin

lemma decode_code: "decode_enum table message (reading a (put_u8 (code x) @ c)) = (Inr x, reading (a @ put_u8 (code x)) c)"
  using bound [of x] decoded [of x] by (simp add: decode_enum_def get_put_reading)

lemma code_injective: "code x = code y \<Longrightarrow> x = y"
  using decoded by metis

end

definition entity_classes :: "entity_class list" where "entity_classes = map fst kEntityClassNames"
definition node_classes :: "node_class list" where "node_classes = map fst kNodeClassNames"
definition relation_classes :: "relation_class list" where "relation_classes = map fst kRelationNames"
definition topology_tiers :: "topology_tier list" where "topology_tiers = map fst kTierNames"
definition scope_kinds :: "scope_kind list" where "scope_kinds = map fst kScopeKindNames"
definition lifecycle_states :: "lifecycle_state list" where "lifecycle_states = map fst kLifecycleNames"
definition publication_types :: "publication_type list" where "publication_types = map fst kPublicationTypeNames"
definition discovery_sources :: "discovery_source list" where "discovery_sources = map fst kDiscoverySourceNames"
definition topology_layers :: "topology_layer list" where "topology_layers = [Physical, Logical]"

interpretation entity_classes: enumeration entity_class_code entity_classes
proof
  show "unat (entity_class_code x) < length entity_classes" "entity_classes ! unat (entity_class_code x) = x" for x
    by (cases x; simp add: entity_classes_def kEntityClassNames_def)+
qed

interpretation node_classes: enumeration node_class_code node_classes
proof
  show "unat (node_class_code x) < length node_classes" "node_classes ! unat (node_class_code x) = x" for x
    by (cases x; simp add: node_classes_def kNodeClassNames_def)+
qed

interpretation relation_classes: enumeration relation_code relation_classes
proof
  show "unat (relation_code x) < length relation_classes" "relation_classes ! unat (relation_code x) = x" for x
    by (cases x; simp add: relation_classes_def kRelationNames_def)+
qed

interpretation topology_tiers: enumeration tier_code topology_tiers
proof
  show "unat (tier_code x) < length topology_tiers" "topology_tiers ! unat (tier_code x) = x" for x
    by (cases x; simp add: topology_tiers_def kTierNames_def)+
qed

interpretation scope_kinds: enumeration scope_kind_code scope_kinds
proof
  show "unat (scope_kind_code x) < length scope_kinds" "scope_kinds ! unat (scope_kind_code x) = x" for x
    by (cases x; simp add: scope_kinds_def kScopeKindNames_def)+
qed

interpretation lifecycle_states: enumeration lifecycle_code lifecycle_states
proof
  show "unat (lifecycle_code x) < length lifecycle_states" "lifecycle_states ! unat (lifecycle_code x) = x" for x
    by (cases x; simp add: lifecycle_states_def kLifecycleNames_def)+
qed

interpretation publication_types: enumeration publication_type_code publication_types
proof
  show "unat (publication_type_code x) < length publication_types" "publication_types ! unat (publication_type_code x) = x" for x
    by (cases x; simp add: publication_types_def kPublicationTypeNames_def)+
qed

interpretation discovery_sources: enumeration discovery_source_code discovery_sources
proof
  show "unat (discovery_source_code x) < length discovery_sources" "discovery_sources ! unat (discovery_source_code x) = x" for x
    by (cases x; simp add: discovery_sources_def kDiscoverySourceNames_def)+
qed

interpretation topology_layers: enumeration layer_code topology_layers
proof
  show "unat (layer_code x) < length topology_layers" "topology_layers ! unat (layer_code x) = x" for x
    by (cases x; simp add: topology_layers_def)+
qed

lemmas decode_enums [wire_simps] =
  entity_classes.decode_code node_classes.decode_code relation_classes.decode_code topology_tiers.decode_code scope_kinds.decode_code
  lifecycle_states.decode_code publication_types.decode_code discovery_sources.decode_code topology_layers.decode_code

subsection \<open>Records\<close>

locale wire =
  fixes encode :: "'a \<Rightarrow> bytes" and decode :: "('e, 'a) decoder" and valid :: "'a \<Rightarrow> bool"
  assumes decode_encode: "valid x \<Longrightarrow> decode (reading a (encode x @ c)) = (Inr x, reading (a @ encode x) c)"
begin

text \<open>What was written record by record is stored record by record.\<close>

lemma load_each_encoded:
  "\<forall>x \<in> set xs. valid x \<Longrightarrow> store_all store xs s = Inr s' \<Longrightarrow>
   load_each (\<lambda>r. decode r) store (length xs) s (reading a (concat (map encode xs) @ c)) = (Inr s', reading (a @ concat (map encode xs)) c)"
proof (induction xs arbitrary: a s)
  case (Cons x xs)
  then obtain t where t: "store x s = Inr t" "store_all store xs t = Inr s'" by (auto split: sum.splits)
  have "load_each (\<lambda>r. decode r) store (length xs) t (reading (a @ encode x) (concat (map encode xs) @ c)) =
      (Inr s', reading ((a @ encode x) @ concat (map encode xs)) c)"
    using t(2) Cons.prems(1) by (intro Cons.IH) auto
  with t(1) Cons.prems(1) decode_encode [of x a "concat (map encode xs) @ c"] show ?case by simp
qed simp

end

end
