(* ===== verification/Queries.thy ===== *)
theory Queries
  imports Validation Integrity Wire
begin

text \<open>
  Queries, explanations and statistics (\<open>src/topology_query.cpp\<close>; the filter in \<open>topology.hpp\<close>). A query
  goes through one of the indexes; what it returns is stated without them.
\<close>

subsection \<open>Filters\<close>

record edge_filter =
  ef_relation :: "relation_class option"
  ef_layer :: "topology_layer option"
  ef_domain :: "string option"
  ef_lifecycle :: "lifecycle_state option"
  ef_publisher :: "string option"
  ef_include_non_current :: bool

definition any_edge :: edge_filter where
  "any_edge = \<lparr>ef_relation = None, ef_layer = None, ef_domain = None, ef_lifecycle = None, ef_publisher = None,
     ef_include_non_current = True\<rparr>"

definition current_only :: edge_filter where
  "current_only = any_edge\<lparr>ef_include_non_current := False, ef_lifecycle := Some LS_Current\<rparr>"

definition matches_filter :: "edge_filter \<Rightarrow> edge \<Rightarrow> bool" where
  "matches_filter f x =
     (if (case ef_relation f of Some r \<Rightarrow> ed_relation x \<noteq> r | None \<Rightarrow> False) then False
      else if (case ef_layer f of Some l \<Rightarrow> ed_layer x \<noteq> l | None \<Rightarrow> False) then False
      else if (case ef_domain f of Some d \<Rightarrow> ed_domain x \<noteq> d \<and> \<not> (ed_cross_domain x \<and> ed_secondary_domain x = d) | None \<Rightarrow> False)
      then False
      else if (case ef_lifecycle f of Some s \<Rightarrow> ed_lifecycle x \<noteq> s | None \<Rightarrow> False) then False
      else if (case ef_publisher f of Some p \<Rightarrow> pv_publisher (ed_provenance x) \<noteq> p | None \<Rightarrow> False) then False
      else if \<not> ef_include_non_current f \<and> ed_lifecycle x \<noteq> LS_Current then False
      else True)"

subsection \<open>Lookups\<close>

definition engine_generation :: "engine \<Rightarrow> u64" where "engine_generation e = g_generation (en_graph e)"
definition node_count :: "engine \<Rightarrow> nat" where "node_count e = map_size (g_nodes (en_graph e))"
definition edge_count :: "engine \<Rightarrow> nat" where "edge_count e = map_size (g_edges (en_graph e))"
definition engine_node :: "string \<Rightarrow> engine \<Rightarrow> node option" where "engine_node i e = find_node (en_graph e) i"
definition engine_edge :: "string \<Rightarrow> engine \<Rightarrow> edge option" where "engine_edge i e = find_edge (en_graph e) i"

definition node_for_entity :: "string \<Rightarrow> engine \<Rightarrow> node option" where
  "node_for_entity entity e =
     (case find_node_by_entity (en_graph e) entity of None \<Rightarrow> None | Some i \<Rightarrow> find_node (en_graph e) i)"

definition engine_relationship :: "string \<Rightarrow> engine \<Rightarrow> edge option" where
  "engine_relationship r e =
     (case find_edge_by_relationship (en_graph e) r of None \<Rightarrow> None | Some i \<Rightarrow> find_edge (en_graph e) i)"

subsection \<open>Listings through the indexes\<close>

text \<open>The loop over the identifiers of a bucket and the sort that follows it; the order of the bucket, which
  the code leaves open, does not matter.\<close>

definition found_edges :: "graph \<Rightarrow> string set \<Rightarrow> edge list" where
  "found_edges g ids = List.map_filter (find_edge g) (sorted_list_of_set ids)"

definition collect_edges :: "graph \<Rightarrow> edge_filter \<Rightarrow> string set \<Rightarrow> edge list" where
  "collect_edges g f ids = sort_key ed_id (filter (matches_filter f) (found_edges g ids))"

definition edges_for_node :: "string \<Rightarrow> edge_filter \<Rightarrow> engine \<Rightarrow> edge list" where
  "edges_for_node i f e =
     (case Mapping.lookup (g_incident (en_graph e)) i of
        None \<Rightarrow> [] | Some ids \<Rightarrow> collect_edges (en_graph e) f ids)"

definition other_ends :: "string \<Rightarrow> edge \<Rightarrow> string list" where
  "other_ends i x = (if ed_from x \<noteq> i then [ed_from x] else []) @ (if ed_to x \<noteq> i then [ed_to x] else [])"

definition neighbors :: "string \<Rightarrow> edge_filter \<Rightarrow> engine \<Rightarrow> string list" where
  "neighbors i f e =
     (case Mapping.lookup (g_incident (en_graph e)) i of
        None \<Rightarrow> []
      | Some ids \<Rightarrow> remdups_adj (sort (concat (map (other_ends i) (filter (matches_filter f) (found_edges (en_graph e) ids))))))"

definition edges_by_relation :: "relation_class \<Rightarrow> edge_filter \<Rightarrow> engine \<Rightarrow> edge list" where
  "edges_by_relation r f e =
     (case Mapping.lookup (g_edge_by_relation (en_graph e)) (relation_code r) of
        None \<Rightarrow> [] | Some ids \<Rightarrow> collect_edges (en_graph e) f ids)"

definition edges_in_domain :: "string \<Rightarrow> edge_filter \<Rightarrow> engine \<Rightarrow> edge list" where
  "edges_in_domain d f e =
     (let scoped = (if ef_domain f = None then f\<lparr>ef_domain := Some d\<rparr> else f) in
      case Mapping.lookup (g_domains (en_graph e)) d of
        None \<Rightarrow> [] | Some x \<Rightarrow> collect_edges (en_graph e) scoped (di_edges x))"

definition domain_members :: "string \<Rightarrow> engine \<Rightarrow> string list" where
  "domain_members d e =
     (case Mapping.lookup (g_domains (en_graph e)) d of None \<Rightarrow> [] | Some x \<Rightarrow> sorted_list_of_set (di_nodes x))"

definition edges_from_publisher :: "string \<Rightarrow> edge_filter \<Rightarrow> engine \<Rightarrow> edge list" where
  "edges_from_publisher p f e =
     sort_key ed_id (filter (\<lambda>x. pv_publisher (ed_provenance x) = p \<and> matches_filter f x) (sorted_values (g_edges (en_graph e))))"

definition layer_relationships :: "topology_layer \<Rightarrow> edge_filter \<Rightarrow> engine \<Rightarrow> edge list" where
  "layer_relationships l f e =
     (case Mapping.lookup (g_edge_by_layer (en_graph e)) (layer_code l) of
        None \<Rightarrow> [] | Some ids \<Rightarrow> collect_edges (en_graph e) (f\<lparr>ef_layer := Some l\<rparr>) ids)"

definition physical_relationships :: "edge_filter \<Rightarrow> engine \<Rightarrow> edge list" where
  "physical_relationships f e = layer_relationships Physical f e"

definition logical_relationships :: "edge_filter \<Rightarrow> engine \<Rightarrow> edge list" where
  "logical_relationships f e = layer_relationships Logical f e"

definition all_nodes :: "engine \<Rightarrow> node list" where "all_nodes e = sorted_nodes (en_graph e) scope_all"
definition all_edges :: "engine \<Rightarrow> edge list" where "all_edges e = sorted_edges (en_graph e) scope_all"

definition member_of :: "string \<Rightarrow> edge \<Rightarrow> string list" where
  "member_of anchor x = (if ed_from x = anchor then [ed_to x] else if ed_to x = anchor then [ed_from x] else [])"

definition entity_members :: "string \<Rightarrow> relation_class \<Rightarrow> engine \<Rightarrow> string list" where
  "entity_members entity r e =
     (case find_node_by_entity (en_graph e) entity of
        None \<Rightarrow> []
      | Some anchor \<Rightarrow> (case Mapping.lookup (g_incident (en_graph e)) anchor of
            None \<Rightarrow> []
          | Some ids \<Rightarrow> remdups_adj (sort (concat (map (member_of anchor)
              (filter (\<lambda>x. ed_relation x = r) (found_edges (en_graph e) ids)))))))"

subsection \<open>Explanations\<close>

definition truth :: "bool \<Rightarrow> string" where "truth b = (if b then ''true'' else ''false'')"

definition currentness_reason :: "edge \<Rightarrow> node option \<Rightarrow> node option \<Rightarrow> string" where
  "currentness_reason x a b =
     (if ed_lifecycle x = LS_Current
      then (case (a, b) of
          (Some a, Some b) \<Rightarrow>
            if ed_from_entity_generation x \<noteq> nd_entity_generation a \<or> ed_to_entity_generation x \<noteq> nd_entity_generation b
            then ''endpoint_entity_generation_advanced'' else ''validated_under_current_generation''
        | _ \<Rightarrow> ''endpoint_missing'')
      else if ed_lifecycle x = LS_RevalidationRequired then ''evidence_not_revalidated_under_current_authority''
      else if ed_lifecycle x = LS_Superseded then ''replaced_by_newer_relationship''
      else if ed_lifecycle x = LS_Retired then ''explicitly_retired''
      else if ed_lifecycle x = LS_Conflicted then ''conflicting_authoritative_observations''
      else ''no_authoritative_evidence'')"

definition end_fields :: "string \<Rightarrow> node option \<Rightarrow> u64 \<Rightarrow> field list" where
  "end_fields side n bound_gen =
     (case n of
        None \<Rightarrow> []
      | Some n \<Rightarrow> [(side @ ''_entity'', nd_entity_id n), (side @ ''_class'', node_class_string (nd_class n)),
          (side @ ''_entity_generation_bound'', u64_string bound_gen),
          (side @ ''_entity_generation_current'', u64_string (nd_entity_generation n))])"

definition optional_field :: "string \<Rightarrow> string option \<Rightarrow> field list" where
  "optional_field key v = (case v of None \<Rightarrow> [] | Some s \<Rightarrow> [(key, s)])"

definition relationship_fields :: "edge \<Rightarrow> node option \<Rightarrow> node option \<Rightarrow> field list" where
  "relationship_fields x a b =
     [(''edge_id'', ed_id x), (''relationship_id'', ed_relationship_id x), (''relation'', relation_string (ed_relation x)),
      (''direction'', directionality_string (rule_direction (relation_rules (ed_relation x)))), (''layer'', layer_string (ed_layer x)),
      (''domain'', ed_domain x), (''cross_domain'', truth (ed_cross_domain x))] @
     (if ed_cross_domain x then [(''secondary_domain'', ed_secondary_domain x)] else []) @
     [(''edge_generation'', u64_string (ed_generation x)), (''created_generation'', u64_string (ed_created_generation x)),
      (''last_validated_generation'', u64_string (ed_last_validated_generation x)),
      (''lifecycle'', lifecycle_string (ed_lifecycle x)), (''evidence_generation'', u64_string (ed_evidence_generation x)),
      (''from_node'', ed_from x), (''to_node'', ed_to x)] @
     end_fields ''from'' a (ed_from_entity_generation x) @ end_fields ''to'' b (ed_to_entity_generation x) @
     optional_field ''attachment'' (ed_attachment x) @ optional_field ''superseded_by'' (ed_superseded_by x) @
     optional_field ''supported_by'' (ed_supported_by x) @
     [(''publisher'', pv_publisher (ed_provenance x)), (''worker_boot'', pv_worker_boot (ed_provenance x)),
      (''coordinator_epoch'', u64_string (pv_coordinator_epoch (ed_provenance x))),
      (''discovery_source'', discovery_source_string (pv_source (ed_provenance x))),
      (''evidence_type'', publication_type_string (pv_evidence_type (ed_provenance x))),
      (''cycle_rule'', if rule_cycle_rule (relation_rules (ed_relation x)) = CR_Acyclic then ''ACYCLIC'' else ''CYCLES_ALLOWED''),
      (''currentness_reason'', currentness_reason x a b)]"

definition explain_relationship :: "string \<Rightarrow> engine \<Rightarrow> status" where
  "explain_relationship i e =
     (case find_edge (en_graph e) i of
        None \<Rightarrow> explain O_NotFound ''explain.relationship_not_found'' [(''edge_id'', i)]
      | Some x \<Rightarrow> explain O_Ok ''explain.relationship''
          (relationship_fields x (find_node (en_graph e) (ed_from x)) (find_node (en_graph e) (ed_to x))))"

definition registry_fields :: "engine \<Rightarrow> node \<Rightarrow> field list" where
  "registry_fields e n =
     (case en_directory e of
        None \<Rightarrow> [(''entity_exists'', ''unknown'')]
      | Some look \<Rightarrow> (case look (nd_entity_id n) of
            None \<Rightarrow> [(''entity_exists'', ''false'')]
          | Some rec \<Rightarrow> [(''entity_exists'', ''true''), (''registry_generation'', u64_string (er_generation rec)),
              (''registry_retired'', truth (er_retired rec)), (''registry_superseded'', truth (er_superseded rec))]))"

definition explain_node :: "string \<Rightarrow> engine \<Rightarrow> status" where
  "explain_node i e =
     (case find_node (en_graph e) i of
        None \<Rightarrow> explain O_NotFound ''explain.node_not_found'' [(''node_id'', i)]
      | Some n \<Rightarrow> explain O_Ok ''explain.node''
          ([(''node_id'', nd_id n), (''entity_id'', nd_entity_id n), (''entity_class'', entity_class_string (nd_entity_class n)),
            (''node_class'', node_class_string (nd_class n)), (''tier'', tier_string (nd_tier n)), (''domain'', nd_domain n),
            (''node_generation'', u64_string (nd_generation n)), (''entity_generation'', u64_string (nd_entity_generation n)),
            (''created_generation'', u64_string (nd_created_generation n)),
            (''last_validated_generation'', u64_string (nd_last_validated_generation n)),
            (''lifecycle'', lifecycle_string (nd_lifecycle n)), (''publisher'', pv_publisher (nd_provenance n)),
            (''worker_boot'', pv_worker_boot (nd_provenance n)),
            (''participates_in_current_topology'', truth (nd_lifecycle n = LS_Current))] @
           registry_fields e n @
           [(''incident_relationships'', decimal (card (bucket (g_incident (en_graph e)) i)))]))"

definition explain_generation :: "u64 \<Rightarrow> engine \<Rightarrow> status" where
  "explain_generation gen e = explain O_Ok ''explain.generation''
     [(''requested_generation'', u64_string gen), (''current_generation'', u64_string (en_generation e)),
      (''coordinator_epoch'', u64_string (en_epoch e)), (''matches_current'', truth (gen = en_generation e)),
      (''generation_advances'', u64_string (en_generation_advances e)), (''committed_mutations'', u64_string (en_committed e)),
      (''idempotent_mutations'', u64_string (en_idempotent e)), (''rejected_mutations'', u64_string (en_rejected e)),
      (''publications_committed'', u64_string (en_publications_committed e)),
      (''publications_rejected'', u64_string (en_publications_rejected e))]"

subsection \<open>Introspection\<close>

definition engine_canonical :: "snapshot_scope \<Rightarrow> engine \<Rightarrow> string" where
  "engine_canonical scope e = render_canonical (en_graph e) scope"

definition statistic :: "string \<Rightarrow> string \<Rightarrow> string" where
  "statistic name v = newline @ name @ ''='' @ v"

definition statistics :: "engine \<Rightarrow> string" where
  "statistics e =
     ''topology_generation='' @ u64_string (en_generation e) @ statistic ''coordinator_epoch'' (u64_string (en_epoch e)) @
     statistic ''nodes'' (decimal (node_count e)) @ statistic ''edges'' (decimal (edge_count e)) @
     statistic ''domains'' (decimal (map_size (g_domain_definitions (en_graph e)))) @
     statistic ''publishers'' (decimal (map_size (en_publishers e))) @
     statistic ''fenced_worker_boots'' (decimal (card (en_fenced_boots e))) @
     statistic ''snapshots'' (decimal (length (en_snapshots e))) @
     statistic ''committed_mutations'' (u64_string (en_committed e)) @
     statistic ''idempotent_mutations'' (u64_string (en_idempotent e)) @
     statistic ''rejected_mutations'' (u64_string (en_rejected e)) @
     statistic ''generation_advances'' (u64_string (en_generation_advances e)) @
     statistic ''publications_committed'' (u64_string (en_publications_committed e)) @
     statistic ''publications_rejected'' (u64_string (en_publications_rejected e)) @
     statistic ''digest'' (topology_digest (en_graph e) scope_all) @
     concat (map (\<lambda>r. statistic (''relation.'' @ relation_string r) (decimal (card (bucket (g_edge_by_relation (en_graph e)) (relation_code r)))))
       (tl (map fst kRelationNames))) @
     concat (map (\<lambda>s. statistic (''lifecycle.'' @ lifecycle_string s) (decimal (card (bucket (g_edge_by_lifecycle (en_graph e)) (lifecycle_code s)))))
       (map fst kLifecycleNames))"

definition verify_integrity :: "engine \<Rightarrow> status" where
  "verify_integrity e =
     (let indexes = verify_indexes (en_graph e) in
      if outcome_of indexes \<noteq> O_Ok then indexes else make_status O_Ok ''integrity.ok'')"

subsection \<open>Listings are filters of the whole topology\<close>

lemma same_listing:
  assumes inv: "graph_inv g" and set: "set xs = {x. find_edge g (ed_id x) = Some x \<and> P x}" and dist: "distinct xs"
  shows "sort_key ed_id xs = filter P (sorted_edges g scope_all)"
proof (rule map_sorted_distinct_set_unique)
  let ?F = "filter P (sorted_edges g scope_all)"
  show eq: "set (sort_key ed_id xs) = set ?F" using set by (auto simp: all_listed(2) [OF inv])
  show "inj_on ed_id (set (sort_key ed_id xs) \<union> set ?F)"
    unfolding eq by (rule inj_onI) (auto simp: all_listed(2) [OF inv])
  show "sorted (map ed_id (sort_key ed_id xs))" by simp
  have "inj_on ed_id (set xs)" unfolding set by (rule inj_onI) auto
  with dist have "distinct (map ed_id xs)" by (simp add: distinct_map)
  then show "distinct (map ed_id (sort_key ed_id xs))" by (simp add: distinct_map)
  have "sorted_wrt (<) (map ed_id ?F)"
    using sorted_listing_ids(1) [OF inv, of scope_all] by (simp add: sorted_wrt_map sorted_wrt_filter)
  then show "sorted (map ed_id ?F)" "distinct (map ed_id ?F)" by (simp_all add: strict_sorted_iff)
qed

lemma set_found_edges:
  assumes inv: "graph_inv g" and fin: "finite ids"
  shows "set (found_edges g ids) = {x. find_edge g (ed_id x) = Some x \<and> ed_id x \<in> ids}" "distinct (found_edges g ids)"
proof -
  show "set (found_edges g ids) = {x. find_edge g (ed_id x) = Some x \<and> ed_id x \<in> ids}"
  proof (rule set_eqI)
    fix x
    have "(\<exists>i. i \<in> ids \<and> find_edge g i = Some x) \<longleftrightarrow> find_edge g (ed_id x) = Some x \<and> ed_id x \<in> ids"
      using graph_inv_ids [OF inv, of _ x] by metis
    then show "x \<in> set (found_edges g ids) \<longleftrightarrow> x \<in> {x. find_edge g (ed_id x) = Some x \<and> ed_id x \<in> ids}"
      using fin by (simp add: found_edges_def set_map_filter Bex_def)
  qed
  have "distinct (List.map_filter (find_edge g) is)" if "distinct is" for "is"
    using that
  proof (induction "is")
    case (Cons i "is")
    show ?case
    proof (cases "find_edge g i")
      case (Some x)
      have "x \<notin> set (List.map_filter (find_edge g) is)"
      proof
        assume "x \<in> set (List.map_filter (find_edge g) is)"
        then obtain j where "j \<in> set is" "find_edge g j = Some x" by (auto simp: set_map_filter)
        with graph_inv_ids [OF inv Some] graph_inv_ids [OF inv, of j x] Cons.prems show False by auto
      qed
      with Some Cons show ?thesis by (simp add: List.map_filter_simps)
    qed (use Cons in \<open>simp add: List.map_filter_simps\<close>)
  qed (simp add: List.map_filter_simps)
  then show "distinct (found_edges g ids)" by (simp add: found_edges_def)
qed

lemma collected:
  assumes inv: "graph_inv g" and fin: "finite ids" and ids: "\<And>i x. find_edge g i = Some x \<Longrightarrow> i \<in> ids \<longleftrightarrow> Q x"
  shows "collect_edges g f ids = filter (\<lambda>x. Q x \<and> matches_filter f x) (sorted_edges g scope_all)"
  unfolding collect_edges_def
proof (rule same_listing [OF inv])
  show "set (filter (matches_filter f) (found_edges g ids)) =
      {x. find_edge g (ed_id x) = Some x \<and> Q x \<and> matches_filter f x}"
    using ids by (auto simp: set_found_edges(1) [OF inv fin])
  show "distinct (filter (matches_filter f) (found_edges g ids))" by (simp add: set_found_edges(2) [OF inv fin])
qed

text \<open>A bucket of one of the edge indexes, present or not.\<close>

lemma collected_bucket:
  assumes inv: "graph_inv g" and f: "files keys m (g_edges g)"
  shows "(case Mapping.lookup m k of None \<Rightarrow> [] | Some ids \<Rightarrow> collect_edges g flt ids) =
    filter (\<lambda>x. k \<in> keys x \<and> matches_filter flt x) (sorted_edges g scope_all)"
proof -
  have "finite (Mapping.keys (g_edges g))" using inv by (simp add: graph_inv_def)
  then have fin: "finite (bucket m k)" using files_bucket_finite [OF f] by blast
  have "i \<in> bucket m k \<longleftrightarrow> k \<in> keys x" if "find_edge g i = Some x" for i x
    using f that by (auto simp: files_def filed_def find_defs)
  note all = collected [OF inv fin this, where f = flt]
  have "collect_edges g flt {} = []" by (simp add: collect_edges_def found_edges_def List.map_filter_simps)
  with all show ?thesis by (cases "Mapping.lookup m k") (simp_all add: bucket_def)
qed

lemma set_neighbours:
  assumes inv: "graph_inv g" and f: "files keys m (g_edges g)"
  shows "set (case Mapping.lookup m k of None \<Rightarrow> [] | Some ids \<Rightarrow> remdups_adj (sort (concat (map ends (filter P (found_edges g ids)))))) =
    {j. \<exists>x. find_edge g (ed_id x) = Some x \<and> k \<in> keys x \<and> P x \<and> j \<in> set (ends x)}"
proof -
  have "finite (Mapping.keys (g_edges g))" using inv by (simp add: graph_inv_def)
  then have fin: "finite (bucket m k)" using files_bucket_finite [OF f] by blast
  have "i \<in> bucket m k \<longleftrightarrow> (\<exists>x. find_edge g i = Some x \<and> k \<in> keys x)" for i
    using f by (auto simp: files_def filed_def find_defs)
  then have "set (found_edges g (bucket m k)) = {x. find_edge g (ed_id x) = Some x \<and> k \<in> keys x}"
    by (auto simp: set_found_edges(1) [OF inv fin])
  then have "set (concat (map ends (filter P (found_edges g (bucket m k))))) =
      {j. \<exists>x. find_edge g (ed_id x) = Some x \<and> k \<in> keys x \<and> P x \<and> j \<in> set (ends x)}" by auto
  then show ?thesis
    by (cases "Mapping.lookup m k") (simp_all add: bucket_def found_edges_def List.map_filter_simps)
qed

lemma one_record:
  assumes k: "keyed key m E" and ids: "\<And>i x. Mapping.lookup E i = Some x \<Longrightarrow> idf x = i"
  shows "(case Mapping.lookup m k of None \<Rightarrow> None | Some i \<Rightarrow> Mapping.lookup E i) = Some x \<longleftrightarrow>
    Mapping.lookup E (idf x) = Some x \<and> key x = k"
proof -
  have found: "Mapping.lookup m k = Some i \<and> Mapping.lookup E i = Some x \<longleftrightarrow> Mapping.lookup E i = Some x \<and> key x = k" for i
    using k unfolding keyed_def by (metis option.inject)
  have "(case Mapping.lookup m k of None \<Rightarrow> None | Some i \<Rightarrow> Mapping.lookup E i) = Some x \<longleftrightarrow>
      (\<exists>i. Mapping.lookup m k = Some i \<and> Mapping.lookup E i = Some x)" by (simp split: option.splits)
  also have "\<dots> \<longleftrightarrow> Mapping.lookup E (idf x) = Some x \<and> key x = k" unfolding found using ids by metis
  finally show ?thesis .
qed

lemma distinct_remdups_adj: "sorted (xs :: 'a :: linorder list) \<Longrightarrow> distinct (remdups_adj xs)"
  by (induction xs rule: remdups_adj.induct) (auto simp: antisym)

lemma neighbors_sorted: "sorted (neighbors i f e) \<and> distinct (neighbors i f e)"
  by (simp add: neighbors_def distinct_remdups_adj split: option.split)

lemma domain_listing:
  assumes inv: "graph_inv (en_graph e)"
  shows "edges_in_domain d f e = filter (\<lambda>x. d \<in> edge_domains x \<and>
    matches_filter (if ef_domain f = None then f\<lparr>ef_domain := Some d\<rparr> else f) x) (all_edges e)"
proof -
  let ?g = "en_graph e" and ?f = "if ef_domain f = None then f\<lparr>ef_domain := Some d\<rparr> else f"
  have "finite (Mapping.keys (g_edges ?g))" and filed: "di_edges (domain_at (g_domains ?g) d) = filed edge_domains (g_edges ?g) d"
    using inv by (simp_all add: graph_inv_def indexes_ok_def domains_ok_def)
  moreover have "filed edge_domains (g_edges ?g) d \<subseteq> Mapping.keys (g_edges ?g)" by (auto simp: filed_def mem_keys_iff)
  ultimately have fin: "finite (di_edges (domain_at (g_domains ?g) d))" by (simp add: finite_subset)
  have "i \<in> di_edges (domain_at (g_domains ?g) d) \<longleftrightarrow> d \<in> edge_domains x" if "find_edge ?g i = Some x" for i x
    using that by (simp add: filed filed_def find_edge_def)
  note all = collected [OF inv fin this, where f = ?f]
  have "collect_edges ?g ?f {} = []" by (simp add: collect_edges_def found_edges_def List.map_filter_simps)
  with all show ?thesis
    by (cases "Mapping.lookup (g_domains ?g) d")
      (simp_all add: edges_in_domain_def Let_def all_edges_def domain_at_def empty_domain_index_def)
qed

text \<open>C21: on a consistent graph every query that goes through an index lists exactly the
  relationships of the whole topology that answer it, in the order of their identifiers and each
  once: those at a node, of a relation, in a domain, on a layer and of a publisher, that pass the
  filter; the neighbours of a node are the other ends of its relationships that pass, and the
  lookups by entity and by relationship find the one record that has the identity.\<close>

theorem queries_list_the_topology:
  assumes inv: "graph_inv (en_graph e)"
  shows "edges_for_node i f e = filter (\<lambda>x. i \<in> {ed_from x, ed_to x} \<and> matches_filter f x) (all_edges e) \<and>
    edges_by_relation r f e = filter (\<lambda>x. ed_relation x = r \<and> matches_filter f x) (all_edges e) \<and>
    edges_in_domain d f e = filter (\<lambda>x. d \<in> edge_domains x \<and>
      matches_filter (if ef_domain f = None then f\<lparr>ef_domain := Some d\<rparr> else f) x) (all_edges e) \<and>
    layer_relationships l f e = filter (\<lambda>x. ed_layer x = l \<and> matches_filter (f\<lparr>ef_layer := Some l\<rparr>) x) (all_edges e) \<and>
    edges_from_publisher p f e = filter (\<lambda>x. pv_publisher (ed_provenance x) = p \<and> matches_filter f x) (all_edges e) \<and>
    set (neighbors i f e) = {j. j \<noteq> i \<and> (\<exists>x \<in> set (all_edges e). matches_filter f x \<and> {ed_from x, ed_to x} = {i, j})} \<and>
    sorted (neighbors i f e) \<and> distinct (neighbors i f e) \<and>
    (node_for_entity entity e = Some n \<longleftrightarrow> n \<in> set (all_nodes e) \<and> nd_entity_id n = entity) \<and>
    (engine_relationship rel e = Some x \<longleftrightarrow> x \<in> set (all_edges e) \<and> ed_relationship_id x = rel)"
proof (intro conjI)
  let ?g = "en_graph e"
  note parts = inv [unfolded graph_inv_def indexes_ok_def]
  have files: "files edge_ends (g_incident ?g) (g_edges ?g)" "files (\<lambda>e. {relation_code (ed_relation e)}) (g_edge_by_relation ?g) (g_edges ?g)"
    "files (\<lambda>e. {layer_code (ed_layer e)}) (g_edge_by_layer ?g) (g_edges ?g)" using parts by blast+
  show "edges_for_node i f e = filter (\<lambda>x. i \<in> {ed_from x, ed_to x} \<and> matches_filter f x) (all_edges e)"
    unfolding edges_for_node_def all_edges_def collected_bucket [OF inv files(1)] by (simp add: edge_ends_def)
  have rel: "relation_code a = relation_code b \<longleftrightarrow> a = b" for a b using relation_classes.code_injective by blast
  show "edges_by_relation r f e = filter (\<lambda>x. ed_relation x = r \<and> matches_filter f x) (all_edges e)"
    unfolding edges_by_relation_def all_edges_def collected_bucket [OF inv files(2)] by (simp add: rel eq_commute [of r])
  have lay: "layer_code a = layer_code b \<longleftrightarrow> a = b" for a b using topology_layers.code_injective by blast
  show "layer_relationships l f e = filter (\<lambda>x. ed_layer x = l \<and> matches_filter (f\<lparr>ef_layer := Some l\<rparr>) x) (all_edges e)"
    unfolding layer_relationships_def all_edges_def collected_bucket [OF inv files(3)] by (simp add: lay eq_commute [of l])
  show "edges_in_domain d f e = filter (\<lambda>x. d \<in> edge_domains x \<and>
      matches_filter (if ef_domain f = None then f\<lparr>ef_domain := Some d\<rparr> else f) x) (all_edges e)"
    by (rule domain_listing [OF inv])
  show "edges_from_publisher p f e = filter (\<lambda>x. pv_publisher (ed_provenance x) = p \<and> matches_filter f x) (all_edges e)"
    using sorted_values_listing(1) [of "g_edges ?g" ed_id] parts
    by (simp add: edges_from_publisher_def all_edges_def sorted_edges_eq [OF inv] edge_in_scope_def scope_all_def)
  have "set (neighbors i f e) =
      {j. \<exists>x. find_edge ?g (ed_id x) = Some x \<and> i \<in> edge_ends x \<and> matches_filter f x \<and> j \<in> set (other_ends i x)}"
    unfolding neighbors_def by (rule set_neighbours [OF inv files(1)])
  also have "\<dots> = {j. j \<noteq> i \<and> (\<exists>x \<in> set (all_edges e). matches_filter f x \<and> {ed_from x, ed_to x} = {i, j})}"
  proof -
    have "i \<in> edge_ends x \<and> j \<in> set (other_ends i x) \<longleftrightarrow> j \<noteq> i \<and> {ed_from x, ed_to x} = {i, j}" for x j
      by (auto simp: edge_ends_def other_ends_def doubleton_eq_iff)
    then show ?thesis unfolding all_edges_def all_listed(2) [OF inv] by blast
  qed
  finally show "set (neighbors i f e) = {j. j \<noteq> i \<and> (\<exists>x \<in> set (all_edges e). matches_filter f x \<and> {ed_from x, ed_to x} = {i, j})}" .
  show "sorted (neighbors i f e)" "distinct (neighbors i f e)" by (simp_all add: neighbors_sorted)
  have keyed: "keyed nd_entity_id (g_node_by_entity ?g) (g_nodes ?g)" "keyed ed_relationship_id (g_edge_by_relationship ?g) (g_edges ?g)"
    using parts by blast+
  show "node_for_entity entity e = Some n \<longleftrightarrow> n \<in> set (all_nodes e) \<and> nd_entity_id n = entity"
    using one_record [OF keyed(1), of nd_id entity n] graph_inv_node_ids [OF inv]
    by (simp add: node_for_entity_def all_nodes_def all_listed(1) [OF inv] find_defs cong: option.case_cong)
  show "engine_relationship rel e = Some x \<longleftrightarrow> x \<in> set (all_edges e) \<and> ed_relationship_id x = rel"
    using one_record [OF keyed(2), of ed_id rel x] graph_inv_ids [OF inv]
    by (simp add: engine_relationship_def all_edges_def all_listed(2) [OF inv] find_defs cong: option.case_cong)
qed

theorem queries_list_the_topology_witness:
  "set (edges_for_node ''nic'' any_edge demo_linked) = {demo_stale_edge} \<and> neighbors ''nic'' any_edge demo_linked = [''s1''] \<and>
   edges_by_relation RC_TunneledOver any_edge demo_linked = [] \<and> engine_relationship (ed_relationship_id demo_stale_edge) demo_linked = Some demo_stale_edge"
proof -
  note inv = graph_okD(1) [OF demo_linked_facts(1)]
  have all: "set (all_edges demo_linked) = {demo_stale_edge}"
    by (auto simp: all_edges_def all_listed(2) [OF inv] demo_linked_facts(2) demo_stale_edge_def split: if_splits)
  have x: "ed_from demo_stale_edge = ''nic''" "ed_to demo_stale_edge = ''s1''" "ed_relation demo_stale_edge \<noteq> RC_TunneledOver"
    "matches_filter any_edge demo_stale_edge"
    by (simp_all add: demo_stale_edge_def matches_filter_def any_edge_def)
  note listed = queries_list_the_topology [OF inv, where i = "''nic''" and f = any_edge and r = RC_TunneledOver and
      rel = "ed_relationship_id demo_stale_edge" and x = demo_stale_edge]
  have "set (neighbors ''nic'' any_edge demo_linked) = {''s1''}" using listed all x by (auto simp: doubleton_eq_iff)
  moreover have "sorted (neighbors ''nic'' any_edge demo_linked)" "distinct (neighbors ''nic'' any_edge demo_linked)"
    using listed by simp_all
  ultimately have "neighbors ''nic'' any_edge demo_linked = [''s1'']" by (simp add: sorted_distinct_set_unique)
  moreover have "filter (\<lambda>x. ed_relation x = RC_TunneledOver \<and> P x) (all_edges demo_linked) = []" for P
    using all x(3) by (auto simp: filter_empty_conv)
  ultimately show ?thesis using listed all x by auto
qed

end
