(* ===== verification/Snapshots.thy ===== *)
theory Snapshots
  imports Queries
begin

text \<open>
  Snapshots of the engine (\<open>src/snapshot.cpp\<close>): building one while mutations may land between the reading of
  the content and the recording of it, the bounded history, and the check of a snapshot against the
  engine. \<open>TopologyEngine::diff_from\<close> and the constructors of scopes are in \<open>Diff\<close> and \<open>Canonical\<close>.
\<close>

subsection \<open>Building\<close>

text \<open>The content, read under the shared lock from one state of the engine.\<close>

definition read_content :: "snapshot_scope \<Rightarrow> engine \<Rightarrow> topology_snapshot" where
  "read_content scope e =
     \<lparr>sn_id = [], sn_snapshot_generation = 0, sn_topology_generation = en_generation e, sn_coordinator_epoch = en_epoch e,
       sn_scope = scope, sn_digest = topology_digest (en_graph e) scope, sn_nodes = sorted_nodes (en_graph e) scope,
       sn_edges = sorted_edges (en_graph e) scope\<rparr>"

definition trim_history :: "nat \<Rightarrow> topology_snapshot list \<Rightarrow> topology_snapshot list" where
  "trim_history n xs = drop (length xs - n) xs"

definition number_snapshot :: "topology_snapshot \<Rightarrow> u64 \<Rightarrow> topology_snapshot" where
  "number_snapshot s counter = s\<lparr>sn_snapshot_generation := counter, sn_id := ''snap_'' @ u64_string counter\<rparr>"

definition record_snapshot :: "topology_snapshot \<Rightarrow> engine \<Rightarrow> topology_snapshot \<times> engine" where
  "record_snapshot s e =
     (let counter = advance_if_possible (g_snapshot_counter (en_graph e)); s = number_snapshot s counter in
      (s, e\<lparr>en_graph := (en_graph e)\<lparr>g_snapshot_counter := counter\<rparr>,
        en_snapshots := trim_history (en_snapshot_history e) (en_snapshots e @ [s])\<rparr>))"

text \<open>One attempt per pair of states: the state whose content is read, and the state in which the exclusive
  lock is taken. The states in between belong to other threads; the last state is the one in which
  the exclusive lock is taken after the last attempt.\<close>

fun snapshot_attempts :: "snapshot_scope \<Rightarrow> (engine \<times> engine) list \<Rightarrow> engine \<Rightarrow> topology_snapshot \<times> engine" where
  "snapshot_attempts scope [] final = record_snapshot (read_content scope final) final"
| "snapshot_attempts scope ((seen, locked) # rest) final =
     (let s = read_content scope seen in
      if en_generation locked \<noteq> sn_topology_generation s \<or> en_epoch locked \<noteq> sn_coordinator_epoch s
      then snapshot_attempts scope rest final else record_snapshot s locked)"

definition kSnapshotAttempts :: nat where "kSnapshotAttempts = 8"

definition snapshot_among :: "snapshot_scope \<Rightarrow> (engine \<times> engine) list \<Rightarrow> engine \<Rightarrow> topology_snapshot \<times> engine" where
  "snapshot_among scope states final = snapshot_attempts scope (take kSnapshotAttempts states) final"

text \<open>A snapshot while no other thread changes the engine.\<close>

definition snapshot :: "snapshot_scope \<Rightarrow> engine \<Rightarrow> topology_snapshot \<times> engine" where
  "snapshot scope e = snapshot_among scope [(e, e)] e"

subsection \<open>Checking\<close>

datatype snapshot_verdict = SV_Current | SV_OlderGeneration | SV_NewerGeneration | SV_DifferentCoordinatorEpoch
  | SV_ScopeMismatch | SV_DigestMismatch

fun snapshot_verdict_string :: "snapshot_verdict \<Rightarrow> string" where
  "snapshot_verdict_string SV_Current = ''CURRENT''" | "snapshot_verdict_string SV_OlderGeneration = ''OLDER_GENERATION''"
| "snapshot_verdict_string SV_NewerGeneration = ''NEWER_GENERATION''"
| "snapshot_verdict_string SV_DifferentCoordinatorEpoch = ''DIFFERENT_COORDINATOR_EPOCH''"
| "snapshot_verdict_string SV_ScopeMismatch = ''SCOPE_MISMATCH''" | "snapshot_verdict_string SV_DigestMismatch = ''DIGEST_MISMATCH''"

record snapshot_currentness =
  sy_verdict :: snapshot_verdict
  sy_current :: bool
  sy_detail :: string

definition render_currentness :: "snapshot_currentness \<Rightarrow> string" where
  "render_currentness c = ''current='' @ truth (sy_current c) @ '' verdict='' @ snapshot_verdict_string (sy_verdict c) @
     (if sy_detail c \<noteq> [] then '' detail='' @ sy_detail c else [])"

definition not_current :: "snapshot_verdict \<Rightarrow> string \<Rightarrow> snapshot_currentness" where
  "not_current v detail = \<lparr>sy_verdict = v, sy_current = False, sy_detail = detail\<rparr>"

definition check_snapshot :: "topology_snapshot \<Rightarrow> engine \<Rightarrow> snapshot_currentness" where
  "check_snapshot s e =
     (let expected = topology_digest (en_graph e) (sn_scope s) in
      if sn_coordinator_epoch s \<noteq> en_epoch e
      then not_current SV_DifferentCoordinatorEpoch
        (''snapshot epoch '' @ u64_string (sn_coordinator_epoch s) @ '' runtime epoch '' @ u64_string (en_epoch e))
      else if sn_digest s \<noteq> expected
      then not_current SV_DigestMismatch (''snapshot digest '' @ sn_digest s @ '' runtime digest '' @ expected)
      else if sn_topology_generation s < en_generation e
      then not_current SV_OlderGeneration (''snapshot generation '' @ u64_string (sn_topology_generation s) @
        '' runtime generation '' @ u64_string (en_generation e))
      else if en_generation e < sn_topology_generation s
      then not_current SV_NewerGeneration ''snapshot generation is ahead of the runtime generation''
      else \<lparr>sy_verdict = SV_Current, sy_current = True,
        sy_detail = ''digest, generation and coordinator epoch match the runtime''\<rparr>)"

definition engine_digest :: "snapshot_scope \<Rightarrow> engine \<Rightarrow> string" where
  "engine_digest scope e = topology_digest (en_graph e) scope"

definition snapshot_history :: "nat \<Rightarrow> engine \<Rightarrow> topology_snapshot option" where
  "snapshot_history i e = (if length (en_snapshots e) \<le> i then None else Some (en_snapshots e ! i))"

definition snapshot_count :: "engine \<Rightarrow> nat" where "snapshot_count e = length (en_snapshots e)"

definition diff_against_current :: "topology_snapshot \<Rightarrow> engine \<Rightarrow> topology_diff \<times> engine" where
  "diff_against_current s e = (case snapshot (sn_scope s) e of (t, e') \<Rightarrow> (snapshot_diff s t, e'))"

subsection \<open>What a snapshot holds\<close>

lemma topology_digest_counter [simp]:
  "topology_digest (g\<lparr>g_snapshot_counter := c\<rparr>) s = topology_digest g s"
  by (simp add: topology_digest_def digest_preimage_def sorted_nodes_def sorted_edges_def)

lemma record_snapshot_effect:
  assumes run: "record_snapshot (read_content scope seen) locked = (s, e')"
  shows "sn_topology_generation s = en_generation seen \<and> sn_coordinator_epoch s = en_epoch seen \<and> sn_scope s = scope \<and>
    sn_nodes s = sorted_nodes (en_graph seen) scope \<and> sn_edges s = sorted_edges (en_graph seen) scope \<and>
    sn_digest s = topology_digest (en_graph seen) scope \<and>
    g_snapshot_counter (en_graph locked) \<le> sn_snapshot_generation s \<and>
    e' = locked\<lparr>en_graph := (en_graph locked)\<lparr>g_snapshot_counter := sn_snapshot_generation s\<rparr>,
      en_snapshots := drop (length (en_snapshots locked) + 1 - en_snapshot_history locked) (en_snapshots locked @ [s])\<rparr> \<and>
    length (en_snapshots e') \<le> en_snapshot_history e'"
proof -
  let ?c = "advance_if_possible (g_snapshot_counter (en_graph locked))" and ?n = "en_snapshot_history locked"
  have s: "s = number_snapshot (read_content scope seen) ?c"
    and e: "e' = locked\<lparr>en_graph := (en_graph locked)\<lparr>g_snapshot_counter := ?c\<rparr>, en_snapshots := trim_history ?n (en_snapshots locked @ [s])\<rparr>"
    using run by (auto simp: record_snapshot_def Let_def)
  show ?thesis
    unfolding e s by (simp add: number_snapshot_def read_content_def advance_if_possible_ge trim_history_def)
qed

lemma attempts_record_one_state:
  "\<exists>seen locked. (seen, locked) \<in> set xs \<union> {(final, final)} \<and> en_generation seen = en_generation locked \<and>
     en_epoch seen = en_epoch locked \<and> snapshot_attempts scope xs final = record_snapshot (read_content scope seen) locked"
proof (induction xs)
  case (Cons x xs)
  obtain seen locked where x: "x = (seen, locked)" by (cases x)
  show ?case
  proof (cases "en_generation locked \<noteq> en_generation seen \<or> en_epoch locked \<noteq> en_epoch seen")
    case True
    then have "snapshot_attempts scope (x # xs) final = snapshot_attempts scope xs final" by (simp add: x read_content_def Let_def)
    with Cons.IH show ?thesis by auto
  next
    case False
    then have "snapshot_attempts scope (x # xs) final = record_snapshot (read_content scope seen) locked"
      by (simp add: x read_content_def Let_def)
    with False show ?thesis by (intro exI [of _ seen] exI [of _ locked]) (simp add: x)
  qed
qed auto

text \<open>C22: a snapshot is the content of one state of the engine, however many mutations land while it
  is built: its generation, epoch, listings and digest were all read in one of the states the
  threads passed through, and that state has the generation and the epoch of the state in which it
  is recorded. Recording it changes nothing of the topology, numbers it by a counter that never
  goes back, and appends it to the history, which drops the oldest beyond its bound.\<close>

theorem snapshot_is_one_state:
  "case snapshot_among scope states final of (s, e') \<Rightarrow>
     \<exists>seen locked. (seen, locked) \<in> set states \<union> {(final, final)} \<and>
       en_generation seen = en_generation locked \<and> en_epoch seen = en_epoch locked \<and>
       sn_topology_generation s = en_generation seen \<and> sn_coordinator_epoch s = en_epoch seen \<and> sn_scope s = scope \<and>
       sn_nodes s = sorted_nodes (en_graph seen) scope \<and> sn_edges s = sorted_edges (en_graph seen) scope \<and>
       sn_digest s = topology_digest (en_graph seen) scope \<and>
       g_snapshot_counter (en_graph locked) \<le> sn_snapshot_generation s \<and>
       e' = locked\<lparr>en_graph := (en_graph locked)\<lparr>g_snapshot_counter := sn_snapshot_generation s\<rparr>,
         en_snapshots := drop (length (en_snapshots locked) + 1 - en_snapshot_history locked) (en_snapshots locked @ [s])\<rparr> \<and>
       length (en_snapshots e') \<le> en_snapshot_history e'"
proof -
  obtain s e' where run: "snapshot_among scope states final = (s, e')" by fastforce
  obtain seen locked where
    among: "(seen, locked) \<in> set (take kSnapshotAttempts states) \<union> {(final, final)}" and
    same: "en_generation seen = en_generation locked" "en_epoch seen = en_epoch locked" and
    rec: "record_snapshot (read_content scope seen) locked = (s, e')"
    using attempts_record_one_state [of "take kSnapshotAttempts states" final scope] run unfolding snapshot_among_def by metis
  have mem: "(seen, locked) \<in> set states \<union> {(final, final)}" using among by (auto dest: in_set_takeD)
  show ?thesis
    unfolding run prod.case by (rule exI, rule exI, rule conjI [OF mem conjI [OF same(1) conjI [OF same(2) record_snapshot_effect [OF rec]]]])
qed

text \<open>A snapshot counts as current exactly if its epoch, its generation and its digest are those of
  the engine; a snapshot just taken is current, taking it or asking for the difference to the present
  leaves it so.\<close>

theorem snapshot_current_iff:
  "(sy_current (check_snapshot s e) \<longleftrightarrow> sn_coordinator_epoch s = en_epoch e \<and> sn_topology_generation s = en_generation e \<and>
     sn_digest s = topology_digest (en_graph e) (sn_scope s)) \<and>
   sy_current (check_snapshot (fst (snapshot scope e)) (snd (snapshot scope e))) \<and>
   sy_current (check_snapshot (fst (snapshot scope e)) (snd (diff_against_current (fst (snapshot scope e)) e)))"
proof -
  have iff: "sy_current (check_snapshot s e) \<longleftrightarrow> sn_coordinator_epoch s = en_epoch e \<and> sn_topology_generation s = en_generation e \<and>
     sn_digest s = topology_digest (en_graph e) (sn_scope s)" for s e
    by (auto simp: check_snapshot_def not_current_def Let_def)
  show ?thesis
    unfolding iff
    by (simp add: snapshot_def snapshot_among_def kSnapshotAttempts_def diff_against_current_def record_snapshot_def number_snapshot_def
        read_content_def Let_def en_generation_def)
qed

end
