(* ===== verification/Forward.thy ===== *)
theory Forward
  imports Machine Publishing Snapshots
begin

text \<open>
  The coordinator epoch, the fences and the topology generation under every operation of the engine
  (\<open>src/topology_engine.cpp\<close>, \<open>src/topology_mutations.cpp\<close>, \<open>src/reconciliation.cpp\<close>), from any state whatever:
  nothing here assumes the invariant of the graph, so it also covers the requests that break it.
\<close>

definition forward :: "engine \<Rightarrow> engine \<Rightarrow> bool" where
  "forward e e' \<longleftrightarrow> en_epoch e' = en_epoch e \<and> en_fenced_boots e' = en_fenced_boots e \<and>
     (en_generation e' = en_generation e \<or> can_advance (en_generation e) \<and> en_generation e' = next_counter (en_generation e))"

lemma forward_progress: "forward e e' \<Longrightarrow> progress e e'"
  using advance_le(2) by (auto simp: forward_def progress_def)

lemma forward_then:
  assumes "forward e e1" "control e2 = control e1" "en_generation e2 = en_generation e1"
  shows "forward e e2"
  using assms(1,3) control_sel(1,2) [OF assms(2)] by (simp add: forward_def)

lemma forward_same [simp]: "forward e e"
  by (simp add: forward_def)

lemmas forward_control = forward_then [OF forward_same]

lemma forward_answers [simp]:
  "forward e (snd (rejected s e))" "forward e (snd (rejected_by p s e))" "forward e (snd (unchanged p s n i e))"
  by (auto intro!: forward_control simp: rejected_def rejected_by_def unchanged_def control_simps)

subsection \<open>Logs that leave the generation alone\<close>

definition plain_log :: "txn \<Rightarrow> bool" where
  "plain_log t \<longleftrightarrow> (\<forall>v. GenerationChanged v \<notin> set (tx_entries t))"

lemma plain_log_simps [simp]:
  "plain_log begin_txn" "plain_log (note_node_inserted i t) = plain_log t" "plain_log (note_node_erased n t) = plain_log t"
  "plain_log (note_node_updated n t) = plain_log t" "plain_log (note_edge_inserted i t) = plain_log t"
  "plain_log (note_edge_erased x t) = plain_log t" "plain_log (note_edge_updated x t) = plain_log t"
  by (simp_all add: plain_log_def begin_txn_def note_defs)

lemma base_frame_generation: "base_frame h = base_frame g \<Longrightarrow> g_generation h = g_generation g"
  by (simp add: base_frame_def)

lemma changes_generation [simp]:
  "g_generation (snd (insert_node n g)) = g_generation g" "g_generation (snd (erase_node i g)) = g_generation g"
  "g_generation (snd (update_node n g)) = g_generation g" "g_generation (snd (insert_edge x g)) = g_generation g"
  "g_generation (snd (erase_edge i g)) = g_generation g" "g_generation (snd (update_edge x g)) = g_generation g"
  by (rule base_frame_generation; simp add: frame_simps)+

lemma undo_generation: "(\<And>v. x \<noteq> GenerationChanged v) \<Longrightarrow> g_generation (undo x g) = g_generation g"
  by (cases x) auto

lemma undo_all_generation:
  "(\<And>v. GenerationChanged v \<notin> set es) \<Longrightarrow> g_generation (fold undo es g) = g_generation g"
proof (induction es arbitrary: g)
  case (Cons x es)
  have "g_generation (undo x g) = g_generation g" using Cons.prems by (intro undo_generation) auto
  then show ?case using Cons by simp
qed simp

lemma rollback_generation: "plain_log t \<Longrightarrow> g_generation (snd (rollback t g)) = g_generation g"
  by (simp add: rollback_def plain_log_def undo_all_generation)

lemma rollback_noted:
  assumes "plain_log t"
  shows "g_generation (snd (rollback (note_generation v t) g)) \<in> {v, g_generation g}"
  using assms by (simp add: rollback_def note_defs plain_log_def undo_all_generation)

lemma loops_plain:
  "plain_log t \<Longrightarrow> fence_loop skip change is t g d = (t', h, d') \<Longrightarrow> plain_log t' \<and> g_generation h = g_generation g"
  "plain_log t \<Longrightarrow> erase_loop is t g d = (t', h, d') \<Longrightarrow> plain_log t' \<and> g_generation h = g_generation g"
  "plain_log t \<Longrightarrow> demote_loop select is t g n = (t', h, m) \<Longrightarrow> plain_log t' \<and> g_generation h = g_generation g"
  "plain_log t \<Longrightarrow> epoch_loop is t g c = (t', h, c') \<Longrightarrow> plain_log t' \<and> g_generation h = g_generation g"
proof -
  show "plain_log t \<Longrightarrow> fence_loop skip change is t g d = (t', h, d') \<Longrightarrow> plain_log t' \<and> g_generation h = g_generation g"
    by (induction skip change "is" t g d rule: fence_loop.induct) (auto split: option.splits if_splits)
  show "plain_log t \<Longrightarrow> erase_loop is t g d = (t', h, d') \<Longrightarrow> plain_log t' \<and> g_generation h = g_generation g"
    by (induction "is" t g d rule: erase_loop.induct) (auto split: option.splits)
  show "plain_log t \<Longrightarrow> demote_loop select is t g n = (t', h, m) \<Longrightarrow> plain_log t' \<and> g_generation h = g_generation g"
    by (induction select "is" t g n rule: demote_loop.induct) (auto split: option.splits if_splits)
  have mutate: "g_generation (snd (mutate_edge i f g)) = g_generation g" for i f g
    by (simp add: mutate_edge_def Let_def index_edge_def unindex_edge_def split: option.split)
  show "plain_log t \<Longrightarrow> epoch_loop is t g c = (t', h, c') \<Longrightarrow> plain_log t' \<and> g_generation h = g_generation g"
    by (induction "is" t g c rule: epoch_loop.induct) (auto simp: mutate split: option.splits if_splits)
qed

subsection \<open>The ends of a handler\<close>

lemma finalize_forward:
  assumes "plain_log t" "g_generation g = en_generation e"
  shows "forward e (snd (finalize_mutation io t (e\<lparr>en_graph := g\<rparr>)))"
  using rollback_noted [OF assms(1), of "en_generation e" g]
    rollback_noted [OF assms(1), of "en_generation e" "g\<lparr>g_generation := next_counter (en_generation e)\<rparr>"] assms(2)
  by (auto simp: finalize_mutation_def Let_def forward_def en_generation_def)

lemma conclude_forward:
  assumes "plain_log t" "g_generation g = en_generation e"
  shows "forward e (snd (conclude io p t success (e\<lparr>en_graph := g\<rparr>)))"
    and "forward e (snd (conclude_verified io p t success (e\<lparr>en_graph := g\<rparr>)))"
proof -
  obtain s e1 where run: "finalize_mutation io t (e\<lparr>en_graph := g\<rparr>) = (s, e1)" by (metis surj_pair)
  have f: "forward e e1" using finalize_forward [OF assms, of io] by (simp add: run)
  show "forward e (snd (conclude io p t success (e\<lparr>en_graph := g\<rparr>)))"
    by (auto intro!: forward_then [OF f] simp: conclude_def run rejected_by_def rejected_def control_simps)
  show "forward e (snd (conclude_verified io p t success (e\<lparr>en_graph := g\<rparr>)))"
    by (auto intro!: forward_then [OF f] simp: f conclude_verified_def run rejected_by_def rejected_def control_simps)
qed

lemma refused_insert_forward:
  "plain_log t \<Longrightarrow> g_generation g = en_generation e \<Longrightarrow> forward e (snd (rejected_by p s (e\<lparr>en_graph := snd (rollback t g)\<rparr>)))"
  by (rule forward_control)
    (simp_all add: rejected_by_def rejected_def control_simps rollback_generation en_generation_def)

subsection \<open>The operations\<close>

lemma snd_marks [simp]: "snd (with_operation op x) = snd x"
  by (simp add: with_operation_def)

lemma own_generation: "g_generation (en_graph e) = en_generation e"
  by (simp add: en_generation_def)

lemma inserted_generation:
  "insert_node n g = (ok, h) \<Longrightarrow> g_generation h = g_generation g" "insert_edge x g = (ok, h) \<Longrightarrow> g_generation h = g_generation g"
  using changes_generation(1) [of n g] changes_generation(4) [of x g] by simp_all

lemma fenced_generation:
  "plain_log t \<Longrightarrow> fence_edges_for_node_change i v t g = (t', h, d) \<Longrightarrow> plain_log t' \<and> g_generation h = g_generation g"
  unfolding fence_edges_for_node_change_def by (rule loops_plain(1))

lemma refresh_node_plain: "refresh_node r rec n g = (t, h, d) \<Longrightarrow> plain_log t \<and> g_generation h = g_generation g"
  by (auto simp: refresh_node_def Let_def split: if_splits prod.splits dest!: fenced_generation [rotated])

lemma removed_plain: "remove_node_and_edges n i g = (t, h, d) \<Longrightarrow> plain_log t \<and> g_generation h = g_generation g"
  by (auto simp: remove_node_and_edges_def split: prod.splits dest!: loops_plain(2) [rotated])

lemma rebound_plain: "rebind_node m g = (t, h, d) \<Longrightarrow> plain_log t \<and> g_generation h = g_generation g"
  by (auto simp: rebind_node_def Let_def dest!: loops_plain(1) [rotated])

lemmas handler_forward = own_generation conclude_forward refused_insert_forward inserted_generation refresh_node_plain removed_plain rebound_plain

lemma add_node_forward: "forward e (snd (add_node io au r e))"
  by (auto simp: add_node_def place_node_def add_new_node_def Let_def handler_forward split: option.split sum.split prod.split)

lemma remove_node_forward: "forward e (snd (remove_node io au r e))"
  by (auto simp: remove_node_def Let_def handler_forward split: option.split prod.split)

lemma add_relationship_forward: "forward e (snd (add_relationship io au r e))"
  by (auto simp: add_relationship_def authorise_relationship_def admit_relationship_def store_relationship_def
      refresh_relationship_def Let_def handler_forward split: option.split prod.split)

lemma revise_forward: "forward e (snd (revise_edge io p x y success e))"
  by (simp add: revise_edge_def handler_forward)

lemma lifecycle_forward:
  "forward e (snd (update_relationship_evidence io au ue e))" "forward e (snd (revalidate_relationship io au rv e))"
  "forward e (snd (supersede_relationship io au su e))" "forward e (snd (retire_relationship io au rt e))"
  "forward e (snd (detach_endpoint io au de e))" "forward e (snd (attach_endpoint io au ae e))"
proof -
  have evidence: "forward e (snd (apply_evidence_change io au i ev lc x1 x2 md rs rb e))" for i ev lc x1 x2 md rs rb
    by (simp add: apply_evidence_change_def Let_def revise_forward split: option.split)
  then show "forward e (snd (update_relationship_evidence io au ue e))" "forward e (snd (revalidate_relationship io au rv e))"
    by (simp_all add: update_relationship_evidence_def revalidate_relationship_def)
  show "forward e (snd (supersede_relationship io au su e))"
    by (simp add: supersede_relationship_def Let_def revise_forward split: option.split)
  have retire: "forward e (snd (retire_relationship io au rt e))" for rt
    by (simp add: retire_relationship_def Let_def revise_forward split: option.split)
  then show "forward e (snd (retire_relationship io au rt e))" "forward e (snd (detach_endpoint io au de e))"
    by (simp_all add: detach_endpoint_def split: option.split)
  show "forward e (snd (attach_endpoint io au ae e))" by (simp add: attach_endpoint_def add_relationship_forward)
qed

lemma replace_endpoint_forward: "forward e (snd (replace_endpoint_generation io au r e))"
  by (auto simp: replace_endpoint_generation_def commit_rebinding_def Let_def handler_forward split: option.split sum.split prod.split)

lemma move_forward: "forward e (snd (move_attachment io au r e))"
  by (auto simp: move_attachment_def place_attachment_def commit_move_def Let_def handler_forward split: option.split prod.split)

subsection \<open>Fences and the epoch\<close>

lemma settled_generation:
  assumes "plain_log t"
  shows "en_generation e \<le> en_generation (snd (settle_demotion io t n e))" "en_generation e \<le> en_generation (settle_epoch io t e)"
  using rollback_noted [OF assms, of "en_generation e" "(en_graph e)\<lparr>g_generation := next_counter (en_generation e)\<rparr>"]
    rollback_generation [OF assms, of "en_graph e"] advance_le(2) [of "en_generation e"]
  by (auto simp: settle_demotion_def settle_epoch_def Let_def en_generation_def)

lemma demotion_progress:
  assumes "demote_loop select is begin_txn (en_graph e) 0 = (t, g, n)" and "en_fenced_boots e \<subseteq> en_fenced_boots e1"
    and "en_epoch e1 = en_epoch e"
  shows "progress e (snd (settle_demotion io t n (e1\<lparr>en_graph := g\<rparr>)))"
proof -
  have log: "plain_log t" "g_generation g = en_generation e" using loops_plain(3) [OF _ assms(1)] by (simp_all add: own_generation)
  have "en_generation e \<le> en_generation (snd (settle_demotion io t n (e1\<lparr>en_graph := g\<rparr>)))"
    using settled_generation(1) [OF log(1), where e = "e1\<lparr>en_graph := g\<rparr>" and io = io and n = n] log(2) by (simp add: en_generation_def)
  with assms(2,3) show ?thesis by (simp add: progress_def settle_demotion_frame)
qed

lemma progress_fenced: "progress e e" "progress e (e\<lparr>en_fenced_boots := insert b (en_fenced_boots e)\<rparr>)"
  by (auto simp: progress_def en_generation_def)

lemma fence_publisher_progress: "progress e (snd (fence_publisher io p b reason e))"
proof (cases "\<exists>s. Mapping.lookup (en_publishers e) p = Some s \<and> pb_worker_boot s = b \<and> p \<noteq> [] \<and> b \<noteq> []")
  case True
  then obtain s where s: "Mapping.lookup (en_publishers e) p = Some s" "pb_worker_boot s = b" "p \<noteq> []" "b \<noteq> []" by blast
  let ?e = "e\<lparr>en_fenced_boots := insert b (en_fenced_boots e), en_publishers := Mapping.update p (mark_fenced reason s) (en_publishers e)\<rparr>"
  obtain t g n where loop: "demote_loop is_current (sorted_bucket (g_edge_by_publisher (en_graph e)) p) begin_txn (en_graph e) 0 = (t, g, n)"
    by (metis surj_pair)
  have "progress e (snd (settle_demotion io t n (?e\<lparr>en_graph := g\<rparr>)))"
    by (rule demotion_progress [OF loop]) auto
  moreover have "snd (fence_publisher io p b reason e) = snd (settle_demotion io t n (?e\<lparr>en_graph := g\<rparr>))"
    using s loop by (simp add: fence_publisher_def Let_def case_prod_beta)
  ultimately show ?thesis by simp
next
  case False
  then have "snd (fence_publisher io p b reason e) \<in> {e, e\<lparr>en_fenced_boots := insert b (en_fenced_boots e)\<rparr>}"
    by (auto simp: fence_publisher_def Let_def split: option.split)
  then show ?thesis using progress_fenced by auto
qed

lemma fence_boot_progress: "progress e (snd (fence_boot io b reason e))"
proof (cases "b = []")
  case False
  let ?e = "e\<lparr>en_fenced_boots := insert b (en_fenced_boots e),
    en_publishers := Mapping.map_values (\<lambda>_. fence_registration b reason) (en_publishers e)\<rparr>"
  obtain t g n where loop: "demote_loop (\<lambda>_. True) (boot_edges b (en_graph e)) begin_txn (en_graph e) 0 = (t, g, n)"
    by (metis surj_pair)
  have "progress e (snd (settle_demotion io t n (?e\<lparr>en_graph := g\<rparr>)))"
    by (rule demotion_progress [OF loop]) auto
  moreover have "snd (fence_boot io b reason e) = snd (settle_demotion io t n (?e\<lparr>en_graph := g\<rparr>))"
    using False loop by (simp add: fence_boot_def Let_def)
  ultimately show ?thesis by simp
qed (simp add: fence_boot_def progress_fenced)

lemma epoch_progress: "progress e (snd (advance_coordinator_epoch io e))"
proof (cases "can_advance (en_epoch e)")
  case True
  obtain t g c where loop: "epoch_loop (Mapping.ordered_keys (g_edges (en_graph e))) begin_txn (en_graph e) False = (t, g, c)"
    by (metis surj_pair)
  have log: "plain_log t" "g_generation g = en_generation e" using loops_plain(4) [OF _ loop] by (simp_all add: own_generation)
  let ?e = "e\<lparr>en_epoch := next_counter (en_epoch e), en_publishers := Mapping.empty, en_graph := g\<rparr>"
  have "en_generation e \<le> en_generation (settle_epoch io t ?e)" "en_generation e = en_generation ?e"
    using settled_generation(2) [OF log(1), of ?e io] log(2) by (simp_all add: en_generation_def)
  then show ?thesis
    using True loop advance_le(2) by (simp add: advance_coordinator_epoch_def Let_def progress_def settle_epoch_frame)
qed (simp add: advance_coordinator_epoch_def progress_fenced)

subsection \<open>Publications\<close>

abbreviation batch_generation :: "batch \<Rightarrow> u64" where "batch_generation b \<equiv> g_generation (ba_graph b)"

lemma step_batch_generation [simp]: "batch_generation (step_batch h ds f b) = g_generation h"
  by (simp add: step_batch_def)

lemma rebind_incident_generation: "g_generation (fst (rebind_incident i v g)) = g_generation g"
  using loops_plain(1) [of begin_txn ended "replace_end i v" "sorted_bucket (g_incident g) i" g "[]"]
  by (cases "fence_loop ended (replace_end i v) (sorted_bucket (g_incident g) i) begin_txn g []") (simp add: rebind_incident_def)

lemma republish_node_generation: "batch_generation (republish_node o' rec n b) = batch_generation b"
proof -
  have "rebind_incident i v h = (k, ds) \<Longrightarrow> g_generation k = g_generation h" for i v h k ds
    using rebind_incident_generation [of i v h] by simp
  then show ?thesis by (auto simp: republish_node_def Let_def split: prod.split)
qed

lemma observe_node_generation: "observe_node e au p o' b = Inr c \<Longrightarrow> batch_generation c = batch_generation b"
  by (auto simp: observe_node_def settle_node_def publish_new_node_def republish_node_generation Let_def
      split: if_splits sum.splits option.splits)

lemma drop_published_generation [simp]: "batch_generation (drop_published p x b) = batch_generation b"
  by (simp add: drop_published_def erase_published_def retire_published_def)

lemma observe_edge_generation: "observe_edge e au p x b = Inr c \<Longrightarrow> batch_generation c = batch_generation b"
  by (auto simp: observe_edge_def observe_absence_def observe_presence_def publish_new_edge_def republish_edge_def
      count_unchanged_edge_def Let_def split: if_splits option.splits)

lemma folds_generation:
  "batch_generation (fold (declare_absent p) rs b) = batch_generation b"
  "batch_generation (fold replace_edge is b) = batch_generation b"
  "batch_generation (fold replace_node is b) = batch_generation b"
proof -
  have "batch_generation (declare_absent p r b) = batch_generation b" "batch_generation (replace_edge i b) = batch_generation b"
    "batch_generation (replace_node i b) = batch_generation b" for r i b
    by (simp_all add: declare_absent_def replace_edge_def replace_node_def erase_published_def Let_def split: option.split)
  then show "batch_generation (fold (declare_absent p) rs b) = batch_generation b"
    "batch_generation (fold replace_edge is b) = batch_generation b" "batch_generation (fold replace_node is b) = batch_generation b"
    by (induction rs arbitrary: b, simp_all) (induction "is" arbitrary: b, simp_all)+
qed

lemma observe_batch_generation:
  assumes "observe_batch e au p = Inr b"
  shows "batch_generation b = en_generation e"
proof -
  obtain c d where c: "each_entry (observe_node e au p) (sort_key on_entity_id (pu_nodes p)) (start_batch (en_graph e)) = Inr c"
    and d: "each_entry (observe_edge e au p)
      (sort_key (\<lambda>x. render_edge_key (make_edge_key (oe_relation x) (oe_from x) (oe_to x) (oe_domain x))) (pu_edges p)) c = Inr d"
    and b: "b = replace_domain p (fold (declare_absent p) (pu_declared_absent p) d)"
    using assms by (auto simp: observe_batch_def observe_entries_def split: sum.splits)
  have "batch_generation (start_batch (en_graph e)) = en_generation e" by (simp add: start_batch_def own_generation)
  then have "batch_generation c = en_generation e" using c by (rule each_entry_keeps) (simp add: observe_node_generation)
  then have "batch_generation d = en_generation e" using d by (rule each_entry_keeps) (simp add: observe_edge_generation)
  then show ?thesis by (simp add: b replace_domain_def replace_nodes_def replace_edges_def folds_generation)
qed

lemma publish_forward: "forward e (snd (publish io au p e))"
proof -
  obtain r e' where run: "publish io au p e = (r, e')" by (metis surj_pair)
  note control = publication_control [of io au p e, unfolded run snd_conv]
  show ?thesis
    using run control observe_batch_generation
    by (cases rule: publish_run [OF run]) (auto simp: forward_def en_generation_def next_graph_def)
qed

end
