(* ===== verification/Persistence.thy ===== *)
theory Persistence
  imports Wire Validation
begin

text \<open>
  The durable image (\<open>src/persistence.cpp\<close>): the payload, its decoder, the checked container and the
  conservative recovery. The file system answers through a parameter; bytes are words.
\<close>

subsection \<open>Encoding records\<close>

definition encode_provenance :: "provenance \<Rightarrow> bytes" where
  "encode_provenance q =
     put_text (pv_publisher q) @ put_text (pv_worker_boot q) @ put_u64 (pv_coordinator_epoch q) @
     put_u8 (discovery_source_code (pv_source q)) @ put_u8 (publication_type_code (pv_evidence_type q)) @
     put_u64 (pv_evidence_generation q) @ put_text (pv_source_relationship_id q) @ put_text (pv_publication q) @
     put_u64 (pv_created_generation q) @ put_u64 (pv_last_validated_generation q)"

definition encode_item :: "string \<times> string \<Rightarrow> bytes" where
  "encode_item item = put_text (fst item) @ put_text (snd item)"

definition encode_metadata :: "metadata \<Rightarrow> bytes" where
  "encode_metadata items = put_u32 (of_nat (length items)) @ concat (map encode_item items)"

definition encode_node :: "node \<Rightarrow> bytes" where
  "encode_node n =
     put_text (nd_id n) @ put_text (nd_entity_id n) @ put_u8 (entity_class_code (nd_entity_class n)) @
     put_u64 (nd_entity_generation n) @ put_u8 (node_class_code (nd_class n)) @ put_u8 (tier_code (nd_tier n)) @
     put_text (nd_domain n) @ put_u64 (nd_generation n) @ put_u64 (nd_created_generation n) @
     put_u64 (nd_last_validated_generation n) @ put_u8 (lifecycle_code (nd_lifecycle n)) @
     encode_provenance (nd_provenance n) @ encode_metadata (nd_metadata n)"

definition encode_optional :: "string option \<Rightarrow> bytes" where
  "encode_optional x = put_optional_text (x \<noteq> None) (case x of None \<Rightarrow> [] | Some s \<Rightarrow> s)"

definition encode_edge :: "edge \<Rightarrow> bytes" where
  "encode_edge x =
     put_text (ed_id x) @ put_text (ed_relationship_id x) @ put_u8 (relation_code (ed_relation x)) @
     put_text (ed_from x) @ put_text (ed_to x) @ put_u8 (layer_code (ed_layer x)) @ put_text (ed_domain x) @
     put_boolean (ed_cross_domain x) @ put_text (ed_secondary_domain x) @ put_u64 (ed_generation x) @
     put_u64 (ed_created_generation x) @ put_u64 (ed_last_validated_generation x) @ put_u64 (ed_evidence_generation x) @
     put_u64 (ed_from_entity_generation x) @ put_u64 (ed_to_entity_generation x) @
     put_u8 (lifecycle_code (ed_lifecycle x)) @ encode_optional (ed_supported_by x) @ encode_optional (ed_superseded_by x) @
     encode_optional (ed_attachment x) @ encode_provenance (ed_provenance x) @ encode_metadata (ed_metadata x)"

definition encode_domain :: "domain_definition \<Rightarrow> bytes" where
  "encode_domain d =
     put_text (dd_id d) @ put_u8 (scope_kind_code (dd_kind d)) @ put_text (dd_anchor_entity_id d) @
     put_u8 (entity_class_code (dd_anchor_entity_class d)) @ put_text (dd_parent d)"

definition encode_rule :: "cross_domain_rule \<Rightarrow> bytes" where
  "encode_rule r =
     put_text (cr_from_domain r) @ put_text (cr_to_domain r) @ put_u8 (relation_code (cr_relation r)) @
     put_boolean (cr_symmetric r)"

definition rule_key :: "cross_domain_rule \<Rightarrow> string \<times> string \<times> u8" where
  "rule_key r = (cr_from_domain r, cr_to_domain r, relation_code (cr_relation r))"

definition encode_list :: "('a \<Rightarrow> bytes) \<Rightarrow> 'a list \<Rightarrow> bytes" where
  "encode_list encode xs = put_u64 (of_nat (length xs)) @ concat (map encode xs)"

definition kStateTag :: string where "kStateTag = ''FABRIC-TOPOLOGY-STATE''"

definition encode_state_payload :: "graph \<Rightarrow> u64 \<Rightarrow> string list \<Rightarrow> bytes" where
  "encode_state_payload g epoch boots =
     put_text kStateTag @ put_u32 1 @ put_u64 (g_generation g) @ put_u64 (g_snapshot_counter g) @ put_u64 epoch @
     encode_list encode_node (sorted_nodes g scope_all) @ encode_list encode_edge (sorted_edges g scope_all) @
     encode_list encode_domain (sorted_values (g_domain_definitions g)) @
     encode_list encode_rule (sort_key rule_key (g_cross_domain_rules g)) @ encode_list put_text (sort boots)"

subsection \<open>Decoding records\<close>

definition decode_provenance :: "(unit, provenance) decoder" where
  "decode_provenance r =
     (case get_text kMaxIdentifierBytes r of (publisher, r) \<Rightarrow>
      case get_text kMaxIdentifierBytes r of (boot, r) \<Rightarrow>
      case get_u64 r of (epoch, r) \<Rightarrow>
      and_then (decode_enum discovery_sources ''provenance.source'' r) (\<lambda>source r.
      and_then (decode_enum publication_types ''provenance.evidence_type'' r) (\<lambda>evidence_type r.
      case get_u64 r of (evidence, r) \<Rightarrow>
      case get_text kMaxIdentifierBytes r of (source_id, r) \<Rightarrow>
      case get_text kMaxIdentifierBytes r of (publication, r) \<Rightarrow>
      case get_u64 r of (created, r) \<Rightarrow>
      case get_u64 r of (validated, r) \<Rightarrow>
      if_ok \<lparr>pv_publisher = publisher, pv_worker_boot = boot, pv_coordinator_epoch = epoch, pv_source = source,
        pv_evidence_type = evidence_type, pv_evidence_generation = evidence, pv_source_relationship_id = source_id,
        pv_publication = publication, pv_created_generation = created, pv_last_validated_generation = validated\<rparr> r)))"

text \<open>Where \<open>Metadata::set\<close> is undefined (see \<open>Metadata\<close>) the entry is taken to be refused, as it means to be.\<close>

fun decode_items :: "limits \<Rightarrow> nat \<Rightarrow> metadata \<Rightarrow> (unit, metadata) decoder" where
  "decode_items lim 0 items r = if_ok items r"
| "decode_items lim (Suc n) items r =
     (case get_text (max_metadata_key_bytes lim) r of (key, r) \<Rightarrow>
      case get_text (max_metadata_value_bytes lim) r of (v, r) \<Rightarrow>
      if \<not> rd_ok r then (Inl (), r)
      else case metadata_set items key v lim of
          None \<Rightarrow> (Inl (), rd_fail ''metadata.entry'' r)
        | Some (s, items') \<Rightarrow>
            if outcome_of s \<noteq> O_Ok then (Inl (), rd_fail ''metadata.entry'' r) else decode_items lim n items' r)"

definition decode_metadata :: "limits \<Rightarrow> (unit, metadata) decoder" where
  "decode_metadata lim r =
     (case get_u32 r of (n, r) \<Rightarrow>
        if \<not> rd_ok r \<or> max_metadata_entries lim < unat n then (Inl (), rd_fail ''metadata.count'' r)
        else decode_items lim (unat n) [] r)"

definition decode_node :: "limits \<Rightarrow> (unit, node) decoder" where
  "decode_node lim r =
     and_then (decode_identifier kMaxIdentifierBytes r) (\<lambda>i r.
      case get_text (max_identifier_bytes lim) r of (entity, r) \<Rightarrow>
      and_then (decode_enum entity_classes ''node.entity_class'' r) (\<lambda>entity_class r.
      if entity \<noteq> [] \<and> \<not> is_valid_identifier entity (max_identifier_bytes lim)
      then (Inl (), rd_fail ''node.entity_id_malformed'' r)
      else case get_u64 r of (entity_generation, r) \<Rightarrow>
      and_then (decode_enum node_classes ''node.node_class'' r) (\<lambda>node_class r.
      and_then (decode_enum topology_tiers ''node.tier'' r) (\<lambda>tier r.
      case get_text kMaxIdentifierBytes r of (domain_id, r) \<Rightarrow>
      case get_u64 r of (generation, r) \<Rightarrow>
      case get_u64 r of (created, r) \<Rightarrow>
      case get_u64 r of (validated, r) \<Rightarrow>
      and_then (decode_enum lifecycle_states ''node.lifecycle'' r) (\<lambda>lifecycle r.
      and_then (decode_provenance r) (\<lambda>provenance r.
      and_then (decode_metadata lim r) (\<lambda>items r.
      (Inr \<lparr>nd_id = i, nd_entity_id = entity, nd_entity_class = entity_class, nd_entity_generation = entity_generation,
         nd_class = node_class, nd_tier = tier, nd_domain = domain_id, nd_generation = generation,
         nd_created_generation = created, nd_last_validated_generation = validated, nd_lifecycle = lifecycle,
         nd_provenance = provenance, nd_metadata = items\<rparr>, r))))))))"

definition decode_optional :: "(unit, string option) decoder" where
  "decode_optional r =
     (case get_boolean r of (has, r) \<Rightarrow>
      case get_text kMaxIdentifierBytes r of (s, r) \<Rightarrow>
      if_ok (if has then Some s else None) r)"

definition decode_edge :: "limits \<Rightarrow> (unit, edge) decoder" where
  "decode_edge lim r =
     and_then (decode_identifier kMaxIdentifierBytes r) (\<lambda>i r.
     and_then (decode_identifier kMaxIdentifierBytes r) (\<lambda>relationship r.
     and_then (decode_enum relation_classes ''edge.relation'' r) (\<lambda>relation r.
     and_then (decode_identifier kMaxIdentifierBytes r) (\<lambda>from_id r.
     and_then (decode_identifier kMaxIdentifierBytes r) (\<lambda>to_id r.
     and_then (decode_enum topology_layers ''edge.layer'' r) (\<lambda>layer r.
     and_then (decode_identifier kMaxIdentifierBytes r) (\<lambda>domain_id r.
      case get_boolean r of (cross, r) \<Rightarrow>
     and_then (decode_identifier kMaxIdentifierBytes r) (\<lambda>secondary r.
      case get_u64 r of (generation, r) \<Rightarrow>
      case get_u64 r of (created, r) \<Rightarrow>
      case get_u64 r of (validated, r) \<Rightarrow>
      case get_u64 r of (evidence, r) \<Rightarrow>
      case get_u64 r of (from_generation, r) \<Rightarrow>
      case get_u64 r of (to_generation, r) \<Rightarrow>
     and_then (decode_enum lifecycle_states ''edge.lifecycle'' r) (\<lambda>lifecycle r.
     and_then (decode_optional r) (\<lambda>support r.
     and_then (decode_optional r) (\<lambda>supersede r.
     and_then (decode_optional r) (\<lambda>attachment r.
     and_then (decode_provenance r) (\<lambda>provenance r.
     and_then (decode_metadata lim r) (\<lambda>items r.
      (Inr \<lparr>ed_id = i, ed_relationship_id = relationship, ed_relation = relation, ed_from = from_id, ed_to = to_id,
         ed_layer = layer, ed_domain = domain_id, ed_cross_domain = cross, ed_secondary_domain = secondary,
         ed_generation = generation, ed_created_generation = created, ed_last_validated_generation = validated,
         ed_evidence_generation = evidence, ed_from_entity_generation = from_generation,
         ed_to_entity_generation = to_generation, ed_lifecycle = lifecycle, ed_supported_by = support,
         ed_superseded_by = supersede, ed_attachment = attachment, ed_provenance = provenance, ed_metadata = items\<rparr>,
       r)))))))))))))))"

subsection \<open>Decoding the payload\<close>

definition decode_failure :: "string \<Rightarrow> string \<Rightarrow> status" where
  "decode_failure code detail = explain O_PersistenceCorruption code (if detail \<noteq> [] then [(''detail'', detail)] else [])"

definition failed_at :: "string \<Rightarrow> reader \<Rightarrow> status" where
  "failed_at code r = decode_failure code (rd_error r)"

definition read_enum :: "'a list \<Rightarrow> string \<Rightarrow> (status, 'a) decoder" where
  "read_enum table code r =
     (case get_u8 r of (c, r) \<Rightarrow>
        if \<not> rd_ok r \<or> length table \<le> unat c then (Inl (failed_at code r), r) else (Inr (table ! unat c), r))"

definition read_identifier :: "string \<Rightarrow> (status, string) decoder" where
  "read_identifier code r = or_report (failed_at code) (decode_identifier kMaxIdentifierBytes r)"

definition decode_count :: "string \<Rightarrow> nat list \<Rightarrow> (status, nat) decoder" where
  "decode_count code bounds r =
     (case get_u64 r of (n, r) \<Rightarrow>
        if \<not> rd_ok r \<or> list_ex (\<lambda>b. b < unat n) bounds then (Inl (failed_at code r), r) else (Inr (unat n), r))"

definition decode_header :: "(status, u64 \<times> u64 \<times> u64) decoder" where
  "decode_header r =
     (case get_text 64 r of (tag, r) \<Rightarrow>
      if \<not> rd_ok r \<or> tag \<noteq> kStateTag then (Inl (failed_at ''state.tag'' r), r)
      else case get_u32 r of (version, r) \<Rightarrow>
      if \<not> rd_ok r then (Inl (failed_at ''state.version'' r), r)
      else if version \<noteq> 1
      then (Inl (explain O_PersistenceCorruption ''state.version_unsupported''
              [(''version'', decimal (unat version)), (''supported'', decimal 1)]), r)
      else case get_u64 r of (generation, r) \<Rightarrow>
      case get_u64 r of (snapshot_counter, r) \<Rightarrow>
      case get_u64 r of (epoch, r) \<Rightarrow>
      if \<not> rd_ok r then (Inl (failed_at ''state.header'' r), r) else (Inr (generation, snapshot_counter, epoch), r))"

definition load_node :: "node \<Rightarrow> graph \<Rightarrow> status + graph" where
  "load_node n g =
     (if nd_id n = [] \<or> nd_entity_id n = [] then Inl (decode_failure ''state.node_identity'' [])
      else if \<not> fst (insert_node n g) then Inl (decode_failure ''state.duplicate_node'' (nd_id n))
      else Inr (snd (insert_node n g)))"

definition load_edge :: "edge \<Rightarrow> graph \<Rightarrow> status + graph" where
  "load_edge x g =
     (if ed_id x = [] \<or> ed_relationship_id x = [] then Inl (decode_failure ''state.edge_identity'' [])
      else if find_edge g (ed_id x) \<noteq> None then Inl (decode_failure ''state.duplicate_edge'' (ed_id x))
      else if find_edge_by_relationship g (ed_relationship_id x) \<noteq> None
      then Inl (decode_failure ''state.duplicate_relationship'' (ed_relationship_id x))
      else if find_node g (ed_from x) = None \<or> find_node g (ed_to x) = None
      then Inl (decode_failure ''state.dangling_endpoint'' (ed_id x))
      else if \<not> fst (insert_edge x g) then Inl (decode_failure ''state.edge_insert'' (ed_id x))
      else Inr (snd (insert_edge x g)))"

definition decode_domain :: "limits \<Rightarrow> (status, domain_definition) decoder" where
  "decode_domain lim r =
     and_then (read_identifier ''state.domain_id'' r) (\<lambda>i r.
     and_then (read_enum scope_kinds ''state.domain_kind'' r) (\<lambda>kind r.
      case get_text (max_identifier_bytes lim) r of (anchor, r) \<Rightarrow>
     and_then (read_enum entity_classes ''state.domain_anchor_class'' r) (\<lambda>anchor_class r.
     and_then (read_identifier ''state.domain_parent'' r) (\<lambda>parent r.
      (Inr \<lparr>dd_id = i, dd_kind = kind, dd_anchor_entity_id = anchor, dd_anchor_entity_class = anchor_class, dd_parent = parent\<rparr>, r)))))"

definition load_domain :: "domain_definition \<Rightarrow> graph \<Rightarrow> status + graph" where
  "load_domain d g =
     (if dd_id d = [] then Inl (decode_failure ''state.domain_identity'' [])
      else if has_key (g_domain_definitions g) (dd_id d) then Inl (decode_failure ''state.duplicate_domain'' (dd_id d))
      else Inr (declare_domain d g))"

definition decode_rule :: "(status, cross_domain_rule) decoder" where
  "decode_rule r =
     and_then (read_identifier ''state.rule_domain'' r) (\<lambda>from_domain r.
     and_then (read_identifier ''state.rule_domain'' r) (\<lambda>to_domain r.
     and_then (read_enum relation_classes ''state.rule_relation'' r) (\<lambda>relation r.
      if relation = RC_Unknown then (Inl (failed_at ''state.rule_relation'' r), r)
      else case get_boolean r of (symmetric, r) \<Rightarrow>
      if \<not> rd_ok r then (Inl (failed_at ''state.rule'' r), r)
      else (Inr \<lparr>cr_from_domain = from_domain, cr_to_domain = to_domain, cr_relation = relation, cr_symmetric = symmetric\<rparr>, r))))"

definition load_rule :: "cross_domain_rule \<Rightarrow> graph \<Rightarrow> status + graph" where
  "load_rule x g =
     (if \<not> has_key (g_domain_definitions g) (cr_from_domain x) \<or> \<not> has_key (g_domain_definitions g) (cr_to_domain x)
      then Inl (decode_failure ''state.rule_domain_unknown'' [])
      else Inr (g\<lparr>g_cross_domain_rules := g_cross_domain_rules g @ [x]\<rparr>))"

definition decode_records ::
  "string \<Rightarrow> nat list \<Rightarrow> (status, 'a) decoder \<Rightarrow> ('a \<Rightarrow> 's \<Rightarrow> status + 's) \<Rightarrow> 's \<Rightarrow> (status, 's) decoder" where
  "decode_records code bounds decode store s r =
     and_then (decode_count code bounds r) (\<lambda>n r. load_each decode store n s r)"

record loaded_state =
  ls_graph :: graph
  ls_epoch :: u64
  ls_boots :: "string list"

definition decode_state :: "limits \<Rightarrow> (status, loaded_state) decoder" where
  "decode_state lim r =
     (let records = [max_persistence_records lim] in
      and_then (decode_header r) (\<lambda>(generation, snapshot_counter, epoch) r.
      and_then (decode_records ''state.node_count'' (max_nodes lim # records)
          (\<lambda>r. or_report (failed_at ''state.node'') (decode_node lim r)) load_node
          ((new_graph lim)\<lparr>g_generation := generation, g_snapshot_counter := snapshot_counter\<rparr>) r) (\<lambda>g r.
      and_then (decode_records ''state.edge_count'' (max_edges lim # records)
          (\<lambda>r. or_report (failed_at ''state.edge'') (decode_edge lim r)) load_edge g r) (\<lambda>g r.
      and_then (decode_records ''state.domain_count'' records (decode_domain lim) load_domain g r) (\<lambda>g r.
      and_then (decode_records ''state.rule_count'' records decode_rule load_rule g r) (\<lambda>g r.
      and_then (decode_records ''state.boot_count'' records (read_identifier ''state.boot'')
          (\<lambda>boot boots. Inr (boots @ [boot])) [] r) (\<lambda>boots r.
      if \<not> rd_at_end r then (Inl (decode_failure ''state.trailing_bytes'' (decimal (rd_remaining r))), r)
      else (Inr \<lparr>ls_graph = g, ls_epoch = epoch, ls_boots = boots\<rparr>, r))))))))"

definition decode_state_payload :: "limits \<Rightarrow> bytes \<Rightarrow> status + loaded_state" where
  "decode_state_payload lim payload = fst (decode_state lim (open_reader payload))"

end
