(* ===== verification/Stored.thy ===== *)
theory Stored
  imports Persistence
begin

text \<open>
  What was written can be read back: one codec per record, the payload as a whole, and the graph
  that the decoder rebuilds by inserting the records one by one.
\<close>

subsection \<open>Records that fit\<close>

definition id_fits :: "string \<Rightarrow> bool" where
  "id_fits s \<longleftrightarrow> s = [] \<or> is_valid_identifier s kMaxIdentifierBytes"

definition short_text :: "string \<Rightarrow> bool" where
  "short_text s \<longleftrightarrow> length s \<le> kMaxIdentifierBytes"

definition limits_fit :: "limits \<Rightarrow> bool" where
  "limits_fit lim \<longleftrightarrow> max_identifier_bytes lim < 4294967296 \<and> max_metadata_entries lim < 4294967296 \<and>
     max_metadata_key_bytes lim < 4294967296 \<and> max_metadata_value_bytes lim < 4294967296"

definition provenance_fits :: "provenance \<Rightarrow> bool" where
  "provenance_fits q \<longleftrightarrow> short_text (pv_publisher q) \<and> short_text (pv_worker_boot q) \<and>
     short_text (pv_source_relationship_id q) \<and> short_text (pv_publication q)"

definition node_fits :: "limits \<Rightarrow> node \<Rightarrow> bool" where
  "node_fits lim n \<longleftrightarrow> id_fits (nd_id n) \<and> (nd_entity_id n = [] \<or> is_valid_identifier (nd_entity_id n) (max_identifier_bytes lim)) \<and>
     short_text (nd_domain n) \<and> provenance_fits (nd_provenance n) \<and> metadata_wf lim (nd_metadata n)"

definition edge_texts_fit :: "edge \<Rightarrow> bool" where
  "edge_texts_fit x \<longleftrightarrow> id_fits (ed_id x) \<and> id_fits (ed_relationship_id x) \<and> id_fits (ed_from x) \<and> id_fits (ed_to x) \<and>
     id_fits (ed_domain x) \<and> id_fits (ed_secondary_domain x) \<and> pred_option short_text (ed_supported_by x) \<and>
     pred_option short_text (ed_superseded_by x) \<and> pred_option short_text (ed_attachment x)"

definition edge_stored_fits :: "limits \<Rightarrow> edge \<Rightarrow> bool" where
  "edge_stored_fits lim x \<longleftrightarrow> edge_texts_fit x \<and> provenance_fits (ed_provenance x) \<and> metadata_wf lim (ed_metadata x)"

definition domain_fits :: "limits \<Rightarrow> domain_definition \<Rightarrow> bool" where
  "domain_fits lim d \<longleftrightarrow> id_fits (dd_id d) \<and> length (dd_anchor_entity_id d) \<le> max_identifier_bytes lim \<and> id_fits (dd_parent d)"

definition rule_fits :: "cross_domain_rule \<Rightarrow> bool" where
  "rule_fits r \<longleftrightarrow> id_fits (cr_from_domain r) \<and> id_fits (cr_to_domain r) \<and> cr_relation r \<noteq> RC_Unknown"

lemma short_text_fits [wire_simps]: "short_text s \<Longrightarrow> text_bounded kMaxIdentifierBytes s"
  by (simp add: short_text_def text_bounded_def kMaxIdentifierBytes_def)

lemma valid_text_fits: "is_valid_identifier s m \<Longrightarrow> m < 4294967296 \<Longrightarrow> text_bounded m s"
  by (simp add: valid_identifier_iff text_bounded_def)

lemma id_fits_reading [wire_simps]:
  "id_fits s \<Longrightarrow> decode_identifier kMaxIdentifierBytes (reading a (put_text s @ c)) = (Inr s, reading (a @ put_text s) c)"
  using valid_text_fits [of s kMaxIdentifierBytes]
  by (intro decode_identifier_reading) (auto simp: id_fits_def kMaxIdentifierBytes_def text_bounded_def)

subsection \<open>One codec per record\<close>

interpretation provenance_wire: wire encode_provenance decode_provenance provenance_fits
  by unfold_locales (simp add: decode_provenance_def encode_provenance_def provenance_fits_def wire_simps)

lemma upd_field_last: "\<forall>f \<in> set xs. fst f < k \<Longrightarrow> upd_field k v xs = xs @ [(k, v)]"
  by (induction xs) auto

lemma metadata_prefix:
  assumes wf: "metadata_wf lim (xs @ (k, v) # ys)"
  shows "metadata_wf lim xs" "fits_after lim xs k v" "upd_field k v xs = xs @ [(k, v)]"
proof -
  have less: "\<forall>f \<in> set xs. fst f < k"
    using wf by (auto simp: metadata_wf_def metadata_ok_def sorted_append distinct_map order.strict_iff_order rev_image_eqI)
  then show upd: "upd_field k v xs = xs @ [(k, v)]" by (rule upd_field_last)
  have total: "total_bytes (xs @ ys) = total_bytes xs + total_bytes ys" for xs ys by (simp add: total_bytes_sum)
  show "metadata_wf lim xs" using wf by (auto simp: metadata_wf_def metadata_ok_def sorted_append total)
  have "metadata_find xs k = None" using less by (auto simp: metadata_find_def find_field_None)
  moreover have "total_bytes (upd_field k v xs) \<le> max_metadata_total_bytes lim"
    using wf total [of "xs @ [(k, v)]" ys] by (simp add: upd metadata_wf_def metadata_ok_def)
  ultimately show "fits_after lim xs k v"
    using wf by (simp add: fits_after_def metadata_wf_def metadata_ok_def)
qed

lemma decode_items_reading:
  "limits_fit lim \<Longrightarrow> metadata_wf lim (xs @ ys) \<Longrightarrow>
   decode_items lim (length ys) xs (reading a (concat (map encode_item ys) @ c)) = (Inr (xs @ ys), reading (a @ concat (map encode_item ys)) c)"
proof (induction ys arbitrary: xs a)
  case (Cons y ys)
  obtain k v where y: "y = (k, v)" by (cases y)
  with Cons.prems(2) have wf: "metadata_wf lim (xs @ (k, v) # ys)" by simp
  note prefix = metadata_prefix [OF wf]
  have set: "metadata_set xs k v lim = Some (make_status O_Ok ''metadata.ok'', xs @ [(k, v)])"
    using metadata_set_ok [OF prefix(1,2)] prefix(3) by simp
  have "text_bounded (max_metadata_key_bytes lim) k" "text_bounded (max_metadata_value_bytes lim) v"
    using prefix(2) Cons.prems(1) by (auto simp: fits_after_def item_ok_def text_bounded_def limits_fit_def)
  then have "decode_items lim (length (y # ys)) xs (reading a (concat (map encode_item (y # ys)) @ c)) =
      decode_items lim (length ys) (xs @ [(k, v)]) (reading (a @ encode_item y) (concat (map encode_item ys) @ c))"
    by (simp add: y encode_item_def wire_simps set)
  also have "\<dots> = (Inr (xs @ y # ys), reading (a @ concat (map encode_item (y # ys))) c)"
    using Cons.IH [of "xs @ [(k, v)]" "a @ encode_item y"] Cons.prems(1) wf by (simp add: y)
  finally show ?case .
qed simp

lemma decode_metadata_reading [wire_simps]:
  assumes "limits_fit lim" "metadata_wf lim items"
  shows "decode_metadata lim (reading a (encode_metadata items @ c)) = (Inr items, reading (a @ encode_metadata items) c)"
proof -
  have "length items \<le> max_metadata_entries lim" using assms(2) by (simp add: metadata_wf_def metadata_ok_def)
  moreover from this have "unat (of_nat (length items) :: u32) = length items" using assms(1) by (simp add: unat_of_length limits_fit_def)
  ultimately show ?thesis
    using decode_items_reading [OF assms(1), of "[]" items "a @ put_u32 (of_nat (length items))" c] assms(2)
    by (simp add: decode_metadata_def encode_metadata_def wire_simps)
qed

lemma decode_optional_reading [wire_simps]:
  "pred_option short_text x \<Longrightarrow> decode_optional (reading a (encode_optional x @ c)) = (Inr x, reading (a @ encode_optional x) c)"
  by (cases x) (simp_all add: decode_optional_def encode_optional_def put_optional_text_def wire_simps short_text_def)

lemmas provenance_reading [wire_simps] = provenance_wire.decode_encode

lemma node_wire: "limits_fit lim \<Longrightarrow> wire encode_node (decode_node lim) (node_fits lim)"
proof
  fix n a c assume lim: "limits_fit lim" and fits: "node_fits lim n"
  have "text_bounded (max_identifier_bytes lim) (nd_entity_id n)"
    using lim fits valid_text_fits by (auto simp: node_fits_def limits_fit_def text_bounded_def)
  with lim fits show "decode_node lim (reading a (encode_node n @ c)) = (Inr n, reading (a @ encode_node n) c)"
    by (simp add: decode_node_def encode_node_def node_fits_def wire_simps)
qed

lemma edge_wire: "limits_fit lim \<Longrightarrow> wire encode_edge (decode_edge lim) (edge_stored_fits lim)"
proof
  fix x a c assume lim: "limits_fit lim" and fits: "edge_stored_fits lim x"
  then show "decode_edge lim (reading a (encode_edge x @ c)) = (Inr x, reading (a @ encode_edge x) c)"
    by (simp add: decode_edge_def encode_edge_def edge_stored_fits_def edge_texts_fit_def wire_simps)
qed

lemma reported_wire: "wire encode decode valid \<Longrightarrow> wire encode (\<lambda>r. or_report f (decode r)) valid"
  by (simp add: wire_def)

lemma read_identifier_reading [wire_simps]:
  "id_fits s \<Longrightarrow> read_identifier code (reading a (put_text s @ c)) = (Inr s, reading (a @ put_text s) c)"
  by (simp add: read_identifier_def wire_simps)

lemma read_enum_reading:
  "enumeration code table \<Longrightarrow> read_enum table message (reading a (put_u8 (code x) @ c)) = (Inr x, reading (a @ put_u8 (code x)) c)"
  by (simp add: read_enum_def enumeration_def not_le wire_simps)

lemmas read_enums [wire_simps] =
  read_enum_reading [OF scope_kinds.enumeration_axioms] read_enum_reading [OF entity_classes.enumeration_axioms]
  read_enum_reading [OF relation_classes.enumeration_axioms]

lemma domain_wire: "limits_fit lim \<Longrightarrow> wire encode_domain (decode_domain lim) (domain_fits lim)"
proof
  fix d a c assume lim: "limits_fit lim" and fits: "domain_fits lim d"
  then have "text_bounded (max_identifier_bytes lim) (dd_anchor_entity_id d)"
    by (auto simp: domain_fits_def text_bounded_def limits_fit_def)
  with fits show "decode_domain lim (reading a (encode_domain d @ c)) = (Inr d, reading (a @ encode_domain d) c)"
    by (simp add: decode_domain_def encode_domain_def domain_fits_def wire_simps)
qed

interpretation rule_wire: wire encode_rule decode_rule rule_fits
  by unfold_locales (simp add: decode_rule_def encode_rule_def rule_fits_def wire_simps)

interpretation boot_wire: wire put_text "read_identifier code" id_fits for code
  by unfold_locales (rule read_identifier_reading)

lemma decode_records_reading:
  assumes w: "wire encode decode valid" and fits: "\<forall>x \<in> set xs. valid x" and stored: "store_all store xs s = Inr s'"
    and small: "length xs < 18446744073709551616" and bounds: "\<forall>b \<in> set bounds. length xs \<le> b"
  shows "decode_records code bounds decode store s (reading a (encode_list encode xs @ c)) =
    (Inr s', reading (a @ encode_list encode xs) c)"
proof -
  have len: "unat (of_nat (length xs) :: u64) = length xs" using small by (simp add: unat_of_nat)
  have "decode_count code bounds (reading a (put_u64 (of_nat (length xs)) @ d)) =
      (Inr (length xs), reading (a @ put_u64 (of_nat (length xs))) d)" for d
    using bounds by (auto simp: decode_count_def wire_simps len list_ex_iff)
  with wire.load_each_encoded [OF w fits stored, of "a @ put_u64 (of_nat (length xs))" c]
  show ?thesis by (simp add: decode_records_def encode_list_def)
qed

subsection \<open>Storing the records one by one\<close>

text \<open>While a state is loaded its domains are not declared yet: the invariant without that part.\<close>

definition loading :: "graph \<Rightarrow> bool" where
  "loading g \<longleftrightarrow> finite (Mapping.keys (g_nodes g)) \<and> finite (Mapping.keys (g_edges g)) \<and>
     finite (Mapping.keys (g_domain_definitions g)) \<and> ids_match nd_id (g_nodes g) \<and> ids_match ed_id (g_edges g) \<and> indexes_ok g"

lemma graph_inv_loading:
  "graph_inv g \<longleftrightarrow> loading g \<and> (\<forall>i x. Mapping.lookup (g_edges g) i = Some x \<longrightarrow> secondary_declared (g_domain_definitions g) x)"
  by (auto simp: graph_inv_def loading_def)

lemma loading_node:
  assumes "loading g" "find_node g (nd_id n) = None" "find_node_by_entity g (nd_entity_id n) = None"
  shows "loading (snd (insert_node n g))"
  using assms by (simp add: loading_def indexes_ok_def insert_node_def index_node_def has_key_def find_defs
      by_entity.keyed_insert domains_ok_insert_node)

lemma loading_edge:
  assumes "loading g" "find_edge g (ed_id x) = None" "find_edge_by_key g (edge_key_of x) = None"
    "find_edge_by_relationship g (ed_relationship_id x) = None"
  shows "loading (snd (insert_edge x g))"
  using assms
  by (auto simp: loading_def indexes_ok_def insert_edge_def index_edge_def has_key_def find_defs lookup_simps
      by_key.keyed_insert by_relationship.keyed_insert incident.files_insert outgoing.files_insert
      incoming.files_insert by_relation.files_insert by_layer.files_insert by_lifecycle.files_insert
      by_publisher.files_insert by_attachment.files_insert domains_ok_insert_edge)

lemma loading_domain:
  assumes g: "loading g"
  shows "loading (declare_domain d g)"
proof -
  have at: "domain_at (g_domains (declare_domain d g)) x = domain_at (g_domains g) x" for x
    by (auto simp: declare_domain_def touch_domain_def lookup_simps domain_at_def has_key_def)
  have key: "has_key (g_domains (declare_domain d g)) x \<longleftrightarrow> has_key (g_domains g) x \<or> x = dd_id d" for x
    by (auto simp: declare_domain_def touch_domain_def lookup_simps)
  have "domains_ok (g_domain_definitions (declare_domain d g)) (g_domains (declare_domain d g)) (g_nodes g) (g_edges g)"
    using g by (auto simp: loading_def indexes_ok_def domains_ok_def present_def at key declare_domain_frame lookup_simps)
  then show ?thesis
    using g unfolding loading_def indexes_ok_def
    by (simp add: declare_domain_frame) (simp add: declare_domain_def touch_domain_def)
qed

definition load_frame :: "graph \<Rightarrow> limits \<times> u64 \<times> u64" where
  "load_frame g = (g_limits g, g_generation g, g_snapshot_counter g)"

lemma store_nodes:
  "loading g \<Longrightarrow> distinct (map nd_id ns) \<Longrightarrow> distinct (map nd_entity_id ns) \<Longrightarrow>
   \<forall>n \<in> set ns. nd_id n \<noteq> [] \<and> nd_entity_id n \<noteq> [] \<and> find_node g (nd_id n) = None \<and> find_node_by_entity g (nd_entity_id n) = None \<Longrightarrow>
   \<exists>h. store_all load_node ns g = Inr h \<and> loading h \<and> load_frame h = load_frame g \<and> g_edges h = g_edges g \<and>
     g_domain_definitions h = g_domain_definitions g \<and> g_cross_domain_rules h = g_cross_domain_rules g \<and>
     (\<forall>i. i \<notin> nd_id ` set ns \<longrightarrow> find_node h i = find_node g i) \<and> (\<forall>n \<in> set ns. find_node h (nd_id n) = Some n)"
proof (induction ns arbitrary: g)
  case (Cons n ns)
  let ?g = "snd (insert_node n g)"
  have n: "nd_id n \<noteq> []" "nd_entity_id n \<noteq> []" "find_node g (nd_id n) = None" "find_node_by_entity g (nd_entity_id n) = None"
    using Cons.prems(4) by simp_all
  have find: "find_node ?g i = (if i = nd_id n then Some n else find_node g i)"
    "find_node_by_entity ?g k = (if k = nd_entity_id n then Some (nd_id n) else find_node_by_entity g k)" for i k
    using n(3) by (simp_all add: find_defs lookup_simps has_key_def insert_node_def index_node_def)
  have frame: "load_frame ?g = load_frame g" "g_edges ?g = g_edges g" "g_domain_definitions ?g = g_domain_definitions g"
    "g_cross_domain_rules ?g = g_cross_domain_rules g"
    by (simp_all add: load_frame_def insert_node_def index_node_def)
  have store: "load_node n g = Inr ?g" using n(1-3) by (simp add: load_node_def insert_node_def has_key_def find_node_def)
  have "\<exists>h. store_all load_node ns ?g = Inr h \<and> loading h \<and> load_frame h = load_frame ?g \<and> g_edges h = g_edges ?g \<and>
     g_domain_definitions h = g_domain_definitions ?g \<and> g_cross_domain_rules h = g_cross_domain_rules ?g \<and>
     (\<forall>i. i \<notin> nd_id ` set ns \<longrightarrow> find_node h i = find_node ?g i) \<and> (\<forall>m \<in> set ns. find_node h (nd_id m) = Some m)"
    using Cons.prems by (intro Cons.IH loading_node n) (auto simp: find image_iff)
  moreover have "nd_id n \<notin> nd_id ` set ns" using Cons.prems(2) by auto
  ultimately show ?case by (auto simp: store frame find)
qed simp

lemma store_edges:
  "loading g \<Longrightarrow> distinct (map ed_id xs) \<Longrightarrow> distinct (map edge_key_of xs) \<Longrightarrow> distinct (map ed_relationship_id xs) \<Longrightarrow>
   \<forall>x \<in> set xs. ed_id x \<noteq> [] \<and> ed_relationship_id x \<noteq> [] \<and> find_edge g (ed_id x) = None \<and> find_edge_by_key g (edge_key_of x) = None \<and>
     find_edge_by_relationship g (ed_relationship_id x) = None \<and> find_node g (ed_from x) \<noteq> None \<and> find_node g (ed_to x) \<noteq> None \<Longrightarrow>
   \<exists>h. store_all load_edge xs g = Inr h \<and> loading h \<and> load_frame h = load_frame g \<and> g_nodes h = g_nodes g \<and>
     g_domain_definitions h = g_domain_definitions g \<and> g_cross_domain_rules h = g_cross_domain_rules g \<and>
     (\<forall>i. i \<notin> ed_id ` set xs \<longrightarrow> find_edge h i = find_edge g i) \<and> (\<forall>x \<in> set xs. find_edge h (ed_id x) = Some x)"
proof (induction xs arbitrary: g)
  case (Cons x xs)
  let ?g = "snd (insert_edge x g)"
  have x: "ed_id x \<noteq> []" "ed_relationship_id x \<noteq> []" "find_edge g (ed_id x) = None" "find_edge_by_key g (edge_key_of x) = None"
    "find_edge_by_relationship g (ed_relationship_id x) = None" "find_node g (ed_from x) \<noteq> None" "find_node g (ed_to x) \<noteq> None"
    using Cons.prems(5) by simp_all
  have new: "\<not> has_key (g_edges g) (ed_id x)" using x(3) by (simp add: has_key_def find_edge_def)
  have find: "find_edge ?g i = (if i = ed_id x then Some x else find_edge g i)"
    "find_edge_by_key ?g k = (if k = edge_key_of x then Some (ed_id x) else find_edge_by_key g k)"
    "find_edge_by_relationship ?g r = (if r = ed_relationship_id x then Some (ed_id x) else find_edge_by_relationship g r)"
    "find_node ?g j = find_node g j" for i j k r
    using new by (simp_all add: find_defs lookup_simps insert_edge_def index_edge_def)
  have frame: "load_frame ?g = load_frame g" "g_nodes ?g = g_nodes g" "g_domain_definitions ?g = g_domain_definitions g"
    "g_cross_domain_rules ?g = g_cross_domain_rules g"
    by (simp_all add: load_frame_def insert_edge_def index_edge_def)
  have store: "load_edge x g = Inr ?g" using x new by (simp add: load_edge_def insert_edge_def)
  have "\<exists>h. store_all load_edge xs ?g = Inr h \<and> loading h \<and> load_frame h = load_frame ?g \<and> g_nodes h = g_nodes ?g \<and>
     g_domain_definitions h = g_domain_definitions ?g \<and> g_cross_domain_rules h = g_cross_domain_rules ?g \<and>
     (\<forall>i. i \<notin> ed_id ` set xs \<longrightarrow> find_edge h i = find_edge ?g i) \<and> (\<forall>y \<in> set xs. find_edge h (ed_id y) = Some y)"
    using Cons.prems by (intro Cons.IH loading_edge x) (auto simp: find image_iff)
  moreover have "ed_id x \<notin> ed_id ` set xs" using Cons.prems(2) by auto
  ultimately show ?case by (auto simp: store frame find)
qed simp

lemma store_domains:
  "loading g \<Longrightarrow> distinct (map dd_id ds) \<Longrightarrow> \<forall>d \<in> set ds. dd_id d \<noteq> [] \<and> \<not> has_key (g_domain_definitions g) (dd_id d) \<Longrightarrow>
   \<exists>h. store_all load_domain ds g = Inr h \<and> loading h \<and> load_frame h = load_frame g \<and> g_nodes h = g_nodes g \<and> g_edges h = g_edges g \<and>
     g_cross_domain_rules h = g_cross_domain_rules g \<and>
     (\<forall>i. i \<notin> dd_id ` set ds \<longrightarrow> Mapping.lookup (g_domain_definitions h) i = Mapping.lookup (g_domain_definitions g) i) \<and>
     (\<forall>d \<in> set ds. Mapping.lookup (g_domain_definitions h) (dd_id d) = Some d)"
proof (induction ds arbitrary: g)
  case (Cons d ds)
  let ?g = "declare_domain d g"
  have d: "dd_id d \<noteq> []" "\<not> has_key (g_domain_definitions g) (dd_id d)" using Cons.prems(3) by simp_all
  have look: "Mapping.lookup (g_domain_definitions ?g) i = (if i = dd_id d then Some d else Mapping.lookup (g_domain_definitions g) i)" for i
    by (auto simp: declare_domain_frame lookup_simps)
  have frame: "load_frame ?g = load_frame g" by (simp add: load_frame_def declare_domain_def touch_domain_def)
  have store: "load_domain d g = Inr ?g" using d by (simp add: load_domain_def)
  have "\<exists>h. store_all load_domain ds ?g = Inr h \<and> loading h \<and> load_frame h = load_frame ?g \<and> g_nodes h = g_nodes ?g \<and> g_edges h = g_edges ?g \<and>
     g_cross_domain_rules h = g_cross_domain_rules ?g \<and>
     (\<forall>i. i \<notin> dd_id ` set ds \<longrightarrow> Mapping.lookup (g_domain_definitions h) i = Mapping.lookup (g_domain_definitions ?g) i) \<and>
     (\<forall>d \<in> set ds. Mapping.lookup (g_domain_definitions h) (dd_id d) = Some d)"
    using Cons.prems by (intro Cons.IH loading_domain) (auto simp: has_key_def look image_iff)
  moreover have "dd_id d \<notin> dd_id ` set ds" using Cons.prems(2) by auto
  ultimately show ?case by (auto simp: store frame look declare_domain_frame(1,2,4))
qed simp

lemma store_rules:
  "\<forall>r \<in> set rs. has_key (g_domain_definitions g) (cr_from_domain r) \<and> has_key (g_domain_definitions g) (cr_to_domain r) \<Longrightarrow>
   store_all load_rule rs g = Inr (g\<lparr>g_cross_domain_rules := g_cross_domain_rules g @ rs\<rparr>)"
  by (induction rs arbitrary: g) (simp_all add: load_rule_def)

lemma store_boots: "store_all (\<lambda>boot boots. Inr (boots @ [boot])) xs ys = Inr (ys @ xs)"
  by (induction xs arbitrary: ys) simp_all

subsection \<open>The whole payload\<close>

text \<open>What a graph and a list of fenced boots must satisfy to be read back: every text fits the bounds of
  the decoder and every list its count.\<close>

definition image_fits :: "limits \<Rightarrow> graph \<Rightarrow> string list \<Rightarrow> bool" where
  "image_fits lim g boots \<longleftrightarrow>
     (\<forall>i n. find_node g i = Some n \<longrightarrow> node_fits lim n \<and> i \<noteq> [] \<and> nd_entity_id n \<noteq> []) \<and>
     (\<forall>i x. find_edge g i = Some x \<longrightarrow> edge_stored_fits lim x \<and> i \<noteq> [] \<and> ed_relationship_id x \<noteq> [] \<and>
        find_node g (ed_from x) \<noteq> None \<and> find_node g (ed_to x) \<noteq> None) \<and>
     (\<forall>i d. Mapping.lookup (g_domain_definitions g) i = Some d \<longrightarrow> domain_fits lim d \<and> dd_id d = i \<and> i \<noteq> []) \<and>
     (\<forall>r \<in> set (g_cross_domain_rules g). rule_fits r \<and> has_key (g_domain_definitions g) (cr_from_domain r) \<and>
        has_key (g_domain_definitions g) (cr_to_domain r)) \<and>
     (\<forall>b \<in> set boots. id_fits b)"

definition counts_fit :: "limits \<Rightarrow> graph \<Rightarrow> string list \<Rightarrow> bool" where
  "counts_fit lim g boots \<longleftrightarrow> max_persistence_records lim < 18446744073709551616 \<and>
     length (sorted_nodes g scope_all) \<le> min (max_nodes lim) (max_persistence_records lim) \<and>
     length (sorted_edges g scope_all) \<le> min (max_edges lim) (max_persistence_records lim) \<and>
     length (sorted_values (g_domain_definitions g)) \<le> max_persistence_records lim \<and>
     length (g_cross_domain_rules g) \<le> max_persistence_records lim \<and> length boots \<le> max_persistence_records lim"

definition stored_form :: "limits \<Rightarrow> graph \<Rightarrow> graph" where
  "stored_form lim g = g\<lparr>g_limits := lim, g_cross_domain_rules := sort_key rule_key (g_cross_domain_rules g)\<rparr>"

lemma distinct_stored:
  assumes inv: "graph_inv g"
  shows "distinct (map nd_id (sorted_nodes g scope_all))" "distinct (map nd_entity_id (sorted_nodes g scope_all))"
    "distinct (map ed_id (sorted_edges g scope_all))" "distinct (map edge_key_of (sorted_edges g scope_all))"
    "distinct (map ed_relationship_id (sorted_edges g scope_all))"
proof -
  show n: "distinct (map nd_id (sorted_nodes g scope_all))" and x: "distinct (map ed_id (sorted_edges g scope_all))"
    using sorted_listing_ids [OF inv] by (simp_all add: strict_sorted_iff)
  have "inj_on nd_entity_id (set (sorted_nodes g scope_all))"
  proof (rule inj_onI)
    fix m k assume "m \<in> set (sorted_nodes g scope_all)" "k \<in> set (sorted_nodes g scope_all)" and e: "nd_entity_id m = nd_entity_id k"
    then have mk: "find_node g (nd_id m) = Some m" "find_node g (nd_id k) = Some k" by (simp_all add: all_listed(1) [OF inv])
    from node_entity_indexed [OF inv this(1)] node_entity_indexed [OF inv this(2)] e have "nd_id m = nd_id k" by simp
    with mk show "m = k" by (metis option.inject)
  qed
  with n show "distinct (map nd_entity_id (sorted_nodes g scope_all))" by (simp add: distinct_map)
  have edge: "x = y" if "x \<in> set (sorted_edges g scope_all)" "y \<in> set (sorted_edges g scope_all)" "ed_id x = ed_id y" for x y
    using that by (simp add: all_listed(2) [OF inv])
  have "inj_on edge_key_of (set (sorted_edges g scope_all))"
  proof (rule inj_onI)
    fix x y assume xy: "x \<in> set (sorted_edges g scope_all)" "y \<in> set (sorted_edges g scope_all)" and k: "edge_key_of x = edge_key_of y"
    then have "find_edge g (ed_id x) = Some x" "find_edge g (ed_id y) = Some y" by (simp_all add: all_listed(2) [OF inv])
    from edge_key_indexed [OF inv this(1)] edge_key_indexed [OF inv this(2)] k have "ed_id x = ed_id y" by simp
    with xy show "x = y" by (intro edge)
  qed
  with x show "distinct (map edge_key_of (sorted_edges g scope_all))" by (simp add: distinct_map)
  have "inj_on ed_relationship_id (set (sorted_edges g scope_all))"
  proof (rule inj_onI)
    fix x y assume xy: "x \<in> set (sorted_edges g scope_all)" "y \<in> set (sorted_edges g scope_all)" and k: "ed_relationship_id x = ed_relationship_id y"
    then have "find_edge g (ed_id x) = Some x" "find_edge g (ed_id y) = Some y" by (simp_all add: all_listed(2) [OF inv])
    from edge_relationship_indexed [OF inv this(1)] edge_relationship_indexed [OF inv this(2)] k have "ed_id x = ed_id y" by simp
    with xy show "x = y" by (intro edge)
  qed
  with x show "distinct (map ed_relationship_id (sorted_edges g scope_all))" by (simp add: distinct_map)
qed

lemma distinct_definitions:
  assumes fin: "finite (Mapping.keys m)" and ids: "\<And>i d. Mapping.lookup m i = Some d \<Longrightarrow> dd_id d = i"
  shows "distinct (map dd_id (sorted_values m))"
proof -
  have "map dd_id (sorted_values m) = Mapping.ordered_keys m"
    unfolding sorted_values_def map_map
    using fin ids by (intro map_idI) (auto simp: Mapping.ordered_keys_def keys_dom_lookup)
  then show ?thesis by (simp add: Mapping.ordered_keys_def)
qed

lemma rebuilt_graph:
  assumes inv: "graph_inv g" and fits: "image_fits lim g boots"
  obtains h1 h2 h3 where
    "store_all load_node (sorted_nodes g scope_all)
       ((new_graph lim)\<lparr>g_generation := g_generation g, g_snapshot_counter := g_snapshot_counter g\<rparr>) = Inr h1"
    "store_all load_edge (sorted_edges g scope_all) h1 = Inr h2"
    "store_all load_domain (sorted_values (g_domain_definitions g)) h2 = Inr h3"
    "store_all load_rule (sort_key rule_key (g_cross_domain_rules g)) h3 = Inr (stored_form lim g)"
proof -
  let ?g0 = "(new_graph lim)\<lparr>g_generation := g_generation g, g_snapshot_counter := g_snapshot_counter g\<rparr>"
  let ?ns = "sorted_nodes g scope_all" and ?xs = "sorted_edges g scope_all" and ?ds = "sorted_values (g_domain_definitions g)"
  note ids = graph_inv_node_ids [OF inv] graph_inv_ids [OF inv]
  have fin: "finite (Mapping.keys (g_domain_definitions g))" using inv by (simp add: graph_inv_def)
  have ds: "d \<in> set ?ds \<longleftrightarrow> Mapping.lookup (g_domain_definitions g) (dd_id d) = Some d" for d
    using fits by (auto simp: set_sorted_values [OF fin] image_fits_def)
  have "graph_inv ?g0" using graph_inv_new [of lim] by (simp add: graph_inv_def indexes_ok_def)
  then have start: "loading ?g0" by (simp add: graph_inv_loading)
  have empty: "find_node ?g0 i = None" "find_node_by_entity ?g0 i = None" "find_edge ?g0 i = None" for i
    by (simp_all add: find_defs new_graph_def)
  obtain h1 where h1: "store_all load_node ?ns ?g0 = Inr h1" "loading h1" "load_frame h1 = load_frame ?g0" "g_edges h1 = g_edges ?g0"
    "g_domain_definitions h1 = g_domain_definitions ?g0" "g_cross_domain_rules h1 = g_cross_domain_rules ?g0"
    and n1: "\<forall>i. i \<notin> nd_id ` set ?ns \<longrightarrow> find_node h1 i = find_node ?g0 i" "\<forall>n \<in> set ?ns. find_node h1 (nd_id n) = Some n"
    using store_nodes [OF start distinct_stored(1,2) [OF inv]] fits
    by (auto simp: empty all_listed(1) [OF inv] image_fits_def)
  have nodes: "find_node h1 i = find_node g i" for i
  proof (cases "find_node g i")
    case None
    then have "i \<notin> nd_id ` set ?ns" by (auto simp: all_listed(1) [OF inv])
    with n1(1) None show ?thesis by (simp add: empty)
  next
    case (Some n)
    then have "nd_id n = i" "n \<in> set ?ns" using ids by (auto simp: all_listed(1) [OF inv])
    with n1(2) Some show ?thesis by auto
  qed
  have none: "find_edge h1 i = None" "find_edge_by_key h1 k = None" "find_edge_by_relationship h1 i = None" for i k
  proof -
    show e: "find_edge h1 i = None" for i using empty(3) [of i] h1(4) by (simp add: find_edge_def)
    have k: "keyed edge_key_of (g_edge_by_key h1) (g_edges h1)" "keyed ed_relationship_id (g_edge_by_relationship h1) (g_edges h1)"
      using h1(2) by (simp_all add: loading_def indexes_ok_def)
    show "find_edge_by_key h1 k = None"
      using k(1) e by (cases "find_edge_by_key h1 k") (auto simp: keyed_def find_defs)
    show "find_edge_by_relationship h1 i = None"
      using k(2) e by (cases "find_edge_by_relationship h1 i") (auto simp: keyed_def find_defs)
  qed
  obtain h2 where h2: "store_all load_edge ?xs h1 = Inr h2" "loading h2" "load_frame h2 = load_frame h1" "g_nodes h2 = g_nodes h1"
    "g_domain_definitions h2 = g_domain_definitions h1" "g_cross_domain_rules h2 = g_cross_domain_rules h1"
    and x2: "\<forall>i. i \<notin> ed_id ` set ?xs \<longrightarrow> find_edge h2 i = find_edge h1 i" "\<forall>x \<in> set ?xs. find_edge h2 (ed_id x) = Some x"
    using store_edges [OF h1(2) distinct_stored(3-5) [OF inv]] fits
    by (auto simp: none nodes all_listed(2) [OF inv] image_fits_def)
  have edges: "find_edge h2 i = find_edge g i" for i
  proof (cases "find_edge g i")
    case None
    then have "i \<notin> ed_id ` set ?xs" by (auto simp: all_listed(2) [OF inv])
    with x2(1) None show ?thesis by (simp add: none)
  next
    case (Some x)
    then have "ed_id x = i" "x \<in> set ?xs" using ids by (auto simp: all_listed(2) [OF inv])
    with x2(2) Some show ?thesis by auto
  qed
  have dd: "distinct (map dd_id ?ds)" using fits by (intro distinct_definitions [OF fin]) (simp add: image_fits_def)
  have no_def: "Mapping.lookup (g_domain_definitions h2) i = None" for i
    using h2(5) h1(5) by (simp add: new_graph_def lookup_simps)
  have fresh_ids: "\<forall>d \<in> set ?ds. dd_id d \<noteq> [] \<and> \<not> has_key (g_domain_definitions h2) (dd_id d)"
  proof
    fix d assume "d \<in> set ?ds"
    then have "Mapping.lookup (g_domain_definitions g) (dd_id d) = Some d" by (simp only: ds)
    with fits have "dd_id d \<noteq> []" unfolding image_fits_def by blast
    then show "dd_id d \<noteq> [] \<and> \<not> has_key (g_domain_definitions h2) (dd_id d)" by (simp add: has_key_def no_def)
  qed
  obtain h3 where h3: "store_all load_domain ?ds h2 = Inr h3" "loading h3" "load_frame h3 = load_frame h2" "g_nodes h3 = g_nodes h2"
    "g_edges h3 = g_edges h2" "g_cross_domain_rules h3 = g_cross_domain_rules h2"
    and d3: "\<forall>i. i \<notin> dd_id ` set ?ds \<longrightarrow> Mapping.lookup (g_domain_definitions h3) i = Mapping.lookup (g_domain_definitions h2) i"
      "\<forall>d \<in> set ?ds. Mapping.lookup (g_domain_definitions h3) (dd_id d) = Some d"
    using store_domains [OF h2(2) dd fresh_ids] by blast
  have defs: "g_domain_definitions h3 = g_domain_definitions g"
  proof (rule mapping_eqI)
    fix i
    show "Mapping.lookup (g_domain_definitions h3) i = Mapping.lookup (g_domain_definitions g) i"
    proof (cases "Mapping.lookup (g_domain_definitions g) i")
      case None
      then have "i \<notin> dd_id ` set ?ds" by (auto simp: ds)
      with d3(1) None show ?thesis by (simp add: no_def)
    next
      case (Some d)
      then have "dd_id d = i" using fits by (simp add: image_fits_def)
      with Some d3(2) show ?thesis by (auto simp: ds)
    qed
  qed
  have same: "g_nodes h3 = g_nodes g" "g_edges h3 = g_edges g"
    using nodes edges h2(4) h3(4,5) by (auto intro!: mapping_eqI simp: find_node_def find_edge_def)
  have rules: "store_all load_rule (sort_key rule_key (g_cross_domain_rules g)) h3 =
      Inr (h3\<lparr>g_cross_domain_rules := sort_key rule_key (g_cross_domain_rules g)\<rparr>)"
    using store_rules [of "sort_key rule_key (g_cross_domain_rules g)" h3] fits h3(6) h2(6) h1(6)
    by (simp add: image_fits_def defs new_graph_def)
  have "h3\<lparr>g_cross_domain_rules := sort_key rule_key (g_cross_domain_rules g)\<rparr> = stored_form lim g"
  proof (rule graph_inv_determines_indexes)
    show "indexes_ok (stored_form lim g)" using inv by (simp add: graph_inv_def indexes_ok_def stored_form_def)
    show "indexes_ok (h3\<lparr>g_cross_domain_rules := sort_key rule_key (g_cross_domain_rules g)\<rparr>)"
      using h3(2) by (simp add: loading_def indexes_ok_def)
  qed (use h3(3) h2(3) h1(3) same defs in \<open>simp_all add: stored_form_def load_frame_def new_graph_def\<close>)
  with rules show thesis using that [OF h1(1) h2(1) h3(1)] by simp
qed

lemma decode_encoded_state:
  assumes inv: "graph_inv g" and lim: "limits_fit lim" and fits: "image_fits lim g boots" and counts: "counts_fit lim g boots"
  shows "decode_state_payload lim (encode_state_payload g epoch boots) =
    Inr \<lparr>ls_graph = stored_form lim g, ls_epoch = epoch, ls_boots = sort boots\<rparr>"
proof -
  let ?g0 = "(new_graph lim)\<lparr>g_generation := g_generation g, g_snapshot_counter := g_snapshot_counter g\<rparr>"
  let ?ns = "sorted_nodes g scope_all" and ?xs = "sorted_edges g scope_all" and ?ds = "sorted_values (g_domain_definitions g)"
    and ?rs = "sort_key rule_key (g_cross_domain_rules g)"
  obtain h1 h2 h3 where s: "store_all load_node (sorted_nodes g scope_all)
       ((new_graph lim)\<lparr>g_generation := g_generation g, g_snapshot_counter := g_snapshot_counter g\<rparr>) = Inr h1"
    "store_all load_edge (sorted_edges g scope_all) h1 = Inr h2"
    "store_all load_domain (sorted_values (g_domain_definitions g)) h2 = Inr h3"
    "store_all load_rule (sort_key rule_key (g_cross_domain_rules g)) h3 = Inr (stored_form lim g)"
    by (rule rebuilt_graph [OF inv fits])
  have fin: "finite (Mapping.keys (g_domain_definitions g))" using inv by (simp add: graph_inv_def)
  have each: "\<forall>n \<in> set (sorted_nodes g scope_all). node_fits lim n" "\<forall>x \<in> set (sorted_edges g scope_all). edge_stored_fits lim x"
    "\<forall>d \<in> set (sorted_values (g_domain_definitions g)). domain_fits lim d"
    "\<forall>r \<in> set (sort_key rule_key (g_cross_domain_rules g)). rule_fits r" "\<forall>b \<in> set (sort boots). id_fits b"
    using fits by (auto simp: image_fits_def all_listed(1,2) [OF inv] set_sorted_values [OF fin])
  have nodes: "decode_records ''state.node_count'' [max_nodes lim, max_persistence_records lim]
      (\<lambda>r. or_report (failed_at ''state.node'') (decode_node lim r)) load_node ?g0 (reading a (encode_list encode_node ?ns @ c)) =
      (Inr h1, reading (a @ encode_list encode_node ?ns) c)" for a c
    using counts by (intro decode_records_reading [OF reported_wire [OF node_wire [OF lim]] each(1) s(1)]) (simp_all add: counts_fit_def)
  have edges: "decode_records ''state.edge_count'' [max_edges lim, max_persistence_records lim]
      (\<lambda>r. or_report (failed_at ''state.edge'') (decode_edge lim r)) load_edge h1 (reading a (encode_list encode_edge ?xs @ c)) =
      (Inr h2, reading (a @ encode_list encode_edge ?xs) c)" for a c
    using counts by (intro decode_records_reading [OF reported_wire [OF edge_wire [OF lim]] each(2) s(2)]) (simp_all add: counts_fit_def)
  have domains: "decode_records ''state.domain_count'' [max_persistence_records lim] (decode_domain lim) load_domain h2
      (reading a (encode_list encode_domain ?ds @ c)) = (Inr h3, reading (a @ encode_list encode_domain ?ds) c)" for a c
    using counts by (intro decode_records_reading [OF domain_wire [OF lim] each(3) s(3)]) (simp_all add: counts_fit_def)
  have rules: "decode_records ''state.rule_count'' [max_persistence_records lim] decode_rule load_rule h3
      (reading a (encode_list encode_rule ?rs @ c)) = (Inr (stored_form lim g), reading (a @ encode_list encode_rule ?rs) c)" for a c
    using counts by (intro decode_records_reading [OF rule_wire.wire_axioms each(4) s(4)]) (simp_all add: counts_fit_def)
  have boots: "decode_records ''state.boot_count'' [max_persistence_records lim] (read_identifier ''state.boot'')
      (\<lambda>boot boots. Inr (boots @ [boot])) [] (reading a (encode_list put_text (sort boots) @ c)) =
      (Inr (sort boots), reading (a @ encode_list put_text (sort boots)) c)" for a c
    using counts store_boots [of "sort boots" "[]"]
    by (intro decode_records_reading [OF boot_wire.wire_axioms each(5)]) (simp_all add: counts_fit_def)
  have header: "decode_header (reading [] (put_text kStateTag @ put_u32 1 @ put_u64 a @ put_u64 b @ put_u64 c @ rest)) =
      (Inr (a, b, c), reading (put_text kStateTag @ put_u32 1 @ put_u64 a @ put_u64 b @ put_u64 c) rest)" for a b c rest
    using get_text_reading [of 64 kStateTag "[]" "put_u32 1 @ put_u64 a @ put_u64 b @ put_u64 c @ rest"]
    by (simp add: decode_header_def wire_simps text_bounded_def kStateTag_def)
  show ?thesis
    using boots [of _ "[]"]
    by (simp add: decode_state_payload_def decode_state_def encode_state_payload_def open_reading header nodes edges domains rules boots)
qed

text \<open>A source relationship identifier longer than the decoder accepts is written all the same: the
  relationship that carries it cannot be read back.\<close>

lemma oversized_source_unreadable:
  assumes "short_text (pv_publisher q)" "short_text (pv_worker_boot q)"
    and "kMaxIdentifierBytes < length (pv_source_relationship_id q)" "length (pv_source_relationship_id q) < 4294967296"
  shows "fst (decode_provenance (reading a (encode_provenance q @ c))) = Inl ()"
proof -
  have fail: "\<not> rd_ok r \<Longrightarrow> \<not> rd_ok (snd (get_text m r)) \<and> \<not> rd_ok (snd (get_u64 r))" for r m
    using text_reader.within [of r m] u64_reader.within [of r] by (simp add: reads_within_def)
  let ?long = "\<lambda>d c. get_text kMaxIdentifierBytes (reading d (put_text (pv_source_relationship_id q) @ c))"
  have "\<not> rd_ok (snd (?long d c))" for d c
    using assms(3,4) by (simp add: get_text_def put_text_def get_blob_too_long rd_fail_def)
  then have "\<not> rd_ok (snd (get_u64 (snd (get_u64 (snd (get_text kMaxIdentifierBytes (snd (?long d c))))))))" for d c
    using fail by blast
  with assms(1,2) show ?thesis
    by (simp add: decode_provenance_def encode_provenance_def wire_simps if_ok_def case_prod_beta)
qed

end
