(* ===== verification/Recovery.thy ===== *)
theory Recovery
  imports Stored
begin

text \<open>
  The container around the payload and the conservative recovery (\<open>src/persistence.cpp\<close>, the second
  half; \<open>TopologyEngine::open\<close> in \<open>src/topology_engine.cpp\<close>). What the file system answers to a read is a
  parameter; the digests, the decoder and the validation are the models of their own theories.
\<close>

subsection \<open>The container\<close>

definition kStateMagic :: string where "kStateMagic = ''FTSTATE1''"
definition kPersistenceFormatVersion :: u32 where "kPersistenceFormatVersion = 1"
definition kPersistenceHeaderBytes :: nat where "kPersistenceHeaderBytes = 4 + 8 + 4 + 8 + 4 + 4 + 32"

definition encode_container :: "bytes \<Rightarrow> bytes" where
  "encode_container payload =
     put_blob (bytes_of kStateMagic) @ put_u32 kPersistenceFormatVersion @ put_u64 (of_nat (length payload)) @
     put_u32 (crc32 payload) @ put_blob (sha256_raw payload) @ payload"

definition save_image :: "engine \<Rightarrow> bytes" where
  "save_image e =
     encode_container (encode_state_payload (en_graph e) (en_epoch e) (sorted_list_of_set (en_fenced_boots e)))"

text \<open>The status of a save and the image a write that succeeds leaves under the path.\<close>

definition save_to :: "string \<Rightarrow> file_result \<Rightarrow> engine \<Rightarrow> status \<times> bytes option" where
  "save_to path got e = (write_file_atomic path got, if got = Written then Some (save_image e) else None)"

definition save :: "(engine \<Rightarrow> file_result) \<Rightarrow> engine \<Rightarrow> status \<times> bytes option" where
  "save io e = (persist_locked io e, if en_persistence_path e \<noteq> [] \<and> io e = Written then Some (save_image e) else None)"

record container_header =
  ch_version :: u32
  ch_payload_bytes :: u64
  ch_crc :: u32
  ch_digest :: bytes

definition read_header :: "bytes \<Rightarrow> status + container_header" where
  "read_header bs =
     (if length bs < kPersistenceHeaderBytes
      then Inl (decode_failure ''container.truncated_header'' (decimal (length bs)))
      else case get_blob 8 (open_reader bs) of (magic, r) \<Rightarrow>
      if \<not> rd_ok r \<or> magic \<noteq> bytes_of kStateMagic then Inl (decode_failure ''container.bad_magic'' [])
      else case get_u32 r of (version, r) \<Rightarrow>
      case get_u64 r of (bytes_declared, r) \<Rightarrow>
      case get_u32 r of (crc, r) \<Rightarrow>
      case get_blob 64 r of (digest, r) \<Rightarrow>
      if \<not> rd_ok r then Inl (decode_failure ''container.header'' (rd_error r))
      else Inr \<lparr>ch_version = version, ch_payload_bytes = bytes_declared, ch_crc = crc, ch_digest = digest\<rparr>)"

text \<open>The checks of a header against the rest of the file; \<open>mismatch\<close> is the detail of a wrong length, in
  which \<open>load_from\<close> and \<open>inspect_persistence_file\<close> differ.\<close>

definition check_container :: "limits \<Rightarrow> string \<Rightarrow> container_header \<Rightarrow> bytes \<Rightarrow> status option" where
  "check_container lim mismatch h payload =
     (if ch_version h \<noteq> kPersistenceFormatVersion
      then Some (explain O_PersistenceCorruption ''container.version_unsupported'' [(''version'', decimal (unat (ch_version h)))])
      else if max_persistence_bytes lim < unat (ch_payload_bytes h)
      then Some (decode_failure ''container.payload_too_large'' (u64_string (ch_payload_bytes h)))
      else if unat (ch_payload_bytes h) \<noteq> length payload then Some (decode_failure ''container.length_mismatch'' mismatch)
      else if crc32 payload \<noteq> ch_crc h then Some (decode_failure ''container.crc_mismatch'' [])
      else if sha256_raw payload \<noteq> ch_digest h then Some (decode_failure ''container.sha256_mismatch'' [])
      else None)"

definition load_container :: "limits \<Rightarrow> bytes \<Rightarrow> status + bytes" where
  "load_container lim bs =
     (case read_header bs of
        Inl s \<Rightarrow> Inl s
      | Inr h \<Rightarrow>
          let payload = drop kPersistenceHeaderBytes bs in
          case check_container lim (u64_string (ch_payload_bytes h)) h payload of Some s \<Rightarrow> Inl s | None \<Rightarrow> Inr payload)"

subsection \<open>Reading files\<close>

datatype file_read = Stat_failed string | Unopenable | Short_read | Contents bytes

definition read_file :: "string \<Rightarrow> file_read \<Rightarrow> status + bytes" where
  "read_file path f =
     (case f of
        Stat_failed detail \<Rightarrow> Inl (explain O_PersistenceIoFailure ''persistence.stat_failed'' [(''path'', path), (''detail'', detail)])
      | Unopenable \<Rightarrow> Inl (explain O_PersistenceIoFailure ''persistence.open_failed'' [(''path'', path)])
      | Short_read \<Rightarrow> Inl (explain O_PersistenceIoFailure ''persistence.read_failed'' [(''path'', path)])
      | Contents bs \<Rightarrow> Inr bs)"

record header_info =
  hi_format_version :: u32
  hi_payload_bytes :: u64
  hi_payload_crc32 :: u32
  hi_payload_sha256 :: string
  hi_file_bytes :: nat

definition hex_text :: "bytes \<Rightarrow> string" where
  "hex_text bs = concat (map (\<lambda>b. [hex_digit (unat (drop_bit 4 b)), hex_digit (unat (b AND 0x0F))]) bs)"

text \<open>The out parameter is given only where the whole header was read.\<close>

definition inspect_persistence_file :: "string \<Rightarrow> file_read \<Rightarrow> status \<times> header_info option" where
  "inspect_persistence_file path f =
     (case read_file path f of
        Inl s \<Rightarrow> (s, None)
      | Inr bs \<Rightarrow> (case read_header bs of
            Inl s \<Rightarrow> (s, None)
          | Inr h \<Rightarrow>
              let payload = drop kPersistenceHeaderBytes bs;
                  info = \<lparr>hi_format_version = ch_version h, hi_payload_bytes = ch_payload_bytes h, hi_payload_crc32 = ch_crc h,
                    hi_payload_sha256 = hex_text (ch_digest h), hi_file_bytes = length bs\<rparr> in
              case check_container default_limits (u64_string (ch_payload_bytes h) @ '' vs '' @ decimal (length payload)) h payload of
                Some s \<Rightarrow> (s, Some info)
              | None \<Rightarrow> (make_status O_Ok ''container.ok'', Some info)))"

subsection \<open>Recovery\<close>

record load_report =
  lr_status :: status
  lr_loaded :: bool
  lr_recovered :: bool
  lr_generation :: u64
  lr_epoch :: u64
  lr_nodes :: nat
  lr_edges :: nat
  lr_revalidation_edges :: nat
  lr_revalidation_nodes :: nat
  lr_retired_edges :: nat
  lr_superseded_edges :: nat

definition empty_report :: load_report where
  "empty_report = \<lparr>lr_status = empty_status, lr_loaded = False, lr_recovered = False, lr_generation = 0, lr_epoch = 0,
     lr_nodes = 0, lr_edges = 0, lr_revalidation_edges = 0, lr_revalidation_nodes = 0, lr_retired_edges = 0,
     lr_superseded_edges = 0\<rparr>"

fun recover_edges :: "string list \<Rightarrow> graph \<Rightarrow> load_report \<Rightarrow> graph \<times> load_report" where
  "recover_edges [] g rep = (g, rep)"
| "recover_edges (i # rest) g rep =
     (case find_edge g i of
        None \<Rightarrow> recover_edges rest g rep
      | Some x \<Rightarrow>
          if pv_publisher (ed_provenance x) = [] then recover_edges rest g rep
          else if ed_lifecycle x = LS_Retired then recover_edges rest g (rep\<lparr>lr_retired_edges := lr_retired_edges rep + 1\<rparr>)
          else if ed_lifecycle x = LS_Superseded then recover_edges rest g (rep\<lparr>lr_superseded_edges := lr_superseded_edges rep + 1\<rparr>)
          else if ed_lifecycle x = LS_RevalidationRequired then recover_edges rest g rep
          else recover_edges rest (snd (mutate_edge i demote g))
            (rep\<lparr>lr_revalidation_edges := lr_revalidation_edges rep + 1\<rparr>))"

definition revalidate_node :: "node \<Rightarrow> node" where
  "revalidate_node n = n\<lparr>nd_lifecycle := LS_RevalidationRequired, nd_generation := advance_if_possible (nd_generation n)\<rparr>"

definition still_registered :: "(string \<Rightarrow> entity_record option) \<Rightarrow> node \<Rightarrow> bool" where
  "still_registered look n =
     (case look (nd_entity_id n) of
        None \<Rightarrow> False
      | Some rec \<Rightarrow> \<not> er_retired rec \<and> \<not> er_superseded rec \<and> er_generation rec = nd_entity_generation n)"

fun recover_nodes :: "(string \<Rightarrow> entity_record option) option \<Rightarrow> string list \<Rightarrow> graph \<Rightarrow> load_report \<Rightarrow> graph \<times> load_report" where
  "recover_nodes directory [] g rep = (g, rep)"
| "recover_nodes directory (i # rest) g rep =
     (case (find_node g i, directory) of
        (Some n, Some look) \<Rightarrow>
          if still_registered look n then recover_nodes directory rest g rep
          else recover_nodes directory rest (snd (mutate_node i revalidate_node g))
            (rep\<lparr>lr_revalidation_nodes := lr_revalidation_nodes rep + 1\<rparr>)
      | _ \<Rightarrow> recover_nodes directory rest g rep)"

definition recovery_epoch :: "u64 \<Rightarrow> u64 \<Rightarrow> u64" where
  "recovery_epoch initial stored = (let next_epoch = advance_if_possible stored in if next_epoch < initial then initial else next_epoch)"

definition recover :: "u64 \<Rightarrow> loaded_state \<Rightarrow> load_report \<Rightarrow> engine \<Rightarrow> load_report \<times> engine" where
  "recover initial st rep e =
     (case recover_edges (Mapping.ordered_keys (g_edges (ls_graph st))) (ls_graph st) rep of (g, rep) \<Rightarrow>
      case recover_nodes (en_directory e) (Mapping.ordered_keys (g_nodes g)) g rep of (g, rep) \<Rightarrow>
      let epoch = recovery_epoch initial (ls_epoch st) in
      (rep\<lparr>lr_loaded := True, lr_recovered := True, lr_generation := g_generation g, lr_epoch := epoch,
         lr_status := explain O_Committed ''persistence.recovered''
           [(''generation'', u64_string (g_generation g)), (''coordinator_epoch'', u64_string epoch),
            (''nodes'', decimal (lr_nodes rep)), (''edges'', decimal (lr_edges rep))]\<rparr>,
       e\<lparr>en_publishers := Mapping.empty, en_attempts := empty_ledger,
         en_fenced_boots := set (filter (\<lambda>b. is_valid_identifier b kMaxIdentifierBytes) (ls_boots st)),
         en_graph := g, en_epoch := epoch, en_snapshots := []\<rparr>))"

definition load_image :: "u64 \<Rightarrow> bytes \<Rightarrow> engine \<Rightarrow> load_report \<times> engine" where
  "load_image initial bs e =
     (case load_container (en_limits e) bs of
        Inl s \<Rightarrow> (empty_report\<lparr>lr_status := s\<rparr>, e)
      | Inr payload \<Rightarrow> (case decode_state_payload (en_limits e) payload of
            Inl s \<Rightarrow> (empty_report\<lparr>lr_status := s\<rparr>, e)
          | Inr st \<Rightarrow>
              let rep = empty_report\<lparr>lr_nodes := map_size (g_nodes (ls_graph st)), lr_edges := map_size (g_edges (ls_graph st))\<rparr>;
                  validation = validate_graph (ls_graph st) (en_directory e) scope_all in
              if \<not> vr_valid validation
              then (rep\<lparr>lr_status := explain O_PersistenceCorruption ''state.invariant_violation''
                      ([(''issues'', decimal (length (vr_issues validation)))] @
                       (if vr_issues validation = [] then []
                        else [(''first_issue'', vi_code (hd (vr_issues validation)))]))\<rparr>, e)
              else recover initial st rep e))"

text \<open>\<open>None\<close>: no file of that name exists. \<open>initial\<close> is \<open>options.initial_coordinator_epoch\<close>.\<close>

definition load_from :: "u64 \<Rightarrow> string \<Rightarrow> file_read option \<Rightarrow> engine \<Rightarrow> load_report \<times> engine" where
  "load_from initial path f e =
     (case f of
        None \<Rightarrow> (empty_report\<lparr>lr_status := make_status O_Ok ''persistence.absent''\<rparr>, e)
      | Some got \<Rightarrow> (case read_file path got of
            Inl s \<Rightarrow> (empty_report\<lparr>lr_status := s\<rparr>, e)
          | Inr bs \<Rightarrow> load_image initial bs e))"

definition open_engine :: "engine_options \<Rightarrow> file_read option \<Rightarrow> load_report \<Rightarrow> load_report \<times> engine" where
  "open_engine op f rep =
     (if op_persistence_path op \<noteq> [] then load_from (op_initial_epoch op) (op_persistence_path op) f (new_engine op)
      else (rep\<lparr>lr_status := (lr_status rep)\<lparr>outcome_of := O_Ok, code_of := ''persistence.not_configured''\<rparr>, lr_loaded := False\<rparr>,
        new_engine op))"

definition bool_text :: "bool \<Rightarrow> string" where "bool_text b = (if b then ''true'' else ''false'')"

definition render_load_report :: "load_report \<Rightarrow> string" where
  "render_load_report rep =
     ''loaded='' @ bool_text (lr_loaded rep) @ '' recovered='' @ bool_text (lr_recovered rep) @
     '' generation='' @ u64_string (lr_generation rep) @ '' coordinator_epoch='' @ u64_string (lr_epoch rep) @
     '' nodes='' @ decimal (lr_nodes rep) @ '' edges='' @ decimal (lr_edges rep) @
     '' revalidation_required_edges='' @ decimal (lr_revalidation_edges rep) @
     '' revalidation_required_nodes='' @ decimal (lr_revalidation_nodes rep) @ [CHR 0x0A] @ render_status (lr_status rep)"

definition persistence_mode_string :: "persistence_mode \<Rightarrow> string" where
  "persistence_mode_string m = (if m = Immediate then ''IMMEDIATE'' else ''MANUAL'')"

subsection \<open>What a reader accepts was written\<close>

lemma read_le_room: "rd_ok (snd (read_le n s v r)) \<Longrightarrow> n \<le> rd_remaining r"
proof (induction n arbitrary: s v r)
  case (Suc n)
  obtain b r' where b: "get_u8 r = (b, r')" by (cases "get_u8 r")
  with Suc.prems have ok: "rd_ok (snd (read_le n (s + 8) (v OR push_bit s (ucast b)) r'))" by simp
  then have "rd_ok r'"
    using read_le_within [of r' n "s + 8" "v OR push_bit s (ucast b)"] by (auto simp: reads_within_def)
  with b have "rd_remaining r = Suc (rd_remaining r')"
    by (auto simp: get_u8_def need_def rd_fail_def rd_remaining_def split: if_splits)
  with Suc.IH [OF ok] show ?case by simp
qed simp

lemma all_written:
  fixes put :: "'w::len word \<Rightarrow> bytes"
  assumes inj: "inj put" and len: "\<And>w. length (put w) = n" and width: "(256 :: nat) ^ n = 2 ^ LENGTH('w)" and "length bs = n"
  obtains w where "put w = bs"
proof -
  let ?S = "{bs :: bytes. set bs \<subseteq> UNIV \<and> length bs = n}"
  have card: "card ?S = 256 ^ n" by (subst card_lists_length_eq) (simp_all add: card_word)
  moreover have "card (range put) = 2 ^ LENGTH('w)" using card_image [OF inj] by (simp add: card_word)
  ultimately have "range put = ?S"
    using len width finite_lists_length_eq [of "UNIV :: u8 set" n] by (intro card_subset_eq) auto
  with assms(4) have "bs \<in> range put" by simp
  with that show thesis by auto
qed

locale fixed_codec = field_codec put get "\<lambda>_. True" for put :: "'a \<Rightarrow> bytes" and get :: "reader \<Rightarrow> 'a \<times> reader" +
  fixes width :: nat
  assumes onto: "length bs = width \<Longrightarrow> \<exists>x. put x = bs" and room: "rd_ok (snd (get r)) \<Longrightarrow> width \<le> rd_remaining r"
begin

lemma written:
  assumes "get (reading a b) = (x, r)" "rd_ok r"
  obtains c where "b = put x @ c" "r = reading (a @ put x) c"
proof -
  have "width \<le> length b" using room [of "reading a b"] assms by simp
  with onto [of "take width b"] obtain y where "put y = take width b" by auto
  then have b: "b = put y @ drop width b" by simp
  from get_reading [OF TrueI, of a y "drop width b"] this assms(1) have "x = y" "r = reading (a @ put y) (drop width b)" by auto
  with b that show thesis by blast
qed

end

interpretation u32_fixed: fixed_codec put_u32 get_u32 4
proof
  have "inj put_u32" using u32_codec.put_append_inject [OF TrueI TrueI, of _ "[]" _ "[]"] by (auto intro: injI)
  then show "\<exists>x. put_u32 x = bs" if "length bs = 4" for bs by (rule all_written [of put_u32 4 bs]) (use that in auto)
  show "4 \<le> rd_remaining r" if "rd_ok (snd (get_u32 r))" for r using that unfolding get_u32_def by (rule read_le_room)
qed

interpretation u64_fixed: fixed_codec put_u64 get_u64 8
proof
  have "inj put_u64" using u64_codec.put_append_inject [OF TrueI TrueI, of _ "[]" _ "[]"] by (auto intro: injI)
  then show "\<exists>x. put_u64 x = bs" if "length bs = 8" for bs by (rule all_written [of put_u64 8 bs]) (use that in auto)
  show "8 \<le> rd_remaining r" if "rd_ok (snd (get_u64 r))" for r using that unfolding get_u64_def by (rule read_le_room)
qed

lemma blob_written:
  assumes "get_blob m (reading a b) = (bs, r)" "rd_ok r"
  obtains c where "b = put_blob bs @ c" "r = reading (a @ put_blob bs) c" "length bs \<le> m"
proof -
  obtain len q where q: "get_u32 (reading a b) = (len, q)" by (cases "get_u32 (reading a b)")
  have ok: "rd_ok q" using assms q get_blob_within [of "reading a b" m]
    by (auto simp: get_blob_def need_def rd_fail_def split: if_splits bool.splits)
  obtain d where d: "b = put_u32 len @ d" "q = reading (a @ put_u32 len) d" by (rule u32_fixed.written [OF q ok])
  have rem: "length (rd_data q) - rd_offset q = length d" by (simp add: d(2) reading_def)
  have need: "unat len \<le> m" "unat len \<le> length d" and bs: "bs = take (unat len) d" "r = q\<lparr>rd_offset := rd_offset q + unat len\<rparr>"
    using assms ok q rem by (auto simp: get_blob_def need_def rd_fail_def d(2) reading_def split: if_splits)
  have len: "length bs = unat len" and dd: "d = bs @ drop (unat len) d" using need bs(1) by simp_all
  have "put_blob bs = put_u32 len @ bs" by (simp add: put_blob_def len)
  moreover from this have "r = reading (a @ put_blob bs) (drop (unat len) d)"
    using bs(2) d(2) dd len by (simp add: reading_def)
  ultimately show thesis using that [of "drop (unat len) d"] d(1) dd need(1) len by simp
qed

text \<open>The header of a file that is long enough.\<close>

definition header_bytes :: "container_header \<Rightarrow> bytes" where
  "header_bytes h = put_blob (bytes_of kStateMagic) @ put_u32 (ch_version h) @ put_u64 (ch_payload_bytes h) @
     put_u32 (ch_crc h) @ put_blob (ch_digest h)"

lemma read_header_written:
  assumes "read_header bs = Inr h"
  obtains rest where "bs = header_bytes h @ rest" "length (ch_digest h) \<le> 64"
proof -
  obtain magic r1 where m: "get_blob 8 (reading [] bs) = (magic, r1)" by (cases "get_blob 8 (reading [] bs)")
  obtain version r2 where v: "get_u32 r1 = (version, r2)" by (cases "get_u32 r1")
  obtain declared r3 where n: "get_u64 r2 = (declared, r3)" by (cases "get_u64 r2")
  obtain crc r4 where c: "get_u32 r3 = (crc, r4)" by (cases "get_u32 r3")
  obtain digest r5 where d: "get_blob 64 r4 = (digest, r5)" by (cases "get_blob 64 r4")
  have ok: "rd_ok r1" "magic = bytes_of kStateMagic" "rd_ok r5"
    and h: "h = \<lparr>ch_version = version, ch_payload_bytes = declared, ch_crc = crc, ch_digest = digest\<rparr>"
    using assms by (auto simp: read_header_def open_reading m v n c d split: if_splits)
  have "reads_within r4 r5" "reads_within r3 r4" "reads_within r2 r3"
    using get_blob_within [of r4 64] u32_reader.within [of r3] u64_reader.within [of r2] by (simp_all add: n c d)
  then have "rd_ok r4" "rd_ok r3" "rd_ok r2" using ok(3) by (auto simp: reads_within_def)
  note oks = this
  obtain c1 where c1: "bs = put_blob magic @ c1" "r1 = reading ([] @ put_blob magic) c1" by (rule blob_written [OF m ok(1)])
  obtain c2 where c2: "c1 = put_u32 version @ c2" "r2 = reading (([] @ put_blob magic) @ put_u32 version) c2"
    by (rule u32_fixed.written [OF v [unfolded c1(2)] oks(3)])
  obtain c3 where c3: "c2 = put_u64 declared @ c3" "r3 = reading ((([] @ put_blob magic) @ put_u32 version) @ put_u64 declared) c3"
    by (rule u64_fixed.written [OF n [unfolded c2(2)] oks(2)])
  obtain c4 where c4: "c3 = put_u32 crc @ c4" "r4 = reading (((([] @ put_blob magic) @ put_u32 version) @ put_u64 declared) @ put_u32 crc) c4"
    by (rule u32_fixed.written [OF c [unfolded c3(2)] oks(1)])
  obtain c5 where "c4 = put_blob digest @ c5" "length digest \<le> 64"
    by (rule blob_written [OF d [unfolded c4(2)] ok(3)])
  with c1(1) c2(1) c3(1) c4(1) show thesis using that [of c5] by (simp add: header_bytes_def h ok(2))
qed

lemma length_header: "length (ch_digest h) = 32 \<Longrightarrow> length (header_bytes h) = kPersistenceHeaderBytes"
  by (simp add: header_bytes_def kStateMagic_def kPersistenceHeaderBytes_def)

lemma read_header_encoded:
  assumes "length (ch_digest h) = 32"
  shows "read_header (header_bytes h @ payload) = Inr h"
proof -
  have "\<not> length (header_bytes h @ payload) < kPersistenceHeaderBytes" using length_header [OF assms] by simp
  then show ?thesis
    using assms by (simp add: read_header_def open_reading header_bytes_def wire_simps kStateMagic_def)
qed

definition header_of :: "bytes \<Rightarrow> container_header" where
  "header_of payload = \<lparr>ch_version = kPersistenceFormatVersion, ch_payload_bytes = of_nat (length payload),
     ch_crc = crc32 payload, ch_digest = sha256_raw payload\<rparr>"

lemma encode_container_header: "encode_container payload = header_bytes (header_of payload) @ payload"
  by (simp add: encode_container_def header_bytes_def header_of_def)

lemma load_encoded:
  assumes "length p \<le> max_persistence_bytes lim" "length p < 2 ^ 64"
  shows "load_container lim (encode_container p) = Inr p"
proof -
  have len: "length (ch_digest (header_of p)) = 32" by (simp add: header_of_def length_sha256_raw)
  have "unat (of_nat (length p) :: u64) = length p" using assms(2) by (simp add: unat_of_nat)
  then show ?thesis
    using assms(1) length_header [OF len] by (simp add: load_container_def encode_container_header read_header_encoded [OF len] check_container_def)
      (simp add: header_of_def)
qed

lemma loaded_written:
  assumes load: "load_container lim bs = Inr p"
  shows "bs = encode_container p \<and> length p \<le> max_persistence_bytes lim \<and> length p < 2 ^ 64"
proof -
  obtain h where h: "read_header bs = Inr h" using load by (auto simp: load_container_def split: sum.splits)
  with load have p: "p = drop kPersistenceHeaderBytes bs"
    and ok: "check_container lim (u64_string (ch_payload_bytes h)) h p = None"
    by (auto simp: load_container_def Let_def split: option.splits)
  obtain rest where rest: "bs = header_bytes h @ rest" by (rule read_header_written [OF h])
  have checks: "ch_version h = kPersistenceFormatVersion" "unat (ch_payload_bytes h) = length p" "length p \<le> max_persistence_bytes lim"
    "ch_crc h = crc32 p" "ch_digest h = sha256_raw p"
    using ok by (auto simp: check_container_def split: if_splits)
  have small: "length p < 2 ^ 64" using checks(2) unat_u64_less [of "ch_payload_bytes h"] by simp
  have "of_nat (length p) = ch_payload_bytes h" using checks(2) [symmetric] by simp
  then have "h = header_of p" using checks by (simp add: header_of_def)
  moreover have "length (ch_digest h) = 32" by (simp add: checks(5) length_sha256_raw)
  then have "rest = p" using rest p by (simp add: length_header)
  ultimately show ?thesis using rest small checks(3) by (simp add: encode_container_header)
qed

text \<open>C12: the recovery takes a payload from a file exactly if the file is byte for byte what the
  engine writes for that payload, within the size limit: a truncated, extended or altered file, a
  foreign version, or a length, checksum or digest that does not belong to the payload is refused.\<close>

theorem container_accepted_iff_written:
  "load_container lim bs = Inr p \<longleftrightarrow> bs = encode_container p \<and> length p \<le> max_persistence_bytes lim \<and> length p < 2 ^ 64"
  using loaded_written load_encoded by blast

subsection \<open>What is distrusted\<close>

definition recovered_edge :: "edge \<Rightarrow> edge" where
  "recovered_edge x =
     (if pv_publisher (ed_provenance x) = [] \<or> ed_lifecycle x \<in> {LS_Retired, LS_Superseded, LS_RevalidationRequired} then x else demote x)"

definition recovered_node :: "(string \<Rightarrow> entity_record option) option \<Rightarrow> node \<Rightarrow> node" where
  "recovered_node directory n =
     (case directory of None \<Rightarrow> n | Some look \<Rightarrow> if still_registered look n then n else revalidate_node n)"


lemma recovered_edge_idem [simp]: "recovered_edge (recovered_edge x) = recovered_edge x"
  by (auto simp: recovered_edge_def demote_def)

lemma mutated_edge:
  "find_edge (snd (mutate_edge i f g)) j = (if j = i then map_option f (find_edge g i) else find_edge g j)"
  "g_nodes (snd (mutate_edge i f g)) = g_nodes g"
  by (auto simp: mutate_edge_def Let_def find_edge_def index_edge_def unindex_edge_def lookup_simps split: option.split)

lemma mutated_node:
  "find_node (snd (mutate_node i f g)) j = (if j = i then map_option f (find_node g i) else find_node g j)"
  "g_edges (snd (mutate_node i f g)) = g_edges g"
  by (auto simp: mutate_node_def Let_def find_node_def index_node_def unindex_node_def lookup_simps split: option.split)

lemma recover_edges_find:
  "distinct is \<Longrightarrow> recover_edges is g rep = (h, rep') \<Longrightarrow>
   find_edge h j = (if j \<in> set is then map_option recovered_edge (find_edge g j) else find_edge g j) \<and> g_nodes h = g_nodes g"
proof (induction "is" g rep rule: recover_edges.induct)
  case (2 i rest g rep)
  show ?case
  proof (cases "find_edge g i")
    case (Some x)
    show ?thesis
    proof (cases "pv_publisher (ed_provenance x) \<noteq> [] \<and>
        ed_lifecycle x \<notin> {LS_Retired, LS_Superseded, LS_RevalidationRequired}")
      case True
      moreover from this have "recovered_edge x = demote x" by (auto simp: recovered_edge_def)
      ultimately show ?thesis using 2 Some by (auto simp: mutated_edge)
    next
      case False
      then have "recovered_edge x = x" and "pv_publisher (ed_provenance x) = [] \<or> ed_lifecycle x \<in> {LS_Retired, LS_Superseded, LS_RevalidationRequired}"
        by (auto simp: recovered_edge_def)
      with 2 Some show ?thesis by (auto split: if_splits)
    qed
  qed (use 2 in auto)
qed auto

lemma recover_nodes_find:
  "distinct is \<Longrightarrow> recover_nodes directory is g rep = (h, rep') \<Longrightarrow>
   find_node h j = (if j \<in> set is then map_option (recovered_node directory) (find_node g j) else find_node g j) \<and> g_edges h = g_edges g"
proof (induction directory "is" g rep rule: recover_nodes.induct)
  case (2 directory i rest g rep)
  show ?case
  proof (cases "find_node g i")
    case (Some n)
    show ?thesis
    proof (cases directory)
      case None
      with 2 Some show ?thesis by (auto simp: recovered_node_def)
    next
      case (Some look)
      with 2 \<open>find_node g i = Some n\<close> show ?thesis
        by (cases "still_registered look n") (auto simp: mutated_node recovered_node_def)
    qed
  qed (use 2 in auto)
qed auto

subsection \<open>What was decoded is finite\<close>




definition finite_graph :: "graph \<Rightarrow> bool" where
  "finite_graph g \<longleftrightarrow> finite (Mapping.keys (g_nodes g)) \<and> finite (Mapping.keys (g_edges g))"




lemma recover_effect:
  assumes fin: "finite_graph (ls_graph st)" and run: "recover initial st rep e = (rep', e')"
  shows "find_edge (en_graph e') i = map_option recovered_edge (find_edge (ls_graph st) i)"
    and "find_node (en_graph e') i = map_option (recovered_node (en_directory e)) (find_node (ls_graph st) i)"
    and "lr_loaded rep'" "lr_epoch rep' = en_epoch e'" "outcome_of (lr_status rep') = O_Committed"
    and "e' = e\<lparr>en_publishers := Mapping.empty, en_attempts := empty_ledger,
      en_fenced_boots := {b \<in> set (ls_boots st). is_valid_identifier b kMaxIdentifierBytes},
      en_graph := en_graph e', en_epoch := recovery_epoch initial (ls_epoch st), en_snapshots := []\<rparr>"
proof -
  let ?g = "ls_graph st"
  obtain g rep1 where x: "recover_edges (Mapping.ordered_keys (g_edges ?g)) ?g rep = (g, rep1)"
    by (cases "recover_edges (Mapping.ordered_keys (g_edges ?g)) ?g rep")
  obtain h rep2 where n: "recover_nodes (en_directory e) (Mapping.ordered_keys (g_nodes g)) g rep1 = (h, rep2)"
    by (cases "recover_nodes (en_directory e) (Mapping.ordered_keys (g_nodes g)) g rep1")
  have h: "en_graph e' = h" using run by (auto simp: recover_def x n Let_def)
  note fx = recover_edges_find [OF distinct_ordered_keys x] and fn = recover_nodes_find [OF distinct_ordered_keys n]
  have finite: "finite (Mapping.keys (g_edges ?g))" "finite (Mapping.keys (g_nodes g))"
    using fin fx by (simp_all add: finite_graph_def)
  show "find_edge (en_graph e') i = map_option recovered_edge (find_edge ?g i)"
    using fx [of i] fn finite(1) by (auto simp: h mem_keys_iff find_edge_def)
  show "find_node (en_graph e') i = map_option (recovered_node (en_directory e)) (find_node ?g i)"
    using fx fn [of i] finite(2) by (auto simp: h mem_keys_iff find_node_def)
  show "lr_loaded rep'" "lr_epoch rep' = en_epoch e'" "outcome_of (lr_status rep') = O_Committed"
    "e' = e\<lparr>en_publishers := Mapping.empty, en_attempts := empty_ledger,
      en_fenced_boots := {b \<in> set (ls_boots st). is_valid_identifier b kMaxIdentifierBytes},
      en_graph := en_graph e', en_epoch := recovery_epoch initial (ls_epoch st), en_snapshots := []\<rparr>"
    using run by (auto simp: recover_def x n Let_def)
qed

subsection \<open>Indexes and frame\<close>

lemma recover_edges_inv:
  "graph_inv g \<Longrightarrow> graph_inv (fst (recover_edges is g rep)) \<and> base_frame (fst (recover_edges is g rep)) = base_frame g"
proof (induction "is" g rep rule: recover_edges.induct)
  case (2 i rest g rep)
  show ?case
  proof (cases "find_edge g i")
    case (Some x)
    have inv: "graph_inv (snd (update_edge (demote x) g))"
      using Some graph_inv_ids [OF "2.prems" Some] same_identity_demote [of x]
      by (intro update_edge_same_identity_inv [OF "2.prems"]) (auto simp: demote_def)
    show ?thesis using 2 Some inv by (simp add: mutate_demote [OF "2.prems" Some] frame_simps)
  qed (use 2 in simp)
qed simp

lemma revalidate_node_inv:
  assumes inv: "graph_inv g" and old: "find_node g i = Some n"
  shows "graph_inv (snd (mutate_node i revalidate_node g)) \<and> base_frame (snd (mutate_node i revalidate_node g)) = base_frame g"
proof -
  have ids: "nd_id (revalidate_node n) = i" "nd_id n = i" "nd_entity_id (revalidate_node n) = nd_entity_id n"
    using graph_inv_node_ids [OF inv old] by (simp_all add: revalidate_node_def)
  have "find_node_by_entity g (nd_entity_id n) = Some i" using node_entity_indexed [OF inv old] by simp
  with update_node_inv [OF inv, of "revalidate_node n" n] old ids
  show ?thesis by (simp add: mutate_node_as_update [OF old] frame_simps frame_of_node_ops)
qed

lemma recover_nodes_inv:
  "graph_inv g \<Longrightarrow> graph_inv (fst (recover_nodes directory is g rep)) \<and> base_frame (fst (recover_nodes directory is g rep)) = base_frame g"
proof (induction directory "is" g rep rule: recover_nodes.induct)
  case (2 directory i rest g rep)
  then show ?case using revalidate_node_inv [OF "2.prems"] by (auto split: option.splits)
qed simp

lemma recover_inv:
  assumes "graph_inv (ls_graph st)" "recover initial st rep e = (rep', e')"
  shows "graph_inv (en_graph e') \<and> base_frame (en_graph e') = base_frame (ls_graph st)"
proof -
  let ?g = "ls_graph st"
  obtain g rep1 where x: "recover_edges (Mapping.ordered_keys (g_edges ?g)) ?g rep = (g, rep1)"
    by (cases "recover_edges (Mapping.ordered_keys (g_edges ?g)) ?g rep")
  obtain h rep2 where n: "recover_nodes (en_directory e) (Mapping.ordered_keys (g_nodes g)) g rep1 = (h, rep2)"
    by (cases "recover_nodes (en_directory e) (Mapping.ordered_keys (g_nodes g)) g rep1")
  have "graph_inv g \<and> base_frame g = base_frame ?g" using recover_edges_inv [OF assms(1)] x by (metis fst_conv)
  moreover from this have "graph_inv h \<and> base_frame h = base_frame g" using recover_nodes_inv n by (metis fst_conv)
  moreover have "en_graph e' = h" using assms(2) by (auto simp: recover_def x n Let_def)
  ultimately show ?thesis by simp
qed





subsection \<open>Saved, then loaded\<close>

lemma validate_stored: "vr_valid (validate_graph (stored_form lim g) directory scope_all) = vr_valid (validate_graph g directory scope_all)"
  by (simp add: validate_graph_def stored_form_def sorted_nodes_def sorted_edges_def Let_def)

lemma stored_form_inv: "graph_inv g \<Longrightarrow> graph_inv (stored_form lim g)"
  by (simp add: graph_inv_def indexes_ok_def stored_form_def)

lemma stored_form_find [simp]:
  "find_node (stored_form lim g) i = find_node g i" "find_edge (stored_form lim g) i = find_edge g i"
  by (simp_all add: stored_form_def find_defs)

text \<open>An engine whose state fits the decoder of an engine with the limits \<open>lim\<close>.\<close>

definition image_loadable :: "limits \<Rightarrow> engine \<Rightarrow> bool" where
  "image_loadable lim e \<longleftrightarrow>
     (let boots = sorted_list_of_set (en_fenced_boots e); payload = encode_state_payload (en_graph e) (en_epoch e) boots in
      graph_inv (en_graph e) \<and> finite (en_fenced_boots e) \<and> limits_fit lim \<and> image_fits lim (en_graph e) boots \<and>
      counts_fit lim (en_graph e) boots \<and> length payload \<le> max_persistence_bytes lim \<and> length payload < 2 ^ 64)"

lemma load_saved:
  assumes "image_loadable (en_limits e') e"
  shows "load_from initial path (Some (Contents (save_image e))) e' =
    (let st = \<lparr>ls_graph = stored_form (en_limits e') (en_graph e), ls_epoch = en_epoch e, ls_boots = sorted_list_of_set (en_fenced_boots e)\<rparr>;
         rep = empty_report\<lparr>lr_nodes := map_size (g_nodes (en_graph e)), lr_edges := map_size (g_edges (en_graph e))\<rparr>;
         validation = validate_graph (stored_form (en_limits e') (en_graph e)) (en_directory e') scope_all in
     if \<not> vr_valid validation
     then (rep\<lparr>lr_status := explain O_PersistenceCorruption ''state.invariant_violation''
             ([(''issues'', decimal (length (vr_issues validation)))] @
              (if vr_issues validation = [] then [] else [(''first_issue'', vi_code (hd (vr_issues validation)))]))\<rparr>, e')
     else recover initial st rep e')"
proof -
  have "decode_state_payload (en_limits e') (encode_state_payload (en_graph e) (en_epoch e) (sorted_list_of_set (en_fenced_boots e))) =
      Inr \<lparr>ls_graph = stored_form (en_limits e') (en_graph e), ls_epoch = en_epoch e,
        ls_boots = sort (sorted_list_of_set (en_fenced_boots e))\<rparr>"
    using assms by (intro decode_encoded_state) (simp_all add: image_loadable_def Let_def)
  moreover have "sort (sorted_list_of_set (en_fenced_boots e)) = sorted_list_of_set (en_fenced_boots e)"
    by (rule sorted_sort_id) simp
  ultimately show ?thesis
    using assms by (simp add: load_from_def read_file_def load_image_def save_image_def load_encoded image_loadable_def Let_def
        stored_form_def)
qed

text \<open>C10: what an engine saves a fresh engine recovers: if the state fits the decoder and is valid
  against the registry, loading the image completes; every node and relationship comes back under
  its identity, distrusted as recovery demands and otherwise unchanged, every index is consistent,
  the generation, the snapshot counter and the domains are those that were saved, the rules are
  the saved ones in order, a boot that was fenced stays fenced, and the epoch is later.\<close>

theorem saved_state_recovered:
  assumes "image_loadable (en_limits e') e" and "vr_valid (validate_graph (en_graph e) (en_directory e') scope_all)"
    and "load_from initial path (Some (Contents (save_image e))) e' = (rep, e'')"
  shows "lr_loaded rep \<and> outcome_of (lr_status rep) = O_Committed \<and> graph_inv (en_graph e'') \<and>
    (\<forall>i. find_node (en_graph e'') i = map_option (recovered_node (en_directory e')) (find_node (en_graph e) i)) \<and>
    (\<forall>i. find_edge (en_graph e'') i = map_option recovered_edge (find_edge (en_graph e) i)) \<and>
    en_generation e'' = en_generation e \<and> g_snapshot_counter (en_graph e'') = g_snapshot_counter (en_graph e) \<and>
    g_domain_definitions (en_graph e'') = g_domain_definitions (en_graph e) \<and>
    g_cross_domain_rules (en_graph e'') = sort_key rule_key (g_cross_domain_rules (en_graph e)) \<and>
    en_fenced_boots e'' = {b \<in> en_fenced_boots e. is_valid_identifier b kMaxIdentifierBytes} \<and>
    en_epoch e'' = recovery_epoch initial (en_epoch e)"
proof -
  let ?st = "\<lparr>ls_graph = stored_form (en_limits e') (en_graph e), ls_epoch = en_epoch e, ls_boots = sorted_list_of_set (en_fenced_boots e)\<rparr>"
  have inv: "graph_inv (en_graph e)" "finite (en_fenced_boots e)" using assms(1) by (simp_all add: image_loadable_def Let_def)
  obtain rep0 where run: "recover initial ?st rep0 e' = (rep, e'')"
    using assms(2,3) by (auto simp: load_saved [OF assms(1)] validate_stored Let_def)
  have fin: "finite_graph (ls_graph ?st)" using inv(1) by (simp add: finite_graph_def stored_form_def graph_inv_def)
  note effect = recover_effect [OF fin run]
  have "graph_inv (ls_graph ?st)" using stored_form_inv [OF inv(1)] by simp
  from recover_inv [OF this run] have graph: "graph_inv (en_graph e'')" "base_frame (en_graph e'') = base_frame (ls_graph ?st)" by blast+
  have fields: "en_fenced_boots e'' = {b \<in> en_fenced_boots e. is_valid_identifier b kMaxIdentifierBytes}"
    "en_epoch e'' = recovery_epoch initial (en_epoch e)"
    using arg_cong [OF effect(6), of en_fenced_boots] arg_cong [OF effect(6), of en_epoch] inv(2) by simp_all
  show ?thesis
    using effect(1-3,5) graph fields by (simp add: base_frame_def stored_form_def find_defs en_generation_def)
qed

text \<open>an image is refused as corrupt, and the engine left as it was, when the registry has moved
  on since it was saved: if one stored node is bound to an identity that is now unknown, retired
  or superseded, or is current at a generation the registry has replaced. The demotion of such
  nodes that follows the validation is never reached for them.\<close>

theorem recovery_refuses_moved_registry:
  assumes "image_loadable (en_limits e') e" and "en_directory e' = Some look" and "find_node (en_graph e) i = Some n"
    and "\<not> still_registered look n" and "nd_lifecycle n = LS_Current \<or>
      (\<forall>rec. look (nd_entity_id n) = Some rec \<longrightarrow> er_retired rec \<or> er_superseded rec)"
    and "load_from initial path (Some (Contents (save_image e))) e' = (rep, e'')"
  shows "e'' = e' \<and> \<not> lr_loaded rep \<and> outcome_of (lr_status rep) = O_PersistenceCorruption \<and>
    code_of (lr_status rep) = ''state.invariant_violation''"
proof -
  have inv: "graph_inv (en_graph e)" using assms(1) by (simp add: image_loadable_def Let_def)
  have "\<not> node_sound (Some look) n" using assms(4,5) by (auto simp: node_sound_def still_registered_def split: option.splits)
  then have "\<not> vr_valid (validate_graph (stored_form (en_limits e') (en_graph e)) (en_directory e') scope_all)"
    using report_validD(1) [OF inv _ assms(3)] by (auto simp: validate_stored assms(2))
  with assms(6) show ?thesis by (auto simp: load_saved [OF assms(1)] Let_def empty_report_def)
qed

lemma demo_listing:
  "sorted_nodes demo_graph scope_all = [demo_node ''nic'' NC_Nic, demo_node ''s1'' NC_Switch, demo_node ''s2'' NC_Switch]"
  "sorted_edges demo_graph scope_all = []" "sorted_values (g_domain_definitions demo_graph) = [sample_domain]"
proof -
  have inv: "graph_inv demo_graph" using demo_graph_ok by (simp add: graph_ok_def)
  let ?ids = "[''nic'', ''s1'', ''s2'']"
  have keys: "Mapping.keys (g_nodes demo_graph) = set ?ids" by (auto simp: demo_graph_base)
  have "sorted_list_of_set (set ?ids) = ?ids" by (rule sorted_list_of_set.idem_if_sorted_distinct) simp_all
  then have "sorted_values (g_nodes demo_graph) = map (\<lambda>i. the (find_node demo_graph i)) ?ids"
    unfolding sorted_values_def Mapping.ordered_keys_def keys find_node_def by simp
  then show "sorted_nodes demo_graph scope_all = [demo_node ''nic'' NC_Nic, demo_node ''s1'' NC_Switch, demo_node ''s2'' NC_Switch]"
    by (simp add: sorted_nodes_eq [OF inv] demo_graph_find node_in_scope_def scope_all_def)
  have "set (sorted_edges demo_graph scope_all) = {}" by (simp add: all_listed(2) [OF inv] demo_graph_find)
  then show "sorted_edges demo_graph scope_all = []" by simp
  show "sorted_values (g_domain_definitions demo_graph) = [sample_domain]"
    by (simp add: sorted_values_def demo_graph_base Mapping.ordered_keys_def lookup_simps)
qed

lemma demo_loadable: "image_loadable default_limits demo_engine"
proof -
  have inv: "graph_inv demo_graph" using demo_graph_ok by (simp add: graph_ok_def)
  have ids: "is_valid_identifier ''nic'' 255" "is_valid_identifier ''s1'' 255" "is_valid_identifier ''s2'' 255"
    "is_valid_identifier ''ent-nic'' 255" "is_valid_identifier ''ent-s1'' 255" "is_valid_identifier ''ent-s2'' 255"
    "is_valid_identifier ''d'' 255" by code_simp+
  have node: "node_fits default_limits (demo_node i c)" if "i = ''nic'' \<or> i = ''s1'' \<or> i = ''s2''" for i c
    using that ids by (auto simp: node_fits_def demo_node_def id_fits_def kMaxIdentifierBytes_def short_text_def provenance_fits_def
        sample_provenance_def metadata_wf_def metadata_ok_def default_limits_def)
  have "domain_fits default_limits sample_domain"
    using ids by (simp add: domain_fits_def sample_domain_def id_fits_def kMaxIdentifierBytes_def)
  then have fits: "image_fits default_limits demo_graph []"
    unfolding image_fits_def by (simp add: demo_graph_find demo_graph_base lookup_simps node)
      (simp add: demo_node_def sample_domain_def)
  have lim: "limits_fit default_limits" "counts_fit default_limits demo_graph []"
    using demo_listing(3) by (simp_all add: limits_fit_def counts_fit_def default_limits_def demo_listing demo_graph_base(5))
  have "length (encode_state_payload demo_graph 1 []) \<le> 2000"
    by (simp add: encode_state_payload_def demo_listing demo_graph_base(3,5) encode_list_def encode_node_def encode_domain_def
        encode_provenance_def encode_metadata_def demo_node_def sample_provenance_def sample_domain_def kStateTag_def)
  with inv fits lim show ?thesis by (simp add: image_loadable_def default_limits_def)
qed

lemma demo_state_valid: "vr_valid (validate_graph demo_graph None scope_all)"
  using demo_graph_ok by (simp add: report_valid graph_ok_def demo_listing node_sound_def) (simp add: demo_node_def)

definition demo_fresh :: engine where
  "demo_fresh = (new_engine sample_options)\<lparr>en_publishers := Mapping.update ''p'' sample_publisher Mapping.empty\<rparr>"

lemma demo_fresh_fields [simp]: "en_limits demo_fresh = default_limits" "en_directory demo_fresh = None"
  by (simp_all add: demo_fresh_def new_engine_def sample_options_def)



theorem saved_state_recovered_witness:
  "let r = load_from 5 ''x'' (Some (Contents (save_image demo_engine))) demo_fresh in
   lr_loaded (fst r) \<and> en_epoch (snd r) = 5 \<and> find_node (en_graph (snd r)) ''s1'' = Some (demo_node ''s1'' NC_Switch)"
proof -
  let ?r = "load_from 5 ''x'' (Some (Contents (save_image demo_engine))) demo_fresh"
  show ?thesis
    using saved_state_recovered [of demo_fresh demo_engine 5 "''x''" "fst ?r" "snd ?r"] demo_loadable demo_state_valid
    by (simp add: Let_def recovery_epoch_def recovered_node_def demo_graph_find advance_if_possible_def can_advance_def next_counter_def)
qed

theorem recovery_refuses_moved_registry_witness:
  "\<not> lr_loaded (fst (load_from 1 ''x'' (Some (Contents (save_image demo_engine))) demo_engine))"
proof -
  let ?r = "load_from 1 ''x'' (Some (Contents (save_image demo_engine))) demo_engine"
  have "en_directory demo_engine = Some demo_directory" by (simp add: demo_engine_def new_engine_def)
  then show ?thesis
    using recovery_refuses_moved_registry [of demo_engine demo_engine demo_directory "''s1''" "demo_node ''s1'' NC_Switch" 1 "''x''" "fst ?r" "snd ?r"]
      demo_loadable
    by (simp add: demo_graph_find still_registered_def demo_node_def demo_directory_def demo_record_def sample_record_def)
qed

end
