(* ===== verification/Runs.thy ===== *)
theory Runs
  imports Forward Recovery
begin

text \<open>
  The engine over time: publications, snapshots and loads added to the operations of \<open>Machine\<close>, the
  states that can be reached, and what holds in all of them and along every run. \<open>engine_step\<close> is every
  way the engine changes but a load. \<open>guarded_step\<close> leaves out the two requests that can break the
  invariant of the graph because the code does not check them: a move whose new identifiers are
  taken or that crosses domains (\<open>safe_move\<close> fails), and a publication with a relationship identifier
  that is already that of a stored relationship of another key (\<open>relationships_agree\<close> fails).
\<close>

subsection \<open>Steps\<close>

inductive guarded_step :: "engine \<Rightarrow> engine \<Rightarrow> bool" where
  operation: "operation_step e e' \<Longrightarrow> guarded_step e e'"
| publication: "relationships_agree (en_graph e) p \<Longrightarrow> publish io au p e = (r, e') \<Longrightarrow> guarded_step e e'"
| snapshot_recorded: "record_snapshot s e = (t, e') \<Longrightarrow> guarded_step e e'"
| registry_changes: "guarded_step e (e\<lparr>en_directory := directory\<rparr>)"

inductive engine_step :: "engine \<Rightarrow> engine \<Rightarrow> bool" where
  guarded: "guarded_step e e' \<Longrightarrow> engine_step e e'"
| any_move: "move_attachment io au mv e = (res, e') \<Longrightarrow> engine_step e e'"
| any_publication: "publish io au p e = (r, e') \<Longrightarrow> engine_step e e'"

text \<open>Any engine may load the image that any reachable engine saves, its own among them.\<close>

inductive reachable :: "engine \<Rightarrow> bool" where
  fresh: "reachable (new_engine options)"
| step: "reachable e \<Longrightarrow> guarded_step e e' \<Longrightarrow> reachable e'"
| load: "reachable e \<Longrightarrow> reachable saver \<Longrightarrow> image_loadable (en_limits e) saver \<Longrightarrow>
    load_from initial path (Some (Contents (save_image saver))) e = (rep, e') \<Longrightarrow> reachable e'"

subsection \<open>Progress of every step\<close>

lemma snapshot_forward: "forward e (snd (record_snapshot s e))"
  by (simp add: record_snapshot_def Let_def forward_def en_generation_def)

lemma operation_progress: "operation_step e e' \<Longrightarrow> progress e e'"
proof (induction rule: operation_step.induct)
  case (define_domain_step d e s e')
  then show ?case by (cases rule: define_domain_cases) (auto simp: progress_def en_generation_def declare_domain_def touch_domain_def)
next
  case (define_rule_step c e s e')
  then show ?case by (auto simp: define_cross_domain_rule_def progress_def en_generation_def split: if_splits)
next
  case (register_step rg e s e')
  then show ?case by (auto simp: register_publisher_def progress_def en_generation_def split: if_splits option.splits)
next
  case (fence_publisher_step io p b reason e s e')
  then show ?case using fence_publisher_progress [of e io p b reason] by simp
next
  case (fence_boot_step io b reason e n e')
  then show ?case using fence_boot_progress [of e io b reason] by simp
next
  case (epoch_step io e v e')
  then show ?case using epoch_progress [of e io] by simp
next
  case (add_node_step io au an e res e')
  then show ?case using forward_progress [OF add_node_forward, of e io au an] by simp
next
  case (remove_node_step io au rn e res e')
  then show ?case using forward_progress [OF remove_node_forward, of e io au rn] by simp
next
  case (add_relationship_step io au ar e res e')
  then show ?case using forward_progress [OF add_relationship_forward, of e io au ar] by simp
next
  case (attach_step io au ae e res e')
  then show ?case using forward_progress [OF lifecycle_forward(6), of e io au ae] by simp
next
  case (evidence_step io au ue e res e')
  then show ?case using forward_progress [OF lifecycle_forward(1), of e io au ue] by simp
next
  case (revalidate_step io au rv e res e')
  then show ?case using forward_progress [OF lifecycle_forward(2), of e io au rv] by simp
next
  case (supersede_step io au su e res e')
  then show ?case using forward_progress [OF lifecycle_forward(3), of e io au su] by simp
next
  case (retire_step io au rt e res e')
  then show ?case using forward_progress [OF lifecycle_forward(4), of e io au rt] by simp
next
  case (detach_step io au de e res e')
  then show ?case using forward_progress [OF lifecycle_forward(5), of e io au de] by simp
next
  case (replace_step io au rp e res e')
  then show ?case using forward_progress [OF replace_endpoint_forward, of e io au rp] by simp
next
  case (move_step e mv io au res e')
  then show ?case using forward_progress [OF move_forward, of e io au mv] by simp
qed

lemma engine_step_progress: "engine_step e e' \<Longrightarrow> progress e e'"
proof (induction rule: engine_step.induct)
  case (guarded e e')
  then show ?case
  proof (induction rule: guarded_step.induct)
    case (publication e p io au r e')
    then show ?case using forward_progress [OF publish_forward, of e io au p] by simp
  next
    case (snapshot_recorded s e t e')
    then show ?case using forward_progress [OF snapshot_forward, of e s] by simp
  next
    case (registry_changes e directory)
    show ?case by (simp add: progress_def en_generation_def)
  qed (rule operation_progress)
next
  case (any_move io au mv e res e')
  then show ?case using forward_progress [OF move_forward, of e io au mv] by simp
next
  case (any_publication io au p e r e')
  then show ?case using forward_progress [OF publish_forward, of e io au p] by simp
qed

subsection \<open>Publications\<close>

lemma reconciled_edge_cases:
  assumes "reconciles d R g h" "find_edge h i = Some y"
  shows "(\<exists>x. find_edge g i = Some x \<and> ed_superseded_by y = ed_superseded_by x \<and> (ended x \<longrightarrow> y = x)) \<or> ed_superseded_by y = None"
  using reconcilesD(5) [OF assms] reconcilesD(3) [OF assms(1), of i] assms(2) by (auto simp: new_in_def kept_edge_def)

lemma supersession_shrinks:
  assumes ok: "supersession_ok g"
    and edges: "\<And>i y. find_edge h i = Some y \<Longrightarrow>
      (\<exists>x. find_edge g i = Some x \<and> ed_superseded_by y = ed_superseded_by x \<and> (ended x \<longrightarrow> ended y)) \<or> ed_superseded_by y = None"
  shows "supersession_ok h"
proof -
  have "supersession h \<subseteq> supersession g" using edges by (fastforce simp: supersession_def)
  then have "acyclic (supersession h)" using ok acyclic_subset by (auto simp: supersession_ok_def)
  with edges ok show ?thesis by (fastforce simp: supersession_ok_def)
qed

lemma publication_supersession:
  assumes ok: "graph_ok (en_graph e)" "supersession_ok (en_graph e)" and agree: "relationships_agree (en_graph e) p"
    and run: "publish io au p e = (r, e')"
  shows "supersession_ok (en_graph e')"
proof -
  obtain R h where r: "reconciles (pu_domain p) R (en_graph e) h" and "en_graph e' = h \<or> en_graph e' = next_graph h"
    by (rule publication_reconciles [OF graph_okD(1) [OF ok(1)] agree run])
  then have "find_edge (en_graph e') = find_edge h" by (auto simp: next_graph_def fun_eq_iff)
  with reconciled_edge_cases [OF r] show ?thesis by (intro supersession_shrinks [OF ok(2)]) fastforce
qed

subsection \<open>Loads\<close>

lemma recovered_facts:
  "same_shape x (recovered_edge x)" "ed_layer (recovered_edge x) = ed_layer x" "ed_superseded_by (recovered_edge x) = ed_superseded_by x"
  "cycle_edge_active r (recovered_edge x) = cycle_edge_active r x" "node_shape (recovered_node directory n) = node_shape n"
  by (auto simp: recovered_edge_def recovered_node_def demote_def revalidate_node_def same_shape_def ended_def cycle_edge_active_def
      node_shape_def split: option.split)

lemma recovered_ok:
  assumes ok: "graph_ok g" and inv: "graph_inv h" and frame: "base_frame h = base_frame (stored_form lim g)"
    and edges: "\<And>i. find_edge h i = map_option recovered_edge (find_edge g i)"
    and nodes: "\<And>i. find_node h i = map_option (recovered_node directory) (find_node g i)"
  shows "graph_ok h"
proof -
  have f: "g_domain_definitions h = g_domain_definitions g" "set (g_cross_domain_rules h) = set (g_cross_domain_rules g)"
    using frame by (auto simp: base_frame_def stored_form_def)
  have "depends h r = depends g r" for r
  proof -
    have ends: "ed_from (recovered_edge x) = ed_from x" "ed_to (recovered_edge x) = ed_to x" for x
      using recovered_facts(1) [of x] by (simp_all add: same_shape_def)
    show ?thesis unfolding depends_def edges by (fastforce simp: recovered_facts(4) ends)
  qed
  then have acyclic: "acyclic_relations_hold h" using graph_okD(2) [OF ok] by (simp add: acyclic_relations_hold_def)
  have fits: "edge_fits h y" if stored: "find_edge h i = Some y" for i y
  proof -
    obtain x where x: "find_edge g i = Some x" "y = recovered_edge x"
      using stored edges [of i] by auto
    let ?g = "g\<lparr>g_cross_domain_rules := g_cross_domain_rules h\<rparr>"
    have "edge_fits ?g x" using graph_okD(7) [OF ok x(1)] by (rule edge_fits_more_rules) (simp_all add: f)
    then have "edge_fits h x" by (rule edge_fits_cong) (simp_all add: find_node_def nodes [unfolded find_node_def] recovered_facts)
    moreover have "relation_layer_permitted (ed_relation y) (ed_layer y)"
      using graph_okD(7) [OF ok x(1)] recovered_facts(1) [of x] x(2) by (auto simp: edge_fits_def same_shape_def recovered_facts)
    ultimately show ?thesis using same_shape_fits recovered_facts(1) x(2) by blast
  qed
  have "nd_domain (recovered_node directory n) = nd_domain n" for n
    using recovered_facts(5) [of directory n] by (simp add: node_shape_def)
  then show ?thesis
    unfolding graph_ok_def using inv acyclic graph_okD(3-5) [OF ok] graph_okD(6,8) [OF ok, of "[]"] fits
    by (auto simp: f rules_ok_def nodes edges)
qed

lemma load_good:
  assumes e: "graph_ok (en_graph e)" "supersession_ok (en_graph e)"
    and saver: "graph_ok (en_graph saver)" "supersession_ok (en_graph saver)" and fits: "image_loadable (en_limits e) saver"
    and run: "load_from initial path (Some (Contents (save_image saver))) e = (rep, e')"
  shows "graph_ok (en_graph e') \<and> supersession_ok (en_graph e')"
proof (cases "vr_valid (validate_graph (en_graph saver) (en_directory e) scope_all)")
  case True
  let ?st = "\<lparr>ls_graph = stored_form (en_limits e) (en_graph saver), ls_epoch = en_epoch saver,
    ls_boots = sorted_list_of_set (en_fenced_boots saver)\<rparr>"
  note inv = graph_okD(1) [OF saver(1)]
  obtain rep0 where rec: "recover initial ?st rep0 e = (rep, e')"
    using True run by (auto simp: load_saved [OF fits] validate_stored Let_def)
  have st: "finite_graph (ls_graph ?st)" "graph_inv (ls_graph ?st)"
    using inv stored_form_inv [OF inv] by (simp_all add: finite_graph_def stored_form_def graph_inv_def)
  note found = recover_effect(1,2) [OF st(1) rec, simplified]
  have "graph_ok (en_graph e')"
    using recover_inv [OF st(2) rec] found by (intro recovered_ok [OF saver(1)]) simp_all
  moreover have "supersession_ok (en_graph e')"
    using found(1) recovered_facts(1) by (intro supersession_shrinks [OF saver(2)]) (auto simp: recovered_facts(3) same_shape_def)
  ultimately show ?thesis by simp
next
  case False
  then show ?thesis using e run by (auto simp: load_saved [OF fits] validate_stored Let_def)
qed

subsection \<open>Reachable states\<close>

lemma guarded_good:
  assumes "guarded_step e e'" "graph_ok (en_graph e)" "supersession_ok (en_graph e)"
  shows "graph_ok (en_graph e') \<and> supersession_ok (en_graph e')"
  using assms
proof (induction rule: guarded_step.induct)
  case (operation e e')
  then show ?case using step_good evolves_supersession by (auto simp: good_step_def)
next
  case (publication e p io au r e')
  then show ?case using publication_ok publication_supersession by blast
next
  case (snapshot_recorded s e t e')
  have same: "find_edge ((en_graph e)\<lparr>g_snapshot_counter := v\<rparr>) i = find_edge (en_graph e) i" "find_node ((en_graph e)\<lparr>g_snapshot_counter := v\<rparr>) i = find_node (en_graph e) i" for v i
    by (simp_all add: find_edge_def find_node_def)
  have "graph_ok ((en_graph e)\<lparr>g_snapshot_counter := v\<rparr>)" for v
  proof (rule ok_by_edges [OF snapshot_recorded(2)])
    show "graph_inv ((en_graph e)\<lparr>g_snapshot_counter := v\<rparr>)" using graph_okD(1) [OF snapshot_recorded(2)] by (simp add: graph_inv_def indexes_ok_def)
    show "acyclic_relations_hold ((en_graph e)\<lparr>g_snapshot_counter := v\<rparr>)"
      using graph_okD(2) [OF snapshot_recorded(2)] by (simp add: acyclic_relations_hold_def depends_def same)
  qed (use graph_okD(7,8) [OF snapshot_recorded(2)] in \<open>simp_all add: same\<close>)
  moreover have "supersession_ok ((en_graph e)\<lparr>g_snapshot_counter := v\<rparr>)" for v
    using snapshot_recorded(3) by (simp add: supersession_ok_def supersession_def same)
  ultimately show ?case using snapshot_recorded(1) by (auto simp: record_snapshot_def Let_def)
qed simp

lemma reachable_good: "reachable e \<Longrightarrow> graph_ok (en_graph e) \<and> supersession_ok (en_graph e)"
proof (induction rule: reachable.induct)
  case (fresh options)
  have "find_edge (en_graph (new_engine options)) i = None" for i by (simp add: new_engine_def find_edge_def new_graph_def)
  then show ?case
    by (simp add: supersession_ok_def supersession_def acyclic_def) (simp add: new_engine_def graph_ok_new)
next
  case (step e e')
  then show ?case using guarded_good by blast
next
  case (load e saver initial path rep e')
  then show ?case using load_good by blast
qed

text \<open>C1: in every state the engine can reach from a fresh start, the graph satisfies the whole
  invariant: indexes that a rebuild would reproduce, no cycle in an acyclic relation, every
  relationship between two stored nodes whose classes and layer its relation permits, within the
  domain of both or across two domains under a declared rule, nodes in declared domains and a
  nesting of domains without cycles. The runs are all sequences of operations, publications,
  snapshots and loads, under a directory that may change at any time, with three exclusions: a
  move whose new identifiers are taken or that leaves its domain and a publication with a
  relationship identifier of a stored relationship of another key, which the code does not check
  and which can break the invariant; and the load of a file that no reachable engine saved or that
  exceeds what the limits of the loading engine let its decoder accept.\<close>

theorem reachable_graph_ok:
  assumes "reachable e"
  shows "graph_inv (en_graph e) \<and> acyclic_relations_hold (en_graph e) \<and> nesting_ok (g_domain_definitions (en_graph e)) \<and>
    outcome_of (verify_indexes (en_graph e)) = O_Ok \<and>
    (\<forall>i n. find_node (en_graph e) i = Some n \<longrightarrow> has_key (g_domain_definitions (en_graph e)) (nd_domain n)) \<and>
    (\<forall>i x. find_edge (en_graph e) i = Some x \<longrightarrow> (\<exists>a b. find_node (en_graph e) (ed_from x) = Some a \<and>
       find_node (en_graph e) (ed_to x) = Some b \<and> ed_from x \<noteq> ed_to x \<and>
       relation_endpoints_permitted (ed_relation x) (nd_class a) (nd_class b) \<and>
       relation_layer_permitted (ed_relation x) (ed_layer x) \<and>
       (if ed_cross_domain x
        then nd_domain a \<noteq> nd_domain b \<and> {nd_domain a, nd_domain b} = {ed_domain x, ed_secondary_domain x} \<and>
          cross_domain_permitted (g_cross_domain_rules (en_graph e)) (nd_domain a) (nd_domain b) (ed_relation x)
        else nd_domain a = ed_domain x \<and> nd_domain b = ed_domain x)))"
proof -
  have ok: "graph_ok (en_graph e)" using reachable_good [OF assms] by simp
  show ?thesis
  proof (intro conjI allI impI)
    show "graph_inv (en_graph e)" "acyclic_relations_hold (en_graph e)" "nesting_ok (g_domain_definitions (en_graph e))"
      "outcome_of (verify_indexes (en_graph e)) = O_Ok"
      using graph_okD [OF ok] verify_indexes_consistent [OF graph_okD(1) [OF ok]] by simp_all
    show "has_key (g_domain_definitions (en_graph e)) (nd_domain n)" if "find_node (en_graph e) i = Some n" for i n
      by (rule graph_okD(5) [OF ok that])
    show "\<exists>a b. find_node (en_graph e) (ed_from x) = Some a \<and>
       find_node (en_graph e) (ed_to x) = Some b \<and> ed_from x \<noteq> ed_to x \<and>
       relation_endpoints_permitted (ed_relation x) (nd_class a) (nd_class b) \<and>
       relation_layer_permitted (ed_relation x) (ed_layer x) \<and>
       (if ed_cross_domain x
        then nd_domain a \<noteq> nd_domain b \<and> {nd_domain a, nd_domain b} = {ed_domain x, ed_secondary_domain x} \<and>
          cross_domain_permitted (g_cross_domain_rules (en_graph e)) (nd_domain a) (nd_domain b) (ed_relation x)
        else nd_domain a = ed_domain x \<and> nd_domain b = ed_domain x)" if "find_edge (en_graph e) i = Some x" for i x
      using graph_okD(7) [OF ok that] unfolding edge_fits_def scope_ok_def by blast
  qed
qed

text \<open>C4: in every state the engine can reach (the runs are those of the invariant of the graph: no
  move onto taken identifiers or out of its domain, no publication with the relationship
  identifier of a stored relationship of another key, no load of a file that no reachable engine
  saved or that exceeds the limits of the loading engine) the chain of replacements has no cycle,
  and only ended relationships have a replacement.\<close>

theorem supersession_acyclic:
  assumes "reachable e"
  shows "acyclic {(i, j). \<exists>x. find_edge (en_graph e) i = Some x \<and> ed_superseded_by x = Some j} \<and>
    (\<forall>i x j. find_edge (en_graph e) i = Some x \<longrightarrow> ed_superseded_by x = Some j \<longrightarrow> ended x)"
  using reachable_good [OF assms] by (auto simp: supersession_ok_def supersession_def)

text \<open>C3: no step brings an ended relationship back: a retired or superseded relationship of a well-
  formed (so of every reachable) state is after any operation or publication still retired or
  superseded under the same key, or it has been removed. Outside publications, which may remove a
  relationship and bring in another under its identifier, a live one does not change its key
  either. The steps leave out loads, which replace the whole graph by an older one, moves onto
  taken identifiers or out of a domain, and publications with the relationship identifier of a
  stored relationship of another key.\<close>

theorem ended_never_revived:
  assumes "graph_ok (en_graph e)" and "guarded_step e e'" and "find_edge (en_graph e) i = Some x"
  shows "find_edge (en_graph e') i = None \<or>
    (\<exists>y. find_edge (en_graph e') i = Some y \<and> (ended x \<longrightarrow> ended y) \<and>
       (ended x \<or> operation_step e e' \<longrightarrow> edge_key_of y = edge_key_of x))"
proof -
  have operation: "find_edge (en_graph e') i = None \<or> (\<exists>y. find_edge (en_graph e') i = Some y \<and> (ended x \<longrightarrow> ended y) \<and> edge_key_of y = edge_key_of x)"
    if "operation_step e e'"
  proof -
    have "evolves (en_graph e) (en_graph e')" using step_good [OF that assms(1)] by (simp add: good_step_def)
    then show ?thesis using assms(3) by (cases "find_edge (en_graph e') i") (fastforce simp: evolves_def split: option.splits)+
  qed
  have "find_edge (en_graph e') i = Some x" if "\<not> operation_step e e'" "ended x"
    using assms(2)
  proof cases
    case (publication p io au r)
    obtain R h where r: "reconciles (pu_domain p) R (en_graph e) h" and "en_graph e' = h \<or> en_graph e' = next_graph h"
      by (rule publication_reconciles [OF graph_okD(1) [OF assms(1)] publication])
    then have "find_edge (en_graph e') = find_edge h" by (auto simp: next_graph_def fun_eq_iff)
    with reconcilesD(3) [OF r assms(3)] that show ?thesis by simp
  next
    case (snapshot_recorded s t)
    with assms(3) show ?thesis by (auto simp: record_snapshot_def Let_def find_edge_def)
  qed (use that assms(3) in simp_all)
  with operation show ?thesis by (cases "find_edge (en_graph e') i") auto
qed

text \<open>C2: along every run of operations, moves and publications of any kind, from any state whatever
  and with any outcome of the durable writes, fences are never lifted, and neither the coordinator
  epoch nor the topology generation goes back. So a worker boot that has been fenced, and a
  request made for an epoch that has passed, are never authorised again. The one way for an engine
  to change that a run leaves out is \<open>load_from\<close>, which replaces the fences, the
  epoch and the generation by those of the image.\<close>

theorem fences_and_counters_only_advance:
  assumes "engine_step\<^sup>*\<^sup>* e e'"
  shows "en_fenced_boots e \<subseteq> en_fenced_boots e' \<and> en_epoch e \<le> en_epoch e' \<and> en_generation e \<le> en_generation e' \<and>
    (au_worker_boot au \<in> en_fenced_boots e \<or> au_coordinator_epoch au < en_epoch e \<longrightarrow> \<not> authorised e' au d m)"
proof -
  have "progress e e'"
    using assms
  proof (induction rule: rtranclp_induct)
    case base
    show ?case by (rule progress_fenced)
  next
    case (step e1 e2)
    then show ?case using engine_step_progress [OF step(2)] by (auto simp: progress_def)
  qed
  then show ?thesis by (auto simp: progress_def authorised_iff)
qed

subsection \<open>Instances\<close>

definition demo_started :: engine where "demo_started = snd (define_domain sample_domain (new_engine demo_options))"

definition demo_boot_fenced :: engine where "demo_boot_fenced = snd (fence_boot (\<lambda>_. Written) ''b'' [] demo_started)"

lemma demo_started_reachable: "reachable demo_started"
proof (rule reachable.step)
  show "reachable (new_engine demo_options)" by (rule reachable.fresh)
  show "guarded_step (new_engine demo_options) demo_started"
    unfolding demo_started_def by (metis define_domain_step guarded_step.operation prod.collapse)
qed

theorem reachable_graph_ok_witness: "acyclic_relations_hold (en_graph demo_started) \<and> outcome_of (verify_indexes (en_graph demo_started)) = O_Ok"
  using reachable_graph_ok [OF demo_started_reachable] by blast

theorem supersession_acyclic_witness:
  "acyclic {(i, j). \<exists>x. find_edge (en_graph demo_started) i = Some x \<and> ed_superseded_by x = Some j}"
  using supersession_acyclic [OF demo_started_reachable] by blast

definition demo_later :: engine where "demo_later = snd (advance_coordinator_epoch (\<lambda>_. Written) demo_boot_fenced)"

theorem fences_and_counters_only_advance_witness: "\<not> authorised demo_later demo_authority ''d'' GM_IncrementalWrite"
proof -
  have "operation_step demo_boot_fenced demo_later" unfolding demo_later_def by (metis epoch_step prod.collapse)
  then have "engine_step\<^sup>*\<^sup>* demo_boot_fenced demo_later" by (blast intro: guarded operation)
  moreover have "''b'' \<in> en_fenced_boots demo_boot_fenced"
    by (simp add: demo_boot_fenced_def fence_boot_def Let_def case_prod_beta settle_demotion_frame)
  ultimately show ?thesis
    using fences_and_counters_only_advance [where e = demo_boot_fenced and e' = demo_later and au = demo_authority and d = "''d''" and m = GM_IncrementalWrite]
    by (simp add: demo_authority_def)
qed

definition demo_superseded :: engine where
  "demo_superseded = snd (supersede_relationship (\<lambda>_. Written) demo_authority demo_supersession demo_linked)"

theorem ended_never_revived_witness:
  "find_edge (en_graph demo_superseded) ''e1'' = None \<or>
   (\<exists>y. find_edge (en_graph demo_superseded) ''e1'' = Some y \<and> edge_key_of y = edge_key_of demo_stale_edge)"
proof -
  have step: "operation_step demo_linked demo_superseded" unfolding demo_superseded_def by (metis supersede_step prod.collapse)
  then have "guarded_step demo_linked demo_superseded" by (rule guarded_step.operation)
  moreover have "find_edge (en_graph demo_linked) ''e1'' = Some demo_stale_edge" by (simp add: demo_linked_facts(2))
  ultimately show ?thesis using ended_never_revived [OF demo_linked_facts(1)] step by blast
qed

end
