(* ===== verification/Traversal.thy ===== *)
theory Traversal
  imports Relationships
begin

text \<open>
  Bounded structural traversal (\<open>src/traversal.cpp\<close>): a breadth first search over the relationships
  a request admits, cut at a depth and at a number of nodes. The loop is a partial function; that it
  returns on every graph is the first theorem, that it finds exactly the nearest nodes the second.
\<close>

subsection \<open>Requests and results\<close>

datatype traversal_kind = TK_Neighbors | TK_Ancestors | TK_Descendants | TK_ConnectedComponent
  | TK_PhysicalAttachmentChain | TK_LogicalDependencyChain

text \<open>Depths and counts are \<open>std::size_t\<close> in the code; a depth never passes the depth limit of the
  request, so they are natural numbers here.\<close>

record traversal_request =
  tq_kind :: traversal_kind
  tq_origin :: string
  tq_max_depth :: nat
  tq_max_visited :: nat
  tq_relation :: "relation_class option"
  tq_layer :: "topology_layer option"
  tq_include_non_current :: bool

record traversal_step =
  ts_node :: string
  ts_depth :: nat
  ts_via :: string
  ts_relation :: relation_class

record traversal_result =
  tr_status :: status
  tr_kind :: traversal_kind
  tr_origin :: string
  tr_steps :: "traversal_step list"
  tr_truncated :: bool

fun traversal_kind_string :: "traversal_kind \<Rightarrow> string" where
  "traversal_kind_string TK_Neighbors = ''NEIGHBORS''"
| "traversal_kind_string TK_Ancestors = ''ANCESTORS''"
| "traversal_kind_string TK_Descendants = ''DESCENDANTS''"
| "traversal_kind_string TK_ConnectedComponent = ''CONNECTED_COMPONENT''"
| "traversal_kind_string TK_PhysicalAttachmentChain = ''PHYSICAL_ATTACHMENT_CHAIN''"
| "traversal_kind_string TK_LogicalDependencyChain = ''LOGICAL_DEPENDENCY_CHAIN''"

definition traversal_kind_from_string :: "string \<Rightarrow> traversal_kind option" where
  "traversal_kind_from_string text =
     (if text = ''NEIGHBORS'' then Some TK_Neighbors
      else if text = ''ANCESTORS'' then Some TK_Ancestors
      else if text = ''DESCENDANTS'' then Some TK_Descendants
      else if text = ''CONNECTED_COMPONENT'' then Some TK_ConnectedComponent
      else if text = ''PHYSICAL_ATTACHMENT_CHAIN'' then Some TK_PhysicalAttachmentChain
      else if text = ''LOGICAL_DEPENDENCY_CHAIN'' then Some TK_LogicalDependencyChain
      else None)"

definition render_traversal :: "traversal_result \<Rightarrow> string" where
  "render_traversal t =
     ''kind='' @ traversal_kind_string (tr_kind t) @ newline @ ''origin='' @ tr_origin t @ newline @
     ''steps='' @ decimal (length (tr_steps t)) @ newline @
     ''truncated='' @ (if tr_truncated t then ''true'' else ''false'') @ newline @
     concat (map (\<lambda>s. ''depth='' @ decimal (ts_depth s) @ '' node='' @ ts_node s @ '' via='' @ ts_via s @
       '' relation='' @ relation_string (ts_relation s) @ newline) (tr_steps t))"

subsection \<open>Which relationships are followed\<close>

fun relation_in :: "traversal_kind \<Rightarrow> relation_class \<Rightarrow> bool" where
  "relation_in TK_Neighbors relation = True"
| "relation_in TK_ConnectedComponent relation = True"
| "relation_in TK_Ancestors relation = (relation \<in> {RC_Contains, RC_MemberOf, RC_HostedBy, RC_FabricMembership})"
| "relation_in TK_Descendants relation = (relation \<in> {RC_Contains, RC_MemberOf, RC_HostedBy, RC_FabricMembership})"
| "relation_in TK_PhysicalAttachmentChain relation =
     (relation \<in> {RC_AttachedTo, RC_PresentsEndpoint, RC_ConnectedTo, RC_UplinkTo, RC_DownlinkTo, RC_HostedBy})"
| "relation_in TK_LogicalDependencyChain relation = (relation \<in> {RC_BackedBy, RC_TunneledOver})"

definition either_end :: "edge \<Rightarrow> string \<Rightarrow> string option" where
  "either_end x current =
     (if ed_from x = current \<and> ed_to x \<noteq> current then Some (ed_to x)
      else if ed_to x = current \<and> ed_from x \<noteq> current then Some (ed_from x) else None)"

fun next_node :: "traversal_kind \<Rightarrow> edge \<Rightarrow> string \<Rightarrow> string option" where
  "next_node TK_Ancestors x current =
     (if ed_relation x = RC_Contains then (if ed_to x = current then Some (ed_from x) else None)
      else if ed_relation x \<in> {RC_MemberOf, RC_HostedBy, RC_FabricMembership}
      then (if ed_from x = current then Some (ed_to x) else None)
      else None)"
| "next_node TK_Descendants x current =
     (if ed_relation x = RC_Contains then (if ed_from x = current then Some (ed_to x) else None)
      else if ed_relation x \<in> {RC_MemberOf, RC_HostedBy, RC_FabricMembership}
      then (if ed_to x = current then Some (ed_from x) else None)
      else None)"
| "next_node TK_LogicalDependencyChain x current = (if ed_from x = current then Some (ed_to x) else None)"
| "next_node TK_Neighbors x current = either_end x current"
| "next_node TK_ConnectedComponent x current = either_end x current"
| "next_node TK_PhysicalAttachmentChain x current = either_end x current"

text \<open>The filters of the inner loop, each a \<open>continue\<close> of the code.\<close>

definition leads :: "traversal_request \<Rightarrow> string \<Rightarrow> edge \<Rightarrow> string option" where
  "leads r current x =
     (if ed_lifecycle x = LS_Retired \<or> ed_lifecycle x = LS_Superseded then None
      else if ed_lifecycle x \<noteq> LS_Current \<and> \<not> tq_include_non_current r then None
      else if tq_relation r \<noteq> None \<and> tq_relation r \<noteq> Some (ed_relation x) then None
      else if tq_layer r \<noteq> None \<and> tq_layer r \<noteq> Some (ed_layer x) then None
      else if \<not> relation_in (tq_kind r) (ed_relation x) then None
      else case next_node (tq_kind r) x current of
          None \<Rightarrow> None
        | Some n \<Rightarrow> if n = current then None else Some n)"

subsection \<open>The search\<close>

record travel =
  tv_visited :: "string set"
  tv_queue :: "(string \<times> nat) list"
  tv_steps :: "traversal_step list"
  tv_truncated :: bool

definition discover :: "string \<Rightarrow> nat \<Rightarrow> edge \<Rightarrow> travel \<Rightarrow> travel" where
  "discover n depth x s =
     s\<lparr>tv_visited := insert n (tv_visited s),
       tv_steps := tv_steps s @ [\<lparr>ts_node = n, ts_depth = depth + 1, ts_via = ed_id x, ts_relation = ed_relation x\<rparr>],
       tv_queue := tv_queue s @ [(n, depth + 1)]\<rparr>"

fun visit_edges :: "graph \<Rightarrow> traversal_request \<Rightarrow> nat \<Rightarrow> string \<Rightarrow> nat \<Rightarrow> string list \<Rightarrow> travel \<Rightarrow> travel" where
  "visit_edges g r max_visited current depth [] s = s"
| "visit_edges g r max_visited current depth (i # is) s =
     (case find_edge g i of
        None \<Rightarrow> visit_edges g r max_visited current depth is s
      | Some x \<Rightarrow> (case leads r current x of
          None \<Rightarrow> visit_edges g r max_visited current depth is s
        | Some n \<Rightarrow>
            if n \<in> tv_visited s then visit_edges g r max_visited current depth is s
            else if max_visited \<le> length (tv_steps s)
            then s\<lparr>tv_visited := insert n (tv_visited s), tv_truncated := True\<rparr>
            else visit_edges g r max_visited current depth is (discover n depth x s)))"

partial_function (option) traverse_loop ::
  "graph \<Rightarrow> traversal_request \<Rightarrow> nat \<Rightarrow> nat \<Rightarrow> travel \<Rightarrow> travel option" where
  "traverse_loop g r max_depth max_visited s =
     (case tv_queue s of
        [] \<Rightarrow> Some s
      | (current, depth) # rest \<Rightarrow>
          let s' = s\<lparr>tv_queue := rest\<rparr> in
          if max_depth \<le> depth then traverse_loop g r max_depth max_visited s'
          else let t = visit_edges g r max_visited current depth (sorted_bucket (g_incident g) current) s' in
            if tv_truncated t then Some t else traverse_loop g r max_depth max_visited t)"

definition depth_limit :: "limits \<Rightarrow> traversal_request \<Rightarrow> nat" where
  "depth_limit l r = (if tq_max_depth r = 0 then 1 else min (tq_max_depth r) (max_traversal_depth l))"

definition visited_limit :: "limits \<Rightarrow> traversal_request \<Rightarrow> nat" where
  "visited_limit l r = (if tq_max_visited r = 0 then 1 else min (tq_max_visited r) (max_traversal_visited l))"

definition start_travel :: "string \<Rightarrow> travel" where
  "start_travel origin = \<lparr>tv_visited = {origin}, tv_queue = [(origin, 0)], tv_steps = [], tv_truncated = False\<rparr>"

text \<open>The steps in the order of \<open>step_less\<close>; no two steps name the same node, so the order is total.\<close>

definition sort_steps :: "traversal_step list \<Rightarrow> traversal_step list" where
  "sort_steps xs = sort_key ts_depth (sort_key ts_node xs)"

definition traversal_failed :: "traversal_request \<Rightarrow> status \<Rightarrow> traversal_result" where
  "traversal_failed r s = \<lparr>tr_status = s, tr_kind = tq_kind r, tr_origin = tq_origin r, tr_steps = [], tr_truncated = False\<rparr>"

definition traversal_completed :: "limits \<Rightarrow> traversal_request \<Rightarrow> travel \<Rightarrow> traversal_result" where
  "traversal_completed l r s =
     \<lparr>tr_status = explain O_Ok ''traversal.completed''
        ([(''kind'', traversal_kind_string (tq_kind r)), (''depth_limit'', decimal (depth_limit l r)),
          (''visited_limit'', decimal (visited_limit l r))] @
         (if tv_truncated s then [(''truncated'', ''true'')] else [])),
      tr_kind = tq_kind r, tr_origin = tq_origin r, tr_steps = sort_steps (tv_steps s), tr_truncated = tv_truncated s\<rparr>"

definition traverse :: "traversal_request \<Rightarrow> engine \<Rightarrow> traversal_result option" where
  "traverse r e =
     (if tq_origin r = [] then Some (traversal_failed r (make_status O_MalformedRequest ''traversal.origin_missing''))
      else case find_node (en_graph e) (tq_origin r) of
          None \<Rightarrow> Some (traversal_failed r (explain O_NotFound ''traversal.origin_not_found'' [(''origin'', tq_origin r)]))
        | Some _ \<Rightarrow>
            map_option (traversal_completed (en_limits e) r)
              (traverse_loop (en_graph e) r (depth_limit (en_limits e) r) (visited_limit (en_limits e) r)
                 (start_travel (tq_origin r))))"

lemma traversal_kind_round_trip: "traversal_kind_from_string (traversal_kind_string k) = Some k"
  by (cases k) (simp_all add: traversal_kind_from_string_def)

subsection \<open>The loop returns\<close>

text \<open>What visiting the edges of one node adds: a list of new steps, and on truncation one more
  visited node. \<open>fresh_steps\<close> collects what holds of the new steps whatever the graph.\<close>

definition entry_of :: "traversal_step \<Rightarrow> string \<times> nat" where
  "entry_of t = (ts_node t, ts_depth t)"

definition via_edge :: "graph \<Rightarrow> traversal_request \<Rightarrow> string \<Rightarrow> string list \<Rightarrow> traversal_step \<Rightarrow> bool" where
  "via_edge g r current is t \<longleftrightarrow>
     (\<exists>i \<in> set is. \<exists>x. find_edge g i = Some x \<and> leads r current x = Some (ts_node t) \<and>
        ts_via t = ed_id x \<and> ts_relation t = ed_relation x)"

definition found_from :: "graph \<Rightarrow> traversal_request \<Rightarrow> string \<Rightarrow> string list \<Rightarrow> string set" where
  "found_from g r current is = {n. \<exists>i \<in> set is. \<exists>x. find_edge g i = Some x \<and> leads r current x = Some n}"

lemma found_from_simps:
  "found_from g r c [] = {}"
  "found_from g r c (i # is) =
     (case find_edge g i of None \<Rightarrow> {} | Some x \<Rightarrow> set_option (leads r c x)) \<union> found_from g r c is"
  by (auto simp: found_from_def split: option.splits)

lemma via_edge_Cons: "via_edge g r c is t \<Longrightarrow> via_edge g r c (i # is) t"
  by (auto simp: via_edge_def)

lemma discover_simps [simp]:
  "tv_visited (discover n d x s) = insert n (tv_visited s)" "tv_queue (discover n d x s) = tv_queue s @ [(n, d + 1)]"
  "tv_truncated (discover n d x s) = tv_truncated s"
  "tv_steps (discover n d x s) = tv_steps s @ [\<lparr>ts_node = n, ts_depth = d + 1, ts_via = ed_id x, ts_relation = ed_relation x\<rparr>]"
  by (simp_all add: discover_def)

definition adds :: "graph \<Rightarrow> traversal_request \<Rightarrow> nat \<Rightarrow> string \<Rightarrow> nat \<Rightarrow> string list \<Rightarrow> travel \<Rightarrow> travel \<Rightarrow> traversal_step list \<Rightarrow> bool" where
  "adds g r m c d is s t ns \<longleftrightarrow>
     tv_steps t = tv_steps s @ ns \<and> tv_queue t = tv_queue s @ map entry_of ns \<and>
     (\<forall>x \<in> set ns. ts_depth x = d + 1 \<and> via_edge g r c is x) \<and>
     distinct (map ts_node ns) \<and> ts_node ` set ns \<inter> tv_visited s = {} \<and> length (tv_steps s) + length ns \<le> m \<and>
     (tv_truncated t \<longrightarrow> length (tv_steps s) + length ns = m \<and>
        (\<exists>n \<in> found_from g r c is. n \<notin> tv_visited s \<and> n \<notin> ts_node ` set ns)) \<and>
     (\<not> tv_truncated t \<longrightarrow> tv_visited t = tv_visited s \<union> ts_node ` set ns \<and>
        tv_visited t = tv_visited s \<union> found_from g r c is)"

lemma adds_skip:
  assumes "adds g r m c d is s t ns" and "\<And>x n. find_edge g i = Some x \<Longrightarrow> leads r c x = Some n \<Longrightarrow> n \<in> tv_visited s"
  shows "adds g r m c d (i # is) s t ns"
proof -
  have "found_from g r c (i # is) \<union> tv_visited s = found_from g r c is \<union> tv_visited s"
    "found_from g r c is \<subseteq> found_from g r c (i # is)"
    using assms(2) by (auto simp: found_from_simps split: option.splits)
  with assms(1) show ?thesis by (auto simp: adds_def via_edge_Cons)
qed

lemma adds_new:
  assumes t: "adds g r m c d is (discover n d x s) t ns" and x: "find_edge g i = Some x" "leads r c x = Some n"
    and n: "n \<notin> tv_visited s"
  shows "adds g r m c d (i # is) s t (\<lparr>ts_node = n, ts_depth = d + 1, ts_via = ed_id x, ts_relation = ed_relation x\<rparr> # ns)"
proof -
  have "via_edge g r c (i # is) \<lparr>ts_node = n, ts_depth = d + 1, ts_via = ed_id x, ts_relation = ed_relation x\<rparr>"
    using x by (auto simp: via_edge_def)
  with t x n show ?thesis by (auto simp: adds_def found_from_simps via_edge_Cons entry_of_def)
qed

lemma visit_edges_adds:
  assumes "length (tv_steps s) \<le> m" and "\<not> tv_truncated s"
  shows "\<exists>ns. adds g r m c d ids s (visit_edges g r m c d ids s) ns"
  using assms
proof (induction ids arbitrary: s)
  case Nil
  then show ?case by (intro exI [of _ "[]"]) (simp add: adds_def found_from_simps)
next
  case (Cons i rest)
  consider (skip) "visit_edges g r m c d (i # rest) s = visit_edges g r m c d rest s"
      "\<And>x n. find_edge g i = Some x \<Longrightarrow> leads r c x = Some n \<Longrightarrow> n \<in> tv_visited s"
    | (new) x n where "find_edge g i = Some x" "leads r c x = Some n" "n \<notin> tv_visited s" "length (tv_steps s) < m"
    | (cut) x n where "find_edge g i = Some x" "leads r c x = Some n" "n \<notin> tv_visited s" "\<not> length (tv_steps s) < m"
    by (cases "find_edge g i"; cases "leads r c (the (find_edge g i))";
        cases "the (leads r c (the (find_edge g i))) \<in> tv_visited s") auto
  then show ?case
  proof cases
    case skip
    then show ?thesis using Cons.IH [OF Cons.prems] adds_skip by metis
  next
    case new
    then have "visit_edges g r m c d (i # rest) s = visit_edges g r m c d rest (discover n d x s)" by simp
    moreover obtain ns where "adds g r m c d rest (discover n d x s) (visit_edges g r m c d rest (discover n d x s)) ns"
      using Cons.IH [of "discover n d x s"] Cons.prems new by auto
    ultimately show ?thesis using adds_new [OF _ new(1-3)] by metis
  next
    case cut
    with Cons.prems show ?thesis by (intro exI [of _ "[]"]) (simp add: adds_def found_from_simps)
  qed
qed

text \<open>Every turn takes one entry off the queue, and every entry it adds is a step, of which there
  are at most as many as the request allows.\<close>

lemma traverse_loop_returns:
  assumes "length (tv_steps s) \<le> m" and "\<not> tv_truncated s"
  shows "\<exists>t. traverse_loop g r md m s = Some t \<and> length (tv_steps t) \<le> m"
  using assms
proof (induction "m - length (tv_steps s) + length (tv_queue s)" arbitrary: s rule: less_induct)
  case less
  show ?case
  proof (cases "tv_queue s")
    case Nil
    with less.prems show ?thesis by (subst traverse_loop.simps) simp
  next
    case (Cons a q)
    obtain c d where a: "a = (c, d)" by (cases a)
    let ?s = "s\<lparr>tv_queue := q\<rparr>"
    let ?t = "visit_edges g r m c d (sorted_bucket (g_incident g) c) ?s"
    have "length (tv_steps ?s) \<le> m" "\<not> tv_truncated ?s" using less.prems by simp_all
    from visit_edges_adds [OF this, of g r c d "sorted_bucket (g_incident g) c"]
    obtain ns where ns: "tv_steps ?t = tv_steps s @ ns" "tv_queue ?t = q @ map entry_of ns" "length (tv_steps s @ ns) \<le> m"
      by (auto simp: adds_def)
    have skip: "\<exists>t. traverse_loop g r md m ?s = Some t \<and> length (tv_steps t) \<le> m"
      using less.prems Cons by (intro less.hyps) simp_all
    have go: "\<exists>t. traverse_loop g r md m ?t = Some t \<and> length (tv_steps t) \<le> m" if "\<not> tv_truncated ?t"
      using ns that Cons by (intro less.hyps) simp_all
    show ?thesis
      using skip go ns Cons by (subst traverse_loop.simps) (auto simp: a Let_def)
  qed
qed

lemma visited_limit_le: "start_travel o' = s \<Longrightarrow> length (tv_steps s) \<le> m \<and> \<not> tv_truncated s"
  by (auto simp: start_travel_def)

text \<open>C26: a traversal returns on every engine, whatever its graph and its indexes are, and lists at
  most as many nodes as the request and the limits allow.\<close>

theorem traversal_returns:
  "\<exists>t. traverse r e = Some t \<and> length (tr_steps t) \<le> max 1 (min (tq_max_visited r) (max_traversal_visited (en_limits e)))"
proof -
  let ?m = "visited_limit (en_limits e) r"
  have m: "?m \<le> max 1 (min (tq_max_visited r) (max_traversal_visited (en_limits e)))"
    by (simp add: visited_limit_def)
  obtain t where "traverse_loop (en_graph e) r (depth_limit (en_limits e) r) ?m (start_travel (tq_origin r)) = Some t"
    "length (tv_steps t) \<le> ?m"
    using traverse_loop_returns visited_limit_le [OF refl] by blast
  with m show ?thesis
    by (auto simp: traverse_def traversal_failed_def traversal_completed_def sort_steps_def split: option.split)
qed

subsection \<open>Breadth first search finds the distances\<close>

definition at_distance :: "('a \<times> 'a) set \<Rightarrow> 'a \<Rightarrow> nat \<Rightarrow> 'a \<Rightarrow> bool" where
  "at_distance R a d n \<longleftrightarrow> (a, n) \<in> R ^^ d \<and> (\<forall>k < d. (a, n) \<notin> R ^^ k)"

lemma at_distance_unique: "at_distance R a d n \<Longrightarrow> at_distance R a k n \<Longrightarrow> d = k"
  by (meson at_distance_def nat_neq_iff)

lemma at_distance_zero: "at_distance R a 0 n \<longleftrightarrow> n = a"
  by (auto simp: at_distance_def)

text \<open>\<open>E\<close> lists what has been discovered, in order; \<open>Q\<close> is the part of it still queued, \<open>D\<close> the part whose
  relationships have been followed.\<close>

definition searched :: "('a \<times> 'a) set \<Rightarrow> 'a \<Rightarrow> nat \<Rightarrow> ('a \<times> nat) list \<Rightarrow> ('a \<times> nat) list \<Rightarrow> ('a \<times> nat) list \<Rightarrow> 'a set \<Rightarrow> bool" where
  "searched R a md E D Q V \<longleftrightarrow>
     E = D @ Q \<and> V = fst ` set E \<and> distinct (map fst E) \<and> sorted (map snd E) \<and> (a, 0) \<in> set E \<and>
     (\<forall>x \<in> set E. snd x \<le> md \<and> at_distance R a (snd x) (fst x)) \<and>
     (\<forall>x \<in> set D. snd x < md \<longrightarrow> R `` {fst x} \<subseteq> V) \<and> (\<forall>x \<in> set E. \<forall>y \<in> set Q. snd x \<le> snd y + 1)"

lemma searchedD:
  assumes "searched R a md E D Q V"
  shows "E = D @ Q" "V = fst ` set E" "distinct (map fst E)" "sorted (map snd E)" "(a, 0) \<in> set E"
    "x \<in> set E \<Longrightarrow> snd x \<le> md" "x \<in> set E \<Longrightarrow> at_distance R a (snd x) (fst x)"
    "x \<in> set D \<Longrightarrow> snd x < md \<Longrightarrow> R `` {fst x} \<subseteq> V" "x \<in> set E \<Longrightarrow> y \<in> set Q \<Longrightarrow> snd x \<le> snd y + 1"
  using assms unfolding searched_def by blast+

lemma searched_known:
  assumes S: "searched R a md E D Q V" and Q: "\<And>y. y \<in> set Q \<Longrightarrow> k \<le> snd y" and k: "k \<le> md"
  shows "(a, n) \<in> R ^^ j \<Longrightarrow> j \<le> k \<Longrightarrow> n \<in> V"
proof (induction j arbitrary: n)
  case 0
  then show ?case using searchedD(5) [OF S] by (auto simp: searchedD(2) [OF S] rev_image_eqI)
next
  case (Suc j)
  then obtain p where p: "(a, p) \<in> R ^^ j" "(p, n) \<in> R" by auto
  with Suc have "p \<in> V" by simp
  then obtain x where x: "x \<in> set E" "fst x = p" by (auto simp: searchedD(2) [OF S])
  then have "at_distance R a (snd x) p" using searchedD(7) [OF S] by auto
  with p(1) have "snd x \<le> j" by (meson at_distance_def not_le)
  moreover from this have "x \<notin> set Q" using Q [of x] Suc.prems by auto
  ultimately have "R `` {p} \<subseteq> V" using x k Suc.prems searchedD(8) [OF S, of x] by (auto simp: searchedD(1) [OF S])
  with p(2) show ?case by auto
qed

lemma searched_skip:
  assumes S: "searched R a md E D ((c, d) # q) V" and d: "md \<le> d"
  shows "searched R a md E (D @ [(c, d)]) q V"
  unfolding searched_def
proof (intro conjI ballI)
  show "E = (D @ [(c, d)]) @ q" by (simp add: searchedD(1) [OF S])
  show "snd x < md \<longrightarrow> R `` {fst x} \<subseteq> V" if "x \<in> set (D @ [(c, d)])" for x
    using that d searchedD(8) [OF S, of x] by auto
  show "snd x \<le> snd y + 1" if "x \<in> set E" "y \<in> set q" for x y using searchedD(9) [OF S, of x y] that by simp
qed (fact searchedD [OF S])+

lemma searched_visit:
  assumes S: "searched R a md E D ((c, d) # q) V" and d: "d < md" and ns: "distinct ns" "set ns \<inter> V = {}"
    and sub: "set ns \<subseteq> R `` {c}"
  shows "n \<in> set ns \<Longrightarrow> at_distance R a (d + 1) n"
    and "R `` {c} \<subseteq> V \<union> set ns \<Longrightarrow>
      searched R a md (E @ map (\<lambda>n. (n, d + 1)) ns) (D @ [(c, d)]) (q @ map (\<lambda>n. (n, d + 1)) ns) (V \<union> set ns)"
proof -
  let ?N = "map (\<lambda>n. (n, d + 1)) ns"
  note S' = searchedD [OF S]
  have later: "d \<le> snd y" if "y \<in> set ((c, d) # q)" for y
    using that S'(4) by (auto simp: S'(1) sorted_append)
  have early: "snd x \<le> d + 1" if "x \<in> set E" for x
    using S'(9) [OF that, of "(c, d)"] by simp
  have c: "at_distance R a d c" using S'(7) [of "(c, d)"] by (simp add: S'(1))
  have "(a, n) \<notin> R ^^ j" if "n \<in> set ns" "j \<le> d" for n j
    using searched_known [OF S later, of n j] that d ns(2) by auto
  then show dist: "n \<in> set ns \<Longrightarrow> at_distance R a (d + 1) n" for n
    using c sub by (auto simp: at_distance_def less_Suc_eq_le intro!: relcompI)
  assume all: "R `` {c} \<subseteq> V \<union> set ns"
  show "searched R a md (E @ ?N) (D @ [(c, d)]) (q @ ?N) (V \<union> set ns)"
    unfolding searched_def
  proof (intro conjI)
    show "E @ ?N = (D @ [(c, d)]) @ q @ ?N" by (simp add: S'(1))
    show "V \<union> set ns = fst ` set (E @ ?N)" by (auto simp: S'(2) image_Un image_image)
    show "distinct (map fst (E @ ?N))" using S'(3) ns by (auto simp: S'(2) comp_def)
    show "sorted (map snd (E @ ?N))" using S'(4) early by (auto simp: sorted_append comp_def map_replicate_const)
    show "(a, 0) \<in> set (E @ ?N)" using S'(5) by simp
    show "\<forall>x \<in> set (E @ ?N). snd x \<le> md \<and> at_distance R a (snd x) (fst x)" using S'(6,7) d dist by auto
    show "\<forall>x \<in> set (D @ [(c, d)]). snd x < md \<longrightarrow> R `` {fst x} \<subseteq> V \<union> set ns" using S'(8) all by fastforce
    show "\<forall>x \<in> set (E @ ?N). \<forall>y \<in> set (q @ ?N). snd x \<le> snd y + 1"
    proof (intro ballI)
      fix x y assume x: "x \<in> set (E @ ?N)" and y: "y \<in> set (q @ ?N)"
      have "snd x \<le> d + 1" using x early [of x] by auto
      moreover have "d \<le> snd y" using y later [of y] by auto
      ultimately show "snd x \<le> snd y + 1" by simp
    qed
  qed
qed

lemma searched_end:
  assumes S: "searched R a md E D [] V"
  shows "x \<in> set E \<longleftrightarrow> snd x \<le> md \<and> at_distance R a (snd x) (fst x)"
proof
  assume x: "snd x \<le> md \<and> at_distance R a (snd x) (fst x)"
  then have "fst x \<in> V" using searched_known [OF S, of md "fst x" "snd x"] by (simp add: at_distance_def)
  then obtain y where y: "y \<in> set E" "fst y = fst x" by (auto simp: searchedD(2) [OF S])
  with x searchedD(7) [OF S y(1)] have "snd y = snd x" using at_distance_unique by metis
  with y show "x \<in> set E" by (metis prod.collapse)
qed (use searchedD(6,7) [OF S] in auto)

subsection \<open>What a traversal lists\<close>

definition hops :: "graph \<Rightarrow> traversal_request \<Rightarrow> (string \<times> string) set" where
  "hops g r = {(c, n). \<exists>i x. find_edge g i = Some x \<and> leads r c x = Some n}"

lemma leads_ends:
  assumes "leads r c x = Some n"
  shows "ed_from x = c \<or> ed_to x = c" and "n = ed_from x \<or> n = ed_to x"
proof -
  have "next_node (tq_kind r) x c = Some n" using assms by (auto simp: leads_def split: if_splits option.splits)
  then show "ed_from x = c \<or> ed_to x = c" "n = ed_from x \<or> n = ed_to x"
    by (cases "tq_kind r"; auto simp: either_end_def split: if_splits)+
qed

lemma found_from_hops: "graph_inv g \<Longrightarrow> found_from g r c (sorted_bucket (g_incident g) c) = hops g r `` {c}"
  using leads_ends(1) by (fastforce simp: found_from_def hops_def set_incident)

lemma finite_hops:
  assumes "graph_inv g"
  shows "finite (Range (hops g r))"
proof (rule finite_subset)
  let ?E = "{x. \<exists>i. find_edge g i = Some x}"
  have "?E \<subseteq> (\<lambda>i. the (find_edge g i)) ` Mapping.keys (g_edges g)"
    by (force simp: find_edge_def keys_dom_lookup)
  moreover have "finite (Mapping.keys (g_edges g))" using assms by (simp add: graph_inv_def)
  ultimately have "finite ?E" using finite_subset finite_imageI by metis
  then show "finite (ed_from ` ?E \<union> ed_to ` ?E)" by simp
  show "Range (hops g r) \<subseteq> ed_from ` ?E \<union> ed_to ` ?E" using leads_ends(2) by (fastforce simp: hops_def)
qed

text \<open>The step was found over a stored relationship from a node one hop nearer to the origin.\<close>

definition via_nearer :: "graph \<Rightarrow> traversal_request \<Rightarrow> string \<Rightarrow> traversal_step \<Rightarrow> bool" where
  "via_nearer g r a t \<longleftrightarrow> (\<exists>p x k. find_edge g (ts_via t) = Some x \<and> ed_relation x = ts_relation t \<and>
     leads r p x = Some (ts_node t) \<and> ts_depth t = k + 1 \<and> at_distance (hops g r) a k p)"

definition within :: "graph \<Rightarrow> traversal_request \<Rightarrow> string \<Rightarrow> nat \<Rightarrow> (string \<times> nat) set" where
  "within g r a md = {(n, d). 0 < d \<and> d \<le> md \<and> at_distance (hops g r) a d n}"

definition nearest :: "graph \<Rightarrow> traversal_request \<Rightarrow> string \<Rightarrow> nat \<Rightarrow> nat \<Rightarrow> traversal_step list \<Rightarrow> bool \<Rightarrow> bool" where
  "nearest g r a md m xs short \<longleftrightarrow>
     distinct (map ts_node xs) \<and> (\<forall>t \<in> set xs. via_nearer g r a t) \<and> length xs \<le> m \<and>
     entry_of ` set xs \<subseteq> within g r a md \<and>
     (if short then length xs = m \<and> entry_of ` set xs \<noteq> within g r a md \<and>
        (\<forall>t \<in> set xs. \<forall>y \<in> within g r a md - entry_of ` set xs. ts_depth t \<le> snd y)
      else entry_of ` set xs = within g r a md)"

abbreviation found :: "string \<Rightarrow> traversal_step list \<Rightarrow> (string \<times> nat) list" where
  "found a xs \<equiv> (a, 0) # map entry_of xs"

lemma found_within:
  assumes "searched (hops g r) a md (found a xs) D Q V"
  shows "entry_of ` set xs \<subseteq> within g r a md" and "distinct (map ts_node xs)"
    and "Q = [] \<Longrightarrow> entry_of ` set xs = within g r a md"
proof -
  note S = searchedD [OF assms]
  show "distinct (map ts_node xs)" using S(3) by (simp add: comp_def entry_of_def)
  have "0 < ts_depth t" if "t \<in> set xs" for t
  proof (rule ccontr)
    assume "\<not> 0 < ts_depth t"
    with S(7) [of "entry_of t"] that have "ts_node t = a" by (simp add: entry_of_def at_distance_zero)
    with S(3) that show False by (auto simp: comp_def entry_of_def image_iff)
  qed
  moreover have "entry_of t \<in> set (found a xs)" if "t \<in> set xs" for t using that by simp
  ultimately have "entry_of t \<in> within g r a md" if "t \<in> set xs" for t
    using that S(6,7) [of "entry_of t"] by (simp add: within_def entry_of_def)
  then show sub: "entry_of ` set xs \<subseteq> within g r a md" by auto
  assume "Q = []"
  then have "searched (hops g r) a md (found a xs) D [] V" using assms by simp
  from searched_end [OF this] have "x \<in> set (found a xs)" if "x \<in> within g r a md" for x
    using that by (auto simp: within_def)
  then have "within g r a md \<subseteq> entry_of ` set xs" by (fastforce simp: within_def)
  with sub show "entry_of ` set xs = within g r a md" by auto
qed

lemma cut_nearest:
  assumes S: "searched (hops g r) a md (found a xs) D ((c, d) # q) V" and d: "d < md"
    and fresh: "distinct (map ts_node ns)" "set (map ts_node ns) \<inter> V = {}" and sub: "set (map ts_node ns) \<subseteq> hops g r `` {c}"
    and depth: "\<And>t. t \<in> set ns \<Longrightarrow> ts_depth t = d + 1" and via: "\<And>t. t \<in> set (xs @ ns) \<Longrightarrow> via_nearer g r a t"
    and len: "length (xs @ ns) = m" and n: "n \<in> hops g r `` {c}" "n \<notin> V" "n \<notin> ts_node ` set ns"
  shows "nearest g r a md m (xs @ ns) True"
proof -
  note F = found_within [OF S] and S' = searchedD [OF S]
  have V: "ts_node ` set xs \<subseteq> V" by (auto simp: S'(2) entry_of_def image_iff)
  have "entry_of ` set ns \<subseteq> within g r a md"
    using searched_visit(1) [OF S d fresh sub] d depth by (auto simp: within_def entry_of_def)
  moreover have "distinct (map ts_node (xs @ ns))" using F(2) fresh V by auto
  moreover have "(n, d + 1) \<in> within g r a md"
    using searched_visit(1) [OF S d, of "[n]" n] n d by (simp add: within_def)
  moreover have "(n, d + 1) \<notin> entry_of ` set (xs @ ns)" using n V by (auto simp: entry_of_def)
  moreover have "ts_depth t \<le> snd y" if t: "t \<in> set (xs @ ns)" and y: "y \<in> within g r a md - entry_of ` set (xs @ ns)" for t y
  proof -
    have "ts_depth t \<le> d + 1"
      using t depth [of t] S'(9) [of "entry_of t" "(c, d)"] by (auto simp: entry_of_def)
    moreover have "\<not> snd y \<le> d"
    proof
      assume le: "snd y \<le> d"
      have later: "d \<le> snd z" if "z \<in> set ((c, d) # q)" for z
        using that S'(4) by (auto simp: S'(1) sorted_append)
      have dist: "at_distance (hops g r) a (snd y) (fst y)" "0 < snd y" using y by (auto simp: within_def)
      have "fst y \<in> V"
        using searched_known [OF S later, of "fst y" "snd y"] le d dist by (simp add: at_distance_def)
      then obtain z where z: "z \<in> set (found a xs)" "fst z = fst y" unfolding S'(2) by (metis imageE)
      with S'(7) [OF z(1)] dist have "z = y" using at_distance_unique by (metis prod.collapse)
      with z dist y show False by auto
    qed
    ultimately show ?thesis by simp
  qed
  ultimately show ?thesis using F(1) via len unfolding nearest_def by auto
qed

lemma traverse_loop_nearest:
  assumes inv: "graph_inv g"
  shows "searched (hops g r) a md (found a (tv_steps s)) D (tv_queue s) (tv_visited s) \<Longrightarrow>
    length (tv_steps s) \<le> m \<Longrightarrow> \<not> tv_truncated s \<Longrightarrow> \<forall>x \<in> set (tv_steps s). via_nearer g r a x \<Longrightarrow>
    traverse_loop g r md m s = Some t \<Longrightarrow> nearest g r a md m (tv_steps t) (tv_truncated t)"
proof (induction "m - length (tv_steps s) + length (tv_queue s)" arbitrary: s D rule: less_induct)
  case less
  show ?case
  proof (cases "tv_queue s")
    case Nil
    with less.prems(5) have "t = s" by (subst (asm) traverse_loop.simps) simp
    with less.prems Nil found_within [OF less.prems(1)] show ?thesis by (simp add: nearest_def)
  next
    case (Cons y q)
    obtain c d where y: "y = (c, d)" by (cases y)
    let ?s = "s\<lparr>tv_queue := q\<rparr>"
    let ?v = "visit_edges g r m c d (sorted_bucket (g_incident g) c) ?s"
    have S: "searched (hops g r) a md (found a (tv_steps s)) D ((c, d) # q) (tv_visited s)"
      using less.prems(1) Cons y by simp
    show ?thesis
    proof (cases "md \<le> d")
      case True
      have "traverse_loop g r md m ?s = Some t"
        using less.prems(5) Cons y True by (subst (asm) traverse_loop.simps) simp
      then show ?thesis using less.prems Cons searched_skip [OF S True] by (intro less.hyps [of ?s]) simp_all
    next
      case False
      obtain ns where ns: "adds g r m c d (sorted_bucket (g_incident g) c) ?s ?v ns"
        using visit_edges_adds [where s = ?s and m = m and g = g and r = r and c = c and d = d and ids = "sorted_bucket (g_incident g) c"] less.prems(2,3) by auto
      have sub: "set (map ts_node ns) \<subseteq> hops g r `` {c}"
        using ns by (fastforce simp: adds_def via_edge_def hops_def)
      have c: "at_distance (hops g r) a d c" using searchedD(7) [OF S, of "(c, d)"] by (simp add: searchedD(1) [OF S])
      have fresh: "distinct (map ts_node ns)" "set (map ts_node ns) \<inter> tv_visited s = {}" using ns by (simp_all add: adds_def)
      note V = searched_visit [OF S _ fresh sub]
      have via: "via_nearer g r a x" if "x \<in> set ns" for x
        using ns that c graph_inv_ids [OF inv] by (fastforce simp: adds_def via_edge_def via_nearer_def)
      have depths: "map entry_of ns = map (\<lambda>n. (n, d + 1)) (map ts_node ns)"
        using ns by (simp add: adds_def entry_of_def)
      show ?thesis
      proof (cases "tv_truncated ?v")
        case cut: True
        with less.prems(5) Cons y False have t: "t = ?v" by (subst (asm) traverse_loop.simps) (simp add: Let_def)
        obtain n where n: "n \<in> hops g r `` {c}" "n \<notin> tv_visited s" "n \<notin> ts_node ` set ns"
          using ns cut found_from_hops [OF inv] by (auto simp: adds_def)
        have len: "length (tv_steps s @ ns) = m" and steps: "tv_steps ?v = tv_steps s @ ns"
          and deep: "\<And>x. x \<in> set ns \<Longrightarrow> ts_depth x = d + 1"
          using ns cut by (auto simp: adds_def)
        have "via_nearer g r a x" if "x \<in> set (tv_steps s @ ns)" for x using that via less.prems(4) by auto
        from cut_nearest [OF S _ fresh sub deep this len n] False cut show ?thesis by (simp add: t steps)
      next
        case go: False
        have known: "tv_visited ?v = tv_visited s \<union> set (map ts_node ns)"
          and all: "hops g r `` {c} \<subseteq> tv_visited s \<union> set (map ts_node ns)"
          using ns go found_from_hops [OF inv] by (auto simp: adds_def)
        have "traverse_loop g r md m ?v = Some t"
          using less.prems(5) Cons y False go by (subst (asm) traverse_loop.simps) (simp add: Let_def)
        moreover have "searched (hops g r) a md (found a (tv_steps s) @ map entry_of ns) (D @ [(c, d)])
            (q @ map entry_of ns) (tv_visited s \<union> set (map ts_node ns))"
          unfolding depths by (rule V(2) [OF _ all]) (use False in simp)
        then have "searched (hops g r) a md (found a (tv_steps ?v)) (D @ [(c, d)]) (tv_queue ?v) (tv_visited ?v)"
          using ns known by (simp add: adds_def)
        ultimately show ?thesis
          using ns less.prems Cons via go by (intro less.hyps [of ?v]) (auto simp: adds_def)
      qed
    qed
  qed
qed

lemma finite_within: "graph_inv g \<Longrightarrow> finite (within g r a md)"
proof -
  assume inv: "graph_inv g"
  have "within g r a md \<subseteq> Range (hops g r) \<times> {..md}"
    by (auto simp: within_def at_distance_def gr0_conv_Suc)
  then show ?thesis using finite_hops [OF inv] finite_subset by blast
qed

lemma card_entries: "distinct (map ts_node xs) \<Longrightarrow> card (entry_of ` set xs) = length xs"
proof -
  assume d: "distinct (map ts_node xs)"
  then have "distinct (map entry_of xs)" by (metis (no_types, lifting) comp_apply distinct_map entry_of_def fst_conv inj_on_def)
  then show ?thesis by (metis distinct_card length_map set_map)
qed

lemma nearest_card:
  assumes "graph_inv g" and "nearest g r a md m xs short"
  shows "short \<longleftrightarrow> m < card (within g r a md)"
proof -
  have c: "card (entry_of ` set xs) = length xs" using assms(2) card_entries by (simp add: nearest_def)
  have "length xs < card (within g r a md)" if "entry_of ` set xs \<noteq> within g r a md"
    using that psubset_card_mono [OF finite_within [OF assms(1)]] assms(2) c by (metis nearest_def psubsetI)
  with assms(2) c show ?thesis by (auto simp: nearest_def split: if_splits)
qed

lemma nearest_sort: "nearest g r a md m (sort_steps xs) short = nearest g r a md m xs short"
proof -
  have same: "set (sort_steps xs) = set xs" "length (sort_steps xs) = length xs"
    by (simp_all add: sort_steps_def)
  have "mset (map ts_node (sort_steps xs)) = mset (map ts_node xs)" by (simp add: sort_steps_def)
  then have "distinct (map ts_node (sort_steps xs)) = distinct (map ts_node xs)" by (rule mset_eq_imp_distinct_iff)
  then show ?thesis by (simp add: nearest_def same)
qed

lemma sorted_wrt_blocks:
  "sorted (map f ys) \<Longrightarrow> (\<And>k. sorted_wrt Q (filter (\<lambda>y. f y = k) ys)) \<Longrightarrow>
   sorted_wrt (\<lambda>x y. f x < f y \<or> f x = f y \<and> Q x y) ys"
proof (induction ys)
  case (Cons y ys)
  have "sorted_wrt Q (filter (\<lambda>y. f y = k) ys)" for k
    using Cons.prems(2) [of k] by (auto split: if_splits)
  with Cons have "sorted_wrt (\<lambda>x y. f x < f y \<or> f x = f y \<and> Q x y) ys" by simp
  moreover have "f y < f x \<or> f y = f x \<and> Q y x" if "x \<in> set ys" for x
    using Cons.prems(1) Cons.prems(2) [of "f y"] that by (auto simp: le_less)
  ultimately show ?case by simp
qed simp

lemma sort_steps_order:
  assumes "distinct (map ts_node xs)"
  shows "sorted_wrt (\<lambda>x y. ts_depth x < ts_depth y \<or> ts_depth x = ts_depth y \<and> ts_node x < ts_node y) (sort_steps xs)"
  unfolding sort_steps_def
proof (rule sorted_wrt_blocks)
  fix k
  let ?s = "sort_key ts_node xs"
  have "distinct (map ts_node ?s)"
    using assms mset_eq_imp_distinct_iff [of "map ts_node ?s" "map ts_node xs"] by simp
  then have "sorted_wrt (<) (map ts_node ?s)" by (simp add: strict_sorted_iff)
  then have "sorted_wrt (\<lambda>x y. ts_node x < ts_node y) ?s" by (simp add: sorted_wrt_map)
  then show "sorted_wrt (\<lambda>x y. ts_node x < ts_node y) (filter (\<lambda>y. ts_depth y = k) (sort_key ts_depth ?s))"
    by (simp add: sort_key_stable sorted_wrt_filter)
qed simp

text \<open>C25: in a consistent graph a traversal lists the nodes nearest to its origin. Each comes once,
  with the length of a shortest chain of admitted relationships from the origin as its depth, over
  a stored relationship from a node one hop nearer, ordered by depth and then by identifier. If no
  more nodes lie within the depth limit than the visited limit allows, all of them are listed;
  otherwise the result is marked truncated, is as long as allowed, and no listed node is farther
  than one left out.\<close>

theorem traversal_finds_nearest:
  assumes inv: "graph_inv (en_graph e)" and origin: "tq_origin r \<noteq> []" "find_node (en_graph e) (tq_origin r) \<noteq> None"
    and run: "traverse r e = Some t"
  shows "let m = visited_limit (en_limits e) r;
      near = {(n, d). 0 < d \<and> d \<le> depth_limit (en_limits e) r \<and> at_distance (hops (en_graph e) r) (tq_origin r) d n};
      listed = (\<lambda>s. (ts_node s, ts_depth s)) ` set (tr_steps t)
    in outcome_of (tr_status t) = O_Ok \<and> distinct (map ts_node (tr_steps t)) \<and>
      (if card near \<le> m then \<not> tr_truncated t \<and> listed = near
       else tr_truncated t \<and> length (tr_steps t) = m \<and> listed \<subseteq> near \<and>
         (\<forall>s \<in> set (tr_steps t). \<forall>(n, d) \<in> near - listed. ts_depth s \<le> d)) \<and>
      sorted_wrt (\<lambda>x y. ts_depth x < ts_depth y \<or> ts_depth x = ts_depth y \<and> ts_node x < ts_node y) (tr_steps t) \<and>
      (\<forall>s \<in> set (tr_steps t). \<exists>p x. find_edge (en_graph e) (ts_via s) = Some x \<and> ed_relation x = ts_relation s \<and>
         leads r p x = Some (ts_node s) \<and> at_distance (hops (en_graph e) r) (tq_origin r) (ts_depth s - 1) p)"
proof -
  let ?g = "en_graph e" and ?a = "tq_origin r" and ?md = "depth_limit (en_limits e) r" and ?m = "visited_limit (en_limits e) r"
  obtain s where s: "traverse_loop ?g r ?md ?m (start_travel ?a) = Some s" and t: "t = traversal_completed (en_limits e) r s"
    using run origin by (auto simp: traverse_def)
  have start: "searched (hops ?g r) ?a ?md (found ?a []) [] [(?a, 0)] {?a}"
    by (simp add: searched_def at_distance_zero)
  have "nearest ?g r ?a ?md ?m (tv_steps s) (tv_truncated s)"
    by (rule traverse_loop_nearest [OF inv _ _ _ _ s]) (use start in \<open>simp_all add: start_travel_def\<close>)
  then have n: "nearest ?g r ?a ?md ?m (tr_steps t) (tr_truncated t)"
    by (simp add: t traversal_completed_def nearest_sort)
  have "outcome_of (tr_status t) = O_Ok" by (simp add: t traversal_completed_def outcome_explain)
  moreover have "sorted_wrt (\<lambda>x y. ts_depth x < ts_depth y \<or> ts_depth x = ts_depth y \<and> ts_node x < ts_node y) (tr_steps t)"
    using sort_steps_order \<open>nearest ?g r ?a ?md ?m (tv_steps s) (tv_truncated s)\<close>
    by (simp add: t traversal_completed_def nearest_def)
  moreover have "\<exists>p x. find_edge ?g (ts_via u) = Some x \<and> ed_relation x = ts_relation u \<and>
      leads r p x = Some (ts_node u) \<and> at_distance (hops ?g r) ?a (ts_depth u - 1) p" if "u \<in> set (tr_steps t)" for u
    using n that by (fastforce simp: nearest_def via_nearer_def)
  moreover have "{(n, d). 0 < d \<and> d \<le> ?md \<and> at_distance (hops ?g r) ?a d n} = within ?g r ?a ?md" by (simp add: within_def)
  moreover have "(\<lambda>s. (ts_node s, ts_depth s)) ` set (tr_steps t) = entry_of ` set (tr_steps t)"
    by (simp add: entry_of_def)
  ultimately show ?thesis
    using n nearest_card [OF inv n] by (simp add: Let_def nearest_def case_prod_beta not_le split: if_splits)
qed

definition demo_tour :: traversal_request where
  "demo_tour = \<lparr>tq_kind = TK_Neighbors, tq_origin = ''nic'', tq_max_depth = 1, tq_max_visited = 5, tq_relation = None,
     tq_layer = None, tq_include_non_current = True\<rparr>"

lemma demo_tour_fields [simp]:
  "tq_kind demo_tour = TK_Neighbors" "tq_origin demo_tour = ''nic''" "tq_max_depth demo_tour = 1" "tq_max_visited demo_tour = 5"
  "tq_relation demo_tour = None" "tq_layer demo_tour = None" "tq_include_non_current demo_tour"
  by (simp_all add: demo_tour_def)

lemma one_element: "set xs = {a} \<Longrightarrow> distinct xs \<Longrightarrow> xs = [a]"
  by (cases xs rule: remdups_adj.cases) (auto simp: doubleton_eq_iff)

lemma demo_tour_run:
  "\<exists>t. traverse demo_tour demo_linked = Some t \<and> \<not> tr_truncated t \<and>
     tr_steps t = [\<lparr>ts_node = ''s1'', ts_depth = 1, ts_via = ''e1'', ts_relation = RC_AttachedTo\<rparr>]"
proof -
  have inv: "graph_inv (en_graph demo_linked)" using demo_linked_facts(1) by (simp add: graph_ok_def)
  have "set (sorted_bucket (g_incident (en_graph demo_linked)) ''nic'') = {''e1''}"
    using set_incident [OF inv] by (auto simp: demo_linked_facts(2) split: if_splits)
  moreover have "distinct (sorted_bucket (g_incident (en_graph demo_linked)) ''nic'')" by (rule distinct_sorted_bucket)
  ultimately have bucket: "sorted_bucket (g_incident (en_graph demo_linked)) ''nic'' = [''e1'']"
    by (rule one_element)
  have limits: "depth_limit (en_limits demo_linked) demo_tour = 1" "visited_limit (en_limits demo_linked) demo_tour = 5"
    by (simp_all add: depth_limit_def visited_limit_def demo_linked_def default_limits_def)
  have lead: "leads demo_tour ''nic'' demo_stale_edge = Some ''s1''"
    by (simp add: leads_def either_end_def)
  have node: "find_node (en_graph demo_linked) ''nic'' = Some (demo_node ''nic'' NC_Nic)"
    by (simp add: find_node_def demo_linked_facts(3) demo_graph_base lookup_simps)
  have "traverse_loop (en_graph demo_linked) demo_tour 1 5 (start_travel ''nic'') =
      Some \<lparr>tv_visited = {''nic'', ''s1''}, tv_queue = [],
        tv_steps = [\<lparr>ts_node = ''s1'', ts_depth = 1, ts_via = ''e1'', ts_relation = RC_AttachedTo\<rparr>], tv_truncated = False\<rparr>"
    by (subst traverse_loop.simps, simp add: start_travel_def bucket demo_linked_facts(2) lead discover_def Let_def)
      (subst traverse_loop.simps, simp, subst traverse_loop.simps, simp add: insert_commute)
  then show ?thesis by (simp add: traverse_def limits node traversal_completed_def sort_steps_def)
qed

theorem traversal_finds_nearest_witness:
  "{(n, d). 0 < d \<and> d \<le> 1 \<and> at_distance (hops (en_graph demo_linked) demo_tour) ''nic'' d n} = {(''s1'', 1)}"
proof -
  obtain t where t: "traverse demo_tour demo_linked = Some t" "\<not> tr_truncated t"
    "tr_steps t = [\<lparr>ts_node = ''s1'', ts_depth = 1, ts_via = ''e1'', ts_relation = RC_AttachedTo\<rparr>]"
    using demo_tour_run by auto
  have inv: "graph_inv (en_graph demo_linked)" using demo_linked_facts(1) by (simp add: graph_ok_def)
  have node: "find_node (en_graph demo_linked) (tq_origin demo_tour) \<noteq> None"
    by (simp add: find_node_def demo_linked_facts(3) demo_graph_base lookup_simps)
  have limit: "depth_limit (en_limits demo_linked) demo_tour = 1"
    by (simp add: depth_limit_def demo_linked_def default_limits_def)
  show ?thesis
    using traversal_finds_nearest [OF inv _ node t(1)] t(2)
    by (simp add: Let_def limit t(3) split: if_splits)
qed

end
