(* ===== verification/Protocol.thy ===== *)
theory Protocol
  imports Persistence Publication
begin

text \<open>
  The framed protocol between publishers and the coordinator (\<open>src/protocol.cpp\<close>,
  \<open>include/fabric_topology/protocol.hpp\<close>): the frame around a payload and the codec of every message. The
  decoders use the default limits, whatever the engine is configured with, as the code does.
\<close>

subsection \<open>Message types and frames\<close>

datatype message_type = MT_Invalid | MT_Hello | MT_Welcome | MT_Goodbye | MT_Publish | MT_PublishResult
  | MT_Heartbeat | MT_Fence | MT_Query | MT_QueryResult | MT_ShutdownRequest | MT_ErrorReport

fun message_type_code :: "message_type \<Rightarrow> u16" where
  "message_type_code MT_Invalid = 0" | "message_type_code MT_Hello = 1" | "message_type_code MT_Welcome = 2"
| "message_type_code MT_Goodbye = 3" | "message_type_code MT_Publish = 4" | "message_type_code MT_PublishResult = 5"
| "message_type_code MT_Heartbeat = 6" | "message_type_code MT_Fence = 7" | "message_type_code MT_Query = 8"
| "message_type_code MT_QueryResult = 9" | "message_type_code MT_ShutdownRequest = 10" | "message_type_code MT_ErrorReport = 11"

fun message_type_string :: "message_type \<Rightarrow> string" where
  "message_type_string MT_Invalid = ''INVALID''" | "message_type_string MT_Hello = ''HELLO''"
| "message_type_string MT_Welcome = ''WELCOME''" | "message_type_string MT_Goodbye = ''GOODBYE''"
| "message_type_string MT_Publish = ''PUBLISH''" | "message_type_string MT_PublishResult = ''PUBLISH_RESULT''"
| "message_type_string MT_Heartbeat = ''HEARTBEAT''" | "message_type_string MT_Fence = ''FENCE''"
| "message_type_string MT_Query = ''QUERY''" | "message_type_string MT_QueryResult = ''QUERY_RESULT''"
| "message_type_string MT_ShutdownRequest = ''SHUTDOWN_REQUEST''" | "message_type_string MT_ErrorReport = ''ERROR_REPORT''"

definition message_types :: "message_type list" where
  "message_types = [MT_Invalid, MT_Hello, MT_Welcome, MT_Goodbye, MT_Publish, MT_PublishResult, MT_Heartbeat, MT_Fence,
     MT_Query, MT_QueryResult, MT_ShutdownRequest, MT_ErrorReport]"

definition kMessageTypeCount :: u16 where "kMessageTypeCount = 12"

definition message_type_from_code :: "u16 \<Rightarrow> message_type option" where
  "message_type_from_code code =
     (if code = 0 \<or> kMessageTypeCount \<le> code then None else Some (message_types ! unat code))"

definition kProtocolMagic :: string where "kProtocolMagic = ''FTWP''"
definition kProtocolVersion :: u16 where "kProtocolVersion = 1"
definition kFrameHeaderBytes :: nat where "kFrameHeaderBytes = 4 + 4 + 2 + 2 + 4 + 8 + 4 + 4"

record frame_header =
  fh_version :: u16
  fh_type :: message_type
  fh_flags :: u32
  fh_sequence :: u64
  fh_payload_bytes :: u32
  fh_payload_crc :: u32

text \<open>The length and the checksum of the header given are not used: they are computed from the payload.\<close>

definition encode_frame :: "frame_header \<Rightarrow> bytes \<Rightarrow> bytes" where
  "encode_frame h payload =
     put_blob (bytes_of kProtocolMagic) @ put_u16 (fh_version h) @ put_u16 (message_type_code (fh_type h)) @
     put_u32 (fh_flags h) @ put_u64 (fh_sequence h) @ put_u32 (of_nat (length payload)) @ put_u32 (crc32 payload) @ payload"

datatype frame_result = Complete frame_header bytes nat | Incomplete | Malformed string

definition decode_frame :: "bytes \<Rightarrow> limits \<Rightarrow> frame_result" where
  "decode_frame buffer lim =
     (if length buffer < kFrameHeaderBytes then Incomplete
      else case get_blob 4 (open_reader (take kFrameHeaderBytes buffer)) of (magic, r) \<Rightarrow>
      if \<not> rd_ok r \<or> magic \<noteq> bytes_of kProtocolMagic then Malformed ''frame.bad_magic''
      else case get_u16 r of (version, r) \<Rightarrow>
      case get_u16 r of (type_code, r) \<Rightarrow>
      case get_u32 r of (flags, r) \<Rightarrow>
      case get_u64 r of (sequence, r) \<Rightarrow>
      case get_u32 r of (payload_bytes, r) \<Rightarrow>
      case get_u32 r of (payload_crc, r) \<Rightarrow>
      if \<not> rd_ok r then Malformed ''frame.header''
      else if version \<noteq> kProtocolVersion then Malformed ''frame.version_unsupported''
      else case message_type_from_code type_code of
        None \<Rightarrow> Malformed ''frame.unknown_message_type''
      | Some t \<Rightarrow>
          if max_frame_payload_bytes lim < unat payload_bytes then Malformed ''frame.payload_too_large''
          else let total_bytes = kFrameHeaderBytes + unat payload_bytes in
          if length buffer < total_bytes then Incomplete
          else let body = take (unat payload_bytes) (drop kFrameHeaderBytes buffer) in
          if crc32 body \<noteq> payload_crc then Malformed ''frame.crc_mismatch''
          else Complete \<lparr>fh_version = version, fh_type = t, fh_flags = flags, fh_sequence = sequence,
                 fh_payload_bytes = payload_bytes, fh_payload_crc = payload_crc\<rparr> body total_bytes)"

subsection \<open>Shared record codecs\<close>

definition protocol_error :: "string \<Rightarrow> string \<Rightarrow> status" where
  "protocol_error code detail = explain O_ProtocolViolation code (if detail \<noteq> [] then [(''detail'', detail)] else [])"

text \<open>A counted list with a 32-bit count, and the loop that appends record after record.\<close>

definition encode_items :: "('a \<Rightarrow> bytes) \<Rightarrow> 'a list \<Rightarrow> bytes" where
  "encode_items encode xs = put_u32 (of_nat (length xs)) @ concat (map encode xs)"

definition decode_small_count :: "string \<Rightarrow> nat \<Rightarrow> (unit, nat) decoder" where
  "decode_small_count message bound r =
     (case get_u32 r of (n, r) \<Rightarrow>
        if \<not> rd_ok r \<or> bound < unat n then (Inl (), rd_fail message r) else (Inr (unat n), r))"

definition append_item :: "'a \<Rightarrow> 'a list \<Rightarrow> unit + 'a list" where
  "append_item x xs = Inr (xs @ [x])"

definition decode_list :: "string \<Rightarrow> nat \<Rightarrow> (unit, 'a) decoder \<Rightarrow> (unit, 'a list) decoder" where
  "decode_list message bound decode r =
     and_then (decode_small_count message bound r) (\<lambda>n r. load_each decode append_item n [] r)"

definition write_optional_id :: "string option \<Rightarrow> bytes" where
  "write_optional_id x = put_boolean (x \<noteq> None) @ put_text (case x of None \<Rightarrow> [] | Some s \<Rightarrow> s)"

definition read_optional_id :: "reader \<Rightarrow> string option \<times> reader" where
  "read_optional_id r =
     (case get_boolean r of (held, r) \<Rightarrow>
      case get_text kMaxIdentifierBytes r of (v, r) \<Rightarrow>
      (if \<not> rd_ok r \<or> \<not> held then None else Some v, r))"

definition decode_checked_id :: "string \<Rightarrow> (unit, string option) decoder" where
  "decode_checked_id message r =
     (case read_optional_id r of
        (Some s, r) \<Rightarrow>
          if \<not> is_valid_identifier s kMaxIdentifierBytes then (Inl (), rd_fail message r) else (Inr (Some s), r)
      | (None, r) \<Rightarrow> (Inr None, r))"

definition diff_kinds :: "diff_kind list" where
  "diff_kinds = [DK_NodeAdded, DK_NodeRemoved, DK_NodeGenerationChanged, DK_EdgeAdded, DK_EdgeRemoved, DK_EdgeSuperseded,
     DK_AttachmentMoved, DK_RelationshipChanged, DK_ScopeChanged, DK_CurrentnessChanged]"

definition diff_kind_byte :: "diff_kind \<Rightarrow> u8" where "diff_kind_byte k = of_nat (diff_kind_code k)"

definition encode_diff_entry :: "diff_entry \<Rightarrow> bytes" where
  "encode_diff_entry x =
     put_u8 (diff_kind_byte (df_kind x)) @ put_text (df_key x) @ put_text (df_node x) @ put_text (df_edge x) @
     put_text (df_before x) @ put_text (df_after x)"

definition decode_diff_entry :: "(unit, diff_entry) decoder" where
  "decode_diff_entry r =
     and_then (decode_enum diff_kinds ''diff.kind'' r) (\<lambda>kind r.
      case get_text (max_string_bytes default_limits) r of (key, r) \<Rightarrow>
      case get_text kMaxIdentifierBytes r of (n, r) \<Rightarrow>
      case get_text kMaxIdentifierBytes r of (x, r) \<Rightarrow>
      case get_text (max_string_bytes default_limits) r of (before, r) \<Rightarrow>
      case get_text (max_string_bytes default_limits) r of (after, r) \<Rightarrow>
      if_ok \<lparr>df_kind = kind, df_key = key, df_node = n, df_edge = x, df_before = before, df_after = after\<rparr> r)"

definition encode_field :: "field \<Rightarrow> bytes" where
  "encode_field f = put_text (fst f) @ put_text (snd f)"

definition decode_field :: "(unit, field) decoder" where
  "decode_field r =
     (case get_text 64 r of (key, r) \<Rightarrow>
      case get_text kMaxFieldValueBytes r of (v, r) \<Rightarrow> if_ok (key, v) r)"

definition add_field :: "field \<Rightarrow> status \<Rightarrow> unit + status" where
  "add_field f s = Inr (with_field s (fst f) (snd f))"

definition encode_explanation :: "status \<Rightarrow> bytes" where
  "encode_explanation s =
     put_u16 (outcome_code (outcome_of s)) @ put_text (code_of s) @ encode_items encode_field (fields_of s)"

definition decode_explanation :: "(unit, status) decoder" where
  "decode_explanation r =
     (case get_u16 r of (outcome, r) \<Rightarrow>
      case get_text 128 r of (code, r) \<Rightarrow>
      if \<not> rd_ok r then (Inl (), r)
      else case outcome_from_code outcome of
        None \<Rightarrow> (Inl (), rd_fail ''explanation.outcome'' r)
      | Some parsed \<Rightarrow>
          and_then (decode_small_count ''explanation.field_count'' kMaxFields r) (\<lambda>n r.
          and_then (load_each decode_field add_field n (make_status parsed code) r) (\<lambda>s r. if_ok s r)))"

definition grant_modes :: "grant_mode list" where
  "grant_modes = [GM_None, GM_Read, GM_IncrementalWrite, GM_AuthoritativeWrite]"

definition grant_byte :: "grant_mode \<Rightarrow> u8" where "grant_byte m = of_nat (grant_code m)"

definition encode_grant :: "scope_grant \<Rightarrow> bytes" where
  "encode_grant x = put_text (sg_domain x) @ put_u8 (grant_byte (sg_mode x))"

definition decode_grant :: "(unit, scope_grant) decoder" where
  "decode_grant r =
     (case get_text kMaxIdentifierBytes r of (domain_id, r) \<Rightarrow>
      case get_u8 r of (mode, r) \<Rightarrow>
      if \<not> rd_ok r then (Inl (), r)
      else if length grant_modes \<le> unat mode \<or> domain_id = [] then (Inl (), rd_fail ''grants.entry'' r)
      else (Inr \<lparr>sg_domain = domain_id, sg_mode = grant_modes ! unat mode\<rparr>, r))"

definition encode_scope_grants :: "scope_grant list \<Rightarrow> bytes" where
  "encode_scope_grants grants = encode_items encode_grant grants"

definition decode_scope_grants :: "(unit, scope_grant list) decoder" where
  "decode_scope_grants r = and_then (decode_list ''grants.count'' 4096 decode_grant r) (\<lambda>grants r. if_ok grants r)"

definition encode_authority :: "authority_context \<Rightarrow> bytes" where
  "encode_authority au =
     put_u64 (au_coordinator_epoch au) @ put_text (au_publisher au) @ put_text (au_worker_boot au) @
     put_u64 (au_evidence_generation au) @ put_text (au_attempt au) @ put_text (au_publication au)"

definition decode_authority :: "(unit, authority_context) decoder" where
  "decode_authority r =
     (case get_u64 r of (epoch, r) \<Rightarrow>
      case get_text kMaxIdentifierBytes r of (publisher, r) \<Rightarrow>
      case get_text kMaxIdentifierBytes r of (boot, r) \<Rightarrow>
      case get_u64 r of (evidence, r) \<Rightarrow>
      case get_text kMaxIdentifierBytes r of (attempt, r) \<Rightarrow>
      case get_text kMaxIdentifierBytes r of (publication, r) \<Rightarrow>
      if_ok \<lparr>au_coordinator_epoch = epoch, au_publisher = publisher, au_worker_boot = boot,
        au_evidence_generation = evidence, au_attempt = attempt, au_publication = publication\<rparr> r)"

subsection \<open>Publications\<close>

definition publication_modes :: "publication_mode list" where "publication_modes = map fst kPublicationModeNames"

definition encode_observed_node :: "observed_node \<Rightarrow> bytes" where
  "encode_observed_node n =
     put_text (on_node_id n) @ put_text (on_entity_id n) @ put_u8 (node_class_code (on_class n)) @ put_u8 (tier_code (on_tier n)) @
     put_text (on_domain n) @ put_u64 (on_entity_generation n) @ put_boolean (on_present n) @ encode_metadata (on_metadata n)"

definition encode_layer :: "topology_layer option \<Rightarrow> bytes" where
  "encode_layer x = put_boolean (x \<noteq> None) @ put_u8 (case x of None \<Rightarrow> 0 | Some l \<Rightarrow> layer_code l)"

definition encode_observed_edge :: "observed_edge \<Rightarrow> bytes" where
  "encode_observed_edge x =
     write_optional_id (oe_edge_id x) @ put_text (oe_relationship_id x) @ put_u8 (relation_code (oe_relation x)) @
     put_text (oe_from x) @ put_text (oe_to x) @ encode_layer (oe_layer x) @ put_text (oe_domain x) @
     put_u64 (oe_evidence_generation x) @ put_text (oe_source_relationship_id x) @ write_optional_id (oe_supported_by x) @
     write_optional_id (oe_attachment x) @ put_boolean (oe_exclusive_attachment x) @ put_boolean (oe_present x) @
     encode_metadata (oe_metadata x)"

definition encode_publication :: "publication \<Rightarrow> bytes" where
  "encode_publication p =
     put_text (pu_id p) @ put_text (pu_domain p) @ put_u8 (scope_kind_code (pu_scope_kind p)) @
     put_u8 (publication_mode_code (pu_mode p)) @ put_u8 (publication_type_code (pu_type p)) @
     put_u8 (discovery_source_code (pu_source p)) @ put_u64 (pu_expected_generation p) @
     put_u64 (pu_evidence_generation p) @ put_text (pu_note p) @ encode_items put_text (pu_declared_absent p) @
     encode_items encode_observed_node (pu_nodes p) @ encode_items encode_observed_edge (pu_edges p)"

definition decode_observed_node :: "(unit, observed_node) decoder" where
  "decode_observed_node r =
     (case get_text kMaxIdentifierBytes r of (node_id, r) \<Rightarrow>
      case get_text (max_identifier_bytes default_limits) r of (entity_id, r) \<Rightarrow>
      case get_u8 r of (node_class, r) \<Rightarrow>
      case get_u8 r of (tier, r) \<Rightarrow>
      if \<not> rd_ok r \<or> length node_classes \<le> unat node_class \<or> length topology_tiers \<le> unat tier
      then (Inl (), rd_fail ''publication.node_enum'' r)
      else case get_text kMaxIdentifierBytes r of (domain_id, r) \<Rightarrow>
      case get_u64 r of (generation, r) \<Rightarrow>
      case get_boolean r of (held, r) \<Rightarrow>
      and_then (decode_metadata default_limits r) (\<lambda>items r.
      (Inr \<lparr>on_node_id = node_id, on_entity_id = entity_id, on_class = node_classes ! unat node_class,
         on_tier = topology_tiers ! unat tier, on_domain = domain_id, on_entity_generation = generation,
         on_metadata = items, on_present = held\<rparr>, r)))"

definition decode_layer :: "(unit, topology_layer option) decoder" where
  "decode_layer r =
     (case get_boolean r of (has, r) \<Rightarrow>
      case get_u8 r of (layer, r) \<Rightarrow>
      if \<not> rd_ok r \<or> layer_code Logical < layer then (Inl (), rd_fail ''publication.edge_layer'' r)
      else (Inr (if has then Some (topology_layers ! unat layer) else None), r))"

definition decode_observed_edge :: "(unit, observed_edge) decoder" where
  "decode_observed_edge r =
     and_then (decode_checked_id ''publication.edge_id'' r) (\<lambda>edge_id r.
      case get_text kMaxIdentifierBytes r of (relationship, r) \<Rightarrow>
     and_then (decode_enum relation_classes ''publication.edge_relation'' r) (\<lambda>relation r.
      case get_text kMaxIdentifierBytes r of (from_id, r) \<Rightarrow>
      case get_text kMaxIdentifierBytes r of (to_id, r) \<Rightarrow>
     and_then (decode_layer r) (\<lambda>layer r.
      case get_text kMaxIdentifierBytes r of (domain_id, r) \<Rightarrow>
      case get_u64 r of (evidence, r) \<Rightarrow>
      case get_text kMaxIdentifierBytes r of (source_id, r) \<Rightarrow>
     and_then (decode_checked_id ''publication.edge_supported_by'' r) (\<lambda>support r.
     and_then (decode_checked_id ''publication.edge_attachment'' r) (\<lambda>attachment r.
      case get_boolean r of (exclusive, r) \<Rightarrow>
      case get_boolean r of (held, r) \<Rightarrow>
     and_then (decode_metadata default_limits r) (\<lambda>items r.
      (Inr \<lparr>oe_edge_id = edge_id, oe_relationship_id = relationship, oe_relation = relation, oe_from = from_id, oe_to = to_id,
         oe_layer = layer, oe_domain = domain_id, oe_evidence_generation = evidence, oe_source_relationship_id = source_id,
         oe_supported_by = support, oe_attachment = attachment, oe_exclusive_attachment = exclusive, oe_metadata = items,
         oe_present = held\<rparr>, r)))))))"

text \<open>The identifiers of absent relationships are read without a check in between.\<close>

definition decode_absences :: "(unit, string list) decoder" where
  "decode_absences r =
     and_then (decode_small_count ''publication.absence_count'' (max_edges_per_publication default_limits) r) (\<lambda>n r.
      case get_many (get_text kMaxIdentifierBytes) n r of (ids, r) \<Rightarrow> if_ok ids r)"

definition decode_publication_header :: "(unit, publication) decoder" where
  "decode_publication_header r =
     (case get_text kMaxIdentifierBytes r of (i, r) \<Rightarrow>
      case get_text kMaxIdentifierBytes r of (domain_id, r) \<Rightarrow>
      case get_u8 r of (kind, r) \<Rightarrow>
      case get_u8 r of (mode, r) \<Rightarrow>
      case get_u8 r of (type, r) \<Rightarrow>
      case get_u8 r of (source, r) \<Rightarrow>
      if \<not> rd_ok r \<or> length scope_kinds \<le> unat kind \<or> length publication_modes \<le> unat mode \<or>
         length publication_types \<le> unat type \<or> length discovery_sources \<le> unat source
      then (Inl (), rd_fail ''publication.enum'' r)
      else case get_u64 r of (expected, r) \<Rightarrow>
      case get_u64 r of (evidence, r) \<Rightarrow>
      case get_text (max_string_bytes default_limits) r of (note, r) \<Rightarrow>
      if_ok \<lparr>pu_id = i, pu_domain = domain_id, pu_scope_kind = scope_kinds ! unat kind, pu_mode = publication_modes ! unat mode,
         pu_type = publication_types ! unat type, pu_source = discovery_sources ! unat source, pu_expected_generation = expected,
         pu_evidence_generation = evidence, pu_declared_absent = [], pu_nodes = [], pu_edges = [], pu_note = note\<rparr> r)"

definition decode_publication :: "(unit, publication) decoder" where
  "decode_publication r =
     and_then (decode_publication_header r) (\<lambda>p r.
     and_then (decode_absences r) (\<lambda>ids r.
     and_then (decode_list ''publication.node_count'' (max_nodes_per_publication default_limits) decode_observed_node r) (\<lambda>nodes r.
     and_then (decode_list ''publication.edge_count'' (max_edges_per_publication default_limits) decode_observed_edge r) (\<lambda>edges r.
      if_ok (p\<lparr>pu_declared_absent := ids, pu_nodes := nodes, pu_edges := edges\<rparr>) r))))"

subsection \<open>Messages\<close>

record hello_message =
  hm_publisher :: string
  hm_worker_boot :: string
  hm_coordinator_epoch :: u64
  hm_process_label :: string
  hm_observer :: bool
  hm_requested_grants :: "scope_grant list"
  hm_token :: string
  hm_evidence_type :: publication_type

record welcome_message =
  wm_accepted :: bool
  wm_coordinator_epoch :: u64
  wm_topology_generation :: u64
  wm_granted :: "scope_grant list"
  wm_session_id :: string
  wm_reason :: status

record publish_message =
  pm_authority :: authority_context
  pm_publication :: publication

record heartbeat_message =
  hb_coordinator_epoch :: u64
  hb_worker_boot :: string
  hb_counter :: u64

record fence_message =
  fm_worker_boot :: string
  fm_reason :: string

record query_message =
  qm_query :: string
  qm_argument :: string

record query_result_message =
  qr_status :: status
  qr_text :: string

record shutdown_message =
  sm_reason :: string
  sm_graceful :: bool

definition encode_hello :: "hello_message \<Rightarrow> bytes" where
  "encode_hello m =
     put_text (hm_publisher m) @ put_text (hm_worker_boot m) @ put_u64 (hm_coordinator_epoch m) @ put_text (hm_process_label m) @
     put_boolean (hm_observer m) @ put_u8 (publication_type_code (hm_evidence_type m)) @ put_text (hm_token m) @
     encode_scope_grants (hm_requested_grants m)"

definition decode_hello :: "(unit, hello_message) decoder" where
  "decode_hello r =
     (case get_text kMaxIdentifierBytes r of (publisher, r) \<Rightarrow>
      case get_text kMaxIdentifierBytes r of (boot, r) \<Rightarrow>
      case get_u64 r of (epoch, r) \<Rightarrow>
      case get_text (max_string_bytes default_limits) r of (label, r) \<Rightarrow>
      case get_boolean r of (observer, r) \<Rightarrow>
      and_then (decode_enum publication_types ''hello.evidence_type'' r) (\<lambda>evidence_type r.
      case get_text (max_string_bytes default_limits) r of (token, r) \<Rightarrow>
      if \<not> rd_ok r then (Inl (), r)
      else if publisher = [] \<or> boot = [] then (Inl (), rd_fail ''hello.identity'' r)
      else and_then (decode_scope_grants r) (\<lambda>grants r.
      (Inr \<lparr>hm_publisher = publisher, hm_worker_boot = boot, hm_coordinator_epoch = epoch, hm_process_label = label,
         hm_observer = observer, hm_requested_grants = grants, hm_token = token, hm_evidence_type = evidence_type\<rparr>, r))))"

definition encode_welcome :: "welcome_message \<Rightarrow> bytes" where
  "encode_welcome m =
     put_boolean (wm_accepted m) @ put_u64 (wm_coordinator_epoch m) @ put_u64 (wm_topology_generation m) @
     put_text (wm_session_id m) @ encode_explanation (wm_reason m) @ encode_scope_grants (wm_granted m)"

definition decode_welcome :: "(unit, welcome_message) decoder" where
  "decode_welcome r =
     (case get_boolean r of (ok, r) \<Rightarrow>
      case get_u64 r of (epoch, r) \<Rightarrow>
      case get_u64 r of (generation, r) \<Rightarrow>
      case get_text kMaxIdentifierBytes r of (session, r) \<Rightarrow>
      if \<not> rd_ok r then (Inl (), r)
      else and_then (decode_explanation r) (\<lambda>reason r.
      and_then (decode_scope_grants r) (\<lambda>grants r.
      (Inr \<lparr>wm_accepted = ok, wm_coordinator_epoch = epoch, wm_topology_generation = generation, wm_granted = grants,
         wm_session_id = session, wm_reason = reason\<rparr>, r))))"

definition encode_publish :: "publish_message \<Rightarrow> bytes" where
  "encode_publish m = encode_authority (pm_authority m) @ encode_publication (pm_publication m)"

definition decode_publish :: "(unit, publish_message) decoder" where
  "decode_publish r =
     and_then (decode_authority r) (\<lambda>au r.
     and_then (decode_publication r) (\<lambda>p r. (Inr \<lparr>pm_authority = au, pm_publication = p\<rparr>, r)))"

definition encode_publish_result :: "publication_result \<Rightarrow> bytes" where
  "encode_publish_result m =
     (let c = pr_counts m; d = pr_diff m in
      encode_explanation (pr_status m) @ put_u64 (pr_generation m) @ put_u64 (of_nat (pc_nodes_added c)) @
      put_u64 (of_nat (pc_nodes_updated c)) @ put_u64 (of_nat (pc_nodes_removed c)) @ put_u64 (of_nat (pc_nodes_unchanged c)) @
      put_u64 (of_nat (pc_edges_added c)) @ put_u64 (of_nat (pc_edges_updated c)) @ put_u64 (of_nat (pc_edges_removed c)) @
      put_u64 (of_nat (pc_edges_unchanged c)) @ put_boolean (pr_generation_advanced m) @ put_text (td_digest d) @
      put_u64 (td_from_generation d) @ put_u64 (td_to_generation d) @ encode_items encode_diff_entry (td_entries d))"

definition decode_publish_result :: "(unit, publication_result) decoder" where
  "decode_publish_result r =
     and_then (decode_explanation r) (\<lambda>s r.
      case get_u64 r of (generation, r) \<Rightarrow>
      case get_u64 r of (nodes_added, r) \<Rightarrow>
      case get_u64 r of (nodes_updated, r) \<Rightarrow>
      case get_u64 r of (nodes_removed, r) \<Rightarrow>
      case get_u64 r of (nodes_unchanged, r) \<Rightarrow>
      case get_u64 r of (edges_added, r) \<Rightarrow>
      case get_u64 r of (edges_updated, r) \<Rightarrow>
      case get_u64 r of (edges_removed, r) \<Rightarrow>
      case get_u64 r of (edges_unchanged, r) \<Rightarrow>
      case get_boolean r of (advanced, r) \<Rightarrow>
      case get_text 128 r of (digest, r) \<Rightarrow>
      case get_u64 r of (from_generation, r) \<Rightarrow>
      case get_u64 r of (to_generation, r) \<Rightarrow>
      and_then (decode_list ''publish_result.diff_entries'' (max_publication_diff_entries default_limits) decode_diff_entry r)
        (\<lambda>entries r.
      if_ok \<lparr>pr_status = s, pr_generation = generation,
         pr_diff = \<lparr>td_entries = entries, td_digest = digest, td_from_generation = from_generation, td_to_generation = to_generation\<rparr>,
         pr_counts = no_counts\<lparr>pc_nodes_added := unat nodes_added, pc_nodes_updated := unat nodes_updated,
           pc_nodes_removed := unat nodes_removed, pc_nodes_unchanged := unat nodes_unchanged, pc_edges_added := unat edges_added,
           pc_edges_updated := unat edges_updated, pc_edges_removed := unat edges_removed, pc_edges_unchanged := unat edges_unchanged\<rparr>,
         pr_generation_advanced = advanced\<rparr> r))"

definition encode_heartbeat :: "heartbeat_message \<Rightarrow> bytes" where
  "encode_heartbeat m = put_u64 (hb_coordinator_epoch m) @ put_text (hb_worker_boot m) @ put_u64 (hb_counter m)"

definition decode_heartbeat :: "(unit, heartbeat_message) decoder" where
  "decode_heartbeat r =
     (case get_u64 r of (epoch, r) \<Rightarrow>
      case get_text kMaxIdentifierBytes r of (boot, r) \<Rightarrow>
      case get_u64 r of (counter, r) \<Rightarrow>
      if_ok \<lparr>hb_coordinator_epoch = epoch, hb_worker_boot = boot, hb_counter = counter\<rparr> r)"

definition encode_fence :: "fence_message \<Rightarrow> bytes" where
  "encode_fence m = put_text (fm_worker_boot m) @ put_text (fm_reason m)"

definition decode_fence :: "(unit, fence_message) decoder" where
  "decode_fence r =
     (case get_text kMaxIdentifierBytes r of (boot, r) \<Rightarrow>
      case get_text (max_string_bytes default_limits) r of (reason, r) \<Rightarrow>
      if_ok \<lparr>fm_worker_boot = boot, fm_reason = reason\<rparr> r)"

definition encode_query :: "query_message \<Rightarrow> bytes" where
  "encode_query m = put_text (qm_query m) @ put_text (qm_argument m)"

definition decode_query :: "(unit, query_message) decoder" where
  "decode_query r =
     (case get_text 64 r of (query, r) \<Rightarrow>
      case get_text (max_identifier_bytes default_limits) r of (argument, r) \<Rightarrow>
      if_ok \<lparr>qm_query = query, qm_argument = argument\<rparr> r)"

definition encode_query_result :: "query_result_message \<Rightarrow> bytes" where
  "encode_query_result m = encode_explanation (qr_status m) @ put_text (qr_text m)"

definition decode_query_result :: "(unit, query_result_message) decoder" where
  "decode_query_result r =
     and_then (decode_explanation r) (\<lambda>s r.
      case get_text (max_string_bytes default_limits * 4) r of (t, r) \<Rightarrow> if_ok \<lparr>qr_status = s, qr_text = t\<rparr> r)"

definition encode_shutdown :: "shutdown_message \<Rightarrow> bytes" where
  "encode_shutdown m = put_text (sm_reason m) @ put_boolean (sm_graceful m)"

definition decode_shutdown :: "(unit, shutdown_message) decoder" where
  "decode_shutdown r =
     (case get_text (max_string_bytes default_limits) r of (reason, r) \<Rightarrow>
      case get_boolean r of (graceful, r) \<Rightarrow> if_ok \<lparr>sm_reason = reason, sm_graceful = graceful\<rparr> r)"

definition decode_error_report :: "(unit, status) decoder" where
  "decode_error_report r = decode_explanation r"

definition decode_goodbye :: "(unit, string) decoder" where
  "decode_goodbye r = (case get_text (max_string_bytes default_limits) r of (reason, r) \<Rightarrow> if_ok reason r)"

end
