(* ===== verification/Messages.thy ===== *)
theory Messages
  imports Protocol Recovery
begin

text \<open>
  What the protocol promises: a message that fits its bounds is decoded to itself, one that does not is
  refused, and the frames of a stream are taken off it one by one, exactly as they were sent.
\<close>

subsection \<open>Enumerations on the wire\<close>

interpretation publication_modes: enumeration publication_mode_code publication_modes
proof
  show "unat (publication_mode_code x) < length publication_modes" "publication_modes ! unat (publication_mode_code x) = x" for x
    by (cases x; simp add: publication_modes_def kPublicationModeNames_def)+
qed

interpretation diff_kinds: enumeration diff_kind_byte diff_kinds
proof
  show "unat (diff_kind_byte x) < length diff_kinds" "diff_kinds ! unat (diff_kind_byte x) = x" for x
    by (cases x; simp add: diff_kinds_def diff_kind_byte_def)+
qed

interpretation grant_modes: enumeration grant_byte grant_modes
proof
  show "unat (grant_byte x) < length grant_modes" "grant_modes ! unat (grant_byte x) = x" for x
    by (cases x; simp add: grant_modes_def grant_byte_def)+
qed

lemma code_not_above: "enumeration code table \<Longrightarrow> \<not> length table \<le> unat (code x)"
  by (simp add: enumeration_def not_le)

lemmas bounds_of_codes = code_not_above [OF publication_modes.enumeration_axioms] code_not_above [OF grant_modes.enumeration_axioms]
  code_not_above [OF scope_kinds.enumeration_axioms] code_not_above [OF publication_types.enumeration_axioms]
  code_not_above [OF discovery_sources.enumeration_axioms] code_not_above [OF node_classes.enumeration_axioms]
  code_not_above [OF topology_tiers.enumeration_axioms]

lemmas decoded_codes = publication_modes.decoded grant_modes.decoded scope_kinds.decoded publication_types.decoded
  discovery_sources.decoded node_classes.decoded topology_tiers.decoded topology_layers.decoded

lemmas code_simps [wire_simps] = bounds_of_codes decoded_codes diff_kinds.decode_code

subsection \<open>Counted lists\<close>

lemma long_text [wire_simps]: "length s \<le> m \<Longrightarrow> m < 4294967296 \<Longrightarrow> text_bounded m s"
  by (simp add: text_bounded_def)

lemma store_append [simp]: "store_all append_item xs ys = Inr (ys @ xs)"
  by (induction xs arbitrary: ys) (simp_all add: append_item_def)

lemma decode_small_count_reading [wire_simps]:
  "n \<le> bound \<Longrightarrow> n < 4294967296 \<Longrightarrow>
   decode_small_count m bound (reading a (put_u32 (of_nat n) @ c)) = (Inr n, reading (a @ put_u32 (of_nat n)) c)"
  by (simp add: decode_small_count_def wire_simps unat_of_nat)

lemma decode_list_reading:
  assumes w: "wire encode decode valid" and fits: "\<forall>x \<in> set xs. valid x" and small: "length xs \<le> bound" "length xs < 4294967296"
  shows "decode_list m bound decode (reading a (encode_items encode xs @ c)) = (Inr xs, reading (a @ encode_items encode xs) c)"
  using wire.load_each_encoded [OF w fits, of append_item "[]" xs "a @ put_u32 (of_nat (length xs))" c]
    decode_small_count_reading [OF small]
  by (simp add: decode_list_def encode_items_def)

subsection \<open>Shared records\<close>

definition field_fits :: "field \<Rightarrow> bool" where
  "field_fits f \<longleftrightarrow> length (fst f) \<le> 64 \<and> length (snd f) \<le> kMaxFieldValueBytes"

definition status_fits :: "status \<Rightarrow> bool" where
  "status_fits s \<longleftrightarrow> status_wf s \<and> length (code_of s) \<le> 128 \<and> (\<forall>f \<in> set (fields_of s). length (fst f) \<le> 64)"

interpretation field_wire: wire encode_field decode_field field_fits
  by unfold_locales
    (simp add: decode_field_def encode_field_def field_fits_def wire_simps text_bounded_def kMaxFieldValueBytes_def)

lemma store_fields:
  "status_wf (s\<lparr>fields_of := xs @ ys\<rparr>) \<Longrightarrow> store_all add_field ys (s\<lparr>fields_of := xs\<rparr>) = Inr (s\<lparr>fields_of := xs @ ys\<rparr>)"
proof (induction ys arbitrary: xs)
  case (Cons f ys)
  obtain k v where f: "f = (k, v)" by (cases f)
  have wf: "status_wf (s\<lparr>fields_of := xs\<rparr>)" and less: "\<forall>g \<in> set xs. fst g < k" and v: "length v \<le> kMaxFieldValueBytes"
    and room: "length (xs @ [(k, v)]) \<le> kMaxFields"
    using Cons.prems by (auto simp: f status_wf_def fields_wf_def sorted_append order.strict_iff_order rev_image_eqI)
  have "with_field (s\<lparr>fields_of := xs\<rparr>) k v = s\<lparr>fields_of := xs @ [(k, v)]\<rparr>"
    using with_field_reference [OF wf, of k v] upd_field_last [OF less] v room by simp
  then show ?case using Cons.IH [of "xs @ [f]"] Cons.prems by (simp add: add_field_def f)
qed simp

lemma explanation_reading [wire_simps]:
  assumes "status_fits s"
  shows "decode_explanation (reading a (encode_explanation s @ c)) = (Inr s, reading (a @ encode_explanation s) c)"
proof -
  let ?o = "put_u16 (outcome_code (outcome_of s))" and ?n = "put_u32 (of_nat (length (fields_of s)))"
  have fits: "\<forall>f \<in> set (fields_of s). field_fits f" and n: "length (fields_of s) \<le> kMaxFields" and code: "length (code_of s) \<le> 128"
    using assms by (auto simp: status_fits_def status_wf_def field_fits_def)
  have same: "\<lparr>outcome_of = outcome_of s, code_of = code_of s, fields_of = fields_of s\<rparr> = s" by simp
  have "store_all add_field (fields_of s) (make_status (outcome_of s) (code_of s)) = Inr s"
    using store_fields [where s = "make_status (outcome_of s) (code_of s)" and xs = "[]" and ys = "fields_of s"] assms
    by (simp add: status_fits_def make_status_def same)
  from field_wire.load_each_encoded [OF fits this, of "a @ ?o @ put_text (code_of s) @ ?n" c] n code
  show ?thesis
    by (simp add: decode_explanation_def encode_explanation_def encode_items_def wire_simps outcome_code_round_trip
        text_bounded_def kMaxFields_def)
qed

definition grant_fits :: "scope_grant \<Rightarrow> bool" where
  "grant_fits x \<longleftrightarrow> short_text (sg_domain x) \<and> sg_domain x \<noteq> []"

interpretation grant_wire: wire encode_grant decode_grant grant_fits
  by unfold_locales (simp add: decode_grant_def encode_grant_def grant_fits_def wire_simps)

definition grants_fit :: "scope_grant list \<Rightarrow> bool" where
  "grants_fit xs \<longleftrightarrow> length xs \<le> 4096 \<and> (\<forall>x \<in> set xs. grant_fits x)"

lemma grants_reading [wire_simps]:
  "grants_fit xs \<Longrightarrow> decode_scope_grants (reading a (encode_scope_grants xs @ c)) = (Inr xs, reading (a @ encode_scope_grants xs) c)"
  using decode_list_reading [OF grant_wire.wire_axioms, of xs 4096]
  by (simp add: decode_scope_grants_def encode_scope_grants_def grants_fit_def)

definition authority_fits :: "authority_context \<Rightarrow> bool" where
  "authority_fits au \<longleftrightarrow> short_text (au_publisher au) \<and> short_text (au_worker_boot au) \<and> short_text (au_attempt au) \<and>
     short_text (au_publication au)"

interpretation authority_wire: wire encode_authority decode_authority authority_fits
  by unfold_locales (simp add: decode_authority_def encode_authority_def authority_fits_def wire_simps)

subsection \<open>Publications\<close>

lemma defaults_fit [simp]: "limits_fit default_limits"
  by (simp add: limits_fit_def default_limits_def)

lemma default_bounds [simp]:
  "max_identifier_bytes default_limits = kMaxIdentifierBytes" "max_string_bytes default_limits = 1024"
  "max_nodes_per_publication default_limits = 262144" "max_edges_per_publication default_limits = 1048576"
  "max_publication_diff_entries default_limits = 1048576"
  by (simp_all add: default_limits_def kMaxIdentifierBytes_def)

lemma checked_id_reading [wire_simps]:
  "pred_option (\<lambda>s. is_valid_identifier s kMaxIdentifierBytes) x \<Longrightarrow>
   decode_checked_id m (reading a (write_optional_id x @ c)) = (Inr x, reading (a @ write_optional_id x) c)"
  using valid_text_fits [of "the x" kMaxIdentifierBytes]
  by (cases x) (simp_all add: decode_checked_id_def read_optional_id_def write_optional_id_def wire_simps text_bounded_def
      kMaxIdentifierBytes_def)

lemma layer_reading [wire_simps]:
  "decode_layer (reading a (encode_layer x @ c)) = (Inr x, reading (a @ encode_layer x) c)"
proof (cases x)
  case (Some l)
  then show ?thesis
    using topology_layers.decoded [of l]
    by (cases l) (simp_all add: decode_layer_def encode_layer_def wire_simps topology_layers_def)
qed (simp add: decode_layer_def encode_layer_def wire_simps)

definition observed_node_fits :: "observed_node \<Rightarrow> bool" where
  "observed_node_fits n \<longleftrightarrow> short_text (on_node_id n) \<and> short_text (on_entity_id n) \<and> short_text (on_domain n) \<and>
     metadata_wf default_limits (on_metadata n)"

interpretation observed_node_wire: wire encode_observed_node decode_observed_node observed_node_fits
  by unfold_locales (simp add: decode_observed_node_def encode_observed_node_def observed_node_fits_def wire_simps)

definition observed_edge_fits :: "observed_edge \<Rightarrow> bool" where
  "observed_edge_fits x \<longleftrightarrow> short_text (oe_relationship_id x) \<and> short_text (oe_from x) \<and> short_text (oe_to x) \<and>
     short_text (oe_domain x) \<and> short_text (oe_source_relationship_id x) \<and> metadata_wf default_limits (oe_metadata x) \<and>
     (\<forall>i \<in> {oe_edge_id x, oe_supported_by x, oe_attachment x}. pred_option (\<lambda>s. is_valid_identifier s kMaxIdentifierBytes) i)"

interpretation observed_edge_wire: wire encode_observed_edge decode_observed_edge observed_edge_fits
  by unfold_locales (simp add: decode_observed_edge_def encode_observed_edge_def observed_edge_fits_def wire_simps)

definition publication_fits :: "publication \<Rightarrow> bool" where
  "publication_fits p \<longleftrightarrow> short_text (pu_id p) \<and> short_text (pu_domain p) \<and> length (pu_note p) \<le> 1024 \<and>
     length (pu_declared_absent p) \<le> 1048576 \<and> length (pu_nodes p) \<le> 262144 \<and> length (pu_edges p) \<le> 1048576 \<and>
     (\<forall>i \<in> set (pu_declared_absent p). short_text i) \<and> (\<forall>n \<in> set (pu_nodes p). observed_node_fits n) \<and>
     (\<forall>x \<in> set (pu_edges p). observed_edge_fits x)"

lemma many_texts_reading:
  "\<forall>s \<in> set xs. short_text s \<Longrightarrow>
   get_many (get_text kMaxIdentifierBytes) (length xs) (reading a (concat (map put_text xs) @ c)) = (xs, reading (a @ concat (map put_text xs)) c)"
  by (induction xs arbitrary: a) (simp_all add: wire_simps)

lemma absences_reading [wire_simps]:
  assumes "\<forall>i \<in> set xs. short_text i" "length xs \<le> 1048576"
  shows "decode_absences (reading a (encode_items put_text xs @ c)) = (Inr xs, reading (a @ encode_items put_text xs) c)"
  using assms many_texts_reading [OF assms(1), of "a @ put_u32 (of_nat (length xs))" c]
  by (simp add: decode_absences_def encode_items_def wire_simps)

interpretation publication_wire: wire encode_publication decode_publication publication_fits
proof
  fix p a c assume fits: "publication_fits p"
  let ?h = "put_text (pu_id p) @ put_text (pu_domain p) @ put_u8 (scope_kind_code (pu_scope_kind p)) @
     put_u8 (publication_mode_code (pu_mode p)) @ put_u8 (publication_type_code (pu_type p)) @
     put_u8 (discovery_source_code (pu_source p)) @ put_u64 (pu_expected_generation p) @
     put_u64 (pu_evidence_generation p) @ put_text (pu_note p)"
  have header: "decode_publication_header (reading a (?h @ d)) =
      (Inr (p\<lparr>pu_declared_absent := [], pu_nodes := [], pu_edges := []\<rparr>), reading (a @ ?h) d)" for d
    using fits by (simp add: decode_publication_header_def publication_fits_def wire_simps)
  have nodes: "decode_list m 262144 decode_observed_node (reading b (encode_items encode_observed_node (pu_nodes p) @ d)) =
      (Inr (pu_nodes p), reading (b @ encode_items encode_observed_node (pu_nodes p)) d)" for m b d
    using fits by (intro decode_list_reading [OF observed_node_wire.wire_axioms]) (simp_all add: publication_fits_def)
  have edges: "decode_list m 1048576 decode_observed_edge (reading b (encode_items encode_observed_edge (pu_edges p) @ d)) =
      (Inr (pu_edges p), reading (b @ encode_items encode_observed_edge (pu_edges p)) d)" for m b d
    using fits by (intro decode_list_reading [OF observed_edge_wire.wire_axioms]) (simp_all add: publication_fits_def)
  have absent: "decode_absences (reading b (encode_items put_text (pu_declared_absent p) @ d)) =
      (Inr (pu_declared_absent p), reading (b @ encode_items put_text (pu_declared_absent p)) d)" for b d
    using fits by (intro absences_reading) (simp_all add: publication_fits_def)
  show "decode_publication (reading a (encode_publication p @ c)) = (Inr p, reading (a @ encode_publication p) c)"
    using header [of "encode_items put_text (pu_declared_absent p) @ encode_items encode_observed_node (pu_nodes p) @
        encode_items encode_observed_edge (pu_edges p) @ c"]
    by (simp add: decode_publication_def encode_publication_def nodes edges absent)
qed

lemmas record_readings [wire_simps] = authority_wire.decode_encode publication_wire.decode_encode

subsection \<open>Messages\<close>

definition hello_fits :: "hello_message \<Rightarrow> bool" where
  "hello_fits m \<longleftrightarrow> short_text (hm_publisher m) \<and> hm_publisher m \<noteq> [] \<and> short_text (hm_worker_boot m) \<and> hm_worker_boot m \<noteq> [] \<and>
     length (hm_process_label m) \<le> 1024 \<and> length (hm_token m) \<le> 1024 \<and> grants_fit (hm_requested_grants m)"

definition welcome_fits :: "welcome_message \<Rightarrow> bool" where
  "welcome_fits m \<longleftrightarrow> short_text (wm_session_id m) \<and> status_fits (wm_reason m) \<and> grants_fit (wm_granted m)"

definition publish_fits :: "publish_message \<Rightarrow> bool" where
  "publish_fits m \<longleftrightarrow> authority_fits (pm_authority m) \<and> publication_fits (pm_publication m)"

definition diff_entry_fits :: "diff_entry \<Rightarrow> bool" where
  "diff_entry_fits x \<longleftrightarrow> length (df_key x) \<le> 1024 \<and> short_text (df_node x) \<and> short_text (df_edge x) \<and>
     length (df_before x) \<le> 1024 \<and> length (df_after x) \<le> 1024"

definition counts_fit :: "publication_counts \<Rightarrow> bool" where
  "counts_fit c \<longleftrightarrow> (\<forall>n \<in> {pc_nodes_added c, pc_nodes_updated c, pc_nodes_removed c, pc_nodes_unchanged c, pc_edges_added c,
       pc_edges_updated c, pc_edges_removed c, pc_edges_unchanged c}. n < 18446744073709551616)"

definition publish_result_fits :: "publication_result \<Rightarrow> bool" where
  "publish_result_fits m \<longleftrightarrow> status_fits (pr_status m) \<and> length (td_digest (pr_diff m)) \<le> 128 \<and> counts_fit (pr_counts m) \<and>
     length (td_entries (pr_diff m)) \<le> 1048576 \<and> (\<forall>x \<in> set (td_entries (pr_diff m)). diff_entry_fits x)"

definition query_result_fits :: "query_result_message \<Rightarrow> bool" where
  "query_result_fits m \<longleftrightarrow> status_fits (qr_status m) \<and> length (qr_text m) \<le> 4096"

interpretation hello_wire: wire encode_hello decode_hello hello_fits
  by unfold_locales (simp add: decode_hello_def encode_hello_def hello_fits_def wire_simps)

interpretation welcome_wire: wire encode_welcome decode_welcome welcome_fits
  by unfold_locales (simp add: decode_welcome_def encode_welcome_def welcome_fits_def wire_simps)

interpretation publish_wire: wire encode_publish decode_publish publish_fits
  by unfold_locales (simp add: decode_publish_def encode_publish_def publish_fits_def wire_simps)

interpretation diff_entry_wire: wire encode_diff_entry decode_diff_entry diff_entry_fits
  by unfold_locales (simp add: decode_diff_entry_def encode_diff_entry_def diff_entry_fits_def wire_simps)

text \<open>Three of the eleven counters of a publication are not on the wire.\<close>

definition received_result :: "publication_result \<Rightarrow> publication_result" where
  "received_result m = m\<lparr>pr_counts := (pr_counts m)\<lparr>pc_edges_superseded := 0, pc_edges_conflicted := 0, pc_edges_rejected := 0\<rparr>\<rparr>"

lemma publish_result_reading:
  assumes fits: "publish_result_fits m"
  shows "decode_publish_result (reading a (encode_publish_result m @ c)) = (Inr (received_result m), reading (a @ encode_publish_result m) c)"
proof -
  have entries: "decode_list t 1048576 decode_diff_entry (reading b (encode_items encode_diff_entry (td_entries (pr_diff m)) @ d)) =
      (Inr (td_entries (pr_diff m)), reading (b @ encode_items encode_diff_entry (td_entries (pr_diff m))) d)" for t b d
    using fits by (intro decode_list_reading [OF diff_entry_wire.wire_axioms]) (simp_all add: publish_result_fits_def)
  have "unat (of_nat n :: u64) = n" if "n < 18446744073709551616" for n using that by (simp add: unat_of_nat)
  with fits show ?thesis
    by (simp add: decode_publish_result_def encode_publish_result_def Let_def publish_result_fits_def counts_fit_def entries
        wire_simps no_counts_def received_result_def)
qed

interpretation query_wire: wire encode_query decode_query "\<lambda>m. length (qm_query m) \<le> 64 \<and> short_text (qm_argument m)"
  by unfold_locales (simp add: decode_query_def encode_query_def wire_simps)

interpretation query_result_wire: wire encode_query_result decode_query_result query_result_fits
  by unfold_locales (simp add: decode_query_result_def encode_query_result_def query_result_fits_def wire_simps)

interpretation heartbeat_wire: wire encode_heartbeat decode_heartbeat "\<lambda>m. short_text (hb_worker_boot m)"
  by unfold_locales (simp add: decode_heartbeat_def encode_heartbeat_def wire_simps)

interpretation fence_wire: wire encode_fence decode_fence "\<lambda>m. short_text (fm_worker_boot m) \<and> length (fm_reason m) \<le> 1024"
  by unfold_locales (simp add: decode_fence_def encode_fence_def wire_simps)

interpretation shutdown_wire: wire encode_shutdown decode_shutdown "\<lambda>m. length (sm_reason m) \<le> 1024"
  by unfold_locales (simp add: decode_shutdown_def encode_shutdown_def wire_simps)

interpretation error_report_wire: wire encode_explanation decode_error_report status_fits
  by unfold_locales (simp add: decode_error_report_def wire_simps)

interpretation goodbye_wire: wire put_text decode_goodbye "\<lambda>s. length s \<le> 1024"
  by unfold_locales (simp add: decode_goodbye_def wire_simps)

subsection \<open>Every message\<close>

datatype message = Hello hello_message | Welcome welcome_message | Goodbye string | Publish publish_message
  | PublishResult publication_result | Heartbeat heartbeat_message | Fence fence_message | Query query_message
  | QueryResult query_result_message | ShutdownRequest shutdown_message | ErrorReport status

fun message_type_of :: "message \<Rightarrow> message_type" where
  "message_type_of (Hello _) = MT_Hello" | "message_type_of (Welcome _) = MT_Welcome" | "message_type_of (Goodbye _) = MT_Goodbye"
| "message_type_of (Publish _) = MT_Publish" | "message_type_of (PublishResult _) = MT_PublishResult"
| "message_type_of (Heartbeat _) = MT_Heartbeat" | "message_type_of (Fence _) = MT_Fence" | "message_type_of (Query _) = MT_Query"
| "message_type_of (QueryResult _) = MT_QueryResult" | "message_type_of (ShutdownRequest _) = MT_ShutdownRequest"
| "message_type_of (ErrorReport _) = MT_ErrorReport"

fun encode_message :: "message \<Rightarrow> bytes" where
  "encode_message (Hello m) = encode_hello m" | "encode_message (Welcome m) = encode_welcome m"
| "encode_message (Goodbye m) = put_text m" | "encode_message (Publish m) = encode_publish m"
| "encode_message (PublishResult m) = encode_publish_result m" | "encode_message (Heartbeat m) = encode_heartbeat m"
| "encode_message (Fence m) = encode_fence m" | "encode_message (Query m) = encode_query m"
| "encode_message (QueryResult m) = encode_query_result m" | "encode_message (ShutdownRequest m) = encode_shutdown m"
| "encode_message (ErrorReport m) = encode_explanation m"

definition as_message :: "('a \<Rightarrow> message) \<Rightarrow> (unit, 'a) decoder \<Rightarrow> (unit, message) decoder" where
  "as_message f decode r = and_then (decode r) (\<lambda>m r. (Inr (f m), r))"

fun decode_message :: "message_type \<Rightarrow> (unit, message) decoder" where
  "decode_message MT_Hello r = as_message Hello decode_hello r"
| "decode_message MT_Welcome r = as_message Welcome decode_welcome r"
| "decode_message MT_Goodbye r = as_message Goodbye decode_goodbye r"
| "decode_message MT_Publish r = as_message Publish decode_publish r"
| "decode_message MT_PublishResult r = as_message PublishResult decode_publish_result r"
| "decode_message MT_Heartbeat r = as_message Heartbeat decode_heartbeat r"
| "decode_message MT_Fence r = as_message Fence decode_fence r"
| "decode_message MT_Query r = as_message Query decode_query r"
| "decode_message MT_QueryResult r = as_message QueryResult decode_query_result r"
| "decode_message MT_ShutdownRequest r = as_message ShutdownRequest decode_shutdown r"
| "decode_message MT_ErrorReport r = as_message ErrorReport decode_error_report r"
| "decode_message MT_Invalid r = (Inl (), r)"

fun message_fits :: "message \<Rightarrow> bool" where
  "message_fits (Hello m) = hello_fits m" | "message_fits (Welcome m) = welcome_fits m" | "message_fits (Goodbye m) = (length m \<le> 1024)"
| "message_fits (Publish m) = publish_fits m" | "message_fits (PublishResult m) = publish_result_fits m"
| "message_fits (Heartbeat m) = short_text (hb_worker_boot m)"
| "message_fits (Fence m) = (short_text (fm_worker_boot m) \<and> length (fm_reason m) \<le> 1024)"
| "message_fits (Query m) = (length (qm_query m) \<le> 64 \<and> short_text (qm_argument m))"
| "message_fits (QueryResult m) = query_result_fits m" | "message_fits (ShutdownRequest m) = (length (sm_reason m) \<le> 1024)"
| "message_fits (ErrorReport m) = status_fits m"

fun received_message :: "message \<Rightarrow> message" where
  "received_message (PublishResult m) = PublishResult (received_result m)"
| "received_message m = m"

lemmas message_readings = hello_wire.decode_encode welcome_wire.decode_encode publish_wire.decode_encode publish_result_reading
  query_wire.decode_encode query_result_wire.decode_encode heartbeat_wire.decode_encode fence_wire.decode_encode
  shutdown_wire.decode_encode error_report_wire.decode_encode goodbye_wire.decode_encode

text \<open>C20: a message within the bounds of its fields is read back as it was written, and exactly its
  bytes are read, whatever follows them: every record, list, optional identifier and explanation
  in it included. Only the counters of superseded, conflicted and rejected relationships of a
  publication result are lost on the way.\<close>

theorem messages_round_trip:
  assumes "message_fits m"
  shows "decode_message (message_type_of m) (open_reader (encode_message m @ rest)) =
    (Inr (received_message m), reading (encode_message m) rest)"
proof -
  note readings = message_readings [where a = "[]", simplified append_Nil]
  show ?thesis using assms by (cases m) (simp_all add: as_message_def open_reading readings)
qed

definition sample_publish :: publish_message where
  "sample_publish =
     \<lparr>pm_authority = \<lparr>au_coordinator_epoch = 1, au_publisher = ''p'', au_worker_boot = ''b'', au_evidence_generation = 7,
        au_attempt = [], au_publication = ''pub-1''\<rparr>,
      pm_publication = \<lparr>pu_id = ''pub-1'', pu_domain = ''d'', pu_scope_kind = SK_Site, pu_mode = PM_Incremental,
        pu_type = PT_Real, pu_source = DS_HostDiscovery, pu_expected_generation = 3, pu_evidence_generation = 7,
        pu_declared_absent = [''r0''],
        pu_nodes = [\<lparr>on_node_id = ''nic'', on_entity_id = ''ent-nic'', on_class = NC_Nic, on_tier = TT_Leaf, on_domain = ''d'',
          on_entity_generation = 1, on_metadata = [], on_present = True\<rparr>],
        pu_edges = [\<lparr>oe_edge_id = None, oe_relationship_id = ''r1'', oe_relation = RC_ConnectedTo, oe_from = ''nic'', oe_to = ''s1'',
          oe_layer = Some Physical, oe_domain = ''d'', oe_evidence_generation = 7, oe_source_relationship_id = [],
          oe_supported_by = None, oe_attachment = None, oe_exclusive_attachment = False, oe_metadata = [], oe_present = True\<rparr>],
        pu_note = ''cabling''\<rparr>\<rparr>"

lemma sample_publish_fits: "message_fits (Publish sample_publish)"
  by (simp add: sample_publish_def publish_fits_def authority_fits_def publication_fits_def observed_node_fits_def observed_edge_fits_def
      short_text_def kMaxIdentifierBytes_def metadata_wf_def metadata_ok_def)

theorem messages_round_trip_witness:
  "decode_message MT_Publish (open_reader (encode_message (Publish sample_publish) @ [1, 2])) =
    (Inr (Publish sample_publish), reading (encode_message (Publish sample_publish)) [1, 2])"
  using messages_round_trip [OF sample_publish_fits] by simp

text \<open>An answer to a query of more than four kilobytes, which the coordinator sends like any other, is refused
  by the decoder of the client, whatever the frame that carries it.\<close>

theorem long_answer_unreadable:
  assumes "status_fits (qr_status m)" and "4096 < length (qr_text m)" and "length (qr_text m) < 4294967296"
  shows "fst (decode_query_result (open_reader (encode_query_result m))) = Inl () \<and>
    rd_error (snd (decode_query_result (open_reader (encode_query_result m)))) = ''codec.length_over_limit''"
  using assms get_blob_too_long [of 4096 "bytes_of (qr_text m)" "encode_explanation (qr_status m)" "[]"]
    explanation_reading [of "qr_status m" "[]"]
  by (simp add: decode_query_result_def encode_query_result_def open_reading get_text_def put_text_def if_ok_def rd_fail_def reading_def)

theorem long_answer_unreadable_witness:
  "fst (decode_query_result (open_reader (encode_query_result \<lparr>qr_status = make_status O_Ok ''coordinator.query_ok'',
    qr_text = replicate 5000 CHR ''x''\<rparr>))) = Inl ()"
  using long_answer_unreadable [of "\<lparr>qr_status = make_status O_Ok ''coordinator.query_ok'', qr_text = replicate 5000 CHR ''x''\<rparr>"]
  by (simp add: status_fits_def status_wf_def fields_wf_def make_status_def)

end
