(* ===== verification/Coordinator.thy ===== *)
theory Coordinator
  imports Messages Queries
begin

text \<open>
  The coordinator (\<open>src/runtime/coordinator.cpp\<close>): the handshake and the serving of a session, the queries, and
  the end of a session, as handlers of what the transport delivers. Sockets, threads and clocks
  are parameters: what a receive returns, whether a send succeeds and whether the handshake window
  has passed come from outside, and the sessions interleave as steps of one system.
\<close>

subsection \<open>State\<close>

datatype session_phase = Greeting | Serving | Ending

record session =
  se_peer :: string
  se_publisher :: string
  se_worker_boot :: string
  se_process_label :: string
  se_registered :: bool
  se_observer :: bool
  se_fenced :: bool
  se_frames :: u64
  se_publications :: u64
  se_end_reason :: string
  se_finished :: bool
  se_phase :: session_phase

definition new_session :: "string \<Rightarrow> session" where
  "new_session peer = \<lparr>se_peer = peer, se_publisher = [], se_worker_boot = [], se_process_label = [], se_registered = False,
     se_observer = False, se_fenced = False, se_frames = 0, se_publications = 0, se_end_reason = [], se_finished = False,
     se_phase = Greeting\<rparr>"

record coordinator =
  co_bind_address :: string
  co_port :: nat
  co_domains :: "domain_definition list"
  co_grant_policy :: "scope_grant list"
  co_token :: string
  co_max_sessions :: nat
  co_engine :: engine
  co_sessions :: "session list"
  co_stop :: bool
  co_running :: bool
  co_fenced_workers :: u64
  co_accepted_sessions :: u64
  co_rejected_sessions :: u64
  co_published_publications :: u64

text \<open>What a receive returns; an idle receive says whether the handshake window has passed.\<close>

datatype received = Got_frame message_type bytes | Got_idle bool | Got_closed | Got_error string

type_synonym reply = "message_type \<times> bytes"

text \<open>The transport refuses a payload over its limit, which is the default one, before it touches the socket.\<close>

definition transmitted :: "bool \<Rightarrow> bytes \<Rightarrow> bool" where
  "transmitted socket_ok payload \<longleftrightarrow> length payload \<le> max_frame_payload_bytes default_limits \<and> socket_ok"

definition error_reply :: "outcome \<Rightarrow> string \<Rightarrow> string \<Rightarrow> reply" where
  "error_reply v code detail =
     (MT_ErrorReport, encode_explanation (explain v code (if detail \<noteq> [] then [(''detail'', detail)] else [])))"

definition end_with :: "string \<Rightarrow> session \<Rightarrow> session" where
  "end_with reason s = s\<lparr>se_end_reason := reason, se_phase := Ending\<rparr>"

subsection \<open>Options\<close>

definition is_identifier_char :: "char \<Rightarrow> bool" where
  "is_identifier_char c \<longleftrightarrow> is_alphanumeric c \<or> c \<in> {CHR ''.'', CHR ''_'', CHR ''-'', CHR ''~'', CHR '':''}"

definition sanitize_identifier :: "string \<Rightarrow> string" where
  "sanitize_identifier t =
     (let shown = map (\<lambda>c. if is_identifier_char c then c else CHR ''-'') t;
          named = (if shown = [] then ''unnamed'' else shown);
          led = (if is_alphanumeric (hd named) then named else CHR ''x'' # named) in
      take kMaxIdentifierBytes led)"

fun define_domains :: "domain_definition list \<Rightarrow> engine \<Rightarrow> status option \<times> engine" where
  "define_domains [] e = (None, e)"
| "define_domains (d # ds) e =
     (case define_domain d e of (s, e') \<Rightarrow>
        if outcome_of s \<noteq> O_Committed \<and> outcome_of s \<noteq> O_Idempotent then (Some s, e') else define_domains ds e')"

definition configure_authority :: "coordinator \<Rightarrow> status \<times> coordinator" where
  "configure_authority c =
     (case define_domains (co_domains c) (co_engine c) of
        (Some s, e) \<Rightarrow> (s, c\<lparr>co_engine := e\<rparr>)
      | (None, e) \<Rightarrow> (explain O_Ok ''coordinator.authority_configured''
          [(''domains'', decimal (length (co_domains c))), (''grant_rules'', decimal (length (co_grant_policy c)))],
          c\<lparr>co_engine := e\<rparr>))"

definition delegated_mode :: "coordinator \<Rightarrow> string \<Rightarrow> grant_mode" where
  "delegated_mode c d =
     (if \<not> list_ex (\<lambda>x. dd_id x = d) (co_domains c) then GM_None
      else foldl (\<lambda>best x. if sg_domain x = d \<and> best < sg_mode x then sg_mode x else best) GM_None (co_grant_policy c))"

definition delegated_grant :: "coordinator \<Rightarrow> scope_grant \<Rightarrow> scope_grant" where
  "delegated_grant c x = x\<lparr>sg_mode := (if sg_mode x < delegated_mode c (sg_domain x) then sg_mode x else delegated_mode c (sg_domain x))\<rparr>"

definition delegated_grants :: "coordinator \<Rightarrow> scope_grant list \<Rightarrow> scope_grant list" where
  "delegated_grants c xs = filter (\<lambda>x. sg_mode x \<noteq> GM_None) (map (delegated_grant c) xs)"

text \<open>\<open>listening\<close>: what opening the listener answers, the port or an error text.\<close>

definition start :: "string + nat \<Rightarrow> coordinator \<Rightarrow> status \<times> coordinator" where
  "start listening c =
     (if co_running c then (make_status O_Idempotent ''coordinator.already_running'', c)
      else case configure_authority c of (configured, c) \<Rightarrow>
      if outcome_of configured \<noteq> O_Ok then (configured, c)
      else let c = c\<lparr>co_stop := False\<rparr> in
      case listening of
        Inl detail \<Rightarrow> (explain O_InternalError ''coordinator.listen_failed'' [(''detail'', detail)], c)
      | Inr port \<Rightarrow> (explain O_Committed ''coordinator.started''
          [(''port'', decimal port), (''coordinator_epoch'', u64_string (en_epoch (co_engine c))),
           (''topology_generation'', u64_string (en_generation (co_engine c)))],
          c\<lparr>co_port := port, co_running := True\<rparr>))"

definition accept_client :: "string \<Rightarrow> coordinator \<Rightarrow> reply list \<times> coordinator" where
  "accept_client peer c =
     (if co_max_sessions c \<le> length (co_sessions c)
      then ([error_reply O_ResourceLimit ''coordinator.session_limit'' []],
            c\<lparr>co_rejected_sessions := co_rejected_sessions c + 1\<rparr>)
      else ([], c\<lparr>co_sessions := co_sessions c @ [new_session peer], co_accepted_sessions := co_accepted_sessions c + 1\<rparr>))"

subsection \<open>Descriptions\<close>

definition describe_session :: "session \<Rightarrow> string" where
  "describe_session s =
     ''peer='' @ se_peer s @ '' publisher='' @ se_publisher s @ '' boot='' @ se_worker_boot s @
     '' registered='' @ truth (se_registered s) @ '' observer='' @ truth (se_observer s) @ '' fenced='' @ truth (se_fenced s) @
     '' frames='' @ u64_string (se_frames s) @ '' publications='' @ u64_string (se_publications s) @
     '' finished='' @ truth (se_finished s) @ (if se_end_reason s \<noteq> [] then '' end_reason='' @ se_end_reason s else [])"

definition session_descriptions :: "coordinator \<Rightarrow> string list" where
  "session_descriptions c = sort (map describe_session (co_sessions c))"

definition active_session_count :: "coordinator \<Rightarrow> nat" where
  "active_session_count c = length (filter (\<lambda>s. \<not> se_finished s) (co_sessions c))"

definition session_count :: "coordinator \<Rightarrow> nat" where "session_count c = length (co_sessions c)"

definition coordinator_statistics :: "coordinator \<Rightarrow> string" where
  "coordinator_statistics c =
     ''port='' @ decimal (co_port c) @ newline @ ''bind='' @ co_bind_address c @ statistic ''sessions'' (decimal (session_count c)) @
     statistic ''accepted_sessions'' (u64_string (co_accepted_sessions c)) @
     statistic ''rejected_sessions'' (u64_string (co_rejected_sessions c)) @
     statistic ''fenced_workers'' (u64_string (co_fenced_workers c)) @
     statistic ''published_publications'' (u64_string (co_published_publications c)) @
     statistic ''coordinator_epoch'' (u64_string (en_epoch (co_engine c))) @ statistic ''running'' (truth (co_running c)) @
     newline @ statistics (co_engine c)"

subsection \<open>Handshake\<close>

definition refused_welcome :: "status \<Rightarrow> welcome_message \<Rightarrow> welcome_message" where
  "refused_welcome reason w = w\<lparr>wm_accepted := False, wm_reason := reason\<rparr>"

definition count_rejected :: "coordinator \<Rightarrow> coordinator" where
  "count_rejected c = c\<lparr>co_rejected_sessions := co_rejected_sessions c + 1\<rparr>"

definition hello_registration :: "coordinator \<Rightarrow> hello_message \<Rightarrow> registration" where
  "hello_registration c m =
     \<lparr>rg_publisher = hm_publisher m, rg_worker_boot = hm_worker_boot m, rg_coordinator_epoch = en_epoch (co_engine c),
       rg_grants = delegated_grants c (hm_requested_grants m), rg_reason = hm_process_label m\<rparr>"

definition answer_hello :: "hello_message \<Rightarrow> session \<Rightarrow> coordinator \<Rightarrow> welcome_message \<times> session \<times> coordinator" where
  "answer_hello m s c =
     (let e = co_engine c;
          s = s\<lparr>se_publisher := hm_publisher m, se_worker_boot := hm_worker_boot m, se_process_label := hm_process_label m,
                se_observer := hm_observer m\<rparr>;
          w = \<lparr>wm_accepted = False, wm_coordinator_epoch = en_epoch e, wm_topology_generation = en_generation e, wm_granted = [],
               wm_session_id = sanitize_identifier (se_peer s), wm_reason = empty_status\<rparr> in
      if \<not> (hm_coordinator_epoch m = 0 \<or> hm_coordinator_epoch m = en_epoch e)
      then (refused_welcome (explain O_StaleCoordinatorEpoch ''coordinator.epoch_stale''
              [(''claimed_epoch'', u64_string (hm_coordinator_epoch m)), (''current_epoch'', u64_string (en_epoch e))]) w,
            s\<lparr>se_end_reason := ''epoch_stale''\<rparr>, count_rejected c)
      else if \<not> (co_token c = [] \<or> hm_token m = co_token c)
      then (refused_welcome (make_status O_StaleAuthority ''coordinator.token_rejected'') w,
            s\<lparr>se_end_reason := ''token_rejected''\<rparr>, count_rejected c)
      else if se_observer s
      then (w\<lparr>wm_accepted := True, wm_reason := make_status O_Ok ''coordinator.observer_attached''\<rparr>, s, c)
      else case register_publisher (hello_registration c m) e of (registered, e') \<Rightarrow>
        let w = w\<lparr>wm_accepted := outcome_is_success (outcome_of registered), wm_granted := hm_requested_grants m,
                  wm_reason := registered\<rparr>; c = c\<lparr>co_engine := e'\<rparr> in
        if \<not> wm_accepted w then (w, s\<lparr>se_end_reason := ''registration_rejected''\<rparr>, count_rejected c)
        else (w, s\<lparr>se_registered := True\<rparr>, c))"

definition welcome_session :: "bool \<Rightarrow> hello_message \<Rightarrow> session \<Rightarrow> coordinator \<Rightarrow> reply list \<times> session \<times> coordinator" where
  "welcome_session socket_ok m s c =
     (case answer_hello m s c of (w, s, c) \<Rightarrow>
        let payload = encode_welcome w in
        ([(MT_Welcome, payload)],
         if \<not> transmitted socket_ok payload then end_with ''welcome_send_failed'' s
         else if \<not> wm_accepted w then s\<lparr>se_phase := Ending\<rparr>
         else s\<lparr>se_phase := Serving\<rparr>, c))"

definition greet :: "bool \<Rightarrow> received \<Rightarrow> session \<Rightarrow> coordinator \<Rightarrow> reply list \<times> session \<times> coordinator" where
  "greet socket_ok ev s c =
     (case ev of
        Got_frame t payload \<Rightarrow>
          if t \<noteq> MT_Hello
          then ([error_reply O_ProtocolViolation ''coordinator.hello_expected'' (message_type_string t)], end_with ''hello_expected'' s, c)
          else (case decode_hello (open_reader payload) of
              (Inl _, r) \<Rightarrow> ([error_reply O_ProtocolViolation ''coordinator.hello_malformed'' (rd_error r)], end_with ''hello_malformed'' s, c)
            | (Inr m, _) \<Rightarrow> welcome_session socket_ok m s c)
      | Got_idle late \<Rightarrow>
          if co_stop c then ([], end_with ''coordinator_stopping'' s, c)
          else if late
          then ([error_reply O_ProtocolViolation ''coordinator.handshake_timeout'' []], end_with ''handshake_timeout'' s, c)
          else ([], s, c)
      | Got_closed \<Rightarrow> ([], end_with ''peer_closed'' s, c)
      | Got_error _ \<Rightarrow> ([], end_with ''receive_error'' s, c))"

subsection \<open>Queries\<close>

definition listed_under :: "string \<Rightarrow> string list \<Rightarrow> string" where
  "listed_under head xs = head @ concat (map (\<lambda>t. newline @ ''  '' @ t) xs)"

definition explained :: "(string \<Rightarrow> engine \<Rightarrow> status) \<Rightarrow> string \<Rightarrow> engine \<Rightarrow> query_result_message" where
  "explained explanation argument e =
     (if is_valid_identifier argument kMaxIdentifierBytes
      then \<lparr>qr_status = explanation argument e, qr_text = render_status (explanation argument e)\<rparr>
      else \<lparr>qr_status = make_status O_MalformedRequest ''coordinator.query_argument'', qr_text = []\<rparr>)"

definition answer_query :: "query_message \<Rightarrow> coordinator \<Rightarrow> query_result_message" where
  "answer_query m c =
     (let e = co_engine c; q = qm_query m; answer_with = (\<lambda>t. \<lparr>qr_status = make_status O_Ok ''coordinator.query_ok'', qr_text = t\<rparr>) in
      if q = ''statistics'' then answer_with (coordinator_statistics c)
      else if q = ''generation'' then answer_with (u64_string (en_generation e))
      else if q = ''epoch'' then answer_with (u64_string (en_epoch e))
      else if q = ''digest'' then answer_with (topology_digest (en_graph e) scope_all)
      else if q = ''validate'' then answer_with (render_report (validate scope_all e))
      else if q = ''sessions''
      then answer_with (listed_under (''sessions='' @ decimal (length (session_descriptions c)) @ '' active='' @
        decimal (active_session_count c)) (session_descriptions c))
      else if q = ''publishers''
      then answer_with (listed_under (''publishers='' @ decimal (length (sorted_values (en_publishers e))))
        (map render_publisher (sorted_values (en_publishers e))))
      else if q = ''nodes'' then answer_with (listed_under (''nodes='' @ decimal (length (all_nodes e))) (map render_node (all_nodes e)))
      else if q = ''edges''
      then answer_with (listed_under (''edges='' @ decimal (length (all_edges e)))
        (map (\<lambda>x. render_edge x @ '' publisher='' @ pv_publisher (ed_provenance x) @ '' worker_boot='' @ pv_worker_boot (ed_provenance x))
          (all_edges e)))
      else if q = ''edge'' then explained explain_relationship (qm_argument m) e
      else if q = ''node'' then explained explain_node (qm_argument m) e
      else if q = ''render'' then answer_with (engine_canonical scope_all e)
      else \<lparr>qr_status = explain O_NotFound ''coordinator.unknown_query'' [(''query'', q)], qr_text = []\<rparr>)"

subsection \<open>Serving\<close>

text \<open>A reply that cannot be sent ends the session.\<close>

definition respond :: "bool \<Rightarrow> reply \<Rightarrow> string \<Rightarrow> session \<Rightarrow> coordinator \<Rightarrow> reply list \<times> session \<times> coordinator" where
  "respond socket_ok rep failure s c =
     ([rep], if transmitted socket_ok (snd rep) then s else end_with failure s, c)"

definition session_authority :: "publish_message \<Rightarrow> session \<Rightarrow> engine \<Rightarrow> authority_context" where
  "session_authority m s e =
     \<lparr>au_coordinator_epoch = en_epoch e, au_publisher = se_publisher s, au_worker_boot = se_worker_boot s,
       au_evidence_generation = pu_evidence_generation (pm_publication m), au_attempt = au_attempt (pm_authority m),
       au_publication = pu_id (pm_publication m)\<rparr>"

definition serve_publish ::
  "(engine \<Rightarrow> file_result) \<Rightarrow> bool \<Rightarrow> bytes \<Rightarrow> session \<Rightarrow> coordinator \<Rightarrow> reply list \<times> session \<times> coordinator" where
  "serve_publish io socket_ok payload s c =
     (case decode_publish (open_reader payload) of
        (Inl _, r) \<Rightarrow> ([error_reply O_ProtocolViolation ''coordinator.publish_malformed'' (rd_error r)], end_with ''publish_malformed'' s, c)
      | (Inr m, _) \<Rightarrow>
          if se_observer s
          then ([error_reply O_UnauthorizedScope ''coordinator.observer_cannot_publish'' []], end_with ''observer_publish'' s, c)
          else case publish io (session_authority m s (co_engine c)) (pm_publication m) (co_engine c) of (result, e) \<Rightarrow>
            respond socket_ok (MT_PublishResult, encode_publish_result result) ''publish_result_send_failed''
              (s\<lparr>se_publications := se_publications s + 1\<rparr>)
              (c\<lparr>co_engine := e, co_published_publications := co_published_publications c + 1\<rparr>))"

definition serve_frame ::
  "(engine \<Rightarrow> file_result) \<Rightarrow> bool \<Rightarrow> message_type \<Rightarrow> bytes \<Rightarrow> session \<Rightarrow> coordinator \<Rightarrow> reply list \<times> session \<times> coordinator" where
  "serve_frame io socket_ok t payload s c =
     (if t = MT_Heartbeat
      then (case fst (decode_heartbeat (open_reader payload)) of
          Inl _ \<Rightarrow> ([], end_with ''heartbeat_malformed'' s, c)
        | Inr m \<Rightarrow> respond socket_ok (MT_Heartbeat, encode_heartbeat (m\<lparr>hb_coordinator_epoch := en_epoch (co_engine c)\<rparr>))
            ''heartbeat_send_failed'' s c)
      else if t = MT_Publish then serve_publish io socket_ok payload s c
      else if t = MT_Query
      then (case decode_query (open_reader payload) of
          (Inl _, r) \<Rightarrow> ([error_reply O_ProtocolViolation ''coordinator.query_malformed'' (rd_error r)], end_with ''query_malformed'' s, c)
        | (Inr m, _) \<Rightarrow> respond socket_ok (MT_QueryResult, encode_query_result (answer_query m c)) ''query_result_send_failed'' s c)
      else if t = MT_ShutdownRequest
      then (case fst (decode_shutdown (open_reader payload)) of
          Inl _ \<Rightarrow> ([], end_with ''shutdown_malformed'' s, c)
        | Inr _ \<Rightarrow> ([(MT_Goodbye, put_text ''coordinator_shutting_down'')], end_with ''shutdown_requested'' s, c\<lparr>co_stop := True\<rparr>))
      else if t = MT_Goodbye then ([], end_with ''client_goodbye'' s, c)
      else ([error_reply O_ProtocolViolation ''coordinator.unexpected_message'' (message_type_string t)],
            end_with ''unexpected_message'' s, c))"

definition serve ::
  "(engine \<Rightarrow> file_result) \<Rightarrow> bool \<Rightarrow> received \<Rightarrow> session \<Rightarrow> coordinator \<Rightarrow> reply list \<times> session \<times> coordinator" where
  "serve io socket_ok ev s c =
     (case ev of
        Got_idle _ \<Rightarrow> if co_stop c then ([], end_with ''coordinator_stopping'' s, c) else ([], s, c)
      | Got_closed \<Rightarrow> ([], end_with ''peer_closed'' s, c)
      | Got_error detail \<Rightarrow> ([], end_with (if detail = [] then ''receive_error'' else detail) s, c)
      | Got_frame t payload \<Rightarrow> serve_frame io socket_ok t payload (s\<lparr>se_frames := se_frames s + 1\<rparr>) c)"

subsection \<open>The end of a session\<close>

definition close_session :: "(engine \<Rightarrow> file_result) \<Rightarrow> session \<Rightarrow> coordinator \<Rightarrow> session \<times> coordinator" where
  "close_session io s c =
     (if se_registered s \<and> \<not> se_observer s
      then (case fence_boot io (se_worker_boot s) ''session_terminated'' (co_engine c) of (lost, e) \<Rightarrow>
            case fence_publisher io (se_publisher s) (se_worker_boot s) ''session_terminated'' e of (fenced, e) \<Rightarrow>
              let c = c\<lparr>co_engine := e\<rparr> in
              if outcome_is_success (outcome_of fenced) \<or> outcome_of fenced = O_StaleWorkerBoot
              then (s\<lparr>se_fenced := True, se_finished := True\<rparr>, c\<lparr>co_fenced_workers := co_fenced_workers c + 1\<rparr>)
              else (s\<lparr>se_finished := True\<rparr>, c))
      else (s\<lparr>se_finished := True\<rparr>, c))"

text \<open>One turn of the thread of session \<open>i\<close>: it receives, answers, or, once its loop is left, closes.\<close>

definition session_turn :: "(engine \<Rightarrow> file_result) \<Rightarrow> bool \<Rightarrow> received \<Rightarrow> session \<Rightarrow> coordinator \<Rightarrow> reply list \<times> session \<times> coordinator" where
  "session_turn io socket_ok ev s c =
     (case se_phase s of
        Greeting \<Rightarrow> greet socket_ok ev s c
      | Serving \<Rightarrow> serve io socket_ok ev s c
      | Ending \<Rightarrow> (case close_session io s c of (s, c) \<Rightarrow> ([], s, c)))"

text \<open>\<open>stop\<close>: whether it goes on to signal and join the threads, and the flags; the sessions are forgotten once
  every thread has ended.\<close>

definition stop_coordinator :: "coordinator \<Rightarrow> bool \<times> coordinator" where
  "stop_coordinator c =
     (if co_stop c then (False, c\<lparr>co_running := False\<rparr>) else (True, c\<lparr>co_stop := True, co_running := False\<rparr>))"

definition forget_sessions :: "coordinator \<Rightarrow> coordinator" where
  "forget_sessions c = c\<lparr>co_sessions := []\<rparr>"

subsection \<open>The coordinator as a system\<close>

text \<open>The threads of the sessions and of the listener take turns; what the transport delivers, and when, is
  open. A handler runs under the locks of the engine, so a turn is one step.\<close>

inductive co_step :: "coordinator \<Rightarrow> coordinator \<Rightarrow> bool" where
  start_step: "start listening c = (v, c') \<Longrightarrow> co_step c c'"
| accept_step: "\<not> co_stop c \<Longrightarrow> accept_client peer c = (out, c') \<Longrightarrow> co_step c c'"
| turn_step: "i < length (co_sessions c) \<Longrightarrow> \<not> se_finished (co_sessions c ! i) \<Longrightarrow>
    session_turn io socket_ok ev (co_sessions c ! i) c = (out, s, c') \<Longrightarrow>
    co_step c (c'\<lparr>co_sessions := (co_sessions c')[i := s]\<rparr>)"
| stop_step: "stop_coordinator c = (joins, c') \<Longrightarrow> co_step c c'"
| forget_step: "\<forall>s \<in> set (co_sessions c). se_finished s \<Longrightarrow> co_step c (forget_sessions c)"

inductive co_reachable :: "coordinator \<Rightarrow> coordinator \<Rightarrow> bool" for c0 where
  fresh: "co_reachable c0 (c0\<lparr>co_sessions := []\<rparr>)"
| step: "co_reachable c0 c \<Longrightarrow> co_step c c' \<Longrightarrow> co_reachable c0 c'"

inductive_cases co_stepE: "co_step c c'"

end
