(* ===== verification/Sessions.thy ===== *)
theory Sessions
  imports Coordinator Machine
begin

text \<open>
  What the sessions of a coordinator may do, whatever their peers send and however they interleave: the
  effect of a turn on the engine, the fence of a session that has ended, the handshake, and what
  the decoder of a hello guarantees for the welcome that answers it.
\<close>

subsection \<open>What a turn does to the engine\<close>

lemma publisher_frames [simp]:
  "en_fenced_boots (publisher_rejected p e) = en_fenced_boots e" "en_fenced_boots (publisher_committed p e) = en_fenced_boots e"
  "en_fenced_boots (note_rejected e) = en_fenced_boots e" "en_fenced_boots (note_committed e) = en_fenced_boots e"
  "en_fenced_boots (note_idempotent e) = en_fenced_boots e"
  by (simp_all add: publisher_rejected_def publisher_committed_def note_rejected_def note_committed_def note_idempotent_def
      on_publisher_def
      split: option.split)

lemma publish_fences: "en_fenced_boots (snd (publish io au p e)) = en_fenced_boots e"
  by (simp add: publish_def settle_batch_def commit_batch_def no_change_def replayed_def publication_refused_def publication_rejected_def
      count_rejected_publication_def record_attempt_def Let_def split: option.split sum.split)

lemma fence_boot_fences: "b \<noteq> [] \<Longrightarrow> b \<in> en_fenced_boots (snd (fence_boot io b r e))"
  by (simp add: fence_boot_def Let_def case_prod_beta settle_demotion_frame)

lemma register_fences: "en_fenced_boots e \<subseteq> en_fenced_boots (snd (register_publisher r e))"
  by (auto simp: register_publisher_def split: option.split)

lemma register_accepts:
  assumes "register_publisher r e = (v, e')" "outcome_is_success (outcome_of v)"
  shows "rg_publisher r \<noteq> [] \<and> rg_worker_boot r \<noteq> [] \<and> rg_worker_boot r \<notin> en_fenced_boots e' \<and> rg_coordinator_epoch r = en_epoch e' \<and>
    (\<exists>st. Mapping.lookup (en_publishers e') (rg_publisher r) = Some st \<and> pb_worker_boot st = rg_worker_boot r \<and>
       pb_coordinator_epoch st = en_epoch e' \<and> pb_grants st = rg_grants r \<and> \<not> pb_fenced st)"
  using assms
  by (auto simp: register_publisher_def boot_is_fenced_def registered_state_def lookup_simps explain_def outcome_is_success_def
      split: if_splits option.splits)

lemma delegated_grants_bounded:
  "x \<in> set (delegated_grants c xs) \<Longrightarrow>
   sg_mode x \<noteq> GM_None \<and> sg_mode x \<le> delegated_mode c (sg_domain x) \<and> (\<exists>y \<in> set xs. sg_domain y = sg_domain x \<and> sg_mode x \<le> sg_mode y)"
  by (fastforce simp: delegated_grants_def delegated_grant_def not_less split: if_splits)

lemma delegated_mode_policy:
  assumes "delegated_mode c d \<noteq> GM_None"
  shows "(\<exists>x \<in> set (co_domains c). dd_id x = d) \<and> (\<exists>p \<in> set (co_grant_policy c). sg_domain p = d \<and> sg_mode p = delegated_mode c d)"
proof -
  let ?f = "\<lambda>best x. if sg_domain x = d \<and> best < sg_mode x then sg_mode x else best"
  have "foldl ?f b ps = b \<or> (\<exists>p \<in> set ps. sg_domain p = d \<and> sg_mode p = foldl ?f b ps)" for b and ps :: "scope_grant list"
  proof (induction ps arbitrary: b)
    case (Cons p ps)
    show ?case
    proof (cases "sg_domain p = d \<and> b < sg_mode p")
      case True
      then have "foldl ?f b (p # ps) = foldl ?f (sg_mode p) ps" by simp
      moreover have "\<exists>q \<in> set (p # ps). sg_domain q = d \<and> sg_mode q = v"
        if "v = sg_mode p \<or> (\<exists>q \<in> set ps. sg_domain q = d \<and> sg_mode q = v)" for v using that True by auto
      ultimately show ?thesis using Cons.IH [of "sg_mode p"] by simp
    next
      case False
      then have "foldl ?f b (p # ps) = foldl ?f b ps" by auto
      with Cons.IH [of b] show ?thesis by auto
    qed
  qed simp
  from this [of GM_None "co_grant_policy c"] assms show ?thesis
    by (auto simp: delegated_mode_def list_ex_iff split: if_splits)
qed

text \<open>What a turn may do, phase by phase.\<close>

definition received_hello :: "received \<Rightarrow> hello_message \<Rightarrow> bool" where
  "received_hello ev m \<longleftrightarrow> (\<exists>payload. ev = Got_frame MT_Hello payload \<and> fst (decode_hello (open_reader payload)) = Inr m)"

definition received_publish :: "received \<Rightarrow> publish_message \<Rightarrow> bool" where
  "received_publish ev m \<longleftrightarrow> (\<exists>payload. ev = Got_frame MT_Publish payload \<and> fst (decode_publish (open_reader payload)) = Inr m)"

definition registers :: "received \<Rightarrow> session \<Rightarrow> coordinator \<Rightarrow> session \<Rightarrow> coordinator \<Rightarrow> bool" where
  "registers ev s c s' c' \<longleftrightarrow> (\<exists>m v. received_hello ev m \<and> se_phase s = Greeting \<and> \<not> hm_observer m \<and> hm_coordinator_epoch m \<in> {0, en_epoch (co_engine c)} \<and>
     (co_token c = [] \<or> hm_token m = co_token c) \<and> register_publisher (hello_registration c m) (co_engine c) = (v, co_engine c') \<and>
     se_publisher s' = hm_publisher m \<and> se_worker_boot s' = hm_worker_boot m \<and> \<not> se_observer s' \<and>
     (se_registered s' \<longrightarrow> se_registered s \<or> outcome_is_success (outcome_of v)) \<and> se_finished s' = se_finished s)"

definition publishes :: "received \<Rightarrow> (engine \<Rightarrow> file_result) \<Rightarrow> session \<Rightarrow> coordinator \<Rightarrow> coordinator \<Rightarrow> bool" where
  "publishes ev io s c c' \<longleftrightarrow> (\<exists>m. received_publish ev m \<and> se_phase s = Serving \<and> \<not> se_observer s \<and>
     co_engine c' = snd (publish io (session_authority m s (co_engine c)) (pm_publication m) (co_engine c)))"

definition fences :: "(engine \<Rightarrow> file_result) \<Rightarrow> session \<Rightarrow> coordinator \<Rightarrow> coordinator \<Rightarrow> bool" where
  "fences io s c c' \<longleftrightarrow> se_phase s = Ending \<and> se_registered s \<and> \<not> se_observer s \<and>
     co_engine c' = snd (fence_publisher io (se_publisher s) (se_worker_boot s) ''session_terminated''
       (snd (fence_boot io (se_worker_boot s) ''session_terminated'' (co_engine c))))"

definition same_identity :: "session \<Rightarrow> session \<Rightarrow> bool" where
  "same_identity s s' \<longleftrightarrow> se_publisher s' = se_publisher s \<and> se_worker_boot s' = se_worker_boot s \<and>
     se_registered s' = se_registered s \<and> se_observer s' = se_observer s"

lemma end_with_fields [simp]:
  "same_identity s (end_with r s)" "se_finished (end_with r s) = se_finished s" "same_identity s s"
  "se_phase (end_with r s) = Ending" "se_registered (end_with r s) = se_registered s"
  by (simp_all add: end_with_def same_identity_def)

lemma greeting_turn:
  assumes run: "greet socket_ok ev s c = (out, s', c')" and phase: "se_phase s = Greeting" and new: "\<not> se_registered s"
  shows "co_sessions c' = co_sessions c \<and> se_finished s' = se_finished s \<and>
    (co_engine c' = co_engine c \<and> \<not> se_registered s' \<or> registers ev s c s' c' \<and> se_phase s' \<noteq> Greeting)"
proof -
  have hello: "co_sessions b = co_sessions c \<and> se_finished a = se_finished s \<and>
      (co_engine b = co_engine c \<and> \<not> se_registered a \<or> registers ev s c a b)" if "answer_hello m s c = (w, a, b)" "received_hello ev m" for m w a b
    using that phase new
    by (auto simp: answer_hello_def Let_def refused_welcome_def count_rejected_def registers_def split: if_splits prod.splits)
  have ended: "registers ev s c (end_with r a) b = registers ev s c a b" "registers ev s c (a\<lparr>se_phase := p\<rparr>) b = registers ev s c a b" for r a b p
    by (simp_all add: registers_def end_with_def)
  have "co_sessions c' = co_sessions c \<and> se_finished s' = se_finished s \<and>
      (co_engine c' = co_engine c \<and> \<not> se_registered s' \<or> registers ev s c s' c' \<and> se_phase s' \<noteq> Greeting)"
    if "welcome_session socket_ok m s c = (out, s', c')" "received_hello ev m" for m
    using that(1) hello [OF _ that(2)] by (auto simp: welcome_session_def Let_def ended split: prod.splits if_splits)
  moreover have "decode_hello (open_reader payload) = (Inr m, r) \<Longrightarrow> ev = Got_frame MT_Hello payload \<Longrightarrow> received_hello ev m" for payload m r
    by (simp add: received_hello_def)
  ultimately show ?thesis
    using run new by (auto simp: greet_def split: received.splits if_splits sum.splits prod.splits)
qed

lemma session_authority_frames [simp]: "session_authority m (s\<lparr>se_frames := n\<rparr>) e = session_authority m s e"
  by (simp add: session_authority_def)

lemma serving_turn:
  assumes run: "serve io socket_ok ev s c = (out, s', c')" and phase: "se_phase s = Serving"
  shows "co_sessions c' = co_sessions c \<and> same_identity s s' \<and> se_finished s' = se_finished s \<and> se_phase s' \<in> {Serving, Ending} \<and>
    (co_engine c' = co_engine c \<or> publishes ev io s c c')"
proof -
  have got: "decode_publish (open_reader payload) = (Inr m, r) \<Longrightarrow> ev = Got_frame MT_Publish payload \<Longrightarrow> received_publish ev m" for payload m r
    by (simp add: received_publish_def)
  show ?thesis
    using assms got
    by (auto simp: serve_def serve_frame_def serve_publish_def respond_def publishes_def same_identity_def end_with_def
        split: received.splits if_splits sum.splits prod.splits)
qed

lemma closing_turn:
  assumes run: "close_session io s c = (s', c')" and phase: "se_phase s = Ending"
  shows "co_sessions c' = co_sessions c \<and> same_identity s s' \<and> se_finished s' \<and> se_phase s' = Ending \<and>
    (if se_registered s \<and> \<not> se_observer s then fences io s c c' else co_engine c' = co_engine c)"
  using assms by (auto simp: close_session_def fences_def same_identity_def Let_def split: if_splits prod.splits)

subsection \<open>Dead sessions\<close>

definition session_ok :: "coordinator \<Rightarrow> session \<Rightarrow> bool" where
  "session_ok c s \<longleftrightarrow> (se_phase s = Greeting \<longrightarrow> \<not> se_registered s) \<and> (se_registered s \<longrightarrow> \<not> se_observer s \<and> se_worker_boot s \<noteq> [] \<and>
     (se_finished s \<longrightarrow> se_worker_boot s \<in> en_fenced_boots (co_engine c)))"

definition fences_kept :: "coordinator \<Rightarrow> coordinator \<Rightarrow> bool" where
  "fences_kept c c' \<longleftrightarrow> en_fenced_boots (co_engine c) \<subseteq> en_fenced_boots (co_engine c')"

lemma session_ok_later: "session_ok c s \<Longrightarrow> fences_kept c c' \<Longrightarrow> session_ok c' s"
  by (auto simp: session_ok_def fences_kept_def)

lemma registers_ok:
  assumes "registers ev s c s' c'" "\<not> se_registered s" "\<not> se_finished s" "se_phase s' \<noteq> Greeting"
  shows "session_ok c' s' \<and> fences_kept c c'"
proof -
  obtain m v where m: "register_publisher (hello_registration c m) (co_engine c) = (v, co_engine c')" "se_worker_boot s' = hm_worker_boot m"
      "\<not> se_observer s'" "se_registered s' \<longrightarrow> outcome_is_success (outcome_of v)" "\<not> se_finished s'"
    using assms by (auto simp: registers_def)
  have "fences_kept c c'" using register_fences [of "co_engine c" "hello_registration c m"] m(1) by (simp add: fences_kept_def)
  moreover have "se_registered s' \<Longrightarrow> se_worker_boot s' \<noteq> []"
    using register_accepts [OF m(1)] m(2,4) by (simp add: hello_registration_def)
  ultimately show ?thesis using m(3,5) assms(4) by (simp add: session_ok_def)
qed

lemma turn_ok:
  assumes run: "session_turn io socket_ok ev s c = (out, s', c')" and ok: "session_ok c s" and live: "\<not> se_finished s"
  shows "co_sessions c' = co_sessions c \<and> fences_kept c c' \<and> session_ok c' s'"
proof (cases "se_phase s")
  case Greeting
  then have "\<not> se_registered s" using ok by (simp add: session_ok_def)
  with Greeting greeting_turn [of socket_ok ev s c out s' c'] run live registers_ok [of ev s c s' c'] show ?thesis
    by (auto simp: session_turn_def fences_kept_def session_ok_def)
next
  case Serving
  have "serve io socket_ok ev s c = (out, s', c')" using run by (simp add: session_turn_def Serving)
  note eff = serving_turn [OF this Serving]
  then have "fences_kept c c'" by (auto simp: fences_kept_def publishes_def publish_fences)
  with eff ok live Serving show ?thesis by (auto simp: session_ok_def same_identity_def)
next
  case Ending
  have "close_session io s c = (s', c')" using run by (simp add: session_turn_def Ending split: prod.splits)
  note eff = closing_turn [OF this Ending]
  let ?e = "snd (fence_boot io (se_worker_boot s) ''session_terminated'' (co_engine c))"
  show ?thesis
  proof (cases "se_registered s \<and> \<not> se_observer s")
    case True
    then have "co_engine c' = snd (fence_publisher io (se_publisher s) (se_worker_boot s) ''session_terminated'' ?e)"
      using eff by (simp add: fences_def)
    then have kept: "en_fenced_boots ?e \<subseteq> en_fenced_boots (co_engine c')" "fences_kept c c'"
      using fence_frames(2) [of ?e io "se_publisher s" "se_worker_boot s" "''session_terminated''"]
        fence_frames(4) [of "co_engine c" io "se_worker_boot s" "''session_terminated''"] by (auto simp: fences_kept_def)
    moreover have "se_worker_boot s \<in> en_fenced_boots ?e" using ok True by (intro fence_boot_fences) (simp add: session_ok_def)
    ultimately show ?thesis using eff ok True by (auto simp: session_ok_def same_identity_def)
  next
    case False
    then have "\<not> se_registered s" using ok by (auto simp: session_ok_def)
    with eff show ?thesis by (simp add: session_ok_def same_identity_def fences_kept_def)
  qed
qed

lemma define_domains_fences: "en_fenced_boots (snd (define_domains ds e)) = en_fenced_boots e"
proof (induction ds e rule: define_domains.induct)
  case (2 d ds e)
  have "en_fenced_boots (snd (define_domain d e)) = en_fenced_boots e" by (simp add: define_domain_def split: option.split)
  with 2 show ?case by (auto split: prod.split)
qed simp

lemma start_frame:
  assumes run: "start listening c = (v, c')"
  shows "co_sessions c' = co_sessions c \<and> en_fenced_boots (co_engine c') = en_fenced_boots (co_engine c)"
proof -
  obtain w c1 where c1: "configure_authority c = (w, c1)" by (cases "configure_authority c")
  obtain a b where d: "define_domains (co_domains c) (co_engine c) = (a, b)" by (cases "define_domains (co_domains c) (co_engine c)")
  have "c1 = c\<lparr>co_engine := b\<rparr>" using c1 by (cases a) (simp_all add: configure_authority_def d)
  moreover have "en_fenced_boots b = en_fenced_boots (co_engine c)"
    using define_domains_fences [of "co_domains c" "co_engine c"] unfolding d by simp
  ultimately have c1s: "co_sessions c1 = co_sessions c" "en_fenced_boots (co_engine c1) = en_fenced_boots (co_engine c)" by simp_all
  have "snd (start listening c) = (if co_running c then c else if outcome_of w \<noteq> O_Ok then c1 else
      case listening of Inl _ \<Rightarrow> c1\<lparr>co_stop := False\<rparr> | Inr p \<Rightarrow> c1\<lparr>co_stop := False, co_port := p, co_running := True\<rparr>)"
    by (simp add: start_def c1 Let_def split: sum.split)
  moreover have "c' = snd (start listening c)" using run by simp
  ultimately show ?thesis using c1s by (simp split: sum.split)
qed

lemma step_ok:
  assumes "co_step c c'" "\<forall>s \<in> set (co_sessions c). session_ok c s"
  shows "fences_kept c c' \<and> (\<forall>s \<in> set (co_sessions c'). session_ok c' s)"
  using assms(1)
proof cases
  case (start_step listening v)
  have "fences_kept c c'" using start_frame [OF start_step] by (simp add: fences_kept_def)
  with start_frame [OF start_step] assms(2) session_ok_later show ?thesis by auto
next
  case (accept_step peer out)
  then show ?thesis using assms(2)
    by (auto simp: accept_client_def fences_kept_def session_ok_def new_session_def split: if_splits)
next
  case (turn_step i io socket_ok ev out s c1)
  have "session_ok c (co_sessions c ! i)" using turn_step(2) assms(2) by simp
  note eff = turn_ok [OF turn_step(4) this turn_step(3)]
  have "fences_kept c c'" "session_ok c' s" using eff by (simp_all add: turn_step(1) fences_kept_def session_ok_def)
  moreover have "set (co_sessions c') \<subseteq> insert s (set (co_sessions c))"
    using eff by (simp add: turn_step(1) set_update_subset_insert)
  ultimately show ?thesis using assms(2) session_ok_later by blast
next
  case (stop_step joins)
  then show ?thesis using assms(2) by (auto simp: stop_coordinator_def fences_kept_def session_ok_def split: if_splits)
next
  case forget_step
  then show ?thesis by (simp add: forget_sessions_def fences_kept_def)
qed

lemma reachable_sessions_ok: "co_reachable c0 c \<Longrightarrow> \<forall>s \<in> set (co_sessions c). session_ok c s"
proof (induction rule: co_reachable.induct)
  case (step c c')
  then show ?case using step_ok by blast
qed simp

lemma later_ok:
  "co_step\<^sup>*\<^sup>* c c' \<Longrightarrow> \<forall>s \<in> set (co_sessions c). session_ok c s \<Longrightarrow> fences_kept c c' \<and> (\<forall>s \<in> set (co_sessions c'). session_ok c' s)"
proof (induction rule: rtranclp_induct)
  case (step c1 c2)
  then show ?case using step_ok [of c1 c2] by (auto simp: fences_kept_def)
qed (simp add: fences_kept_def)

text \<open>C13: however the sessions of a coordinator interleave, whatever their peers send and whether or
  not the disk fails, a registered session that has ended is fenced for good: from then on no
  request that claims its worker boot is authorised for anything, and the boot can never be
  registered again.\<close>

theorem ended_sessions_stay_fenced:
  assumes reach: "co_reachable c0 c" and s: "s \<in> set (co_sessions c)" "se_registered s" "se_finished s"
    and later: "co_step\<^sup>*\<^sup>* c c'"
  shows "(au_worker_boot au = se_worker_boot s \<longrightarrow> \<not> authorised (co_engine c') au d m) \<and>
    (rg_worker_boot r = se_worker_boot s \<longrightarrow> \<not> outcome_is_success (outcome_of (fst (register_publisher r (co_engine c')))))"
proof -
  have "se_worker_boot s \<in> en_fenced_boots (co_engine c')"
    using reachable_sessions_ok [OF reach] later_ok [OF later] s by (auto simp: session_ok_def fences_kept_def)
  then show ?thesis
    using register_accepts [of r "co_engine c'"] register_fences [of "co_engine c'" r]
    by (cases "register_publisher r (co_engine c')") (auto simp: authorised_iff)
qed

text \<open>C14: a session changes the engine only as itself. A turn of its thread leaves the engine as it
  is; or the thread has received a hello with the token and the epoch the coordinator demands,
  which is no observer's, and registers the publisher and the boot of that hello, with no more
  than the delegated grants, and the session takes on this identity; or it has received a
  publication and publishes it under the identity of the session and the current epoch, whatever
  identity the message claims; or, once the session is over, it fences its own boot. After the
  handshake the session keeps its identity. Observers, and peers that have not been welcomed,
  change nothing.\<close>

theorem session_acts_only_as_itself:
  assumes reach: "co_reachable c0 c" and s: "s \<in> set (co_sessions c)" "\<not> se_finished s"
    and run: "session_turn io socket_ok ev s c = (out, s', c')"
  shows "(se_phase s \<noteq> Greeting \<longrightarrow> se_publisher s' = se_publisher s \<and> se_worker_boot s' = se_worker_boot s \<and> se_observer s' = se_observer s) \<and>
   (co_engine c' = co_engine c \<or>
    (\<exists>payload (m :: hello_message) v. se_phase s = Greeting \<and> ev = Got_frame MT_Hello payload \<and> fst (decode_hello (open_reader payload)) = Inr m \<and>
       \<not> hm_observer m \<and> hm_coordinator_epoch m \<in> {0, en_epoch (co_engine c)} \<and> (co_token c = [] \<or> hm_token m = co_token c) \<and>
       se_publisher s' = hm_publisher m \<and> se_worker_boot s' = hm_worker_boot m \<and> \<not> se_observer s' \<and>
       register_publisher \<lparr>rg_publisher = hm_publisher m, rg_worker_boot = hm_worker_boot m, rg_coordinator_epoch = en_epoch (co_engine c),
         rg_grants = delegated_grants c (hm_requested_grants m), rg_reason = hm_process_label m\<rparr> (co_engine c) = (v, co_engine c')) \<or>
    (\<exists>payload (m :: publish_message) au. se_phase s = Serving \<and> \<not> se_observer s \<and>
       ev = Got_frame MT_Publish payload \<and> fst (decode_publish (open_reader payload)) = Inr m \<and>
       au_publisher au = se_publisher s \<and> au_worker_boot au = se_worker_boot s \<and> au_coordinator_epoch au = en_epoch (co_engine c) \<and>
       co_engine c' = snd (publish io au (pm_publication m) (co_engine c))) \<or>
    (se_phase s = Ending \<and> se_registered s \<and>
       co_engine c' = snd (fence_publisher io (se_publisher s) (se_worker_boot s) ''session_terminated''
         (snd (fence_boot io (se_worker_boot s) ''session_terminated'' (co_engine c))))))"
proof -
  have ok: "session_ok c s" using reachable_sessions_ok [OF reach] s(1) by simp
  show ?thesis
  proof (cases "se_phase s")
    case Greeting
    then have "\<not> se_registered s" using ok by (simp add: session_ok_def)
    moreover have "greet socket_ok ev s c = (out, s', c')" using run by (simp add: session_turn_def Greeting)
    ultimately consider "co_engine c' = co_engine c" | "registers ev s c s' c'" using greeting_turn [OF _ Greeting] by blast
    then show ?thesis
      using Greeting unfolding registers_def received_hello_def hello_registration_def by cases blast+
  next
    case Serving
    have "serve io socket_ok ev s c = (out, s', c')" using run by (simp add: session_turn_def Serving)
    note eff = serving_turn [OF this Serving]
    have as: "au_publisher (session_authority m s e) = se_publisher s \<and> au_worker_boot (session_authority m s e) = se_worker_boot s \<and>
        au_coordinator_epoch (session_authority m s e) = en_epoch e" for m e by (simp add: session_authority_def)
    from eff consider "co_engine c' = co_engine c" | "publishes ev io s c c'" by blast
    then show ?thesis
      using Serving eff as unfolding publishes_def received_publish_def same_identity_def by cases blast+
  next
    case Ending
    have "close_session io s c = (s', c')" using run by (simp add: session_turn_def Ending split: prod.splits)
    from closing_turn [OF this Ending] Ending show ?thesis by (auto simp: fences_def same_identity_def split: if_splits)
  qed
qed

text \<open>C15: a welcome means what it says, but for the grants. An accepted hello named the current epoch
  or none and the token; an observer gets nothing and changes nothing; any other peer is now
  registered under its boot, which is not fenced, with grants that are all among the requested
  ones and none above what the delegation policy allows. The grants the welcome lists are those
  requested, not those.\<close>

theorem handshake_contract:
  assumes run: "answer_hello m s c = (w, s', c')" and accepted: "wm_accepted w"
  shows "hm_coordinator_epoch m \<in> {0, en_epoch (co_engine c)} \<and> (co_token c = [] \<or> hm_token m = co_token c) \<and>
    (if hm_observer m then c' = c \<and> se_registered s' = se_registered s \<and> wm_granted w = []
     else se_registered s' \<and> wm_granted w = hm_requested_grants m \<and> hm_worker_boot m \<notin> en_fenced_boots (co_engine c') \<and>
       (\<exists>st. Mapping.lookup (en_publishers (co_engine c')) (hm_publisher m) = Some st \<and> pb_worker_boot st = hm_worker_boot m \<and>
          pb_coordinator_epoch st = en_epoch (co_engine c') \<and> \<not> pb_fenced st \<and>
          (\<forall>x \<in> set (pb_grants st). sg_mode x \<noteq> GM_None \<and> (\<exists>d \<in> set (co_domains c). dd_id d = sg_domain x) \<and>
             (\<exists>p \<in> set (co_grant_policy c). sg_domain p = sg_domain x \<and> sg_mode x \<le> sg_mode p) \<and>
             (\<exists>y \<in> set (hm_requested_grants m). sg_domain y = sg_domain x \<and> sg_mode x \<le> sg_mode y))))"
proof (cases "hm_observer m")
  case True
  with assms show ?thesis by (auto simp: answer_hello_def Let_def refused_welcome_def split: if_splits)
next
  case False
  obtain v e' where reg: "register_publisher (hello_registration c m) (co_engine c) = (v, e')" by fastforce
  have "outcome_is_success (outcome_of v)" "co_engine c' = e'" "se_registered s'" "wm_granted w = hm_requested_grants m"
    "hm_coordinator_epoch m \<in> {0, en_epoch (co_engine c)}" "co_token c = [] \<or> hm_token m = co_token c"
    using assms False reg by (auto simp: answer_hello_def Let_def refused_welcome_def split: if_splits)
  moreover have "\<forall>x \<in> set (delegated_grants c (hm_requested_grants m)). sg_mode x \<noteq> GM_None \<and> (\<exists>d \<in> set (co_domains c). dd_id d = sg_domain x) \<and>
      (\<exists>p \<in> set (co_grant_policy c). sg_domain p = sg_domain x \<and> sg_mode x \<le> sg_mode p) \<and>
      (\<exists>y \<in> set (hm_requested_grants m). sg_domain y = sg_domain x \<and> sg_mode x \<le> sg_mode y)"
  proof
    fix x assume "x \<in> set (delegated_grants c (hm_requested_grants m))"
    note b = delegated_grants_bounded [OF this]
    then have "delegated_mode c (sg_domain x) \<noteq> GM_None" by (cases "sg_mode x") (auto simp: less_eq_grant_mode_def)
    from delegated_mode_policy [OF this] b show "sg_mode x \<noteq> GM_None \<and> (\<exists>d \<in> set (co_domains c). dd_id d = sg_domain x) \<and>
      (\<exists>p \<in> set (co_grant_policy c). sg_domain p = sg_domain x \<and> sg_mode x \<le> sg_mode p) \<and>
      (\<exists>y \<in> set (hm_requested_grants m). sg_domain y = sg_domain x \<and> sg_mode x \<le> sg_mode y)" by metis
  qed
  ultimately show ?thesis
    using register_accepts [OF reg] False by (auto simp: hello_registration_def)
qed

text \<open>A peer may ask the coordinator to shut down, and any session may: the stop flag is raised, but the
  coordinator still counts as running, and the stop its owner calls afterwards returns at once,
  without signalling or joining a thread, because the flag is already up.\<close>

theorem shutdown_request_defeats_stop:
  assumes "fst (decode_shutdown (open_reader payload)) = Inr m"
  shows "case serve_frame io socket_ok MT_ShutdownRequest payload s c of (out, s', c') \<Rightarrow>
    se_phase s' = Ending \<and> c' = c\<lparr>co_stop := True\<rparr> \<and> co_running c' = co_running c \<and>
    fst (stop_coordinator c') = False \<and> co_sessions (snd (stop_coordinator c')) = co_sessions c"
  using assms by (simp add: serve_frame_def stop_coordinator_def)

subsection \<open>Instances\<close>

definition demo_coordinator :: coordinator where
  "demo_coordinator = \<lparr>co_bind_address = ''127.0.0.1'', co_port = 7000, co_domains = [sample_domain],
     co_grant_policy = [\<lparr>sg_domain = ''d'', sg_mode = GM_Read\<rparr>], co_token = ''secret'', co_max_sessions = 4,
     co_engine = new_engine demo_options, co_sessions = [], co_stop = False, co_running = True, co_fenced_workers = 0,
     co_accepted_sessions = 0, co_rejected_sessions = 0, co_published_publications = 0\<rparr>"

definition demo_hello :: hello_message where
  "demo_hello = \<lparr>hm_publisher = ''p'', hm_worker_boot = ''b'', hm_coordinator_epoch = 0, hm_process_label = ''agent'',
     hm_observer = False, hm_requested_grants = [\<lparr>sg_domain = ''d'', sg_mode = GM_AuthoritativeWrite\<rparr>], hm_token = ''secret'',
     hm_evidence_type = PT_Real\<rparr>"

lemma demo_answer:
  "fst (answer_hello demo_hello (new_session ''peer'') demo_coordinator) =
     \<lparr>wm_accepted = True, wm_coordinator_epoch = en_epoch (new_engine demo_options), wm_topology_generation = en_generation (new_engine demo_options),
      wm_granted = [\<lparr>sg_domain = ''d'', sg_mode = GM_AuthoritativeWrite\<rparr>], wm_session_id = sanitize_identifier ''peer'',
      wm_reason = make_status O_Committed ''registration.registered''\<rparr>"
  by (simp add: answer_hello_def Let_def demo_hello_def demo_coordinator_def new_session_def register_publisher_def hello_registration_def
      boot_is_fenced_def new_engine_def demo_options_def sample_options_def default_limits_def outcome_is_success_def make_status_def)

theorem handshake_contract_witness:
  "\<exists>w s' c'. answer_hello demo_hello (new_session ''peer'') demo_coordinator = (w, s', c') \<and>
     wm_granted w = [\<lparr>sg_domain = ''d'', sg_mode = GM_AuthoritativeWrite\<rparr>] \<and>
     (\<exists>st. Mapping.lookup (en_publishers (co_engine c')) ''p'' = Some st \<and> (\<forall>x \<in> set (pb_grants st). sg_mode x \<le> GM_Read))"
proof -
  obtain w s' c' where run: "answer_hello demo_hello (new_session ''peer'') demo_coordinator = (w, s', c')" by (metis prod_cases3)
  have "wm_accepted w" using demo_answer run by simp
  note contract = handshake_contract [OF run this]
  have hello: "\<not> hm_observer demo_hello" "hm_publisher demo_hello = ''p''"
    "hm_requested_grants demo_hello = [\<lparr>sg_domain = ''d'', sg_mode = GM_AuthoritativeWrite\<rparr>]" by (simp_all add: demo_hello_def)
  have "wm_granted w = hm_requested_grants demo_hello" using contract hello(1) by simp
  moreover obtain st where st: "Mapping.lookup (en_publishers (co_engine c')) ''p'' = Some st"
      "\<forall>x \<in> set (pb_grants st). \<exists>p \<in> set (co_grant_policy demo_coordinator). sg_mode x \<le> sg_mode p"
    using contract hello by fastforce
  moreover from st(2) have "\<forall>x \<in> set (pb_grants st). sg_mode x \<le> GM_Read" by (simp add: demo_coordinator_def)
  ultimately show ?thesis using run hello(3) by (intro exI [of _ w] exI [of _ s'] exI [of _ c']) simp
qed

theorem shutdown_request_defeats_stop_witness:
  "case serve_frame (\<lambda>_. Written) True MT_ShutdownRequest (encode_shutdown \<lparr>sm_reason = ''test'', sm_graceful = True\<rparr>)
      (new_session ''peer'') demo_coordinator of (out, s', c') \<Rightarrow> co_running c' \<and> fst (stop_coordinator c') = False"
proof -
  let ?m = "\<lparr>sm_reason = ''test'', sm_graceful = True\<rparr>"
  have "fst (decode_shutdown (open_reader (encode_shutdown ?m))) = Inr ?m"
    using shutdown_wire.decode_encode [of ?m "[]" "[]"] by (simp add: open_reading)
  from shutdown_request_defeats_stop [OF this, where io = "\<lambda>_. Written" and socket_ok = True and s = "new_session ''peer''" and
      c = demo_coordinator] show ?thesis
    by (auto simp: demo_coordinator_def split: prod.splits)
qed

text \<open>A peer is accepted and registered, its welcome cannot be delivered, and its session ends.\<close>

definition demo_joined :: coordinator where "demo_joined = snd (accept_client ''peer'' demo_coordinator)"

definition demo_turn :: "reply list \<times> session \<times> coordinator" where
  "demo_turn = session_turn (\<lambda>_. Written) False (Got_frame MT_Hello (encode_hello demo_hello)) (new_session ''peer'') demo_joined"

definition demo_greeted :: coordinator where
  "demo_greeted = (snd (snd demo_turn))\<lparr>co_sessions := [fst (snd demo_turn)]\<rparr>"

lemma demo_joined_eq: "demo_joined = demo_coordinator\<lparr>co_sessions := [new_session ''peer''], co_accepted_sessions := 1\<rparr>"
  by (simp add: demo_joined_def accept_client_def demo_coordinator_def)

lemma demo_joined_reachable: "co_reachable demo_coordinator demo_joined"
proof -
  have "demo_coordinator\<lparr>co_sessions := []\<rparr> = demo_coordinator" by (simp add: demo_coordinator_def)
  then have "co_reachable demo_coordinator demo_coordinator" using co_reachable.fresh [of demo_coordinator] by simp
  moreover have "co_step demo_coordinator demo_joined"
    by (rule accept_step [where peer = "''peer''" and out = "fst (accept_client ''peer'' demo_coordinator)"])
      (simp_all add: demo_joined_def demo_coordinator_def)
  ultimately show ?thesis by (rule co_reachable.step)
qed

lemma demo_decoded: "decode_hello (open_reader (encode_hello demo_hello)) = (Inr demo_hello, reading (encode_hello demo_hello) [])"
proof -
  have "hello_fits demo_hello"
    by (simp add: hello_fits_def demo_hello_def short_text_def kMaxIdentifierBytes_def grants_fit_def grant_fits_def)
  from hello_wire.decode_encode [OF this, of "[]" "[]"] show ?thesis by (simp add: open_reading)
qed

lemma demo_joined_answer:
  assumes "answer_hello demo_hello (new_session ''peer'') demo_joined = (w, s', c')"
  shows "se_registered s' \<and> \<not> se_observer s' \<and> \<not> se_finished s' \<and> se_worker_boot s' = ''b'' \<and> co_sessions c' = [new_session ''peer'']"
  using assms [symmetric]
  by (simp add: answer_hello_def Let_def demo_hello_def demo_joined_eq demo_coordinator_def new_session_def register_publisher_def
      hello_registration_def boot_is_fenced_def new_engine_def demo_options_def sample_options_def default_limits_def
      outcome_is_success_def make_status_def)

lemma demo_turn_facts:
  "co_sessions (snd (snd demo_turn)) = [new_session ''peer'']" "se_registered (fst (snd demo_turn))" "se_phase (fst (snd demo_turn)) = Ending"
  "\<not> se_observer (fst (snd demo_turn))" "\<not> se_finished (fst (snd demo_turn))" "se_worker_boot (fst (snd demo_turn)) = ''b''"
proof -
  obtain w s' c' where a: "answer_hello demo_hello (new_session ''peer'') demo_joined = (w, s', c')" by (metis prod_cases3)
  have "se_phase (new_session ''peer'') = Greeting" by (simp add: new_session_def)
  then have "snd demo_turn = (end_with ''welcome_send_failed'' s', c')"
    by (simp add: demo_turn_def session_turn_def greet_def demo_decoded welcome_session_def transmitted_def Let_def a)
  with demo_joined_answer [OF a] show
    "co_sessions (snd (snd demo_turn)) = [new_session ''peer'']" "se_registered (fst (snd demo_turn))" "se_phase (fst (snd demo_turn)) = Ending"
    "\<not> se_observer (fst (snd demo_turn))" "\<not> se_finished (fst (snd demo_turn))" "se_worker_boot (fst (snd demo_turn)) = ''b''"
    by (simp_all add: end_with_def)
qed

theorem session_acts_only_as_itself_witness:
  "co_engine (snd (snd demo_turn)) = co_engine demo_joined \<or>
   (\<exists>v. register_publisher \<lparr>rg_publisher = ''p'', rg_worker_boot = ''b'', rg_coordinator_epoch = en_epoch (co_engine demo_joined),
       rg_grants = delegated_grants demo_joined (hm_requested_grants demo_hello), rg_reason = ''agent''\<rparr> (co_engine demo_joined) =
     (v, co_engine (snd (snd demo_turn))))"
proof -
  have run: "session_turn (\<lambda>_. Written) False (Got_frame MT_Hello (encode_hello demo_hello)) (new_session ''peer'') demo_joined =
      (fst demo_turn, fst (snd demo_turn), snd (snd demo_turn))" by (simp add: demo_turn_def)
  have "new_session ''peer'' \<in> set (co_sessions demo_joined)" "\<not> se_finished (new_session ''peer'')" "se_phase (new_session ''peer'') = Greeting"
    by (simp_all add: demo_joined_eq new_session_def)
  moreover have "hm_publisher demo_hello = ''p''" "hm_worker_boot demo_hello = ''b''" "hm_process_label demo_hello = ''agent''"
    by (simp_all add: demo_hello_def)
  ultimately show ?thesis
    using session_acts_only_as_itself [OF demo_joined_reachable _ _ run] demo_decoded by fastforce
qed

theorem ended_sessions_stay_fenced_witness:
  "\<exists>c. co_reachable demo_coordinator c \<and> \<not> authorised (co_engine c) (demo_authority\<lparr>au_worker_boot := ''b''\<rparr>) ''d'' GM_Read"
proof -
  let ?s = "fst (snd demo_turn)"
  have "co_step demo_joined demo_greeted"
    using turn_step [of 0 demo_joined "\<lambda>_. Written" False "Got_frame MT_Hello (encode_hello demo_hello)" "fst demo_turn" ?s "snd (snd demo_turn)"]
      demo_turn_facts(1) by (simp add: demo_greeted_def demo_turn_def demo_joined_eq) (simp add: new_session_def)
  with demo_joined_reachable have greeted: "co_reachable demo_coordinator demo_greeted" by (rule co_reachable.step)
  obtain s c where closing: "close_session (\<lambda>_. Written) ?s demo_greeted = (s, c)" by fastforce
  note eff = closing_turn [OF closing demo_turn_facts(3)]
  have "co_step demo_greeted (c\<lparr>co_sessions := (co_sessions c)[0 := s]\<rparr>)"
    by (rule turn_step [where io = "\<lambda>_. Written" and out = "[]" and socket_ok = True and ev = Got_closed])
      (simp_all add: demo_greeted_def [THEN arg_cong [of _ _ co_sessions]] demo_turn_facts session_turn_def closing)
  with greeted have reach: "co_reachable demo_coordinator (c\<lparr>co_sessions := [s]\<rparr>)"
    using eff co_reachable.step [OF greeted] by (simp add: demo_greeted_def)
  have "s \<in> set (co_sessions (c\<lparr>co_sessions := [s]\<rparr>))" "se_registered s" "se_finished s" "se_worker_boot s = ''b''"
    using eff demo_turn_facts by (simp_all add: same_identity_def)
  with ended_sessions_stay_fenced [OF reach, of s] reach show ?thesis by fastforce
qed

subsection \<open>What a decoder lets through\<close>

lemma get_text_bound: "get_text m r = (s, r') \<Longrightarrow> length s \<le> m"
  using get_blob_bound [of m r] by (auto simp: get_text_def string_of_def split: prod.splits)

lemma load_each_all:
  assumes "load_each decode append_item n xs r = (Inr ys, r')" "\<And>r x r'. decode r = (Inr x, r') \<Longrightarrow> P x" "\<forall>x \<in> set xs. P x"
  shows "(\<forall>x \<in> set ys. P x) \<and> length ys = length xs + n"
  using assms
proof (induction n arbitrary: xs r)
  case (Suc n)
  obtain v q where v: "decode r = (v, q)" by (cases "decode r")
  with Suc.prems(1) obtain x where "v = Inr x" by (cases v) simp_all
  with v Suc.prems(1) have x: "decode r = (Inr x, q)" "load_each decode append_item n (xs @ [x]) q = (Inr ys, r')"
    by (simp_all add: append_item_def [of x xs])
  have "\<forall>z \<in> set (xs @ [x]). P z" using Suc.prems(2) [OF x(1)] Suc.prems(3) by simp
  from Suc.IH [OF x(2) Suc.prems(2) this] show ?case by simp
qed simp

lemma grants_decoded:
  assumes "decode_scope_grants r = (Inr xs, r')"
  shows "grants_fit xs"
proof -
  have grant: "decode_grant r = (Inr x, r') \<Longrightarrow> grant_fits x" for r x r'
    using get_text_bound [of kMaxIdentifierBytes r] by (auto simp: decode_grant_def grant_fits_def short_text_def split: prod.splits if_splits)
  obtain n q where "n \<le> 4096" "load_each decode_grant append_item n [] q = (Inr xs, r')"
    using assms that
    by (auto simp: not_less decode_scope_grants_def decode_list_def decode_small_count_def and_then_def if_ok_def split: prod.splits sum.splits if_splits)
  with load_each_all [OF this(2), where P = grant_fits] grant show ?thesis by (simp add: grants_fit_def)
qed

lemma hello_decoded:
  assumes "decode_hello r = (Inr m, r')"
  shows "hello_fits m"
proof -
  obtain a r1 where a: "get_text kMaxIdentifierBytes r = (a, r1)" by fastforce
  obtain b r2 where b: "get_text kMaxIdentifierBytes r1 = (b, r2)" by fastforce
  obtain v r3 where v: "get_u64 r2 = (v, r3)" by fastforce
  obtain l r4 where l: "get_text 1024 r3 = (l, r4)" by fastforce
  obtain x r5 where x: "get_boolean r4 = (x, r5)" by fastforce
  obtain t r6 where t: "decode_enum publication_types ''hello.evidence_type'' r5 = (Inr t, r6)"
    using assms by (cases "decode_enum publication_types ''hello.evidence_type'' r5")
      (auto simp: decode_hello_def a b v l x and_then_def split: sum.splits)
  obtain k r7 where k: "get_text 1024 r6 = (k, r7)" by fastforce
  have ids: "a \<noteq> []" "b \<noteq> []" and rest: "and_then (decode_scope_grants r7) (\<lambda>grants r. (Inr \<lparr>hm_publisher = a, hm_worker_boot = b,
      hm_coordinator_epoch = v, hm_process_label = l, hm_observer = x, hm_requested_grants = grants, hm_token = k, hm_evidence_type = t\<rparr>, r)) = (Inr m, r')"
    using assms by (simp_all add: decode_hello_def a b v l x t k split: if_splits)
  then obtain g r8 where "decode_scope_grants r7 = (Inr g, r8)" and m: "m = \<lparr>hm_publisher = a, hm_worker_boot = b,
      hm_coordinator_epoch = v, hm_process_label = l, hm_observer = x, hm_requested_grants = g, hm_token = k, hm_evidence_type = t\<rparr>"
    by (cases "decode_scope_grants r7") (auto simp: and_then_def split: sum.splits)
  with grants_decoded ids get_text_bound [OF a] get_text_bound [OF b] get_text_bound [OF l] get_text_bound [OF k] show ?thesis
    by (simp add: hello_fits_def short_text_def)
qed

lemma sanitized: "length (sanitize_identifier t) \<le> kMaxIdentifierBytes"
  by (simp add: sanitize_identifier_def Let_def)

lemma explained_fits:
  assumes "length c \<le> 128" "\<forall>f \<in> set fs. length (fst f) \<le> 64"
  shows "status_fits (explain v c fs)"
proof -
  have field: "status_fits (with_field s k u)" if fits: "status_fits s" and k: "length k \<le> 64" for s k u
  proof -
    have wf: "status_wf s" using fits by (simp add: status_fits_def)
    have "fields_of (with_field s k u) = take kMaxFields (upd_field k (take kMaxFieldValueBytes u) (fields_of s))"
      by (simp add: with_field_reference [OF wf])
    moreover have "set (upd_field k (take kMaxFieldValueBytes u) (fields_of s)) \<subseteq> insert (k, take kMaxFieldValueBytes u) (set (fields_of s))"
      using wf by (auto simp: status_wf_def set_upd_field)
    ultimately have "\<forall>f \<in> set (fields_of (with_field s k u)). length (fst f) \<le> 64"
      using fits k by (auto simp: status_fits_def dest!: in_set_takeD)
    then show ?thesis using fits wf by (simp add: status_fits_def outcome_simps)
  qed
  have "status_fits s \<Longrightarrow> status_fits (fold (\<lambda>f s. with_field s (fst f) (snd f)) fs s)" for s
    using assms(2) by (induction fs arbitrary: s) (auto simp: field)
  moreover have "status_fits (make_status v c)" using assms(1) by (simp add: status_fits_def make_status_def status_wf_def)
  ultimately show ?thesis by (simp add: explain_def)
qed

lemma made_fits: "length c \<le> 128 \<Longrightarrow> status_fits (make_status v c)"
  by (simp add: status_fits_def make_status_def status_wf_def)

lemma registration_status_fits: "status_fits (fst (register_publisher r e))"
  by (auto simp: register_publisher_def intro!: explained_fits made_fits split: option.split)

text \<open>C16: whatever bytes a peer sends as its hello, if they decode at all the answer of the
  coordinator, be it an acceptance or a refusal, is a welcome that the decoder of the peer reads
  back exactly: the session identifier, the reason with its fields and the grants are all within
  the bounds of the protocol.\<close>

theorem welcome_always_readable:
  assumes "decode_hello (open_reader payload) = (Inr m, r)"
  shows "decode_welcome (open_reader (encode_welcome (fst (answer_hello m s c)))) =
    (Inr (fst (answer_hello m s c)), reading (encode_welcome (fst (answer_hello m s c))) [])"
proof -
  have "grants_fit (hm_requested_grants m)" using hello_decoded [OF assms] by (simp add: hello_fits_def)
  moreover have "grants_fit []" "status_fits empty_status"
    by (simp_all add: grants_fit_def status_fits_def empty_status_def status_wf_def)
  moreover have "status_fits (fst (register_publisher (hello_registration c m) (co_engine c)))" by (rule registration_status_fits)
  ultimately have "welcome_fits (fst (answer_hello m s c))"
    by (auto simp: answer_hello_def Let_def refused_welcome_def welcome_fits_def short_text_def sanitized case_prod_beta
        intro!: explained_fits made_fits)
  from welcome_wire.decode_encode [OF this, of "[]" "[]"] show ?thesis by (simp add: open_reading)
qed

theorem welcome_always_readable_witness:
  "fst (decode_welcome (open_reader (encode_welcome (fst (answer_hello demo_hello (new_session ''peer'') demo_coordinator))))) =
    Inr (fst (answer_hello demo_hello (new_session ''peer'') demo_coordinator))"
  using welcome_always_readable [OF demo_decoded] by simp

end
