(* ===== verification/Framing.thy ===== *)
theory Framing
  imports Messages
begin

text \<open>
  The frame transport (\<open>src/runtime/frame_transport.cpp\<close>) above the socket: sending, the buffer of a receiver and its
  loop. The socket is a sequence of events, one for every round of \<open>select\<close> and \<open>recv\<close>: the loop has no
  bound of its own, so a receive that is still waiting when the events end has no result.
\<close>

subsection \<open>Transport\<close>

record transport =
  tr_limits :: limits
  tr_connected :: bool
  tr_buffer :: bytes
  tr_send_sequence :: u64
  tr_frames_received :: u64
  tr_stop :: bool

definition new_transport :: "limits \<Rightarrow> transport" where
  "new_transport lim = \<lparr>tr_limits = lim, tr_connected = True, tr_buffer = [], tr_send_sequence = 0, tr_frames_received = 0,
     tr_stop = False\<rparr>"

text \<open>What a round finds: nothing within the poll interval, a failing \<open>select\<close>, a readable socket that would block
  after all, data, the end of the stream, or a failing \<open>recv\<close>; or that the transport is to stop.\<close>

datatype socket_event = Quiet | Select_failed string | Would_block | Data bytes | Stream_end | Receive_failed string | Stopped

datatype receive_outcome = RO_Frame frame_header bytes | RO_Idle | RO_Closed | RO_Error string

fun receive :: "transport \<Rightarrow> socket_event list \<Rightarrow> (receive_outcome \<times> transport \<times> socket_event list) option" where
  "receive t evs =
     (case decode_frame (tr_buffer t) (tr_limits t) of
        Complete h payload n \<Rightarrow>
          Some (RO_Frame h payload, t\<lparr>tr_buffer := drop n (tr_buffer t), tr_frames_received := tr_frames_received t + 1\<rparr>, evs)
      | Malformed m \<Rightarrow> Some (RO_Error m, t, evs)
      | Incomplete \<Rightarrow>
          if max_frame_bytes (tr_limits t) + kFrameHeaderBytes < length (tr_buffer t)
          then Some (RO_Error ''transport.buffer_overflow'', t, evs)
          else if \<not> tr_connected t then Some (RO_Closed, t, evs)
          else if tr_stop t then Some (RO_Closed, t, evs)
          else case evs of
            [] \<Rightarrow> None
          | Quiet # evs \<Rightarrow> Some (RO_Idle, t, evs)
          | Select_failed m # evs \<Rightarrow> Some (RO_Error (''transport.select_failed: '' @ m), t, evs)
          | Would_block # evs \<Rightarrow> receive t evs
          | Data bs # evs \<Rightarrow> receive (t\<lparr>tr_buffer := tr_buffer t @ bs\<rparr>) evs
          | Stream_end # evs \<Rightarrow> Some (RO_Closed, t, evs)
          | Receive_failed m # evs \<Rightarrow> Some (RO_Error (''transport.receive_failed: '' @ m), t, evs)
          | Stopped # evs \<Rightarrow> receive (t\<lparr>tr_stop := True\<rparr>) evs)"

declare receive.simps [simp del]

text \<open>Sending: \<open>failure\<close> is the error of the socket, with the number of bytes it had taken. The result is the error,
  empty for success, and what went out.\<close>

definition send :: "(nat \<times> string) option \<Rightarrow> message_type \<Rightarrow> u32 \<Rightarrow> bytes \<Rightarrow> transport \<Rightarrow> string \<times> bytes \<times> transport" where
  "send failure mt flags payload t =
     (if \<not> tr_connected t then (''transport.not_connected'', [], t)
      else if max_frame_payload_bytes (tr_limits t) < length payload then (''transport.payload_too_large'', [], t)
      else
        let h = \<lparr>fh_version = kProtocolVersion, fh_type = mt, fh_flags = flags, fh_sequence = tr_send_sequence t + 1,
              fh_payload_bytes = of_nat (length payload), fh_payload_crc = crc32 payload\<rparr>;
            frame = encode_frame h payload in
        case failure of
          Some (n, m) \<Rightarrow> (''transport.send_failed: '' @ m, take n frame, t)
        | None \<Rightarrow> ([], frame, t\<lparr>tr_send_sequence := fh_sequence h\<rparr>))"

definition request_stop :: "transport \<Rightarrow> transport" where "request_stop t = t\<lparr>tr_stop := True\<rparr>"

definition close_transport :: "transport \<Rightarrow> transport" where
  "close_transport t = (request_stop t)\<lparr>tr_connected := False, tr_buffer := []\<rparr>"

text \<open>Several sends that all succeed, and several receives.\<close>

fun send_all :: "(message_type \<times> bytes) list \<Rightarrow> transport \<Rightarrow> bytes \<times> transport" where
  "send_all [] t = ([], t)"
| "send_all ((mt, payload) # ms) t =
     (case send None mt 0 payload t of (_, bs, t) \<Rightarrow> case send_all ms t of (cs, t) \<Rightarrow> (bs @ cs, t))"

fun receive_all :: "nat \<Rightarrow> transport \<Rightarrow> socket_event list \<Rightarrow> ((message_type \<times> bytes) list \<times> transport \<times> socket_event list) option" where
  "receive_all 0 t evs = Some ([], t, evs)"
| "receive_all (Suc n) t evs =
     (case receive t evs of
        Some (RO_Frame h payload, t, evs) \<Rightarrow>
          (case receive_all n t evs of
             Some (ms, t, evs) \<Rightarrow> Some ((fh_type h, payload) # ms, t, evs)
           | None \<Rightarrow> None)
      | _ \<Rightarrow> None)"

subsection \<open>Frames are what was written\<close>

interpretation u16_fixed: fixed_codec put_u16 get_u16 2
proof
  have "inj put_u16" using u16_codec.put_append_inject [OF TrueI TrueI, of _ "[]" _ "[]"] by (auto intro: injI)
  then show "\<exists>x. put_u16 x = bs" if "length bs = 2" for bs by (rule all_written [of put_u16 2 bs]) (use that in auto)
  show "2 \<le> rd_remaining r" if "rd_ok (snd (get_u16 r))" for r
    using that by (auto simp: get_u16_def get_u8_def need_def rd_fail_def rd_remaining_def split: if_splits bool.splits prod.splits)
qed

definition frame_header_bytes :: "frame_header \<Rightarrow> bytes" where
  "frame_header_bytes h =
     put_blob (bytes_of kProtocolMagic) @ put_u16 (fh_version h) @ put_u16 (message_type_code (fh_type h)) @
     put_u32 (fh_flags h) @ put_u64 (fh_sequence h) @ put_u32 (fh_payload_bytes h) @ put_u32 (fh_payload_crc h)"

definition frame_fits :: "limits \<Rightarrow> frame_header \<Rightarrow> bytes \<Rightarrow> bool" where
  "frame_fits lim h p \<longleftrightarrow> fh_version h = kProtocolVersion \<and> fh_type h \<noteq> MT_Invalid \<and> unat (fh_payload_bytes h) = length p \<and>
     fh_payload_crc h = crc32 p \<and> length p \<le> max_frame_payload_bytes lim"

lemma length_magic [simp]: "length kProtocolMagic = 4"
  by (simp add: kProtocolMagic_def)

lemma length_frame_header [simp]: "length (frame_header_bytes h) = kFrameHeaderBytes"
  by (simp add: frame_header_bytes_def kFrameHeaderBytes_def)

lemma message_type_codes [simp]:
  "message_type_from_code (message_type_code t) = (if t = MT_Invalid then None else Some t)"
  by (cases t) (simp_all add: message_type_from_code_def message_types_def kMessageTypeCount_def word_le_nat_alt)

lemma message_type_from_codeD: "message_type_from_code c = Some t \<Longrightarrow> c = message_type_code t \<and> t \<noteq> MT_Invalid"
proof -
  assume c: "message_type_from_code c = Some t"
  then have "unat c < 12" "unat c \<noteq> 0" and t: "t = message_types ! unat c"
    by (auto simp: message_type_from_code_def kMessageTypeCount_def word_le_nat_alt unat_eq_zero split: if_splits)
  then have "unat c = 1 \<or> unat c = 2 \<or> unat c = 3 \<or> unat c = 4 \<or> unat c = 5 \<or> unat c = 6 \<or> unat c = 7 \<or> unat c = 8 \<or>
      unat c = 9 \<or> unat c = 10 \<or> unat c = 11" by presburger
  then have "unat c = unat (message_type_code t) \<and> t \<noteq> MT_Invalid" by (elim disjE) (simp_all add: t message_types_def)
  then show ?thesis by (simp add: word_unat_eq_iff)
qed

lemma encode_frame_eq: "frame_fits lim h p \<Longrightarrow> encode_frame h p = frame_header_bytes h @ p"
proof -
  assume fits: "frame_fits lim h p"
  then have "of_nat (length p) = fh_payload_bytes h" unfolding frame_fits_def by (metis word_of_nat_eq_iff of_nat_unat ucast_id)
  with fits show ?thesis by (simp add: frame_fits_def encode_frame_def frame_header_bytes_def)
qed

lemma frame_header_reads:
  "get_blob 4 (reading [] (frame_header_bytes h)) = (bytes_of kProtocolMagic, reading (put_blob (bytes_of kProtocolMagic))
     (put_u16 (fh_version h) @ put_u16 (message_type_code (fh_type h)) @ put_u32 (fh_flags h) @ put_u64 (fh_sequence h) @
      put_u32 (fh_payload_bytes h) @ put_u32 (fh_payload_crc h)))"
  using get_blob_reading [of "bytes_of kProtocolMagic" 4 "[]"] by (simp add: frame_header_bytes_def)

lemma decode_after_header:
  "fh_type h \<noteq> MT_Invalid \<Longrightarrow> decode_frame (frame_header_bytes h @ q) lim =
     (if fh_version h \<noteq> kProtocolVersion then Malformed ''frame.version_unsupported''
      else if max_frame_payload_bytes lim < unat (fh_payload_bytes h) then Malformed ''frame.payload_too_large''
      else if length q < unat (fh_payload_bytes h) then Incomplete
      else if crc32 (take (unat (fh_payload_bytes h)) q) \<noteq> fh_payload_crc h then Malformed ''frame.crc_mismatch''
      else Complete h (take (unat (fh_payload_bytes h)) q) (kFrameHeaderBytes + unat (fh_payload_bytes h)))"
  by (simp add: decode_frame_def open_reading frame_header_reads get_put_reading
      u32_codec.get_reading [OF TrueI, where c = "[]", simplified] Let_def)

lemma decode_sent: "frame_fits lim h p \<Longrightarrow> decode_frame (encode_frame h p @ rest) lim = Complete h p (kFrameHeaderBytes + length p)"
  by (simp add: encode_frame_eq) (simp add: frame_fits_def decode_after_header)

lemma length_frame: "frame_fits lim h p \<Longrightarrow> length (encode_frame h p) = kFrameHeaderBytes + length p"
  by (simp add: encode_frame_eq)

lemma decode_part:
  assumes fits: "frame_fits lim h p" and split: "bs @ later = encode_frame h p @ rest" and part: "length bs < kFrameHeaderBytes + length p"
  shows "decode_frame bs lim = Incomplete"
proof (cases "length bs < kFrameHeaderBytes")
  case False
  have bs: "bs = take (length bs) (frame_header_bytes h @ p)"
    using split part by (metis append_eq_conv_conj encode_frame_eq [OF fits] length_frame [OF fits] less_imp_le take_append
        append.right_neutral diff_is_0_eq take_0)
  then have "bs = frame_header_bytes h @ take (length bs - kFrameHeaderBytes) p" using False by simp
  then obtain q where q: "bs = frame_header_bytes h @ q" "length q < length p" using part by (metis add_less_cancel_left length_append length_frame_header)
  then show ?thesis using fits by (simp add: decode_after_header frame_fits_def)
qed (simp add: decode_frame_def)

lemma decode_written:
  assumes "decode_frame buffer lim = Complete h p n"
  shows "frame_fits lim h p \<and> n = length (encode_frame h p) \<and> (\<exists>rest. buffer = encode_frame h p @ rest)"
proof -
  let ?top = "take kFrameHeaderBytes buffer"
  have long: "kFrameHeaderBytes \<le> length buffer" using assms by (simp add: decode_frame_def split: if_splits)
  obtain magic r1 where m: "get_blob 4 (reading [] ?top) = (magic, r1)" by (cases "get_blob 4 (reading [] ?top)")
  obtain version r2 where v: "get_u16 r1 = (version, r2)" by (cases "get_u16 r1")
  obtain code r3 where k: "get_u16 r2 = (code, r3)" by (cases "get_u16 r2")
  obtain flags r4 where f: "get_u32 r3 = (flags, r4)" by (cases "get_u32 r3")
  obtain number r5 where s: "get_u64 r4 = (number, r5)" by (cases "get_u64 r4")
  obtain len r6 where l: "get_u32 r5 = (len, r6)" by (cases "get_u32 r5")
  obtain crc r7 where c: "get_u32 r6 = (crc, r7)" by (cases "get_u32 r6")
  have ok: "rd_ok r1" "rd_ok r7" and magic: "magic = bytes_of kProtocolMagic" and t: "\<exists>t. message_type_from_code code = Some t"
    using assms long by (auto simp: decode_frame_def open_reading m v k f s l c split: if_splits option.splits)
  have "reads_within r2 r3" "reads_within r3 r4" "reads_within r4 r5" "reads_within r5 r6" "reads_within r6 r7"
    using u16_reader.within [of r2] u32_reader.within [of r3] u64_reader.within [of r4] u32_reader.within [of r5] u32_reader.within [of r6]
    by (simp_all add: k f s l c)
  then have oks: "rd_ok r6" "rd_ok r5" "rd_ok r4" "rd_ok r3" "rd_ok r2" using ok(2) by (auto simp: reads_within_def)
  obtain c1 where c1: "?top = put_blob magic @ c1" "r1 = reading ([] @ put_blob magic) c1" by (rule blob_written [OF m ok(1)])
  obtain c2 where c2: "c1 = put_u16 version @ c2" "r2 = reading (([] @ put_blob magic) @ put_u16 version) c2"
    by (rule u16_fixed.written [OF v [unfolded c1(2)] oks(5)])
  obtain c3 where c3: "c2 = put_u16 code @ c3" "r3 = reading ((([] @ put_blob magic) @ put_u16 version) @ put_u16 code) c3"
    by (rule u16_fixed.written [OF k [unfolded c2(2)] oks(4)])
  obtain a4 c4 where c4: "c3 = put_u32 flags @ c4" "r4 = reading a4 c4" by (rule u32_fixed.written [OF f [unfolded c3(2)] oks(3)])
  obtain a5 c5 where c5: "c4 = put_u64 number @ c5" "r5 = reading a5 c5" by (rule u64_fixed.written [OF s [unfolded c4(2)] oks(2)])
  obtain a6 c6 where c6: "c5 = put_u32 len @ c6" "r6 = reading a6 c6" by (rule u32_fixed.written [OF l [unfolded c5(2)] oks(1)])
  obtain c7 where c7: "c6 = put_u32 crc @ c7" by (rule u32_fixed.written [OF c [unfolded c6(2)] ok(2)])
  obtain t where t: "code = message_type_code t" "t \<noteq> MT_Invalid" using t message_type_from_codeD by blast
  let ?h = "\<lparr>fh_version = version, fh_type = t, fh_flags = flags, fh_sequence = number, fh_payload_bytes = len, fh_payload_crc = crc\<rparr>"
  have "?top = frame_header_bytes ?h @ c7"
    using c1(1) c2(1) c3(1) c4(1) c5(1) c6(1) c7 by (simp add: frame_header_bytes_def magic t(1))
  moreover from this have "length c7 = 0" using long by (metis length_append length_frame_header length_take min.absorb2 add_cancel_right_right)
  ultimately have buffer: "buffer = frame_header_bytes ?h @ drop kFrameHeaderBytes buffer"
    using append_take_drop_id [of kFrameHeaderBytes buffer] by simp
  let ?q = "drop kFrameHeaderBytes buffer"
  have "decode_frame (frame_header_bytes ?h @ ?q) lim = Complete h p n" using assms buffer by simp
  then have h: "h = ?h" and p: "p = take (unat len) ?q" and n: "n = kFrameHeaderBytes + unat len" and
    fits: "version = kProtocolVersion" "unat len \<le> max_frame_payload_bytes lim" "unat len \<le> length ?q" "crc32 p = crc"
    using t(2) by (auto simp: decode_after_header split: if_splits)
  have len: "length p = unat len" using fits(3) p by simp
  have f: "frame_fits lim h p" using fits t(2) len by (simp add: frame_fits_def h)
  have "encode_frame h p = frame_header_bytes ?h @ p" using encode_frame_eq [OF f] h by simp
  moreover have "?q = p @ drop (unat len) ?q" by (metis append_take_drop_id p)
  ultimately have "buffer = encode_frame h p @ drop (unat len) ?q" using buffer by (metis append.assoc)
  with f n len show ?thesis by (auto simp: length_frame [OF f])
qed

text \<open>C19: a receiver takes a frame off its buffer exactly if the buffer begins with what the sender
  writes for the header and the payload it delivers, of the spoken version and a message type of
  the protocol, with the length and the checksum of the payload and within the payload limit, and
  it consumes just that frame. So a frame that is cut short, of another version, of an unknown
  type, oversized, or whose payload does not match its length and checksum is not delivered. The
  checksum covers the payload alone: flags, sequence number and, among the types of the protocol,
  the message type that were altered on the way are delivered as they arrive.\<close>

theorem frame_accepted_iff_sent:
  "decode_frame buffer lim = Complete h p n \<longleftrightarrow>
     (\<exists>rest. buffer = encode_frame h p @ rest) \<and> n = length (encode_frame h p) \<and> fh_version h = kProtocolVersion \<and>
     fh_type h \<noteq> MT_Invalid \<and> unat (fh_payload_bytes h) = length p \<and> fh_payload_crc h = crc32 p \<and>
     length p \<le> max_frame_payload_bytes lim"
  using decode_written [of buffer lim h p n] decode_sent [of lim h p] length_frame [of lim h p]
  by (auto simp: frame_fits_def)

subsection \<open>A stream of frames\<close>

fun event_bytes :: "socket_event \<Rightarrow> bytes" where
  "event_bytes (Data bs) = bs" | "event_bytes _ = []"

definition stream_of :: "socket_event list \<Rightarrow> bytes" where "stream_of evs = concat (map event_bytes evs)"

definition flowing :: "socket_event list \<Rightarrow> bool" where "flowing evs \<longleftrightarrow> (\<forall>ev \<in> set evs. ev = Would_block \<or> (\<exists>bs. ev = Data bs))"

lemma receive_one:
  assumes "frame_fits (tr_limits t) h p" "max_frame_payload_bytes (tr_limits t) \<le> max_frame_bytes (tr_limits t)"
    "tr_connected t" "\<not> tr_stop t" "flowing evs" "tr_buffer t @ stream_of evs = encode_frame h p @ rest"
  shows "\<exists>b evs'. receive t evs = Some (RO_Frame h p, t\<lparr>tr_buffer := b, tr_frames_received := tr_frames_received t + 1\<rparr>, evs') \<and>
    b @ stream_of evs' = rest \<and> flowing evs'"
  using assms
proof (induction evs arbitrary: t)
  case Nil
  then have "tr_buffer t = encode_frame h p @ rest" by (simp add: stream_of_def)
  then show ?case using Nil by (subst receive.simps) (simp add: decode_sent length_frame)
next
  case (Cons ev evs)
  note len = length_frame [OF Cons.prems(1)]
  show ?case
  proof (cases "length (tr_buffer t) < kFrameHeaderBytes + length p")
    case True
    have part: "decode_frame (tr_buffer t) (tr_limits t) = Incomplete" by (rule decode_part [OF Cons.prems(1,6) True])
    have fits: "\<not> max_frame_bytes (tr_limits t) + kFrameHeaderBytes < length (tr_buffer t)"
      using True Cons.prems(1,2) by (simp add: frame_fits_def)
    have flow: "flowing evs" using Cons.prems(5) by (simp add: flowing_def)
    show ?thesis
    proof (cases "ev = Would_block")
      case True
      have "receive t (ev # evs) = receive t evs" using part fits Cons.prems(3,4) by (subst receive.simps) (simp add: True)
      then show ?thesis using Cons.IH [OF Cons.prems(1-4) flow] Cons.prems(6) by (simp add: stream_of_def True)
    next
      case False
      then obtain bs where ev: "ev = Data bs" using Cons.prems(5) by (auto simp: flowing_def)
      let ?t = "t\<lparr>tr_buffer := tr_buffer t @ bs\<rparr>"
      have "receive t (ev # evs) = receive ?t evs" using part fits Cons.prems(3,4) by (subst receive.simps) (simp add: ev)
      then show ?thesis using Cons.IH [of ?t] Cons.prems flow by (simp add: stream_of_def ev)
    qed
  next
    case False
    let ?b = "drop (kFrameHeaderBytes + length p) (tr_buffer t)"
    have "encode_frame h p = take (kFrameHeaderBytes + length p) (tr_buffer t)"
      using arg_cong [OF Cons.prems(6), of "take (kFrameHeaderBytes + length p)"] False len by simp
    then have b: "tr_buffer t = encode_frame h p @ ?b" by simp
    have "receive t (ev # evs) = Some (RO_Frame h p, t\<lparr>tr_buffer := ?b, tr_frames_received := tr_frames_received t + 1\<rparr>, ev # evs)"
      using decode_sent [OF Cons.prems(1), of ?b] b by (subst receive.simps) simp
    moreover have "?b @ stream_of (ev # evs) = rest" using Cons.prems(6) b by (metis append.assoc same_append_eq)
    ultimately show ?thesis using Cons.prems(5) by blast
  qed
qed

lemma send_all_receive_all:
  assumes "max_frame_payload_bytes lim \<le> max_frame_bytes lim" "max_frame_payload_bytes lim < 4294967296"
    "\<forall>(mt, p) \<in> set ms. mt \<noteq> MT_Invalid \<and> length p \<le> max_frame_payload_bytes lim"
    "tr_connected s" "tr_limits s = lim" "tr_connected t" "\<not> tr_stop t" "tr_limits t = lim" "flowing evs"
    "tr_buffer t @ stream_of evs = fst (send_all ms s)"
  shows "\<exists>t' evs'. receive_all (length ms) t evs = Some (ms, t', evs') \<and> tr_buffer t' = [] \<and> stream_of evs' = [] \<and>
    tr_frames_received t' = tr_frames_received t + of_nat (length ms)"
  using assms
proof (induction ms arbitrary: s t evs)
  case (Cons m ms)
  obtain mt p where m: "m = (mt, p)" by (cases m)
  let ?h = "\<lparr>fh_version = kProtocolVersion, fh_type = mt, fh_flags = 0, fh_sequence = tr_send_sequence s + 1,
      fh_payload_bytes = of_nat (length p), fh_payload_crc = crc32 p\<rparr>" and ?s = "s\<lparr>tr_send_sequence := tr_send_sequence s + 1\<rparr>"
  have p: "length p \<le> max_frame_payload_bytes lim" "mt \<noteq> MT_Invalid" using Cons.prems(3) by (auto simp: m)
  have sent: "fst (send_all (m # ms) s) = encode_frame ?h p @ fst (send_all ms ?s)"
    using p Cons.prems(4,5) by (simp add: m send_def Let_def split: prod.split)
  have "frame_fits (tr_limits t) ?h p" using p Cons.prems(2,8) by (simp add: frame_fits_def unat_of_nat)
  then obtain b evs' where got: "receive t evs = Some (RO_Frame ?h p, t\<lparr>tr_buffer := b, tr_frames_received := tr_frames_received t + 1\<rparr>, evs')"
      "b @ stream_of evs' = fst (send_all ms ?s)" "flowing evs'"
    using receive_one [of t ?h p evs "fst (send_all ms ?s)"] Cons.prems sent by auto
  let ?t = "t\<lparr>tr_buffer := b, tr_frames_received := tr_frames_received t + 1\<rparr>"
  from Cons.IH [of ?s ?t evs'] Cons.prems got obtain t' evs'' where "receive_all (length ms) ?t evs' = Some (ms, t', evs'')"
      "tr_buffer t' = []" "stream_of evs'' = []" "tr_frames_received t' = tr_frames_received t + 1 + of_nat (length ms)"
    by auto
  with got(1) show ?case by (simp add: m)
qed simp

text \<open>C17: what one side sends the other receives: however the stream of bytes is cut into pieces on
  its way, and however often the socket turns out not to be readable after all, as many receives
  as there were sends return, and they return the messages in their order, whole and unaltered,
  and leave nothing in the buffer.\<close>

theorem stream_delivers_frames:
  assumes "max_frame_payload_bytes lim \<le> max_frame_bytes lim" and "max_frame_payload_bytes lim < 4294967296"
    and "\<forall>(mt, p) \<in> set ms. mt \<noteq> MT_Invalid \<and> length p \<le> max_frame_payload_bytes lim"
    and "flowing evs" and "stream_of evs = fst (send_all ms (new_transport lim))"
  shows "\<exists>t' evs'. receive_all (length ms) (new_transport lim) evs = Some (ms, t', evs') \<and> tr_buffer t' = [] \<and>
    tr_frames_received t' = of_nat (length ms)"
  using send_all_receive_all [OF assms(1-3), of "new_transport lim" "new_transport lim" evs] assms(4,5)
  by (auto simp: new_transport_def)

theorem stream_delivers_frames_witness:
  "\<exists>t' evs'. receive_all 2 (new_transport default_limits)
     (let bs = fst (send_all [(MT_Goodbye, []), (MT_Fence, [1, 2])] (new_transport default_limits)) in
      [Data (take 5 bs), Would_block, Data (drop 5 bs)]) =
     Some ([(MT_Goodbye, []), (MT_Fence, [1, 2])], t', evs') \<and> tr_buffer t' = [] \<and> tr_frames_received t' = 2"
proof -
  let ?ms = "[(MT_Goodbye, []), (MT_Fence, [1, 2])] :: (message_type \<times> bytes) list"
  let ?bs = "fst (send_all ?ms (new_transport default_limits))"
  have "flowing [Data (take 5 ?bs), Would_block, Data (drop 5 ?bs)]" by (auto simp: flowing_def)
  moreover have "stream_of [Data (take 5 ?bs), Would_block, Data (drop 5 ?bs)] = ?bs" by (simp only: stream_of_def list.map event_bytes.simps concat.simps append_Nil append_Nil2 append_take_drop_id)
  moreover have "max_frame_payload_bytes default_limits \<le> max_frame_bytes default_limits" "max_frame_payload_bytes default_limits < 4294967296"
    "\<forall>(mt, p) \<in> set ?ms. mt \<noteq> MT_Invalid \<and> length p \<le> max_frame_payload_bytes default_limits"
    by (simp_all add: default_limits_def)
  ultimately have "\<exists>t' evs'. receive_all (length ?ms) (new_transport default_limits) [Data (take 5 ?bs), Would_block, Data (drop 5 ?bs)] =
      Some (?ms, t', evs') \<and> tr_buffer t' = [] \<and> tr_frames_received t' = of_nat (length ?ms)"
    by (intro stream_delivers_frames)
  moreover have "length ?ms = 2" by simp
  ultimately show ?thesis by (simp only: Let_def of_nat_numeral)
qed

end
