(* ===== verification/Client.thy ===== *)
theory Client
  imports Sessions Framing Publishing
begin

text \<open>
  The client side of the protocol (\<open>src/runtime/publisher_client.cpp\<close>). A request is sent over the transport and
  its answer awaited among what the transport receives; a request whose answer is still awaited
  when that ends has no result. Connecting, the process and the clock are parameters.
\<close>

subsection \<open>State\<close>

record client_options =
  po_host :: string
  po_port :: nat
  po_publisher :: string
  po_worker_boot :: string
  po_process_label :: string
  po_requested_grants :: "scope_grant list"
  po_token :: string
  po_evidence_type :: publication_type
  po_claimed_epoch :: u64
  po_observer :: bool
  po_limits :: limits

record client =
  cl_options :: client_options
  cl_transport :: transport
  cl_registered :: bool
  cl_welcome :: welcome_message
  cl_heartbeats :: u64

definition hex64 :: "u64 \<Rightarrow> string" where
  "hex64 v = map (\<lambda>i. ''0123456789abcdef'' ! unat (drop_bit (4 * i) v AND 15)) (rev [0..<16])"

definition make_worker_boot_id :: "string \<Rightarrow> u64 \<Rightarrow> u64 \<Rightarrow> string" where
  "make_worker_boot_id label process ticks =
     (let seed = ''boot|'' @ label @ ''|'' @ u64_string process @ ''|'' @ u64_string ticks in
      ''boot_'' @ hex64 (fnv1a64 (bytes_of seed)) @ hex64 (ticks XOR push_bit 17 process))"

subsection \<open>Requests and answers\<close>

text \<open>An idle receive looks at the clock: \<open>lates\<close> says, look by look, whether the deadline of the response has passed.\<close>

fun await :: "message_type \<Rightarrow> bool list \<Rightarrow> transport \<Rightarrow> socket_event list \<Rightarrow> ((string + bytes) \<times> transport) option" where
  "await expected lates t evs =
     (case receive t evs of
        None \<Rightarrow> None
      | Some (RO_Frame h payload, t, _) \<Rightarrow>
          Some (if fh_type h = expected then Inr payload
            else if fh_type h = MT_ErrorReport
            then Inl (case fst (decode_error_report (open_reader payload)) of
                Inr s \<Rightarrow> one_line s | Inl _ \<Rightarrow> ''protocol.error_report'')
            else Inl (''protocol.unexpected_message:'' @ message_type_string (fh_type h)), t)
      | Some (RO_Idle, t, evs) \<Rightarrow>
          (case lates of
             [] \<Rightarrow> None
           | late # lates \<Rightarrow> if late then Some (Inl ''protocol.response_deadline_exceeded'', t) else await expected lates t evs)
      | Some (RO_Closed, t, _) \<Rightarrow> Some (Inl ''protocol.connection_closed'', t)
      | Some (RO_Error m, t, _) \<Rightarrow> Some (Inl m, t))"

declare await.simps [simp del]

datatype reply_outcome = Send_failed string | No_answer string | Answer bytes

type_synonym 'a answered = "(status \<times> 'a option \<times> bytes \<times> client) option"

definition exchange ::
  "(nat \<times> string) option \<Rightarrow> bool list \<Rightarrow> socket_event list \<Rightarrow> message_type \<Rightarrow> bytes \<Rightarrow> message_type \<Rightarrow> client \<Rightarrow> (reply_outcome \<times> bytes \<times> client) option" where
  "exchange failure lates evs mt payload expected cl =
     (case send failure mt 0 payload (cl_transport cl) of (err, out, t) \<Rightarrow>
        if err \<noteq> [] then Some (Send_failed err, out, cl\<lparr>cl_transport := t\<rparr>)
        else case await expected lates t evs of
            None \<Rightarrow> None
          | Some (Inl m, t) \<Rightarrow> Some (No_answer m, out, cl\<lparr>cl_transport := t\<rparr>)
          | Some (Inr bs, t) \<Rightarrow> Some (Answer bs, out, cl\<lparr>cl_transport := t\<rparr>))"

definition failed_request :: "string \<Rightarrow> string \<Rightarrow> status" where
  "failed_request code detail = explain O_ProtocolViolation code [(''detail'', detail)]"

definition take_answer ::
  "string \<Rightarrow> string \<Rightarrow> (bytes \<Rightarrow> client \<Rightarrow> status \<times> 'a option \<times> client) \<Rightarrow> (reply_outcome \<times> bytes \<times> client) option \<Rightarrow> 'a answered" where
  "take_answer send_code answer_code use x =
     (case x of
        None \<Rightarrow> None
      | Some (Send_failed m, out, cl) \<Rightarrow> Some (failed_request send_code m, None, out, cl)
      | Some (No_answer m, out, cl) \<Rightarrow> Some (failed_request answer_code m, None, out, cl)
      | Some (Answer bs, out, cl) \<Rightarrow> (case use bs cl of (s, v, cl) \<Rightarrow> Some (s, v, out, cl)))"

subsection \<open>Operations\<close>

definition client_hello :: "client_options \<Rightarrow> hello_message" where
  "client_hello po = \<lparr>hm_publisher = po_publisher po, hm_worker_boot = po_worker_boot po, hm_coordinator_epoch = po_claimed_epoch po,
     hm_process_label = po_process_label po, hm_observer = po_observer po, hm_requested_grants = po_requested_grants po,
     hm_token = po_token po, hm_evidence_type = po_evidence_type po\<rparr>"

definition take_welcome :: "bytes \<Rightarrow> client \<Rightarrow> status \<times> welcome_message option \<times> client" where
  "take_welcome bs cl =
     (case decode_welcome (open_reader bs) of
        (Inl _, r) \<Rightarrow> (failed_request ''publisher.welcome_malformed'' (rd_error r), None, cl)
      | (Inr w, _) \<Rightarrow>
          let cl = cl\<lparr>cl_welcome := w\<rparr> in
          if \<not> wm_accepted w
          then (explain O_StaleAuthority ''publisher.registration_rejected'' [(''reason'', one_line (wm_reason w))], Some w, cl)
          else (explain O_Committed ''publisher.registered''
                  [(''coordinator_epoch'', u64_string (wm_coordinator_epoch w)),
                   (''topology_generation'', u64_string (wm_topology_generation w)), (''session'', wm_session_id w)],
                Some w, cl\<lparr>cl_registered := True\<rparr>))"

definition connect_and_register ::
  "string option \<Rightarrow> (nat \<times> string) option \<Rightarrow> bool list \<Rightarrow> socket_event list \<Rightarrow> client \<Rightarrow> welcome_message answered" where
  "connect_and_register no_socket failure lates evs cl =
     (let po = cl_options cl in
      case no_socket of
        Some m \<Rightarrow> Some (explain O_PersistenceIoFailure ''publisher.connect_failed''
            [(''detail'', m), (''host'', po_host po), (''port'', decimal (po_port po))], None, [], cl)
      | None \<Rightarrow> take_answer ''publisher.hello_send_failed'' ''publisher.welcome_failed'' take_welcome
          (exchange failure lates evs MT_Hello (encode_hello (client_hello po)) MT_Welcome
            (cl\<lparr>cl_transport := (cl_transport cl)\<lparr>tr_connected := True\<rparr>\<rparr>)))"

definition unregistered :: "client \<Rightarrow> 'a answered" where
  "unregistered cl = Some (make_status O_StaleAuthority ''publisher.not_registered'', None, [], cl)"

definition client_message :: "publication \<Rightarrow> client \<Rightarrow> publish_message" where
  "client_message p cl =
     \<lparr>pm_authority = \<lparr>au_coordinator_epoch = wm_coordinator_epoch (cl_welcome cl), au_publisher = po_publisher (cl_options cl),
        au_worker_boot = po_worker_boot (cl_options cl), au_evidence_generation = pu_evidence_generation p, au_attempt = [],
        au_publication = pu_id p\<rparr>,
      pm_publication = p\<rparr>"

definition take_result :: "bytes \<Rightarrow> client \<Rightarrow> status \<times> publication_result option \<times> client" where
  "take_result bs cl =
     (case decode_publish_result (open_reader bs) of
        (Inl _, r) \<Rightarrow> (failed_request ''publisher.publish_result_malformed'' (rd_error r), None, cl)
      | (Inr res, _) \<Rightarrow> (pr_status res, Some res, cl))"

definition client_publish :: "(nat \<times> string) option \<Rightarrow> bool list \<Rightarrow> socket_event list \<Rightarrow> publication \<Rightarrow> client \<Rightarrow> publication_result answered" where
  "client_publish failure lates evs p cl =
     (if \<not> cl_registered cl then unregistered cl
      else take_answer ''publisher.publish_send_failed'' ''publisher.publish_result_failed'' take_result
        (exchange failure lates evs MT_Publish (encode_publish (client_message p cl)) MT_PublishResult cl))"

definition take_heartbeat :: "bytes \<Rightarrow> client \<Rightarrow> status \<times> heartbeat_message option \<times> client" where
  "take_heartbeat bs cl =
     (case fst (decode_heartbeat (open_reader bs)) of
        Inl _ \<Rightarrow> (make_status O_ProtocolViolation ''publisher.heartbeat_malformed'', None, cl)
      | Inr m \<Rightarrow> (make_status O_Committed ''publisher.heartbeat_ok'', Some m, cl))"

definition client_heartbeat :: "(nat \<times> string) option \<Rightarrow> bool list \<Rightarrow> socket_event list \<Rightarrow> client \<Rightarrow> heartbeat_message answered" where
  "client_heartbeat failure lates evs cl =
     (if \<not> cl_registered cl then unregistered cl
      else let cl = cl\<lparr>cl_heartbeats := cl_heartbeats cl + 1\<rparr>;
               m = \<lparr>hb_coordinator_epoch = wm_coordinator_epoch (cl_welcome cl), hb_worker_boot = po_worker_boot (cl_options cl),
                 hb_counter = cl_heartbeats cl\<rparr> in
        take_answer ''publisher.heartbeat_send_failed'' ''publisher.heartbeat_failed'' take_heartbeat
          (exchange failure lates evs MT_Heartbeat (encode_heartbeat m) MT_Heartbeat cl))"

definition take_query :: "bytes \<Rightarrow> client \<Rightarrow> status \<times> query_result_message option \<times> client" where
  "take_query bs cl =
     (case fst (decode_query_result (open_reader bs)) of
        Inl _ \<Rightarrow> (make_status O_ProtocolViolation ''publisher.query_result_malformed'', None, cl)
      | Inr m \<Rightarrow> (qr_status m, Some m, cl))"

definition client_query :: "(nat \<times> string) option \<Rightarrow> bool list \<Rightarrow> socket_event list \<Rightarrow> string \<Rightarrow> string \<Rightarrow> client \<Rightarrow> query_result_message answered" where
  "client_query failure lates evs q argument cl =
     take_answer ''publisher.query_send_failed'' ''publisher.query_failed'' take_query
       (exchange failure lates evs MT_Query (encode_query \<lparr>qm_query = q, qm_argument = argument\<rparr>) MT_QueryResult cl)"

definition request_shutdown :: "(nat \<times> string) option \<Rightarrow> string \<Rightarrow> bool \<Rightarrow> client \<Rightarrow> status \<times> bytes \<times> client" where
  "request_shutdown failure reason graceful cl =
     (case send failure MT_ShutdownRequest 0 (encode_shutdown \<lparr>sm_reason = reason, sm_graceful = graceful\<rparr>) (cl_transport cl) of
        (err, out, t) \<Rightarrow>
          (if err \<noteq> [] then failed_request ''publisher.shutdown_send_failed'' err
           else make_status O_Committed ''publisher.shutdown_requested'', out, cl\<lparr>cl_transport := t\<rparr>))"

definition close_client :: "(nat \<times> string) option \<Rightarrow> client \<Rightarrow> bytes \<times> client" where
  "close_client failure cl =
     (case (if tr_connected (cl_transport cl) then send failure MT_Goodbye 0 (put_text ''client_closing'') (cl_transport cl)
            else ([], [], cl_transport cl)) of
        (_, out, t) \<Rightarrow> (out, cl\<lparr>cl_transport := close_transport t, cl_registered := False\<rparr>))"

subsection \<open>The client and the coordinator\<close>

text \<open>A connection with nothing under way.\<close>

definition idle_connection :: "limits \<Rightarrow> transport \<Rightarrow> bool" where
  "idle_connection lim t \<longleftrightarrow> tr_limits t = lim \<and> tr_connected t \<and> \<not> tr_stop t \<and> tr_buffer t = []"

text \<open>The bytes of a message on its way, and the transport that has sent it.\<close>

definition wire_of :: "message_type \<Rightarrow> bytes \<Rightarrow> transport \<Rightarrow> bytes" where
  "wire_of mt payload t = fst (snd (send None mt 0 payload t))"

definition carries :: "socket_event list \<Rightarrow> bytes \<Rightarrow> bool" where
  "carries evs bs \<longleftrightarrow> flowing evs \<and> stream_of evs = bs"

lemma sent_received:
  assumes lim: "max_frame_payload_bytes lim \<le> max_frame_bytes lim" "max_frame_payload_bytes lim < 4294967296"
    and s: "idle_connection lim s" and t: "idle_connection lim t" and p: "length p \<le> max_frame_payload_bytes lim" "mt \<noteq> MT_Invalid"
    and evs: "carries evs (wire_of mt p s)"
  shows "\<exists>h t' evs'. receive t evs = Some (RO_Frame h p, t', evs') \<and> fh_type h = mt \<and> idle_connection lim t'"
proof -
  let ?h = "\<lparr>fh_version = kProtocolVersion, fh_type = mt, fh_flags = 0, fh_sequence = tr_send_sequence s + 1,
      fh_payload_bytes = of_nat (length p), fh_payload_crc = crc32 p\<rparr>"
  have wire: "wire_of mt p s = encode_frame ?h p" using s p by (simp add: wire_of_def send_def idle_connection_def Let_def)
  have "frame_fits (tr_limits t) ?h p" using p t lim(2) by (simp add: frame_fits_def unat_of_nat idle_connection_def)
  from receive_one [OF this, of evs "[]"] obtain b evs' where
    "receive t evs = Some (RO_Frame ?h p, t\<lparr>tr_buffer := b, tr_frames_received := tr_frames_received t + 1\<rparr>, evs')" "b = []"
    using t lim(1) evs by (auto simp: idle_connection_def carries_def wire)
  then show ?thesis using t by (auto simp: idle_connection_def)
qed

lemma send_ok:
  "idle_connection lim t \<Longrightarrow> length p \<le> max_frame_payload_bytes lim \<Longrightarrow>
     \<exists>t'. send None mt 0 p t = ([], wire_of mt p t, t') \<and> idle_connection lim t'"
  by (simp add: send_def wire_of_def idle_connection_def Let_def)

lemma exchanged:
  assumes "max_frame_payload_bytes lim \<le> max_frame_bytes lim" "max_frame_payload_bytes lim < 4294967296"
    and "idle_connection lim (cl_transport cl)" "idle_connection lim t"
    and "length payload \<le> max_frame_payload_bytes lim" "length bs \<le> max_frame_payload_bytes lim" "expected \<noteq> MT_Invalid"
    and "carries evs (wire_of expected bs t)"
  shows "\<exists>t'. exchange None lates evs mt payload expected cl =
    Some (Answer bs, wire_of mt payload (cl_transport cl), cl\<lparr>cl_transport := t'\<rparr>) \<and> idle_connection lim t'"
proof -
  obtain t1 where sent: "send None mt 0 payload (cl_transport cl) = ([], wire_of mt payload (cl_transport cl), t1)" "idle_connection lim t1"
    using send_ok [OF assms(3,5)] by blast
  obtain h t' evs' where "receive t1 evs = Some (RO_Frame h bs, t', evs')" "fh_type h = expected" "idle_connection lim t'"
    using sent_received [OF assms(1,2,4) sent(2) assms(6-8)] by blast
  then show ?thesis by (intro exI [of _ t']) (simp add: exchange_def sent(1) await.simps)
qed

text \<open>C18: a publication made through a client is the publication made on the engine of the
  coordinator. Within the bounds of the protocol, and however the two streams are cut into pieces,
  the session receives the message the client has built; its handler runs \<open>publish\<close>
  under the authority of the session and the current epoch; and once the client has received the
  answer, it returns the status of that publication and, but for the counters that are not sent,
  its whole result.\<close>

theorem remote_publish_is_local_publish:
  assumes lim: "max_frame_payload_bytes lim \<le> max_frame_bytes lim" "max_frame_payload_bytes lim < 4294967296"
    and client: "cl_registered cl" "idle_connection lim (cl_transport cl)" "publish_fits (client_message p cl)"
      "length (encode_publish (client_message p cl)) \<le> max_frame_payload_bytes lim"
    and session: "\<not> se_observer s" "idle_connection lim t"
    and published: "publish io \<lparr>au_coordinator_epoch = en_epoch (co_engine c), au_publisher = se_publisher s, au_worker_boot = se_worker_boot s,
        au_evidence_generation = pu_evidence_generation p, au_attempt = [], au_publication = pu_id p\<rparr> p (co_engine c) = (r, e)"
      "publish_result_fits r" "length (encode_publish_result r) \<le> max_frame_payload_bytes lim"
    and request: "carries evs (wire_of MT_Publish (encode_publish (client_message p cl)) (cl_transport cl))"
  shows "\<exists>h bs t' evs' answer s' c'. receive t evs = Some (RO_Frame h bs, t', evs') \<and>
    serve_frame io socket_ok (fh_type h) bs s c = ([(MT_PublishResult, answer)], s', c') \<and> co_engine c' = e \<and>
    (\<forall>returned. carries returned (wire_of MT_PublishResult answer t') \<longrightarrow>
      (\<exists>out cl'. client_publish None lates returned p cl = Some (pr_status r, Some (received_result r), out, cl')))"
proof -
  let ?m = "client_message p cl" and ?bs = "encode_publish_result r"
  obtain h t' evs' where got: "receive t evs = Some (RO_Frame h (encode_publish ?m), t', evs')" "fh_type h = MT_Publish" "idle_connection lim t'"
    using sent_received [OF lim client(2) session(2) client(4) _ request] by auto
  have "decode_publish (open_reader (encode_publish ?m)) = (Inr ?m, reading (encode_publish ?m) [])"
    using publish_wire.decode_encode [OF client(3), of "[]" "[]"] by (simp add: open_reading)
  then have "\<exists>s' c'. serve_frame io socket_ok MT_Publish (encode_publish ?m) s c = ([(MT_PublishResult, ?bs)], s', c') \<and> co_engine c' = e"
    using session(1) published(1) by (simp add: serve_frame_def serve_publish_def session_authority_def respond_def client_message_def)
  moreover have "\<exists>out cl'. client_publish None lates returned p cl = Some (pr_status r, Some (received_result r), out, cl')"
    if returned: "carries returned (wire_of MT_PublishResult ?bs t')" for returned
  proof -
    have "decode_publish_result (open_reader ?bs) = (Inr (received_result r), reading ?bs [])"
      using publish_result_reading [OF published(2), of "[]" "[]"] by (simp add: open_reading)
    moreover obtain t'' where "exchange None lates returned MT_Publish (encode_publish ?m) MT_PublishResult cl =
        Some (Answer ?bs, wire_of MT_Publish (encode_publish ?m) (cl_transport cl), cl\<lparr>cl_transport := t''\<rparr>)"
      using exchanged [OF lim client(2) got(3) client(4) published(3) _ returned] by blast
    ultimately show ?thesis using client(1)
      by (simp add: client_publish_def take_answer_def take_result_def received_result_def)
  qed
  ultimately show ?thesis using got(1,2) by metis
qed

text \<open>A publication in a domain the coordinator does not have.\<close>

definition demo_client :: client where
  "demo_client = \<lparr>cl_options = \<lparr>po_host = ''127.0.0.1'', po_port = 7000, po_publisher = ''p'', po_worker_boot = ''b'', po_process_label = ''agent'',
       po_requested_grants = [], po_token = ''secret'', po_evidence_type = PT_Real, po_claimed_epoch = 0, po_observer = False,
       po_limits = default_limits\<rparr>,
     cl_transport = new_transport default_limits, cl_registered = True,
     cl_welcome = \<lparr>wm_accepted = True, wm_coordinator_epoch = 0, wm_topology_generation = 0, wm_granted = [], wm_session_id = [],
       wm_reason = make_status O_Committed ''session.accepted''\<rparr>, cl_heartbeats = 0\<rparr>"

lemma remote_idle: "idle_connection default_limits (cl_transport demo_client)" "idle_connection default_limits (new_transport default_limits)"
  by (simp_all add: idle_connection_def demo_client_def new_transport_def)

lemma remote_message: "publish_fits (client_message (demo_publication m) demo_client)"
    "length (encode_publish (client_message (demo_publication m) demo_client)) \<le> max_frame_payload_bytes default_limits"
proof -
  show "publish_fits (client_message (demo_publication m) demo_client)"
    by (simp add: client_message_def demo_client_def demo_publication_def demo_observed_def publish_fits_def authority_fits_def publication_fits_def
        observed_node_fits_def short_text_def kMaxIdentifierBytes_def metadata_wf_def metadata_ok_def)
  show "length (encode_publish (client_message (demo_publication m) demo_client)) \<le> max_frame_payload_bytes default_limits"
    by (simp add: client_message_def demo_client_def demo_publication_def demo_observed_def encode_publish_def encode_authority_def
        encode_publication_def encode_items_def encode_observed_node_def encode_metadata_def default_limits_def)
qed

definition demo_refusal :: status where
  "demo_refusal = explain O_DomainViolation ''publication.domain_unknown'' [(''domain'', ''d'')]"

lemma remote_refused:
  "publish io au (demo_publication m) (co_engine demo_coordinator) =
     publication_refused demo_refusal (co_engine demo_coordinator)"
proof -
  have "publication_malformed default_limits (demo_publication m) = None"
    by (simp add: publication_malformed_def demo_publication_def observed_malformed_def demo_observed_def)
      (simp add: default_limits_def metadata_validate_def kMaxIdentifierBytes_def)
  then show ?thesis
    by (simp add: publish_def demo_coordinator_def new_engine_def demo_refusal_def demo_options_def sample_options_def has_key_def
        new_graph_def lookup_simps)
qed

lemma remote_answer:
  "publish_result_fits (publication_answer demo_refusal e)"
  "length (encode_publish_result (publication_answer demo_refusal e)) \<le> max_frame_payload_bytes default_limits"
proof -
  have "status_fits demo_refusal" unfolding demo_refusal_def by (rule explained_fits) simp_all
  then show "publish_result_fits (publication_answer demo_refusal e)"
    by (simp add: publish_result_fits_def publication_answer_def empty_diff_def no_counts_def counts_fit_def)
  have fields: "fields_of demo_refusal = [(''domain'', ''d'')]" "code_of demo_refusal = ''publication.domain_unknown''"
    by (simp_all add: demo_refusal_def explain_def with_field_def make_status_def kMaxFields_def kMaxFieldValueBytes_def)
  show "length (encode_publish_result (publication_answer demo_refusal e)) \<le> max_frame_payload_bytes default_limits"
    by (simp add: encode_publish_result_def publication_answer_def empty_diff_def no_counts_def encode_explanation_def fields
        encode_items_def encode_field_def default_limits_def)
qed

lemma cut_carries: "carries [Data (take n bs), Would_block, Data (drop n bs)] bs"
  by (auto simp: carries_def flowing_def stream_of_def)

theorem remote_publish_is_local_publish_witness:
  "\<exists>returned r out cl. client_publish None [] returned (demo_publication PM_Incremental) demo_client = Some (demo_refusal, Some r, out, cl)"
proof -
  let ?p = "demo_publication PM_Incremental" and ?io = "\<lambda>_. Written" and ?s = "new_session ''peer''"
  let ?r = "publication_answer demo_refusal (co_engine demo_coordinator)"
  let ?wire = "wire_of MT_Publish (encode_publish (client_message ?p demo_client)) (cl_transport demo_client)"
  have limits: "max_frame_payload_bytes default_limits \<le> max_frame_bytes default_limits" "max_frame_payload_bytes default_limits < 4294967296"
    by (simp_all add: default_limits_def)
  have local_publish: "publish ?io au ?p (co_engine demo_coordinator) = (?r, snd (publication_refused demo_refusal (co_engine demo_coordinator)))" for au
    by (simp add: remote_refused publication_refused_def)
  have "cl_registered demo_client" "\<not> se_observer ?s" by (simp_all add: demo_client_def new_session_def)
  from remote_publish_is_local_publish [OF limits this(1) remote_idle(1) remote_message this(2) remote_idle(2) local_publish remote_answer cut_carries]
  obtain t' answer where "\<forall>returned. carries returned (wire_of MT_PublishResult answer t') \<longrightarrow>
      (\<exists>out cl. client_publish None [] returned ?p demo_client = Some (pr_status ?r, Some (received_result ?r), out, cl))" by blast
  with cut_carries [of 5 "wire_of MT_PublishResult answer t'"] show ?thesis by (fastforce simp: publication_answer_def)
qed

end
