(* ===== verification/Seed.thy ===== *)
theory Seed
  imports Authority
begin

text \<open>
  The registry seed (\<open>src/runtime/registry_seed.cpp\<close>): a directory written as text, one record to a line, and read
  back into a directory. The file is its text; that it cannot be opened, or written, is a parameter.
\<close>

subsection \<open>Writing\<close>

definition seed_header :: string where
  "seed_header =
     ''# Fabric Registry seed consumed by the Fabric Topology tools.'' @ newline @
     ''# entity <identifier> <CLASS> <generation> [superseded-by <identifier>] [retired]'' @ newline"

definition seed_line :: "entity_record \<Rightarrow> string" where
  "seed_line rec =
     ''entity '' @ er_entity_id rec @ '' '' @ entity_class_string (er_entity_class rec) @ '' '' @ u64_string (er_generation rec) @
     (if er_superseded rec \<and> er_superseded_by rec \<noteq> [] then '' superseded-by '' @ er_superseded_by rec else []) @
     (if er_retired rec then '' retired'' else []) @ newline"

text \<open>The records are sorted by identifier, then by generation.\<close>

definition sort_records :: "entity_record list \<Rightarrow> entity_record list" where
  "sort_records recs = sort_key er_entity_id (sort_key er_generation recs)"

definition seed_text :: "entity_record list \<Rightarrow> string" where
  "seed_text recs = seed_header @ concat (map seed_line (sort_records recs))"

text \<open>The file has the new content only if it was written and renamed.\<close>

definition write_registry_seed :: "string \<Rightarrow> file_result \<Rightarrow> entity_record list \<Rightarrow> status \<times> string option" where
  "write_registry_seed path r recs =
     (case r of
        Open_failed \<Rightarrow> (explain O_PersistenceIoFailure ''registry_seed.open_failed'' [(''path'', path @ ''.tmp'')], None)
      | Write_failed \<Rightarrow> (explain O_PersistenceIoFailure ''registry_seed.write_failed'' [(''path'', path @ ''.tmp'')], None)
      | Rename_failed detail \<Rightarrow>
          (explain O_PersistenceIoFailure ''registry_seed.rename_failed'' [(''path'', path), (''detail'', detail)], None)
      | Written \<Rightarrow>
          (explain O_Ok ''registry_seed.written'' [(''path'', path), (''records'', decimal (length recs))], Some (seed_text recs)))"

subsection \<open>Reading\<close>

text \<open>\<open>getline\<close>: the text after the last line feed is a line of its own unless it is empty.\<close>

function lines_of :: "string \<Rightarrow> string list" where
  "lines_of text =
     (if text = [] then []
      else takeWhile (\<lambda>c. [c] \<noteq> newline) text # lines_of (tl (dropWhile (\<lambda>c. [c] \<noteq> newline) text)))"
  by auto
termination
proof (relation "measure length")
  fix t :: string
  assume "t \<noteq> []"
  moreover have "length (dropWhile (\<lambda>c. [c] \<noteq> newline) t) \<le> length t" by (rule length_dropWhile_le)
  ultimately show "(tl (dropWhile (\<lambda>c. [c] \<noteq> newline) t), t) \<in> measure length" by (cases t) auto
qed simp

declare lines_of.simps [simp del]

definition blanks :: string where "blanks = [CHR '' '', CHR 0x09]"
definition white :: string where "white = [CHR '' '', CHR 0x09, CHR 0x0A, CHR 0x0B, CHR 0x0C, CHR 0x0D]"

definition trim_line :: "string \<Rightarrow> string" where
  "trim_line line =
     dropWhile (\<lambda>c. c \<in> set blanks) (rev (dropWhile (\<lambda>c. c = CHR 0x0D \<or> c \<in> set blanks) (rev line)))"

text \<open>The words an input stream extracts one after the other.\<close>

function fields :: "string \<Rightarrow> string list" where
  "fields s =
     (let s = dropWhile (\<lambda>c. c \<in> set white) s in
      if s = [] then [] else takeWhile (\<lambda>c. c \<notin> set white) s # fields (dropWhile (\<lambda>c. c \<notin> set white) s))"
  by auto
termination
proof (relation "measure length")
  fix s s' :: string
  assume s: "s' = dropWhile (\<lambda>c. c \<in> set white) s" "s' \<noteq> []"
  then have "hd s' \<notin> set white" using hd_dropWhile [of "\<lambda>c. c \<in> set white" s] by simp
  then have "length (dropWhile (\<lambda>c. c \<notin> set white) s') < length s'"
    using s(2) length_dropWhile_le [of "\<lambda>c. c \<notin> set white" "tl s'"] by (cases s') auto
  also have "\<dots> \<le> length s" unfolding s(1) by (rule length_dropWhile_le)
  finally show "(dropWhile (\<lambda>c. c \<notin> set white) s', s) \<in> measure length" by simp
qed simp

declare fields.simps [simp del]

text \<open>\<open>std::stoull\<close>: an optional sign, then digits up to the first other character. A negative number
  wraps; no digits and a number beyond 64 bits are errors.\<close>

definition is_digit :: "char \<Rightarrow> bool" where "is_digit c \<longleftrightarrow> CHR ''0'' \<le> c \<and> c \<le> CHR ''9''"

definition digits_value :: "string \<Rightarrow> nat" where
  "digits_value s = fold (\<lambda>c n. 10 * n + (of_char c - 48)) s 0"

definition stoull :: "string \<Rightarrow> u64 option" where
  "stoull s =
     (let negative = (s \<noteq> [] \<and> hd s = CHR ''-'');
          ds = takeWhile is_digit (if s \<noteq> [] \<and> (hd s = CHR ''-'' \<or> hd s = CHR ''+'') then tl s else s) in
      if ds = [] \<or> 18446744073709551616 \<le> digits_value ds then None
      else Some (if negative then - of_nat (digits_value ds) else of_nat (digits_value ds)))"

fun load_trailer :: "nat \<Rightarrow> string list \<Rightarrow> entity_record \<Rightarrow> status + entity_record" where
  "load_trailer n [] rec = Inr rec"
| "load_trailer n (w # ws) rec =
     (if w = ''retired'' then load_trailer n ws (rec\<lparr>er_retired := True\<rparr>)
      else if w = ''superseded-by''
      then (case ws of
          [] \<Rightarrow> Inl (explain O_MalformedRequest ''registry_seed.missing_successor'' [(''line'', decimal n)])
        | s # ws \<Rightarrow> load_trailer n ws (rec\<lparr>er_superseded := True, er_superseded_by := s\<rparr>))
      else Inl (explain O_MalformedRequest ''registry_seed.unknown_field'' [(''line'', decimal n), (''field'', w)]))"

definition load_record :: "string \<Rightarrow> nat \<Rightarrow> string \<Rightarrow> status + entity_record" where
  "load_record path n line =
     (case fields line of
        keyword # key # class_text # generation_text # trailer \<Rightarrow>
          if keyword \<noteq> ''entity'' then Inl (explain O_MalformedRequest ''registry_seed.malformed_line'' [(''path'', path), (''line'', decimal n)])
          else (case entity_class_from_string class_text of
              None \<Rightarrow> Inl (explain O_MalformedRequest ''registry_seed.unknown_class'' [(''line'', decimal n), (''class'', class_text)])
            | Some c \<Rightarrow>
                (case stoull generation_text of
                   None \<Rightarrow> Inl (explain O_MalformedRequest ''registry_seed.bad_generation'' [(''line'', decimal n)])
                 | Some g \<Rightarrow> load_trailer n trailer
                     \<lparr>er_entity_id = key, er_entity_class = c, er_generation = g, er_retired = False, er_superseded = False, er_superseded_by = []\<rparr>))
      | _ \<Rightarrow> Inl (explain O_MalformedRequest ''registry_seed.malformed_line'' [(''path'', path), (''line'', decimal n)]))"

text \<open>Line after line, \<open>n\<close> of them behind; a failure keeps what was added before it.\<close>

fun load_lines :: "string \<Rightarrow> nat \<Rightarrow> nat \<Rightarrow> string list \<Rightarrow> directory \<Rightarrow> status \<times> directory" where
  "load_lines path n loaded [] d =
     (explain O_Ok ''registry_seed.loaded'' [(''path'', path), (''records'', decimal loaded)], d)"
| "load_lines path n loaded (line # ls) d =
     (let line = trim_line line in
      if line = [] \<or> hd line = CHR ''#'' then load_lines path (Suc n) loaded ls d
      else case load_record path (Suc n) line of
          Inl s \<Rightarrow> (s, d)
        | Inr rec \<Rightarrow>
            (case directory_add d rec of (s, d) \<Rightarrow>
               if outcome_of s \<noteq> O_Committed then (with_field s ''line'' (decimal (Suc n)), d)
               else load_lines path (Suc n) (Suc loaded) ls d))"

definition load_registry_seed :: "string \<Rightarrow> string option \<Rightarrow> bool \<Rightarrow> directory \<Rightarrow> status \<times> directory" where
  "load_registry_seed path content writable d =
     (if \<not> writable then (make_status O_UnsupportedOperation ''registry_seed.directory_not_writable'', d)
      else case content of
          None \<Rightarrow> (explain O_PersistenceIoFailure ''registry_seed.open_failed'' [(''path'', path)], d)
        | Some text \<Rightarrow> load_lines path 0 0 (lines_of text) d)"

subsection \<open>Text is read as it was written\<close>

lemma digits_value_append: "digits_value (s @ [c]) = 10 * digits_value s + (of_char c - 48)"
  by (simp add: digits_value_def)

lemma is_digit_code: "is_digit c \<longleftrightarrow> 48 \<le> (of_char c :: nat) \<and> of_char c \<le> (57 :: nat)"
  by (simp add: is_digit_def less_eq_char_def)

lemma decimal_digits: "(\<forall>c \<in> set (decimal n). is_digit c) \<and> decimal n \<noteq> [] \<and> digits_value (decimal n) = n"
proof (induction n rule: decimal.induct)
  case (1 n)
  show ?case
  proof (cases "n < 10")
    case True
    then show ?thesis by (subst (1 2 3) decimal.simps) (simp add: digits_value_def is_digit_code)
  next
    case False
    with 1 show ?thesis by (subst (1 2 3) decimal.simps) (auto simp: digits_value_append is_digit_code)
  qed
qed

lemma digit_not_sign: "is_digit c \<Longrightarrow> c \<noteq> CHR ''-'' \<and> c \<noteq> CHR ''+''"
  by (auto simp: is_digit_code)

lemma stoull_u64_string: "stoull (u64_string g) = Some g"
proof -
  let ?s = "decimal (unat g)"
  have ds: "\<forall>c \<in> set ?s. is_digit c" "?s \<noteq> []" "digits_value ?s = unat g" using decimal_digits by auto
  have "?s \<noteq> []" "hd ?s \<noteq> CHR ''-''" "hd ?s \<noteq> CHR ''+''" using ds(1,2) digit_not_sign [of "hd ?s"] by auto
  moreover have "takeWhile is_digit ?s = ?s" by (rule iffD2 [OF takeWhile_eq_all_conv ds(1)])
  ultimately have "stoull (u64_string g) = (if 18446744073709551616 \<le> digits_value ?s then None else Some (of_nat (digits_value ?s)))"
    unfolding stoull_def u64_string_def Let_def by (simp del: takeWhile_eq_all_conv)
  moreover have "unat g < 2 ^ LENGTH(64)" by (rule unsigned_less)
  ultimately show ?thesis by (simp add: ds(3))
qed

lemma lines_of_Cons: "\<forall>c \<in> set l. [c] \<noteq> newline \<Longrightarrow> lines_of (l @ newline @ rest) = l # lines_of rest"
  by (subst lines_of.simps) (auto simp: newline_def)

text \<open>A word of the seed.\<close>

definition seed_word :: "string \<Rightarrow> bool" where
  "seed_word w \<longleftrightarrow> w \<noteq> [] \<and> (\<forall>c \<in> set w. c \<notin> set white)"

fun spaced :: "string list \<Rightarrow> string" where
  "spaced [] = []" | "spaced (w # ws) = CHR '' '' # w @ spaced ws"

lemma fields_spaced: "\<forall>w \<in> set ws. seed_word w \<Longrightarrow> fields (spaced ws) = ws"
proof (induction ws)
  case Nil
  then show ?case by (simp add: fields.simps)
next
  case (Cons w ws)
  have w: "w \<noteq> []" "\<forall>c \<in> set w. c \<notin> set white" using Cons.prems by (auto simp: seed_word_def)
  have space: "CHR '' '' \<in> set white" by (simp add: white_def)
  have "dropWhile (\<lambda>c. c \<in> set white) (spaced (w # ws)) = w @ spaced ws" using w space by (cases w) simp_all
  moreover have "takeWhile (\<lambda>c. c \<notin> set white) (w @ spaced ws) = w" "dropWhile (\<lambda>c. c \<notin> set white) (w @ spaced ws) = spaced ws"
    using w(2) space by (cases ws; simp add: takeWhile_append dropWhile_append)+
  ultimately show ?case using Cons w(1) by (subst fields.simps) simp
qed

lemma fields_line: "\<forall>w \<in> set ws. seed_word w \<Longrightarrow> fields (tl (spaced ws)) = ws"
proof -
  assume ws: "\<forall>w \<in> set ws. seed_word w"
  have "fields (CHR '' '' # s) = fields s" for s by (subst (1 2) fields.simps) (simp add: white_def)
  then have "fields (tl (spaced ws)) = fields (spaced ws)" by (cases ws) simp_all
  then show ?thesis using fields_spaced [OF ws] by simp
qed

lemma spaced_last: "ws \<noteq> [] \<Longrightarrow> \<forall>w \<in> set ws. seed_word w \<Longrightarrow> last (spaced ws) \<notin> set white"
proof (induction ws)
  case (Cons w ws)
  then show ?case by (cases ws) (auto simp: seed_word_def)
qed simp

lemma trim_spaced: "ws \<noteq> [] \<Longrightarrow> \<forall>w \<in> set ws. seed_word w \<Longrightarrow> trim_line (tl (spaced ws)) = tl (spaced ws)"
proof -
  assume ws: "ws \<noteq> []" "\<forall>w \<in> set ws. seed_word w"
  let ?l = "tl (spaced ws)"
  obtain w vs where w: "ws = w # vs" using ws(1) by (cases ws) auto
  have "w \<noteq> []" using ws(2) by (simp add: w seed_word_def)
  then have ne: "?l \<noteq> []" and "hd ?l = hd w" "last ?l = last (spaced ws)" by (simp_all add: w)
  then have ends: "hd ?l \<notin> set white" "last ?l \<notin> set white" using ws spaced_last [OF ws] by (auto simp: w seed_word_def)
  have "set blanks \<subseteq> set white" "CHR 0x0D \<in> set white" by (simp_all add: blanks_def white_def)
  then have "dropWhile (\<lambda>c. c = CHR 0x0D \<or> c \<in> set blanks) (rev ?l) = rev ?l" "dropWhile (\<lambda>c. c \<in> set blanks) ?l = ?l"
    using ends ne by (auto simp: dropWhile_eq_self_iff hd_rev)
  then show ?thesis by (simp add: trim_line_def)
qed

subsection \<open>The directory is read as it was written\<close>

text \<open>What the text keeps of a record: not a supersession without a successor.\<close>

definition seed_image :: "entity_record \<Rightarrow> entity_record" where
  "seed_image rec =
     (if er_superseded rec \<and> er_superseded_by rec \<noteq> [] then rec else rec\<lparr>er_superseded := False, er_superseded_by := []\<rparr>)"

definition seed_words :: "entity_record \<Rightarrow> string list" where
  "seed_words rec =
     [''entity'', er_entity_id rec, entity_class_string (er_entity_class rec), u64_string (er_generation rec)] @
     (if er_superseded rec \<and> er_superseded_by rec \<noteq> [] then [''superseded-by'', er_superseded_by rec] else []) @
     (if er_retired rec then [''retired''] else [])"

definition seedable :: "entity_record \<Rightarrow> bool" where
  "seedable rec \<longleftrightarrow> record_wf (er_entity_id rec) rec \<and> (er_superseded rec \<longrightarrow> (\<forall>c \<in> set (er_superseded_by rec). c \<notin> set white))"

lemma seed_line_words: "seed_line rec = tl (spaced (seed_words rec)) @ newline"
  by (simp add: seed_line_def seed_words_def)

lemma body_char_not_white: "is_body_char c \<Longrightarrow> c \<notin> set white"
  using body_char_printable [of c] by (auto simp: white_def)

lemma seed_words_ok: "seedable rec \<Longrightarrow> \<forall>w \<in> set (seed_words rec). seed_word w"
proof -
  assume ok: "seedable rec"
  have "seed_word (er_entity_id rec)"
    using ok body_char_not_white by (auto simp: seedable_def record_wf_def valid_identifier_iff seed_word_def)
  moreover have "seed_word (u64_string (er_generation rec))"
    using decimal_digits [of "unat (er_generation rec)"] by (auto simp: u64_string_def seed_word_def white_def is_digit_code)
  moreover have "seed_word (entity_class_string c)" for c
    by (cases c) (simp_all add: entity_class_string_def kEntityClassNames_def name_or_def seed_word_def white_def)
  moreover have "seed_word ''entity''" "seed_word ''superseded-by''" "seed_word ''retired''" by (simp_all add: seed_word_def white_def)
  ultimately show ?thesis using ok by (auto simp: seed_words_def seedable_def seed_word_def)
qed

lemma entity_class_read: "entity_class_from_string (entity_class_string c) = Some c"
  by (simp add: entity_class_from_string_def entity_class_string_def entity_names.from_string_to_string)

lemma load_written: "seedable rec \<Longrightarrow> load_record path n (tl (spaced (seed_words rec))) = Inr (seed_image rec)"
  unfolding load_record_def fields_line [OF seed_words_ok]
  by (cases rec) (simp add: seed_words_def entity_class_read stoull_u64_string seed_image_def)

lemma load_written_lines:
  "\<forall>rec \<in> set recs. seedable rec \<and> \<not> has_key d (er_entity_id rec) \<Longrightarrow> distinct (map er_entity_id recs) \<Longrightarrow>
   \<exists>d'. load_lines path n loaded (map (\<lambda>rec. tl (spaced (seed_words rec))) recs) d =
     (explain O_Ok ''registry_seed.loaded'' [(''path'', path), (''records'', decimal (loaded + length recs))], d') \<and>
     (\<forall>k. Mapping.lookup d' k = (case map_of (map (\<lambda>rec. (er_entity_id rec, seed_image rec)) recs) k of
        Some rec \<Rightarrow> Some rec | None \<Rightarrow> Mapping.lookup d k))"
proof (induction recs arbitrary: d n loaded)
  case (Cons rec recs)
  let ?line = "tl (spaced (seed_words rec))" and ?i = "seed_image rec"
  let ?d = "Mapping.update (er_entity_id rec) ?i d"
  have ok: "seedable rec" "\<not> has_key d (er_entity_id rec)" using Cons.prems(1) by auto
  have line: "trim_line ?line = ?line" using trim_spaced [OF _ seed_words_ok [OF ok(1)]] by (simp add: seed_words_def)
  have image: "er_entity_id ?i = er_entity_id rec" "er_entity_class ?i = er_entity_class rec" "er_generation ?i = er_generation rec"
    by (simp_all add: seed_image_def)
  have "\<exists>s. directory_add d ?i = (s, ?d) \<and> outcome_of s = O_Committed"
    using ok by (simp add: directory_add_def image seedable_def record_wf_def valid_identifier_iff outcome_simps)
  moreover have "?line \<noteq> [] \<and> hd ?line \<noteq> CHR ''#''" by (simp add: seed_words_def)
  ultimately have step: "load_lines path n loaded (?line # ls) d = load_lines path (Suc n) (Suc loaded) ls ?d" for ls
    by (auto simp: line load_written [OF ok(1)])
  have "\<forall>rec' \<in> set recs. seedable rec' \<and> \<not> has_key ?d (er_entity_id rec')" "distinct (map er_entity_id recs)"
    using Cons.prems by (auto simp: has_key_iff lookup_simps)
  from Cons.IH [OF this, of "Suc n" "Suc loaded"] obtain d' where
    "load_lines path (Suc n) (Suc loaded) (map (\<lambda>rec. tl (spaced (seed_words rec))) recs) ?d =
       (explain O_Ok ''registry_seed.loaded'' [(''path'', path), (''records'', decimal (Suc loaded + length recs))], d')"
    "\<forall>k. Mapping.lookup d' k = (case map_of (map (\<lambda>rec. (er_entity_id rec, seed_image rec)) recs) k of
        Some rec \<Rightarrow> Some rec | None \<Rightarrow> Mapping.lookup ?d k)" by blast
  moreover have "map_of (map (\<lambda>rec. (er_entity_id rec, seed_image rec)) recs) (er_entity_id rec) = None"
    using Cons.prems(2) by (force simp: map_of_eq_None_iff)
  ultimately show ?case
    by (intro exI [of _ d']) (auto simp: step lookup_simps simp del: load_lines.simps split: option.split)
qed simp

lemma spaced_no_newline: "\<forall>w \<in> set ws. seed_word w \<Longrightarrow> \<forall>c \<in> set (spaced ws). [c] \<noteq> newline"
proof (induction ws)
  case (Cons w ws)
  have "\<forall>c. c \<notin> set white \<longrightarrow> [c] \<noteq> newline" "[CHR '' ''] \<noteq> newline" by (simp_all add: white_def newline_def)
  with Cons show ?case by (auto simp: seed_word_def)
qed simp

lemma lines_of_words:
  "\<forall>rec \<in> set recs. seedable rec \<Longrightarrow> lines_of (concat (map seed_line recs)) = map (\<lambda>rec. tl (spaced (seed_words rec))) recs"
proof (induction recs)
  case Nil
  then show ?case by (simp add: lines_of.simps)
next
  case (Cons rec recs)
  have "\<forall>c \<in> set (spaced (seed_words rec)). [c] \<noteq> newline"
    using spaced_no_newline [OF seed_words_ok, of rec] Cons.prems by simp
  then have "\<forall>c \<in> set (tl (spaced (seed_words rec))). [c] \<noteq> newline" by (cases "spaced (seed_words rec)") simp_all
  with Cons show ?case by (simp add: seed_line_words lines_of_Cons)
qed

lemma lines_of_header: "lines_of (seed_header @ rest) =
   ''# Fabric Registry seed consumed by the Fabric Topology tools.'' #
   ''# entity <identifier> <CLASS> <generation> [superseded-by <identifier>] [retired]'' # lines_of rest"
proof -
  have "\<forall>c \<in> set ''# Fabric Registry seed consumed by the Fabric Topology tools.''. [c] \<noteq> newline"
    "\<forall>c \<in> set ''# entity <identifier> <CLASS> <generation> [superseded-by <identifier>] [retired]''. [c] \<noteq> newline"
    by (simp_all add: newline_def)
  from lines_of_Cons [OF this(1)] lines_of_Cons [OF this(2)] show ?thesis by (simp only: seed_header_def append_assoc)
qed

lemma load_header: "load_lines path 0 0 (lines_of (seed_header @ rest)) d = load_lines path 2 0 (lines_of rest) d"
  by (simp add: lines_of_header trim_line_def blanks_def numeral_2_eq_2)

text \<open>A registry seed gives back the directory it was written from, in whatever order its records were
  listed: the load into an empty directory succeeds, and every identity is found with the record
  it had. Only a supersession that names no successor is not in the text: such a record comes back
  as one that is not superseded.\<close>

theorem registry_seed_round_trip:
  assumes "\<forall>rec \<in> set recs. seedable rec" and "distinct (map er_entity_id recs)"
  shows "\<exists>t d. write_registry_seed path Written recs =
      (explain O_Ok ''registry_seed.written'' [(''path'', path), (''records'', decimal (length recs))], Some t) \<and>
    load_registry_seed path (Some t) True Mapping.empty =
      (explain O_Ok ''registry_seed.loaded'' [(''path'', path), (''records'', decimal (length recs))], d) \<and>
    (\<forall>k. directory_lookup d k = map_of (map (\<lambda>rec. (er_entity_id rec, seed_image rec)) recs) k)"
proof -
  let ?recs = "sort_records recs" and ?binding = "\<lambda>rec. (er_entity_id rec, seed_image rec)"
  have perm: "mset ?recs = mset recs" by (simp add: sort_records_def)
  then have sets: "set ?recs = set recs" "length ?recs = length recs" by (auto dest: mset_eq_setD mset_eq_length)
  have distinct: "distinct (map er_entity_id ?recs)"
    using assms(2) mset_eq_imp_distinct_iff [of "map er_entity_id ?recs" "map er_entity_id recs"] by (simp add: perm)
  have "map_of (map ?binding ?recs) = map_of (map ?binding recs)"
    using assms(2) distinct by (subst map_of_inject_set) (simp_all add: sets comp_def)
  moreover have seedables: "\<forall>rec \<in> set ?recs. seedable rec" "\<forall>rec \<in> set ?recs. seedable rec \<and> \<not> has_key Mapping.empty (er_entity_id rec)"
    using assms(1) by (auto simp: sets has_key_iff lookup_simps)
  moreover from load_written_lines [OF seedables(2) distinct, of path 2 0] obtain d where
    "load_lines path 2 0 (map (\<lambda>rec. tl (spaced (seed_words rec))) ?recs) Mapping.empty =
       (explain O_Ok ''registry_seed.loaded'' [(''path'', path), (''records'', decimal (length recs))], d)"
    "\<forall>k. Mapping.lookup d k = (case map_of (map ?binding ?recs) k of Some rec \<Rightarrow> Some rec | None \<Rightarrow> Mapping.lookup Mapping.empty k)"
    by (auto simp: sets)
  ultimately show ?thesis
    by (intro exI [of _ "seed_text recs"] exI [of _ d])
      (simp add: write_registry_seed_def load_registry_seed_def seed_text_def load_header lines_of_words directory_lookup_def
        lookup_simps split: option.split)
qed

theorem registry_seed_round_trip_witness:
  "\<exists>t d. write_registry_seed ''seed'' Written [sample_successor, sample_record\<lparr>er_superseded := True, er_superseded_by := ''sw2''\<rparr>] =
      (explain O_Ok ''registry_seed.written'' [(''path'', ''seed''), (''records'', ''2'')], Some t) \<and>
    load_registry_seed ''seed'' (Some t) True Mapping.empty =
      (explain O_Ok ''registry_seed.loaded'' [(''path'', ''seed''), (''records'', ''2'')], d) \<and>
    directory_lookup d ''sw1'' = Some (sample_record\<lparr>er_superseded := True, er_superseded_by := ''sw2''\<rparr>)"
proof -
  let ?recs = "[sample_successor, sample_record\<lparr>er_superseded := True, er_superseded_by := ''sw2''\<rparr>]"
  have ok: "\<forall>rec \<in> set ?recs. seedable rec" "distinct (map er_entity_id ?recs)"
    by (simp_all add: seedable_def record_wf_def sample_record_simps white_def valid_identifier_iff is_body_char_def is_alphanumeric_def
        less_eq_char_def kMaxIdentifierBytes_def)
  have "decimal 2 = ''2''" by code_simp
  then have count: "decimal (length ?recs) = ''2''" by (simp add: numeral_2_eq_2)
  from registry_seed_round_trip [OF ok, of "''seed''"] show ?thesis unfolding count
    by (auto simp: sample_record_simps seed_image_def)
qed

end
