(* ===== verification/Synthetic.thy ===== *)
theory Synthetic
  imports Publication "HOL-Library.State_Monad"
begin

text \<open>
  The synthetic scenarios (\<open>src/synthetic.cpp\<close>). The builder is a state monad over the topology under construction;
  the loops over an index are traversals of \<open>[0..<n]\<close>. A reference to a secondary publication is its
  position in the list.
\<close>

subsection \<open>Scenarios and options\<close>

datatype synthetic_scenario = SingleSwitch | DualSwitchRedundancy | LeafSpine | MultiTierClos | RackToLeaf | MultipleFabrics
  | MultiSite | LogicalOverlay | PhysicalAndLogical | Partitioned | DeviceReplacement | AttachmentMove
  | AsymmetricPublisherScopes | StaleSnapshot | LargeScale

definition synthetic_scenarios :: "synthetic_scenario list" where
  "synthetic_scenarios = [SingleSwitch, DualSwitchRedundancy, LeafSpine, MultiTierClos, RackToLeaf, MultipleFabrics, MultiSite,
     LogicalOverlay, PhysicalAndLogical, Partitioned, DeviceReplacement, AttachmentMove, AsymmetricPublisherScopes, StaleSnapshot,
     LargeScale]"

fun scenario_string :: "synthetic_scenario \<Rightarrow> string" where
  "scenario_string SingleSwitch = ''single_switch''"
| "scenario_string DualSwitchRedundancy = ''dual_switch_redundancy''"
| "scenario_string LeafSpine = ''leaf_spine''"
| "scenario_string MultiTierClos = ''multi_tier_clos''"
| "scenario_string RackToLeaf = ''rack_to_leaf''"
| "scenario_string MultipleFabrics = ''multiple_fabrics''"
| "scenario_string MultiSite = ''multi_site''"
| "scenario_string LogicalOverlay = ''logical_overlay''"
| "scenario_string PhysicalAndLogical = ''physical_and_logical''"
| "scenario_string Partitioned = ''partitioned''"
| "scenario_string DeviceReplacement = ''device_replacement''"
| "scenario_string AttachmentMove = ''attachment_move''"
| "scenario_string AsymmetricPublisherScopes = ''asymmetric_publisher_scopes''"
| "scenario_string StaleSnapshot = ''stale_snapshot''"
| "scenario_string LargeScale = ''large_scale''"

definition synthetic_scenario_from_string :: "string \<Rightarrow> synthetic_scenario option" where
  "synthetic_scenario_from_string s = find (\<lambda>v. s = scenario_string v) synthetic_scenarios"

record synthetic_options =
  so_scenario :: synthetic_scenario
  so_scale :: nat
  so_tiers :: nat
  so_seed :: u64
  so_domain :: string
  so_scope_kind :: scope_kind
  so_publisher :: string
  so_entity_prefix :: string

record synthetic_topology =
  sy_scenario :: synthetic_scenario
  sy_name :: string
  sy_description :: string
  sy_publication :: publication
  sy_directory_entries :: "entity_record list"
  sy_secondary_publications :: "publication list"

type_synonym 'a builder = "(synthetic_topology, 'a) state"

definition render_synthetic :: "synthetic_topology \<Rightarrow> string" where
  "render_synthetic t =
     ''scenario='' @ scenario_string (sy_scenario t) @ newline @ ''name='' @ sy_name t @ newline @
     ''description='' @ sy_description t @ newline @ ''publication='' @ pu_id (sy_publication t) @ newline @
     ''nodes='' @ decimal (length (pu_nodes (sy_publication t))) @ newline @
     ''edges='' @ decimal (length (pu_edges (sy_publication t))) @ newline @
     ''entities='' @ decimal (length (sy_directory_entries t)) @ newline @
     ''secondary_publications='' @ decimal (length (sy_secondary_publications t)) @ newline @
     ''evidence_type='' @ publication_type_string (pu_type (sy_publication t))"

subsection \<open>The builder\<close>

definition new_publication :: "synthetic_options \<Rightarrow> publication" where
  "new_publication o' =
     \<lparr>pu_id = [], pu_domain = [], pu_scope_kind = so_scope_kind o', pu_mode = PM_AuthoritativeSnapshot, pu_type = PT_Synthetic,
      pu_source = DS_SyntheticGenerator, pu_expected_generation = 0, pu_evidence_generation = 0, pu_declared_absent = [],
      pu_nodes = [], pu_edges = [], pu_note = ''synthetic scenario '' @ scenario_string (so_scenario o')\<rparr>"

definition start_builder :: "synthetic_options \<Rightarrow> synthetic_topology" where
  "start_builder o' =
     \<lparr>sy_scenario = so_scenario o', sy_name = [], sy_description = [],
      sy_publication = (new_publication o')\<lparr>pu_id := ''pub_'' @ scenario_string (so_scenario o'), pu_domain := so_domain o'\<rparr>,
      sy_directory_entries = [], sy_secondary_publications = []\<rparr>"

definition named :: "string \<Rightarrow> string \<Rightarrow> unit builder" where
  "named name description = State_Monad.update (\<lambda>t. t\<lparr>sy_name := name, sy_description := description\<rparr>)"

definition directory_entry :: "string \<Rightarrow> entity_class \<Rightarrow> entity_record" where
  "directory_entry entity c =
     \<lparr>er_entity_id = entity, er_entity_class = c, er_generation = 1, er_retired = False, er_superseded = False, er_superseded_by = []\<rparr>"

definition add_directory_entry :: "string \<Rightarrow> entity_class \<Rightarrow> unit builder" where
  "add_directory_entry entity c =
     State_Monad.update (\<lambda>t. t\<lparr>sy_directory_entries := sy_directory_entries t @ [directory_entry entity c]\<rparr>)"

definition synthetic_node :: "string \<Rightarrow> node_class \<Rightarrow> topology_tier \<Rightarrow> string \<Rightarrow> observed_node" where
  "synthetic_node entity c tier d =
     \<lparr>on_node_id = derive_node_id d entity, on_entity_id = entity, on_class = c, on_tier = tier, on_domain = d,
      on_entity_generation = 1, on_metadata = [], on_present = True\<rparr>"

text \<open>Every relation has a policy, so a layer is always found.\<close>

definition effective_layer :: "relation_class \<Rightarrow> topology_layer option \<Rightarrow> topology_layer option" where
  "effective_layer relation layer =
     (case layer of
        Some l \<Rightarrow> Some l
      | None \<Rightarrow> (case rule_layer_policy (relation_rules relation) of
          LP_PhysicalOnly \<Rightarrow> Some Physical | LP_LogicalOnly \<Rightarrow> Some Logical | LP_Either \<Rightarrow> Some Physical))"

definition synthetic_edge :: "relation_class \<Rightarrow> string \<Rightarrow> string \<Rightarrow> topology_layer option \<Rightarrow> string \<Rightarrow> observed_edge" where
  "synthetic_edge relation a b layer d =
     \<lparr>oe_edge_id = None, oe_relationship_id = derive_relationship_id (make_edge_key relation a b d), oe_relation = relation,
      oe_from = a, oe_to = b, oe_layer = effective_layer relation layer, oe_domain = d, oe_evidence_generation = 1,
      oe_source_relationship_id = [], oe_supported_by = None, oe_attachment = None, oe_exclusive_attachment = False,
      oe_metadata = [], oe_present = True\<rparr>"

definition with_node :: "observed_node \<Rightarrow> publication \<Rightarrow> publication" where "with_node n p = p\<lparr>pu_nodes := pu_nodes p @ [n]\<rparr>"
definition with_edge :: "observed_edge \<Rightarrow> publication \<Rightarrow> publication" where "with_edge e p = p\<lparr>pu_edges := pu_edges p @ [e]\<rparr>"

definition on_publication :: "(publication \<Rightarrow> publication) \<Rightarrow> unit builder" where
  "on_publication f = State_Monad.update (\<lambda>t. t\<lparr>sy_publication := f (sy_publication t)\<rparr>)"

definition on_secondary :: "nat \<Rightarrow> (publication \<Rightarrow> publication) \<Rightarrow> unit builder" where
  "on_secondary i f = State_Monad.update (\<lambda>t.
     t\<lparr>sy_secondary_publications := (sy_secondary_publications t)[i := f (sy_secondary_publications t ! i)]\<rparr>)"

definition build_node :: "string \<Rightarrow> node_class \<Rightarrow> topology_tier \<Rightarrow> string \<Rightarrow> string builder" where
  "build_node entity c tier d = do {
     add_directory_entry entity (node_class_entity_class c);
     on_publication (with_node (synthetic_node entity c tier d));
     State_Monad.return (derive_node_id d entity)
   }"

definition build_edge :: "relation_class \<Rightarrow> string \<Rightarrow> string \<Rightarrow> topology_layer option \<Rightarrow> string \<Rightarrow> unit builder" where
  "build_edge relation a b layer d = on_publication (with_edge (synthetic_edge relation a b layer d))"

text \<open>The secondary publication at position \<open>i\<close>, made if it is missing, with its identifier.\<close>

definition secondary :: "synthetic_options \<Rightarrow> nat \<Rightarrow> string \<Rightarrow> unit builder" where
  "secondary o' i suffix = do {
     State_Monad.update (\<lambda>t. t\<lparr>sy_secondary_publications :=
       sy_secondary_publications t @ replicate (Suc i - length (sy_secondary_publications t)) (new_publication o')\<rparr>);
     on_secondary i (\<lambda>p. if pu_id p = [] then p\<lparr>pu_id := ''pub_'' @ scenario_string (so_scenario o') @ ''_'' @ suffix\<rparr> else p)
   }"

definition secondary_node :: "nat \<Rightarrow> string \<Rightarrow> node_class \<Rightarrow> topology_tier \<Rightarrow> string \<Rightarrow> unit builder" where
  "secondary_node i entity c tier d = do {
     add_directory_entry entity (node_class_entity_class c);
     on_secondary i (with_node (synthetic_node entity c tier d))
   }"

definition secondary_edge :: "nat \<Rightarrow> relation_class \<Rightarrow> string \<Rightarrow> string \<Rightarrow> topology_layer option \<Rightarrow> string \<Rightarrow> unit builder" where
  "secondary_edge i relation a b layer d = on_secondary i (with_edge (synthetic_edge relation a b layer d))"

definition scale_or :: "nat \<Rightarrow> nat \<Rightarrow> nat" where "scale_or n fallback = (if n = 0 then fallback else n)"

definition repeat :: "nat \<Rightarrow> (nat \<Rightarrow> 'a builder) \<Rightarrow> 'a list builder" where
  "repeat n f = State_Monad.traverse_list f [0..<n]"

definition build_switch_fabric :: "string \<Rightarrow> string \<Rightarrow> nat \<Rightarrow> nat \<Rightarrow> topology_tier \<Rightarrow> unit builder" where
  "build_switch_fabric fabric_entity d switches hosts tier = do {
     fabric \<leftarrow> build_node fabric_entity NC_Fabric TT_Unspecified d;
     repeat switches (\<lambda>s. do {
       let switch_entity = fabric_entity @ ''-sw'' @ decimal s;
       sw \<leftarrow> build_node switch_entity NC_Switch tier d;
       build_edge RC_MemberOf sw fabric None d;
       repeat hosts (\<lambda>h. do {
         let nic_entity = switch_entity @ ''-nic'' @ decimal h;
         nic \<leftarrow> build_node nic_entity NC_Nic TT_Endpoint d;
         nic_port \<leftarrow> build_node (nic_entity @ ''-p0'') NC_PhysicalPort TT_Endpoint d;
         sw_port \<leftarrow> build_node (switch_entity @ ''-p'' @ decimal h) NC_PhysicalPort tier d;
         build_edge RC_PresentsEndpoint nic nic_port (Some Physical) d;
         build_edge RC_PresentsEndpoint sw sw_port (Some Physical) d;
         build_edge RC_ConnectedTo nic_port sw_port None d
       })
     });
     State_Monad.return ()
   }"

subsection \<open>The scenarios\<close>

text \<open>What a port presents is physical.\<close>

abbreviation presents :: "string \<Rightarrow> string \<Rightarrow> string \<Rightarrow> unit builder" where
  "presents a b d \<equiv> build_edge RC_PresentsEndpoint a b (Some Physical) d"

definition single_switch :: "string \<Rightarrow> unit builder" where
  "single_switch d = do {
     named ''single-switch'' ''One fabric with one switch, two dual-homed hosts and their physical ports.'';
     build_switch_fabric ''syn-single-fabric'' d 1 2 TT_Leaf
   }"

definition dual_switch_redundancy :: "string \<Rightarrow> unit builder" where
  "dual_switch_redundancy d = do {
     named ''dual-switch-redundancy'' (''Two switches in one fabric; a host with two NICs, each attached to a different '' @
       ''switch, plus a switch-to-switch interconnect.'');
     fabric \<leftarrow> build_node ''syn-dual-fabric'' NC_Fabric TT_Unspecified d;
     sw_a \<leftarrow> build_node ''syn-dual-sw-a'' NC_Switch TT_Leaf d;
     sw_b \<leftarrow> build_node ''syn-dual-sw-b'' NC_Switch TT_Leaf d;
     build_edge RC_MemberOf sw_a fabric None d;
     build_edge RC_MemberOf sw_b fabric None d;
     sw_a_port \<leftarrow> build_node ''syn-dual-sw-a-p0'' NC_PhysicalPort TT_Leaf d;
     sw_b_port \<leftarrow> build_node ''syn-dual-sw-b-p0'' NC_PhysicalPort TT_Leaf d;
     fabric_port_a \<leftarrow> build_node ''syn-dual-sw-a-p1'' NC_PhysicalPort TT_Leaf d;
     fabric_port_b \<leftarrow> build_node ''syn-dual-sw-b-p1'' NC_PhysicalPort TT_Leaf d;
     presents sw_a sw_a_port d;
     presents sw_b sw_b_port d;
     build_edge RC_ConnectedTo fabric_port_a fabric_port_b None d;
     repeat 2 (\<lambda>host. do {
       let nic_entity = ''syn-dual-nic'' @ decimal host;
       nic \<leftarrow> build_node nic_entity NC_Nic TT_Endpoint d;
       nic_port \<leftarrow> build_node (nic_entity @ ''-p0'') NC_PhysicalPort TT_Endpoint d;
       presents nic nic_port d;
       build_edge RC_ConnectedTo nic_port (if host = 0 then sw_a_port else sw_b_port) None d
     });
     State_Monad.return ()
   }"

definition spine_switch :: "string \<Rightarrow> string \<Rightarrow> nat \<Rightarrow> nat \<Rightarrow> string list builder" where
  "spine_switch d fabric leaves s = do {
     let spine_entity = ''syn-ls-spine'' @ decimal s;
     spine \<leftarrow> build_node spine_entity NC_Switch TT_Spine d;
     build_edge RC_MemberOf spine fabric None d;
     repeat leaves (\<lambda>l. build_node (spine_entity @ ''-p'' @ decimal l) NC_PhysicalPort TT_Spine d)
   }"

definition leaf_switch :: "string \<Rightarrow> string \<Rightarrow> nat \<Rightarrow> nat \<Rightarrow> string list \<Rightarrow> nat \<Rightarrow> unit builder" where
  "leaf_switch d fabric spines leaves spine_ports l = do {
     let leaf_entity = ''syn-ls-leaf'' @ decimal l;
     leaf \<leftarrow> build_node leaf_entity NC_Switch TT_Leaf d;
     build_edge RC_MemberOf leaf fabric None d;
     repeat spines (\<lambda>s. do {
       leaf_port \<leftarrow> build_node (leaf_entity @ ''-p'' @ decimal s) NC_PhysicalPort TT_Leaf d;
       build_edge RC_ConnectedTo leaf_port (spine_ports ! (s * leaves + l)) None d
     });
     let host_entity = leaf_entity @ ''-host'';
     nic \<leftarrow> build_node host_entity NC_Nic TT_Endpoint d;
     nic_port \<leftarrow> build_node (host_entity @ ''-p0'') NC_PhysicalPort TT_Endpoint d;
     leaf_host_port \<leftarrow> build_node (leaf_entity @ ''-hostport'') NC_PhysicalPort TT_Leaf d;
     presents nic nic_port d;
     build_edge RC_ConnectedTo nic_port leaf_host_port None d
   }"

definition leaf_spine :: "synthetic_options \<Rightarrow> string \<Rightarrow> unit builder" where
  "leaf_spine o' d = do {
     let leaves = scale_or (so_scale o') 4;
     let spines = scale_or (so_tiers o') 2;
     named ''leaf-spine'' (''Leaf-spine fabric: '' @ decimal leaves @ '' leaves, '' @ decimal spines @ '' spines, full bipartite mesh.'');
     fabric \<leftarrow> build_node ''syn-ls-fabric'' NC_Fabric TT_Unspecified d;
     spine_ports \<leftarrow> repeat spines (spine_switch d fabric leaves);
     repeat leaves (leaf_switch d fabric spines leaves (concat spine_ports));
     State_Monad.return ()
   }"

definition clos_tier :: "nat \<Rightarrow> nat \<Rightarrow> topology_tier" where
  "clos_tier tiers tier = (if tier = 0 then TT_Leaf else if tier + 1 = tiers then TT_SuperSpine else TT_Spine)"

definition clos_switch :: "string \<Rightarrow> string \<Rightarrow> nat \<Rightarrow> nat \<Rightarrow> nat \<Rightarrow> nat \<Rightarrow> string list builder" where
  "clos_switch d fabric tiers width tier i = do {
     let entity = ''syn-clos-t'' @ decimal tier @ ''-'' @ decimal i;
     sw \<leftarrow> build_node entity NC_Switch (clos_tier tiers tier) d;
     build_edge RC_MemberOf sw fabric None d;
     repeat width (\<lambda>link. build_node (entity @ ''-p'' @ decimal link) NC_PhysicalPort (clos_tier tiers tier) d)
   }"

fun clos_tiers :: "string \<Rightarrow> string \<Rightarrow> nat \<Rightarrow> nat \<Rightarrow> nat list \<Rightarrow> string list \<Rightarrow> unit builder" where
  "clos_tiers d fabric tiers width [] previous = State_Monad.return ()"
| "clos_tiers d fabric tiers width (tier # later) previous = do {
     ports \<leftarrow> repeat width (clos_switch d fabric tiers width tier);
     let current = concat ports;
     repeat (length previous) (\<lambda>i. build_edge RC_ConnectedTo (previous ! i) (current ! (i mod length current)) None d);
     clos_tiers d fabric tiers width later current
   }"

definition multi_tier_clos :: "synthetic_options \<Rightarrow> string \<Rightarrow> unit builder" where
  "multi_tier_clos o' d = do {
     let tiers = scale_or (so_tiers o') 3;
     let width = scale_or (so_scale o') 2;
     named ''multi-tier-clos'' (''Clos fabric with '' @ decimal tiers @ '' tiers and width '' @ decimal width @ ''.'');
     fabric \<leftarrow> build_node ''syn-clos-fabric'' NC_Fabric TT_Unspecified d;
     clos_tiers d fabric tiers width [0..<tiers] []
   }"

definition rack :: "string \<Rightarrow> string \<Rightarrow> nat \<Rightarrow> nat \<Rightarrow> unit builder" where
  "rack d fabric hosts r = do {
     let tor_entity = ''syn-rack-tor'' @ decimal r;
     tor \<leftarrow> build_node tor_entity NC_Switch TT_TopOfRack d;
     build_edge RC_MemberOf tor fabric None d;
     tor_uplink \<leftarrow> build_node (tor_entity @ ''-uplink'') NC_PhysicalPort TT_TopOfRack d;
     leaf_downlink \<leftarrow> build_node (''syn-rack-leaf-p'' @ decimal r) NC_PhysicalPort TT_Leaf d;
     build_edge RC_ConnectedTo tor_uplink leaf_downlink None d;
     repeat hosts (\<lambda>h. do {
       let nic_entity = tor_entity @ ''-nic'' @ decimal h;
       nic \<leftarrow> build_node nic_entity NC_Nic TT_Endpoint d;
       nic_port \<leftarrow> build_node (nic_entity @ ''-p0'') NC_PhysicalPort TT_Endpoint d;
       tor_port \<leftarrow> build_node (tor_entity @ ''-p'' @ decimal h) NC_PhysicalPort TT_TopOfRack d;
       presents nic nic_port d;
       build_edge RC_ConnectedTo nic_port tor_port None d
     });
     State_Monad.return ()
   }"

definition rack_to_leaf :: "synthetic_options \<Rightarrow> string \<Rightarrow> unit builder" where
  "rack_to_leaf o' d = do {
     let racks = scale_or (so_scale o') 3;
     let hosts = scale_or (so_tiers o') 2;
     named ''rack-to-leaf'' (decimal racks @ '' racks, each with a top-of-rack switch '' @
       ''uplinked to a leaf switch, '' @ decimal hosts @ '' hosts per rack.'');
     fabric \<leftarrow> build_node ''syn-rack-fabric'' NC_Fabric TT_Unspecified d;
     leaf \<leftarrow> build_node ''syn-rack-leaf'' NC_Switch TT_Leaf d;
     build_edge RC_MemberOf leaf fabric None d;
     repeat racks (rack d fabric hosts);
     State_Monad.return ()
   }"

definition multiple_fabrics :: "synthetic_options \<Rightarrow> string \<Rightarrow> unit builder" where
  "multiple_fabrics o' d = do {
     named ''multiple-fabrics'' ''Two independent fabric scopes; the second fabric is published separately.'';
     build_switch_fabric ''syn-mf-fabric-a'' d 1 1 TT_Leaf;
     secondary o' 0 ''fabric_b'';
     on_secondary 0 (\<lambda>p. p\<lparr>pu_domain := d\<rparr>);
     secondary_node 0 ''syn-mf-fabric-b'' NC_Fabric TT_Unspecified d;
     let fabric_b = derive_node_id d ''syn-mf-fabric-b'';
     secondary_node 0 ''syn-mf-sw-b'' NC_Switch TT_Leaf d;
     let sw_b = derive_node_id d ''syn-mf-sw-b'';
     secondary_edge 0 RC_MemberOf sw_b fabric_b None d
   }"

definition multi_site :: "string \<Rightarrow> unit builder" where
  "multi_site d = do {
     named ''multi-site'' ''Two sites, each containing a fabric and a switch, joined by an inter-site link.'';
     site_a \<leftarrow> build_node ''syn-ms-site-a'' NC_Site TT_SiteEdge d;
     site_b \<leftarrow> build_node ''syn-ms-site-b'' NC_Site TT_SiteEdge d;
     sw_a \<leftarrow> build_node ''syn-ms-sw-a'' NC_Switch TT_Border d;
     sw_b \<leftarrow> build_node ''syn-ms-sw-b'' NC_Switch TT_Border d;
     build_edge RC_Contains site_a sw_a None d;
     build_edge RC_Contains site_b sw_b None d;
     port_a \<leftarrow> build_node ''syn-ms-sw-a-p0'' NC_PhysicalPort TT_InterSite d;
     port_b \<leftarrow> build_node ''syn-ms-sw-b-p0'' NC_PhysicalPort TT_InterSite d;
     presents sw_a port_a d;
     presents sw_b port_b d;
     build_edge RC_ConnectedTo port_a port_b None d
   }"

definition logical_overlay :: "synthetic_options \<Rightarrow> string \<Rightarrow> unit builder" where
  "logical_overlay o' d = do {
     named (if so_scenario o' = LogicalOverlay then ''logical-overlay'' else ''physical-and-logical'')
       (''Physical switch ports carrying logical ports that are backed by the physical '' @
        ''structure and joined by a logical adjacency and an overlay tunnel.'');
     fabric \<leftarrow> build_node ''syn-lo-fabric'' NC_Fabric TT_Unspecified d;
     sw_a \<leftarrow> build_node ''syn-lo-sw-a'' NC_Switch TT_Leaf d;
     sw_b \<leftarrow> build_node ''syn-lo-sw-b'' NC_Switch TT_Leaf d;
     build_edge RC_MemberOf sw_a fabric None d;
     build_edge RC_MemberOf sw_b fabric None d;
     phys_a \<leftarrow> build_node ''syn-lo-sw-a-p0'' NC_PhysicalPort TT_Leaf d;
     phys_b \<leftarrow> build_node ''syn-lo-sw-b-p0'' NC_PhysicalPort TT_Leaf d;
     logical_a \<leftarrow> build_node ''syn-lo-a-lp0'' NC_LogicalPort TT_Leaf d;
     logical_b \<leftarrow> build_node ''syn-lo-b-lp0'' NC_LogicalPort TT_Leaf d;
     tunnel_a \<leftarrow> build_node ''syn-lo-a-tun0'' NC_LogicalEndpoint TT_Leaf d;
     tunnel_b \<leftarrow> build_node ''syn-lo-b-tun0'' NC_LogicalEndpoint TT_Leaf d;
     presents sw_a phys_a d;
     presents sw_b phys_b d;
     build_edge RC_ConnectedTo phys_a phys_b None d;
     build_edge RC_BackedBy logical_a phys_a None d;
     build_edge RC_BackedBy logical_b phys_b None d;
     build_edge RC_LogicallyConnectedTo logical_a logical_b None d;
     build_edge RC_BackedBy tunnel_a logical_a None d;
     build_edge RC_BackedBy tunnel_b logical_b None d;
     build_edge RC_TunneledOver tunnel_a tunnel_b None d
   }"

definition partitioned :: "string \<Rightarrow> unit builder" where
  "partitioned d = do {
     named ''partitioned'' (''Two disconnected components in one fabric scope: honest incomplete topology, '' @
       ''not a graph that has been artificially connected.'');
     build_switch_fabric ''syn-part-fabric-a'' d 1 1 TT_Leaf;
     let fabric = derive_node_id d ''syn-part-fabric-a'';
     isolated \<leftarrow> build_node ''syn-part-sw-isolated'' NC_Switch TT_Leaf d;
     build_edge RC_MemberOf isolated fabric None d
   }"

definition device_replacement :: "synthetic_options \<Rightarrow> string \<Rightarrow> unit builder" where
  "device_replacement o' d = do {
     named ''device-replacement'' (''Device gen-1 with two attached host NICs; the registry supersedes it with gen-2 '' @
       ''and the second publication binds the replacement.'');
     sw \<leftarrow> build_node ''syn-repl-sw'' NC_Switch TT_Leaf d;
     sw_port \<leftarrow> build_node ''syn-repl-sw-p0'' NC_PhysicalPort TT_Leaf d;
     presents sw sw_port d;
     repeat 2 (\<lambda>i. do {
       let nic_entity = ''syn-repl-nic'' @ decimal i;
       nic \<leftarrow> build_node nic_entity NC_Nic TT_Endpoint d;
       nic_port \<leftarrow> build_node (nic_entity @ ''-p0'') NC_PhysicalPort TT_Endpoint d;
       presents nic nic_port d;
       build_edge RC_ConnectedTo nic_port sw_port None d
     });
     secondary o' 0 ''replacement'';
     on_secondary 0 (\<lambda>p. p\<lparr>pu_domain := d, pu_mode := PM_Incremental\<rparr>);
     secondary_node 0 ''syn-repl-sw-gen2'' NC_Switch TT_Leaf d;
     let sw_gen2 = derive_node_id d ''syn-repl-sw-gen2'';
     let port_gen2 = derive_node_id d ''syn-repl-sw-gen2-p0'';
     secondary_node 0 ''syn-repl-sw-gen2-p0'' NC_PhysicalPort TT_Leaf d;
     secondary_edge 0 RC_PresentsEndpoint sw_gen2 port_gen2 (Some Physical) d
   }"

definition attachment_move :: "string \<Rightarrow> unit builder" where
  "attachment_move d = do {
     named ''attachment-move'' (''NIC port attached to switch A port 0; the second publication is an attachment '' @
       ''move to switch B port 0 under the same attachment slot.'');
     sw_a \<leftarrow> build_node ''syn-move-sw-a'' NC_Switch TT_Leaf d;
     sw_b \<leftarrow> build_node ''syn-move-sw-b'' NC_Switch TT_Leaf d;
     port_a \<leftarrow> build_node ''syn-move-sw-a-p0'' NC_PhysicalPort TT_Leaf d;
     port_b \<leftarrow> build_node ''syn-move-sw-b-p0'' NC_PhysicalPort TT_Leaf d;
     presents sw_a port_a d;
     presents sw_b port_b d;
     nic \<leftarrow> build_node ''syn-move-nic'' NC_Nic TT_Endpoint d;
     nic_port \<leftarrow> build_node ''syn-move-nic-p0'' NC_PhysicalPort TT_Endpoint d;
     presents nic nic_port d;
     build_edge RC_ConnectedTo nic_port port_a None d
   }"

definition asymmetric_publisher_scopes :: "synthetic_options \<Rightarrow> string \<Rightarrow> unit builder" where
  "asymmetric_publisher_scopes o' d = do {
     named ''asymmetric-publisher-scopes'' (''Two administrative domains in one runtime; the publication covers only the '' @
       ''first domain, so the second stays untouched.'');
     build_switch_fabric ''syn-asym-fabric-a'' d 1 1 TT_Leaf;
     secondary o' 0 ''scope_b'';
     let other = d @ ''-b'';
     on_secondary 0 (\<lambda>p. p\<lparr>pu_domain := other\<rparr>);
     secondary_node 0 ''syn-asym-fabric-b'' NC_Fabric TT_Unspecified other;
     secondary_node 0 ''syn-asym-sw-b'' NC_Switch TT_Leaf other;
     let fabric_b = derive_node_id other ''syn-asym-fabric-b'';
     let sw_b = derive_node_id other ''syn-asym-sw-b'';
     secondary_edge 0 RC_MemberOf sw_b fabric_b None other
   }"

definition stale_snapshot :: "synthetic_options \<Rightarrow> string \<Rightarrow> unit builder" where
  "stale_snapshot o' d = do {
     named ''stale-snapshot'' (''Fabric with one switch; the second publication adds a second switch so a '' @
       ''snapshot taken before it is provably stale.'');
     fabric \<leftarrow> build_node ''syn-stale-fabric'' NC_Fabric TT_Unspecified d;
     sw_a \<leftarrow> build_node ''syn-stale-sw-a'' NC_Switch TT_Leaf d;
     build_edge RC_MemberOf sw_a fabric None d;
     secondary o' 0 ''later'';
     on_secondary 0 (\<lambda>p. p\<lparr>pu_domain := d, pu_mode := PM_Incremental\<rparr>);
     secondary_node 0 ''syn-stale-sw-b'' NC_Switch TT_Leaf d;
     let sw_b = derive_node_id d ''syn-stale-sw-b'';
     secondary_edge 0 RC_MemberOf sw_b fabric None d
   }"

definition large_switch :: "string \<Rightarrow> string \<Rightarrow> nat \<Rightarrow> nat \<Rightarrow> unit builder" where
  "large_switch d fabric hosts s = do {
     let switch_entity = ''syn-large-sw'' @ decimal s;
     sw \<leftarrow> build_node switch_entity NC_Switch TT_Leaf d;
     build_edge RC_MemberOf sw fabric None d;
     repeat hosts (\<lambda>h. do {
       let nic_entity = switch_entity @ ''-nic'' @ decimal h;
       nic \<leftarrow> build_node nic_entity NC_Nic TT_Endpoint d;
       nic_port \<leftarrow> build_node (nic_entity @ ''-p0'') NC_PhysicalPort TT_Endpoint d;
       sw_port \<leftarrow> build_node (switch_entity @ ''-p'' @ decimal h) NC_PhysicalPort TT_Leaf d;
       presents nic nic_port d;
       build_edge RC_ConnectedTo nic_port sw_port None d
     });
     State_Monad.return ()
   }"

definition large_interconnect :: "string \<Rightarrow> nat \<Rightarrow> unit builder" where
  "large_interconnect d s = do {
     uplink \<leftarrow> build_node (''syn-large-sw'' @ decimal s @ ''-uplink'') NC_PhysicalPort TT_Leaf d;
     downlink \<leftarrow> build_node (''syn-large-sw'' @ decimal (s + 1) @ ''-downlink'') NC_PhysicalPort TT_Leaf d;
     build_edge RC_ConnectedTo uplink downlink None d
   }"

definition large_scale :: "synthetic_options \<Rightarrow> string \<Rightarrow> unit builder" where
  "large_scale o' d = do {
     let switches = scale_or (so_scale o') 100;
     let hosts = scale_or (so_tiers o') 4;
     named ''large-scale'' (decimal switches @ '' leaf switches with '' @ decimal hosts @
       '' hosts each, plus a full mesh of '' @ ''switch interconnects.'');
     fabric \<leftarrow> build_node ''syn-large-fabric'' NC_Fabric TT_Unspecified d;
     repeat switches (large_switch d fabric hosts);
     repeat (switches - 1) (large_interconnect d);
     State_Monad.return ()
   }"

definition with_defaults :: "synthetic_options \<Rightarrow> synthetic_options" where
  "with_defaults o' =
     o'\<lparr>so_domain := if so_domain o' = [] then ''dom-synthetic'' else so_domain o',
       so_publisher := if so_publisher o' = [] then ''pub-synthetic'' else so_publisher o'\<rparr>"

definition build_scenario :: "synthetic_options \<Rightarrow> unit builder" where
  "build_scenario o' =
     (let d = so_domain o' in
      case so_scenario o' of
        SingleSwitch \<Rightarrow> single_switch d
      | DualSwitchRedundancy \<Rightarrow> dual_switch_redundancy d
      | LeafSpine \<Rightarrow> leaf_spine o' d
      | MultiTierClos \<Rightarrow> multi_tier_clos o' d
      | RackToLeaf \<Rightarrow> rack_to_leaf o' d
      | MultipleFabrics \<Rightarrow> multiple_fabrics o' d
      | MultiSite \<Rightarrow> multi_site d
      | LogicalOverlay \<Rightarrow> logical_overlay o' d
      | PhysicalAndLogical \<Rightarrow> logical_overlay o' d
      | Partitioned \<Rightarrow> partitioned d
      | DeviceReplacement \<Rightarrow> device_replacement o' d
      | AttachmentMove \<Rightarrow> attachment_move d
      | AsymmetricPublisherScopes \<Rightarrow> asymmetric_publisher_scopes o' d
      | StaleSnapshot \<Rightarrow> stale_snapshot o' d
      | LargeScale \<Rightarrow> large_scale o' d)"

text \<open>The description is never left empty, and every publication is tagged once more.\<close>

definition build_synthetic_topology :: "synthetic_options \<Rightarrow> synthetic_topology" where
  "build_synthetic_topology options =
     (let o' = with_defaults options;
          t = snd (run_state (build_scenario o') (start_builder o')) in
      t\<lparr>sy_description := if sy_description t = [] then ''synthetic scenario '' @ scenario_string (so_scenario o') else sy_description t,
        sy_publication := (sy_publication t)\<lparr>pu_type := PT_Synthetic\<rparr>,
        sy_secondary_publications := map (\<lambda>p. p\<lparr>pu_type := PT_Synthetic\<rparr>) (sy_secondary_publications t)\<rparr>)"

subsection \<open>Sound topologies\<close>

text \<open>Nodes the directory backs, and edges between known nodes that the relation rules allow.\<close>

definition node_sound :: "entity_record list \<Rightarrow> observed_node \<Rightarrow> bool" where
  "node_sound dir n \<longleftrightarrow> on_node_id n = derive_node_id (on_domain n) (on_entity_id n) \<and>
     (\<exists>rec \<in> set dir. er_entity_id rec = on_entity_id n \<and> er_entity_class rec = node_class_entity_class (on_class n) \<and>
       er_generation rec = on_entity_generation n \<and> identity_live rec)"

definition edge_permitted :: "relation_class \<Rightarrow> node_class \<Rightarrow> node_class \<Rightarrow> topology_layer option \<Rightarrow> bool" where
  "edge_permitted r a b layer \<longleftrightarrow> relation_endpoints_permitted r a b \<and> (\<exists>l. layer = Some l \<and> relation_layer_permitted r l)"

definition edge_sound :: "(node_class \<times> string) set \<Rightarrow> observed_edge \<Rightarrow> bool" where
  "edge_sound ns e \<longleftrightarrow> (\<exists>a b. (a, oe_from e) \<in> ns \<and> (b, oe_to e) \<in> ns \<and> edge_permitted (oe_relation e) a b (oe_layer e))"

definition nodes_of :: "publication \<Rightarrow> (node_class \<times> string) set" where
  "nodes_of p = (\<lambda>n. (on_class n, on_node_id n)) ` set (pu_nodes p)"

definition publication_sound :: "entity_record list \<Rightarrow> (node_class \<times> string) set \<Rightarrow> publication \<Rightarrow> bool" where
  "publication_sound dir ns p \<longleftrightarrow> pu_type p = PT_Synthetic \<and> pu_source p = DS_SyntheticGenerator \<and>
     (\<forall>n \<in> set (pu_nodes p). node_sound dir n) \<and> (\<forall>e \<in> set (pu_edges p). edge_sound ns e)"

definition topology_sound :: "synthetic_topology \<Rightarrow> bool" where
  "topology_sound t \<longleftrightarrow>
     publication_sound (sy_directory_entries t) (nodes_of (sy_publication t)) (sy_publication t) \<and>
     (\<forall>p \<in> set (sy_secondary_publications t).
        publication_sound (sy_directory_entries t) (nodes_of (sy_publication t) \<union> nodes_of p) p)"

subsection \<open>Rules for the builder\<close>

text \<open>What a builder may rely on: nodes of the primary and of a secondary publication, and that this is there.\<close>

datatype known = Primary node_class string | Secondary nat node_class string | Position nat

fun holds :: "synthetic_topology \<Rightarrow> known \<Rightarrow> bool" where
  "holds t (Primary c i) \<longleftrightarrow> (c, i) \<in> nodes_of (sy_publication t)"
| "holds t (Secondary k c i) \<longleftrightarrow> k < length (sy_secondary_publications t) \<and> (c, i) \<in> nodes_of (sy_secondary_publications t ! k)"
| "holds t (Position k) \<longleftrightarrow> k < length (sy_secondary_publications t)"

definition builds :: "known set \<Rightarrow> 'a builder \<Rightarrow> ('a \<Rightarrow> bool) \<Rightarrow> ('a \<Rightarrow> known set) \<Rightarrow> bool" where
  "builds ks m P Q \<longleftrightarrow> (\<forall>t x t'. topology_sound t \<longrightarrow> (\<forall>k \<in> ks. holds t k) \<longrightarrow> run_state m t = (x, t') \<longrightarrow>
     topology_sound t' \<and> (\<forall>k. holds t k \<longrightarrow> holds t' k) \<and> P x \<and> (\<forall>k \<in> Q x. holds t' k))"

lemma builds_bind:
  assumes "builds ks m P Q" "\<And>x. P x \<Longrightarrow> builds (ks \<union> Q x) (f x) P' Q'"
  shows "builds ks (State_Monad.bind m f) P' Q'"
  unfolding builds_def
proof (intro allI impI)
  fix t x t'
  assume t: "topology_sound t" "\<forall>k \<in> ks. holds t k" and run: "run_state (State_Monad.bind m f) t = (x, t')"
  obtain y u where y: "run_state m t = (y, u)" by (cases "run_state m t")
  with run have x: "run_state (f y) u = (x, t')" by simp
  have u: "topology_sound u" "\<forall>k. holds t k \<longrightarrow> holds u k" "P y" "\<forall>k \<in> Q y. holds u k"
    using assms(1) t y unfolding builds_def by blast+
  then have "\<forall>k \<in> ks \<union> Q y. holds u k" using t(2) by blast
  with assms(2) [OF u(3)] u(1) x have "topology_sound t' \<and> (\<forall>k. holds u k \<longrightarrow> holds t' k) \<and> P' x \<and> (\<forall>k \<in> Q' x. holds t' k)"
    unfolding builds_def by blast
  with u(2) show "topology_sound t' \<and> (\<forall>k. holds t k \<longrightarrow> holds t' k) \<and> P' x \<and> (\<forall>k \<in> Q' x. holds t' k)" by blast
qed

lemma builds_return: "P x \<Longrightarrow> Q x \<subseteq> ks \<Longrightarrow> builds ks (State_Monad.return x) P Q"
  by (auto simp: builds_def)

lemma builds_done: "builds ks (State_Monad.return x) (\<lambda>_. True) (\<lambda>_. {})"
  by (rule builds_return) simp_all

lemma builds_weaken: "builds ks m P Q \<Longrightarrow> ks \<subseteq> ks' \<Longrightarrow> (\<And>x. P x \<Longrightarrow> P' x) \<Longrightarrow> (\<And>x. Q' x \<subseteq> Q x) \<Longrightarrow> builds ks' m P' Q'"
  unfolding builds_def by blast

lemma builds_repeat:
  assumes "\<And>i. i < n \<Longrightarrow> builds ks (f i) P Q"
  shows "builds ks (repeat n f) (\<lambda>ys. length ys = n \<and> (\<forall>y \<in> set ys. P y)) (\<lambda>ys. \<Union>y \<in> set ys. Q y)"
proof -
  have "builds ks (State_Monad.traverse_list f xs) (\<lambda>ys. length ys = length xs \<and> (\<forall>y \<in> set ys. P y)) (\<lambda>ys. \<Union>y \<in> set ys. Q y)"
    if "\<forall>i \<in> set xs. i < n" for xs
    using that
  proof (induction xs)
    case Nil
    then show ?case by (simp add: builds_return)
  next
    case (Cons i xs)
    then have "builds ks (f i) P Q" using assms by simp
    moreover have "builds (ks \<union> Q x) (State_Monad.traverse_list f xs) (\<lambda>ys. length ys = length xs \<and> (\<forall>y \<in> set ys. P y)) (\<lambda>ys. \<Union>y \<in> set ys. Q y)" for x
      using Cons by (auto intro: builds_weaken)
    ultimately show ?case by (auto intro!: builds_bind builds_return)
  qed
  from this [of "[0..<n]"] show ?thesis by (simp add: repeat_def)
qed

lemma builds_each:
  assumes "\<And>i. i < n \<Longrightarrow> builds ks (f i) (\<lambda>_. True) (\<lambda>_. {})"
  shows "builds ks (repeat n f) (\<lambda>_. True) (\<lambda>_. {})"
  using builds_repeat [of n ks f "\<lambda>_. True" "\<lambda>_. {}"] assms by (auto intro: builds_weaken)

lemmas sound_defs = topology_sound_def publication_sound_def nodes_of_def

lemma node_sound_more: "node_sound dir n \<Longrightarrow> set dir \<subseteq> set dir' \<Longrightarrow> node_sound dir' n"
  by (auto simp: node_sound_def)

lemma edge_sound_more: "edge_sound ns e \<Longrightarrow> ns \<subseteq> ns' \<Longrightarrow> edge_sound ns' e"
  unfolding edge_sound_def by blast

lemma publication_sound_more:
  "publication_sound dir ns p \<Longrightarrow> set dir \<subseteq> set dir' \<Longrightarrow> ns \<subseteq> ns' \<Longrightarrow> publication_sound dir' ns' p"
  unfolding publication_sound_def using node_sound_more edge_sound_more by blast

lemma publication_sound_with:
  "publication_sound dir ns (with_node n p) \<longleftrightarrow> publication_sound dir ns p \<and> node_sound dir n"
  "publication_sound dir ns (with_edge e p) \<longleftrightarrow> publication_sound dir ns p \<and> edge_sound ns e"
  "nodes_of (with_node n p) = insert (on_class n, on_node_id n) (nodes_of p)" "nodes_of (with_edge e p) = nodes_of p"
  by (auto simp: publication_sound_def with_node_def with_edge_def nodes_of_def)

lemma run_state_update [simp]: "run_state (State_Monad.update f) t = ((), f t)"
  by (simp add: State_Monad.update_def)

lemma listed_node_sound: "node_sound (dir @ [directory_entry entity (node_class_entity_class c)]) (synthetic_node entity c tier d)"
  by (simp add: node_sound_def synthetic_node_def directory_entry_def identity_live_def)

lemma builds_node:
  "builds ks (build_node entity c tier d) (\<lambda>i. i = derive_node_id d entity) (\<lambda>i. {Primary c i})"
  unfolding builds_def
proof (intro allI impI)
  fix t x t'
  assume t: "topology_sound t" and run: "run_state (build_node entity c tier d) t = (x, t')"
  let ?n = "synthetic_node entity c tier d" and ?dir = "sy_directory_entries t @ [directory_entry entity (node_class_entity_class c)]"
  have t': "t' = t\<lparr>sy_directory_entries := ?dir, sy_publication := with_node ?n (sy_publication t)\<rparr>" and x: "x = derive_node_id d entity"
    using run by (auto simp: build_node_def add_directory_entry_def on_publication_def)
  have n: "on_class ?n = c" "on_node_id ?n = x" by (simp_all add: synthetic_node_def x)
  have "topology_sound t'"
    using t listed_node_sound [of "sy_directory_entries t" entity c tier d]
    by (auto simp: t' topology_sound_def publication_sound_with intro: publication_sound_more)
  moreover have "holds t k \<longrightarrow> holds t' k" for k by (cases k) (simp_all add: t' publication_sound_with)
  ultimately show "topology_sound t' \<and> (\<forall>k. holds t k \<longrightarrow> holds t' k) \<and> x = derive_node_id d entity \<and> (\<forall>k \<in> {Primary c x}. holds t' k)"
    using n by (simp add: t' publication_sound_with x)
qed

lemma builds_edge:
  assumes "Primary ca a \<in> ks" "Primary cb b \<in> ks" "edge_permitted r ca cb (effective_layer r layer)"
  shows "builds ks (build_edge r a b layer d) (\<lambda>_. True) (\<lambda>_. {})"
  unfolding builds_def
proof (intro allI impI)
  fix t :: synthetic_topology and x t'
  assume t: "topology_sound t" "\<forall>k \<in> ks. holds t k" and run: "run_state (build_edge r a b layer d) t = (x, t')"
  let ?e = "synthetic_edge r a b layer d"
  have t': "t' = t\<lparr>sy_publication := with_edge ?e (sy_publication t)\<rparr>"
    using run by (simp add: build_edge_def on_publication_def)
  have "edge_sound (nodes_of (sy_publication t)) ?e"
    using assms t(2) by (force simp: edge_sound_def synthetic_edge_def)
  then have "topology_sound t'" using t(1) by (simp add: t' topology_sound_def publication_sound_with)
  moreover have "holds t k \<longrightarrow> holds t' k" for k by (cases k) (simp_all add: t' publication_sound_with)
  ultimately show "topology_sound t' \<and> (\<forall>k. holds t k \<longrightarrow> holds t' k) \<and> True \<and> (\<forall>k \<in> {}. holds t' k)" by simp
qed

lemma builds_on_secondary:
  assumes "\<And>t p. topology_sound t \<Longrightarrow> \<forall>k \<in> ks. holds t k \<Longrightarrow> i < length (sy_secondary_publications t) \<Longrightarrow> p = sy_secondary_publications t ! i \<Longrightarrow>
    publication_sound (sy_directory_entries t) (nodes_of (sy_publication t) \<union> nodes_of (f p)) (f p) \<and> nodes_of p \<subseteq> nodes_of (f p) \<and> ns \<subseteq> nodes_of (f p)"
    and "ns \<noteq> {} \<longrightarrow> Position i \<in> ks"
  shows "builds ks (on_secondary i f) (\<lambda>_. True) (\<lambda>_. (\<lambda>(c, x). Secondary i c x) ` ns)"
  unfolding builds_def
proof (intro allI impI)
  fix t :: synthetic_topology and x t'
  assume t: "topology_sound t" "\<forall>k \<in> ks. holds t k" and run: "run_state (on_secondary i f) t = (x, t')"
  let ?ps = "sy_secondary_publications t"
  have t': "t' = t\<lparr>sy_secondary_publications := ?ps[i := f (?ps ! i)]\<rparr>" using run by (simp add: on_secondary_def)
  show "topology_sound t' \<and> (\<forall>k. holds t k \<longrightarrow> holds t' k) \<and> True \<and> (\<forall>k \<in> (\<lambda>(c, x). Secondary i c x) ` ns. holds t' k)"
  proof (cases "i < length ?ps")
    case True
    note new = assms(1) [OF t True refl]
    have "topology_sound t'" using t(1) new set_update_subset_insert [of ?ps i "f (?ps ! i)"] by (auto simp: t' topology_sound_def)
    moreover have "holds t k \<longrightarrow> holds t' k" for k using new True by (cases k) (auto simp: t' nth_list_update)
    ultimately show ?thesis using new True by (auto simp: t')
  next
    case False
    then have "ns = {}" using assms(2) t(2) by force
    moreover have "t' = t" using False by (cases t) (simp add: t' not_less list_update_beyond)
    ultimately show ?thesis using t(1) by simp
  qed
qed

lemma builds_retitle:
  assumes "\<And>p. nodes_of (f p) = nodes_of p \<and> (\<forall>dir ns. publication_sound dir ns p \<longrightarrow> publication_sound dir ns (f p))"
  shows "builds ks (on_secondary i f) (\<lambda>_. True) (\<lambda>_. {})"
  using builds_on_secondary [of ks i f "{}"] assms by (force simp: topology_sound_def)

lemma builds_secondary: "builds ks (secondary o' i suffix) (\<lambda>_. True) (\<lambda>_. {Position i})"
proof -
  let ?more = "State_Monad.update (\<lambda>t. t\<lparr>sy_secondary_publications :=
       sy_secondary_publications t @ replicate (Suc i - length (sy_secondary_publications t)) (new_publication o')\<rparr>)"
  have "holds t k \<Longrightarrow> holds (t\<lparr>sy_secondary_publications := sy_secondary_publications t @ ps\<rparr>) k" for t ps k
    by (cases k) (auto simp: nth_append)
  then have "builds ks ?more (\<lambda>_. True) (\<lambda>_. {Position i})"
    by (auto simp: builds_def topology_sound_def publication_sound_def new_publication_def set_replicate_conv_if)
  moreover have "builds (ks \<union> {Position i}) (on_secondary i f) (\<lambda>_. True) (\<lambda>_. {Position i})"
    if "\<And>p. nodes_of (f p) = nodes_of p \<and> (\<forall>dir ns. publication_sound dir ns p \<longrightarrow> publication_sound dir ns (f p))" for f
    using builds_retitle [OF that, of "ks \<union> {Position i}" i] unfolding builds_def by blast
  ultimately show ?thesis
    unfolding secondary_def by (rule builds_bind) (auto simp: nodes_of_def publication_sound_def)
qed

lemma builds_secondary_node:
  assumes "Position i \<in> ks"
  shows "builds ks (secondary_node i entity c tier d) (\<lambda>_. True) (\<lambda>_. {Secondary i c (derive_node_id d entity)})"
proof -
  let ?n = "synthetic_node entity c tier d" and ?r = "directory_entry entity (node_class_entity_class c)"
  have *: "builds ks (secondary_node i entity c tier d) (\<lambda>_. True) (\<lambda>_. {Secondary i c (derive_node_id d entity)}) \<longleftrightarrow>
    (\<forall>t. topology_sound t \<longrightarrow> (\<forall>k \<in> ks. holds t k) \<longrightarrow>
      (let t' = snd (run_state (on_secondary i (with_node ?n)) (t\<lparr>sy_directory_entries := sy_directory_entries t @ [?r]\<rparr>)) in
       topology_sound t' \<and> (\<forall>k. holds t k \<longrightarrow> holds t' k) \<and> holds t' (Secondary i c (derive_node_id d entity))))"
    by (simp add: builds_def secondary_node_def add_directory_entry_def on_secondary_def Let_def)
  show ?thesis unfolding *
  proof (intro allI impI)
    fix t
    assume t: "topology_sound t" "\<forall>k \<in> ks. holds t k"
    let ?t = "t\<lparr>sy_directory_entries := sy_directory_entries t @ [?r]\<rparr>"
    have i: "i < length (sy_secondary_publications t)" using assms t(2) by force
    have t1: "topology_sound ?t" using t(1) by (auto simp: topology_sound_def intro: publication_sound_more)
    have n: "on_class ?n = c" "on_node_id ?n = derive_node_id d entity" by (simp_all add: synthetic_node_def)
    let ?ps = "sy_secondary_publications t" and ?p = "with_node ?n (sy_secondary_publications t ! i)"
    let ?t' = "snd (run_state (on_secondary i (with_node ?n)) ?t)"
    have t': "?t' = ?t\<lparr>sy_secondary_publications := ?ps[i := ?p]\<rparr>" by (simp add: on_secondary_def)
    have "publication_sound (sy_directory_entries ?t) (nodes_of (sy_publication t) \<union> nodes_of (?ps ! i)) (?ps ! i)"
      using t1 i by (simp add: topology_sound_def)
    then have "publication_sound (sy_directory_entries ?t) (nodes_of (sy_publication t) \<union> nodes_of ?p) ?p"
      using listed_node_sound [of "sy_directory_entries t" entity c tier d]
      by (auto simp: publication_sound_with intro: publication_sound_more)
    then have "topology_sound ?t'" using t1 set_update_subset_insert [of ?ps i ?p] unfolding t' by (auto simp: topology_sound_def)
    moreover have "holds t k \<longrightarrow> holds ?t' k" for k using i unfolding t' by (cases k) (auto simp: nth_list_update publication_sound_with)
    moreover have "holds ?t' (Secondary i c (derive_node_id d entity))" using i n unfolding t' by (simp add: publication_sound_with)
    ultimately show "let t' = ?t' in topology_sound t' \<and> (\<forall>k. holds t k \<longrightarrow> holds t' k) \<and> holds t' (Secondary i c (derive_node_id d entity))"
      by (simp add: Let_def)
  qed
qed

lemma builds_secondary_edge:
  assumes "Secondary i ca a \<in> ks" "Secondary i cb b \<in> ks \<or> Primary cb b \<in> ks" "edge_permitted r ca cb (effective_layer r layer)"
  shows "builds ks (secondary_edge i r a b layer d) (\<lambda>_. True) (\<lambda>_. {})"
proof -
  let ?e = "synthetic_edge r a b layer d"
  have "edge_sound (nodes_of (sy_publication t) \<union> nodes_of p) ?e"
    if "\<forall>k \<in> ks. holds t k" "p = sy_secondary_publications t ! i" for t p
    using assms that by (force simp: edge_sound_def synthetic_edge_def)
  then show ?thesis
    unfolding secondary_edge_def
    using builds_on_secondary [of ks i "with_edge ?e" "{}"] by (force simp: publication_sound_with topology_sound_def)
qed

lemma builds_named: "builds ks (named name description) (\<lambda>_. True) (\<lambda>_. {})"
proof -
  have "holds (t\<lparr>sy_name := name, sy_description := description\<rparr>) k = holds t k" for t k by (cases k) simp_all
  then show ?thesis by (simp add: builds_def named_def topology_sound_def)
qed

subsection \<open>Every scenario is sound\<close>

lemma known_here: "k \<in> ks \<union> {k}" and known_before: "k \<in> ks \<Longrightarrow> k \<in> ks \<union> ks'"
  by simp_all

lemmas mask_defs = relation_endpoints_permitted_def relation_layer_permitted_def node_class_in_mask_def rules_of_def mask_of_def
  node_class_bit_def kPortish_def kContainerish_def kAllNodeClasses_def kMemberFrom_def kMemberTo_def kBackedFrom_def kBackedTo_def
  kPresentFrom_def kPresentTo_def kSwitchish_def

lemma permitted:
  "edge_permitted RC_MemberOf NC_Switch NC_Fabric (effective_layer RC_MemberOf None)"
  "edge_permitted RC_PresentsEndpoint NC_Switch NC_PhysicalPort (effective_layer RC_PresentsEndpoint (Some Physical))"
  "edge_permitted RC_PresentsEndpoint NC_Nic NC_PhysicalPort (effective_layer RC_PresentsEndpoint (Some Physical))"
  "edge_permitted RC_ConnectedTo NC_PhysicalPort NC_PhysicalPort (effective_layer RC_ConnectedTo None)"
  "edge_permitted RC_Contains NC_Site NC_Switch (effective_layer RC_Contains None)"
  "edge_permitted RC_BackedBy NC_LogicalPort NC_PhysicalPort (effective_layer RC_BackedBy None)"
  "edge_permitted RC_BackedBy NC_LogicalEndpoint NC_LogicalPort (effective_layer RC_BackedBy None)"
  "edge_permitted RC_LogicallyConnectedTo NC_LogicalPort NC_LogicalPort (effective_layer RC_LogicallyConnectedTo None)"
  "edge_permitted RC_TunneledOver NC_LogicalEndpoint NC_LogicalEndpoint (effective_layer RC_TunneledOver None)"
  by (simp_all add: edge_permitted_def effective_layer_def mask_defs)

lemmas building = builds_named builds_node builds_edge builds_each builds_done known_here known_before permitted

lemma builds_switch_fabric:
  "builds ks (build_switch_fabric entity d switches hosts tier) (\<lambda>_. True) (\<lambda>_. {Primary NC_Fabric (derive_node_id d entity)})"
proof -
  have "builds (ks \<union> {Primary NC_Fabric x} \<union> {}) (State_Monad.return ()) (\<lambda>_. True) (\<lambda>_. {Primary NC_Fabric (derive_node_id d entity)})"
    if "x = derive_node_id d entity" for x
    by (rule builds_return) (simp_all add: that)
  then show ?thesis unfolding build_switch_fabric_def Let_def by - (rule builds_bind builds_node builds_each builds_edge known_here known_before permitted | assumption)+
qed

lemma builds_ports:
  "builds ks (repeat n (\<lambda>l. build_node (entity l) c tier d)) (\<lambda>ys. length ys = n) (\<lambda>ys. Primary c ` set ys)"
proof -
  have "builds ks (build_node (entity l) c tier d) (\<lambda>_. True) (\<lambda>y. {Primary c y})" for l
    using builds_node [of ks] by (rule builds_weaken) simp_all
  then show ?thesis by (intro builds_weaken [OF builds_repeat]) auto
qed

text \<open>The ports of several switches in a row, each with the same number of them.\<close>

lemma builds_port_rows:
  assumes "\<And>s. s < n \<Longrightarrow> builds ks (f s) (\<lambda>ys. length ys = m) (\<lambda>ys. Primary c ` set ys)"
  shows "builds ks (repeat n f) (\<lambda>yss. length (concat yss) = n * m) (\<lambda>yss. Primary c ` set (concat yss))"
proof -
  have rows: "builds ks (repeat n f) (\<lambda>yss. length yss = n \<and> (\<forall>ys \<in> set yss. length ys = m)) (\<lambda>yss. \<Union>ys \<in> set yss. Primary c ` set ys)"
    by (rule builds_repeat) (rule assms)
  have "\<forall>ys \<in> set yss. length ys = m \<Longrightarrow> length (concat yss) = length yss * m" for yss :: "string list list"
    by (induction yss) simp_all
  then show ?thesis by (intro builds_weaken [OF rows]) auto
qed

lemma builds_spine: "Primary NC_Fabric fabric \<in> ks \<Longrightarrow>
  builds ks (spine_switch d fabric leaves s) (\<lambda>ys. length ys = leaves) (\<lambda>ys. Primary NC_PhysicalPort ` set ys)"
  unfolding spine_switch_def Let_def by (rule builds_bind builds_node builds_edge builds_ports known_here known_before permitted | assumption)+

lemma builds_clos_switch: "Primary NC_Fabric fabric \<in> ks \<Longrightarrow>
  builds ks (clos_switch d fabric tiers width tier i) (\<lambda>ys. length ys = width) (\<lambda>ys. Primary NC_PhysicalPort ` set ys)"
  unfolding clos_switch_def Let_def by (rule builds_bind builds_node builds_edge builds_ports known_here known_before permitted | assumption)+

lemma port_known: "i < length ys \<Longrightarrow> Primary c ` set ys \<subseteq> ks \<Longrightarrow> Primary c (ys ! i) \<in> ks"
  by auto

lemma builds_leaf:
  assumes "Primary NC_Fabric fabric \<in> ks" "Primary NC_PhysicalPort ` set ports \<subseteq> ks" "length ports = spines * leaves" "l < leaves"
  shows "builds ks (leaf_switch d fabric spines leaves ports l) (\<lambda>_. True) (\<lambda>_. {})"
proof -
  have port: "Primary NC_PhysicalPort (ports ! (s * leaves + l)) \<in> ks" if "s < spines" for s
  proof (rule port_known [OF _ assms(2)])
    have "s * leaves + l < (s + 1) * leaves" using assms(4) by simp
    also have "\<dots> \<le> spines * leaves" using that by (intro mult_le_mono1) simp
    finally show "s * leaves + l < length ports" by (simp add: assms(3))
  qed
  show ?thesis unfolding leaf_switch_def Let_def
    by (rule building builds_bind port assms(1) | assumption)+
qed

lemma builds_leaf_spine: "builds ks (leaf_spine o' d) (\<lambda>_. True) (\<lambda>_. {})"
  unfolding leaf_spine_def Let_def
  by (rule building builds_bind builds_port_rows builds_spine builds_leaf Un_upper2 | assumption | rule le_supI1)+

lemma builds_clos_tiers:
  assumes "Primary NC_Fabric fabric \<in> ks" "Primary NC_PhysicalPort ` set previous \<subseteq> ks" "0 < width"
  shows "builds ks (clos_tiers d fabric tiers width ts previous) (\<lambda>_. True) (\<lambda>_. {})"
  using assms(1,2)
proof (induction ts arbitrary: previous ks)
  case Nil
  then show ?case by (simp add: builds_done)
next
  case (Cons tier ts)
  have links: "builds (ks \<union> Primary NC_PhysicalPort ` set current) (repeat (length previous)
      (\<lambda>i. build_edge RC_ConnectedTo (previous ! i) (current ! (i mod length current)) None d)) (\<lambda>_. True) (\<lambda>_. {})"
    if "length current = width * width" for current
  proof (rule builds_each)
    fix i
    assume "i < length previous"
    then have "Primary NC_PhysicalPort (previous ! i) \<in> ks \<union> Primary NC_PhysicalPort ` set current" using Cons.prems(2) by auto
    moreover have "Primary NC_PhysicalPort (current ! (i mod length current)) \<in> ks \<union> Primary NC_PhysicalPort ` set current"
      using that assms(3) by (intro port_known) simp_all
    ultimately show "builds (ks \<union> Primary NC_PhysicalPort ` set current)
        (build_edge RC_ConnectedTo (previous ! i) (current ! (i mod length current)) None d) (\<lambda>_. True) (\<lambda>_. {})"
      by (rule builds_edge) (rule permitted)
  qed
  have "builds ks (repeat width (clos_switch d fabric tiers width tier)) (\<lambda>yss. length (concat yss) = width * width)
      (\<lambda>yss. Primary NC_PhysicalPort ` set (concat yss))"
    by (rule builds_port_rows, rule builds_clos_switch) (rule Cons.prems)
  moreover have "builds (ks \<union> Primary NC_PhysicalPort ` set current \<union> {}) (clos_tiers d fabric tiers width ts current) (\<lambda>_. True) (\<lambda>_. {})"
    for current by (rule Cons.IH) (use Cons.prems(1) in auto)
  ultimately show ?case by (auto simp only: clos_tiers.simps Let_def intro!: builds_bind links)
qed

lemma builds_clos_all: "Primary NC_Fabric fabric \<in> ks \<Longrightarrow>
  builds ks (clos_tiers d fabric tiers (scale_or n 2) ts []) (\<lambda>_. True) (\<lambda>_. {})"
  by (rule builds_clos_tiers) (simp_all add: scale_or_def)

lemma builds_rack: "Primary NC_Fabric fabric \<in> ks \<Longrightarrow> builds ks (rack d fabric hosts r) (\<lambda>_. True) (\<lambda>_. {})"
  unfolding rack_def Let_def by (rule building builds_bind | assumption)+

lemma builds_large_switch: "Primary NC_Fabric fabric \<in> ks \<Longrightarrow> builds ks (large_switch d fabric hosts s) (\<lambda>_. True) (\<lambda>_. {})"
  unfolding large_switch_def Let_def by (rule building builds_bind | assumption)+

lemma builds_large_interconnect: "builds ks (large_interconnect d s) (\<lambda>_. True) (\<lambda>_. {})"
  unfolding large_interconnect_def by (rule building builds_bind | assumption)+

lemma builds_choice:
  assumes "Primary NC_PhysicalPort x \<in> ks" "Primary NC_PhysicalPort a \<in> ks" "Primary NC_PhysicalPort b \<in> ks"
  shows "builds ks (build_edge RC_ConnectedTo x (if c then a else b) None d) (\<lambda>_. True) (\<lambda>_. {})"
  using builds_edge [OF assms(1,2) permitted(4)] builds_edge [OF assms(1,3) permitted(4)] by simp

lemma builds_fabric_alone: "builds ks (build_switch_fabric entity d switches hosts tier) (\<lambda>_. True) (\<lambda>_. {})"
  by (rule builds_weaken [OF builds_switch_fabric [of ks]]) simp_all

lemmas building_parts = builds_choice building builds_bind builds_port_rows builds_spine builds_leaf builds_clos_all builds_rack
  builds_large_switch builds_large_interconnect builds_switch_fabric builds_fabric_alone

lemmas scenario_defs = single_switch_def dual_switch_redundancy_def leaf_spine_def multi_tier_clos_def rack_to_leaf_def multi_site_def
  logical_overlay_def partitioned_def attachment_move_def large_scale_def

lemma builds_primary:
  "builds ks (single_switch d) (\<lambda>_. True) (\<lambda>_. {})"
  "builds ks (dual_switch_redundancy d) (\<lambda>_. True) (\<lambda>_. {})"
  "builds ks (multi_tier_clos o' d) (\<lambda>_. True) (\<lambda>_. {})"
  "builds ks (rack_to_leaf o' d) (\<lambda>_. True) (\<lambda>_. {})"
  "builds ks (multi_site d) (\<lambda>_. True) (\<lambda>_. {})"
  "builds ks (logical_overlay o' d) (\<lambda>_. True) (\<lambda>_. {})"
  "builds ks (partitioned d) (\<lambda>_. True) (\<lambda>_. {})"
  "builds ks (attachment_move d) (\<lambda>_. True) (\<lambda>_. {})"
  "builds ks (large_scale o' d) (\<lambda>_. True) (\<lambda>_. {})"
  unfolding scenario_defs Let_def by (rule building_parts | assumption)+

lemma builds_readdressed:
  "builds ks (on_secondary i (\<lambda>p. p\<lparr>pu_domain := d\<rparr>)) (\<lambda>_. True) (\<lambda>_. {})"
  "builds ks (on_secondary i (\<lambda>p. p\<lparr>pu_domain := d, pu_mode := m\<rparr>)) (\<lambda>_. True) (\<lambda>_. {})"
  by (rule builds_retitle, simp add: nodes_of_def publication_sound_def)+

lemmas secondary_parts = building_parts builds_secondary builds_readdressed builds_secondary_node
  builds_secondary_edge [OF _ disjI1] builds_secondary_edge [OF _ disjI2]

lemma builds_with_secondary:
  "builds ks (multiple_fabrics o' d) (\<lambda>_. True) (\<lambda>_. {})"
  "builds ks (device_replacement o' d) (\<lambda>_. True) (\<lambda>_. {})"
  "builds ks (asymmetric_publisher_scopes o' d) (\<lambda>_. True) (\<lambda>_. {})"
  "builds ks (stale_snapshot o' d) (\<lambda>_. True) (\<lambda>_. {})"
  unfolding multiple_fabrics_def device_replacement_def asymmetric_publisher_scopes_def stale_snapshot_def Let_def
  by (rule secondary_parts | assumption)+

lemma builds_scenario: "builds ks (build_scenario o') (\<lambda>_. True) (\<lambda>_. {})"
  by (simp add: build_scenario_def Let_def builds_primary builds_leaf_spine builds_with_secondary split: synthetic_scenario.split)

text \<open>C35: every synthetic topology is consistent, for every scenario, scale and number of tiers. Each
  node of each publication has the identifier that is derived for its entity, and the directory
  that comes with the topology holds that entity, live, with the class and the generation of the
  node; each edge joins nodes of its publication, or of the one before it, of classes and on a
  layer that the relation rules allow; and every publication is tagged as synthetic.\<close>

theorem synthetic_topologies_sound: "topology_sound (build_synthetic_topology options)"
proof -
  let ?o = "with_defaults options"
  have "topology_sound (start_builder ?o)"
    by (simp add: start_builder_def new_publication_def topology_sound_def publication_sound_def)
  then have "topology_sound (snd (run_state (build_scenario ?o) (start_builder ?o)))"
    using builds_scenario [of "{}" ?o] unfolding builds_def by (metis empty_iff prod.collapse)
  then show ?thesis
    by (auto simp: build_synthetic_topology_def Let_def topology_sound_def publication_sound_def nodes_of_def)
qed

lemma scenario_string_round_trip: "synthetic_scenario_from_string (scenario_string v) = Some v"
  by (cases v) (simp_all add: synthetic_scenario_from_string_def synthetic_scenarios_def)

end
