(* ===== verification/Spec2Isabelle.thy ===== *)
theory Spec2Isabelle
  imports Runs Cycle Diff Integrity Traversal Publishing Recovery Snapshots Client Seed Synthetic
begin

text \<open>
  Fabric Topology keeps an authoritative graph of network nodes and typed relationships. Publishers
  assert relationships under a worker boot and a coordinator epoch; the engine checks their
  authority, the relation rules and the consistency of the graph, applies a mutation in a
  transaction with an undo log, and moves a topology generation forward by one. This library is a
  shallow embedding of that core.

  Program parts and theories, in the order of the code:

  \<^item> \<open>Prelude\<close>: machine types, finite maps (\<open>std::unordered_map\<close> as \<open>mapping\<close>), sorted listings, shared lemmas.
  \<^item> \<open>Types\<close> (\<open>types.hpp\<close>, \<open>types.cpp\<close>): the vocabularies, their codes and texts, class masks, the relation rules.
  \<^item> \<open>Identifiers\<close> (\<open>ids\<close>, \<open>limits\<close>): identifier validation, counters, checked arithmetic, limits.
  \<^item> \<open>Outcomes\<close> (\<open>result\<close>): outcomes and explanations with bounded fields.
  \<^item> \<open>Codec\<close> (\<open>codec\<close>): the record writer and the bounds-checked reader.
  \<^item> \<open>Digest\<close> (\<open>digest.cpp\<close>): SHA-256 against the padding of FIPS 180-4, CRC-32 against its bitwise form, FNV-1a.
  \<^item> \<open>Metadata\<close> (\<open>metadata.cpp\<close>): sorted, bounded key/value entries.
  \<^item> \<open>Registry\<close> (\<open>registry.cpp\<close>): the in-memory entity directory and the life of an identity.
  \<^item> \<open>Index\<close>: the two index interfaces as locales; \<open>Graph_State\<close> interprets them on every index of the graph.
  \<^item> \<open>Graph_State\<close> (\<open>graph_state.hpp\<close>, \<open>graph_state.cpp\<close>): node and edge records, the maps and the twelve
    derived indexes, insert, erase, update and mutate; the invariant \<open>graph_inv\<close> is kept by each.
  \<^item> \<open>Integrity\<close>: \<open>rebuild_indexes\<close> and \<open>verify_indexes\<close> against that invariant.
  \<^item> \<open>Canonical\<close>: scopes, listings, canonical bytes, the topology digest, derived identifiers, renderings.
  \<^item> \<open>Cycle\<close>: \<open>would_create_cycle\<close>, exact for reachability, and acyclicity of the acyclic relations.
  \<^item> \<open>Txn\<close> (\<open>StateTxn\<close>): the undo log and rollback.
  \<^item> \<open>Diff\<close> (\<open>diff.cpp\<close>): snapshots as values and the diff of two.
  \<^item> \<open>Authority\<close> (\<open>engine_impl.hpp\<close>, \<open>topology_engine.cpp\<close>): the engine record, the replay ledger, the authority check.
  \<^item> \<open>Admin\<close>: domains and cross-domain rules.
  \<^item> \<open>Fencing\<close>: registration, fences, coordinator epoch.
  \<^item> \<open>Mutation\<close> (\<open>topology_mutations.cpp\<close>, \<open>mutations.hpp\<close>): the result of a mutation, the counters,
    \<open>finalize_mutation\<close> with its two ways to end; what a committed and an undone transaction leave.
  \<^item> \<open>Candidate\<close> (\<open>reconciliation.cpp\<close>): the domains of a relationship and the validation of a candidate.
  \<^item> \<open>Wellformed\<close>: the invariant \<open>graph_ok\<close> of the authoritative graph and the changes that keep it.
  \<^item> \<open>Nodes\<close> (\<open>topology_engine.cpp\<close>): \<open>add_node\<close>, \<open>remove_node\<close>.
  \<^item> \<open>Relationships\<close>, \<open>Lifecycle\<close>, \<open>Rebind\<close> (\<open>topology_mutations.cpp\<close>): assertion and attachment; evidence,
    revalidation, supersession, retirement and detachment; new endpoint generations and moves.
  \<^item> \<open>Machine\<close>: the administration, fencing, node and relationship operations as a step relation, with every
    outcome of the durable write, and what each step keeps. Of the moves it has those that satisfy \<open>safe_move\<close>.
  \<^item> \<open>Traversal\<close> (\<open>traversal.cpp\<close>): the bounded breadth first search; it returns on every graph, and lists
    exactly the nodes nearest to its origin with their distances.
  \<^item> \<open>Validation\<close> (\<open>validation.cpp\<close>): the consistency report, with the stack of its cycle search; what it accepts is
    stated without the search.
  \<^item> \<open>Publication\<close> (\<open>publication.hpp\<close>, \<open>reconciliation.cpp\<close>): \<open>publish\<close>, one definition per step of the handler.
    \<open>Reconcile\<close>: the changes a publication may make, as a relation on graphs every step belongs to;
    \<open>Published\<close>: the replacement of a snapshot and the two ways the handler ends; \<open>Observed\<close>: what each entry
    leaves; \<open>Publishing\<close>: the properties of the handler, those that rest on the invariant under the condition that its
    relationship identifiers agree with the stored ones, which the code does not check.
  \<^item> \<open>Wire\<close>: decoders as steps that may fail, enumerators on the wire (a locale, interpreted for every
    enumeration), and records whose decoder inverts their encoder (a locale). \<open>Persistence\<close>
    (\<open>persistence.cpp\<close>): the durable payload, record by record; \<open>Stored\<close>: the decoder rebuilds the graph
    that was encoded; \<open>Recovery\<close>: the container, saving, inspection and the conservative load.
  \<^item> \<open>Forward\<close>: fences, epoch and generation under every operation, every move and every publication, from any
    state. \<open>Runs\<close>: the engine over time, with publications, snapshots, loads and a directory that changes; the
    reachable states and what holds of every run. Two kinds of request are left out where the invariant
    of the graph is at stake, because the code does not check them and they can break it: moves outside
    \<open>safe_move\<close> and publications outside \<open>relationships_agree\<close>. A load is a step of the reachable states only for an
    image that a reachable engine saved and that fits the loader (\<open>image_loadable\<close>), and no step where fences, counters or the end of a
    relationship are concerned, since it replaces them all by older ones.
  \<^item> \<open>Queries\<close> (\<open>topology_query.cpp\<close>): filters, lookups, listings through the indexes, explanations and statistics; every
    listing is a filter of the whole topology. \<open>Snapshots\<close> (\<open>snapshot.cpp\<close>): building one while mutations land,
    the history, and the check of a snapshot against the engine.
  \<^item> \<open>Protocol\<close> (\<open>protocol.cpp\<close>): the frame and the codec of every message; \<open>Messages\<close>: each message is read back as
    it was written (the locale of \<open>Wire\<close>, interpreted for every record); \<open>Framing\<close>
    (\<open>runtime/frame_transport.cpp\<close>): the transport over a sequence of socket events, which delivers what was
    sent however the stream is cut.
  \<^item> \<open>Coordinator\<close> (\<open>runtime/coordinator.cpp\<close>): handshake, delegation, serving, queries and the end of a session,
    and the coordinator as a system of interleaved sessions; \<open>Sessions\<close>: a session acts only as itself, and one
    that has ended stays fenced.
  \<^item> \<open>Client\<close> (\<open>runtime/publisher_client.cpp\<close>): the requests of a publisher; a publication made through a client and a
    session is the publication made on the engine of the coordinator. \<open>Seed\<close> (\<open>runtime/registry_seed.cpp\<close>): the directory
    as text, which gives back the directory it was written from.
  \<^item> \<open>Synthetic\<close> (\<open>synthetic.cpp\<close>): the scenarios as builders in the state monad, with a rule for each step of a builder;
    every topology they build is backed by its directory and obeys the relation rules.
  \<^item> \<open>Samples\<close>: one small engine on which the witnesses of the mutations run.

  A mutation is a function from a request and an engine to its result and the engine afterwards; an
  early return of the code is a branch that answers with the explanation the code builds. The file
  write is a parameter: a function from the engine to its outcome (\<open>file_result\<close>), on which no
  theorem assumes anything. The locks are left out: each operation holds both mutexes from its first
  read of the state to its last write, so operations are atomic steps. \<open>detach_endpoint\<close> is the exception:
  it chooses the edge under a shared lock, releases it and then retires the edge; the model runs both
  parts without a step between them. A snapshot is built from two states, for the code reads the content
  under one lock and records it under another. A turn of a session is one step, for it changes the
  engine through one operation, or, at its end, through the two fences.

  Loops without an evident bound (\<open>cycle_search\<close>, \<open>traverse_loop\<close>) are partial functions, shown to return; every other
  recursion is structural or has a measure. \<open>receive\<close> recurses over the socket events and has no result while
  it would still wait; \<open>await\<close> recurses over the readings of the clock.

  Not modelled: the sockets, threads and clock themselves (\<open>socket_platform.cpp\<close>, \<open>listen\<close>, \<open>connect_to\<close>), the host
  discovery, which reads interfaces of the operating system, and the command line tools, examples and benchmarks.
\<close>

end
